(* ===== verification/Opkg_Base.thy ===== *)
theory Opkg_Base
  imports Main "HOL-Library.Word"
begin

text \<open>
  Shared vocabulary of the development: C characters and strings, the functions of the C
  standard library the sources call (character classes, \<open>strcmp\<close>, \<open>strchr\<close>, \<open>strtoul\<close>,
  \<open>printf\<close> of decimal numbers), and the contract of a three-way comparison function, the
  interface between the comparison functions of \<open>libopkg/pkg.c\<close> and the sorting code.

  A \<open>char *\<close> that is not NULL is a \<^typ>\<open>string\<close>: the bytes before the terminating NUL, so a
  modelled string never holds NUL itself. A pointer that may be NULL is a \<^typ>\<open>string option\<close>.
  Plain \<open>char\<close> is signed, as on every host the tools are built for; the C locale is used (no
  file calls \<open>setlocale\<close>). \<open>unsigned long\<close> has 64 bits, \<open>unsigned int\<close> 32.
\<close>

named_theorems cstr_simps \<open>evaluation of the character and string functions of the C library\<close>

type_synonym ulong = "64 word"
type_synonym uint = "32 word"
type_synonym byte = "8 word"

section \<open>Characters\<close>

definition cval :: "char \<Rightarrow> int" where
  "cval c = (let n = of_char c in if n < 128 then n else n - 256)"

definition cur :: "string \<Rightarrow> int" where
  "cur s = (case s of [] \<Rightarrow> 0 | c # _ \<Rightarrow> cval c)"

definition is_digit :: "int \<Rightarrow> bool" where
  "is_digit x \<longleftrightarrow> 48 \<le> x \<and> x \<le> 57"

definition is_alpha :: "int \<Rightarrow> bool" where
  "is_alpha x \<longleftrightarrow> 65 \<le> x \<and> x \<le> 90 \<or> 97 \<le> x \<and> x \<le> 122"

definition is_space :: "int \<Rightarrow> bool" where
  "is_space x \<longleftrightarrow> x = 32 \<or> 9 \<le> x \<and> x \<le> 13"

definition isdigit :: "char \<Rightarrow> bool" where "isdigit c \<longleftrightarrow> is_digit (cval c)"
definition isalpha :: "char \<Rightarrow> bool" where "isalpha c \<longleftrightarrow> is_alpha (cval c)"
definition isspace :: "char \<Rightarrow> bool" where "isspace c \<longleftrightarrow> is_space (cval c)"

definition tolower :: "char \<Rightarrow> char" where
  "tolower c = (if 65 \<le> cval c \<and> cval c \<le> 90 then char_of (cval c + 32) else c)"

lemmas char_class_defs = cval_def is_digit_def is_alpha_def is_space_def
  isdigit_def isalpha_def isspace_def tolower_def
declare char_class_defs [cstr_simps]

lemma of_char_int_bounds: "0 \<le> (of_char c :: int)" "(of_char c :: int) < 256"
proof -
  have "(of_char c :: int) = int (of_char c)" by (simp add: of_nat_of_char)
  then show "0 \<le> (of_char c :: int)" "(of_char c :: int) < 256"
    using nat_of_char_less_256 [of c] by simp_all
qed

lemma cval_bounds: "-128 \<le> cval c" "cval c < 128"
  using of_char_int_bounds [of c] by (simp_all add: cval_def Let_def)

lemma cval_inj [simp]: "cval c = cval d \<longleftrightarrow> c = d"
proof
  assume "cval c = cval d"
  then have "of_char c = (of_char d :: int)"
    using of_char_int_bounds [of c] of_char_int_bounds [of d]
    by (auto simp: cval_def Let_def split: if_splits)
  then show "c = d" by simp
qed simp

lemma cur_simps [simp]: "cur [] = 0" "cur (c # s) = cval c"
  by (simp_all add: cur_def)

section \<open>Strings\<close>

definition cstring :: "string \<Rightarrow> bool" where
  "cstring s \<longleftrightarrow> CHR 0x00 \<notin> set s"

lemma cstring_simps [simp]:
  "cstring []" "cstring (c # s) \<longleftrightarrow> c \<noteq> CHR 0x00 \<and> cstring s"
  "cstring (s @ t) \<longleftrightarrow> cstring s \<and> cstring t"
  by (auto simp: cstring_def)

lemma cval_NUL [simp]: "cval CHR 0x00 = 0"
  by (simp add: cval_def)

lemma cval_0_iff [simp]: "cval c = 0 \<longleftrightarrow> c = CHR 0x00"
  by (metis cval_NUL cval_inj)

text \<open>
  \<open>strcmp\<close> compares the bytes as unsigned characters. The C standard fixes the sign of its
  result only, and the sources only use the sign; here it is -1, 0 or 1.
\<close>

fun strcmp :: "string \<Rightarrow> string \<Rightarrow> int" where
  "strcmp [] [] = 0"
| "strcmp [] (d # ds) = -1"
| "strcmp (c # cs) [] = 1"
| "strcmp (c # cs) (d # ds) =
     (if c = d then strcmp cs ds else if (of_char c :: nat) < of_char d then -1 else 1)"

lemma strcmp_eq_0: "strcmp s t = 0 \<longleftrightarrow> s = t"
  by (induction s t rule: strcmp.induct) auto

text \<open>\<open>strncmp s t (strlen t) == 0\<close>: \<open>t\<close> is a prefix of \<open>s\<close>.\<close>

fun starts_with :: "string \<Rightarrow> string \<Rightarrow> bool" where
  "starts_with s [] = True"
| "starts_with [] (d # ds) = False"
| "starts_with (c # cs) (d # ds) = (c = d \<and> starts_with cs ds)"

definition strcasecmp_eq :: "string \<Rightarrow> string \<Rightarrow> bool" where
  "strcasecmp_eq s t \<longleftrightarrow> map tolower s = map tolower t"

text \<open>\<open>strchr s c\<close>: the string from the first \<open>c\<close> on, if there is one.\<close>

fun strchr :: "string \<Rightarrow> char \<Rightarrow> string option" where
  "strchr [] c = None"
| "strchr (d # ds) c = (if d = c then Some (d # ds) else strchr ds c)"

text \<open>
  \<open>strrchr s c\<close>, read as a split: the text before the last \<open>c\<close> and the text after it.
\<close>

fun strrsplit :: "string \<Rightarrow> char \<Rightarrow> (string \<times> string) option" where
  "strrsplit [] c = None"
| "strrsplit (d # ds) c =
     (case strrsplit ds c of
        Some (a, b) \<Rightarrow> Some (d # a, b)
      | None \<Rightarrow> if d = c then Some ([], ds) else None)"

lemma starts_with_iff: "starts_with s t \<longleftrightarrow> (\<exists>r. s = t @ r)"
  by (induction s t rule: starts_with.induct) auto

lemma starts_with_append [simp]: "starts_with (t @ r) t"
  by (auto simp: starts_with_iff)

lemma strchr_None: "strchr s c = None \<longleftrightarrow> c \<notin> set s"
  by (induction s) auto

lemma strchr_append: "c \<notin> set a \<Longrightarrow> strchr (a @ c # b) c = Some (c # b)"
  by (induction a) auto

lemma strrsplit_None: "strrsplit s c = None \<longleftrightarrow> c \<notin> set s"
  by (induction s) (auto split: option.splits)

lemma strrsplit_Some: "strrsplit s c = Some (a, b) \<longleftrightarrow> s = a @ c # b \<and> c \<notin> set b"
proof (induction s arbitrary: a b)
  case Nil then show ?case by simp
next
  case (Cons d ds)
  show ?case
  proof (cases "strrsplit ds c")
    case None
    then have "c \<notin> set ds" by (simp add: strrsplit_None)
    then show ?thesis using None by (cases a) auto
  next
    case (Some p)
    then obtain x y where p: "p = (x, y)" "ds = x @ c # y" "c \<notin> set y"
      using Cons.IH by (cases p) auto
    have "\<And>a'. ds = a' @ c # b \<and> c \<notin> set b \<longleftrightarrow> x = a' \<and> y = b"
      using Cons.IH Some p(1) by auto
    moreover have "c \<in> set ds" using p(2) by simp
    moreover have "strrsplit (d # ds) c = Some (d # x, y)" using Some p(1) by simp
    ultimately show ?thesis by (cases a) (auto simp del: strrsplit.simps)
  qed
qed

section \<open>Decimal numbers\<close>

definition digit_char :: "nat \<Rightarrow> char" where "digit_char n = char_of (48 + n)"

text \<open>\<open>printf\<close> with \<open>%u\<close> or \<open>%lu\<close>.\<close>

fun show_nat :: "nat \<Rightarrow> string" where
  "show_nat n = (if n < 10 then [digit_char n] else show_nat (n div 10) @ [digit_char (n mod 10)])"

declare show_nat.simps [simp del]

text \<open>\<open>printf\<close> with \<open>%d\<close> or \<open>%ld\<close>.\<close>

definition show_int :: "int \<Rightarrow> string" where
  "show_int i = (if i < 0 then CHR ''-'' # show_nat (nat (- i)) else show_nat (nat i))"

text \<open>The value of the digits of a number, most significant first.\<close>

definition digit_val :: "char \<Rightarrow> nat" where "digit_val c = nat (cval c - 48)"

definition num :: "string \<Rightarrow> nat" where
  "num ds = foldl (\<lambda>n d. 10 * n + digit_val d) 0 ds"

text \<open>
  \<open>strtoul s NULL 10\<close>: white space, an optional sign, then decimal digits; the largest
  value where the number does not fit (\<open>errno\<close> is then \<open>ERANGE\<close>, the second result), and the
  negated number, modulo the word size, after a minus sign.
\<close>

definition strtoul10 :: "string \<Rightarrow> ulong \<times> bool" where
  "strtoul10 s0 =
     (let s = dropWhile isspace s0;
          neg = (s \<noteq> [] \<and> hd s = CHR ''-'');
          s' = (if s \<noteq> [] \<and> (hd s = CHR ''-'' \<or> hd s = CHR ''+'') then tl s else s);
          n = num (takeWhile isdigit s')
      in if n \<ge> 2 ^ 64 then (- 1, True)
         else (if neg then - of_nat n else of_nat n, False))"

text \<open>The value of a hexadecimal digit.\<close>

definition hex_val :: "char \<Rightarrow> nat option" where
  "hex_val c =
     (let v = cval c in
      if 48 \<le> v \<and> v \<le> 57 then Some (nat (v - 48))
      else if 65 \<le> v \<and> v \<le> 70 then Some (nat (v - 55))
      else if 97 \<le> v \<and> v \<le> 102 then Some (nat (v - 87)) else None)"

lemma digit_char_simps [simp]:
  assumes "n < 10"
  shows "cval (digit_char n) = 48 + int n" "isdigit (digit_char n)" "digit_val (digit_char n) = n"
proof -
  have "(of_char (char_of (48 + n) :: char) :: nat) = 48 + n" using assms by simp
  then have "(of_char (digit_char n) :: int) = 48 + int n"
    by (metis digit_char_def of_nat_add of_nat_numeral of_nat_of_char)
  with assms show c: "cval (digit_char n) = 48 + int n" by (simp add: cval_def)
  from c assms show "isdigit (digit_char n)" by (simp add: isdigit_def is_digit_def)
  from c show "digit_val (digit_char n) = n" by (simp add: digit_val_def)
qed

lemma num_Nil [simp]: "num [] = 0" by (simp add: num_def)

lemma num_snoc [simp]: "num (ds @ [d]) = 10 * num ds + digit_val d"
  by (simp add: num_def)

lemma show_nat_digits: "list_all isdigit (show_nat n) \<and> show_nat n \<noteq> []"
proof (induction n rule: show_nat.induct)
  case (1 n)
  then show ?case by (auto simp: show_nat.simps [of n])
qed

lemma num_show_nat [simp]: "num (show_nat n) = n"
proof (induction n rule: show_nat.induct)
  case (1 n)
  then show ?case
    by (subst show_nat.simps) (simp add: num_def [of "[_]"])
qed

lemma num_append: "num (as @ bs) = num as * 10 ^ length bs + num bs"
proof (induction bs rule: rev_induct)
  case (snoc b bs)
  then show ?case by (simp flip: append_assoc add: algebra_simps)
qed simp

lemma num_Cons: "num (d # ds) = digit_val d * 10 ^ length ds + num ds"
  using num_append [of "[d]" ds] by (simp add: num_def [of "[_]"])

lemma digit_val_less: "isdigit d \<Longrightarrow> digit_val d < 10"
  by (auto simp: isdigit_def is_digit_def digit_val_def)

lemma num_less: "list_all isdigit ds \<Longrightarrow> num ds < 10 ^ length ds"
proof (induction ds)
  case (Cons d ds)
  then have "digit_val d * 10 ^ length ds + num ds < (digit_val d + 1) * 10 ^ length ds"
    by simp
  also have "\<dots> \<le> 10 * 10 ^ length ds"
    using digit_val_less [of d] Cons.prems by (intro mult_right_mono) auto
  finally show ?case by (simp add: num_Cons)
qed simp

lemma num_ge: "isdigit d \<Longrightarrow> d \<noteq> CHR ''0'' \<Longrightarrow> 10 ^ length ds \<le> num (d # ds)"
proof -
  assume d: "isdigit d" "d \<noteq> CHR ''0''"
  have "cval CHR ''0'' = 48" by (simp add: cval_def)
  then have "cval d \<noteq> 48" using d(2) by (metis cval_inj)
  then have "1 \<le> digit_val d" using d(1) by (auto simp: isdigit_def is_digit_def digit_val_def)
  then have "1 * 10 ^ length ds \<le> digit_val d * 10 ^ length ds" by (intro mult_right_mono) auto
  then show ?thesis unfolding num_Cons by linarith
qed

lemma digit_0 [simp]: "digit_val CHR ''0'' = 0" "isdigit CHR ''0''"
  by (simp_all add: digit_val_def isdigit_def is_digit_def cval_def)

lemma isdigit_not [simp]:
  "isdigit c \<Longrightarrow> \<not> isspace c" "isdigit c \<Longrightarrow> c \<noteq> CHR ''-''" "isdigit c \<Longrightarrow> c \<noteq> CHR ''+''"
  "isdigit c \<Longrightarrow> c \<noteq> CHR '':''"
  by (auto simp: isdigit_def isspace_def is_digit_def is_space_def cval_def)

lemma strtoul10_show_nat:
  assumes "n < 2 ^ 64" "\<not> isdigit c"
  shows "strtoul10 (show_nat n @ c # s) = (of_nat n, False)"
proof -
  have d: "list_all isdigit (show_nat n)" "show_nat n \<noteq> []" using show_nat_digits by auto
  then obtain x xs where x: "show_nat n = x # xs" "isdigit x" by (cases "show_nat n") auto
  have t: "takeWhile isdigit (show_nat n @ c # s) = show_nat n"
    using d assms(2) by (simp add: takeWhile_append2 list_all_iff takeWhile_append)
  have "dropWhile isspace (show_nat n @ c # s) = show_nat n @ c # s" using x by simp
  moreover have "hd (show_nat n @ c # s) = x" using x by simp
  moreover have "num (show_nat n) = n" by simp
  ultimately show ?thesis
    using x(1) assms(1) t isdigit_not(2,3) [OF x(2)]
    by (simp only: strtoul10_def Let_def) (simp del: num_show_nat add: not_le)
qed

end
