(* ===== verification/Opkg_Compare.thy ===== *)
theory Opkg_Compare
  imports Opkg_Base "HOL-Library.Multiset"
begin

text \<open>
  The contract of a three-way comparison function, as \<open>qsort\<close> and the sorting routines of
  \<open>libopkg\<close> require it: the result changes sign when the arguments are swapped, and "not
  greater" is transitive. \<open>strcmp\<close> satisfies it, and it carries over to comparisons of a key
  and to lexicographic combinations, the two ways \<open>libopkg/pkg.c\<close> builds its comparisons.
\<close>

locale comparator =
  fixes ok :: "'a \<Rightarrow> bool" and cmp :: "'a \<Rightarrow> 'a \<Rightarrow> int"
  assumes cmp_swap: "ok a \<Longrightarrow> ok b \<Longrightarrow> sgn (cmp a b) = - sgn (cmp b a)"
    and cmp_trans: "ok a \<Longrightarrow> ok b \<Longrightarrow> ok c \<Longrightarrow> cmp a b \<le> 0 \<Longrightarrow> cmp b c \<le> 0 \<Longrightarrow> cmp a c \<le> 0"
begin

lemma cmp_refl: "ok a \<Longrightarrow> cmp a a = 0"
  using cmp_swap [of a a] by (simp add: sgn_if split: if_splits)

lemma cmp_less_iff: "ok a \<Longrightarrow> ok b \<Longrightarrow> cmp a b < 0 \<longleftrightarrow> 0 < cmp b a"
  using cmp_swap [of a b] by (auto simp: sgn_if split: if_splits)

lemma cmp_le_iff: "ok a \<Longrightarrow> ok b \<Longrightarrow> cmp a b \<le> 0 \<longleftrightarrow> 0 \<le> cmp b a"
  using cmp_swap [of a b] by (auto simp: sgn_if split: if_splits)

lemma cmp_zero_swap: "ok a \<Longrightarrow> ok b \<Longrightarrow> cmp a b = 0 \<longleftrightarrow> cmp b a = 0"
  using cmp_swap [of a b] by (auto simp: sgn_if split: if_splits)

lemma cmp_total: "ok a \<Longrightarrow> ok b \<Longrightarrow> cmp a b \<le> 0 \<or> cmp b a \<le> 0"
  using cmp_swap [of a b] by (auto simp: sgn_if split: if_splits)

lemma cmp_zero_trans:
  "ok a \<Longrightarrow> ok b \<Longrightarrow> ok c \<Longrightarrow> cmp a b = 0 \<Longrightarrow> cmp b c = 0 \<Longrightarrow> cmp a c = 0"
  using cmp_trans [of a b c] cmp_trans [of c b a] cmp_zero_swap [of a b] cmp_zero_swap [of b c]
    cmp_le_iff [of c a] by simp

lemma cmp_less_trans:
  "ok a \<Longrightarrow> ok b \<Longrightarrow> ok c \<Longrightarrow> cmp a b < 0 \<Longrightarrow> cmp b c \<le> 0 \<Longrightarrow> cmp a c < 0"
  using cmp_trans [of b c a] cmp_less_iff [of a b] cmp_less_iff [of a c] cmp_le_iff [of c a]
  by linarith

lemma cmp_zero_cong:
  assumes "ok a" "ok b" "ok c" and z: "cmp a b = 0"
  shows "sgn (cmp a c) = sgn (cmp b c)"
proof -
  have z': "cmp b a = 0" using cmp_zero_swap assms by blast
  have le: "cmp a c \<le> 0 \<longleftrightarrow> cmp b c \<le> 0"
    using cmp_trans [of a b c] cmp_trans [of b a c] z z' assms by auto
  have "cmp c a \<le> 0 \<longleftrightarrow> cmp c b \<le> 0"
    using cmp_trans [of c a b] cmp_trans [of c b a] z z' assms by auto
  then have "0 \<le> cmp a c \<longleftrightarrow> 0 \<le> cmp b c"
    using cmp_le_iff assms by metis
  with le show ?thesis
    by (cases "cmp a c \<le> 0"; cases "0 \<le> cmp a c") (simp_all add: sgn_if)
qed

end

lemma comparator_key:
  assumes "comparator ok cmp"
  shows "comparator (\<lambda>a. ok (f a)) (\<lambda>a b. cmp (f a) (f b))"
  by standard (rule comparator.cmp_swap [OF assms], assumption+,
    rule comparator.cmp_trans [OF assms], assumption+)

lemma comparator_mono:
  assumes "comparator ok cmp" and "\<And>a. ok' a \<Longrightarrow> ok a"
    and "\<And>a b. ok' a \<Longrightarrow> ok' b \<Longrightarrow> sgn (cmp' a b) = sgn (cmp a b)"
  shows "comparator ok' cmp'"
proof
  fix a b assume "ok' a" "ok' b"
  then show "sgn (cmp' a b) = - sgn (cmp' b a)"
    using assms comparator.cmp_swap [OF assms(1), of a b] by simp
next
  fix a b c assume *: "ok' a" "ok' b" "ok' c" "cmp' a b \<le> 0" "cmp' b c \<le> 0"
  have le: "x \<le> 0 \<longleftrightarrow> y \<le> 0" if "sgn x = sgn y" for x y :: int
    using that by (auto simp: sgn_if split: if_splits)
  have "cmp a b \<le> 0" "cmp b c \<le> 0" using * le [OF assms(3)] by blast+
  then have "cmp a c \<le> 0" using comparator.cmp_trans [OF assms(1)] * assms(2) by blast
  then show "cmp' a c \<le> 0" using * le [OF assms(3)] by blast
qed

lemma comparator_lex:
  assumes "comparator ok c1" and "comparator ok c2"
  shows "comparator ok (\<lambda>a b. if c1 a b \<noteq> 0 then c1 a b else c2 a b)"
proof
  fix a b assume "ok a" "ok b"
  then show "sgn (if c1 a b \<noteq> 0 then c1 a b else c2 a b) = - sgn (if c1 b a \<noteq> 0 then c1 b a else c2 b a)"
    using comparator.cmp_swap [OF assms(1), of a b] comparator.cmp_swap [OF assms(2), of a b]
      comparator.cmp_zero_swap [OF assms(1), of a b] by auto
next
  fix a b c
  assume "ok a" "ok b" "ok c" "(if c1 a b \<noteq> 0 then c1 a b else c2 a b) \<le> 0"
    "(if c1 b c \<noteq> 0 then c1 b c else c2 b c) \<le> 0"
  then show "(if c1 a c \<noteq> 0 then c1 a c else c2 a c) \<le> 0"
    using comparator.cmp_trans [OF assms(1), of a b c] comparator.cmp_trans [OF assms(2), of a b c]
      comparator.cmp_less_trans [OF assms(1), of a b c] comparator.cmp_zero_cong [OF assms(1), of a b c]
      comparator.cmp_zero_trans [OF assms(1), of a b c]
    by (auto split: if_splits simp: sgn_if)
qed

lemma comparator_int: "comparator (\<lambda>_. True) (\<lambda>a b. if f a > f b then 1 else if f a < f b then -1 else 0)"
  for f :: "'a \<Rightarrow> 'b::linorder"
  by standard (auto split: if_splits)

section \<open>\<open>strcmp\<close>\<close>

lemma strcmp_refl: "strcmp s s = 0"
  by (induction s) auto

lemma strcmp_zero [simp]: "strcmp s t = 0 \<longleftrightarrow> s = t"
  by (induction s t rule: strcmp.induct) auto

lemma strcmp_swap: "strcmp s t = - strcmp t s"
  by (induction s t rule: strcmp.induct) auto

lemma strcmp_trans: "strcmp a b \<le> 0 \<Longrightarrow> strcmp b c \<le> 0 \<Longrightarrow> strcmp a c \<le> 0"
proof (induction a b arbitrary: c rule: strcmp.induct)
  case (4 x xs y ys)
  then show ?case by (cases c) (auto split: if_splits)
next
  case 1 then show ?case by simp
next
  case (2 d ds) then show ?case by (cases c) auto
next
  case (3 x xs) then show ?case by simp
qed

interpretation strcmp: comparator "\<lambda>_. True" strcmp
proof
  show "sgn (strcmp a b) = - sgn (strcmp b a)" for a b
    by (subst strcmp_swap) (simp add: sgn_if)
qed (rule strcmp_trans)

section \<open>\<open>qsort\<close>\<close>

text \<open>
  The C standard promises of \<open>qsort\<close> that the result is a sorted permutation, not in which
  order elements that compare equal come out. The definitions of the development use the
  \<open>qsort\<close> below, a stable one, as the merge sort of the C library of the hosts is one; it is
  written as an insertion sort. A property that needs stability takes the sort as a parameter
  and names the contract \<open>stable_sort\<close> as its hypothesis.
\<close>

fun qsort_insert :: "('a \<Rightarrow> 'a \<Rightarrow> int) \<Rightarrow> 'a \<Rightarrow> 'a list \<Rightarrow> 'a list" where
  "qsort_insert cmp x [] = [x]"
| "qsort_insert cmp x (y # ys) =
     (if cmp x y \<le> 0 then x # y # ys else y # qsort_insert cmp x ys)"

fun qsort :: "('a \<Rightarrow> 'a \<Rightarrow> int) \<Rightarrow> 'a list \<Rightarrow> 'a list" where
  "qsort cmp [] = []"
| "qsort cmp (x # xs) = qsort_insert cmp x (qsort cmp xs)"

lemma mset_qsort_insert [simp]: "mset (qsort_insert cmp x ys) = add_mset x (mset ys)"
  by (induction ys) auto

lemma mset_qsort [simp]: "mset (qsort cmp xs) = mset xs"
  by (induction xs) auto

lemma set_qsort [simp]: "set (qsort cmp xs) = set xs"
  using mset_qsort [of cmp xs] by (metis set_mset_mset)

lemma length_qsort [simp]: "length (qsort cmp xs) = length xs"
  using mset_qsort [of cmp xs] by (metis size_mset)

lemma qsort_Nil_iff [simp]: "qsort cmp xs = [] \<longleftrightarrow> xs = []"
  by (metis length_0_conv length_qsort)

context comparator
begin

lemma sorted_qsort_insert:
  "list_all ok ys \<Longrightarrow> ok x \<Longrightarrow> sorted_wrt (\<lambda>a b. cmp a b \<le> 0) ys \<Longrightarrow>
   sorted_wrt (\<lambda>a b. cmp a b \<le> 0) (qsort_insert cmp x ys)"
proof (induction ys)
  case (Cons y ys)
  have s: "set (qsort_insert cmp x ys) = insert x (set ys)"
    by (metis mset_qsort_insert set_mset_add_mset_insert set_mset_mset)
  show ?case
  proof (cases "cmp x y \<le> 0")
    case True
    then have "cmp x z \<le> 0" if "z \<in> set ys" for z
      using that Cons.prems cmp_trans [of x y z] by (auto simp: list_all_iff)
    with True Cons.prems show ?thesis by simp
  next
    case False
    then have "cmp y x \<le> 0" using cmp_total [of x y] Cons.prems by simp
    with False Cons show ?thesis by (simp add: s)
  qed
qed simp

lemma sorted_qsort: "list_all ok xs \<Longrightarrow> sorted_wrt (\<lambda>a b. cmp a b \<le> 0) (qsort cmp xs)"
  by (induction xs) (auto intro!: sorted_qsort_insert simp: list_all_iff)

lemma last_qsort_greatest:
  assumes "list_all ok xs" "x \<in> set xs"
  shows "cmp x (last (qsort cmp xs)) \<le> 0"
proof -
  have e: "butlast (qsort cmp xs) @ [last (qsort cmp xs)] = qsort cmp xs"
    using assms(2) by (intro append_butlast_last_id) auto
  have "sorted_wrt (\<lambda>a b. cmp a b \<le> 0) (butlast (qsort cmp xs) @ [last (qsort cmp xs)])"
    unfolding e by (rule sorted_qsort [OF assms(1)])
  moreover have "x \<in> set (butlast (qsort cmp xs) @ [last (qsort cmp xs)])"
    unfolding e using assms(2) by simp
  moreover have "ok (last (qsort cmp xs))"
    using assms last_in_set [of "qsort cmp xs"] by (auto simp: list_all_iff dest: length_pos_if_in_set)
  ultimately show ?thesis by (auto simp: sorted_wrt_append cmp_refl)
qed

lemma qsort_insert_stable:
  assumes "list_all ok (x # ys)" "ok a"
  shows "filter (\<lambda>y. cmp a y = 0) (qsort_insert cmp x ys) = filter (\<lambda>y. cmp a y = 0) (x # ys)"
  using assms(1)
proof (induction ys)
  case (Cons y ys)
  have "cmp x y \<le> 0" if "cmp a x = 0" "cmp a y = 0"
    using that Cons.prems assms(2) cmp_zero_swap [of a x] cmp_zero_trans [of x a y] by simp
  then show ?case using Cons by auto
qed simp

lemma qsort_stable:
  assumes "list_all ok xs" "ok a"
  shows "filter (\<lambda>y. cmp a y = 0) (qsort cmp xs) = filter (\<lambda>y. cmp a y = 0) xs"
  using assms(1)
proof (induction xs)
  case (Cons x xs)
  have "list_all ok (x # qsort cmp xs)" using Cons.prems by (simp add: list_all_iff)
  then show ?case using qsort_insert_stable [of x "qsort cmp xs" a] Cons assms(2) by simp
qed simp

text \<open>Two sorted lists with the same elements, equal ones in the same order, are the same list.\<close>

lemma stable_sorted_unique:
  assumes "list_all ok xs" "mset ys = mset xs"
    and "sorted_wrt (\<lambda>a b. cmp a b \<le> 0) xs" "sorted_wrt (\<lambda>a b. cmp a b \<le> 0) ys"
    and "\<And>a. ok a \<Longrightarrow> filter (\<lambda>y. cmp a y = 0) ys = filter (\<lambda>y. cmp a y = 0) xs"
  shows "ys = xs"
  using assms
proof (induction xs arbitrary: ys)
  case (Cons x xs)
  from Cons.prems(2) obtain y ys' where ys: "ys = y # ys'" by (cases ys) auto
  have m: "y \<in> set (x # xs)" "x \<in> set (y # ys')"
    using Cons.prems(2) unfolding ys by (metis list.set_intros(1) set_mset_mset)+
  have ok: "ok x" "ok y" using Cons.prems(1) m(1) by (auto simp: list_all_iff)
  have "cmp x y \<le> 0" "cmp y x \<le> 0"
    using m Cons.prems(3,4) ok cmp_refl by (auto simp: ys)
  then have z: "cmp x y = 0" using cmp_le_iff [OF ok(2,1)] by simp
  then have "x = y" using Cons.prems(5) [OF ok(1)] cmp_refl [OF ok(1)] by (simp add: ys)
  moreover have "filter (\<lambda>z. cmp a z = 0) ys' = filter (\<lambda>z. cmp a z = 0) xs" if "ok a" for a
    using Cons.prems(5) [OF that] by (simp add: ys \<open>x = y\<close> split: if_splits)
  then have "ys' = xs" using Cons.prems by (intro Cons.IH) (auto simp: ys \<open>x = y\<close>)
  ultimately show ?case by (simp add: ys)
qed simp

end

text \<open>
  The contract of a stable sort, for comparison functions that are one on the elements. It
  determines the result.
\<close>

locale stable_sort =
  fixes srt :: "('a \<Rightarrow> 'a \<Rightarrow> int) \<Rightarrow> 'a list \<Rightarrow> 'a list"
  assumes srt_permutes: "mset (srt cmp xs) = mset xs"
    and srt_sorted: "comparator ok cmp \<Longrightarrow> list_all ok xs \<Longrightarrow> sorted_wrt (\<lambda>a b. cmp a b \<le> 0) (srt cmp xs)"
    and srt_stable: "comparator ok cmp \<Longrightarrow> list_all ok xs \<Longrightarrow> ok a \<Longrightarrow>
      filter (\<lambda>y. cmp a y = 0) (srt cmp xs) = filter (\<lambda>y. cmp a y = 0) xs"
begin

lemma srt_eq_qsort:
  assumes "comparator ok cmp" "list_all ok xs"
  shows "srt cmp xs = qsort cmp xs"
proof (rule comparator.stable_sorted_unique [OF assms(1)])
  show "list_all ok (qsort cmp xs)" using assms(2) by (simp add: list_all_iff)
  show "mset (srt cmp xs) = mset (qsort cmp xs)" by (simp add: srt_permutes)
  show "filter (\<lambda>y. cmp a y = 0) (srt cmp xs) = filter (\<lambda>y. cmp a y = 0) (qsort cmp xs)" if "ok a" for a
    using that assms by (simp add: srt_stable comparator.qsort_stable)
qed (rule comparator.sorted_qsort [OF assms] srt_sorted [OF assms])+

end

interpretation stable_qsort: stable_sort qsort
  by unfold_locales
    (rule mset_qsort | erule (1) comparator.sorted_qsort | erule (2) comparator.qsort_stable)+

end
