(* ===== verification/Opkg_Types.thy ===== *)
theory Opkg_Types
  imports Opkg_Base
begin

text \<open>
  The data model of \<open>libopkg\<close>: the enumerations and structs of \<open>pkg.h\<close>, \<open>pkg_depends.h\<close> and
  \<open>nv_pair.h\<close>, with the allocating initialisers of \<open>pkg.c\<close>.

  Packages and abstract packages are shared by pointer, so they live in a store and a pointer is
  an address (\<open>pkg_ref\<close>, \<open>apkg_ref\<close>, an index into the store's list). Strings, dependency arrays
  and conffile lists belong to one package and are values inside its record. A count that the C
  struct keeps beside an array is kept beside the list, since \<open>pkg_merge\<close> moves the two apart.
  The build configuration is the default one: \<open>HAVE_SHA256\<close> is not defined.
\<close>

unbundle bit_operations_syntax

type_synonym pkg_ref = nat
type_synonym apkg_ref = nat
type_synonym src_ref = nat
type_synonym dest_ref = nat

section \<open>States\<close>

datatype state_want = SW_UNKNOWN | SW_INSTALL | SW_DEINSTALL | SW_PURGE | SW_LAST_STATE_WANT

datatype state_status = SS_NOT_INSTALLED | SS_UNPACKED | SS_HALF_CONFIGURED | SS_INSTALLED
  | SS_HALF_INSTALLED | SS_CONFIG_FILES | SS_POST_INST_FAILED | SS_REMOVAL_FAILED
  | SS_LAST_STATE_STATUS

type_synonym state_flag = uint

definition SF_OK :: state_flag where "SF_OK = 0"
definition SF_REINSTREQ :: state_flag where "SF_REINSTREQ = 1"
definition SF_HOLD :: state_flag where "SF_HOLD = 2"
definition SF_REPLACE :: state_flag where "SF_REPLACE = 4"
definition SF_NOPRUNE :: state_flag where "SF_NOPRUNE = 8"
definition SF_PREFER :: state_flag where "SF_PREFER = 16"
definition SF_OBSOLETE :: state_flag where "SF_OBSOLETE = 32"
definition SF_MARKED :: state_flag where "SF_MARKED = 64"
definition SF_FILELIST_CHANGED :: state_flag where "SF_FILELIST_CHANGED = 128"
definition SF_USER :: state_flag where "SF_USER = 256"

definition SF_NONVOLATILE_FLAGS :: state_flag where
  "SF_NONVOLATILE_FLAGS = SF_HOLD OR SF_NOPRUNE OR SF_PREFER OR SF_OBSOLETE OR SF_USER"

lemmas sf_defs = SF_OK_def SF_REINSTREQ_def SF_HOLD_def SF_REPLACE_def SF_NOPRUNE_def
  SF_PREFER_def SF_OBSOLETE_def SF_MARKED_def SF_FILELIST_CHANGED_def SF_USER_def
  SF_NONVOLATILE_FLAGS_def

section \<open>Dependencies\<close>

datatype depend_type = PREDEPEND | DEPEND | CONFLICTS | GREEDY_DEPEND | RECOMMEND | SUGGEST

datatype version_constraint = NONE | EARLIER | EARLIER_EQUAL | EQUAL | LATER_EQUAL | LATER

record depend =
  d_constraint :: version_constraint
  d_version :: "string option"
  d_pkg :: apkg_ref

record compound_depend =
  cd_type :: depend_type
  cd_possibilities :: "depend list"

section \<open>Packages\<close>

record nv_pair =
  nv_name :: "string option"
  nv_value :: "string option"

record pkg =
  p_name :: "string option"
  p_epoch :: ulong
  p_version :: "string option"
  p_revision :: "string option"
  p_src :: "src_ref option"
  p_dest :: "dest_ref option"
  p_architecture :: "string option"
  p_section :: "string option"
  p_maintainer :: "string option"
  p_description :: "string option"
  p_tags :: "string option"
  p_state_want :: state_want
  p_state_flag :: state_flag
  p_state_status :: state_status
  p_depends_str :: "string list"
  p_depends_count :: nat
  p_pre_depends_str :: "string list"
  p_pre_depends_count :: nat
  p_recommends_str :: "string list"
  p_recommends_count :: nat
  p_suggests_str :: "string list"
  p_suggests_count :: nat
  p_depends :: "compound_depend list"
  p_conflicts_str :: "string list"
  p_conflicts :: "compound_depend list option"
  p_conflicts_count :: nat
  p_replaces_str :: "string list"
  p_replaces_count :: nat
  p_replaces :: "apkg_ref list"
  p_provides_str :: "string list"
  p_provides_count :: nat
  p_provides :: "apkg_ref list option"
  p_parent :: "apkg_ref option"
  p_filename :: "string option"
  p_local_filename :: "string option"
  p_tmp_unpack_dir :: "string option"
  p_md5sum :: "string option"
  p_size :: ulong
  p_installed_size :: ulong
  p_priority :: "string option"
  p_source :: "string option"
  p_conffiles :: "nv_pair list"
  p_installed_time :: ulong
  p_installed_files :: "string list option"
  p_installed_files_ref_cnt :: int
  p_essential :: bool
  p_arch_priority :: int
  p_provided_by_hand :: bool
  p_auto_installed :: bool

text \<open>\<open>pkg_new\<close>: zeroed memory, then \<open>pkg_init\<close>.\<close>

definition pkg_new :: pkg where
  "pkg_new = \<lparr>
     p_name = None, p_epoch = 0, p_version = None, p_revision = None, p_src = None, p_dest = None,
     p_architecture = None, p_section = None, p_maintainer = None, p_description = None,
     p_tags = None, p_state_want = SW_UNKNOWN, p_state_flag = SF_OK,
     p_state_status = SS_NOT_INSTALLED,
     p_depends_str = [], p_depends_count = 0, p_pre_depends_str = [], p_pre_depends_count = 0,
     p_recommends_str = [], p_recommends_count = 0, p_suggests_str = [], p_suggests_count = 0,
     p_depends = [], p_conflicts_str = [], p_conflicts = None, p_conflicts_count = 0,
     p_replaces_str = [], p_replaces_count = 0, p_replaces = [], p_provides_str = [],
     p_provides_count = 0, p_provides = None, p_parent = None, p_filename = None,
     p_local_filename = None, p_tmp_unpack_dir = None, p_md5sum = None, p_size = 0,
     p_installed_size = 0, p_priority = None, p_source = None, p_conffiles = [],
     p_installed_time = 0, p_installed_files = None, p_installed_files_ref_cnt = 0,
     p_essential = False, p_arch_priority = 0, p_provided_by_hand = False,
     p_auto_installed = False\<rparr>"

record abstract_pkg =
  ap_name :: "string option"
  ap_dependencies_checked :: int
  ap_pkgs :: "pkg_ref list option"
  ap_state_status :: state_status
  ap_state_flag :: state_flag
  ap_depended_upon_by :: "apkg_ref list option"
  ap_provided_by :: "apkg_ref list"
  ap_replaced_by :: "apkg_ref list option"

text \<open>\<open>abstract_pkg_new\<close>: zeroed memory, then \<open>abstract_pkg_init\<close>.\<close>

definition abstract_pkg_new :: abstract_pkg where
  "abstract_pkg_new = \<lparr>
     ap_name = None, ap_dependencies_checked = 0, ap_pkgs = None,
     ap_state_status = SS_NOT_INSTALLED, ap_state_flag = 0, ap_depended_upon_by = None,
     ap_provided_by = [], ap_replaced_by = None\<rparr>"

end
