(* ===== verification/Opkg_State.thy ===== *)
theory Opkg_State
  imports Opkg_Types
begin

text \<open>
  The textual form of the three state fields (\<open>libopkg/pkg.c\<close>): the tables that pair each
  enumerator with its name, and the functions that convert in both directions. The status
  files written by \<open>pkg_print_status\<close> and read by \<open>parse_status\<close> rest on them.
\<close>

definition pkg_state_want_map :: "(state_want \<times> string) list" where
  "pkg_state_want_map =
     [(SW_UNKNOWN, ''unknown''), (SW_INSTALL, ''install''), (SW_DEINSTALL, ''deinstall''),
      (SW_PURGE, ''purge'')]"

definition pkg_state_flag_map :: "(state_flag \<times> string) list" where
  "pkg_state_flag_map =
     [(SF_OK, ''ok''), (SF_REINSTREQ, ''reinstreq''), (SF_HOLD, ''hold''), (SF_REPLACE, ''replace''),
      (SF_NOPRUNE, ''noprune''), (SF_PREFER, ''prefer''), (SF_OBSOLETE, ''obsolete''),
      (SF_USER, ''user'')]"

definition pkg_state_status_map :: "(state_status \<times> string) list" where
  "pkg_state_status_map =
     [(SS_NOT_INSTALLED, ''not-installed''), (SS_UNPACKED, ''unpacked''),
      (SS_HALF_CONFIGURED, ''half-configured''), (SS_INSTALLED, ''installed''),
      (SS_HALF_INSTALLED, ''half-installed''), (SS_CONFIG_FILES, ''config-files''),
      (SS_POST_INST_FAILED, ''post-inst-failed''), (SS_REMOVAL_FAILED, ''removal-failed'')]"

definition pkg_state_want_to_str :: "state_want \<Rightarrow> string" where
  "pkg_state_want_to_str sw =
     (case find (\<lambda>(v, str). v = sw) pkg_state_want_map of
        Some (v, str) \<Rightarrow> str
      | None \<Rightarrow> ''<STATE_WANT_UNKNOWN>'')"

definition pkg_state_want_from_str :: "string \<Rightarrow> state_want" where
  "pkg_state_want_from_str str =
     (case find (\<lambda>(v, s). strcmp str s = 0) pkg_state_want_map of
        Some (v, s) \<Rightarrow> v
      | None \<Rightarrow> SW_UNKNOWN)"

definition pkg_state_status_to_str :: "state_status \<Rightarrow> string" where
  "pkg_state_status_to_str ss =
     (case find (\<lambda>(v, str). v = ss) pkg_state_status_map of
        Some (v, str) \<Rightarrow> str
      | None \<Rightarrow> ''<STATE_STATUS_UNKNOWN>'')"

definition pkg_state_status_from_str :: "string \<Rightarrow> state_status" where
  "pkg_state_status_from_str str =
     (case find (\<lambda>(v, s). strcmp str s = 0) pkg_state_status_map of
        Some (v, s) \<Rightarrow> v
      | None \<Rightarrow> SS_NOT_INSTALLED)"

text \<open>
  Each name that is set is followed by a comma, and the last comma is cut off. The buffer is
  allocated for the whole text (\<open>flag_len\<close>), so \<open>strncat\<close> never truncates.
\<close>

fun flag_names :: "(state_flag \<times> string) list \<Rightarrow> state_flag \<Rightarrow> string" where
  "flag_names [] sf = []"
| "flag_names ((v, str) # tbl) sf =
     (if sf AND v \<noteq> 0 then str @ '','' else []) @ flag_names tbl sf"

definition pkg_state_flag_to_str :: "state_flag \<Rightarrow> string" where
  "pkg_state_flag_to_str sf0 =
     (let sf = sf0 AND SF_NONVOLATILE_FLAGS in
      if sf = 0 then ''ok'' else butlast (flag_names pkg_state_flag_map sf))"

fun flag_from_loop :: "(state_flag \<times> string) list \<Rightarrow> state_flag \<Rightarrow> string \<Rightarrow> state_flag" where
  "flag_from_loop [] sf str = sf"
| "flag_from_loop ((v, sfname) # tbl) sf str =
     (if starts_with str sfname then
        let rest = drop (length sfname) str in
        if rest \<noteq> [] \<and> hd rest = CHR '',''
        then flag_from_loop tbl (sf OR v) (tl rest)
        else sf OR v
      else flag_from_loop tbl sf str)"

definition pkg_state_flag_from_str :: "string \<Rightarrow> state_flag" where
  "pkg_state_flag_from_str str =
     (if strcmp str ''ok'' = 0 then SF_OK
      else flag_from_loop pkg_state_flag_map SF_OK str)"

section \<open>Round trips\<close>

lemma want_roundtrip:
  "sw \<noteq> SW_LAST_STATE_WANT \<Longrightarrow> pkg_state_want_from_str (pkg_state_want_to_str sw) = sw"
  by (cases sw) (simp_all add: pkg_state_want_from_str_def pkg_state_want_to_str_def
      pkg_state_want_map_def strcmp_eq_0 del: strcmp.simps)

lemma status_roundtrip:
  "ss \<noteq> SS_LAST_STATE_STATUS \<Longrightarrow> pkg_state_status_from_str (pkg_state_status_to_str ss) = ss"
  by (cases ss) (simp_all add: pkg_state_status_from_str_def pkg_state_status_to_str_def
      pkg_state_status_map_def strcmp_eq_0 del: strcmp.simps)

definition flag_of_bits :: "bool \<Rightarrow> bool \<Rightarrow> bool \<Rightarrow> bool \<Rightarrow> bool \<Rightarrow> state_flag" where
  "flag_of_bits h n p ob u =
     (if h then 2 else 0) OR (if n then 8 else 0) OR (if p then 16 else 0) OR
     (if ob then 32 else 0) OR (if u then 256 else 0)"

lemma and_exp: "x AND 2 ^ k = (if bit x k then 2 ^ k else 0)" for x :: "'a::len word"
  by (rule bit_word_eqI) (auto simp: bit_simps)

lemma nonvolatile_bits:
  "sf AND SF_NONVOLATILE_FLAGS = flag_of_bits (bit sf 1) (bit sf 3) (bit sf 4) (bit sf 5) (bit sf 8)"
  using and_exp [of sf 1] and_exp [of sf 3] and_exp [of sf 4] and_exp [of sf 5] and_exp [of sf 8]
  unfolding SF_NONVOLATILE_FLAGS_def SF_HOLD_def SF_NOPRUNE_def SF_PREFER_def SF_OBSOLETE_def
    SF_USER_def flag_of_bits_def bit.conj_disj_distrib
  by (simp only: power_one_right) simp

lemma flag_roundtrip_bits:
  "pkg_state_flag_from_str
     (if flag_of_bits h n p ob u = 0 then ''ok''
      else butlast (flag_names pkg_state_flag_map (flag_of_bits h n p ob u))) = flag_of_bits h n p ob u"
  by (cases h; cases n; cases p; cases ob; cases u)
    (simp_all add: flag_of_bits_def pkg_state_flag_map_def pkg_state_flag_from_str_def sf_defs)

lemma flag_roundtrip:
  "pkg_state_flag_from_str (pkg_state_flag_to_str sf) = sf AND SF_NONVOLATILE_FLAGS"
  unfolding pkg_state_flag_to_str_def Let_def nonvolatile_bits by (rule flag_roundtrip_bits)

end
