(* ===== verification/Opkg_Version.thy ===== *)
theory Opkg_Version
  imports Opkg_Types Opkg_Compare
begin

text \<open>
  Version numbers (\<open>libopkg/pkg.c\<close>, \<open>pkg_parse.c\<close>, \<open>pkg_depends.c\<close>): the comparison
  \<open>verrevcmp\<close> inherited from dpkg, the comparison of whole versions, the parser and printer of
  version strings and the evaluation of version constraints.
\<close>

section \<open>\<open>verrevcmp\<close>\<close>

text \<open>The macro \<open>order\<close>; the end of a string reads as 0.\<close>

definition order :: "int \<Rightarrow> int" where
  "order x = (if x = 126 then -1
              else if is_digit x then 0
              else if x = 0 then 0
              else if is_alpha x then x
              else x + 256)"

definition at_nondigit :: "string \<Rightarrow> bool" where
  "at_nondigit s \<longleftrightarrow> s \<noteq> [] \<and> \<not> isdigit (hd s)"

definition at_digit :: "string \<Rightarrow> bool" where
  "at_digit s \<longleftrightarrow> s \<noteq> [] \<and> isdigit (hd s)"

text \<open>
  The first inner loop, on the characters at the two pointers. It returns the difference
  (\<open>Inl\<close>) or the two pointers where it stops (\<open>Inr\<close>); \<open>None\<close> is an increment past the end of
  one of the strings.
\<close>

fun nondigit_loop :: "string \<Rightarrow> string \<Rightarrow> (int + string \<times> string) option" where
  "nondigit_loop [] [] = Some (Inr ([], []))"
| "nondigit_loop (v # val) [] =
     (if \<not> isdigit v
      then if order (cval v) \<noteq> order 0 then Some (Inl (order (cval v) - order 0)) else None
      else Some (Inr (v # val, [])))"
| "nondigit_loop [] (r # ref) =
     (if \<not> isdigit r
      then if order 0 \<noteq> order (cval r) then Some (Inl (order 0 - order (cval r))) else None
      else Some (Inr ([], r # ref)))"
| "nondigit_loop (v # val) (r # ref) =
     (if \<not> isdigit v \<or> \<not> isdigit r
      then if order (cval v) \<noteq> order (cval r) then Some (Inl (order (cval v) - order (cval r)))
           else nondigit_loop val ref
      else Some (Inr (v # val, r # ref)))"

text \<open>The loop over the digits both strings have, with \<open>first_diff\<close>.\<close>

fun digit_loop :: "int \<Rightarrow> string \<Rightarrow> string \<Rightarrow> int \<times> string \<times> string" where
  "digit_loop d (v # val) (r # ref) =
     (if isdigit v \<and> isdigit r
      then digit_loop (if d = 0 then cval v - cval r else d) val ref
      else (d, v # val, r # ref))"
| "digit_loop d val ref = (d, val, ref)"

definition skip_zeros :: "string \<Rightarrow> string" where
  "skip_zeros s = dropWhile (\<lambda>c. c = CHR ''0'') s"

lemma order_0 [simp]: "order 0 = 0"
  by (simp add: order_def is_digit_def)

lemma order_eq_0: "order (cval c) = 0 \<longleftrightarrow> isdigit c \<or> cval c = 0"
  using cval_bounds [of c] by (auto simp: order_def isdigit_def is_alpha_def is_digit_def)

lemma nondigit_loop_length:
  "nondigit_loop val ref = Some (Inr (v, r)) \<Longrightarrow> length v \<le> length val \<and> length r \<le> length ref"
  by (induction val ref rule: nondigit_loop.induct) (auto split: if_splits)

lemma nondigit_loop_stop:
  "nondigit_loop val ref = Some (Inr (v, r)) \<Longrightarrow> \<not> at_nondigit v \<and> \<not> at_nondigit r"
  by (induction val ref rule: nondigit_loop.induct)
    (auto simp: at_nondigit_def split: if_splits)

lemma nondigit_loop_total:
  "cstring val \<Longrightarrow> cstring ref \<Longrightarrow> \<exists>x. nondigit_loop val ref = Some x"
  by (induction val ref rule: nondigit_loop.induct) (auto simp: order_eq_0)

lemma digit_loop_suffix:
  "digit_loop d val ref = (e, v, r) \<Longrightarrow> \<exists>p q. val = p @ v \<and> ref = q @ r"
proof (induction d val ref rule: digit_loop.induct)
  case (1 d x val y ref)
  then show ?case by (force split: if_splits intro: exI [of _ "x # _"])
qed auto

lemma skip_zeros_suffix: "\<exists>p. s = p @ skip_zeros s"
  by (metis skip_zeros_def takeWhile_dropWhile_id)

lemma digit_suffix_shorter:
  assumes "\<not> at_nondigit v" "v = p @ v'" "\<not> at_digit v'"
  shows "v = [] \<or> length v' < length v"
  using assms by (cases p) (auto simp: at_digit_def at_nondigit_def)

text \<open>
  The outer loop. The result is \<open>None\<close> if a pointer is moved past the end of its string.
\<close>

function verrevcmp_loop :: "string \<Rightarrow> string \<Rightarrow> int option" where
  "verrevcmp_loop val ref =
     (if val = [] \<and> ref = [] then Some 0
      else case nondigit_loop val ref of
             None \<Rightarrow> None
           | Some (Inl diff) \<Rightarrow> Some diff
           | Some (Inr (v, r)) \<Rightarrow>
               (case digit_loop 0 (skip_zeros v) (skip_zeros r) of
                  (first_diff, v', r') \<Rightarrow>
                    if at_digit v' then Some 1
                    else if at_digit r' then Some (-1)
                    else if first_diff \<noteq> 0 then Some first_diff
                    else verrevcmp_loop v' r'))"
  by pat_completeness auto

lemma digit_loop_consumes:
  assumes "nondigit_loop val ref = Some (Inr (v, r))" "\<not> (val = [] \<and> ref = [])"
    and "digit_loop 0 (skip_zeros v) (skip_zeros r) = (d, v', r')"
    and "\<not> at_digit v'" "\<not> at_digit r'"
  shows "length v' + length r' < length val + length ref"
proof -
  obtain p q where p: "skip_zeros v = p @ v'" and q: "skip_zeros r = q @ r'"
    using digit_loop_suffix [OF assms(3)] by blast
  have v: "v = [] \<or> length v' < length v"
    using digit_suffix_shorter [of v _ "v'"] skip_zeros_suffix [of v] p assms(4) nondigit_loop_stop [OF assms(1)]
    by (metis append_assoc)
  have r: "r = [] \<or> length r' < length r"
    using digit_suffix_shorter [of r _ "r'"] skip_zeros_suffix [of r] q assms(5) nondigit_loop_stop [OF assms(1)]
    by (metis append_assoc)
  have z: "v = [] \<Longrightarrow> v' = []" "r = [] \<Longrightarrow> r' = []" using p q by (simp_all add: skip_zeros_def)
  have l: "length v \<le> length val" "length r \<le> length ref"
    using nondigit_loop_length [OF assms(1)] by auto
  have n: "0 < length val + length ref" using assms(2) by auto
  show ?thesis
  proof (cases "v = []")
    case True
    show ?thesis using r z l n True by (cases "r = []") auto
  next
    case False
    then show ?thesis using v r z l by (cases "r = []") auto
  qed
qed

termination verrevcmp_loop
  by (relation "measure (\<lambda>(v, r). length v + length r)") (auto dest!: digit_loop_consumes [OF _ _ sym])

declare verrevcmp_loop.simps [simp del]

text \<open>
  \<open>verrevcmp\<close> itself: a NULL argument reads as the empty string. The value for an out-of-bounds
  run is arbitrary; \<open>verrevcmp_loop_correct\<close> shows that no C string leads to one.
\<close>

definition verrevcmp :: "string option \<Rightarrow> string option \<Rightarrow> int" where
  "verrevcmp val ref =
     (case verrevcmp_loop (case val of None \<Rightarrow> [] | Some v \<Rightarrow> v)
                          (case ref of None \<Rightarrow> [] | Some r \<Rightarrow> r)
      of Some d \<Rightarrow> d | None \<Rightarrow> 0)"

subsection \<open>The order it decides\<close>

text \<open>
  The rank of a character in a version, from the Debian policy: a tilde is below the end of the
  text, letters come next in their order, and every other character is above all letters.
\<close>

definition char_rank :: "char \<Rightarrow> int" where
  "char_rank c = (if c = CHR ''~'' then -1 else if isdigit c \<or> c = CHR 0x00 then 0
                  else if isalpha c then cval c else 256 + cval c)"

lemma order_char_rank: "order (cval c) = char_rank c"
proof -
  have "cval c = 126 \<longleftrightarrow> c = CHR ''~''" using cval_inj [of c "CHR ''~''"] by (simp add: cval_def Let_def)
  moreover have "cval c = 0 \<longleftrightarrow> c = CHR 0x00" using cval_inj [of c "CHR 0x00"] by (simp add: cval_def Let_def)
  ultimately show ?thesis by (simp add: order_def char_rank_def isdigit_def isalpha_def)
qed

text \<open>
  A version string as a list of integers: the ranks of a run of non-digits, 0, the
  value of the following run of digits, and so on. Two strings compare as these lists do
  lexicographically, where a list that has ended counts as going on with 0.
\<close>

function version_key :: "string \<Rightarrow> int list" where
  "version_key s =
     (if s = [] then []
      else map char_rank (takeWhile (\<lambda>c. \<not> isdigit c) s) @ [0] @
           (let r = dropWhile (\<lambda>c. \<not> isdigit c) s
            in int (num (takeWhile isdigit r)) # version_key (dropWhile isdigit r)))"
  by pat_completeness auto
termination
proof (relation "measure length", goal_cases)
  case (2 s x)
  then show ?case
    by (cases s) (auto simp: Let_def intro: le_less_trans [OF length_dropWhile_le] le_imp_less_Suc
        order_trans [OF length_dropWhile_le])
qed simp

declare version_key.simps [simp del]

fun zcmp :: "int list \<Rightarrow> int list \<Rightarrow> int" where
  "zcmp [] [] = 0"
| "zcmp (x # xs) [] = (if x \<noteq> 0 then sgn x else zcmp xs [])"
| "zcmp [] (y # ys) = (if y \<noteq> 0 then - sgn y else zcmp [] ys)"
| "zcmp (x # xs) (y # ys) = (if x \<noteq> y then sgn (x - y) else zcmp xs ys)"

lemma zcmp_refl: "zcmp xs xs = 0"
  by (induction xs) auto

lemma zcmp_swap: "zcmp xs ys = - zcmp ys xs"
  by (induction xs ys rule: zcmp.induct) (auto simp: sgn_if)

lemma zcmp_Nil_iff: "zcmp xs [] \<le> 0 \<Longrightarrow> zcmp [] ys \<le> 0 \<Longrightarrow> zcmp xs ys \<le> 0"
proof (induction xs ys rule: zcmp.induct)
  case (4 x xs y ys)
  then show ?case by (auto simp: sgn_if split: if_splits)
qed auto

lemma zcmp_trans: "zcmp xs ys \<le> 0 \<Longrightarrow> zcmp ys zs \<le> 0 \<Longrightarrow> zcmp xs zs \<le> 0"
proof (induction xs ys arbitrary: zs rule: zcmp.induct)
  case 1 then show ?case by simp
next
  case (2 x xs)
  then show ?case by (cases zs) (auto simp: sgn_if split: if_splits)
next
  case (3 y ys)
  then show ?case by (cases zs) (auto simp: sgn_if split: if_splits)
next
  case (4 x xs y ys)
  then show ?case by (cases zs) (auto simp: sgn_if split: if_splits)
qed

interpretation zcmp: comparator "\<lambda>_. True" zcmp
proof
  show "sgn (zcmp a b) = - sgn (zcmp b a)" for a b
    by (subst zcmp_swap) (simp add: sgn_if)
qed (rule zcmp_trans)

subsection \<open>Correctness of \<open>verrevcmp\<close>\<close>

fun first_difference :: "int \<Rightarrow> string \<Rightarrow> string \<Rightarrow> int" where
  "first_difference d (a # as) (b # bs) =
     first_difference (if d = 0 then cval a - cval b else d) as bs"
| "first_difference d [] bs = d"
| "first_difference d (a # as) [] = d"

lemma first_difference_nonzero: "d \<noteq> 0 \<Longrightarrow> first_difference d as bs = d"
  by (induction d as bs rule: first_difference.induct) auto

lemma digit_loop_eq:
  assumes "list_all isdigit as" "list_all isdigit bs" "\<not> at_digit x" "\<not> at_digit y"
  shows "digit_loop d (as @ x) (bs @ y) =
    (first_difference d as bs, drop (length bs) as @ x, drop (length as) bs @ y)"
  using assms
proof (induction d as bs rule: first_difference.induct)
  case (2 d bs)
  then show ?case by (cases x; cases "bs @ y") (auto simp: at_digit_def)
next
  case (3 d a as)
  then show ?case by (cases y) (auto simp: at_digit_def)
qed auto

lemma first_difference_num:
  assumes "list_all isdigit as" "list_all isdigit bs" "length as = length bs"
  shows "sgn (first_difference 0 as bs) = sgn (int (num as) - int (num bs))"
  using assms
proof (induction as arbitrary: bs)
  case (Cons a as)
  then obtain b cs where b: "bs = b # cs" "length as = length cs" by (cases bs) auto
  have v: "int (digit_val a) = cval a - 48" "int (digit_val b) = cval b - 48"
    using Cons.prems b by (auto simp: digit_val_def isdigit_def is_digit_def)
  have l: "num as < 10 ^ length cs" "num cs < 10 ^ length cs"
    using num_less [of as] num_less [of cs] Cons.prems b by auto
  show ?case
  proof (cases "cval a = cval b")
    case True
    then show ?thesis using Cons b v by (simp add: num_Cons)
  next
    case False
    let ?P = "10 ^ length cs :: nat"
    have "sgn (int (num (a # as)) - int (num (b # cs))) = sgn (cval a - cval b)"
    proof (cases "cval a < cval b")
      case True
      then have "digit_val a + 1 \<le> digit_val b" using v by linarith
      then have "(digit_val a + 1) * ?P \<le> digit_val b * ?P" by (intro mult_right_mono) auto
      then have "num (a # as) < num (b # cs)" using l b by (simp add: num_Cons)
      then show ?thesis using True by simp
    next
      case False
      with \<open>cval a \<noteq> cval b\<close> have "digit_val b + 1 \<le> digit_val a" using v by linarith
      then have "(digit_val b + 1) * ?P \<le> digit_val a * ?P" by (intro mult_right_mono) auto
      then have "num (b # cs) < num (a # as)" using l b by (simp add: num_Cons)
      moreover have "cval b < cval a" using False \<open>cval a \<noteq> cval b\<close> by linarith
      ultimately show ?thesis by simp
    qed
    then show ?thesis using b False by (simp add: first_difference_nonzero)
  qed
qed simp

lemma num_longer:
  assumes "list_all isdigit as" "list_all isdigit bs" "length bs < length as"
    and "as \<noteq> [] \<Longrightarrow> hd as \<noteq> CHR ''0''"
  shows "num bs < num as"
proof -
  obtain a cs where a: "as = a # cs" using assms(3) by (cases as) auto
  have "num bs < 10 ^ length bs" using num_less assms(2) by blast
  also have "\<dots> \<le> (10::nat) ^ length cs" using assms(3) a by (intro power_increasing) auto
  also have "\<dots> \<le> num as" using num_ge [of a cs] assms(1,4) a by auto
  finally show ?thesis .
qed

lemma skip_zeros_num:
  "num (takeWhile isdigit (skip_zeros s)) = num (takeWhile isdigit s)"
  "dropWhile isdigit (skip_zeros s) = dropWhile isdigit s"
  by (induction s) (auto simp: skip_zeros_def num_Cons)

lemma skip_zeros_hd: "takeWhile isdigit (skip_zeros s) \<noteq> [] \<Longrightarrow> hd (takeWhile isdigit (skip_zeros s)) \<noteq> CHR ''0''"
  by (induction s) (auto simp: skip_zeros_def)

lemma digit_split:
  "\<exists>as x. s = as @ x \<and> as = takeWhile isdigit s \<and> x = dropWhile isdigit s \<and>
     list_all isdigit as \<and> \<not> at_digit x"
  by (rule exI [of _ "takeWhile isdigit s"], rule exI [of _ "dropWhile isdigit s"])
    (use hd_dropWhile [of isdigit s] in
      \<open>auto simp: list_all_iff at_digit_def simp del: dropWhile_eq_Nil_conv dest: set_takeWhileD\<close>)

text \<open>What the digit loop decides, after leading zeros have been skipped.\<close>

lemma digit_loop_compare:
  assumes "digit_loop 0 (skip_zeros v) (skip_zeros r) = (d, v', r')"
  defines "m \<equiv> int (num (takeWhile isdigit v))" and "n \<equiv> int (num (takeWhile isdigit r))"
  shows "at_digit v' \<Longrightarrow> n < m"
    and "\<not> at_digit v' \<Longrightarrow> at_digit r' \<Longrightarrow> m < n"
    and "\<not> at_digit v' \<Longrightarrow> \<not> at_digit r' \<Longrightarrow>
      sgn d = sgn (m - n) \<and> v' = dropWhile isdigit v \<and> r' = dropWhile isdigit r"
proof -
  obtain as x where a: "skip_zeros v = as @ x" "as = takeWhile isdigit (skip_zeros v)"
    "x = dropWhile isdigit (skip_zeros v)" "list_all isdigit as" "\<not> at_digit x"
    using digit_split by blast
  obtain bs y where b: "skip_zeros r = bs @ y" "bs = takeWhile isdigit (skip_zeros r)"
    "y = dropWhile isdigit (skip_zeros r)" "list_all isdigit bs" "\<not> at_digit y"
    using digit_split by blast
  have eq: "d = first_difference 0 as bs" "v' = drop (length bs) as @ x" "r' = drop (length as) bs @ y"
    using assms(1) digit_loop_eq [OF a(4) b(4) a(5) b(5), of 0] a(1) b(1) by auto
  have mn: "m = int (num as)" "n = int (num bs)"
    unfolding m_def n_def a(2) b(2) skip_zeros_num by simp_all
  have "\<And>k. list_all isdigit (drop k as)" "\<And>k. list_all isdigit (drop k bs)"
    using a(4) b(4) by (auto simp: list_all_iff dest: in_set_dropD)
  then have v: "at_digit v' \<longleftrightarrow> length bs < length as" and r: "at_digit r' \<longleftrightarrow> length as < length bs"
    using a(5) b(5) eq
    by (metis Cons_nth_drop_Suc append_Cons at_digit_def drop_all append_Nil list.pred_inject(2)
          list.sel(1) list.simps(3) not_le)+
  show "at_digit v' \<Longrightarrow> n < m"
    using v num_longer [OF a(4) b(4)] skip_zeros_hd [of v] a(2) mn by auto
  show "\<not> at_digit v' \<Longrightarrow> at_digit r' \<Longrightarrow> m < n"
    using r num_longer [OF b(4) a(4)] skip_zeros_hd [of r] b(2) mn by auto
  assume "\<not> at_digit v'" "\<not> at_digit r'"
  then have l: "length as = length bs" using v r by simp
  show "sgn d = sgn (m - n) \<and> v' = dropWhile isdigit v \<and> r' = dropWhile isdigit r"
    using eq l a(3) b(3) first_difference_num [OF a(4) b(4) l] mn by (simp add: skip_zeros_num)
qed

definition phase_key :: "string \<Rightarrow> int list" where
  "phase_key s = map char_rank (takeWhile (\<lambda>c. \<not> isdigit c) s) @ [0] @
     (let r = dropWhile (\<lambda>c. \<not> isdigit c) s
      in int (num (takeWhile isdigit r)) # version_key (dropWhile isdigit r))"

lemma version_key_Nil [simp]: "version_key [] = []"
  by (subst version_key.simps) simp

lemma version_key_phase: "s \<noteq> [] \<Longrightarrow> version_key s = phase_key s"
  by (subst version_key.simps) (simp add: phase_key_def)

lemma phase_key_simps [simp]:
  "phase_key [] = [0, 0]"
  "\<not> isdigit c \<Longrightarrow> phase_key (c # s) = order (cval c) # phase_key s"
  by (simp_all add: phase_key_def order_char_rank)

lemma phase_key_digit:
  "\<not> at_nondigit s \<Longrightarrow>
   phase_key s = 0 # int (num (takeWhile isdigit s)) # version_key (dropWhile isdigit s)"
  by (cases s) (simp_all add: phase_key_def at_nondigit_def Let_def)

lemma zcmp_phase:
  "zcmp (phase_key s) (phase_key t) = zcmp (version_key s) (version_key t)"
proof -
  have pad: "zcmp [0, 0] xs = zcmp [] xs" "zcmp xs [0, 0] = zcmp xs []" for xs
    by (cases xs; cases "tl xs"; auto simp: sgn_if)+
  show ?thesis
    by (cases "s = []"; cases "t = []") (simp_all add: version_key_phase pad)
qed

lemma nondigit_loop_compare:
  "cstring val \<Longrightarrow> cstring ref \<Longrightarrow>
   (case nondigit_loop val ref of
      None \<Rightarrow> False
    | Some (Inl d) \<Rightarrow> zcmp (phase_key val) (phase_key ref) = sgn d
    | Some (Inr (v, r)) \<Rightarrow> zcmp (phase_key val) (phase_key ref) = zcmp (phase_key v) (phase_key r)
        \<and> cstring v \<and> cstring r)"
proof (induction val ref rule: nondigit_loop.induct)
  case (2 v val)
  then show ?case by (cases "isdigit v") (auto simp: order_eq_0)
next
  case (3 r ref)
  then show ?case by (cases "isdigit r") (auto simp: order_eq_0)
next
  case (4 v val r ref)
  have z: "isdigit c \<Longrightarrow> order (cval c) = 0" for c using order_eq_0 by blast
  have k: "isdigit c \<Longrightarrow> phase_key (c # s) = 0 # tl (phase_key (c # s))" for c s
    by (simp add: phase_key_def)
  show ?case
  proof (cases "isdigit v"; cases "isdigit r")
    assume "isdigit v" "\<not> isdigit r"
    then show ?thesis using 4 z [of v] order_eq_0 [of r] by (subst (1 2) k) auto
  next
    assume "\<not> isdigit v" "isdigit r"
    then show ?thesis using 4 z [of r] order_eq_0 [of v] by (subst (1 2) k) auto
  next
    assume "\<not> isdigit v" "\<not> isdigit r"
    then show ?thesis using 4 by (auto split: option.splits sum.splits)
  qed (use 4 in auto)
qed simp

lemma cstring_suffix: "cstring s \<Longrightarrow> s = p @ t \<Longrightarrow> cstring t"
  by simp

lemma verrevcmp_loop_correct:
  "cstring val \<Longrightarrow> cstring ref \<Longrightarrow>
   \<exists>d. verrevcmp_loop val ref = Some d \<and> sgn d = zcmp (version_key val) (version_key ref)"
proof (induction val ref rule: verrevcmp_loop.induct)
  case (1 val ref)
  show ?case
  proof (cases "val = [] \<and> ref = []")
    case True
    then show ?thesis by (simp add: verrevcmp_loop.simps)
  next
    case ne: False
    note L = nondigit_loop_compare [OF "1.prems"]
    show ?thesis
    proof (cases "nondigit_loop val ref")
      case None
      with L show ?thesis by simp
    next
      case (Some a)
      show ?thesis
      proof (cases a)
        case (Inl d)
        then show ?thesis using ne Some L by (auto simp: verrevcmp_loop.simps zcmp_phase)
      next
        case (Inr vr)
        obtain v r where vr: "vr = (v, r)" by (cases vr)
        obtain d v' r' where dl: "digit_loop 0 (skip_zeros v) (skip_zeros r) = (d, v', r')"
          by (cases "digit_loop 0 (skip_zeros v) (skip_zeros r)")
        let ?m = "int (num (takeWhile isdigit v))" and ?n = "int (num (takeWhile isdigit r))"
        have nl: "nondigit_loop val ref = Some (Inr (v, r))" using Some Inr vr by simp
        have key: "zcmp (version_key val) (version_key ref) =
            (if ?m \<noteq> ?n then sgn (?m - ?n)
             else zcmp (version_key (dropWhile isdigit v)) (version_key (dropWhile isdigit r)))"
          using L nondigit_loop_stop [OF nl] nl by (simp add: phase_key_digit flip: zcmp_phase)
        have cs: "cstring v" "cstring r" using L nl by auto
        have unf: "verrevcmp_loop val ref =
            (if at_digit v' then Some 1 else if at_digit r' then Some (- 1)
             else if d \<noteq> 0 then Some d else verrevcmp_loop v' r')"
          using ne nl dl by (subst verrevcmp_loop.simps) auto
        note D = digit_loop_compare [OF dl]
        consider "at_digit v'" | "\<not> at_digit v'" "at_digit r'"
          | "\<not> at_digit v'" "\<not> at_digit r'" by blast
        then show ?thesis
        proof cases
          case 1
          then show ?thesis using unf key D(1) by simp
        next
          case 2
          then show ?thesis using unf key D(2) by simp
        next
          case 3
          then have e: "sgn d = sgn (?m - ?n)" "v' = dropWhile isdigit v" "r' = dropWhile isdigit r"
            using D(3) by auto
          have "cstring v'" "cstring r'" using cs e by (auto simp: cstring_def dest: set_dropWhileD)
          then show ?thesis
            using "1.IH" ne nl dl 3 unf key e
            by (cases "d = 0") (auto simp: sgn_0_0)
        qed
      qed
    qed
  qed
qed

definition opt_cstring :: "string option \<Rightarrow> bool" where
  "opt_cstring so \<longleftrightarrow> (case so of None \<Rightarrow> True | Some s \<Rightarrow> cstring s)"

definition opt_version_key :: "string option \<Rightarrow> int list" where
  "opt_version_key so = (case so of None \<Rightarrow> [] | Some s \<Rightarrow> version_key s)"

lemma sgn_verrevcmp:
  assumes "opt_cstring a" "opt_cstring b"
  shows "sgn (verrevcmp a b) = zcmp (opt_version_key a) (opt_version_key b)"
  using verrevcmp_loop_correct [of "case a of None \<Rightarrow> [] | Some v \<Rightarrow> v" "case b of None \<Rightarrow> [] | Some v \<Rightarrow> v"]
    assms by (auto simp: verrevcmp_def opt_cstring_def opt_version_key_def split: option.splits)

lemma sgn_zcmp [simp]: "sgn (zcmp xs ys) = zcmp xs ys"
  by (induction xs ys rule: zcmp.induct) (auto simp: sgn_if)

interpretation verrevcmp: comparator opt_cstring verrevcmp
  by (rule comparator_mono [OF comparator_key [OF zcmp.comparator_axioms, of opt_version_key]])
    (simp_all add: sgn_verrevcmp)

section \<open>Versions of packages\<close>

definition pkg_compare_versions :: "pkg \<Rightarrow> pkg \<Rightarrow> int" where
  "pkg_compare_versions pkg ref_pkg =
     (if p_epoch pkg > p_epoch ref_pkg then 1
      else if p_epoch pkg < p_epoch ref_pkg then -1
      else let r = verrevcmp (p_version pkg) (p_version ref_pkg) in
           if r \<noteq> 0 then r
           else verrevcmp (p_revision pkg) (p_revision ref_pkg))"

definition pkg_version_satisfied :: "pkg \<Rightarrow> pkg \<Rightarrow> string \<Rightarrow> bool" where
  "pkg_version_satisfied it ref op =
     (let r = pkg_compare_versions it ref in
      if op = ''<='' \<or> op = ''<'' then r \<le> 0
      else if op = ''>='' \<or> op = ''>'' then r \<ge> 0
      else if op = ''<<'' then r < 0
      else if op = ''>>'' then r > 0
      else if op = ''='' then r = 0
      else False)"

definition version_ok :: "pkg \<Rightarrow> bool" where
  "version_ok p \<longleftrightarrow> opt_cstring (p_version p) \<and> opt_cstring (p_revision p)"

lemma comparator_version: "comparator version_ok pkg_compare_versions"
proof -
  have e: "comparator version_ok (\<lambda>a b. if p_epoch a > p_epoch b then 1 else if p_epoch a < p_epoch b then -1 else 0)"
    by (rule comparator_mono [OF comparator_int [of p_epoch]]) auto
  have v: "comparator version_ok (\<lambda>a b. verrevcmp (p_version a) (p_version b))"
    by (rule comparator_mono [OF comparator_key [OF verrevcmp.comparator_axioms, of p_version]])
      (auto simp: version_ok_def)
  have r: "comparator version_ok (\<lambda>a b. verrevcmp (p_revision a) (p_revision b))"
    by (rule comparator_mono [OF comparator_key [OF verrevcmp.comparator_axioms, of p_revision]])
      (auto simp: version_ok_def)
  show ?thesis
    by (rule comparator_mono [OF comparator_lex [OF e comparator_lex [OF v r]]])
      (auto simp: pkg_compare_versions_def Let_def)
qed

interpretation vercmp: comparator version_ok pkg_compare_versions
  by (rule comparator_version)

section \<open>Reading and printing versions\<close>

definition version_text :: "string \<Rightarrow> string" where
  "version_text vstr =
     dropWhile isspace (if starts_with vstr ''Version:'' then drop 8 vstr else vstr)"

definition split_epoch :: "string \<Rightarrow> ulong \<times> string" where
  "split_epoch vstr =
     (case strchr vstr CHR '':'' of
        Some colon \<Rightarrow> (fst (strtoul10 vstr), tl colon)
      | None \<Rightarrow> (0, vstr))"

definition parse_version :: "pkg \<Rightarrow> string \<Rightarrow> pkg" where
  "parse_version pkg vstr =
     (let (epoch, rest) = split_epoch (version_text vstr)
      in case strrsplit rest CHR ''-'' of
           Some (v, r) \<Rightarrow> pkg\<lparr>p_epoch := epoch, p_version := Some v, p_revision := Some r\<rparr>
         | None \<Rightarrow> pkg\<lparr>p_epoch := epoch, p_version := Some rest, p_revision := None\<rparr>)"

lemmas parse_version_defs = parse_version_def split_epoch_def version_text_def

text \<open>\<open>%s\<close> of a NULL pointer prints \<open>(null)\<close> with the GNU C library.\<close>

definition fmt_s :: "string option \<Rightarrow> string" where
  "fmt_s so = (case so of None \<Rightarrow> ''(null)'' | Some s \<Rightarrow> s)"

text \<open>\<open>%d\<close> reads the low 32 bits of the \<open>unsigned long\<close> epoch as an \<open>int\<close>.\<close>

definition pkg_version_str_alloc :: "pkg \<Rightarrow> string option" where
  "pkg_version_str_alloc pkg =
     (let e = show_int (sint (ucast (p_epoch pkg) :: 32 word)) in
      if p_epoch pkg \<noteq> 0 then
        (case p_revision pkg of
           Some r \<Rightarrow> Some (e @ '':'' @ fmt_s (p_version pkg) @ ''-'' @ r)
         | None \<Rightarrow> Some (e @ '':'' @ fmt_s (p_version pkg)))
      else
        (case p_revision pkg of
           Some r \<Rightarrow> Some (fmt_s (p_version pkg) @ ''-'' @ r)
         | None \<Rightarrow> p_version pkg))"

section \<open>Constraints\<close>

text \<open>
  A constraint other than \<open>NONE\<close> comes with a version (\<open>parseDepends\<close> stores both, see
  \<open>parse_one_wf\<close> in \<open>Opkg_Depends\<close>); the code would dereference NULL otherwise.
\<close>

definition version_constraints_satisfied :: "depend \<Rightarrow> pkg \<Rightarrow> bool" where
  "version_constraints_satisfied depends pkg =
     (if d_constraint depends = NONE then True
      else
        let temp = parse_version pkg_new (case d_version depends of Some v \<Rightarrow> v | None \<Rightarrow> []);
            comparison = pkg_compare_versions pkg temp
        in if d_constraint depends = EARLIER \<and> comparison < 0 then True
           else if d_constraint depends = LATER \<and> comparison > 0 then True
           else if comparison = 0 then True
           else if d_constraint depends = LATER_EQUAL \<and> comparison \<ge> 0 then True
           else if d_constraint depends = EARLIER_EQUAL \<and> comparison \<le> 0 then True
           else False)"

section \<open>Comparison of packages for sorting\<close>

definition pkg_name_version_and_architecture_compare :: "pkg \<Rightarrow> pkg \<Rightarrow> int" where
  "pkg_name_version_and_architecture_compare a b =
     (case (p_name a, p_name b) of
        (Some an, Some bn) \<Rightarrow>
          let namecmp = strcmp an bn in
          if namecmp \<noteq> 0 then namecmp
          else let vercmp = pkg_compare_versions a b in
          if vercmp \<noteq> 0 then vercmp
          else if p_arch_priority a = 0 \<or> p_arch_priority b = 0 then 0
          else if p_arch_priority a > p_arch_priority b then 1
          else if p_arch_priority a < p_arch_priority b then -1
          else 0
      | _ \<Rightarrow> 0)"

definition pkg_compare_names :: "pkg \<Rightarrow> pkg \<Rightarrow> int" where
  "pkg_compare_names pkg1 pkg2 =
     (case p_name pkg1 of None \<Rightarrow> 1
      | Some n1 \<Rightarrow> (case p_name pkg2 of None \<Rightarrow> -1 | Some n2 \<Rightarrow> strcmp n1 n2))"

text \<open>
  \<open>abstract_pkg_name_compare\<close> reads the first field of the structs it is given, which is
  \<open>name\<close> both in \<open>abstract_pkg\<close> and in \<open>pkg\<close>.
\<close>

definition abstract_pkg_name_compare :: "string option \<Rightarrow> string option \<Rightarrow> int" where
  "abstract_pkg_name_compare a b =
     (case (a, b) of (Some an, Some bn) \<Rightarrow> strcmp an bn | _ \<Rightarrow> 0)"

text \<open>What the error returns of the comparison rule out: a missing name, a zero priority.\<close>

definition sortable :: "pkg \<Rightarrow> bool" where
  "sortable p \<longleftrightarrow> version_ok p \<and> p_name p \<noteq> None \<and> p_arch_priority p \<noteq> 0"

interpretation pkgcmp: comparator sortable pkg_name_version_and_architecture_compare
proof -
  have n: "comparator sortable (\<lambda>a b. strcmp (the (p_name a)) (the (p_name b)))"
    by (rule comparator_mono [OF comparator_key [OF strcmp.comparator_axioms]]) auto
  have v: "comparator sortable pkg_compare_versions"
    by (rule comparator_mono [OF comparator_version]) (auto simp: sortable_def)
  have a: "comparator sortable (\<lambda>a b. if p_arch_priority a > p_arch_priority b then 1
      else if p_arch_priority a < p_arch_priority b then -1 else 0)"
    by (rule comparator_mono [OF comparator_int [of p_arch_priority]]) auto
  show "comparator sortable pkg_name_version_and_architecture_compare"
    by (rule comparator_mono [OF comparator_lex [OF n comparator_lex [OF v a]]])
      (auto simp: pkg_name_version_and_architecture_compare_def sortable_def Let_def
        split: option.splits)
qed

section \<open>Properties\<close>

lemma show_int_epoch:
  assumes "unat e < 2 ^ 31"
  shows "show_int (sint (ucast (e :: ulong) :: 32 word)) = show_nat (unat e)"
proof -
  have u: "uint (ucast e :: 32 word) = int (unat e)"
  proof -
    have "unat (ucast e :: 32 word) = unat e mod 2 ^ 32" 
      by (simp add: unsigned_ucast_eq take_bit_eq_mod)
    then have "unat (ucast e :: 32 word) = unat e" using assms by simp
    then show ?thesis by (simp only: uint_nat)
  qed
  have "sint (ucast e :: 32 word) = int (unat e)"
    unfolding sint_uint u 
  proof (rule signed_take_bit_int_eq_self)
    have "- (2 ^ (LENGTH(32) - Suc 0)) \<le> (0 :: int)" by simp
    then show "- (2 ^ (LENGTH(32) - Suc 0)) \<le> int (unat e)" using of_nat_0_le_iff order_trans by blast
    have "int (unat e) < int (2 ^ 31)" using assms by (rule of_nat_less_iff [THEN iffD2])
    then show "int (unat e) < 2 ^ (LENGTH(32) - Suc 0)" by simp
  qed
  then show ?thesis by (simp add: show_int_def)
qed

text \<open>
  The version, epoch and revision fields \<open>parse_version\<close> can read back from the printed form.
\<close>

definition printable_version :: "pkg \<Rightarrow> bool" where
  "printable_version p \<longleftrightarrow>
     (case p_version p of None \<Rightarrow> False
      | Some v \<Rightarrow>
          unat (p_epoch p) < 2 ^ 31 \<and>
          (p_epoch p = 0 \<longrightarrow> CHR '':'' \<notin> set v \<and> (v \<noteq> [] \<longrightarrow> \<not> isspace (hd v)) \<and>
             (case p_revision p of None \<Rightarrow> True | Some r \<Rightarrow> CHR '':'' \<notin> set r)) \<and>
          (case p_revision p of None \<Rightarrow> CHR ''-'' \<notin> set v | Some r \<Rightarrow> CHR ''-'' \<notin> set r))"

lemma show_nat_hd:
  obtains x xs where "show_nat n = x # xs" "isdigit x"
  using show_nat_digits [of n] by (cases "show_nat n") auto

lemma parse_printed_epoch:
  assumes "unat e < 2 ^ 31" and s_def: "s = show_nat (unat e) @ CHR '':'' # t"
  shows "\<not> starts_with s ''Version:''" "dropWhile isspace s = s"
    "strchr s CHR '':'' = Some (CHR '':'' # t)" "fst (strtoul10 s) = e"
proof -
  obtain x xs where x: "show_nat (unat e) = x # xs" "isdigit x" by (rule show_nat_hd)
  have "\<not> isdigit CHR ''V''" by (simp add: isdigit_def is_digit_def cval_def)
  then have "x \<noteq> CHR ''V''" using x(2) by blast
  then show "\<not> starts_with s ''Version:''" using x by (simp add: s_def)
  show "dropWhile isspace s = s" using x by (simp add: s_def)
  have "CHR '':'' \<notin> set (show_nat (unat e))"
    using show_nat_digits [of "unat e"] isdigit_not(4) [of "CHR '':''"] by (auto simp: list_all_iff)
  then show "strchr s CHR '':'' = Some (CHR '':'' # t)" by (simp add: s_def strchr_append)
  show "fst (strtoul10 s) = e"
    using assms by (simp add: s_def strtoul10_show_nat isdigit_def is_digit_def cval_def)
qed

lemma strrsplit_version:
  "CHR ''-'' \<notin> set r \<Longrightarrow> strrsplit (v @ CHR ''-'' # r) CHR ''-'' = Some (v, r)"
  by (simp add: strrsplit_Some)

lemma parse_no_epoch:
  assumes "CHR '':'' \<notin> set s" "s \<noteq> [] \<Longrightarrow> \<not> isspace (hd s)"
  shows "\<not> starts_with s ''Version:''" "dropWhile isspace s = s" "strchr s CHR '':'' = None"
  using assms by (auto simp: strchr_None starts_with_iff) (cases s; auto)

text \<open>
  (C1) \<open>verrevcmp\<close> never moves a pointer past the end of a version string, always returns, and
  the sign of its result is that of the lexicographic comparison of the two version keys, in
  which a tilde sorts before the end of the string and runs of digits compare by value.
\<close>

theorem verrevcmp_decides_version_order:
  assumes "cstring val" "cstring ref"
  shows "\<exists>d. verrevcmp_loop val ref = Some d \<and> verrevcmp (Some val) (Some ref) = d
    \<and> sgn d = zcmp (version_key val) (version_key ref)"
  using verrevcmp_loop_correct [OF assms] by (auto simp: verrevcmp_def)

theorem verrevcmp_decides_version_order_witness:
  "\<exists>d. verrevcmp_loop ''1.10~rc'' ''1.9'' = Some d \<and> verrevcmp (Some ''1.10~rc'') (Some ''1.9'') = d
    \<and> sgn d = zcmp (version_key ''1.10~rc'') (version_key ''1.9'')"
  by (rule verrevcmp_decides_version_order) simp_all

text \<open>
  (C2) \<open>pkg_compare_versions\<close> is a total preorder on packages: swapping the arguments negates the
  sign, and "not newer" is transitive, so that every sort and every search for the newest
  candidate that uses it is well defined.
\<close>

theorem pkg_compare_versions_total_preorder:
  assumes "version_ok a" "version_ok b" "version_ok c"
  shows "sgn (pkg_compare_versions a b) = - sgn (pkg_compare_versions b a) \<and>
    (pkg_compare_versions a b \<le> 0 \<and> pkg_compare_versions b c \<le> 0 \<longrightarrow>
     pkg_compare_versions a c \<le> 0)"
  using assms vercmp.cmp_swap vercmp.cmp_trans by blast

definition example_pkg :: "string \<Rightarrow> string \<Rightarrow> pkg" where
  "example_pkg n v = parse_version (pkg_new\<lparr>p_name := Some n\<rparr>) v"

lemma example_versions:
  "version_ok (example_pkg n ''1.2'')" "version_ok (example_pkg n ''1.10-1'')"
  "version_ok (example_pkg n ''1.12'')"
  "pkg_compare_versions (example_pkg n ''1.10-1'') (example_pkg m ''1.2'') > 0"
  "pkg_compare_versions (example_pkg n ''1.2'') (example_pkg m ''1.10-1'') < 0"
  "pkg_compare_versions (example_pkg n ''1.10-1'') (example_pkg m ''1.12'') < 0"
proof -
  note ev = example_pkg_def parse_version_defs version_ok_def opt_cstring_def pkg_new_def
    isspace_def is_space_def cval_def
  show "version_ok (example_pkg n ''1.2'')" "version_ok (example_pkg n ''1.10-1'')"
    "version_ok (example_pkg n ''1.12'')"
    by (simp_all add: ev)
  have flds: "p_epoch (example_pkg n ''1.2'') = 0" "p_epoch (example_pkg n ''1.10-1'') = 0"
    "p_epoch (example_pkg n ''1.12'') = 0" "p_version (example_pkg n ''1.2'') = Some ''1.2''"
    "p_version (example_pkg n ''1.10-1'') = Some ''1.10''" "p_version (example_pkg n ''1.12'') = Some ''1.12''"
    for n by (simp_all add: ev)
  have vs: "verrevcmp (Some ''1.10'') (Some ''1.2'') > 0" "verrevcmp (Some ''1.2'') (Some ''1.10'') < 0"
    "verrevcmp (Some ''1.10'') (Some ''1.12'') < 0"
    by (simp_all add: verrevcmp_def verrevcmp_loop.simps at_digit_def at_nondigit_def char_class_defs
        order_def skip_zeros_def cur_def)
  show "pkg_compare_versions (example_pkg n ''1.10-1'') (example_pkg m ''1.2'') > 0"
    "pkg_compare_versions (example_pkg n ''1.2'') (example_pkg m ''1.10-1'') < 0"
    "pkg_compare_versions (example_pkg n ''1.10-1'') (example_pkg m ''1.12'') < 0"
    using vs by (simp_all add: pkg_compare_versions_def flds)
qed

theorem pkg_compare_versions_total_preorder_witness:
  "sgn (pkg_compare_versions (example_pkg ''b'' ''1.2'') (example_pkg ''b'' ''1.10-1'')) =
      - sgn (pkg_compare_versions (example_pkg ''b'' ''1.10-1'') (example_pkg ''b'' ''1.2'')) \<and>
   pkg_compare_versions (example_pkg ''b'' ''1.2'') (example_pkg ''b'' ''1.12'') \<le> 0"
  using pkg_compare_versions_total_preorder [OF example_versions(1-3), of "''b''" "''b''" "''b''"]
    example_versions(5,6) [of "''b''" "''b''"] by (simp add: order.strict_implies_order)

lemma parse_printed_version:
  assumes "printable_version p"
  shows "\<exists>s. pkg_version_str_alloc p = Some s \<and>
    parse_version q (''Version: '' @ s) = parse_version q s \<and>
    parse_version q s = q\<lparr>p_epoch := p_epoch p, p_version := p_version p, p_revision := p_revision p\<rparr>"
proof -
  obtain v where v: "p_version p = Some v" using assms
    by (cases "p_version p") (auto simp: printable_version_def)
  have e: "unat (p_epoch p) < 2 ^ 31" using assms v by (simp add: printable_version_def)
  have pre: "parse_version q (''Version: '' @ s) = parse_version q s"
    if "\<not> starts_with s ''Version:''" "dropWhile isspace s = s" for s
  proof -
    have "isspace CHR '' ''" by (simp add: isspace_def is_space_def cval_def)
    then have "version_text (''Version: '' @ s) = version_text s"
      using that by (simp add: version_text_def)
    then show ?thesis by (simp only: parse_version_def)
  qed
  show ?thesis
  proof (cases "p_epoch p = 0")
    case True
    define s where "s = (case p_revision p of Some r \<Rightarrow> v @ ''-'' @ r | None \<Rightarrow> v)"
    have "CHR '':'' \<notin> set s" "s \<noteq> [] \<Longrightarrow> \<not> isspace (hd s)"
      using assms v True by (auto simp: s_def printable_version_def hd_append isspace_def is_space_def
          cval_def split: option.splits)
    note P = parse_no_epoch [OF this]
    have "pkg_version_str_alloc p = Some s" using True v
      by (auto simp: pkg_version_str_alloc_def s_def fmt_s_def split: option.splits)
    moreover have "parse_version q s =
        q\<lparr>p_epoch := p_epoch p, p_version := p_version p, p_revision := p_revision p\<rparr>"
      using P True v assms
      by (auto simp: parse_version_defs s_def printable_version_def strrsplit_version
          strrsplit_None [THEN iffD2] split: option.splits)
    ultimately show ?thesis using pre [OF P(1,2)] by blast
  next
    case False
    define t where "t = (case p_revision p of Some r \<Rightarrow> v @ ''-'' @ r | None \<Rightarrow> v)"
    note P = parse_printed_epoch [OF e refl, of t]
    have "pkg_version_str_alloc p = Some (show_nat (unat (p_epoch p)) @ CHR '':'' # t)"
      using False v show_int_epoch [OF e]
      by (auto simp: pkg_version_str_alloc_def t_def fmt_s_def split: option.splits)
    moreover have "parse_version q (show_nat (unat (p_epoch p)) @ CHR '':'' # t) =
        q\<lparr>p_epoch := p_epoch p, p_version := p_version p, p_revision := p_revision p\<rparr>"
      using P v assms
      by (auto simp: parse_version_defs t_def printable_version_def strrsplit_version
          strrsplit_None [THEN iffD2] split: option.splits)
    ultimately show ?thesis using pre [OF P(1,2)] by blast
  qed
qed

text \<open>
  (C3) Printing the version of a package with \<open>pkg_version_str_alloc\<close> and reading it back with
  \<open>parse_version\<close> restores epoch, version and revision, when the epoch fits an \<open>int\<close> and the
  last dash and first colon are the separators.
\<close>

theorem parse_version_print_roundtrip:
  assumes "printable_version p"
  shows "\<exists>s. pkg_version_str_alloc p = Some s \<and>
    parse_version q s = q\<lparr>p_epoch := p_epoch p, p_version := p_version p, p_revision := p_revision p\<rparr>"
  using parse_printed_version [OF assms] by blast

theorem parse_version_print_roundtrip_witness:
  "\<exists>s. pkg_version_str_alloc (example_pkg ''uci'' ''2:1.0-rc1-3'') = Some s \<and>
    parse_version pkg_new s =
      pkg_new\<lparr>p_epoch := p_epoch (example_pkg ''uci'' ''2:1.0-rc1-3''),
        p_version := p_version (example_pkg ''uci'' ''2:1.0-rc1-3''),
        p_revision := p_revision (example_pkg ''uci'' ''2:1.0-rc1-3'')\<rparr>"
  by (rule parse_version_print_roundtrip)
    (simp add: example_pkg_def parse_version_defs printable_version_def pkg_new_def strtoul10_def
      isspace_def is_space_def cval_def isdigit_def is_digit_def num_def digit_val_def)

lemma version_constraints_satisfied_alt:
  "version_constraints_satisfied d p \<longleftrightarrow>
     (let c = pkg_compare_versions p (parse_version pkg_new (case d_version d of Some v \<Rightarrow> v | None \<Rightarrow> []))
      in case d_constraint d of NONE \<Rightarrow> True | EARLIER \<Rightarrow> c \<le> 0 | EARLIER_EQUAL \<Rightarrow> c \<le> 0
         | EQUAL \<Rightarrow> c = 0 | LATER_EQUAL \<Rightarrow> c \<ge> 0 | LATER \<Rightarrow> c \<ge> 0)"
  by (cases "d_constraint d") (auto simp: version_constraints_satisfied_def Let_def)

lemma version_ok_parse: "cstring v \<Longrightarrow> version_ok (parse_version p v)"
proof -
  assume v: "cstring v"
  define w where "w = version_text v"
  have w: "cstring w"
    using v by (auto simp: w_def version_text_def cstring_def dest!: set_dropWhileD in_set_dropD)
  have sub: "set t \<subseteq> set s" if "strchr s CHR '':'' = Some t" for s t
    using that by (induction s) (auto split: if_splits)
  have "cstring (tl t)" if "strchr w CHR '':'' = Some t" for t
    using w sub [OF that] by (cases t) (auto simp: cstring_def)
  then have r: "cstring (snd (split_epoch w))" using w by (auto simp: split_epoch_def split: option.splits)
  obtain e rest where er: "split_epoch w = (e, rest)" by (cases "split_epoch w")
  show ?thesis
  proof (cases "strrsplit rest CHR ''-''")
    case None
    then show ?thesis using r er by (simp add: parse_version_def w_def version_ok_def opt_cstring_def)
  next
    case (Some ab)
    obtain a b where ab: "ab = (a, b)" by (cases ab)
    then have "rest = a @ CHR ''-'' # b" using Some by (simp add: strrsplit_Some)
    then show ?thesis
      using Some ab r er by (simp add: parse_version_def w_def version_ok_def opt_cstring_def)
  qed
qed

text \<open>
  The strict constraints are not strict: a package whose version equals the constraint's
  satisfies \<open>EARLIER\<close> (written \<open><<\<close> in a control file) and \<open>LATER\<close> (written \<open>>>\<close>), although
  \<open>pkg_version_satisfied\<close> rejects it for the operators \<open><<\<close> and \<open>>>\<close>.
\<close>

theorem strict_constraints_accept_equal_version:
  assumes "d_constraint d = EARLIER \<or> d_constraint d = LATER" "d_version d = Some v"
    and "pkg_compare_versions p (parse_version pkg_new v) = 0"
  shows "version_constraints_satisfied d p
    \<and> \<not> pkg_version_satisfied p (parse_version pkg_new v) ''<<''
    \<and> \<not> pkg_version_satisfied p (parse_version pkg_new v) ''>>''"
  using assms by (auto simp: version_constraints_satisfied_alt pkg_version_satisfied_def)

theorem strict_constraints_accept_equal_version_witness:
  "version_constraints_satisfied \<lparr>d_constraint = EARLIER, d_version = Some ''1.0'', d_pkg = 0\<rparr>
     (parse_version pkg_new ''1.0'')
    \<and> \<not> pkg_version_satisfied (parse_version pkg_new ''1.0'') (parse_version pkg_new ''1.0'') ''<<''
    \<and> \<not> pkg_version_satisfied (parse_version pkg_new ''1.0'') (parse_version pkg_new ''1.0'') ''>>''"
  by (rule strict_constraints_accept_equal_version)
    (simp_all add: vercmp.cmp_refl version_ok_parse)

text \<open>
  Lower-bound constraints are upward closed and upper-bound constraints downward closed: a
  package that satisfies \<open>>=\<close> (or \<open>>\<close>) keeps satisfying it when its version grows, one that
  satisfies \<open><=\<close> (or \<open><\<close>) when it shrinks.
\<close>

theorem constraints_monotone:
  assumes "d_version d = Some v" "cstring v" "version_ok p" "version_ok q"
    and "pkg_compare_versions p q \<le> 0"
  shows "(d_constraint d \<in> {LATER, LATER_EQUAL} \<longrightarrow> version_constraints_satisfied d p \<longrightarrow>
            version_constraints_satisfied d q) \<and>
         (d_constraint d \<in> {EARLIER, EARLIER_EQUAL} \<longrightarrow> version_constraints_satisfied d q \<longrightarrow>
            version_constraints_satisfied d p)"
proof -
  have t: "version_ok (parse_version pkg_new v)" using assms(2) by (rule version_ok_parse)
  note tr = vercmp.cmp_trans [of _ p q] vercmp.cmp_trans [of p q]
  show ?thesis
    using assms t tr(1) [OF t assms(3,4)] tr(2) [OF assms(3,4) t]
      vercmp.cmp_le_iff [OF t assms(3)] vercmp.cmp_le_iff [OF t assms(4)]
    by (auto simp: version_constraints_satisfied_alt)
qed

theorem constraints_monotone_witness:
  "version_constraints_satisfied \<lparr>d_constraint = LATER_EQUAL, d_version = Some ''1.2'', d_pkg = 0\<rparr>
     (example_pkg ''b'' ''1.12'')"
proof -
  let ?d = "\<lparr>d_constraint = LATER_EQUAL, d_version = Some ''1.2'', d_pkg = 0\<rparr>"
  have e: "parse_version pkg_new ''1.2'' = (example_pkg ''b'' ''1.2'')\<lparr>p_name := None\<rparr>"
    by (simp add: example_pkg_def parse_version_defs pkg_new_def)
  have "pkg_compare_versions p (q\<lparr>p_name := None\<rparr>) = pkg_compare_versions p q" for p q
    by (simp add: pkg_compare_versions_def Let_def)
  then have "pkg_compare_versions p (parse_version pkg_new ''1.2'') =
      pkg_compare_versions p (example_pkg ''b'' ''1.2'')" for p
    by (simp only: e)
  then have "version_constraints_satisfied ?d (example_pkg ''b'' ''1.10-1'')"
    using example_versions(4) by (simp add: version_constraints_satisfied_def Let_def order.strict_implies_order)
  then show ?thesis
    using constraints_monotone [of ?d "''1.2''" "example_pkg ''b'' ''1.10-1''" "example_pkg ''b'' ''1.12''"]
      example_versions(2,3) example_versions(6) [of "''b''" "''b''"]
    by (simp add: order.strict_implies_order)
qed

end
