(* ===== verification/Opkg_Parse_Util.thy ===== *)
theory Opkg_Parse_Util
  imports Opkg_Base
begin

text \<open>
  The text utilities of \<open>libopkg\<close> and \<open>libbb\<close>: trimming, field recognition, the list parser and
  the line reader of \<open>parse_util.c\<close>, \<open>file_read_line_alloc\<close> of \<open>file_util.c\<close>, and the path
  helpers of \<open>libbb\<close>.

  A stream is the list of bytes still to be read (no NUL among them) and a flag that says whether
  reading past them is an end of file or a read error. A result of \<open>None\<close> is an access past the
  terminating NUL of a string.
\<close>

section \<open>Trimming and joining\<close>

text \<open>The second loop of \<open>trim_xstrdup\<close> stops at the first character (\<open>end > src\<close>).\<close>

definition trim_end :: "string \<Rightarrow> string" where
  "trim_end s = (case s of [] \<Rightarrow> [] | c # t \<Rightarrow> c # rev (dropWhile isspace (rev t)))"

definition trim_xstrdup :: "string \<Rightarrow> string" where
  "trim_xstrdup src = trim_end (dropWhile isspace src)"

definition line_is_blank :: "string \<Rightarrow> bool" where
  "line_is_blank line \<longleftrightarrow> list_all isspace line"

text \<open>
  \<open>safe_strncpy dst src size\<close> with \<open>size > 0\<close>: the string the buffer holds afterwards.
\<close>

definition safe_strncpy :: "string \<Rightarrow> nat \<Rightarrow> string" where
  "safe_strncpy src n = take (n - 1) src"

definition last_char_is :: "string option \<Rightarrow> char \<Rightarrow> bool" where
  "last_char_is so c = (case so of None \<Rightarrow> False | Some s \<Rightarrow> s \<noteq> [] \<and> last s = c)"

definition concat_path_file :: "string option \<Rightarrow> string \<Rightarrow> string" where
  "concat_path_file path filename =
     (let p = (case path of None \<Rightarrow> [] | Some p \<Rightarrow> p)
      in p @ (if last_char_is (Some p) CHR ''/'' then [] else ''/'') @
         dropWhile (\<lambda>c. c = CHR ''/'') filename)"

section \<open>Fields and lists\<close>

definition is_field :: "string \<Rightarrow> string \<Rightarrow> bool" where
  "is_field type line = starts_with line type"

text \<open>The text one character after the field name; past the end of a line that stops there.\<close>

definition parse_simple :: "string \<Rightarrow> string \<Rightarrow> string option" where
  "parse_simple type line =
     (if length type + 1 \<le> length line
      then Some (trim_xstrdup (drop (length type + 1) line)) else None)"

text \<open>
  One item of \<open>parse_list\<close>. White space before the item is skipped. Its end is the separator or
  the end of the text: the loop that moves \<open>end\<close> back over white space looks at that very
  character first, so it does nothing unless the separator is a space.
\<close>

function parse_list_loop :: "char \<Rightarrow> string \<Rightarrow> string list" where
  "parse_list_loop sep raw =
     (if raw = [] then []
      else
        let start = dropWhile isspace raw;
            tok = takeWhile (\<lambda>c. c \<noteq> sep) start;
            rest = dropWhile (\<lambda>c. c \<noteq> sep) start;
            item = (if rest \<noteq> [] \<and> isspace sep then trim_end tok else tok)
        in item # parse_list_loop sep (tl rest))"
  by pat_completeness auto
termination
proof (relation "measure (\<lambda>(sep, raw). length raw)", goal_cases)
  case (2 sep raw x xa xb xc)
  have "length (dropWhile (\<lambda>c. c \<noteq> sep) (dropWhile isspace raw)) \<le> length raw"
    by (meson length_dropWhile_le order_trans)
  with 2 show ?case by (cases raw) auto
qed simp

declare parse_list_loop.simps [simp del]

definition parse_list :: "string \<Rightarrow> char \<Rightarrow> bool \<Rightarrow> string list option" where
  "parse_list raw sep skip_field =
     (let body = (if skip_field then Some raw else map_option tl (strchr raw CHR '':''))
      in case body of
           None \<Rightarrow> None
         | Some r \<Rightarrow> Some (if line_is_blank r then [] else parse_list_loop sep r))"

section \<open>Streams\<close>

record stream =
  st_data :: string
  st_error :: bool

fun fgets_take :: "nat \<Rightarrow> string \<Rightarrow> string \<times> string" where
  "fgets_take 0 s = ([], s)"
| "fgets_take (Suc k) [] = ([], [])"
| "fgets_take (Suc k) (c # s) =
     (if c = CHR 0x0A then ([c], s)
      else (case fgets_take k s of (a, b) \<Rightarrow> (c # a, b)))"

text \<open>
  \<open>fgets buf n\<close>: at most \<open>n - 1\<close> characters, up to and including a newline; NULL at the end.
\<close>

definition fgets :: "nat \<Rightarrow> string \<Rightarrow> (string \<times> string) option" where
  "fgets n s = (if s = [] then None else Some (fgets_take (n - 1) s))"

lemma fgets_take_append: "fgets_take k s = (a, b) \<Longrightarrow> s = a @ b"
  by (induction k s arbitrary: a b rule: fgets_take.induct) (auto split: if_splits prod.splits)

lemma fgets_take_length: "fgets_take k s = (a, b) \<Longrightarrow> length a \<le> k \<and> (0 < k \<longrightarrow> s \<noteq> [] \<longrightarrow> a \<noteq> [])"
  by (induction k s arbitrary: a b rule: fgets_take.induct) (auto split: if_splits prod.splits)

lemma fgets_take_line:
  "CHR 0x0A \<notin> set l \<Longrightarrow> length l < k \<Longrightarrow> fgets_take k (l @ CHR 0x0A # s) = (l @ [CHR 0x0A], s)"
proof (induction l arbitrary: k)
  case Nil then show ?case by (cases k) auto
next
  case (Cons c l) then show ?case by (cases k) auto
qed

lemma fgets_take_partial:
  "CHR 0x0A \<notin> set l \<Longrightarrow> k \<le> length l \<Longrightarrow> fgets_take k (l @ s) = (take k l, drop k l @ s)"
proof (induction l arbitrary: k)
  case Nil then show ?case by simp
next
  case (Cons c l) then show ?case by (cases k) auto
qed

lemma fgets_take_tail:
  "CHR 0x0A \<notin> set l \<Longrightarrow> length l \<le> k \<Longrightarrow> fgets_take k l = (l, [])"
proof (induction l arbitrary: k)
  case Nil then show ?case by (cases k) auto
next
  case (Cons c l) then show ?case by (cases k) auto
qed

section \<open>\<open>parse_from_stream_nomalloc\<close>\<close>

definition EXCESSIVE_LINE_LEN :: nat where "EXCESSIVE_LINE_LEN = 4096 * 2 ^ 8"

text \<open>
  The state of the loop: the text already in \<open>*buf0\<close> (\<open>acc\<close>), the room for the next \<open>fgets\<close>
  (\<open>buflen\<close>), the size of the buffer (\<open>buf0len\<close>, never 0), the item being filled and the rest of
  the stream. The callback returns the item and whether to stop. The result is the return code, the
  item and the rest of the stream.
\<close>

function parse_stream_loop ::
  "('i \<Rightarrow> string \<Rightarrow> 'i \<times> bool) \<Rightarrow> string \<Rightarrow> nat \<Rightarrow> nat \<Rightarrow> 'i \<Rightarrow> stream \<Rightarrow> int \<times> 'i \<times> stream" where
  "parse_stream_loop parse_line acc buflen buf0len item fp =
     (case fgets buflen (st_data fp) of
        None \<Rightarrow>
          if st_error fp then (-1, item, fp)
          else if length acc = buf0len - 1 then (0, fst (parse_line item acc), fp)
          else (0, item, fp)
      | Some (chunk, rest) \<Rightarrow>
          let fp' = fp\<lparr>st_data := rest\<rparr>; buf = acc @ chunk in
          if CHR 0x0A \<notin> set chunk then
            if length chunk < buflen - 1 then (0, fst (parse_line item buf), fp')
            else if EXCESSIVE_LINE_LEN \<le> buf0len then (-1, item, fp')
            else if buf0len = 0 then (0, item, fp')
            else parse_stream_loop parse_line buf (buf0len + 1) (2 * buf0len) item fp'
          else
            (case parse_line item (acc @ takeWhile (\<lambda>c. c \<noteq> CHR 0x0A) chunk) of
               (item', stop) \<Rightarrow>
                 if stop then (0, item', fp')
                 else parse_stream_loop parse_line [] buf0len buf0len item' fp'))"
  by pat_completeness auto
termination
proof (relation "measures [\<lambda>(pl, acc, bl, b0, it, fp). length (st_data fp),
    \<lambda>(pl, acc, bl, b0, it, fp). EXCESSIVE_LINE_LEN - b0]", goal_cases)
  case 1 then show ?case by simp
next
  case (2 parse_line acc buflen buf0len item fp a x y xa xb)
  then obtain k where "fgets_take k (st_data fp) = (x, y)" by (auto simp: fgets_def split: if_splits)
  from fgets_take_append [OF this] 2 show ?case by (cases x) auto
next
  case (3 parse_line acc buflen buf0len item fp a x y xa xb xc xd)
  then obtain k where "fgets_take k (st_data fp) = (x, y)" by (auto simp: fgets_def split: if_splits)
  from fgets_take_append [OF this] 3 show ?case by (cases x) auto
qed

declare parse_stream_loop.simps [simp del]

definition parse_from_stream_nomalloc ::
  "('i \<Rightarrow> string \<Rightarrow> 'i \<times> bool) \<Rightarrow> 'i \<Rightarrow> stream \<Rightarrow> nat \<Rightarrow> int \<times> 'i \<times> stream" where
  "parse_from_stream_nomalloc parse_line item fp buf0len =
     parse_stream_loop parse_line [] buf0len buf0len item fp"

section \<open>\<open>file_read_line_alloc\<close>\<close>

definition BUFSIZ :: nat where "BUFSIZ = 8192"

text \<open>\<open>line\<close> is NULL until the first piece has been read.\<close>

function file_read_line_loop :: "string option \<Rightarrow> string \<Rightarrow> string option \<times> string" where
  "file_read_line_loop line fp =
     (case fgets BUFSIZ fp of
        None \<Rightarrow> (line, fp)
      | Some (buf, rest) \<Rightarrow>
          let got_nl = (buf \<noteq> [] \<and> last buf = CHR 0x0A);
              buf' = (if got_nl then butlast buf else buf);
              line' = (case line of Some l \<Rightarrow> l @ buf' | None \<Rightarrow> buf')
          in if got_nl then (Some line', rest)
             else file_read_line_loop (Some line') rest)"
  by pat_completeness auto
termination
proof (relation "measure (\<lambda>(l, fp). length fp)", goal_cases)
  case (2 line fp a x y)
  then have "fgets_take (BUFSIZ - 1) fp = (x, y)" "fp \<noteq> []" by (auto simp: fgets_def split: if_splits)
  then show ?case
    using fgets_take_append [of "BUFSIZ - 1" fp x y] fgets_take_length [of "BUFSIZ - 1" fp x y]
    by (simp add: BUFSIZ_def)
qed simp

declare file_read_line_loop.simps [simp del]

definition file_read_line_alloc :: "string \<Rightarrow> string option \<times> string" where
  "file_read_line_alloc fp = file_read_line_loop None fp"

section \<open>What the line readers compute\<close>

abbreviation newline :: char where "newline \<equiv> CHR 0x0A"

definition unlines :: "string list \<Rightarrow> string" where
  "unlines ls = concat (map (\<lambda>l. l @ [newline]) ls)"

lemma unlines_simps [simp]: "unlines [] = []" "unlines (l # ls) = l @ newline # unlines ls"
  by (simp_all add: unlines_def)

text \<open>The lines handed to the callback one after the other, until it asks to stop.\<close>

fun feed_lines :: "('i \<Rightarrow> string \<Rightarrow> 'i \<times> bool) \<Rightarrow> 'i \<Rightarrow> string list \<Rightarrow> 'i \<times> string list" where
  "feed_lines parse_line item [] = (item, [])"
| "feed_lines parse_line item (l # ls) =
     (case parse_line item l of
        (item', stop) \<Rightarrow> if stop then (item', ls) else feed_lines parse_line item' ls)"

lemma parse_stream_line:
  assumes "newline \<notin> set l" "length acc + buflen = buf0len" "2 \<le> buflen"
    and "length acc + length l + 2 \<le> EXCESSIVE_LINE_LEN"
  shows "\<exists>b \<ge> 2. parse_stream_loop pl acc buflen buf0len item \<lparr>st_data = l @ newline # s, st_error = e\<rparr> =
    (case pl item (acc @ l) of (item', stop) \<Rightarrow>
       if stop then (0, item', \<lparr>st_data = s, st_error = e\<rparr>)
       else parse_stream_loop pl [] b b item' \<lparr>st_data = s, st_error = e\<rparr>)"
  using assms
proof (induction l arbitrary: acc buflen buf0len rule: length_induct)
  case (1 l)
  show ?case
  proof (cases "length l < buflen - 1")
    case True
    have "fgets_take (buflen - 1) (l @ newline # s) = (l @ [newline], s)"
      using fgets_take_line 1(2) True by blast
    moreover have "takeWhile (\<lambda>c. c \<noteq> newline) (l @ [newline]) = l"
      using 1(2) by (simp add: takeWhile_append)
    ultimately show ?thesis
      using 1(3,4) by (intro exI [of _ buf0len]) (subst parse_stream_loop.simps, simp add: fgets_def Let_def)
  next
    case False
    then have k: "buflen - 1 \<le> length l" by simp
    define c where "c = take (buflen - 1) l"
    have f: "fgets_take (buflen - 1) (l @ newline # s) = (c, drop (buflen - 1) l @ newline # s)"
      unfolding c_def by (rule fgets_take_partial [OF 1(2) k])
    have c: "length c = buflen - 1" "newline \<notin> set c"
      using k 1(2) by (auto simp: c_def dest: in_set_takeD)
    have b: "\<not> EXCESSIVE_LINE_LEN \<le> buf0len" "buf0len \<noteq> 0" using 1(3,4,5) k by auto
    have step: "parse_stream_loop pl acc buflen buf0len item \<lparr>st_data = l @ newline # s, st_error = e\<rparr> =
        parse_stream_loop pl (acc @ c) (buf0len + 1) (2 * buf0len) item
          \<lparr>st_data = drop (buflen - 1) l @ newline # s, st_error = e\<rparr>"
      using c b f by (subst parse_stream_loop.simps) (simp add: fgets_def Let_def)
    have "length (drop (buflen - 1) l) < length l" using k 1(4) by simp
    moreover have "newline \<notin> set (drop (buflen - 1) l)" using 1(2) by (auto dest: in_set_dropD)
    ultimately have IH: "\<exists>b \<ge> 2. parse_stream_loop pl (acc @ c) (buf0len + 1) (2 * buf0len) item
          \<lparr>st_data = drop (buflen - 1) l @ newline # s, st_error = e\<rparr> =
        (case pl item ((acc @ c) @ drop (buflen - 1) l) of (item', stop) \<Rightarrow>
           if stop then (0, item', \<lparr>st_data = s, st_error = e\<rparr>)
           else parse_stream_loop pl [] b b item' \<lparr>st_data = s, st_error = e\<rparr>)"
      using c k 1(3,4,5) by (intro 1(1) [rule_format]) auto
    then show ?thesis unfolding step by (simp add: c_def)
  qed
qed

lemma parse_stream_lines:
  assumes "\<forall>l \<in> set ls. newline \<notin> set l \<and> length l + 2 \<le> EXCESSIVE_LINE_LEN" "2 \<le> b"
  shows "parse_stream_loop pl [] b b item \<lparr>st_data = unlines ls, st_error = False\<rparr> =
    (case feed_lines pl item ls of (item', rest) \<Rightarrow> (0, item', \<lparr>st_data = unlines rest, st_error = False\<rparr>))"
  using assms
proof (induction ls arbitrary: item b)
  case Nil
  then show ?case by (subst parse_stream_loop.simps) (simp add: fgets_def)
next
  case (Cons l ls)
  obtain b' where b': "b' \<ge> 2" and eq:
    "parse_stream_loop pl [] b b item \<lparr>st_data = l @ newline # unlines ls, st_error = False\<rparr> =
      (case pl item l of (item', stop) \<Rightarrow>
         if stop then (0, item', \<lparr>st_data = unlines ls, st_error = False\<rparr>)
         else parse_stream_loop pl [] b' b' item' \<lparr>st_data = unlines ls, st_error = False\<rparr>)"
    using parse_stream_line [of l "[]" b b pl item "unlines ls" False] Cons.prems by auto
  then show ?case using Cons.IH [OF _ b'] Cons.prems by (simp split: prod.splits)
qed

lemma takeWhile_dropWhile_same: "takeWhile P (dropWhile P s) = []" "dropWhile P (dropWhile P s) = dropWhile P s"
  by (induction s) auto

lemma read_line_loop_end: "file_read_line_loop line [] = (line, [])"
  by (subst file_read_line_loop.simps) (simp add: fgets_def)

lemma read_line_loop_correct:
  "file_read_line_loop line s =
     (if s = [] then (line, [])
      else (Some ((case line of Some l \<Rightarrow> l | None \<Rightarrow> []) @ takeWhile (\<lambda>c. c \<noteq> newline) s),
            tl (dropWhile (\<lambda>c. c \<noteq> newline) s)))"
proof (induction s arbitrary: line rule: length_induct)
  case (1 s)
  show ?case
  proof (cases "s = []")
    case True
    then show ?thesis by (subst file_read_line_loop.simps) (simp add: fgets_def)
  next
    case ne: False
    define l r where "l = takeWhile (\<lambda>c. c \<noteq> newline) s" and "r = dropWhile (\<lambda>c. c \<noteq> newline) s"
    have s: "s = l @ r" and nl: "newline \<notin> set l"
      by (auto simp: l_def r_def dest: set_takeWhileD)
    show ?thesis
    proof (cases "length l < BUFSIZ - 1")
      case short: True
      show ?thesis
      proof (cases r)
        case Nil
        then have f: "fgets_take (BUFSIZ - 1) s = (s, [])"
          using short nl s by (intro fgets_take_tail) auto
        have la: "last s \<noteq> newline" using nl Nil s ne by (metis append_Nil2 last_in_set)
        have tw: "takeWhile (\<lambda>c. c \<noteq> newline) s = s" "dropWhile (\<lambda>c. c \<noteq> newline) s = []"
          unfolding l_def [symmetric] r_def [symmetric] using Nil s by simp_all
        have "file_read_line_loop line s =
            file_read_line_loop (Some ((case line of Some l \<Rightarrow> l | None \<Rightarrow> []) @ s)) []"
          using ne f la by (subst file_read_line_loop.simps)
            (simp add: fgets_def Let_def split: option.splits)
        then show ?thesis using ne by (simp add: read_line_loop_end tw)
      next
        case (Cons c t)
        then have "c = newline" using hd_dropWhile [of "\<lambda>c. c \<noteq> newline" s] by (auto simp: r_def)
        then have f: "fgets_take (BUFSIZ - 1) s = (l @ [newline], t)"
          using short nl s Cons by (simp add: fgets_take_line)
        have "tl r = t" using Cons by simp
        then show ?thesis
          using ne f by (subst file_read_line_loop.simps)
            (simp add: fgets_def Let_def flip: l_def r_def split: option.splits)
      qed
    next
      case False
      then have f: "fgets_take (BUFSIZ - 1) s = (take (BUFSIZ - 1) l, drop (BUFSIZ - 1) l @ r)"
        unfolding s by (intro fgets_take_partial [OF nl]) simp
      let ?a = "take (BUFSIZ - 1) l" and ?b = "drop (BUFSIZ - 1) l @ r"
      have a: "newline \<notin> set ?a" "?a \<noteq> []" using nl False by (auto dest: in_set_takeD simp: BUFSIZ_def)
      then have la: "last ?a \<noteq> newline" by (metis last_in_set)
      have len: "length ?b < length s" using False s by (simp add: BUFSIZ_def)
      have step: "file_read_line_loop line s =
          file_read_line_loop (Some ((case line of Some l \<Rightarrow> l | None \<Rightarrow> []) @ ?a)) ?b"
        using ne f a la by (subst file_read_line_loop.simps)
          (simp add: fgets_def Let_def split: option.splits)
      have tw: "takeWhile (\<lambda>c. c \<noteq> newline) ?b = drop (BUFSIZ - 1) l"
               "dropWhile (\<lambda>c. c \<noteq> newline) ?b = r"
      proof -
        have "\<forall>c \<in> set (drop (BUFSIZ - 1) l). c \<noteq> newline" using nl by (auto dest: in_set_dropD)
        moreover have "takeWhile (\<lambda>c. c \<noteq> newline) r = []" "dropWhile (\<lambda>c. c \<noteq> newline) r = r"
          by (simp_all only: r_def takeWhile_dropWhile_same)
        ultimately show "takeWhile (\<lambda>c. c \<noteq> newline) ?b = drop (BUFSIZ - 1) l"
               "dropWhile (\<lambda>c. c \<noteq> newline) ?b = r"
          by (simp_all add: takeWhile_append dropWhile_append)
      qed
      show ?thesis
      proof (cases "?b = []")
        case True
        then have l: "l = ?a" and r: "r = []" by (auto simp: append_take_drop_id)
        have "file_read_line_loop line s =
            (Some ((case line of Some l \<Rightarrow> l | None \<Rightarrow> []) @ ?a), [])"
          unfolding step True by (rule read_line_loop_end)
        then show ?thesis
          unfolding l_def [symmetric] r_def [symmetric] l [symmetric] r using ne by simp
      next
        case False
        then show ?thesis
          using 1 [rule_format, OF len] ne tw by (simp add: step flip: l_def r_def)
      qed
    qed
  qed
qed

text \<open>(C5) The line reader hands exactly the lines of the stream to the callback, in order, whatever
  the initial buffer size is and however often the buffer is doubled, until the callback asks to
  stop; it then returns 0 and leaves the rest of the stream unread.\<close>
theorem stream_reader_feeds_lines:
  assumes "\<forall>l \<in> set ls. newline \<notin> set l \<and> length l + 2 \<le> EXCESSIVE_LINE_LEN" "2 \<le> b"
  shows "parse_from_stream_nomalloc pl item \<lparr>st_data = unlines ls, st_error = False\<rparr> b =
    (case feed_lines pl item ls of (item', rest) \<Rightarrow> (0, item', \<lparr>st_data = unlines rest, st_error = False\<rparr>))"
  unfolding parse_from_stream_nomalloc_def by (rule parse_stream_lines [OF assms])

theorem stream_reader_feeds_lines_witness:
  "parse_from_stream_nomalloc (\<lambda>ls l. (ls @ [l], l = [])) [] \<lparr>st_data = unlines [''ab'', ''cde'', [], ''f''], st_error = False\<rparr> 2 =
    (0, [''ab'', ''cde'', []], \<lparr>st_data = unlines [''f''], st_error = False\<rparr>)"
  using stream_reader_feeds_lines [of "[''ab'', ''cde'', [], ''f'']" 2 "\<lambda>ls l. (ls @ [l], l = [])" "[]"]
  by (simp add: EXCESSIVE_LINE_LEN_def)

lemma parse_stream_final_line:
  assumes "newline \<notin> set l" "length acc + buflen = buf0len" "2 \<le> buflen"
    and "length acc + length l + 2 \<le> EXCESSIVE_LINE_LEN"
  shows "parse_stream_loop pl acc buflen buf0len item \<lparr>st_data = l, st_error = False\<rparr> =
    (0, if l = [] \<or> (\<exists>k. length acc + length l + 1 = 2 ^ k * buf0len) then item
        else fst (pl item (acc @ l)), \<lparr>st_data = [], st_error = False\<rparr>)"
  using assms
proof (induction l arbitrary: acc buflen buf0len rule: length_induct)
  case (1 l)
  consider (nil) "l = []" | (short) "l \<noteq> []" "length l < buflen - 1" | (full) "buflen - 1 \<le> length l"
    by linarith
  then show ?case
  proof cases
    case nil
    then have "length acc \<noteq> buf0len - 1" using 1(3,4) by linarith
    then show ?thesis using nil by (subst parse_stream_loop.simps) (simp add: fgets_def)
  next
    case short
    have "length acc + length l + 1 \<noteq> 2 ^ k * buf0len" for k
    proof -
      have "length acc + length l + 1 < buf0len" using short 1(3) by linarith
      also have "buf0len \<le> 2 ^ k * buf0len" by simp
      finally show ?thesis by simp
    qed
    moreover have "fgets_take (buflen - 1) l = (l, [])"
      using fgets_take_tail [OF 1(2)] short by simp
    ultimately show ?thesis
      using short 1(2) by (subst parse_stream_loop.simps) (simp add: fgets_def Let_def)
  next
    case full
    define c r where "c = take (buflen - 1) l" and "r = drop (buflen - 1) l"
    have l: "l = c @ r" by (simp add: c_def r_def)
    have f: "fgets_take (buflen - 1) l = (c, r)"
      using fgets_take_partial [OF 1(2) full, of "[]"] by (simp add: c_def r_def)
    have c: "length c = buflen - 1" "newline \<notin> set c" "newline \<notin> set r" "l \<noteq> []"
      using full 1(2,4) by (auto simp: c_def r_def dest: in_set_takeD in_set_dropD)
    have b: "\<not> EXCESSIVE_LINE_LEN \<le> buf0len" "buf0len \<noteq> 0" using 1(3,4,5) full by auto
    have step: "parse_stream_loop pl acc buflen buf0len item \<lparr>st_data = l, st_error = False\<rparr> =
        parse_stream_loop pl (acc @ c) (buf0len + 1) (2 * buf0len) item \<lparr>st_data = r, st_error = False\<rparr>"
      using c b f by (subst parse_stream_loop.simps) (simp add: fgets_def Let_def)
    have len: "length l = buflen - 1 + length r" using l c(1) by (metis length_append)
    have IH: "parse_stream_loop pl (acc @ c) (buf0len + 1) (2 * buf0len) item \<lparr>st_data = r, st_error = False\<rparr> =
        (0, if r = [] \<or> (\<exists>k. length (acc @ c) + length r + 1 = 2 ^ k * (2 * buf0len)) then item
            else fst (pl item ((acc @ c) @ r)), \<lparr>st_data = [], st_error = False\<rparr>)"
      using c len 1(3,4,5) by (intro 1(1) [rule_format]) auto
    have "(r = [] \<or> (\<exists>k. length (acc @ c) + length r + 1 = 2 ^ k * (2 * buf0len))) =
        (\<exists>k. length acc + length l + 1 = 2 ^ k * buf0len)" (is "?A = ?B")
    proof
      assume ?A
      then show ?B
      proof
        assume "r = []"
        then have "length acc + length l + 1 = 2 ^ 0 * buf0len" using len 1(3,4) by simp
        then show ?B ..
      next
        assume "\<exists>k. length (acc @ c) + length r + 1 = 2 ^ k * (2 * buf0len)"
        then obtain k where "length (acc @ c) + length r + 1 = 2 ^ k * (2 * buf0len)" ..
        then have "length acc + length l + 1 = 2 ^ Suc k * buf0len" using c(1) len by simp
        then show ?B ..
      qed
    next
      assume ?B
      then obtain k where k: "length acc + length l + 1 = 2 ^ k * buf0len" ..
      show ?A
      proof (cases k)
        case 0
        then have "length r = 0" using k len 1(3,4) by (simp del: length_0_conv)
        then show ?thesis by simp
      next
        case (Suc m)
        then have "length (acc @ c) + length r + 1 = 2 ^ m * (2 * buf0len)" using k c len by simp
        then show ?thesis by blast
      qed
    qed
    then show ?thesis
      unfolding step IH by (simp only: append_assoc l [symmetric] c(4) simp_thms)
  qed
qed

text \<open>What happens to a final line that has no newline: the callback gets it, except when its
  length is one less than the size the buffer has reached (the initial size doubled some number of
  times). Such a line is dropped without a message, because the test that should catch it compares
  with the size after the doubling.\<close>
theorem unterminated_final_line:
  assumes "newline \<notin> set l" "length l + 2 \<le> EXCESSIVE_LINE_LEN" "2 \<le> b"
  shows "parse_from_stream_nomalloc pl item \<lparr>st_data = l, st_error = False\<rparr> b =
    (0, if l = [] \<or> (\<exists>k. length l + 1 = 2 ^ k * b) then item else fst (pl item l),
     \<lparr>st_data = [], st_error = False\<rparr>)"
  using parse_stream_final_line [of l "[]" b b pl item] assms
  unfolding parse_from_stream_nomalloc_def by simp

theorem unterminated_final_line_witness:
  "parse_from_stream_nomalloc (\<lambda>ls l. (ls @ [l], l = [])) [] \<lparr>st_data = ''Size: 7'', st_error = False\<rparr> 5 =
     (0, [''Size: 7''], \<lparr>st_data = [], st_error = False\<rparr>) \<and>
   parse_from_stream_nomalloc (\<lambda>ls l. (ls @ [l], l = [])) [] \<lparr>st_data = ''Size: 777'', st_error = False\<rparr> 5 =
     (0, [], \<lparr>st_data = [], st_error = False\<rparr>)"
proof
  have "length ''Size: 7'' + 1 \<noteq> 2 ^ k * 5" for k
  proof
    assume "length ''Size: 7'' + 1 = 2 ^ k * 5"
    then have "(length ''Size: 7'' + 1) mod 5 = 0" by simp
    then show False by simp
  qed
  then show "parse_from_stream_nomalloc (\<lambda>ls l. (ls @ [l], l = [])) [] \<lparr>st_data = ''Size: 7'', st_error = False\<rparr> 5 =
     (0, [''Size: 7''], \<lparr>st_data = [], st_error = False\<rparr>)"
    using unterminated_final_line [of "''Size: 7''" 5 "\<lambda>ls l. (ls @ [l], l = [])" "[]"]
    by (simp add: EXCESSIVE_LINE_LEN_def)
next
  have "length ''Size: 777'' + 1 = 2 ^ 1 * 5" by simp
  then have "\<exists>k. length ''Size: 777'' + 1 = 2 ^ k * 5" by blast
  then show "parse_from_stream_nomalloc (\<lambda>ls l. (ls @ [l], l = [])) [] \<lparr>st_data = ''Size: 777'', st_error = False\<rparr> 5 =
     (0, [], \<lparr>st_data = [], st_error = False\<rparr>)"
    using unterminated_final_line [of "''Size: 777''" 5 "\<lambda>ls l. (ls @ [l], l = [])" "[]"]
    by (simp add: EXCESSIVE_LINE_LEN_def)
qed

text \<open>\<open>file_read_line_alloc\<close> returns the next line whole and without its newline, whatever its
  length is relative to the 8192-byte buffer, returns an unterminated last line too, and answers NULL
  at the end of the file only.\<close>
theorem file_read_line_alloc_reads_line:
  "file_read_line_alloc s =
     (if s = [] then (None, [])
      else (Some (takeWhile (\<lambda>c. c \<noteq> newline) s), tl (dropWhile (\<lambda>c. c \<noteq> newline) s)))"
  unfolding file_read_line_alloc_def by (simp add: read_line_loop_correct)

section \<open>Lists\<close>

text \<open>The text \<open>pkg_formatted_field\<close> writes for a list, without the field name.\<close>

fun print_list :: "string list \<Rightarrow> string" where
  "print_list [] = []"
| "print_list [x] = '' '' @ x"
| "print_list (x # xs) = '' '' @ x @ '','' @ print_list xs"

definition list_item :: "string \<Rightarrow> bool" where
  "list_item x \<longleftrightarrow> x \<noteq> [] \<and> \<not> isspace (hd x) \<and> CHR '','' \<notin> set x"

lemma isspace_comma: "\<not> isspace CHR '',''" "isspace CHR '' ''"
  by (simp_all add: isspace_def is_space_def cval_def)

lemma list_item_dropWhile: "list_item x \<Longrightarrow> dropWhile isspace ('' '' @ x @ s) = x @ s"
  by (cases x) (auto simp: list_item_def isspace_def is_space_def cval_def)

lemma parse_list_loop_print:
  "list_all list_item xs \<Longrightarrow> parse_list_loop CHR '','' (print_list xs) = xs"
proof (induction xs rule: print_list.induct)
  case 1 then show ?case by (simp add: parse_list_loop.simps)
next
  case (2 x)
  have "parse_list_loop CHR '','' [] = []" by (simp add: parse_list_loop.simps)
  moreover have dw: "dropWhile (\<lambda>c. c \<noteq> CHR '','') x = []" using 2 by (auto simp: list_item_def)
  moreover have "tl (dropWhile (\<lambda>c. c \<noteq> CHR '','') x) = []" by (simp only: dw list.sel)
  moreover have "takeWhile (\<lambda>c. c \<noteq> CHR '','') x = x" "CHR '','' \<notin> set x"
    using 2 by (auto simp: list_item_def)
  moreover have "dropWhile isspace ('' '' @ x) = x" using list_item_dropWhile [of x "[]"] 2 by simp
  ultimately show ?case
    by (subst parse_list_loop.simps) (simp del: dropWhile.simps append_Cons add: Let_def isspace_comma)
next
  case (3 x y zs)
  have x: "list_item x" using 3 by simp
  have "takeWhile (\<lambda>c. c \<noteq> CHR '','') (x @ '','' @ s) = x" for s
    using x by (simp add: list_item_def takeWhile_append)
  moreover have "dropWhile (\<lambda>c. c \<noteq> CHR '','') (x @ '','' @ s) = '','' @ s" for s
    using x by (simp add: list_item_def dropWhile_append)
  moreover have "dropWhile isspace ('' '' @ x @ s) = x @ s" for s
    by (rule list_item_dropWhile [OF x])
  ultimately show ?case
    using 3 by (subst parse_list_loop.simps)
      (simp del: dropWhile.simps append_Cons takeWhile.simps add: Let_def isspace_comma)
qed

lemma print_list_blank: "list_all list_item xs \<Longrightarrow> line_is_blank (print_list xs) = (xs = [])"
  by (cases xs rule: print_list.cases)
    (auto simp: line_is_blank_def list_item_def neq_Nil_conv)

lemma parse_list_print:
  "list_all list_item xs \<Longrightarrow> CHR '':'' \<notin> set field \<Longrightarrow>
     parse_list (field @ '':'' @ print_list xs) CHR '','' False = Some xs"
  using print_list_blank [of xs]
  by (auto simp: parse_list_def Let_def strchr_append parse_list_loop_print)

section \<open>Numbers in any base\<close>

text \<open>
  \<open>strtoul s NULL 0\<close> and \<open>strtol s NULL 0\<close>: a prefix \<open>0x\<close> selects base 16, another leading zero
  base 8. Values that do not fit are the largest (smallest) of the type.
\<close>

definition digit_of :: "char \<Rightarrow> nat" where
  "digit_of c = (if isdigit c then nat (cval c - 48)
                 else if isalpha c then nat (cval (tolower c) - 87) else 99)"

definition num_in :: "nat \<Rightarrow> string \<Rightarrow> nat" where
  "num_in b ds = foldl (\<lambda>n d. b * n + digit_of d) 0 ds"

definition scan_number :: "string \<Rightarrow> bool \<times> nat" where
  "scan_number s0 =
     (let s = dropWhile isspace s0;
          neg = (s \<noteq> [] \<and> hd s = CHR ''-'');
          t = (if s \<noteq> [] \<and> (hd s = CHR ''-'' \<or> hd s = CHR ''+'') then tl s else s);
          hex = (starts_with t ''0x'' \<or> starts_with t ''0X'');
          b = (if hex then 16 else if starts_with t ''0'' then 8 else 10);
          u = (if hex then drop 2 t else t)
      in (neg, num_in b (takeWhile (\<lambda>c. digit_of c < b) u)))"

definition strtoul0 :: "string \<Rightarrow> ulong" where
  "strtoul0 s = (case scan_number s of
     (neg, n) \<Rightarrow> if n \<ge> 2 ^ 64 then - 1 else if neg then - of_nat n else of_nat n)"

definition strtol0 :: "string \<Rightarrow> int" where
  "strtol0 s = (case scan_number s of
     (neg, n) \<Rightarrow> max (- (2 ^ 63)) (min (2 ^ 63 - 1) (if neg then - int n else int n)))"

lemma num_in_10: "list_all isdigit ds \<Longrightarrow> num_in 10 ds = num ds"
  unfolding num_in_def num_def
  by (rule foldl_cong) (auto simp: digit_of_def digit_val_def list_all_iff)

lemma show_nat_first: "0 < n \<Longrightarrow> hd (show_nat n) \<noteq> CHR ''0''"
proof (induction n rule: show_nat.induct)
  case (1 n)
  show ?case
  proof (cases "n < 10")
    case True
    have "cval CHR ''0'' = 48" by (simp add: cval_def)
    moreover have "cval (digit_char n) = 48 + int n" using True by simp
    ultimately have "digit_char n \<noteq> CHR ''0''" using 1(2) by auto
    then show ?thesis using True by (simp add: show_nat.simps [of n])
  next
    case False
    then have "hd (show_nat (n div 10)) \<noteq> CHR ''0''" by (intro 1(1)) auto
    then show ?thesis
      using False show_nat_digits [of "n div 10"] by (simp add: show_nat.simps [of n])
  qed
qed

lemma isdigit_digit_of: "isdigit c \<Longrightarrow> digit_of c < 10" "isdigit c \<Longrightarrow> c \<noteq> CHR ''x''" "isdigit c \<Longrightarrow> c \<noteq> CHR ''X''"
  by (auto simp: digit_of_def isdigit_def is_digit_def cval_def)

lemma scan_number_show_nat: "scan_number (show_nat n) = (False, n)"
proof -
  have d: "list_all isdigit (show_nat n)" "show_nat n \<noteq> []" using show_nat_digits by auto
  then obtain x xs where x: "show_nat n = x # xs" "isdigit x" "list_all isdigit xs"
    by (cases "show_nat n") auto
  have ns: "\<not> isspace x" "x \<noteq> CHR ''-''" "x \<noteq> CHR ''+''" using x(2) by auto
  have nh: "\<not> starts_with (x # xs) ''0x''" "\<not> starts_with (x # xs) ''0X''"
    using x(3) isdigit_digit_of by (cases xs; auto)+
  show ?thesis
  proof (cases "n = 0")
    case True
    have "cval CHR ''0'' = 48" by (simp add: cval_def)
    then have "cval (digit_char 0) = cval CHR ''0''" by (simp del: cval_inj)
    then have "digit_char 0 = CHR ''0''" by (simp only: cval_inj)
    then have "show_nat 0 = ''0''" by (subst show_nat.simps) simp
    then show ?thesis
      using True by (simp add: scan_number_def num_in_def digit_of_def isspace_def is_space_def cval_def)
  next
    case False
    then have "x \<noteq> CHR ''0''" using show_nat_first [of n] x(1) by simp
    then have h: "\<not> starts_with (x # xs) ''0''" by auto
    have tw: "takeWhile (\<lambda>c. digit_of c < 10) (x # xs) = x # xs"
      using d(1) x(1) isdigit_digit_of(1) by (simp add: takeWhile_eq_all_conv list_all_iff)
    have nn: "num_in 10 (x # xs) = n" using num_in_10 [OF d(1)] num_show_nat [of n] by (simp only: x(1))
    show ?thesis
      unfolding scan_number_def x(1) using ns nh h
      by (simp add: Let_def tw nn del: starts_with.simps takeWhile.simps)
  qed
qed

lemma strtoul0_show_nat: "strtoul0 (show_nat (unat w)) = w"
proof -
  have "unat w < 2 ^ 64" using unsigned_less [of w, where 'a = nat] by simp
  then show ?thesis by (simp add: strtoul0_def scan_number_show_nat)
qed

section \<open>\<open>sscanf\<close>\<close>

text \<open>A conversion \<open>%ns\<close> (and the white space before it): the token and the rest of the text.\<close>

definition scan_token :: "nat \<Rightarrow> string \<Rightarrow> (string \<times> string) option" where
  "scan_token n s =
     (let t = dropWhile isspace s; tok = take n (takeWhile (\<lambda>c. \<not> isspace c) t)
      in if t = [] then None else Some (tok, drop (length tok) t))"

lemma scan_token_word:
  assumes "w \<noteq> []" "list_all (\<lambda>c. \<not> isspace c) w" "length w \<le> n"
  shows "scan_token n (CHR '' '' # w @ CHR '' '' # s) = Some (w, CHR '' '' # s)"
    "scan_token n (CHR '' '' # w) = Some (w, [])"
proof -
  have sp: "isspace CHR '' ''" by (simp add: isspace_def is_space_def cval_def)
  have dw: "dropWhile isspace (w @ x) = w @ x" for x using assms by (cases w) auto
  have tw: "takeWhile (\<lambda>c. \<not> isspace c) (w @ CHR '' '' # s) = w"
    "takeWhile (\<lambda>c. \<not> isspace c) w = w"
    using assms(2) sp by (auto simp: takeWhile_append list_all_iff)
  show "scan_token n (CHR '' '' # w @ CHR '' '' # s) = Some (w, CHR '' '' # s)"
    "scan_token n (CHR '' '' # w) = Some (w, [])"
    using assms dw [of "CHR '' '' # s"] dw [of "[]"] sp
    by (simp_all add: scan_token_def Let_def tw del: takeWhile_eq_all_conv)
qed

end
