(* ===== verification/Opkg_Parse.thy ===== *)
theory Opkg_Parse
  imports Opkg_State Opkg_Version Opkg_Parse_Util
begin

text \<open>
  The reader of control, status and package list files (\<open>libopkg/pkg_parse.c\<close>). The two static
  flags of \<open>pkg_parse_line\<close> are part of the state the lines are folded over. \<open>None\<close> is a
  memory error: an access past the end of a line (by \<open>parse_simple\<close> or \<open>parse_list\<close>), or the
  continuation of a description that does not exist.
\<close>

section \<open>Masks\<close>

definition PFM_ARCHITECTURE :: uint where "PFM_ARCHITECTURE = 2 ^ 1"
definition PFM_AUTO_INSTALLED :: uint where "PFM_AUTO_INSTALLED = 2 ^ 2"
definition PFM_CONFFILES :: uint where "PFM_CONFFILES = 2 ^ 3"
definition PFM_CONFLICTS :: uint where "PFM_CONFLICTS = 2 ^ 4"
definition PFM_DESCRIPTION :: uint where "PFM_DESCRIPTION = 2 ^ 5"
definition PFM_DEPENDS :: uint where "PFM_DEPENDS = 2 ^ 6"
definition PFM_ESSENTIAL :: uint where "PFM_ESSENTIAL = 2 ^ 7"
definition PFM_FILENAME :: uint where "PFM_FILENAME = 2 ^ 8"
definition PFM_INSTALLED_SIZE :: uint where "PFM_INSTALLED_SIZE = 2 ^ 9"
definition PFM_INSTALLED_TIME :: uint where "PFM_INSTALLED_TIME = 2 ^ 10"
definition PFM_MD5SUM :: uint where "PFM_MD5SUM = 2 ^ 11"
definition PFM_MAINTAINER :: uint where "PFM_MAINTAINER = 2 ^ 12"
definition PFM_PACKAGE :: uint where "PFM_PACKAGE = 2 ^ 13"
definition PFM_PRIORITY :: uint where "PFM_PRIORITY = 2 ^ 14"
definition PFM_PROVIDES :: uint where "PFM_PROVIDES = 2 ^ 15"
definition PFM_PRE_DEPENDS :: uint where "PFM_PRE_DEPENDS = 2 ^ 16"
definition PFM_RECOMMENDS :: uint where "PFM_RECOMMENDS = 2 ^ 17"
definition PFM_REPLACES :: uint where "PFM_REPLACES = 2 ^ 18"
definition PFM_SECTION :: uint where "PFM_SECTION = 2 ^ 19"
definition PFM_SIZE :: uint where "PFM_SIZE = 2 ^ 21"
definition PFM_SOURCE :: uint where "PFM_SOURCE = 2 ^ 22"
definition PFM_STATUS :: uint where "PFM_STATUS = 2 ^ 23"
definition PFM_SUGGESTS :: uint where "PFM_SUGGESTS = 2 ^ 24"
definition PFM_TAGS :: uint where "PFM_TAGS = 2 ^ 25"
definition PFM_VERSION :: uint where "PFM_VERSION = 2 ^ 26"
definition PFM_ALL :: uint where "PFM_ALL = NOT 0"

lemmas pfm_defs = PFM_ARCHITECTURE_def PFM_AUTO_INSTALLED_def PFM_CONFFILES_def PFM_CONFLICTS_def
  PFM_DESCRIPTION_def PFM_DEPENDS_def PFM_ESSENTIAL_def PFM_FILENAME_def PFM_INSTALLED_SIZE_def
  PFM_INSTALLED_TIME_def PFM_MD5SUM_def PFM_MAINTAINER_def PFM_PACKAGE_def PFM_PRIORITY_def
  PFM_PROVIDES_def PFM_PRE_DEPENDS_def PFM_RECOMMENDS_def PFM_REPLACES_def PFM_SECTION_def
  PFM_SIZE_def PFM_SOURCE_def PFM_STATUS_def PFM_SUGGESTS_def PFM_TAGS_def PFM_VERSION_def

section \<open>Single fields\<close>

text \<open>The literal text \<open>Status:\<close> must be matched; white space in the format matches any run.\<close>

definition parse_status :: "pkg \<Rightarrow> string \<Rightarrow> pkg" where
  "parse_status pkg sstr =
     (if \<not> starts_with sstr ''Status:'' then pkg
      else case scan_token 63 (drop 7 sstr) of
        None \<Rightarrow> pkg
      | Some (sw_str, r1) \<Rightarrow>
          (case scan_token 63 r1 of
             None \<Rightarrow> pkg
           | Some (sf_str, r2) \<Rightarrow>
               (case scan_token 63 r2 of
                  None \<Rightarrow> pkg
                | Some (ss_str, r3) \<Rightarrow>
                    pkg\<lparr>p_state_want := pkg_state_want_from_str sw_str,
                        p_state_flag := pkg_state_flag_from_str sf_str,
                        p_state_status := pkg_state_status_from_str ss_str\<rparr>)))"

definition conffile_list_append :: "nv_pair list \<Rightarrow> string \<Rightarrow> string option \<Rightarrow> nv_pair list" where
  "conffile_list_append l file_name md5sum = l @ [\<lparr>nv_name = Some file_name, nv_value = md5sum\<rparr>]"

definition parse_conffiles :: "pkg \<Rightarrow> string \<Rightarrow> pkg" where
  "parse_conffiles pkg cstr =
     (case scan_token 1023 cstr of
        None \<Rightarrow> pkg
      | Some (file_name, r1) \<Rightarrow>
          (case scan_token 34 r1 of
             None \<Rightarrow> pkg
           | Some (md5sum, r2) \<Rightarrow>
               pkg\<lparr>p_conffiles := conffile_list_append (p_conffiles pkg) file_name (Some md5sum)\<rparr>))"

text \<open>The result of \<open>strtol\<close> is converted to \<open>int\<close>.\<close>

fun get_arch_priority :: "(string \<times> string) list \<Rightarrow> string \<Rightarrow> int" where
  "get_arch_priority [] arch = 0"
| "get_arch_priority ((name, val) # arch_list) arch =
     (if strcmp name arch = 0 then sint (word_of_int (strtol0 val) :: 32 word)
      else get_arch_priority arch_list arch)"

section \<open>Lines\<close>

record parse_env =
  pe_pfm :: uint
  pe_arch_list :: "(string \<times> string) list"

record parse_state =
  ps_pkg :: pkg
  ps_conffiles :: bool
  ps_description :: bool

text \<open>A field that is read and ends with both flags reset, and the same for a list.\<close>

definition reset_flags :: "pkg \<Rightarrow> parse_state" where
  "reset_flags p = \<lparr>ps_pkg = p, ps_conffiles = False, ps_description = False\<rparr>"

definition read_simple :: "string \<Rightarrow> string \<Rightarrow> (string \<Rightarrow> pkg) \<Rightarrow> (parse_state \<times> bool) option" where
  "read_simple field line upd = map_option (\<lambda>v. (reset_flags (upd v), False)) (parse_simple field line)"

definition read_list :: "string \<Rightarrow> (string list \<Rightarrow> pkg) \<Rightarrow> (parse_state \<times> bool) option" where
  "read_list line upd =
     map_option (\<lambda>v. (reset_flags (upd v), False)) (parse_list line CHR '','' False)"

text \<open>
  \<open>pkg_parse_line\<close>; the second result is the value returned, 1 at the end of a paragraph. The
  text after \<open>Description:\<close> and \<open>Conffiles:\<close> leaves the label \<open>dont_reset_flags\<close>.
\<close>

definition pkg_parse_line :: "parse_env \<Rightarrow> uint \<Rightarrow> parse_state \<Rightarrow> string \<Rightarrow> (parse_state \<times> bool) option" where
  "pkg_parse_line env msk0 st line =
     (let msk = (msk0 OR pe_pfm env) XOR PFM_ALL;
          pkg = ps_pkg st;
          c = (case line of [] \<Rightarrow> CHR 0x00 | c # _ \<Rightarrow> c);
          fld = (\<lambda>bit name. msk AND bit \<noteq> 0 \<and> is_field name line);
          skip = Some (reset_flags pkg, False);
          dflt = Some (reset_flags pkg, line_is_blank line)
      in if c = CHR ''A'' then
           (if fld PFM_ARCHITECTURE ''Architecture'' then
              read_simple ''Architecture'' line (\<lambda>v. pkg\<lparr>p_architecture := Some v,
                p_arch_priority := get_arch_priority (pe_arch_list env) v\<rparr>)
            else if fld PFM_AUTO_INSTALLED ''Auto-Installed'' then
              read_simple ''Auto-Installed'' line (\<lambda>v.
                if strcmp v ''yes'' = 0 then pkg\<lparr>p_auto_installed := True\<rparr> else pkg)
            else skip)
         else if c = CHR ''C'' then
           (if fld PFM_CONFFILES ''Conffiles'' then
              Some (st\<lparr>ps_conffiles := True, ps_description := False\<rparr>, False)
            else if fld PFM_CONFLICTS ''Conflicts'' then
              read_list line (\<lambda>v. pkg\<lparr>p_conflicts_str := v, p_conflicts_count := length v\<rparr>)
            else skip)
         else if c = CHR ''D'' then
           (if fld PFM_DESCRIPTION ''Description'' then
              map_option (\<lambda>v. (\<lparr>ps_pkg = pkg\<lparr>p_description := Some v\<rparr>,
                ps_conffiles = False, ps_description = True\<rparr>, False)) (parse_simple ''Description'' line)
            else if fld PFM_DEPENDS ''Depends'' then
              read_list line (\<lambda>v. pkg\<lparr>p_depends_str := v, p_depends_count := length v\<rparr>)
            else skip)
         else if c = CHR ''E'' then
           (if fld PFM_ESSENTIAL ''Essential'' then
              read_simple ''Essential'' line (\<lambda>v.
                if strcmp v ''yes'' = 0 then pkg\<lparr>p_essential := True\<rparr> else pkg)
            else skip)
         else if c = CHR ''F'' then
           (if fld PFM_FILENAME ''Filename'' then
              read_simple ''Filename'' line (\<lambda>v. pkg\<lparr>p_filename := Some v\<rparr>)
            else skip)
         else if c = CHR ''I'' then
           (if fld PFM_INSTALLED_SIZE ''Installed-Size'' then
              read_simple ''Installed-Size'' line (\<lambda>v. pkg\<lparr>p_installed_size := strtoul0 v\<rparr>)
            else if fld PFM_INSTALLED_TIME ''Installed-Time'' then
              read_simple ''Installed-Time'' line (\<lambda>v. pkg\<lparr>p_installed_time := strtoul0 v\<rparr>)
            else skip)
         else if c = CHR ''M'' then
           (if fld PFM_MD5SUM ''MD5sum:'' then
              read_simple ''MD5sum'' line (\<lambda>v. pkg\<lparr>p_md5sum := Some v\<rparr>)
            else if fld PFM_MD5SUM ''MD5Sum:'' then
              read_simple ''MD5Sum'' line (\<lambda>v. pkg\<lparr>p_md5sum := Some v\<rparr>)
            else if fld PFM_MAINTAINER ''Maintainer'' then
              read_simple ''Maintainer'' line (\<lambda>v. pkg\<lparr>p_maintainer := Some v\<rparr>)
            else skip)
         else if c = CHR ''P'' then
           (if fld PFM_PACKAGE ''Package'' then
              read_simple ''Package'' line (\<lambda>v. pkg\<lparr>p_name := Some v\<rparr>)
            else if fld PFM_PRIORITY ''Priority'' then
              read_simple ''Priority'' line (\<lambda>v. pkg\<lparr>p_priority := Some v\<rparr>)
            else if fld PFM_PROVIDES ''Provides'' then
              read_list line (\<lambda>v. pkg\<lparr>p_provides_str := v, p_provides_count := length v\<rparr>)
            else if fld PFM_PRE_DEPENDS ''Pre-Depends'' then
              read_list line (\<lambda>v. pkg\<lparr>p_pre_depends_str := v, p_pre_depends_count := length v\<rparr>)
            else skip)
         else if c = CHR ''R'' then
           (if fld PFM_RECOMMENDS ''Recommends'' then
              read_list line (\<lambda>v. pkg\<lparr>p_recommends_str := v, p_recommends_count := length v\<rparr>)
            else if fld PFM_REPLACES ''Replaces'' then
              read_list line (\<lambda>v. pkg\<lparr>p_replaces_str := v, p_replaces_count := length v\<rparr>)
            else skip)
         else if c = CHR ''S'' then
           (if fld PFM_SECTION ''Section'' then
              read_simple ''Section'' line (\<lambda>v. pkg\<lparr>p_section := Some v\<rparr>)
            else if fld PFM_SIZE ''Size'' then
              read_simple ''Size'' line (\<lambda>v. pkg\<lparr>p_size := strtoul0 v\<rparr>)
            else if fld PFM_SOURCE ''Source'' then
              read_simple ''Source'' line (\<lambda>v. pkg\<lparr>p_source := Some v\<rparr>)
            else if fld PFM_STATUS ''Status'' then Some (reset_flags (parse_status pkg line), False)
            else if fld PFM_SUGGESTS ''Suggests'' then
              read_list line (\<lambda>v. pkg\<lparr>p_suggests_str := v, p_suggests_count := length v\<rparr>)
            else skip)
         else if c = CHR ''T'' then
           (if fld PFM_TAGS ''Tags'' then
              read_simple ''Tags'' line (\<lambda>v. pkg\<lparr>p_tags := Some v\<rparr>)
            else skip)
         else if c = CHR ''V'' then
           (if fld PFM_VERSION ''Version'' then Some (reset_flags (parse_version pkg line), False)
            else skip)
         else if c = CHR '' '' then
           (if msk AND PFM_DESCRIPTION \<noteq> 0 \<and> ps_description st then
              map_option (\<lambda>d. (st\<lparr>ps_pkg := pkg\<lparr>p_description := Some (d @ [newline] @ line)\<rparr>\<rparr>, False))
                (p_description pkg)
            else if msk AND PFM_CONFFILES \<noteq> 0 \<and> ps_conffiles st then
              Some (st\<lparr>ps_pkg := parse_conffiles pkg line\<rparr>, False)
            else dflt)
         else dflt)"

text \<open>
  \<open>pkg_parse_from_stream\<close>: the return code, the package and flags (\<open>None\<close> after a memory
  error) and the rest of the stream.
\<close>

definition parse_callback ::
  "parse_env \<Rightarrow> uint \<Rightarrow> parse_state option \<Rightarrow> string \<Rightarrow> parse_state option \<times> bool" where
  "parse_callback env msk it line =
     (case it of
        None \<Rightarrow> (None, True)
      | Some st \<Rightarrow>
          (case pkg_parse_line env msk st line of
             None \<Rightarrow> (None, True)
           | Some (st', stop) \<Rightarrow> (Some st', stop)))"

definition pkg_parse_from_stream ::
  "parse_env \<Rightarrow> uint \<Rightarrow> parse_state \<Rightarrow> stream \<Rightarrow> int \<times> parse_state option \<times> stream" where
  "pkg_parse_from_stream env msk st fp =
     (case parse_from_stream_nomalloc (parse_callback env msk) (Some st) fp 4096 of
        (ret, it, fp') \<Rightarrow>
          ((case it of None \<Rightarrow> ret | Some st' \<Rightarrow> if p_name (ps_pkg st') = None then 1 else ret),
           it, fp'))"

end
