(* ===== verification/Opkg_Format.thy ===== *)
theory Opkg_Format
  imports Opkg_Parse
begin

text \<open>
  The writer of package descriptions: \<open>constraint_to_str\<close> and \<open>pkg_depend_str\<close>
  (\<open>libopkg/pkg_depends.c\<close>), \<open>pkg_formatted_field\<close>, \<open>pkg_formatted_info\<close> and
  \<open>pkg_print_status\<close> (\<open>libopkg/pkg.c\<close>).

  Abstract packages are known by their names here: \<open>nm r\<close> is \<open>name\<close> of the abstract package
  at \<open>r\<close>. The result is the text that is written; \<open>None\<close> is a read outside of an array, or
  through a null pointer. A message about an unknown field writes nothing to the file.
\<close>

section \<open>Dependencies as text\<close>

definition constraint_to_str :: "version_constraint \<Rightarrow> string" where
  "constraint_to_str c =
     (case c of NONE \<Rightarrow> [] | EARLIER \<Rightarrow> ''< '' | EARLIER_EQUAL \<Rightarrow> ''<= '' | EQUAL \<Rightarrow> ''= ''
      | LATER_EQUAL \<Rightarrow> ''>= '' | LATER \<Rightarrow> ''> '')"

definition depend_text :: "(apkg_ref \<Rightarrow> string) \<Rightarrow> depend \<Rightarrow> string" where
  "depend_text nm dep =
     nm (d_pkg dep) @
     (case d_version dep of
        None \<Rightarrow> []
      | Some v \<Rightarrow> '' ('' @ constraint_to_str (d_constraint dep) @ v @ '')'')"

text \<open>
  The length \<open>pkg_depend_str\<close> computes for the buffer, without the terminating NUL: an
  \<open>unsigned int\<close>, so the additions wrap.
\<close>

fun depend_str_len :: "(apkg_ref \<Rightarrow> string) \<Rightarrow> nat \<Rightarrow> depend list \<Rightarrow> uint" where
  "depend_str_len nm i [] = 0"
| "depend_str_len nm i (dep # ds) =
     (if i \<noteq> 0 then 3 else 0) + of_nat (length (nm (d_pkg dep))) +
     (case d_version dep of None \<Rightarrow> 0 | Some v \<Rightarrow> 2 + 3 + of_nat (length v) + 1) + depend_str_len nm (i + 1) ds"

text \<open>The second loop. Each \<open>strncat\<close> may append as many characters as the buffer has.\<close>

fun depend_str_loop :: "(apkg_ref \<Rightarrow> string) \<Rightarrow> nat \<Rightarrow> nat \<Rightarrow> depend list \<Rightarrow> string" where
  "depend_str_loop nm len i [] = []"
| "depend_str_loop nm len i (dep # ds) =
     (if i \<noteq> 0 then take len '' | '' else []) @ take len (nm (d_pkg dep)) @
     (case d_version dep of
        None \<Rightarrow> []
      | Some v \<Rightarrow> take len '' ('' @ take len (constraint_to_str (d_constraint dep)) @ take len v @
                 take len '')'') @
     depend_str_loop nm len (i + 1) ds"

text \<open>
  The text the calls of \<open>strncat\<close> append. The buffer has \<open>len + 1\<close> bytes; the text stays inside
  it as long as \<open>len\<close> does not wrap (\<open>pkg_depend_str_complete\<close> below).
\<close>

definition pkg_depend_str :: "(apkg_ref \<Rightarrow> string) \<Rightarrow> compound_depend \<Rightarrow> string" where
  "pkg_depend_str nm cdep =
     depend_str_loop nm (unat (depend_str_len nm 0 (cd_possibilities cdep))) 0 (cd_possibilities cdep)"

text \<open>
  A bound on the bytes of the text: the names, the versions with their parentheses and
  constraint, and three bytes for each separator.
\<close>

definition depend_texts_size :: "(apkg_ref \<Rightarrow> string) \<Rightarrow> depend list \<Rightarrow> nat" where
  "depend_texts_size nm ds =
     (\<Sum>d\<leftarrow>ds. 3 + length (nm (d_pkg d)) + (case d_version d of None \<Rightarrow> 0 | Some v \<Rightarrow> 6 + length v))"

fun join_depends :: "(apkg_ref \<Rightarrow> string) \<Rightarrow> depend list \<Rightarrow> string" where
  "join_depends nm [] = []"
| "join_depends nm [d] = depend_text nm d"
| "join_depends nm (d # ds) = depend_text nm d @ '' | '' @ join_depends nm ds"

lemma constraint_to_str_len: "length (constraint_to_str c) \<le> 3"
  by (simp add: constraint_to_str_def split: version_constraint.splits)

lemma unat_of_nat_add: "n + unat (w :: uint) < 2 ^ 32 \<Longrightarrow> unat (of_nat n + w) = n + unat w"
  by (simp add: unat_word_ariths(1) unat_of_nat)

lemma depend_str_fits:
  assumes "depend_texts_size nm ds < 2 ^ 32"
  shows "length (join_depends nm ds) + (if ds \<noteq> [] \<and> 0 < i then 3 else 0) \<le> unat (depend_str_len nm i ds) \<and>
    unat (depend_str_len nm i ds) + (if i = 0 \<and> ds \<noteq> [] then 3 else 0) \<le> depend_texts_size nm ds"
  using assms
proof (induction ds arbitrary: i)
  case (Cons d ds)
  let ?n = "(if i \<noteq> 0 then 3 else 0) + length (nm (d_pkg d)) +
      (case d_version d of None \<Rightarrow> 0 | Some v \<Rightarrow> 6 + length v)"
  have size: "depend_texts_size nm (d # ds) = 3 + length (nm (d_pkg d)) +
      (case d_version d of None \<Rightarrow> 0 | Some v \<Rightarrow> 6 + length v) + depend_texts_size nm ds"
    by (simp add: depend_texts_size_def)
  have w: "depend_str_len nm i (d # ds) = of_nat ?n + depend_str_len nm (i + 1) ds"
    by (simp split: option.split)
  have IH: "length (join_depends nm ds) + (if ds \<noteq> [] then 3 else 0) \<le> unat (depend_str_len nm (i + 1) ds)"
    "unat (depend_str_len nm (i + 1) ds) \<le> depend_texts_size nm ds"
    using Cons.IH [of "i + 1"] Cons.prems size by auto
  have small: "?n + unat (depend_str_len nm (i + 1) ds) < 2 ^ 32"
    by (cases "i = 0") (use Cons.prems size IH(2) in simp_all)
  have u: "unat (depend_str_len nm i (d # ds)) = ?n + unat (depend_str_len nm (i + 1) ds)"
    unfolding w by (rule unat_of_nat_add [OF small])
  have t: "length (depend_text nm d) \<le> length (nm (d_pkg d)) +
      (case d_version d of None \<Rightarrow> 0 | Some v \<Rightarrow> 6 + length v)"
    using constraint_to_str_len [of "d_constraint d"] by (simp add: depend_text_def split: option.splits)
  have j: "length (join_depends nm (d # ds)) =
      length (depend_text nm d) + (if ds \<noteq> [] then 3 else 0) + length (join_depends nm ds)"
    by (cases ds) auto
  show ?case by (cases "i = 0") (use t IH size u in \<open>simp_all add: j del: depend_str_len.simps split: if_splits\<close>)
qed (simp_all add: depend_texts_size_def)

lemma depend_str_loop_eq:
  assumes "\<forall>d \<in> set ds. length (depend_text nm d) \<le> len \<and> (i + length ds > 1 \<longrightarrow> 3 \<le> len)"
  shows "depend_str_loop nm len i ds =
    (if ds \<noteq> [] \<and> 0 < i then '' | '' else []) @ join_depends nm ds"
  using assms
proof (induction ds arbitrary: i)
  case (Cons d ds)
  have IH: "depend_str_loop nm len (i + 1) ds = (if ds \<noteq> [] then '' | '' else []) @ join_depends nm ds"
    using Cons.IH [of "i + 1"] Cons.prems by simp
  have j: "join_depends nm (d # ds) = depend_text nm d @ (if ds \<noteq> [] then '' | '' else []) @ join_depends nm ds"
    by (cases ds) auto
  show ?case
    unfolding depend_str_loop.simps IH j using Cons.prems
    by (auto simp: depend_text_def eval_nat_numeral split: option.splits)
qed simp

lemma depend_text_le_join: "d \<in> set ds \<Longrightarrow> length (depend_text nm d) \<le> length (join_depends nm ds)"
  by (induction nm ds rule: join_depends.induct) auto

lemma join_depends_ge: "length ds > 1 \<Longrightarrow> 3 \<le> length (join_depends nm ds)"
  by (induction nm ds rule: join_depends.induct) auto

lemma pkg_depend_str_eq:
  assumes "depend_texts_size nm (cd_possibilities cdep) < 2 ^ 32"
  shows "pkg_depend_str nm cdep = join_depends nm (cd_possibilities cdep)"
proof -
  let ?ds = "cd_possibilities cdep"
  have "length (join_depends nm ?ds) \<le> unat (depend_str_len nm 0 ?ds)"
    using depend_str_fits [OF assms, of 0] by simp
  then show ?thesis
    unfolding pkg_depend_str_def using depend_text_le_join [of _ ?ds nm] join_depends_ge [of ?ds nm]
    by (subst depend_str_loop_eq) fastforce+
qed

text \<open>(C7) The text of a dependency is complete as long as its length fits the \<open>unsigned int\<close> that
  sums it up: no \<open>strncat\<close> truncates, the result is the alternatives joined with bars, and the
  text and its NUL fit the \<open>len + 1\<close> bytes that are allocated. Names and versions that
  together reach 4 GiB would make \<open>len\<close> wrap.\<close>

theorem pkg_depend_str_complete:
  assumes "depend_texts_size nm (cd_possibilities cdep) < 2 ^ 32"
  shows "pkg_depend_str nm cdep = join_depends nm (cd_possibilities cdep) \<and>
    length (pkg_depend_str nm cdep) < unat (depend_str_len nm 0 (cd_possibilities cdep) + 1)"
proof -
  let ?len = "depend_str_len nm 0 (cd_possibilities cdep)"
  have "unat ?len + 1 < 2 ^ 32"
    using depend_str_fits [OF assms, of 0] assms by (cases "cd_possibilities cdep") auto
  then have "unat (?len + 1) = unat ?len + 1"
    by (simp add: unat_word_ariths(1))
  then show ?thesis
    using depend_str_fits [OF assms, of 0] by (simp add: pkg_depend_str_eq [OF assms])
qed

theorem pkg_depend_str_complete_witness:
  "pkg_depend_str (\<lambda>r. if r = 0 then ''libc'' else ''uclibc'')
     \<lparr>cd_type = DEPEND, cd_possibilities =
       [\<lparr>d_constraint = LATER_EQUAL, d_version = Some ''1.0-2'', d_pkg = 0\<rparr>,
        \<lparr>d_constraint = NONE, d_version = None, d_pkg = 1\<rparr>]\<rparr> = ''libc (>= 1.0-2) | uclibc''"
  by (subst pkg_depend_str_complete [THEN conjunct1])
    (simp_all add: depend_texts_size_def depend_text_def constraint_to_str_def)

section \<open>Fields\<close>

lemma tolower_map:
  "map tolower ''ABCDEFGHIJKLMNOPQRSTUVWXYZ'' = ''abcdefghijklmnopqrstuvwxyz''"
  "map tolower ''abcdefghijklmnopqrstuvwxyz-5'' = ''abcdefghijklmnopqrstuvwxyz-5''"
  by code_simp+

lemmas tolower_letters = tolower_map [simplified list.map list.inject simp_thms]

definition PKG_MINIMUM_FIELD_NAME_LEN :: nat where "PKG_MINIMUM_FIELD_NAME_LEN = 4"

text \<open>The items of a list field, as \<open>fprintf\<close> with \<open>%s %s\<close> writes them.\<close>

fun print_items :: "bool \<Rightarrow> string list \<Rightarrow> string" where
  "print_items first [] = []"
| "print_items first (x # xs) = (if first then [] else '','') @ '' '' @ x @ print_items False xs"

lemma print_items_eq: "print_items True xs = print_list xs"
proof -
  have F: "print_items False ys = (if ys = [] then [] else '','') @ print_list ys" for ys
    by (induction ys rule: print_list.induct) auto
  have "print_list (x # ys) = '' '' @ x @ (if ys = [] then [] else '','') @ print_list ys" for x ys
    by (cases ys) auto
  then show ?thesis by (cases xs) (simp_all add: F del: print_list.simps(2,3) print_items.simps(2)
      add: print_items.simps(2) [of True])
qed

definition line_of :: "string \<Rightarrow> string \<Rightarrow> string" where
  "line_of name s = name @ '': '' @ s @ [newline]"

definition list_line :: "string \<Rightarrow> string list \<Rightarrow> string" where
  "list_line name xs = name @ '':'' @ print_items True xs @ [newline]"

definition first_n :: "nat \<Rightarrow> 'a list \<Rightarrow> 'a list option" where
  "first_n n xs = (if n \<le> length xs then Some (take n xs) else None)"

definition all_depends_count :: "pkg \<Rightarrow> nat" where
  "all_depends_count pkg = p_pre_depends_count pkg + p_depends_count pkg + p_recommends_count pkg +
     p_suggests_count pkg"

definition depends_of_type :: "(apkg_ref \<Rightarrow> string) \<Rightarrow> depend_type \<Rightarrow> compound_depend list \<Rightarrow> string list" where
  "depends_of_type nm t ds = map (pkg_depend_str nm) (filter (\<lambda>d. cd_type d = t) ds)"

definition depends_line :: "(apkg_ref \<Rightarrow> string) \<Rightarrow> pkg \<Rightarrow> nat \<Rightarrow> string \<Rightarrow> depend_type \<Rightarrow> string option" where
  "depends_line nm pkg n name t =
     (if n = 0 then Some []
      else map_option (\<lambda>ds. list_line name (depends_of_type nm t ds))
             (first_n (all_depends_count pkg) (p_depends pkg)))"

text \<open>The text of a conflict, of which only the first alternative is written.\<close>

definition conflict_text :: "(apkg_ref \<Rightarrow> string) \<Rightarrow> compound_depend \<Rightarrow> string option" where
  "conflict_text nm c = (case cd_possibilities c of [] \<Rightarrow> None | d # _ \<Rightarrow> Some (depend_text nm d))"

fun all_some :: "'a option list \<Rightarrow> 'a list option" where
  "all_some [] = Some []"
| "all_some (x # xs) =
     (case x of None \<Rightarrow> None | Some a \<Rightarrow> map_option (\<lambda>as. a # as) (all_some xs))"

definition conffile_line :: "nv_pair \<Rightarrow> string" where
  "conffile_line nv = (case (nv_name nv, nv_value nv) of
     (Some n, Some v) \<Rightarrow> '' '' @ n @ '' '' @ v @ [newline] | _ \<Rightarrow> [])"

definition opt_line :: "string \<Rightarrow> string option \<Rightarrow> string" where
  "opt_line name so = (case so of None \<Rightarrow> [] | Some s \<Rightarrow> line_of name s)"

definition show_long :: "ulong \<Rightarrow> string" where
  "show_long w = show_int (sint w)"

text \<open>The cases \<open>r\<close> to \<open>v\<close> of the switch, and the default.\<close>

definition formatted_field_r_to_v ::
  "(apkg_ref \<Rightarrow> string) \<Rightarrow> pkg \<Rightarrow> string \<Rightarrow> char \<Rightarrow> string option" where
  "formatted_field_r_to_v nm pkg field c =
     (let is = strcasecmp_eq field in
         if c = CHR ''r'' then
           (if is ''Replaces'' then
              (if p_replaces_count pkg = 0 then Some []
               else map_option (\<lambda>xs. list_line ''Replaces'' (map nm xs))
                      (first_n (p_replaces_count pkg) (p_replaces pkg)))
            else if is ''Recommends'' then
              depends_line nm pkg (p_recommends_count pkg) ''Recommends'' RECOMMEND
            else Some [])
         else if c = CHR ''s'' then
           (if is ''Section'' then Some (opt_line ''Section'' (p_section pkg))
            else if is ''Size'' then
              Some (if p_size pkg \<noteq> 0 then line_of ''Size'' (show_long (p_size pkg)) else [])
            else if is ''Source'' then Some (opt_line ''Source'' (p_source pkg))
            else if is ''Status'' then
              Some (line_of ''Status'' (pkg_state_want_to_str (p_state_want pkg) @ '' '' @
                pkg_state_flag_to_str (p_state_flag pkg) @ '' '' @
                pkg_state_status_to_str (p_state_status pkg)))
            else if is ''Suggests'' then
              depends_line nm pkg (p_suggests_count pkg) ''Suggests'' SUGGEST
            else Some [])
         else if c = CHR ''t'' then
           (if is ''Tags'' then Some (opt_line ''Tags'' (p_tags pkg)) else Some [])
         else if c = CHR ''v'' then
           Some (opt_line ''Version'' (pkg_version_str_alloc pkg))
         else Some [])"

definition pkg_formatted_field :: "(apkg_ref \<Rightarrow> string) \<Rightarrow> pkg \<Rightarrow> string \<Rightarrow> string option" where
  "pkg_formatted_field nm pkg field =
     (let is = strcasecmp_eq field;
          c = (case field of [] \<Rightarrow> CHR 0x00 | c # _ \<Rightarrow> tolower c)
      in if length field < PKG_MINIMUM_FIELD_NAME_LEN then Some []
         else if c = CHR ''a'' then
           (if is ''Architecture'' then Some (opt_line ''Architecture'' (p_architecture pkg))
            else if is ''Auto-Installed'' then
              Some (if p_auto_installed pkg then line_of ''Auto-Installed'' ''yes'' else [])
            else Some [])
         else if c = CHR ''c'' then
           (if is ''Conffiles'' then
              Some (if p_conffiles pkg = [] then []
                    else ''Conffiles:'' @ [newline] @ concat (map conffile_line (p_conffiles pkg)))
            else if is ''Conflicts'' then
              (if p_conflicts_count pkg = 0 then Some []
               else case p_conflicts pkg of
                 None \<Rightarrow> None
               | Some cs \<Rightarrow>
                   (case first_n (p_conflicts_count pkg) cs of
                      None \<Rightarrow> None
                    | Some ds \<Rightarrow> map_option (list_line ''Conflicts'') (all_some (map (conflict_text nm) ds))))
            else Some [])
         else if c = CHR ''d'' then
           (if is ''Depends'' then depends_line nm pkg (p_depends_count pkg) ''Depends'' DEPEND
            else if is ''Description'' then Some (opt_line ''Description'' (p_description pkg))
            else Some [])
         else if c = CHR ''e'' then
           Some (if p_essential pkg then line_of ''Essential'' ''yes'' else [])
         else if c = CHR ''f'' then Some (opt_line ''Filename'' (p_filename pkg))
         else if c = CHR ''i'' then
           (if is ''Installed-Size'' then
              Some (line_of ''Installed-Size'' (show_long (p_installed_size pkg)))
            else if is ''Installed-Time'' \<and> p_installed_time pkg \<noteq> 0 then
              Some (line_of ''Installed-Time'' (show_nat (unat (p_installed_time pkg))))
            else Some [])
         else if c = CHR ''m'' then
           (if is ''Maintainer'' then Some (opt_line ''Maintainer'' (p_maintainer pkg))
            else if is ''MD5sum'' then Some (opt_line ''MD5Sum'' (p_md5sum pkg))
            else Some [])
         else if c = CHR ''p'' then
           (if is ''Package'' then Some (line_of ''Package'' (fmt_s (p_name pkg)))
            else if is ''Priority'' then Some (line_of ''Priority'' (fmt_s (p_priority pkg)))
            else if is ''Provides'' then
              (if p_provides_count pkg = 0 then Some []
               else if p_provides_count pkg = 1 then Some (list_line ''Provides'' [])
               else case p_provides pkg of
                 None \<Rightarrow> None
               | Some ps \<Rightarrow> map_option (\<lambda>xs. list_line ''Provides'' (map nm (tl xs)))
                              (first_n (p_provides_count pkg) ps))
            else Some [])
         else formatted_field_r_to_v nm pkg field c)"

definition print_fields :: "(apkg_ref \<Rightarrow> string) \<Rightarrow> pkg \<Rightarrow> string list \<Rightarrow> string option" where
  "print_fields nm pkg names =
     map_option (\<lambda>ls. concat ls @ [newline]) (all_some (map (pkg_formatted_field nm pkg) names))"

definition pkg_formatted_info :: "(apkg_ref \<Rightarrow> string) \<Rightarrow> pkg \<Rightarrow> string option" where
  "pkg_formatted_info nm pkg = print_fields nm pkg
     [''Package'', ''Version'', ''Depends'', ''Recommends'', ''Suggests'', ''Provides'', ''Replaces'',
      ''Conflicts'', ''Status'', ''Section'', ''Essential'', ''Architecture'', ''Maintainer'', ''MD5sum'',
      ''Size'', ''Filename'', ''Conffiles'', ''Source'', ''Description'', ''Installed-Time'', ''Tags'']"

definition pkg_print_status :: "(apkg_ref \<Rightarrow> string) \<Rightarrow> pkg \<Rightarrow> string option" where
  "pkg_print_status nm pkg = print_fields nm pkg
     [''Package'', ''Version'', ''Depends'', ''Recommends'', ''Suggests'', ''Provides'', ''Replaces'',
      ''Conflicts'', ''Status'', ''Essential'', ''Architecture'', ''Conffiles'', ''Installed-Time'',
      ''Auto-Installed'']"

end
