(* ===== verification/Opkg_Status_File.thy ===== *)
theory Opkg_Status_File
  imports Opkg_Format
begin

text \<open>
  What \<open>pkg_print_status\<close> writes, \<open>pkg_parse_from_stream\<close> reads back. The paragraph is described
  as a list of lines per field; a library lemma per field says what reading those lines does to
  the package, whatever was read before.
\<close>

section \<open>Lines that update a package\<close>

definition trimmed :: "string \<Rightarrow> bool" where
  "trimmed s \<longleftrightarrow> (s \<noteq> [] \<longrightarrow> \<not> isspace (hd s) \<and> \<not> isspace (last s))"

lemma trim_end_trimmed: "s \<noteq> [] \<Longrightarrow> \<not> isspace (last s) \<Longrightarrow> trim_end s = s"
proof (cases s)
  case (Cons c t)
  assume "s \<noteq> []" "\<not> isspace (last s)"
  then have "dropWhile isspace (rev t) = rev t"
    using Cons by (cases "rev t" rule: list.exhaust) (auto simp: last_rev split: if_splits)
  then show ?thesis by (simp add: trim_end_def Cons)
qed simp

lemma trim_space: "trimmed s \<Longrightarrow> trim_xstrdup (CHR '' '' # s) = s"
proof -
  assume s: "trimmed s"
  then have "dropWhile isspace s = s" by (cases s) (auto simp: trimmed_def)
  then show ?thesis
    using s trim_end_trimmed [of s]
    by (cases s) (auto simp: trim_xstrdup_def isspace_comma trimmed_def, simp add: trim_end_def)
qed

definition reads :: "parse_env \<Rightarrow> string list \<Rightarrow> (pkg \<Rightarrow> pkg) \<Rightarrow> bool" where
  "reads env ls upd \<longleftrightarrow>
     (\<forall>st rest. \<exists>st'. ps_pkg st' = upd (ps_pkg st) \<and>
        feed_lines (parse_callback env 0) (Some st) (ls @ rest) =
        feed_lines (parse_callback env 0) (Some st') rest)"

lemma reads_Nil: "reads env [] (\<lambda>p. p)"
  by (auto simp: reads_def)

lemma reads_append: "reads env as f \<Longrightarrow> reads env bs g \<Longrightarrow> reads env (as @ bs) (\<lambda>p. g (f p))"
  unfolding reads_def
proof (intro allI)
  fix st rest
  assume a: "\<forall>st rest. \<exists>st'. ps_pkg st' = f (ps_pkg st) \<and>
        feed_lines (parse_callback env 0) (Some st) (as @ rest) =
        feed_lines (parse_callback env 0) (Some st') rest"
    and b: "\<forall>st rest. \<exists>st'. ps_pkg st' = g (ps_pkg st) \<and>
        feed_lines (parse_callback env 0) (Some st) (bs @ rest) =
        feed_lines (parse_callback env 0) (Some st') rest"
  obtain s1 where s1: "ps_pkg s1 = f (ps_pkg st)" "feed_lines (parse_callback env 0) (Some st) (as @ bs @ rest) =
        feed_lines (parse_callback env 0) (Some s1) (bs @ rest)" using a by blast
  obtain s2 where s2: "ps_pkg s2 = g (ps_pkg s1)" "feed_lines (parse_callback env 0) (Some s1) (bs @ rest) =
        feed_lines (parse_callback env 0) (Some s2) rest" using b by blast
  show "\<exists>st'. ps_pkg st' = g (f (ps_pkg st)) \<and>
        feed_lines (parse_callback env 0) (Some st) ((as @ bs) @ rest) =
        feed_lines (parse_callback env 0) (Some st') rest"
    using s1 s2 by (intro exI [of _ s2]) simp
qed

lemma reads_if: "reads env a f \<Longrightarrow> reads env b g \<Longrightarrow>
    reads env (if c then a else b) (\<lambda>p. if c then f p else g p)"
  by simp

text \<open>One line that \<open>pkg_parse_line\<close> accepts in every state.\<close>

lemma reads_line:
  assumes "\<And>st. \<exists>st'. pkg_parse_line env 0 st l = Some (st', False) \<and> ps_pkg st' = upd (ps_pkg st)"
  shows "reads env [l] upd"
  unfolding reads_def
proof (intro allI)
  fix st rest
  obtain st' where "pkg_parse_line env 0 st l = Some (st', False)" "ps_pkg st' = upd (ps_pkg st)"
    using assms by blast
  then show "\<exists>st'. ps_pkg st' = upd (ps_pkg st) \<and>
      feed_lines (parse_callback env 0) (Some st) ([l] @ rest) =
      feed_lines (parse_callback env 0) (Some st') rest"
    by (intro exI [of _ st']) (simp add: parse_callback_def)
qed

lemmas parse_line_eval = pkg_parse_line_def Let_def is_field_def pfm_defs read_simple_def
  read_list_def reset_flags_def parse_simple_def PFM_ALL_def

lemma reads_Package:
  assumes "pe_pfm env = 0" "trimmed s"
  shows "reads env [''Package: '' @ s] (\<lambda>p. p\<lparr>p_name := Some s\<rparr>)"
  using assms by (intro reads_line) (simp add: parse_line_eval trim_space)

lemma reads_Architecture:
  assumes "pe_pfm env = 0" "trimmed s"
  shows "reads env [''Architecture: '' @ s] (\<lambda>p. p\<lparr>p_architecture := Some s,
    p_arch_priority := get_arch_priority (pe_arch_list env) s\<rparr>)"
  using assms by (intro reads_line) (simp add: parse_line_eval trim_space)

lemma reads_flags:
  assumes "pe_pfm env = 0"
  shows "reads env [''Essential: yes''] (\<lambda>p. p\<lparr>p_essential := True\<rparr>)"
    "reads env [''Auto-Installed: yes''] (\<lambda>p. p\<lparr>p_auto_installed := True\<rparr>)"
proof -
  have t: "trimmed ''yes''" by (simp add: trimmed_def isspace_def is_space_def cval_def)
  show "reads env [''Essential: yes''] (\<lambda>p. p\<lparr>p_essential := True\<rparr>)"
    "reads env [''Auto-Installed: yes''] (\<lambda>p. p\<lparr>p_auto_installed := True\<rparr>)"
    using assms by (intro reads_line; simp add: parse_line_eval trim_space [OF t])+
qed

lemma trimmed_show_nat: "trimmed (show_nat n)"
proof -
  have "list_all isdigit (show_nat n)" "show_nat n \<noteq> []" using show_nat_digits by auto
  then have "isdigit (hd (show_nat n))" "isdigit (last (show_nat n))"
    by (simp_all add: list_all_iff)
  then show ?thesis by (simp add: trimmed_def)
qed

lemma reads_Installed_Time:
  assumes "pe_pfm env = 0"
  shows "reads env [''Installed-Time: '' @ show_nat (unat t)] (\<lambda>p. p\<lparr>p_installed_time := t\<rparr>)"
  using assms by (intro reads_line) (simp add: parse_line_eval trim_space [OF trimmed_show_nat]
      strtoul0_show_nat)

lemma parse_list_named:
  assumes "list_all list_item xs"
  shows "parse_list (''Depends:'' @ print_list xs) CHR '','' False = Some xs"
    "parse_list (''Recommends:'' @ print_list xs) CHR '','' False = Some xs"
    "parse_list (''Suggests:'' @ print_list xs) CHR '','' False = Some xs"
    "parse_list (''Provides:'' @ print_list xs) CHR '','' False = Some xs"
    "parse_list (''Replaces:'' @ print_list xs) CHR '','' False = Some xs"
    "parse_list (''Conflicts:'' @ print_list xs) CHR '','' False = Some xs"
  using parse_list_print [OF assms, of "''Depends''"] parse_list_print [OF assms, of "''Recommends''"]
    parse_list_print [OF assms, of "''Suggests''"] parse_list_print [OF assms, of "''Provides''"]
    parse_list_print [OF assms, of "''Replaces''"] parse_list_print [OF assms, of "''Conflicts''"]
  by simp_all

lemma reads_lists:
  assumes "pe_pfm env = 0" "list_all list_item xs"
  shows "reads env [''Depends'' @ '':'' @ print_list xs]
      (\<lambda>p. p\<lparr>p_depends_str := xs, p_depends_count := length xs\<rparr>)"
    "reads env [''Recommends'' @ '':'' @ print_list xs]
      (\<lambda>p. p\<lparr>p_recommends_str := xs, p_recommends_count := length xs\<rparr>)"
    "reads env [''Suggests'' @ '':'' @ print_list xs]
      (\<lambda>p. p\<lparr>p_suggests_str := xs, p_suggests_count := length xs\<rparr>)"
    "reads env [''Provides'' @ '':'' @ print_list xs]
      (\<lambda>p. p\<lparr>p_provides_str := xs, p_provides_count := length xs\<rparr>)"
    "reads env [''Replaces'' @ '':'' @ print_list xs]
      (\<lambda>p. p\<lparr>p_replaces_str := xs, p_replaces_count := length xs\<rparr>)"
    "reads env [''Conflicts'' @ '':'' @ print_list xs]
      (\<lambda>p. p\<lparr>p_conflicts_str := xs, p_conflicts_count := length xs\<rparr>)"
  using assms parse_list_named [OF assms(2)] by (intro reads_line; simp add: parse_line_eval)+

lemma reads_Version:
  assumes "pe_pfm env = 0" "printable_version p"
  shows "\<exists>s. pkg_version_str_alloc p = Some s \<and> reads env [''Version: '' @ s]
      (\<lambda>q. q\<lparr>p_epoch := p_epoch p, p_version := p_version p, p_revision := p_revision p\<rparr>)"
proof -
  obtain s where s: "pkg_version_str_alloc p = Some s" using parse_printed_version [OF assms(2)] by blast
  then have v: "parse_version q (''Version: '' @ s) =
      q\<lparr>p_epoch := p_epoch p, p_version := p_version p, p_revision := p_revision p\<rparr>" for q
    using parse_printed_version [OF assms(2), of q] by auto
  have "reads env [''Version: '' @ s] (\<lambda>q. parse_version q (''Version: '' @ s))"
    using assms(1) by (intro reads_line) (simp add: parse_line_eval)
  then show ?thesis using s unfolding v by blast
qed

section \<open>The \<open>Status\<close> line\<close>

definition word_text :: "string \<Rightarrow> bool" where
  "word_text s \<longleftrightarrow> s \<noteq> [] \<and> list_all (\<lambda>c. \<not> isspace c) s"

lemma want_word:
  "sw \<noteq> SW_LAST_STATE_WANT \<Longrightarrow> word_text (pkg_state_want_to_str sw) \<and> length (pkg_state_want_to_str sw) \<le> 63"
  by (cases sw) (simp_all add: pkg_state_want_to_str_def pkg_state_want_map_def word_text_def
      isspace_def is_space_def cval_def)

lemma status_word:
  "ss \<noteq> SS_LAST_STATE_STATUS \<Longrightarrow> word_text (pkg_state_status_to_str ss) \<and> length (pkg_state_status_to_str ss) \<le> 63"
  by (cases ss) (simp_all add: pkg_state_status_to_str_def pkg_state_status_map_def word_text_def
      isspace_def is_space_def cval_def)

lemma flag_word_bits:
  "(let t = (if flag_of_bits h n p ob u = 0 then ''ok''
      else butlast (flag_names pkg_state_flag_map (flag_of_bits h n p ob u)))
    in word_text t \<and> length t \<le> 63)"
  by (cases h; cases n; cases p; cases ob; cases u)
    (simp_all add: flag_of_bits_def pkg_state_flag_map_def sf_defs word_text_def Let_def
      isspace_def is_space_def cval_def)

lemma flag_word: "word_text (pkg_state_flag_to_str sf) \<and> length (pkg_state_flag_to_str sf) \<le> 63"
  unfolding pkg_state_flag_to_str_def Let_def nonvolatile_bits using flag_word_bits by (metis (no_types, lifting))

lemma reads_Status:
  assumes "pe_pfm env = 0" "sw \<noteq> SW_LAST_STATE_WANT" "ss \<noteq> SS_LAST_STATE_STATUS"
  shows "reads env [''Status: '' @ pkg_state_want_to_str sw @ '' '' @ pkg_state_flag_to_str sf @ '' '' @
      pkg_state_status_to_str ss]
    (\<lambda>p. p\<lparr>p_state_want := sw, p_state_flag := sf AND SF_NONVOLATILE_FLAGS, p_state_status := ss\<rparr>)"
    (is "reads env [?l] ?u")
proof -
  let ?w = "pkg_state_want_to_str sw" and ?f = "pkg_state_flag_to_str sf"
    and ?s = "pkg_state_status_to_str ss"
  have w: "word_text ?w" "length ?w \<le> 63" using want_word [OF assms(2)] by auto
  have f: "word_text ?f" "length ?f \<le> 63" using flag_word by auto
  have s: "word_text ?s" "length ?s \<le> 63" using status_word [OF assms(3)] by auto
  have 1: "scan_token 63 (CHR '' '' # ?w @ CHR '' '' # ?f @ CHR '' '' # ?s) =
      Some (?w, CHR '' '' # ?f @ CHR '' '' # ?s)"
    by (rule scan_token_word) (use w in \<open>simp_all add: word_text_def\<close>)
  have 2: "scan_token 63 (CHR '' '' # ?f @ CHR '' '' # ?s) = Some (?f, CHR '' '' # ?s)"
    by (rule scan_token_word) (use f in \<open>simp_all add: word_text_def\<close>)
  have 3: "scan_token 63 (CHR '' '' # ?s) = Some (?s, [])"
    by (rule scan_token_word) (use s in \<open>simp_all add: word_text_def\<close>)
  have p: "parse_status q ?l = ?u q" for q
    by (simp add: parse_status_def 1 2 3 want_roundtrip [OF assms(2)] status_roundtrip [OF assms(3)]
        flag_roundtrip)
  have "reads env [?l] (\<lambda>q. parse_status q ?l)"
    using assms(1) by (intro reads_line) (simp add: parse_line_eval)
  then show ?thesis unfolding p .
qed

section \<open>The \<open>Conffiles\<close> paragraph\<close>

definition conffile_ok :: "nv_pair \<Rightarrow> bool" where
  "conffile_ok nv = (case (nv_name nv, nv_value nv) of
     (Some n, Some v) \<Rightarrow> word_text n \<and> length n \<le> 1023 \<and> word_text v \<and> length v \<le> 34
   | _ \<Rightarrow> False)"

definition conffile_text :: "nv_pair \<Rightarrow> string" where
  "conffile_text nv = '' '' @ fmt_s (nv_name nv) @ '' '' @ fmt_s (nv_value nv)"

lemma parse_conffiles_text:
  assumes "conffile_ok nv"
  shows "parse_conffiles p (conffile_text nv) = p\<lparr>p_conffiles := p_conffiles p @ [nv]\<rparr>"
proof -
  obtain n v where nv: "nv = \<lparr>nv_name = Some n, nv_value = Some v\<rparr>"
    using assms by (cases nv) (auto simp: conffile_ok_def split: option.splits)
  have 1: "scan_token 1023 (CHR '' '' # n @ CHR '' '' # v) = Some (n, CHR '' '' # v)"
    by (rule scan_token_word) (use assms nv in \<open>simp_all add: conffile_ok_def word_text_def\<close>)
  have 2: "scan_token 34 (CHR '' '' # v) = Some (v, [])"
    by (rule scan_token_word) (use assms nv in \<open>simp_all add: conffile_ok_def word_text_def\<close>)
  show ?thesis
    by (simp add: parse_conffiles_def conffile_text_def nv fmt_s_def 1 2 conffile_list_append_def)
qed

lemma feed_conffiles:
  assumes "pe_pfm env = 0" "list_all conffile_ok cs" "ps_conffiles st" "\<not> ps_description st"
  shows "\<exists>st'. ps_pkg st' = (ps_pkg st)\<lparr>p_conffiles := p_conffiles (ps_pkg st) @ cs\<rparr> \<and>
    feed_lines (parse_callback env 0) (Some st) (map conffile_text cs @ rest) =
    feed_lines (parse_callback env 0) (Some st') rest"
  using assms(2-)
proof (induction cs arbitrary: st)
  case Nil
  then show ?case by (intro exI [of _ st]) simp
next
  case (Cons c cs)
  let ?st = "st\<lparr>ps_pkg := parse_conffiles (ps_pkg st) (conffile_text c)\<rparr>"
  have "pkg_parse_line env 0 st (conffile_text c) = Some (?st, False)"
    using assms(1) Cons.prems by (simp add: parse_line_eval conffile_text_def)
  then have "feed_lines (parse_callback env 0) (Some st) (map conffile_text (c # cs) @ rest) =
      feed_lines (parse_callback env 0) (Some ?st) (map conffile_text cs @ rest)"
    by (simp add: parse_callback_def)
  moreover have "parse_conffiles (ps_pkg st) (conffile_text c) =
      (ps_pkg st)\<lparr>p_conffiles := p_conffiles (ps_pkg st) @ [c]\<rparr>"
    using Cons.prems by (intro parse_conffiles_text) simp
  ultimately show ?case using Cons.IH [of ?st] Cons.prems by simp
qed

lemma reads_Conffiles:
  assumes "pe_pfm env = 0" "list_all conffile_ok cs"
  shows "reads env (''Conffiles:'' # map conffile_text cs) (\<lambda>p. p\<lparr>p_conffiles := p_conffiles p @ cs\<rparr>)"
  unfolding reads_def
proof (intro allI)
  fix st :: parse_state and rest
  let ?st = "st\<lparr>ps_conffiles := True, ps_description := False\<rparr>"
  have "pkg_parse_line env 0 st ''Conffiles:'' = Some (?st, False)"
    using assms(1) by (simp add: parse_line_eval)
  then have "feed_lines (parse_callback env 0) (Some st) ((''Conffiles:'' # map conffile_text cs) @ rest) =
      feed_lines (parse_callback env 0) (Some ?st) (map conffile_text cs @ rest)"
    by (simp add: parse_callback_def)
  then show "\<exists>st'. ps_pkg st' = (ps_pkg st)\<lparr>p_conffiles := p_conffiles (ps_pkg st) @ cs\<rparr> \<and>
      feed_lines (parse_callback env 0) (Some st) ((''Conffiles:'' # map conffile_text cs) @ rest) =
      feed_lines (parse_callback env 0) (Some st') rest"
    using feed_conffiles [OF assms, of ?st rest] by simp
qed

section \<open>The lines of a paragraph\<close>

definition status_depends :: "(apkg_ref \<Rightarrow> string) \<Rightarrow> pkg \<Rightarrow> nat \<Rightarrow> depend_type \<Rightarrow> string list" where
  "status_depends nm p n t =
     (if n = 0 then [] else depends_of_type nm t (take (all_depends_count p) (p_depends p)))"

definition status_conflicts :: "(apkg_ref \<Rightarrow> string) \<Rightarrow> pkg \<Rightarrow> string list" where
  "status_conflicts nm p =
     (case p_conflicts p of None \<Rightarrow> []
      | Some cs \<Rightarrow> map (\<lambda>c. depend_text nm (hd (cd_possibilities c))) (take (p_conflicts_count p) cs))"

definition status_provides :: "(apkg_ref \<Rightarrow> string) \<Rightarrow> pkg \<Rightarrow> string list" where
  "status_provides nm p =
     (case p_provides p of None \<Rightarrow> []
      | Some ps \<Rightarrow> map nm (tl (take (p_provides_count p) ps)))"

definition status_replaces :: "(apkg_ref \<Rightarrow> string) \<Rightarrow> pkg \<Rightarrow> string list" where
  "status_replaces nm p = map nm (take (p_replaces_count p) (p_replaces p))"

text \<open>
  What the arrays and strings of a package must satisfy for its paragraph to be readable: the
  arrays have the lengths the counters say, no item contains a separator, and single-line texts
  have no white space at their ends.
\<close>

definition printable_arrays :: "(apkg_ref \<Rightarrow> string) \<Rightarrow> pkg \<Rightarrow> bool" where
  "printable_arrays nm p \<longleftrightarrow>
     (p_depends_count p + p_recommends_count p + p_suggests_count p \<noteq> 0 \<longrightarrow>
        all_depends_count p \<le> length (p_depends p)) \<and>
     (p_provides_count p \<le> 1 \<or> (\<exists>ps. p_provides p = Some ps \<and> p_provides_count p \<le> length ps)) \<and>
     p_replaces_count p \<le> length (p_replaces p) \<and>
     (p_conflicts_count p = 0 \<or> (\<exists>cs. p_conflicts p = Some cs \<and> p_conflicts_count p \<le> length cs \<and>
        list_all (\<lambda>c. cd_possibilities c \<noteq> []) cs))"

definition printable_texts :: "(apkg_ref \<Rightarrow> string) \<Rightarrow> pkg \<Rightarrow> bool" where
  "printable_texts nm p \<longleftrightarrow>
     p_name p \<noteq> None \<and> trimmed (fmt_s (p_name p)) \<and> printable_version p \<and>
     list_all list_item (status_depends nm p (p_depends_count p) DEPEND) \<and>
     list_all list_item (status_depends nm p (p_recommends_count p) RECOMMEND) \<and>
     list_all list_item (status_depends nm p (p_suggests_count p) SUGGEST) \<and>
     list_all list_item (status_provides nm p) \<and> list_all list_item (status_replaces nm p) \<and>
     list_all list_item (status_conflicts nm p) \<and>
     p_state_want p \<noteq> SW_LAST_STATE_WANT \<and> p_state_status p \<noteq> SS_LAST_STATE_STATUS \<and>
     (case p_architecture p of None \<Rightarrow> True | Some a \<Rightarrow> trimmed a) \<and>
     list_all conffile_ok (p_conffiles p)"

definition list_lines :: "nat \<Rightarrow> string \<Rightarrow> string list \<Rightarrow> string list" where
  "list_lines n name xs = (if n = 0 then [] else [name @ '':'' @ print_list xs])"

definition status_lines :: "(apkg_ref \<Rightarrow> string) \<Rightarrow> pkg \<Rightarrow> string list list" where
  "status_lines nm p =
     [[''Package: '' @ fmt_s (p_name p)],
      [''Version: '' @ fmt_s (pkg_version_str_alloc p)],
      list_lines (p_depends_count p) ''Depends'' (status_depends nm p (p_depends_count p) DEPEND),
      list_lines (p_recommends_count p) ''Recommends'' (status_depends nm p (p_recommends_count p) RECOMMEND),
      list_lines (p_suggests_count p) ''Suggests'' (status_depends nm p (p_suggests_count p) SUGGEST),
      list_lines (p_provides_count p) ''Provides'' (status_provides nm p),
      list_lines (p_replaces_count p) ''Replaces'' (status_replaces nm p),
      list_lines (p_conflicts_count p) ''Conflicts'' (status_conflicts nm p),
      [''Status: '' @ pkg_state_want_to_str (p_state_want p) @ '' '' @
         pkg_state_flag_to_str (p_state_flag p) @ '' '' @ pkg_state_status_to_str (p_state_status p)],
      (if p_essential p then [''Essential: yes''] else []),
      (case p_architecture p of None \<Rightarrow> [] | Some a \<Rightarrow> [''Architecture: '' @ a]),
      (if p_conffiles p = [] then [] else ''Conffiles:'' # map conffile_text (p_conffiles p)),
      (if p_installed_time p = 0 then [] else [''Installed-Time: '' @ show_nat (unat (p_installed_time p))]),
      (if p_auto_installed p then [''Auto-Installed: yes''] else [])]"

text \<open>The package that is read back.\<close>

definition status_image :: "parse_env \<Rightarrow> (apkg_ref \<Rightarrow> string) \<Rightarrow> pkg \<Rightarrow> pkg" where
  "status_image env nm p =
     (let ds = status_depends nm p (p_depends_count p) DEPEND;
          rs = status_depends nm p (p_recommends_count p) RECOMMEND;
          ss = status_depends nm p (p_suggests_count p) SUGGEST;
          ps = (if p_provides_count p = 0 then [] else status_provides nm p);
          es = status_replaces nm p;
          cs = (if p_conflicts_count p = 0 then [] else status_conflicts nm p)
      in pkg_new\<lparr>p_name := p_name p, p_epoch := p_epoch p, p_version := p_version p,
           p_revision := p_revision p, p_depends_str := ds, p_depends_count := length ds,
           p_recommends_str := rs, p_recommends_count := length rs, p_suggests_str := ss,
           p_suggests_count := length ss, p_provides_str := ps, p_provides_count := length ps,
           p_replaces_str := es, p_replaces_count := length es, p_conflicts_str := cs,
           p_conflicts_count := length cs, p_state_want := p_state_want p,
           p_state_flag := p_state_flag p AND SF_NONVOLATILE_FLAGS,
           p_state_status := p_state_status p, p_essential := p_essential p,
           p_architecture := p_architecture p,
           p_arch_priority := (case p_architecture p of None \<Rightarrow> 0
             | Some a \<Rightarrow> get_arch_priority (pe_arch_list env) a),
           p_conffiles := p_conffiles p, p_installed_time := p_installed_time p,
           p_auto_installed := p_auto_installed p\<rparr>)"

section \<open>The paragraph that is printed\<close>

lemmas field_eval = pkg_formatted_field_def formatted_field_r_to_v_def PKG_MINIMUM_FIELD_NAME_LEN_def strcasecmp_eq_def
  tolower_letters Let_def

lemma unlines_append [simp]: "unlines (as @ bs) = unlines as @ unlines bs"
  by (simp add: unlines_def)

lemma print_depends:
  assumes "printable_arrays nm p" "n \<le> p_depends_count p + p_recommends_count p + p_suggests_count p"
  shows "depends_line nm p n name t = Some (unlines (list_lines n name (status_depends nm p n t)))"
  using assms by (auto simp: depends_line_def printable_arrays_def first_n_def list_lines_def
      list_line_def print_items_eq status_depends_def)

lemma all_some_map: "(\<forall>x \<in> set xs. f x = Some (g x)) \<Longrightarrow> all_some (map f xs) = Some (map g xs)"
  by (induction xs) auto

lemma print_conflicts:
  assumes "printable_arrays nm p"
  shows "pkg_formatted_field nm p ''Conflicts'' =
    Some (unlines (list_lines (p_conflicts_count p) ''Conflicts'' (status_conflicts nm p)))"
proof (cases "p_conflicts_count p = 0")
  case True
  then show ?thesis
    by (simp add: field_eval list_lines_def)
next
  case False
  then obtain cs where cs: "p_conflicts p = Some cs" "p_conflicts_count p \<le> length cs"
      "list_all (\<lambda>c. cd_possibilities c \<noteq> []) cs"
    using assms by (auto simp: printable_arrays_def)
  have "all_some (map (conflict_text nm) (take (p_conflicts_count p) cs)) =
      Some (map (\<lambda>c. depend_text nm (hd (cd_possibilities c))) (take (p_conflicts_count p) cs))"
    using cs(3) by (intro all_some_map)
      (auto simp: conflict_text_def list_all_iff dest!: in_set_takeD split: list.splits)
  then show ?thesis
    using False cs by (simp add: field_eval list_lines_def list_line_def first_n_def
        status_conflicts_def print_items_eq)
qed

lemma conffile_lines: "list_all conffile_ok cs \<Longrightarrow>
    concat (map conffile_line cs) = unlines (map conffile_text cs)"
  by (induction cs) (auto simp: conffile_line_def conffile_text_def conffile_ok_def fmt_s_def
      split: option.splits)

lemma print_fields_status:
  assumes "printable_arrays nm p" "printable_texts nm p"
  shows "map (pkg_formatted_field nm p)
    [''Package'', ''Version'', ''Depends'', ''Recommends'', ''Suggests'', ''Provides'', ''Replaces'',
     ''Conflicts'', ''Status'', ''Essential'', ''Architecture'', ''Conffiles'', ''Installed-Time'',
     ''Auto-Installed''] = map (\<lambda>ls. Some (unlines ls)) (status_lines nm p)"
proof -
  note ev = field_eval
  obtain s where s: "pkg_version_str_alloc p = Some s"
    using parse_printed_version [of p pkg_new] assms(2) by (auto simp: printable_texts_def)
  have "pkg_formatted_field nm p ''Package'' = Some (unlines [''Package: '' @ fmt_s (p_name p)])"
    by (simp add: ev line_of_def)
  moreover have "pkg_formatted_field nm p ''Version'' =
      Some (unlines [''Version: '' @ fmt_s (pkg_version_str_alloc p)])"
    by (simp add: ev line_of_def opt_line_def s fmt_s_def)
  moreover have "pkg_formatted_field nm p ''Depends'' = depends_line nm p (p_depends_count p) ''Depends'' DEPEND"
    "pkg_formatted_field nm p ''Recommends'' = depends_line nm p (p_recommends_count p) ''Recommends'' RECOMMEND"
    "pkg_formatted_field nm p ''Suggests'' = depends_line nm p (p_suggests_count p) ''Suggests'' SUGGEST"
    by (simp_all add: ev)
  moreover have "pkg_formatted_field nm p ''Provides'' =
      Some (unlines (list_lines (p_provides_count p) ''Provides'' (status_provides nm p)))"
  proof (cases "p_provides_count p \<le> 1")
    case True
    then have "status_provides nm p = []" by (simp add: status_provides_def tl_take split: option.splits)
    then show ?thesis using True
      by (cases "p_provides_count p = 0") (simp_all add: ev list_lines_def list_line_def)
  next
    case False
    then show ?thesis using assms(1)
      by (auto simp: printable_arrays_def ev list_lines_def list_line_def status_provides_def
          first_n_def print_items_eq)
  qed
  moreover have "pkg_formatted_field nm p ''Replaces'' =
      Some (unlines (list_lines (p_replaces_count p) ''Replaces'' (status_replaces nm p)))"
    using assms(1) by (auto simp: printable_arrays_def ev list_lines_def list_line_def
        status_replaces_def first_n_def print_items_eq)
  moreover note print_conflicts [OF assms(1)]
  moreover have "pkg_formatted_field nm p ''Status'' =
      Some (unlines [''Status: '' @ pkg_state_want_to_str (p_state_want p) @ '' '' @
         pkg_state_flag_to_str (p_state_flag p) @ '' '' @ pkg_state_status_to_str (p_state_status p)])"
    by (simp add: ev line_of_def)
  moreover have "pkg_formatted_field nm p ''Essential'' =
      Some (unlines (if p_essential p then [''Essential: yes''] else []))"
    "pkg_formatted_field nm p ''Auto-Installed'' =
      Some (unlines (if p_auto_installed p then [''Auto-Installed: yes''] else []))"
    by (simp_all add: ev line_of_def)
  moreover have "pkg_formatted_field nm p ''Architecture'' =
      Some (unlines (case p_architecture p of None \<Rightarrow> [] | Some a \<Rightarrow> [''Architecture: '' @ a]))"
    by (simp add: ev line_of_def opt_line_def split: option.splits)
  moreover have "pkg_formatted_field nm p ''Conffiles'' = Some (unlines
      (if p_conffiles p = [] then [] else ''Conffiles:'' # map conffile_text (p_conffiles p)))"
    using conffile_lines [of "p_conffiles p"] assms(2) by (simp add: ev printable_texts_def)
  moreover have "pkg_formatted_field nm p ''Installed-Time'' = Some (unlines
      (if p_installed_time p = 0 then [] else [''Installed-Time: '' @ show_nat (unat (p_installed_time p))]))"
    by (simp add: ev line_of_def)
  ultimately show ?thesis
    by (simp only: status_lines_def list.map print_depends [OF assms(1)] le_add1 le_add2 trans_le_add1)
qed

lemma pkg_print_status_lines:
  assumes "printable_arrays nm p" "printable_texts nm p"
  shows "pkg_print_status nm p = Some (unlines (concat (status_lines nm p) @ [[]]))"
proof -
  have "all_some (map (\<lambda>ls. Some (unlines ls)) lss) = Some (map unlines lss)" for lss
    by (induction lss) auto
  moreover have "concat (map unlines lss) = unlines (concat lss)" for lss
    by (induction lss) auto
  ultimately show ?thesis
    unfolding pkg_print_status_def print_fields_def print_fields_status [OF assms] by simp
qed

section \<open>The round trip\<close>

lemma reads_concat:
  "list_all2 (reads env) lss us \<Longrightarrow> reads env (concat lss) (\<lambda>p. fold (\<lambda>u q. u q) us p)"
proof (induction lss us rule: list_all2_induct)
  case Nil
  then show ?case by (simp add: reads_Nil)
next
  case (Cons l ls u us)
  then show ?case using reads_append [of env l u "concat ls" "\<lambda>p. fold (\<lambda>u q. u q) us p"] by simp
qed

lemma reads_list_lines:
  assumes "reads env [name @ '':'' @ print_list xs] f"
  shows "reads env (list_lines n name xs) (\<lambda>p. if n = 0 then p else f p)"
  using assms by (cases "n = 0") (simp_all add: list_lines_def reads_Nil)

lemma reads_opt:
  assumes "c \<Longrightarrow> reads env ls f"
  shows "reads env (if c then ls else []) (\<lambda>p. if c then f p else p)"
    "reads env (if \<not> c then [] else ls) (\<lambda>p. if c then f p else p)"
  using assms reads_Nil by simp_all

definition status_updates :: "parse_env \<Rightarrow> (apkg_ref \<Rightarrow> string) \<Rightarrow> pkg \<Rightarrow> (pkg \<Rightarrow> pkg) list" where
  "status_updates env nm p =
     (let ds = status_depends nm p (p_depends_count p) DEPEND;
          rs = status_depends nm p (p_recommends_count p) RECOMMEND;
          ss = status_depends nm p (p_suggests_count p) SUGGEST;
          ps = status_provides nm p; es = status_replaces nm p; cs = status_conflicts nm p
      in [\<lambda>q. q\<lparr>p_name := p_name p\<rparr>,
          \<lambda>q. q\<lparr>p_epoch := p_epoch p, p_version := p_version p, p_revision := p_revision p\<rparr>,
          \<lambda>q. if p_depends_count p = 0 then q else q\<lparr>p_depends_str := ds, p_depends_count := length ds\<rparr>,
          \<lambda>q. if p_recommends_count p = 0 then q else q\<lparr>p_recommends_str := rs, p_recommends_count := length rs\<rparr>,
          \<lambda>q. if p_suggests_count p = 0 then q else q\<lparr>p_suggests_str := ss, p_suggests_count := length ss\<rparr>,
          \<lambda>q. if p_provides_count p = 0 then q else q\<lparr>p_provides_str := ps, p_provides_count := length ps\<rparr>,
          \<lambda>q. if p_replaces_count p = 0 then q else q\<lparr>p_replaces_str := es, p_replaces_count := length es\<rparr>,
          \<lambda>q. if p_conflicts_count p = 0 then q else q\<lparr>p_conflicts_str := cs, p_conflicts_count := length cs\<rparr>,
          \<lambda>q. q\<lparr>p_state_want := p_state_want p, p_state_flag := p_state_flag p AND SF_NONVOLATILE_FLAGS,
                p_state_status := p_state_status p\<rparr>,
          \<lambda>q. if p_essential p then q\<lparr>p_essential := True\<rparr> else q,
          \<lambda>q. case p_architecture p of None \<Rightarrow> q
              | Some a \<Rightarrow> q\<lparr>p_architecture := Some a, p_arch_priority := get_arch_priority (pe_arch_list env) a\<rparr>,
          \<lambda>q. if p_conffiles p = [] then q else q\<lparr>p_conffiles := p_conffiles q @ p_conffiles p\<rparr>,
          \<lambda>q. if p_installed_time p = 0 then q else q\<lparr>p_installed_time := p_installed_time p\<rparr>,
          \<lambda>q. if p_auto_installed p then q\<lparr>p_auto_installed := True\<rparr> else q])"

lemma reads_status_lines:
  assumes e: "pe_pfm env = 0" and t: "printable_texts nm p"
  shows "list_all2 (reads env) (status_lines nm p) (status_updates env nm p)"
proof -
  obtain s where s: "pkg_version_str_alloc p = Some s" "reads env [''Version: '' @ s]
      (\<lambda>q. q\<lparr>p_epoch := p_epoch p, p_version := p_version p, p_revision := p_revision p\<rparr>)"
    using reads_Version [OF e, of p] t by (auto simp: printable_texts_def)
  obtain n where n: "p_name p = Some n" "trimmed n" using t by (auto simp: printable_texts_def fmt_s_def)
  have if_not: "(if b then x else y) = (if \<not> b then y else x)" for b and x y :: "string list" by simp
  have if_not': "(if b then x else y) = (if \<not> b then y else x)" for b and x y :: pkg by simp
  note L = reads_list_lines [OF reads_lists(1) [OF e]] reads_list_lines [OF reads_lists(2) [OF e]]
    reads_list_lines [OF reads_lists(3) [OF e]] reads_list_lines [OF reads_lists(4) [OF e]]
    reads_list_lines [OF reads_lists(5) [OF e]] reads_list_lines [OF reads_lists(6) [OF e]]
  have arch: "reads env (case p_architecture p of None \<Rightarrow> [] | Some a \<Rightarrow> [''Architecture: '' @ a])
      (\<lambda>q. case p_architecture p of None \<Rightarrow> q | Some a \<Rightarrow>
        q\<lparr>p_architecture := Some a, p_arch_priority := get_arch_priority (pe_arch_list env) a\<rparr>)"
    using reads_Architecture [OF e] t reads_Nil
    by (auto simp: printable_texts_def split: option.splits)
  have conf: "reads env (if p_conffiles p = [] then [] else ''Conffiles:'' # map conffile_text (p_conffiles p))
      (\<lambda>q. if p_conffiles p = [] then q else q\<lparr>p_conffiles := p_conffiles q @ p_conffiles p\<rparr>)"
    using reads_Conffiles [OF e, of "p_conffiles p"] t reads_Nil by (auto simp: printable_texts_def)
  have tm: "reads env (if p_installed_time p = 0 then [] else [''Installed-Time: '' @ show_nat (unat (p_installed_time p))])
      (\<lambda>q. if p_installed_time p = 0 then q else q\<lparr>p_installed_time := p_installed_time p\<rparr>)"
    using reads_Installed_Time [OF e] reads_Nil by auto
  show ?thesis
    unfolding status_lines_def status_updates_def Let_def list_all2_Cons list_all2_Nil
    using t n s reads_Package [OF e n(2)] reads_Status [OF e] arch conf tm
      L reads_opt(1) [OF reads_flags(1) [OF e]] reads_opt(1) [OF reads_flags(2) [OF e]]
    by (simp only: printable_texts_def fmt_s_def option.case simp_thms)
qed

lemma pkg_new_fields:
  "p_depends_str pkg_new = []" "p_depends_count pkg_new = 0" "p_recommends_str pkg_new = []"
  "p_recommends_count pkg_new = 0" "p_suggests_str pkg_new = []" "p_suggests_count pkg_new = 0"
  "p_provides_str pkg_new = []" "p_provides_count pkg_new = 0" "p_replaces_str pkg_new = []"
  "p_replaces_count pkg_new = 0" "p_conflicts_str pkg_new = []" "p_conflicts_count pkg_new = 0"
  "p_essential pkg_new = False" "p_auto_installed pkg_new = False" "p_conffiles pkg_new = []"
  "p_installed_time pkg_new = 0" "p_architecture pkg_new = None" "p_arch_priority pkg_new = 0"
  by (simp_all add: pkg_new_def)

lemma if_update:
  "p_depends_str q = [] \<Longrightarrow> p_depends_count q = 0 \<Longrightarrow>
     (if c then q else q\<lparr>p_depends_str := x, p_depends_count := length x\<rparr>) =
     q\<lparr>p_depends_str := if c then [] else x, p_depends_count := if c then 0 else length x\<rparr>"
  "p_recommends_str q = [] \<Longrightarrow> p_recommends_count q = 0 \<Longrightarrow>
     (if c then q else q\<lparr>p_recommends_str := x, p_recommends_count := length x\<rparr>) =
     q\<lparr>p_recommends_str := if c then [] else x, p_recommends_count := if c then 0 else length x\<rparr>"
  "p_suggests_str q = [] \<Longrightarrow> p_suggests_count q = 0 \<Longrightarrow>
     (if c then q else q\<lparr>p_suggests_str := x, p_suggests_count := length x\<rparr>) =
     q\<lparr>p_suggests_str := if c then [] else x, p_suggests_count := if c then 0 else length x\<rparr>"
  "p_provides_str q = [] \<Longrightarrow> p_provides_count q = 0 \<Longrightarrow>
     (if c then q else q\<lparr>p_provides_str := x, p_provides_count := length x\<rparr>) =
     q\<lparr>p_provides_str := if c then [] else x, p_provides_count := if c then 0 else length x\<rparr>"
  "p_replaces_str q = [] \<Longrightarrow> p_replaces_count q = 0 \<Longrightarrow>
     (if c then q else q\<lparr>p_replaces_str := x, p_replaces_count := length x\<rparr>) =
     q\<lparr>p_replaces_str := if c then [] else x, p_replaces_count := if c then 0 else length x\<rparr>"
  "p_conflicts_str q = [] \<Longrightarrow> p_conflicts_count q = 0 \<Longrightarrow>
     (if c then q else q\<lparr>p_conflicts_str := x, p_conflicts_count := length x\<rparr>) =
     q\<lparr>p_conflicts_str := if c then [] else x, p_conflicts_count := if c then 0 else length x\<rparr>"
  "\<not> p_essential q \<Longrightarrow> (if c then q\<lparr>p_essential := True\<rparr> else q) = q\<lparr>p_essential := c\<rparr>"
  "\<not> p_auto_installed q \<Longrightarrow> (if c then q\<lparr>p_auto_installed := True\<rparr> else q) = q\<lparr>p_auto_installed := c\<rparr>"
  "p_conffiles q = [] \<Longrightarrow> (if cs = [] then q else q\<lparr>p_conffiles := p_conffiles q @ cs\<rparr>) = q\<lparr>p_conffiles := cs\<rparr>"
  "p_conffiles q = [] \<Longrightarrow> (if cs = [] then q else q\<lparr>p_conffiles := cs\<rparr>) = q\<lparr>p_conffiles := cs\<rparr>"
  "p_installed_time q = 0 \<Longrightarrow> (if t = 0 then q else q\<lparr>p_installed_time := t\<rparr>) = q\<lparr>p_installed_time := t\<rparr>"
  "p_architecture q = None \<Longrightarrow> p_arch_priority q = 0 \<Longrightarrow>
     (case ao of None \<Rightarrow> q | Some a \<Rightarrow> q\<lparr>p_architecture := Some a, p_arch_priority := f a\<rparr>) =
     q\<lparr>p_architecture := ao, p_arch_priority := case ao of None \<Rightarrow> 0 | Some a \<Rightarrow> f a\<rparr>"
  by (simp_all split: option.splits)

lemma fold_two: "fold (\<lambda>u q. u q) (u # us) q = fold (\<lambda>u q. u q) us (u q)" "fold (\<lambda>u q. u q) [] q = q"
  by simp_all

lemma status_updates_image: "fold (\<lambda>u q. u q) (status_updates env nm p) pkg_new = status_image env nm p"
  unfolding status_updates_def status_image_def Let_def
  by (simp add: if_update pkg_new_fields status_depends_def status_replaces_def
      cong: if_weak_cong option.case_cong_weak)

lemma parse_blank_line: "parse_callback env m (Some st) [] = (Some (reset_flags (ps_pkg st)), True)"
  by (simp add: parse_callback_def pkg_parse_line_def Let_def line_is_blank_def)

definition printable :: "(apkg_ref \<Rightarrow> string) \<Rightarrow> pkg \<Rightarrow> bool" where
  "printable nm p \<longleftrightarrow> printable_arrays nm p \<and> printable_texts nm p \<and>
     (\<forall>l \<in> set (concat (status_lines nm p)). newline \<notin> set l \<and> length l + 2 \<le> EXCESSIVE_LINE_LEN)"

definition status_text :: "(apkg_ref \<Rightarrow> string) \<Rightarrow> pkg \<Rightarrow> string list" where
  "status_text nm p = concat (status_lines nm p) @ [[]]"

lemma printable_status_text:
  assumes "printable nm p"
  shows "pkg_print_status nm p = Some (unlines (status_text nm p))"
    "\<forall>l \<in> set (status_text nm p). newline \<notin> set l \<and> length l + 2 \<le> EXCESSIVE_LINE_LEN"
  using assms by (auto simp: printable_def status_text_def pkg_print_status_lines EXCESSIVE_LINE_LEN_def)

lemma paragraph_read:
  assumes "pe_pfm env = 0" "printable nm p"
    "\<forall>l \<in> set others. newline \<notin> set l \<and> length l + 2 \<le> EXCESSIVE_LINE_LEN"
  shows "parse_from_stream_nomalloc (parse_callback env 0) (Some st)
      \<lparr>st_data = unlines (status_text nm p @ others), st_error = False\<rparr> 4096 =
    (0, Some (reset_flags (fold (\<lambda>u q. u q) (status_updates env nm p) (ps_pkg st))),
     \<lparr>st_data = unlines others, st_error = False\<rparr>)"
proof -
  let ?ls = "concat (status_lines nm p)"
  have "reads env ?ls (\<lambda>q. fold (\<lambda>u q. u q) (status_updates env nm p) q)"
    using reads_concat reads_status_lines [OF assms(1)] assms(2) unfolding printable_def by blast
  then obtain st' where st': "ps_pkg st' = fold (\<lambda>u q. u q) (status_updates env nm p) (ps_pkg st)"
      "feed_lines (parse_callback env 0) (Some st) (?ls @ [] # others) =
       feed_lines (parse_callback env 0) (Some st') ([] # others)"
    unfolding reads_def by metis
  have "\<forall>l \<in> set (?ls @ [] # others). newline \<notin> set l \<and> length l + 2 \<le> EXCESSIVE_LINE_LEN"
    using printable_status_text(2) [OF assms(2)] assms(3) by (auto simp: status_text_def)
  then show ?thesis
    unfolding parse_from_stream_nomalloc_def status_text_def append.assoc append.simps
    by (subst parse_stream_lines) (simp_all add: st' parse_blank_line)
qed

text \<open>(C6) A paragraph of the status file is read back as it was written: the package with every
  field \<open>pkg_print_status\<close> writes, the dependencies and related lists as the texts that were
  printed, and the non-volatile state flags only. The reader stops at the blank line and leaves the
  next paragraphs in the stream, and the result does not depend on what it had read before.\<close>

theorem status_file_roundtrip:
  assumes "pe_pfm env = 0" "printable_arrays nm p" "printable_texts nm p"
    and "\<forall>l \<in> set (concat (status_lines nm p) @ others). newline \<notin> set l \<and> length l + 2 \<le> EXCESSIVE_LINE_LEN"
    and "ps_pkg st = pkg_new"
  shows "\<exists>text. pkg_print_status nm p = Some text \<and>
    pkg_parse_from_stream env 0 st \<lparr>st_data = text @ unlines others, st_error = False\<rparr> =
      (0, Some (reset_flags (status_image env nm p)), \<lparr>st_data = unlines others, st_error = False\<rparr>)"
proof -
  have p: "printable nm p" "\<forall>l \<in> set others. newline \<notin> set l \<and> length l + 2 \<le> EXCESSIVE_LINE_LEN"
    using assms(2-4) by (auto simp: printable_def)
  have "p_name (status_image env nm p) \<noteq> None"
    using assms(3) by (simp add: status_image_def Let_def printable_texts_def)
  then show ?thesis
    using printable_status_text(1) [OF p(1)] paragraph_read [OF assms(1) p, of st] status_updates_image [of env nm p] assms(5)
    by (simp add: pkg_parse_from_stream_def reset_flags_def)
qed

definition example_status_pkg :: pkg where
  "example_status_pkg = pkg_new\<lparr>p_name := Some ''uci'', p_version := Some ''1.0'', p_revision := Some ''3'',
     p_depends_count := 1,
     p_depends := [\<lparr>cd_type = DEPEND, cd_possibilities =
       [\<lparr>d_constraint = LATER_EQUAL, d_version = Some ''2'', d_pkg = 7\<rparr>]\<rparr>],
     p_state_want := SW_INSTALL, p_state_flag := SF_USER OR SF_MARKED, p_state_status := SS_INSTALLED,
     p_conffiles := [\<lparr>nv_name = Some ''/etc/a'', nv_value = Some ''0f''\<rparr>],
     p_architecture := Some ''all''\<rparr>"

lemma example_printable: "printable (\<lambda>r. ''libc'') example_status_pkg"
proof -
  note ex = example_status_pkg_def pkg_new_def status_depends_def depends_of_type_def
    all_depends_count_def pkg_depend_str_eq depend_texts_size_def depend_text_def constraint_to_str_def
    status_provides_def status_replaces_def status_conflicts_def
  have "printable_arrays (\<lambda>r. ''libc'') example_status_pkg"
    by (simp add: printable_arrays_def ex)
  moreover have "printable_texts (\<lambda>r. ''libc'') example_status_pkg"
    by (simp add: printable_texts_def ex trimmed_def fmt_s_def printable_version_def list_item_def
        conffile_ok_def word_text_def isspace_def is_space_def cval_def)
  moreover have f: "pkg_state_flag_to_str (SF_USER OR SF_MARKED) = ''user''"
    by (simp add: pkg_state_flag_to_str_def sf_defs pkg_state_flag_map_def)
  have "\<forall>l \<in> set (concat (status_lines (\<lambda>r. ''libc'') example_status_pkg)).
      newline \<notin> set l \<and> length l + 2 \<le> EXCESSIVE_LINE_LEN"
    by (simp add: status_lines_def ex fmt_s_def pkg_version_str_alloc_def list_lines_def f
        pkg_state_want_to_str_def pkg_state_want_map_def pkg_state_status_to_str_def
        pkg_state_status_map_def conffile_text_def EXCESSIVE_LINE_LEN_def)
  ultimately show ?thesis by (simp add: printable_def)
qed

theorem status_file_roundtrip_witness:
  "\<exists>text. pkg_print_status (\<lambda>r. ''libc'') example_status_pkg = Some text \<and>
    pkg_parse_from_stream \<lparr>pe_pfm = 0, pe_arch_list = [(''all'', ''1'')]\<rparr> 0 (reset_flags pkg_new)
      \<lparr>st_data = text @ unlines [''Package: b'', []], st_error = False\<rparr> =
      (0, Some (reset_flags (status_image \<lparr>pe_pfm = 0, pe_arch_list = [(''all'', ''1'')]\<rparr> (\<lambda>r. ''libc'')
         example_status_pkg)), \<lparr>st_data = unlines [''Package: b'', []], st_error = False\<rparr>)"
proof (rule status_file_roundtrip)
  show "printable_arrays (\<lambda>r. ''libc'') example_status_pkg" "printable_texts (\<lambda>r. ''libc'') example_status_pkg"
    using example_printable by (simp_all add: printable_def)
  show "\<forall>l \<in> set (concat (status_lines (\<lambda>r. ''libc'') example_status_pkg) @ [''Package: b'', []]).
      newline \<notin> set l \<and> length l + 2 \<le> EXCESSIVE_LINE_LEN"
    using example_printable by (auto simp: printable_def EXCESSIVE_LINE_LEN_def)
qed (simp_all add: reset_flags_def)

end
