(* ===== verification/Opkg_List.thy ===== *)
theory Opkg_List
  imports Opkg_Base
begin

text \<open>
  The circular doubly linked lists of \<open>libopkg/list.h\<close> and the lists of pointers built on them
  (\<open>void_list.c\<close>, the base of \<open>str_list\<close>, \<open>nv_pair_list\<close> and the other list types).

  The heap gives every address its two links and the data of the element that contains it; the
  node is the first member of the element, so both have the same address. A list is
  described by the sequence of its addresses: \<open>dlist h hp xs\<close> says that \<open>xs\<close> hang on the head \<open>hp\<close>.
\<close>

section \<open>The heap\<close>

type_synonym addr = nat

record 'd list_heap =
  lh_next :: "addr \<Rightarrow> addr"
  lh_prev :: "addr \<Rightarrow> addr"
  lh_data :: "addr \<Rightarrow> 'd option"
  lh_free :: addr

definition set_next :: "addr \<Rightarrow> addr \<Rightarrow> 'd list_heap \<Rightarrow> 'd list_heap" where
  "set_next a b h = h\<lparr>lh_next := (lh_next h)(a := b)\<rparr>"

definition set_prev :: "addr \<Rightarrow> addr \<Rightarrow> 'd list_heap \<Rightarrow> 'd list_heap" where
  "set_prev a b h = h\<lparr>lh_prev := (lh_prev h)(a := b)\<rparr>"

lemma heap_simps [simp]:
  "lh_next (set_next a b h) = (lh_next h)(a := b)" "lh_prev (set_next a b h) = lh_prev h"
  "lh_prev (set_prev a b h) = (lh_prev h)(a := b)" "lh_next (set_prev a b h) = lh_next h"
  "lh_data (set_next a b h) = lh_data h" "lh_data (set_prev a b h) = lh_data h"
  "lh_free (set_next a b h) = lh_free h" "lh_free (set_prev a b h) = lh_free h"
  by (simp_all add: set_next_def set_prev_def)

section \<open>\<open>list.h\<close>\<close>

definition INIT_LIST_HEAD :: "addr \<Rightarrow> 'd list_heap \<Rightarrow> 'd list_heap" where
  "INIT_LIST_HEAD p h = set_prev p p (set_next p p h)"

definition add_between :: "addr \<Rightarrow> addr \<Rightarrow> addr \<Rightarrow> 'd list_heap \<Rightarrow> 'd list_heap" where
  "add_between newitem prev next h =
     set_next prev newitem (set_prev newitem prev (set_next newitem next (set_prev next newitem h)))"

definition list_add :: "addr \<Rightarrow> addr \<Rightarrow> 'd list_heap \<Rightarrow> 'd list_heap" where
  "list_add newitem head h = add_between newitem head (lh_next h head) h"

definition list_add_tail :: "addr \<Rightarrow> addr \<Rightarrow> 'd list_heap \<Rightarrow> 'd list_heap" where
  "list_add_tail newitem head h = add_between newitem (lh_prev h head) head h"

definition del_between :: "addr \<Rightarrow> addr \<Rightarrow> 'd list_heap \<Rightarrow> 'd list_heap" where
  "del_between prev next h = set_next prev next (set_prev next prev h)"

definition list_del_init :: "addr \<Rightarrow> 'd list_heap \<Rightarrow> 'd list_heap" where
  "list_del_init entry h =
     INIT_LIST_HEAD entry (del_between (lh_prev h entry) (lh_next h entry) h)"

definition list_move :: "addr \<Rightarrow> addr \<Rightarrow> 'd list_heap \<Rightarrow> 'd list_heap" where
  "list_move l head h = list_add l head (del_between (lh_prev h l) (lh_next h l) h)"

definition list_move_tail :: "addr \<Rightarrow> addr \<Rightarrow> 'd list_heap \<Rightarrow> 'd list_heap" where
  "list_move_tail l head h = list_add_tail l head (del_between (lh_prev h l) (lh_next h l) h)"

definition list_empty :: "addr \<Rightarrow> 'd list_heap \<Rightarrow> bool" where
  "list_empty head h \<longleftrightarrow> lh_next h head = head"

definition splice_at :: "addr \<Rightarrow> addr \<Rightarrow> 'd list_heap \<Rightarrow> 'd list_heap" where
  "splice_at l head h =
     (let first = lh_next h l; last = lh_prev h l; at = lh_next h head
      in set_prev at last (set_next last at (set_next head first (set_prev first head h))))"

definition list_splice_init :: "addr \<Rightarrow> addr \<Rightarrow> 'd list_heap \<Rightarrow> 'd list_heap" where
  "list_splice_init l head h =
     (if list_empty l h then h else INIT_LIST_HEAD l (splice_at l head h))"

section \<open>Lists in the heap\<close>

fun links :: "'d list_heap \<Rightarrow> addr \<Rightarrow> addr list \<Rightarrow> addr \<Rightarrow> bool" where
  "links h a [] b \<longleftrightarrow> lh_next h a = b \<and> lh_prev h b = a"
| "links h a (x # xs) b \<longleftrightarrow> lh_next h a = x \<and> lh_prev h x = a \<and> links h x xs b"

definition dlist :: "'d list_heap \<Rightarrow> addr \<Rightarrow> addr list \<Rightarrow> bool" where
  "dlist h hp xs \<longleftrightarrow> distinct (hp # xs) \<and> links h hp xs hp"

lemma links_append: "links h a (xs @ y # ys) b \<longleftrightarrow> links h a xs y \<and> links h y ys b"
  by (induction xs arbitrary: a) auto

lemma links_first: "links h a xs b \<Longrightarrow> lh_next h a = hd (xs @ [b])"
  by (cases xs) auto

lemma links_last: "links h a xs b \<Longrightarrow> lh_prev h b = last (a # xs)"
  by (induction xs arbitrary: a) auto

text \<open>Links do not depend on the \<open>prev\<close> of the first address nor on the \<open>next\<close> of the last.\<close>

lemma links_frame:
  "links h a xs b \<Longrightarrow> (\<forall>x \<in> set (a # xs). lh_next h' x = lh_next h x) \<Longrightarrow>
     (\<forall>x \<in> set (xs @ [b]). lh_prev h' x = lh_prev h x) \<Longrightarrow> links h' a xs b"
  by (induction xs arbitrary: a) auto

lemma dlist_empty: "dlist h hp xs \<Longrightarrow> list_empty hp h \<longleftrightarrow> xs = []"
  by (cases xs) (auto simp: dlist_def list_empty_def)

lemma dlist_init: "dlist (INIT_LIST_HEAD p h) p []"
  by (simp add: dlist_def INIT_LIST_HEAD_def)

lemma dlist_frame:
  "dlist h hp xs \<Longrightarrow> (\<forall>x \<in> set (hp # xs). lh_next h' x = lh_next h x \<and> lh_prev h' x = lh_prev h x) \<Longrightarrow>
     dlist h' hp xs"
  unfolding dlist_def using links_frame [of h hp xs hp h'] by simp

lemma add_between_dlist:
  assumes "dlist h hp (xs @ ys)" "n \<notin> set (hp # xs @ ys)"
  shows "dlist (add_between n (last (hp # xs)) (hd (ys @ [hp])) h) hp (xs @ n # ys)"
proof -
  define p q where "p = last (hp # xs)" and "q = hd (ys @ [hp])"
  define h' where "h' = add_between n p q h"
  have ends: "lh_next h' p = n" "lh_prev h' n = p" "lh_next h' n = q" "lh_prev h' q = n" if "n \<noteq> p" "n \<noteq> q"
    using that by (simp_all add: h'_def add_between_def)
  have L: "links h hp xs q \<and> (ys \<noteq> [] \<longrightarrow> links h q (tl ys) hp)"
    using assms(1) by (cases ys) (auto simp: dlist_def links_append q_def)
  have d: "distinct (hp # xs @ ys)" using assms(1) by (simp add: dlist_def)
  have pq: "p \<in> set (hp # xs)" "q \<in> set (ys @ [hp])"
    by (simp_all only: p_def q_def last_in_set hd_in_set list.distinct append_is_Nil_conv simp_thms)
  have n: "n \<noteq> p" "n \<noteq> q" using assms(2) pq by auto
  have 1: "links h' hp xs n"
  proof (cases xs rule: rev_cases)
    case Nil
    then show ?thesis using ends [OF n] by (simp add: p_def)
  next
    case (snoc zs z)
    have pz: "p = z" using snoc by (simp add: p_def)
    have "links h hp zs z" using L snoc by (simp add: links_append q_def)
    then have "links h' hp zs z"
    proof (rule links_frame)
      show "\<forall>x \<in> set (hp # zs). lh_next h' x = lh_next h x"
        using d assms(2) snoc pz by (auto simp: h'_def add_between_def)
      show "\<forall>x \<in> set (zs @ [z]). lh_prev h' x = lh_prev h x"
        using d assms(2) snoc pq(2) by (auto simp: h'_def add_between_def)
    qed
    then show ?thesis using snoc ends [OF n] by (simp add: links_append p_def)
  qed
  have 2: "links h' n ys hp"
  proof (cases ys)
    case Nil
    then show ?thesis using ends [OF n] by (simp add: q_def)
  next
    case (Cons z zs)
    have qz: "q = z" using Cons by (simp add: q_def)
    have "links h z zs hp" using L Cons by (simp add: q_def)
    then have "links h' z zs hp"
    proof (rule links_frame)
      show "\<forall>x \<in> set (z # zs). lh_next h' x = lh_next h x"
        using d assms(2) Cons pq(1) by (auto simp: h'_def add_between_def)
      show "\<forall>x \<in> set (zs @ [hp]). lh_prev h' x = lh_prev h x"
        using d assms(2) Cons qz by (auto simp: h'_def add_between_def)
    qed
    then show ?thesis using Cons ends [OF n] by (simp add: q_def)
  qed
  have "distinct (hp # xs @ n # ys)" using d assms(2) by auto
  then show ?thesis unfolding dlist_def links_append p_def [symmetric] q_def [symmetric] h'_def [symmetric]
    using 1 2 by blast
qed

lemma add_between_other:
  assumes "n \<noteq> x" "p \<noteq> x" "q \<noteq> x"
  shows "lh_next (add_between n p q h) x = lh_next h x" "lh_prev (add_between n p q h) x = lh_prev h x"
  using assms by (auto simp: add_between_def)

lemma list_add_dlist:
  assumes "dlist h hp xs" "n \<notin> set (hp # xs)"
  shows "dlist (list_add n hp h) hp (n # xs)"
proof -
  have "lh_next h hp = hd (xs @ [hp])" using assms(1) links_first by (auto simp: dlist_def)
  then show ?thesis using add_between_dlist [of h hp "[]" xs n] assms by (simp add: list_add_def)
qed

lemma list_add_tail_dlist:
  assumes "dlist h hp xs" "n \<notin> set (hp # xs)"
  shows "dlist (list_add_tail n hp h) hp (xs @ [n])"
proof -
  have "lh_prev h hp = last (hp # xs)" using assms(1) links_last by (auto simp: dlist_def simp del: last.simps)
  then show ?thesis using add_between_dlist [of h hp xs "[]" n] assms
    by (simp add: list_add_tail_def del: last.simps)
qed

lemma del_between_dlist:
  assumes "dlist h hp (xs @ n # ys)"
  shows "dlist (del_between (lh_prev h n) (lh_next h n) h) hp (xs @ ys)"
proof -
  let ?p = "last (hp # xs)" and ?q = "hd (ys @ [hp])"
  let ?h' = "del_between ?p ?q h"
  have L: "links h hp xs n" "links h n ys hp" and d: "distinct (hp # xs @ n # ys)"
    using assms by (auto simp: dlist_def links_append)
  have pq: "lh_prev h n = ?p" "lh_next h n = ?q"
    using links_last [OF L(1)] links_first [OF L(2)] by auto
  have pm: "?p \<in> set (hp # xs)" by (rule last_in_set) simp
  have qm: "?q \<in> set (ys @ [hp])" by (rule hd_in_set) simp
  have *: "links ?h' hp zs z" if "links h hp zs z" "set (zs @ [z]) \<subseteq> set xs" "z = last (hp # xs)"
      "distinct (hp # zs @ [z])" for zs z
    using that(1)
  proof (rule links_frame)
    show "\<forall>x \<in> set (hp # zs). lh_next ?h' x = lh_next h x"
      using d that by (auto simp: del_between_def)
    show "\<forall>x \<in> set (zs @ [z]). lh_prev ?h' x = lh_prev h x"
      using d that qm by (auto simp: del_between_def)
  qed
  have xs: "links ?h' hp xs ?q"
  proof (cases xs rule: rev_cases)
    case Nil
    then show ?thesis by (simp add: del_between_def)
  next
    case (snoc zs z)
    then have "links ?h' hp zs z" using L(1) d by (intro *) (auto simp: links_append)
    then show ?thesis using snoc by (simp add: links_append) (simp add: del_between_def)
  qed
  show ?thesis
  proof (cases ys)
    case Nil
    then show ?thesis using xs pq d by (simp add: dlist_def)
  next
    case (Cons z zs)
    have "links h z zs hp" using L(2) Cons by simp
    then have "links ?h' z zs hp"
    proof (rule links_frame)
      show "\<forall>x \<in> set (z # zs). lh_next ?h' x = lh_next h x"
        using d pm Cons by (auto simp: del_between_def)
      show "\<forall>x \<in> set (zs @ [hp]). lh_prev ?h' x = lh_prev h x"
        using d Cons by (auto simp: del_between_def)
    qed
    then show ?thesis using xs pq d Cons by (simp add: dlist_def links_append)
  qed
qed

lemma list_del_init_dlist:
  assumes "dlist h hp (xs @ n # ys)"
  shows "dlist (list_del_init n h) hp (xs @ ys)" and "dlist (list_del_init n h) n []"
proof -
  have "n \<notin> set (hp # xs @ ys)" using assms by (auto simp: dlist_def)
  then show "dlist (list_del_init n h) hp (xs @ ys)"
    using del_between_dlist [OF assms] unfolding list_del_init_def
    by (rule_tac dlist_frame) (auto simp: INIT_LIST_HEAD_def)
  show "dlist (list_del_init n h) n []" by (simp add: list_del_init_def dlist_init)
qed

lemma dlist_mem_links:
  assumes "dlist h hp (xs @ n # ys)"
  shows "lh_prev h n = last (hp # xs)" "lh_next h n = hd (ys @ [hp])"
  using assms links_last [of h hp xs n] links_first [of h n ys hp]
  by (auto simp: dlist_def links_append simp del: last.simps)

section \<open>\<open>void_list\<close>\<close>

definition void_list_elt_init :: "addr \<Rightarrow> 'd option \<Rightarrow> 'd list_heap \<Rightarrow> 'd list_heap" where
  "void_list_elt_init elt d h = (INIT_LIST_HEAD elt h)\<lparr>lh_data := (lh_data h)(elt := d)\<rparr>"

definition void_list_elt_new :: "'d option \<Rightarrow> 'd list_heap \<Rightarrow> addr \<times> 'd list_heap" where
  "void_list_elt_new d h =
     (let elt = lh_free h in (elt, void_list_elt_init elt d (h\<lparr>lh_free := elt + 1\<rparr>)))"

text \<open>Memory that is freed is not used again.\<close>

definition void_list_elt_deinit :: "addr \<Rightarrow> 'd list_heap \<Rightarrow> 'd list_heap" where
  "void_list_elt_deinit elt h = void_list_elt_init elt None (list_del_init elt h)"

definition void_list_init :: "addr \<Rightarrow> 'd list_heap \<Rightarrow> 'd list_heap" where
  "void_list_init l h = INIT_LIST_HEAD l h"

definition void_list_append :: "addr \<Rightarrow> 'd \<Rightarrow> 'd list_heap \<Rightarrow> 'd list_heap" where
  "void_list_append l d h = (case void_list_elt_new (Some d) h of (elt, h') \<Rightarrow> list_add_tail elt l h')"

definition void_list_push :: "addr \<Rightarrow> 'd \<Rightarrow> 'd list_heap \<Rightarrow> 'd list_heap" where
  "void_list_push l d h = (case void_list_elt_new (Some d) h of (elt, h') \<Rightarrow> list_add elt l h')"

definition void_list_pop :: "addr \<Rightarrow> 'd list_heap \<Rightarrow> addr option \<times> 'd list_heap" where
  "void_list_pop l h =
     (if list_empty l h then (None, h)
      else let node = lh_next h l in (Some node, list_del_init node h))"

text \<open>The loop of \<open>void_list_deinit\<close>; it has no result when the list never becomes empty.\<close>

partial_function (option) void_list_deinit_loop :: "addr \<Rightarrow> 'd list_heap \<Rightarrow> 'd list_heap option" where
  "void_list_deinit_loop l h =
     (if list_empty l h then Some h
      else case void_list_pop l h of
        (Some elt, h') \<Rightarrow> void_list_deinit_loop l (void_list_elt_deinit elt h')
      | (None, h') \<Rightarrow> Some h')"

definition void_list_deinit :: "addr \<Rightarrow> 'd list_heap \<Rightarrow> 'd list_heap option" where
  "void_list_deinit l h = map_option (INIT_LIST_HEAD l) (void_list_deinit_loop l h)"

text \<open>
  \<open>list_for_each_entry_safe\<close> up to the first element that satisfies a test: the position where
  the loop ends, which is the head when there is none.
\<close>

partial_function (option) find_entry :: "(addr \<Rightarrow> bool) \<Rightarrow> addr \<Rightarrow> addr \<Rightarrow> 'd list_heap \<Rightarrow> addr option" where
  "find_entry P l pos h =
     (if pos = l \<or> P pos then Some pos else find_entry P l (lh_next h pos) h)"

text \<open>The iterator is NULL or an element; afterwards it is the element before.\<close>

definition void_list_remove ::
  "addr \<Rightarrow> addr option \<Rightarrow> 'd list_heap \<Rightarrow> ('d option \<times> addr option \<times> 'd list_heap) option" where
  "void_list_remove l iter h =
     (case iter of
        None \<Rightarrow> Some (None, None, h)
      | Some old_elt \<Rightarrow>
          (case find_entry (\<lambda>pos. pos = old_elt) l (lh_next h l) h of
             None \<Rightarrow> None
           | Some pos \<Rightarrow>
               if pos \<noteq> old_elt then Some (None, iter, h)
               else Some (lh_data h old_elt, Some (lh_prev h pos), void_list_elt_deinit pos h)))"

definition void_list_remove_elt ::
  "addr \<Rightarrow> ('d \<Rightarrow> bool) \<Rightarrow> 'd list_heap \<Rightarrow> ('d option \<times> 'd list_heap) option" where
  "void_list_remove_elt l same h =
     (case find_entry (\<lambda>pos. case lh_data h pos of Some d \<Rightarrow> same d | None \<Rightarrow> False) l (lh_next h l) h of
        None \<Rightarrow> None
      | Some pos \<Rightarrow>
          if pos = l then Some (None, h) else Some (lh_data h pos, void_list_elt_deinit pos h))"

definition elt_or_null :: "addr \<Rightarrow> addr \<Rightarrow> addr option" where
  "elt_or_null l elt = (if elt = l then None else Some elt)"

definition void_list_first :: "addr \<Rightarrow> 'd list_heap \<Rightarrow> addr option" where
  "void_list_first l h = elt_or_null l (lh_next h l)"

definition void_list_last :: "addr \<Rightarrow> 'd list_heap \<Rightarrow> addr option" where
  "void_list_last l h = elt_or_null l (lh_prev h l)"

definition void_list_next :: "addr \<Rightarrow> addr option \<Rightarrow> 'd list_heap \<Rightarrow> addr option" where
  "void_list_next l node h = (case node of None \<Rightarrow> None | Some n \<Rightarrow> elt_or_null l (lh_next h n))"

definition void_list_prev :: "addr \<Rightarrow> addr option \<Rightarrow> 'd list_heap \<Rightarrow> addr option" where
  "void_list_prev l node h = (case node of None \<Rightarrow> None | Some n \<Rightarrow> elt_or_null l (lh_prev h n))"

section \<open>What the operations do to the sequence of data\<close>

definition vlist :: "'d list_heap \<Rightarrow> addr \<Rightarrow> addr list \<Rightarrow> bool" where
  "vlist h l es \<longleftrightarrow> dlist h l es \<and> (\<forall>a \<in> set (l # es). a < lh_free h)"

definition vrep :: "'d list_heap \<Rightarrow> addr \<Rightarrow> 'd list \<Rightarrow> bool" where
  "vrep h l ds \<longleftrightarrow> (\<exists>es. vlist h l es \<and> map (lh_data h) es = map Some ds)"

lemma INIT_simps [simp]:
  "lh_data (INIT_LIST_HEAD p h) = lh_data h" "lh_free (INIT_LIST_HEAD p h) = lh_free h"
  "lh_data (add_between n p q h) = lh_data h" "lh_free (add_between n p q h) = lh_free h"
  "lh_data (del_between p q h) = lh_data h" "lh_free (del_between p q h) = lh_free h"
  by (simp_all add: INIT_LIST_HEAD_def add_between_def del_between_def)

lemma list_op_data [simp]:
  "lh_data (list_add n p h) = lh_data h" "lh_free (list_add n p h) = lh_free h"
  "lh_data (list_add_tail n p h) = lh_data h" "lh_free (list_add_tail n p h) = lh_free h"
  "lh_data (list_del_init n h) = lh_data h" "lh_free (list_del_init n h) = lh_free h"
  by (simp_all add: list_add_def list_add_tail_def list_del_init_def)

text \<open>A new element is outside of every list and leaves them alone.\<close>

lemma elt_new:
  assumes "vlist h l es" "void_list_elt_new d h = (elt, h')"
  shows "elt \<notin> set (l # es)" "dlist h' l es" "lh_data h' elt = d" "map (lh_data h') es = map (lh_data h) es"
    "\<forall>a \<in> set (elt # l # es). a < lh_free h'"
proof -
  have e: "elt = lh_free h" using assms(2) by (simp add: void_list_elt_new_def Let_def)
  have lt: "\<forall>a \<in> set (l # es). a < elt" using assms(1) e by (simp add: vlist_def)
  then show "elt \<notin> set (l # es)" by auto
  have h': "h' = void_list_elt_init elt d (h\<lparr>lh_free := elt + 1\<rparr>)"
    using assms(2) by (simp add: void_list_elt_new_def Let_def e)
  show "dlist h' l es"
    by (rule dlist_frame [of h]) (use assms(1) lt in \<open>auto simp: vlist_def h' void_list_elt_init_def INIT_LIST_HEAD_def\<close>)
  show "lh_data h' elt = d" "map (lh_data h') es = map (lh_data h) es"
    using lt by (auto simp: h' void_list_elt_init_def)
  have "lh_free h' = elt + 1" by (simp add: h' void_list_elt_init_def)
  then show "\<forall>a \<in> set (elt # l # es). a < lh_free h'" using lt by auto
qed

lemma void_list_append_rep: "vrep h l ds \<Longrightarrow> vrep (void_list_append l d h) l (ds @ [d])"
proof -
  assume "vrep h l ds"
  then obtain es where es: "vlist h l es" "map (lh_data h) es = map Some ds" by (auto simp: vrep_def)
  obtain elt h' where n: "void_list_elt_new (Some d) h = (elt, h')" by (cases "void_list_elt_new (Some d) h")
  note N = elt_new [OF es(1) n]
  have "vlist (list_add_tail elt l h') l (es @ [elt])"
    using list_add_tail_dlist [OF N(2,1)] N(5) by (simp add: vlist_def)
  then show ?thesis unfolding vrep_def void_list_append_def n
    by (intro exI [of _ "es @ [elt]"]) (use N(3,4) es(2) in simp)
qed

lemma void_list_push_rep: "vrep h l ds \<Longrightarrow> vrep (void_list_push l d h) l (d # ds)"
proof -
  assume "vrep h l ds"
  then obtain es where es: "vlist h l es" "map (lh_data h) es = map Some ds" by (auto simp: vrep_def)
  obtain elt h' where n: "void_list_elt_new (Some d) h = (elt, h')" by (cases "void_list_elt_new (Some d) h")
  note N = elt_new [OF es(1) n]
  have "vlist (list_add elt l h') l (elt # es)"
    using list_add_dlist [OF N(2,1)] N(5) by (simp add: vlist_def)
  then show ?thesis unfolding vrep_def void_list_push_def n
    by (intro exI [of _ "elt # es"]) (use N(3,4) es(2) in simp)
qed

lemma void_list_init_rep: "l < lh_free h \<Longrightarrow> vrep (void_list_init l h) l []"
  by (auto simp: vrep_def vlist_def void_list_init_def dlist_init)

lemma vrep_empty: "vrep h l ds \<Longrightarrow> list_empty l h \<longleftrightarrow> ds = []"
  by (auto simp: vrep_def vlist_def dlist_empty)

text \<open>Unlinking an element.\<close>

lemma del_vlist:
  assumes "vlist h l (xs @ n # ys)"
  shows "vlist (list_del_init n h) l (xs @ ys)"
  using assms list_del_init_dlist(1) [of h l xs n ys] by (auto simp: vlist_def)

lemma elt_deinit_vlist:
  assumes "vlist h l (xs @ n # ys)"
  shows "vlist (void_list_elt_deinit n h) l (xs @ ys)"
    "map (lh_data (void_list_elt_deinit n h)) (xs @ ys) = map (lh_data h) (xs @ ys)"
proof -
  have n: "n \<notin> set (l # xs @ ys)" using assms by (auto simp: vlist_def dlist_def)
  have "dlist (void_list_elt_deinit n h) l (xs @ ys)"
    by (rule dlist_frame [of "list_del_init n h"]) (use del_vlist [OF assms] n in
        \<open>auto simp: vlist_def void_list_elt_deinit_def void_list_elt_init_def INIT_LIST_HEAD_def\<close>)
  then show "vlist (void_list_elt_deinit n h) l (xs @ ys)"
    using assms by (auto simp: vlist_def void_list_elt_deinit_def void_list_elt_init_def)
  show "map (lh_data (void_list_elt_deinit n h)) (xs @ ys) = map (lh_data h) (xs @ ys)"
    using n by (auto simp: void_list_elt_deinit_def void_list_elt_init_def)
qed

lemma void_list_pop_rep:
  assumes "vrep h l (d # ds)"
  shows "\<exists>elt h'. void_list_pop l h = (Some elt, h') \<and> lh_data h' elt = Some d \<and> vrep h' l ds \<and>
    elt < lh_free h' \<and> dlist h' elt []"
proof -
  obtain e es where es: "vlist h l (e # es)" "lh_data h e = Some d" "map (lh_data h) es = map Some ds"
    using assms by (auto simp: vrep_def)
  have ne: "\<not> list_empty l h" and nx: "lh_next h l = e"
    using es(1) by (auto simp: vlist_def dlist_def list_empty_def)
  have "vlist (list_del_init e h) l es" using del_vlist [of h l "[]" e es] es(1) by simp
  then have "vrep (list_del_init e h) l ds" using es(3) by (auto simp: vrep_def)
  moreover have "dlist (list_del_init e h) e []"
    using list_del_init_dlist(2) [of h l "[]" e es] es(1) by (simp add: vlist_def)
  ultimately show ?thesis using ne nx es by (auto simp: void_list_pop_def Let_def vlist_def)
qed

lemma deinit_popped:
  assumes "vlist h l es" "e \<notin> set (l # es)" "dlist h e []" "e < lh_free h"
  shows "vlist (void_list_elt_deinit e h) l es"
    "map (lh_data (void_list_elt_deinit e h)) es = map (lh_data h) es"
proof -
  have "lh_prev h e = e" "lh_next h e = e" using assms(3) by (auto simp: dlist_def)
  then have f: "lh_next (void_list_elt_deinit e h) x = lh_next h x"
      "lh_prev (void_list_elt_deinit e h) x = lh_prev h x" if "x \<noteq> e" for x
    using that by (auto simp: void_list_elt_deinit_def void_list_elt_init_def list_del_init_def
        INIT_LIST_HEAD_def del_between_def)
  have "dlist (void_list_elt_deinit e h) l es"
  proof (rule dlist_frame [of h])
    show "\<forall>x \<in> set (l # es). lh_next (void_list_elt_deinit e h) x = lh_next h x \<and>
        lh_prev (void_list_elt_deinit e h) x = lh_prev h x"
      using assms(2) f by (metis)
  qed (use assms(1) in \<open>simp add: vlist_def\<close>)
  then show "vlist (void_list_elt_deinit e h) l es"
    using assms(1) by (auto simp: vlist_def void_list_elt_deinit_def void_list_elt_init_def)
  show "map (lh_data (void_list_elt_deinit e h)) es = map (lh_data h) es"
    using assms(2) by (auto simp: void_list_elt_deinit_def void_list_elt_init_def)
qed

lemma deinit_loop_empty: "list_empty l h \<Longrightarrow> void_list_deinit_loop l h = Some h"
  by (subst void_list_deinit_loop.simps) simp

lemma void_list_deinit_rep:
  assumes "vrep h l ds"
  shows "\<exists>h'. void_list_deinit l h = Some h' \<and> vrep h' l []"
proof -
  have "\<exists>h'. void_list_deinit_loop l h = Some h' \<and> l < lh_free h'" if "vlist h l es" for es
    using that
  proof (induction es arbitrary: h)
    case Nil
    then have "list_empty l h" using dlist_empty [of h l "[]"] by (simp add: vlist_def)
    then show ?case using Nil by (simp add: deinit_loop_empty vlist_def)
  next
    case (Cons e es)
    have ne: "\<not> list_empty l h" and nx: "lh_next h l = e"
      using Cons.prems by (auto simp: vlist_def dlist_def list_empty_def)
    let ?h = "list_del_init e h"
    have v: "vlist ?h l es" using del_vlist [of h l "[]" e es] Cons.prems by simp
    have "dlist ?h e []" using list_del_init_dlist(2) [of h l "[]" e es] Cons.prems by (simp add: vlist_def)
    then have "vlist (void_list_elt_deinit e ?h) l es"
      using Cons.prems by (intro deinit_popped(1) [OF v]) (auto simp: vlist_def dlist_def)
    then obtain h' where "void_list_deinit_loop l (void_list_elt_deinit e ?h) = Some h'" "l < lh_free h'"
      using Cons.IH by blast
    then show ?case using ne nx by (subst void_list_deinit_loop.simps) (simp add: void_list_pop_def Let_def)
  qed
  then obtain h' where "void_list_deinit_loop l h = Some h'" "l < lh_free h'"
    using assms by (auto simp: vrep_def)
  then show ?thesis using void_list_init_rep [of l h'] by (simp add: void_list_deinit_def void_list_init_def)
qed

text \<open>The search loop over a list.\<close>

lemma find_entry_stop: "pos = l \<or> P pos \<Longrightarrow> find_entry P l pos h = Some pos"
  by (subst find_entry.simps) simp

lemma find_entry_links:
  assumes "links h x es l" "x \<noteq> l" "l \<notin> set es"
  shows "find_entry P l x h = Some (case find P (x # es) of None \<Rightarrow> l | Some a \<Rightarrow> a)"
  using assms
proof (induction es arbitrary: x)
  case Nil
  then show ?case by (subst find_entry.simps) (simp add: find_entry_stop)
next
  case (Cons e es)
  have e: "lh_next h x = e" "links h e es l" "e \<noteq> l" using Cons.prems by auto
  have "find_entry P l e h = Some (case find P (e # es) of None \<Rightarrow> l | Some a \<Rightarrow> a)"
    using Cons.prems e by (intro Cons.IH) auto
  then show ?case using e Cons.prems by (subst find_entry.simps) simp
qed

lemma find_entry_list:
  assumes "dlist h l es"
  shows "find_entry P l (lh_next h l) h = Some (case find P es of None \<Rightarrow> l | Some a \<Rightarrow> a)"
proof (cases es)
  case Nil
  then show ?thesis using assms by (simp add: dlist_def find_entry_stop)
next
  case (Cons e es')
  then have "lh_next h l = e" "links h e es' l" "e \<noteq> l" "l \<notin> set es'"
    using assms by (auto simp: dlist_def)
  then show ?thesis using find_entry_links [of h e es' l P] Cons by simp
qed

text \<open>Removing the first datum that satisfies a test.\<close>

fun remove_first :: "('d \<Rightarrow> bool) \<Rightarrow> 'd list \<Rightarrow> 'd list" where
  "remove_first P [] = []"
| "remove_first P (d # ds) = (if P d then ds else d # remove_first P ds)"

lemma remove_first_split:
  "find P ds = Some d \<Longrightarrow> \<exists>us vs. ds = us @ d # vs \<and> remove_first P ds = us @ vs \<and> P d \<and> \<not> list_ex P us"
proof (induction ds)
  case (Cons x xs)
  show ?case
  proof (cases "P x")
    case True
    then have "x = d" using Cons.prems by simp
    then have "x # xs = [] @ d # xs \<and> remove_first P (x # xs) = [] @ xs \<and> P d \<and> \<not> list_ex P []"
      using True by simp
    then show ?thesis by blast
  next
    case False
    then obtain us vs where "xs = us @ d # vs" "remove_first P xs = us @ vs" "P d" "\<not> list_ex P us"
      using Cons by auto
    then have "x # xs = (x # us) @ d # vs \<and> remove_first P (x # xs) = (x # us) @ vs \<and> P d \<and> \<not> list_ex P (x # us)"
      using False by simp
    then show ?thesis by blast
  qed
qed simp

lemma find_data:
  assumes "map (lh_data h) es = map Some ds"
  shows "(case find (\<lambda>pos. case lh_data h pos of Some d \<Rightarrow> P d | None \<Rightarrow> False) es of
      None \<Rightarrow> find P ds = None
    | Some a \<Rightarrow> \<exists>d xs ys us vs. find P ds = Some d \<and> es = xs @ a # ys \<and> ds = us @ d # vs \<and>
        remove_first P ds = us @ vs \<and> lh_data h a = Some d \<and>
        map (lh_data h) xs = map Some us \<and> map (lh_data h) ys = map Some vs)"
  using assms
proof (induction es arbitrary: ds)
  case (Cons e es)
  then obtain d ds' where ds: "ds = d # ds'" "lh_data h e = Some d" "map (lh_data h) es = map Some ds'"
    by (cases ds) auto
  show ?case
  proof (cases "P d")
    case True
    have "find P ds = Some d \<and> e # es = [] @ e # es \<and> ds = [] @ d # ds' \<and> remove_first P ds = [] @ ds' \<and>
        lh_data h e = Some d \<and> map (lh_data h) [] = map Some [] \<and> map (lh_data h) es = map Some ds'"
      using True ds by simp
    then show ?thesis using True ds by (simp, blast)
  next
    case False
    let ?P = "\<lambda>pos. case lh_data h pos of Some d \<Rightarrow> P d | None \<Rightarrow> False"
    show ?thesis
    proof (cases "find ?P es")
      case None
      then show ?thesis using Cons.IH [OF ds(3)] False ds by simp
    next
      case (Some a)
      then obtain d' xs ys us vs where *: "find P ds' = Some d'" "es = xs @ a # ys" "ds' = us @ d' # vs"
        "remove_first P ds' = us @ vs" "lh_data h a = Some d'" "map (lh_data h) xs = map Some us"
        "map (lh_data h) ys = map Some vs"
        using Cons.IH [OF ds(3)] by auto
      have "find P ds = Some d' \<and> e # es = (e # xs) @ a # ys \<and> ds = (d # us) @ d' # vs \<and>
          remove_first P ds = (d # us) @ vs \<and> lh_data h a = Some d' \<and>
          map (lh_data h) (e # xs) = map Some (d # us) \<and> map (lh_data h) ys = map Some vs"
        using False ds * by simp
      moreover have "find ?P (e # es) = Some a" using Some False ds by simp
      ultimately show ?thesis by (simp only: option.case) blast
    qed
  qed
qed simp

lemma void_list_remove_elt_rep:
  assumes "vrep h l ds"
  shows "\<exists>h'. void_list_remove_elt l P h = Some (find P ds, h') \<and> vrep h' l (remove_first P ds)"
proof -
  obtain es where es: "vlist h l es" "map (lh_data h) es = map Some ds" using assms by (auto simp: vrep_def)
  let ?P = "\<lambda>pos. case lh_data h pos of Some d \<Rightarrow> P d | None \<Rightarrow> False"
  have fe: "find_entry ?P l (lh_next h l) h = Some (case find ?P es of None \<Rightarrow> l | Some a \<Rightarrow> a)"
    using es(1) by (intro find_entry_list) (simp add: vlist_def)
  show ?thesis
  proof (cases "find ?P es")
    case None
    then have n: "find P ds = None" using find_data [OF es(2), of P] by simp
    then have "remove_first P ds = ds" by (induction ds) (auto split: if_splits)
    then show ?thesis using n assms fe None by (simp add: void_list_remove_elt_def)
  next
    case (Some a)
    then obtain d xs ys us vs where *: "find P ds = Some d" "es = xs @ a # ys" "remove_first P ds = us @ vs"
        "lh_data h a = Some d" "map (lh_data h) xs = map Some us" "map (lh_data h) ys = map Some vs"
      using find_data [OF es(2), of P] by auto
    have "a \<noteq> l" using es(1) *(2) by (auto simp: vlist_def dlist_def)
    moreover have "vrep (void_list_elt_deinit a h) l (us @ vs)"
      unfolding vrep_def using elt_deinit_vlist [of h l xs a ys] es(1) *(2,5,6)
      by (intro exI [of _ "xs @ ys"]) simp
    ultimately show ?thesis using fe Some * by (simp add: void_list_remove_elt_def)
  qed
qed

text \<open>Removal through an iterator: the element goes, the iterator steps back to its predecessor.\<close>

lemma find_eq: "find (\<lambda>x. x = a) es = (if a \<in> set es then Some a else None)"
  by (induction es) auto

lemma void_list_remove_spec:
  assumes "vlist h l (xs @ a # ys)"
  shows "\<exists>h'. void_list_remove l (Some a) h = Some (lh_data h a, Some (last (l # xs)), h') \<and>
    vlist h' l (xs @ ys) \<and> map (lh_data h') (xs @ ys) = map (lh_data h) (xs @ ys)"
proof -
  have d: "dlist h l (xs @ a # ys)" using assms by (simp add: vlist_def)
  have "find_entry (\<lambda>pos. pos = a) l (lh_next h l) h = Some a"
    using find_entry_list [OF d, of "\<lambda>pos. pos = a"] by (simp add: find_eq)
  moreover have "lh_prev h a = last (l # xs)" using dlist_mem_links(1) [OF d] .
  ultimately show ?thesis using elt_deinit_vlist [OF assms]
    by (simp add: void_list_remove_def del: last.simps)
qed

text \<open>Walking from the first element with \<open>void_list_next\<close>, as the callers' loops do.\<close>

partial_function (option) walk :: "addr \<Rightarrow> addr option \<Rightarrow> 'd list_heap \<Rightarrow> 'd option list option" where
  "walk l iter h =
     (case iter of
        None \<Rightarrow> Some []
      | Some a \<Rightarrow>
          Option.bind (walk l (void_list_next l (Some a) h) h) (\<lambda>ds. Some (lh_data h a # ds)))"

lemma walk_links:
  assumes "links h a es l" "a \<noteq> l" "l \<notin> set es"
  shows "walk l (Some a) h = Some (map (lh_data h) (a # es))"
  using assms
proof (induction es arbitrary: a)
  case Nil
  have "walk l None h = Some []" by (subst walk.simps) simp
  then show ?case using Nil by (subst walk.simps) (simp add: void_list_next_def elt_or_null_def)
next
  case (Cons e es)
  then have "walk l (Some e) h = Some (map (lh_data h) (e # es))" by (intro Cons.IH) auto
  then show ?case using Cons.prems by (subst walk.simps) (auto simp: void_list_next_def elt_or_null_def)
qed

lemma walk_list:
  assumes "vrep h l ds"
  shows "walk l (void_list_first l h) h = Some (map Some ds)"
proof -
  obtain es where es: "dlist h l es" "map (lh_data h) es = map Some ds"
    using assms by (auto simp: vrep_def vlist_def)
  show ?thesis
  proof (cases es)
    case Nil
    then have "void_list_first l h = None" using es by (simp add: dlist_def void_list_first_def elt_or_null_def)
    moreover have "walk l None h = Some []" by (subst walk.simps) simp
    ultimately show ?thesis using Nil es by simp
  next
    case (Cons e es')
    then have "void_list_first l h = Some e" "links h e es' l" "e \<noteq> l" "l \<notin> set es'"
      using es by (auto simp: dlist_def void_list_first_def elt_or_null_def)
    then show ?thesis using walk_links [of h e es' l] Cons es(2) by simp
  qed
qed

section \<open>The interface of a list\<close>

locale sequence_store =
  fixes rep :: "'h \<Rightarrow> 'd list \<Rightarrow> bool"
    and append :: "'d \<Rightarrow> 'h \<Rightarrow> 'h"
    and push :: "'d \<Rightarrow> 'h \<Rightarrow> 'h"
    and contents :: "'h \<Rightarrow> 'd list"
  assumes append_rep: "rep h ds \<Longrightarrow> rep (append d h) (ds @ [d])"
    and push_rep: "rep h ds \<Longrightarrow> rep (push d h) (d # ds)"
    and contents_rep: "rep h ds \<Longrightarrow> contents h = ds"
begin

lemma append_all: "rep h ds \<Longrightarrow> rep (fold append xs h) (ds @ xs)"
proof (induction xs arbitrary: h ds)
  case (Cons x xs)
  then show ?case using Cons.IH [OF append_rep [OF Cons.prems, of x]] by simp
qed simp

lemma push_all: "rep h ds \<Longrightarrow> rep (fold push xs h) (rev xs @ ds)"
proof (induction xs arbitrary: h ds)
  case (Cons x xs)
  then show ?case using Cons.IH [OF push_rep [OF Cons.prems, of x]] by simp
qed simp

lemma contents_append_all: "rep h ds \<Longrightarrow> contents (fold append xs h) = contents h @ xs"
  using append_all contents_rep by metis

lemma rep_unique: "rep h ds \<Longrightarrow> rep h es \<Longrightarrow> ds = es"
  using contents_rep by metis

end

definition vcontents :: "addr \<times> 'd list_heap \<Rightarrow> 'd list" where
  "vcontents s = (case s of (l, h) \<Rightarrow> map the (the (walk l (void_list_first l h) h)))"

interpretation vl: sequence_store "\<lambda>(l, h) ds. vrep h l ds" "\<lambda>d (l, h). (l, void_list_append l d h)"
  "\<lambda>d (l, h). (l, void_list_push l d h)" vcontents
  by unfold_locales (auto simp: void_list_append_rep void_list_push_rep vcontents_def walk_list comp_def)

text \<open>\<open>nv_pair_list_find\<close> of \<open>nv_pair_list.c\<close>, on a list of names and values.\<close>

definition nv_pair_list_find :: "addr \<Rightarrow> string \<Rightarrow> (string \<times> 'v) list_heap \<Rightarrow> 'v option option" where
  "nv_pair_list_find l name h =
     (case find_entry (\<lambda>pos. case lh_data h pos of Some nv \<Rightarrow> strcmp (fst nv) name = 0 | None \<Rightarrow> False)
             l (lh_next h l) h of
        None \<Rightarrow> None
      | Some pos \<Rightarrow> Some (if pos = l then None else map_option snd (lh_data h pos)))"

lemma nv_pair_list_find_rep:
  fixes nvs :: "(string \<times> 'b) list"
  assumes "vrep h l nvs"
  shows "nv_pair_list_find l name h = Some (map_of nvs name)"
proof -
  obtain es where es: "vlist h l es" "map (lh_data h) es = map Some nvs" using assms by (auto simp: vrep_def)
  let ?N = "\<lambda>nv :: string \<times> 'b. strcmp (fst nv) name = 0"
  let ?P = "\<lambda>pos. case lh_data h pos of Some d \<Rightarrow> ?N d | None \<Rightarrow> False"
  have m: "map_of nvs name = map_option snd (find ?N nvs)"
    by (induction nvs) (auto simp: strcmp_eq_0)
  have fe: "find_entry ?P l (lh_next h l) h = Some (case find ?P es of None \<Rightarrow> l | Some a \<Rightarrow> a)"
    using es(1) by (intro find_entry_list) (simp add: vlist_def)
  show ?thesis
  proof (cases "find ?P es")
    case None
    have "find ?N nvs = None" using find_data [OF es(2), of ?N] unfolding None by simp
    then have "map_of nvs name = None" by (simp only: m option.map)
    then show ?thesis by (simp add: nv_pair_list_find_def fe None)
  next
    case (Some a)
    then obtain d xs ys where "find ?N nvs = Some d" "es = xs @ a # ys" "lh_data h a = Some d"
      using find_data [OF es(2), of ?N] by auto
    moreover from this have "a \<noteq> l" using es(1) by (auto simp: vlist_def dlist_def)
    ultimately show ?thesis using fe m Some by (simp add: nv_pair_list_find_def)
  qed
qed

section \<open>Properties\<close>

text \<open>(C9) The pointer operations of a \<open>void_list\<close> implement a sequence: appending, pushing, popping the
  first element, removing the first element a comparison accepts (and returning its datum, or NULL)
  and releasing the list, which terminates and leaves it empty.\<close>

theorem void_list_refines_sequence:
  assumes "vrep h l ds"
  shows "vrep (void_list_append l d h) l (ds @ [d]) \<and> vrep (void_list_push l d h) l (d # ds) \<and>
    (case ds of [] \<Rightarrow> void_list_pop l h = (None, h)
     | x # xs \<Rightarrow> \<exists>elt h'. void_list_pop l h = (Some elt, h') \<and> lh_data h' elt = Some x \<and> vrep h' l xs) \<and>
    (\<exists>h'. void_list_remove_elt l P h = Some (find P ds, h') \<and> vrep h' l (remove_first P ds)) \<and>
    (\<exists>h'. void_list_deinit l h = Some h' \<and> vrep h' l [])"
proof -
  have "case ds of [] \<Rightarrow> void_list_pop l h = (None, h)
     | x # xs \<Rightarrow> \<exists>elt h'. void_list_pop l h = (Some elt, h') \<and> lh_data h' elt = Some x \<and> vrep h' l xs"
  proof (cases ds)
    case Nil
    then have "list_empty l h" using vrep_empty [OF assms] by simp
    then show ?thesis using Nil by (simp add: void_list_pop_def)
  next
    case (Cons x xs)
    show ?thesis using void_list_pop_rep [of h l x xs] assms unfolding Cons list.case by blast
  qed
  then show ?thesis
    using void_list_append_rep [OF assms, of d] void_list_push_rep [OF assms, of d]
      void_list_remove_elt_rep [OF assms, of P] void_list_deinit_rep [OF assms]
    by (intro conjI)
qed

definition blank_heap :: "'d list_heap" where
  "blank_heap = \<lparr>lh_next = \<lambda>a. 0, lh_prev = \<lambda>a. 0, lh_data = \<lambda>a. None, lh_free = 1\<rparr>"

lemma example_list: "vrep (void_list_append 0 ''b'' (void_list_push 0 ''a'' (void_list_init 0 blank_heap))) 0 [''a'', ''b'']"
  using void_list_append_rep [OF void_list_push_rep [OF void_list_init_rep [of 0 blank_heap]], of "''b''" "''a''"]
  by (simp add: blank_heap_def)

theorem void_list_refines_sequence_witness:
  "\<exists>h'. void_list_remove_elt 0 (\<lambda>s. s = ''b'')
      (void_list_append 0 ''b'' (void_list_push 0 ''a'' (void_list_init 0 blank_heap))) = Some (Some ''b'', h') \<and>
     vrep h' 0 [''a'']"
  using void_list_refines_sequence [OF example_list, of "[]" "\<lambda>s. s = ''b''"] by simp

text \<open>(C10) A loop over a list, \<open>void_list_first\<close> and then \<open>void_list_next\<close> until NULL, terminates and
  sees the data in order; and an element may be removed through the iterator inside such a
  loop: its datum is returned, and the next step continues with the element behind it.\<close>

theorem void_list_iteration:
  assumes "vlist h l (xs @ a # ys)" "\<forall>e \<in> set (xs @ a # ys). lh_data h e \<noteq> None"
  shows "walk l (void_list_first l h) h = Some (map (lh_data h) (xs @ a # ys)) \<and>
    (\<exists>iter h'. void_list_remove l (Some a) h = Some (lh_data h a, iter, h') \<and>
       void_list_next l iter h' = (case ys of [] \<Rightarrow> None | y # _ \<Rightarrow> Some y) \<and> vlist h' l (xs @ ys))"
proof -
  have m: "map (lh_data h) (xs @ a # ys) = map Some (map (the \<circ> lh_data h) (xs @ a # ys))"
    unfolding map_map by (intro map_cong refl) (metis assms(2) comp_apply option.collapse)
  then have r: "vrep h l (map (the \<circ> lh_data h) (xs @ a # ys))"
    unfolding vrep_def using assms(1) by blast
  obtain h' where h': "void_list_remove l (Some a) h = Some (lh_data h a, Some (last (l # xs)), h')"
      "vlist h' l (xs @ ys)" using void_list_remove_spec [OF assms(1)] by blast
  have "lh_next h' (last (l # xs)) = hd (ys @ [l])"
  proof (cases xs rule: rev_cases)
    case Nil
    then show ?thesis using h'(2) links_first [of h' l ys l] by (simp add: vlist_def dlist_def)
  next
    case (snoc zs z)
    then show ?thesis using h'(2) links_first [of h' z ys l] by (simp add: vlist_def dlist_def links_append)
  qed
  moreover have "\<And>y zs. ys = y # zs \<Longrightarrow> y \<noteq> l" using assms(1) by (auto simp: vlist_def dlist_def)
  ultimately have "void_list_next l (Some (last (l # xs))) h' = (case ys of [] \<Rightarrow> None | y # _ \<Rightarrow> Some y)"
    by (cases ys) (simp_all add: void_list_next_def elt_or_null_def del: last.simps)
  then show ?thesis using walk_list [OF r] h' unfolding m [symmetric] by blast
qed

theorem void_list_iteration_witness:
  "\<exists>iter h'. void_list_remove 0 (Some 1)
      (void_list_append 0 ''b'' (void_list_push 0 ''a'' (void_list_init 0 blank_heap))) = Some (Some ''a'', iter, h') \<and>
     void_list_next 0 iter h' = Some 2"
proof -
  let ?h = "void_list_append 0 ''b'' (void_list_push 0 ''a'' (void_list_init 0 blank_heap))"
  note ev = void_list_append_def void_list_push_def void_list_elt_new_def void_list_elt_init_def
    void_list_init_def INIT_LIST_HEAD_def blank_heap_def list_add_def list_add_tail_def add_between_def
    set_next_def set_prev_def Let_def
  have v: "vlist ?h 0 ([] @ 1 # [2])" by (simp add: vlist_def dlist_def ev)
  have d: "lh_data ?h 1 = Some ''a''" "lh_data ?h 2 = Some ''b''" by (simp_all add: ev)
  then have "\<forall>e \<in> set ([] @ 1 # [2]). lh_data ?h e \<noteq> None" by simp
  from void_list_iteration [OF v this] show ?thesis unfolding d by auto
qed

end
