(* ===== verification/Opkg_Hash_Table.thy ===== *)
theory Opkg_Hash_Table
  imports Opkg_Base
begin

text \<open>
  The hash tables of \<open>libopkg/hash_table.c\<close>: an array of buckets, each an entry inside the array
  and a chain of allocated entries behind it. The key of the array entry may be NULL, those of the
  chain never are. Values are the non-null pointers the callers store.

  The locale \<open>string_map\<close> states what the package and file tables need from it.
\<close>

section \<open>The interface\<close>

locale string_map =
  fixes inv :: "'h \<Rightarrow> bool"
    and lookup :: "'h \<Rightarrow> string \<Rightarrow> 'v option"
    and insert :: "'h \<Rightarrow> string \<Rightarrow> 'v \<Rightarrow> 'h"
  assumes inv_insert: "inv h \<Longrightarrow> inv (insert h k v)"
    and lookup_insert: "inv h \<Longrightarrow> lookup (insert h k v) = (lookup h)(k \<mapsto> v)"
begin

lemma lookup_insert_same: "inv h \<Longrightarrow> lookup (insert h k v) k = Some v"
  by (simp add: lookup_insert)

lemma lookup_insert_other: "inv h \<Longrightarrow> k \<noteq> k' \<Longrightarrow> lookup (insert h k v) k' = lookup h k'"
  by (simp add: lookup_insert)

lemma insert_all:
  "inv h \<Longrightarrow> inv (fold (\<lambda>(k, v) h. insert h k v) kvs h) \<and>
     lookup (fold (\<lambda>(k, v) h. insert h k v) kvs h) = lookup h ++ map_of (rev kvs)"
proof (induction kvs arbitrary: h)
  case (Cons kv kvs)
  obtain k v where kv: "kv = (k, v)" by (cases kv)
  show ?case using Cons.IH [OF inv_insert [OF Cons.prems, of k v]] lookup_insert [OF Cons.prems, of k v]
    by (simp add: kv map_add_assoc flip: map_add_upd_left)
      (simp add: map_add_def fun_eq_iff split: option.splits)
qed simp

end

locale string_map_remove = string_map +
  fixes remove :: "'h \<Rightarrow> string \<Rightarrow> 'h"
  assumes inv_remove: "inv h \<Longrightarrow> inv (remove h k)"
    and lookup_remove: "inv h \<Longrightarrow> lookup (remove h k) = (lookup h)(k := None)"
begin

lemma remove_insert: "inv h \<Longrightarrow> lookup (remove (insert h k v) k) = (lookup h)(k := None)"
  by (simp add: lookup_remove inv_insert lookup_insert)

lemma remove_twice: "inv h \<Longrightarrow> lookup (remove (remove h k) k) = lookup (remove h k)"
  by (simp add: lookup_remove inv_remove)

end

section \<open>Tables\<close>

record 'v bucket =
  bk_head :: "(string \<times> 'v) option"
  bk_chain :: "(string \<times> 'v) list"

record 'v hash_table =
  ht_name :: string
  ht_entries :: "'v bucket list"
  ht_n_buckets :: nat
  ht_n_elements :: uint
  ht_n_used_buckets :: uint
  ht_n_collisions :: uint
  ht_max_bucket_len :: uint
  ht_n_hits :: uint
  ht_n_misses :: uint

text \<open>The bytes of the key are taken as unsigned characters.\<close>

fun djb2_loop :: "ulong \<Rightarrow> string \<Rightarrow> ulong" where
  "djb2_loop hash [] = hash"
| "djb2_loop hash (c # str) = djb2_loop ((push_bit 5 hash + hash) + of_nat (of_char c)) str"

definition djb2_hash :: "string \<Rightarrow> ulong" where
  "djb2_hash str = djb2_loop 5381 str"

definition hash_index :: "'v hash_table \<Rightarrow> string \<Rightarrow> nat" where
  "hash_index hash key = unat (djb2_hash key) mod ht_n_buckets hash"

definition empty_bucket :: "'v bucket" where
  "empty_bucket = \<lparr>bk_head = None, bk_chain = []\<rparr>"

text \<open>A table whose \<open>entries\<close> pointer is not NULL is left alone, with a message.\<close>

definition hash_table_init :: "string \<Rightarrow> 'v hash_table \<Rightarrow> nat \<Rightarrow> 'v hash_table" where
  "hash_table_init name hash len =
     (if ht_entries hash \<noteq> [] then hash
      else \<lparr>ht_name = name, ht_entries = replicate len empty_bucket, ht_n_buckets = len,
            ht_n_elements = 0, ht_n_used_buckets = 0, ht_n_collisions = 0, ht_max_bucket_len = 0,
            ht_n_hits = 0, ht_n_misses = 0\<rparr>)"

definition hash_table_deinit :: "'v hash_table \<Rightarrow> 'v hash_table" where
  "hash_table_deinit hash = hash\<lparr>ht_entries := [], ht_n_buckets := 0\<rparr>"

fun chain_get :: "string \<Rightarrow> (string \<times> 'v) list \<Rightarrow> 'v option" where
  "chain_get key [] = None"
| "chain_get key ((k, v) # es) = (if strcmp key k = 0 then Some v else chain_get key es)"

definition bucket_get :: "string \<Rightarrow> 'v bucket \<Rightarrow> 'v option" where
  "bucket_get key b =
     (case bk_head b of
        Some (k, v) \<Rightarrow> if strcmp key k = 0 then Some v else chain_get key (bk_chain b)
      | None \<Rightarrow> chain_get key (bk_chain b))"

definition hash_table_get :: "'v hash_table \<Rightarrow> string \<Rightarrow> 'v option \<times> 'v hash_table" where
  "hash_table_get hash key =
     (case bucket_get key (ht_entries hash ! hash_index hash key) of
        Some v \<Rightarrow> (Some v, hash\<lparr>ht_n_hits := ht_n_hits hash + 1\<rparr>)
      | None \<Rightarrow> (None, hash\<lparr>ht_n_misses := ht_n_misses hash + 1\<rparr>))"

text \<open>
  The walk to the end of the chain: the value is replaced where the key is found, otherwise an
  entry is appended. The second result is \<open>bucket_len\<close> when the end was reached.
\<close>

fun chain_insert :: "string \<Rightarrow> 'v \<Rightarrow> nat \<Rightarrow> (string \<times> 'v) list \<Rightarrow> (string \<times> 'v) list \<times> nat option" where
  "chain_insert key val len [] = ([(key, val)], Some len)"
| "chain_insert key val len ((k, v) # es) =
     (if strcmp k key = 0 then ((k, val) # es, None)
      else case chain_insert key val (len + 1) es of (es', r) \<Rightarrow> ((k, v) # es', r))"

definition set_bucket :: "'v hash_table \<Rightarrow> nat \<Rightarrow> 'v bucket \<Rightarrow> 'v hash_table" where
  "set_bucket hash ndx b = hash\<lparr>ht_entries := (ht_entries hash)[ndx := b]\<rparr>"

definition hash_table_insert :: "'v hash_table \<Rightarrow> string \<Rightarrow> 'v \<Rightarrow> int \<times> 'v hash_table" where
  "hash_table_insert hash key val =
     (let ndx = hash_index hash key; b = ht_entries hash ! ndx
      in case bk_head b of
           Some (k, v) \<Rightarrow>
             if strcmp k key = 0 then (0, set_bucket hash ndx (b\<lparr>bk_head := Some (k, val)\<rparr>))
             else (case chain_insert key val 0 (bk_chain b) of
                     (es, None) \<Rightarrow> (0, set_bucket hash ndx (b\<lparr>bk_chain := es\<rparr>))
                   | (es, Some bucket_len) \<Rightarrow>
                       let h1 = (set_bucket hash ndx (b\<lparr>bk_chain := es\<rparr>))
                             \<lparr>ht_n_collisions := ht_n_collisions hash + 1\<rparr>;
                           h2 = (if of_nat (bucket_len + 1) > ht_max_bucket_len h1
                                 then h1\<lparr>ht_max_bucket_len := of_nat (bucket_len + 1)\<rparr> else h1)
                       in (0, h2\<lparr>ht_n_elements := ht_n_elements hash + 1\<rparr>))
         | None \<Rightarrow>
             (0, (set_bucket hash ndx (b\<lparr>bk_head := Some (key, val)\<rparr>))
                \<lparr>ht_n_used_buckets := ht_n_used_buckets hash + 1,
                 ht_n_elements := ht_n_elements hash + 1\<rparr>))"

text \<open>Removal from the chain; \<open>None\<close> when the key is not there.\<close>

fun chain_remove :: "string \<Rightarrow> (string \<times> 'v) list \<Rightarrow> (string \<times> 'v) list option" where
  "chain_remove key [] = None"
| "chain_remove key ((k, v) # es) =
     (if strcmp key k = 0 then Some es
      else case chain_remove key es of None \<Rightarrow> None | Some es' \<Rightarrow> Some ((k, v) # es'))"

text \<open>The entry in the array is refilled from the first of the chain, or zeroed.\<close>

definition remove_head :: "'v bucket \<Rightarrow> 'v bucket" where
  "remove_head b =
     (case bk_chain b of
        e # es \<Rightarrow> \<lparr>bk_head = Some e, bk_chain = es\<rparr>
      | [] \<Rightarrow> empty_bucket)"

definition hash_table_remove :: "'v hash_table \<Rightarrow> string \<Rightarrow> int \<times> 'v hash_table" where
  "hash_table_remove hash key =
     (let ndx = hash_index hash key; b = ht_entries hash ! ndx;
          in_chain = (case chain_remove key (bk_chain b) of
             Some es \<Rightarrow> (1, set_bucket hash ndx (b\<lparr>bk_chain := es\<rparr>))
           | None \<Rightarrow> (0, hash))
      in case bk_head b of
           Some (k, v) \<Rightarrow>
             if strcmp key k = 0 then (1, set_bucket hash ndx (remove_head b)) else in_chain
         | None \<Rightarrow> in_chain)"

definition bucket_entries :: "'v bucket \<Rightarrow> (string \<times> 'v) list" where
  "bucket_entries b = (case bk_head b of Some e \<Rightarrow> [e] | None \<Rightarrow> []) @ bk_chain b"

definition hash_table_foreach :: "'v hash_table \<Rightarrow> (string \<Rightarrow> 'v \<Rightarrow> 's \<Rightarrow> 's) \<Rightarrow> 's \<Rightarrow> 's" where
  "hash_table_foreach hash f data =
     fold (\<lambda>b. fold (\<lambda>(k, v). f k v) (bucket_entries b)) (ht_entries hash) data"

section \<open>The invariant and the map a table stands for\<close>

definition bucket_ok :: "'v hash_table \<Rightarrow> nat \<Rightarrow> 'v bucket \<Rightarrow> bool" where
  "bucket_ok hash i b \<longleftrightarrow> (bk_head b = None \<longrightarrow> bk_chain b = []) \<and>
     distinct (map fst (bucket_entries b)) \<and>
     list_all (\<lambda>e. hash_index hash (fst e) = i) (bucket_entries b)"

definition ht_ok :: "'v hash_table \<Rightarrow> bool" where
  "ht_ok hash \<longleftrightarrow> ht_n_buckets hash = length (ht_entries hash) \<and> 0 < ht_n_buckets hash \<and>
     (\<forall>i < length (ht_entries hash). bucket_ok hash i (ht_entries hash ! i))"

definition ht_map :: "'v hash_table \<Rightarrow> string \<Rightarrow> 'v option" where
  "ht_map hash key = map_of (bucket_entries (ht_entries hash ! hash_index hash key)) key"

lemma hash_index_less: "ht_ok hash \<Longrightarrow> hash_index hash key < length (ht_entries hash)"
  by (auto simp: ht_ok_def hash_index_def)

lemma chain_get_map_of: "chain_get key es = map_of es key"
  by (induction es) (auto simp: strcmp_eq_0)

lemma bucket_get_map_of: "bucket_get key b = map_of (bucket_entries b) key"
  by (auto simp: bucket_get_def bucket_entries_def chain_get_map_of strcmp_eq_0
      split: option.splits)

lemma hash_table_get_map: "fst (hash_table_get hash key) = ht_map hash key"
  by (simp add: hash_table_get_def ht_map_def bucket_get_map_of split: option.splits)

lemma hash_table_get_same: "ht_map (snd (hash_table_get hash key)) = ht_map hash"
  "ht_ok (snd (hash_table_get hash key)) = ht_ok hash"
  by (auto simp: hash_table_get_def ht_map_def ht_ok_def bucket_ok_def hash_index_def fun_eq_iff
      split: option.splits)

lemma chain_insert_spec:
  assumes "chain_insert key val len es = (es', r)"
  shows "map_of es' = (map_of es)(key \<mapsto> val) \<and> set (map fst es') = Set.insert key (set (map fst es)) \<and>
    (distinct (map fst es) \<longrightarrow> distinct (map fst es'))"
  using assms
proof (induction key val len es arbitrary: es' r rule: chain_insert.induct)
  case (1 key val len)
  then show ?case by auto
next
  case (2 key val len k v es)
  show ?case
  proof (cases "k = key")
    case True
    then show ?thesis using 2(2) by (auto simp: strcmp_eq_0)
  next
    case False
    then obtain es1 where e: "chain_insert key val (len + 1) es = (es1, r)" "es' = (k, v) # es1"
      using 2(2) by (auto simp: strcmp_eq_0 split: prod.splits)
    have m: "map_of es1 = (map_of es)(key \<mapsto> val)"
      and st: "set (map fst es1) = Set.insert key (set (map fst es))"
      and d: "distinct (map fst es) \<Longrightarrow> distinct (map fst es1)"
      using 2(1) [OF _ e(1)] False unfolding strcmp_eq_0 by blast+
    have "map_of es' = (map_of ((k, v) # es))(key \<mapsto> val)"
      unfolding e(2) using False by (simp add: m fun_upd_twist)
    moreover have "set (map fst es') = Set.insert key (set (map fst ((k, v) # es)))"
      unfolding e(2) using st by (simp add: insert_commute)
    moreover have "distinct (map fst ((k, v) # es)) \<longrightarrow> distinct (map fst es')"
      unfolding e(2) using st d False by auto
    ultimately show ?thesis by blast
  qed
qed

lemma chain_remove_spec:
  "distinct (map fst es) \<Longrightarrow>
   (case chain_remove key es of
      None \<Rightarrow> key \<notin> fst ` set es
    | Some es' \<Rightarrow> map_of es' = (map_of es)(key := None) \<and> set es' \<subseteq> set es \<and> distinct (map fst es'))"
proof (induction es)
  case (Cons e es)
  obtain k v where e: "e = (k, v)" by (cases e)
  show ?case
  proof (cases "k = key")
    case True
    then have "map_of es key = None" using Cons.prems e by (simp add: map_of_eq_None_iff)
    then have "map_of es = (map_of (e # es))(key := None)" using True e by (auto simp: fun_eq_iff)
    then show ?thesis using True Cons.prems e by (auto simp: strcmp_eq_0)
  next
    case False
    show ?thesis
    proof (cases "chain_remove key es")
      case None
      then show ?thesis using Cons False e by (auto simp: strcmp_eq_0)
    next
      case (Some es')
      then have "map_of es' = (map_of es)(key := None)" "set es' \<subseteq> set es" "distinct (map fst es')"
        using Cons by simp_all
      moreover from this(2) have "fst ` set es' \<subseteq> fst ` set es" by blast
      ultimately show ?thesis using Cons.prems False e Some
        by (auto simp: strcmp_eq_0 fun_upd_twist)
    qed
  qed
qed simp

text \<open>Replacing one bucket by one whose entries stand for an updated map.\<close>

lemma set_bucket_ok:
  assumes "ht_ok hash" "i = hash_index hash key"
    and "(bk_head b = None \<longrightarrow> bk_chain b = [])" "distinct (map fst (bucket_entries b))"
    and "fst ` set (bucket_entries b) \<subseteq> Set.insert key (fst ` set (bucket_entries (ht_entries hash ! i)))"
    and "map_of (bucket_entries b) = (map_of (bucket_entries (ht_entries hash ! i)))(key := v)"
  shows "ht_ok (set_bucket hash i b) \<and> ht_map (set_bucket hash i b) = (ht_map hash)(key := v)"
proof -
  have i: "i < length (ht_entries hash)" using hash_index_less [OF assms(1)] assms(2) by simp
  have hi: "hash_index (set_bucket hash i b) k = hash_index hash k" for k
    by (simp add: hash_index_def set_bucket_def)
  have old: "list_all (\<lambda>e. hash_index hash (fst e) = i) (bucket_entries (ht_entries hash ! i))"
    using assms(1) i by (simp add: ht_ok_def bucket_ok_def)
  have new: "list_all (\<lambda>e. hash_index hash (fst e) = i) (bucket_entries b)"
    using assms(2,5) old by (fastforce simp: list_all_iff)
  have "bucket_ok (set_bucket hash i b) j ((ht_entries (set_bucket hash i b)) ! j)"
    if "j < length (ht_entries hash)" for j
    using that assms(1,3,4) new by (cases "j = i")
      (simp_all add: bucket_ok_def hi ht_ok_def, simp_all add: set_bucket_def)
  then have ok: "ht_ok (set_bucket hash i b)"
    using assms(1) unfolding ht_ok_def by (simp add: set_bucket_def del: length_greater_0_conv)
  have "ht_map (set_bucket hash i b) k = ((ht_map hash)(key := v)) k" for k
    using assms(2,6) i hi [of k, unfolded set_bucket_def]
    by (cases "hash_index hash k = i"; cases "k = key") (simp_all add: ht_map_def set_bucket_def)
  then show ?thesis using ok by blast
qed

lemma chain_remove_absent: "key \<notin> fst ` set es \<Longrightarrow> chain_remove key es = None"
  by (induction es) (auto simp: strcmp_eq_0)

lemma ht_ok_bucket:
  fixes hash :: "'v hash_table" and key :: string
  assumes "ht_ok hash"
  defines "b \<equiv> ht_entries hash ! hash_index hash key"
  shows "bk_head b = None \<longrightarrow> bk_chain b = []" "distinct (map fst (bucket_entries b))"
  using assms(1) hash_index_less [OF assms(1), of key] by (auto simp: ht_ok_def bucket_ok_def b_def)

lemma ht_stats_irrelevant:
  "ht_ok (h\<lparr>ht_n_elements := a\<rparr>) = ht_ok h" "ht_map (h\<lparr>ht_n_elements := a\<rparr>) = ht_map h"
  "ht_ok (h\<lparr>ht_n_used_buckets := a\<rparr>) = ht_ok h" "ht_map (h\<lparr>ht_n_used_buckets := a\<rparr>) = ht_map h"
  "ht_ok (h\<lparr>ht_n_collisions := a\<rparr>) = ht_ok h" "ht_map (h\<lparr>ht_n_collisions := a\<rparr>) = ht_map h"
  "ht_ok (h\<lparr>ht_max_bucket_len := a\<rparr>) = ht_ok h" "ht_map (h\<lparr>ht_max_bucket_len := a\<rparr>) = ht_map h"
  by (simp_all add: ht_ok_def bucket_ok_def hash_index_def ht_map_def fun_eq_iff)

lemma hash_table_insert_map:
  assumes "ht_ok hash"
  shows "ht_ok (snd (hash_table_insert hash key val)) \<and>
    ht_map (snd (hash_table_insert hash key val)) = (ht_map hash)(key \<mapsto> val)"
proof -
  define ndx where "ndx = hash_index hash key"
  define b where "b = ht_entries hash ! ndx"
  note ok = ht_ok_bucket [OF assms, of key, folded ndx_def, folded b_def]
  note sb = set_bucket_ok [OF assms ndx_def, folded b_def]
  show ?thesis
  proof (cases "bk_head b")
    case None
    then have "bk_chain b = []" using ok(1) by blast
    then have "ht_ok (set_bucket hash ndx (b\<lparr>bk_head := Some (key, val)\<rparr>)) \<and>
        ht_map (set_bucket hash ndx (b\<lparr>bk_head := Some (key, val)\<rparr>)) = (ht_map hash)(key \<mapsto> val)"
      using None by (intro sb) (auto simp: bucket_entries_def)
    then show ?thesis using None
      by (simp add: hash_table_insert_def Let_def ht_stats_irrelevant flip: ndx_def b_def)
  next
    case (Some kv)
    obtain k v where kv: "kv = (k, v)" by (cases kv)
    show ?thesis
    proof (cases "k = key")
      case True
      have "ht_ok (set_bucket hash ndx (b\<lparr>bk_head := Some (k, val)\<rparr>)) \<and>
        ht_map (set_bucket hash ndx (b\<lparr>bk_head := Some (k, val)\<rparr>)) = (ht_map hash)(key \<mapsto> val)"
        using Some kv ok True by (intro sb) (auto simp: bucket_entries_def)
      then show ?thesis using Some kv True
        by (simp add: hash_table_insert_def Let_def strcmp_eq_0 flip: ndx_def b_def)
    next
      case False
      obtain es r where es: "chain_insert key val 0 (bk_chain b) = (es, r)"
        by (cases "chain_insert key val 0 (bk_chain b)")
      note sp = chain_insert_spec [OF es]
      have "distinct (map fst (bk_chain b))" "k \<notin> set (map fst (bk_chain b))"
        using ok(2) Some kv by (auto simp: bucket_entries_def)
      then have d: "distinct (map fst es)" "k \<notin> set (map fst es)" using sp False by simp_all
      have m: "map_of es = (map_of (bk_chain b))(key \<mapsto> val)"
        and st: "fst ` set es = Set.insert key (fst ` set (bk_chain b))" using sp by simp_all
      have "ht_ok (set_bucket hash ndx (b\<lparr>bk_chain := es\<rparr>)) \<and>
        ht_map (set_bucket hash ndx (b\<lparr>bk_chain := es\<rparr>)) = (ht_map hash)(key \<mapsto> val)"
      proof (rule sb)
        show "distinct (map fst (bucket_entries (b\<lparr>bk_chain := es\<rparr>)))"
          using Some kv d by (simp add: bucket_entries_def)
        show "fst ` set (bucket_entries (b\<lparr>bk_chain := es\<rparr>)) \<subseteq> Set.insert key (fst ` set (bucket_entries b))"
          using Some kv st by (auto simp: bucket_entries_def)
        show "map_of (bucket_entries (b\<lparr>bk_chain := es\<rparr>)) = (map_of (bucket_entries b))(key \<mapsto> val)"
          using Some kv m False by (simp add: bucket_entries_def fun_upd_twist)
      qed (simp add: Some)
      then show ?thesis using Some kv False es
        by (cases r) (simp_all add: hash_table_insert_def Let_def strcmp_eq_0 ht_stats_irrelevant
            flip: ndx_def b_def)
    qed
  qed
qed

lemma hash_table_remove_map:
  assumes "ht_ok hash"
  shows "ht_ok (snd (hash_table_remove hash key)) \<and>
    ht_map (snd (hash_table_remove hash key)) = (ht_map hash)(key := None) \<and>
    fst (hash_table_remove hash key) = (if ht_map hash key = None then 0 else 1)"
proof -
  define ndx where "ndx = hash_index hash key"
  define b where "b = ht_entries hash ! ndx"
  note ok = ht_ok_bucket [OF assms, of key, folded ndx_def, folded b_def]
  note sb = set_bucket_ok [OF assms ndx_def, folded b_def, where v = None]
  have mp: "ht_map hash key = map_of (bucket_entries b) key" by (simp add: ht_map_def flip: ndx_def b_def)
  show ?thesis
  proof (cases "bk_head b")
    case None
    then have "bk_chain b = []" using ok(1) by blast
    moreover from this have "ht_map hash key = None" using None mp by (simp add: bucket_entries_def)
    moreover from this have "(ht_map hash)(key := None) = ht_map hash" by auto
    ultimately show ?thesis using None assms
      by (simp add: hash_table_remove_def Let_def flip: ndx_def b_def)
  next
    case (Some kv)
    obtain k v where kv: "kv = (k, v)" by (cases kv)
    show ?thesis
    proof (cases "k = key")
      case True
      have nk: "map_of (bk_chain b) key = None"
        using ok(2) Some kv True by (simp add: bucket_entries_def map_of_eq_None_iff)
      have e: "bucket_entries (remove_head b) = bk_chain b"
        by (simp add: remove_head_def bucket_entries_def empty_bucket_def split: list.splits)
      have "ht_ok (set_bucket hash ndx (remove_head b)) \<and>
        ht_map (set_bucket hash ndx (remove_head b)) = (ht_map hash)(key := None)"
      proof (rule sb)
        show "bk_head (remove_head b) = None \<longrightarrow> bk_chain (remove_head b) = []"
          by (simp add: remove_head_def empty_bucket_def split: list.splits)
        show "distinct (map fst (bucket_entries (remove_head b)))"
          "fst ` set (bucket_entries (remove_head b)) \<subseteq> Set.insert key (fst ` set (bucket_entries b))"
          unfolding e using Some kv ok(2) by (auto simp: bucket_entries_def)
        show "map_of (bucket_entries (remove_head b)) = (map_of (bucket_entries b))(key := None)"
          unfolding e using Some kv True nk by (simp add: bucket_entries_def fun_eq_iff)
      qed
      then show ?thesis using Some kv True mp
        by (simp add: hash_table_remove_def Let_def strcmp_eq_0 bucket_entries_def flip: ndx_def b_def)
    next
      case False
      have d: "distinct (map fst (bk_chain b))" "k \<notin> fst ` set (bk_chain b)"
        using ok(2) Some kv by (auto simp: bucket_entries_def)
      note sp = chain_remove_spec [OF d(1), of key]
      show ?thesis
      proof (cases "chain_remove key (bk_chain b)")
        case None
        then have "ht_map hash key = None"
          using sp Some kv False mp by (simp add: bucket_entries_def map_of_eq_None_iff)
        moreover from this have "(ht_map hash)(key := None) = ht_map hash" by auto
        ultimately show ?thesis using None Some kv False assms
          by (simp add: hash_table_remove_def Let_def strcmp_eq_0 flip: ndx_def b_def)
      next
        case es: (Some es)
        then have m: "map_of es = (map_of (bk_chain b))(key := None)" "set es \<subseteq> set (bk_chain b)"
          "distinct (map fst es)" using sp by simp_all
        have "ht_ok (set_bucket hash ndx (b\<lparr>bk_chain := es\<rparr>)) \<and>
          ht_map (set_bucket hash ndx (b\<lparr>bk_chain := es\<rparr>)) = (ht_map hash)(key := None)"
        proof (rule sb)
          show "distinct (map fst (bucket_entries (b\<lparr>bk_chain := es\<rparr>)))"
            using Some kv d(2) m by (auto simp: bucket_entries_def)
          show "map_of (bucket_entries (b\<lparr>bk_chain := es\<rparr>)) = (map_of (bucket_entries b))(key := None)"
            using Some kv m(1) False by (simp add: bucket_entries_def fun_upd_twist)
        qed (use Some kv m(2) in \<open>auto simp: bucket_entries_def\<close>)
        moreover have "ht_map hash key \<noteq> None"
        proof
          assume "ht_map hash key = None"
          then have "key \<notin> fst ` set (bk_chain b)"
            using mp Some kv False by (simp add: bucket_entries_def map_of_eq_None_iff)
          then have "chain_remove key (bk_chain b) = None" by (rule chain_remove_absent)
          then show False using es by simp
        qed
        ultimately show ?thesis using es Some kv False
          by (simp add: hash_table_remove_def Let_def strcmp_eq_0 flip: ndx_def b_def)
      qed
    qed
  qed
qed

lemma hash_table_init_map:
  assumes "ht_entries h = []" "0 < len"
  shows "ht_ok (hash_table_init name h len) \<and> ht_map (hash_table_init name h len) = Map.empty"
  using assms by (auto simp: hash_table_init_def ht_ok_def bucket_ok_def ht_map_def empty_bucket_def
      bucket_entries_def hash_index_def fun_eq_iff)

interpretation ht: string_map_remove ht_ok ht_map "\<lambda>h k v. snd (hash_table_insert h k v)"
  "\<lambda>h k. snd (hash_table_remove h k)"
  by unfold_locales (simp_all add: hash_table_insert_map hash_table_remove_map)

section \<open>All entries\<close>

definition ht_list :: "'v hash_table \<Rightarrow> (string \<times> 'v) list" where
  "ht_list hash = concat (map bucket_entries (ht_entries hash))"

lemma fold_buckets: "fold (\<lambda>b. fold g (bucket_entries b)) bs s = fold g (concat (map bucket_entries bs)) s"
  by (induction bs arbitrary: s) auto

lemma distinct_concat_index:
  assumes "\<forall>i < length xss. distinct (xss ! i) \<and> (\<forall>x \<in> set (xss ! i). idx x = i + n)"
  shows "distinct (concat xss)"
  using assms
proof (induction xss arbitrary: n)
  case (Cons xs xss)
  have tl: "\<forall>i < length xss. distinct (xss ! i) \<and> (\<forall>x \<in> set (xss ! i). idx x = i + (n + 1))"
    using Cons.prems by force
  have "\<forall>x \<in> set xs. idx x = n" "distinct xs" using Cons.prems by force+
  moreover have "\<forall>x \<in> set (concat xss). idx x \<noteq> n"
  proof
    fix x assume "x \<in> set (concat xss)"
    then obtain ys where "ys \<in> set xss" "x \<in> set ys" by auto
    then obtain i where "i < length xss" "x \<in> set (xss ! i)" by (metis in_set_conv_nth)
    then have "idx x = i + (n + 1)" using tl by blast
    then show "idx x \<noteq> n" by simp
  qed
  ultimately show ?case using Cons.IH [OF tl] by (auto simp: disjoint_iff)
qed simp

lemma ht_list_keys:
  assumes "ht_ok hash"
  shows "distinct (map fst (ht_list hash))" and "map_of (ht_list hash) = ht_map hash"
proof -
  let ?bs = "ht_entries hash"
  have m: "map fst (ht_list hash) = concat (map (map fst \<circ> bucket_entries) ?bs)"
    by (simp add: ht_list_def map_concat)
  show d: "distinct (map fst (ht_list hash))"
    unfolding m using assms
    by (intro distinct_concat_index [where idx = "hash_index hash" and n = 0])
      (auto simp: ht_ok_def bucket_ok_def list_all_iff)
  have "map_of (ht_list hash) k = Some v \<longleftrightarrow> ht_map hash k = Some v" for k v
  proof -
    let ?b = "?bs ! hash_index hash k"
    have k: "hash_index hash k < length ?bs" by (rule hash_index_less [OF assms])
    have db: "distinct (map fst (bucket_entries ?b))" by (rule ht_ok_bucket(2) [OF assms])
    have "(k, v) \<in> set (ht_list hash) \<longleftrightarrow> (k, v) \<in> set (bucket_entries ?b)"
    proof
      assume "(k, v) \<in> set (ht_list hash)"
      then obtain b where b: "b \<in> set ?bs" "(k, v) \<in> set (bucket_entries b)" by (auto simp: ht_list_def)
      then obtain i where i: "i < length ?bs" "b = ?bs ! i" by (metis in_set_conv_nth)
      then have "bucket_ok hash i b" using assms by (simp add: ht_ok_def)
      then have "hash_index hash k = i" using b(2) by (force simp: bucket_ok_def list_all_iff)
      then show "(k, v) \<in> set (bucket_entries ?b)" using b i by simp
    qed (use k in \<open>auto simp: ht_list_def\<close>)
    then show ?thesis using d db by (simp add: ht_map_def)
  qed
  then show "map_of (ht_list hash) = ht_map hash"
    by (metis map_le_def ext option.exhaust)
qed

section \<open>Properties\<close>

definition blank_table :: "'v hash_table" where
  "blank_table = \<lparr>ht_name = [], ht_entries = [], ht_n_buckets = 0, ht_n_elements = 0,
     ht_n_used_buckets = 0, ht_n_collisions = 0, ht_max_bucket_len = 0, ht_n_hits = 0, ht_n_misses = 0\<rparr>"

text \<open>(C8) A hash table is a map: what \<open>hash_table_get\<close> returns after an insertion or a removal is
  what a finite map with the same update returns, for every key, in spite of collisions; the removal
  says whether the key was there; and the shape of the buckets is kept, in particular an empty array
  entry never hides a chain, which insertion relies on.\<close>

theorem hash_table_refines_map:
  assumes "ht_ok h"
  shows "fst (hash_table_get (snd (hash_table_insert h k v)) k') =
      (if k' = k then Some v else fst (hash_table_get h k')) \<and>
    fst (hash_table_get (snd (hash_table_remove h k)) k') =
      (if k' = k then None else fst (hash_table_get h k')) \<and>
    fst (hash_table_remove h k) = (if fst (hash_table_get h k) = None then 0 else 1) \<and>
    ht_ok (snd (hash_table_insert h k v)) \<and> ht_ok (snd (hash_table_remove h k)) \<and>
      ht_ok (snd (hash_table_get h k))"
  using assms ht.lookup_insert [OF assms] ht.lookup_remove [OF assms] ht.inv_insert [OF assms]
    ht.inv_remove [OF assms] hash_table_remove_map [OF assms]
  by (simp_all add: hash_table_get_map hash_table_get_same)

theorem hash_table_refines_map_witness:
  "fst (hash_table_get (snd (hash_table_insert (hash_table_init ''h'' blank_table 2) ''a'' (1::nat))) ''a'') = Some 1"
  using hash_table_refines_map [OF conjunct1 [OF hash_table_init_map [of blank_table 2 "''h''"]], of "''a''" "1::nat" "''a''"]
  by (simp add: blank_table_def)

text \<open>\<open>hash_table_foreach\<close> calls the function exactly once for every key of the table, with the
  value stored for it, and for nothing else.\<close>

theorem foreach_visits_every_entry_once:
  assumes "ht_ok h"
  shows "\<exists>kvs. hash_table_foreach h f s = fold (\<lambda>(k, v). f k v) kvs s \<and> distinct (map fst kvs) \<and>
    (\<forall>k. map_of kvs k = fst (hash_table_get h k))"
  using ht_list_keys [OF assms]
  by (intro exI [of _ "ht_list h"]) (simp add: hash_table_foreach_def fold_buckets ht_list_def hash_table_get_map)

theorem foreach_visits_every_entry_once_witness:
  "\<exists>kvs. hash_table_foreach (snd (hash_table_insert (hash_table_init ''h'' blank_table 2) ''a'' (1::nat)))
      (\<lambda>k v s. s + v) 0 = fold (\<lambda>(k, v) s. s + v) kvs 0 \<and> distinct (map fst kvs) \<and>
    (\<forall>k. map_of kvs k = fst (hash_table_get
      (snd (hash_table_insert (hash_table_init ''h'' blank_table 2) ''a'' (1::nat))) k))"
proof (rule foreach_visits_every_entry_once)
  show "ht_ok (snd (hash_table_insert (hash_table_init ''h'' blank_table 2) ''a'' (1::nat)))"
    by (intro ht.inv_insert conjunct1 [OF hash_table_init_map]) (simp_all add: blank_table_def)
qed

end
