(* ===== verification/Opkg_Store.thy ===== *)
theory Opkg_Store
  imports Opkg_Format Opkg_Hash_Table "HOL-Library.Monad_Syntax"
begin

text \<open>
  The tables of packages: packages and abstract packages live in a store and are named by
  references, the hash table finds an abstract package by its name. The vectors of
  \<open>libopkg/pkg_vec.c\<close>, \<open>pkg_merge\<close> and \<open>pkg_deinit\<close> of \<open>libopkg/pkg.c\<close>, and the functions of
  \<open>libopkg/pkg_hash.c\<close> that look abstract packages up and create them.

  Partial results: \<open>None\<close> is a read through a null pointer or outside of an array.
\<close>

section \<open>The store\<close>

record store =
  s_pkgs :: "pkg_ref \<Rightarrow> pkg"
  s_apkgs :: "apkg_ref \<Rightarrow> abstract_pkg"
  s_apkg_next :: apkg_ref
  s_hash :: "apkg_ref hash_table"

definition upd_pkg :: "pkg_ref \<Rightarrow> (pkg \<Rightarrow> pkg) \<Rightarrow> store \<Rightarrow> store" where
  "upd_pkg r f s = s\<lparr>s_pkgs := (s_pkgs s)(r := f (s_pkgs s r))\<rparr>"

definition upd_apkg :: "apkg_ref \<Rightarrow> (abstract_pkg \<Rightarrow> abstract_pkg) \<Rightarrow> store \<Rightarrow> store" where
  "upd_apkg r f s = s\<lparr>s_apkgs := (s_apkgs s)(r := f (s_apkgs s r))\<rparr>"

lemma upd_simps [simp]:
  "s_apkgs (upd_pkg r f s) = s_apkgs s" "s_hash (upd_pkg r f s) = s_hash s"
  "s_apkg_next (upd_pkg r f s) = s_apkg_next s" "s_pkgs (upd_pkg r f s) = (s_pkgs s)(r := f (s_pkgs s r))"
  "s_pkgs (upd_apkg r g s) = s_pkgs s" "s_hash (upd_apkg r g s) = s_hash s"
  "s_apkg_next (upd_apkg r g s) = s_apkg_next s" "s_apkgs (upd_apkg r g s) = (s_apkgs s)(r := g (s_apkgs s r))"
  by (simp_all add: upd_pkg_def upd_apkg_def)

section \<open>Loops that may fail\<close>

text \<open>A loop over the first elements of an array, left when the test succeeds.\<close>

fun any_n :: "nat \<Rightarrow> ('a \<Rightarrow> bool option) \<Rightarrow> 'a list \<Rightarrow> bool option" where
  "any_n 0 P xs = Some False"
| "any_n (Suc n) P [] = None"
| "any_n (Suc n) P (x # xs) =
     (case P x of None \<Rightarrow> None | Some b \<Rightarrow> if b then Some True else any_n n P xs)"

fun foldM :: "('a \<Rightarrow> 's \<Rightarrow> 's option) \<Rightarrow> 'a list \<Rightarrow> 's \<Rightarrow> 's option" where
  "foldM f [] s = Some s"
| "foldM f (x # xs) s = Option.bind (f x s) (foldM f xs)"

lemma any_n_total:
  assumes "n \<le> length xs" "\<forall>x \<in> set (take n xs). P x = Some (p x)"
  shows "any_n n P xs = Some (\<exists>x \<in> set (take n xs). p x)"
  using assms by (induction n P xs rule: any_n.induct) auto

lemma foldM_append: "foldM f (xs @ ys) s = Option.bind (foldM f xs s) (foldM f ys)"
  by (induction xs arbitrary: s) (auto simp: Option.bind_assoc split: bind_splits)

lemma foldM_invariant:
  assumes "I s" "\<And>x s. x \<in> set xs \<Longrightarrow> I s \<Longrightarrow> \<exists>s'. f x s = Some s' \<and> I s'"
  shows "\<exists>s'. foldM f xs s = Some s' \<and> I s'"
  using assms
proof (induction xs arbitrary: s)
  case (Cons x xs)
  obtain s1 where "f x s = Some s1" "I s1" using Cons.prems(2) [of x s] Cons.prems(1) by auto
  then show ?case using Cons.IH [of s1] Cons.prems(2) by simp
qed simp

lemma foldM_invariant_partial:
  assumes "foldM f xs s = Some s'" "I s" "\<And>x s s'. x \<in> set xs \<Longrightarrow> I s \<Longrightarrow> f x s = Some s' \<Longrightarrow> I s'"
  shows "I s'"
  using assms
proof (induction xs arbitrary: s)
  case (Cons x xs)
  then obtain s1 where s1: "f x s = Some s1" "foldM f xs s1 = Some s'"
    by (auto split: bind_splits)
  have "I s1" using Cons.prems(3) [of x s s1] Cons.prems(2) s1(1) by simp
  then show ?case by (rule Cons.IH [OF s1(2)]) (use Cons.prems(3) in auto)
qed simp

section \<open>Text comparisons that need their pointers\<close>

definition same_text :: "string option \<Rightarrow> string option \<Rightarrow> bool option" where
  "same_text a b = (case (a, b) of (Some x, Some y) \<Rightarrow> Some (strcmp x y = 0) | _ \<Rightarrow> None)"

lemma same_text_Some [simp]: "same_text (Some x) (Some y) = Some (x = y)"
  by (simp add: same_text_def strcmp_eq_0)

section \<open>Vectors\<close>

definition pkg_vec_insert :: "pkg_ref list \<Rightarrow> pkg_ref \<Rightarrow> pkg_ref list" where
  "pkg_vec_insert vec pkg = vec @ [pkg]"

definition pkg_vec_contains :: "pkg_ref list \<Rightarrow> pkg_ref \<Rightarrow> bool" where
  "pkg_vec_contains vec pkg = list_ex (\<lambda>p. p = pkg) vec"

definition pkg_vec_clear_marks :: "pkg_ref list \<Rightarrow> store \<Rightarrow> store" where
  "pkg_vec_clear_marks vec s =
     fold (\<lambda>r. upd_pkg r (\<lambda>p. p\<lparr>p_state_flag := p_state_flag p AND NOT SF_MARKED\<rparr>)) vec s"

definition abstract_pkg_vec_insert :: "apkg_ref list \<Rightarrow> apkg_ref \<Rightarrow> apkg_ref list" where
  "abstract_pkg_vec_insert vec pkg = vec @ [pkg]"

definition abstract_pkg_vec_get :: "apkg_ref list \<Rightarrow> nat \<Rightarrow> apkg_ref option" where
  "abstract_pkg_vec_get vec i = (if i < length vec then Some (vec ! i) else None)"

definition abstract_pkg_vec_contains :: "apkg_ref list \<Rightarrow> apkg_ref \<Rightarrow> bool" where
  "abstract_pkg_vec_contains vec apkg = list_ex (\<lambda>p. p = apkg) vec"

lemma vec_contains: "pkg_vec_contains vec p \<longleftrightarrow> p \<in> set vec" "abstract_pkg_vec_contains avec a \<longleftrightarrow> a \<in> set avec"
  by (auto simp: pkg_vec_contains_def abstract_pkg_vec_contains_def list_ex_iff)

section \<open>Merging and releasing packages\<close>

definition or_else :: "'a option \<Rightarrow> 'a option \<Rightarrow> 'a option" where
  "or_else a b = (case a of None \<Rightarrow> b | Some _ \<Rightarrow> a)"

text \<open>
  \<open>pkg_merge\<close> of two different packages, in the order of the code: each step maps the old package
  and what is left of the new one.
\<close>

definition merge_origin :: "pkg \<times> pkg \<Rightarrow> pkg \<times> pkg" where
  "merge_origin = (\<lambda>(oldpkg, newpkg).
     (oldpkg\<lparr>p_auto_installed := p_auto_installed oldpkg \<or> p_auto_installed newpkg,
        p_src := or_else (p_src oldpkg) (p_src newpkg),
        p_dest := or_else (p_dest oldpkg) (p_dest newpkg),
        p_architecture := or_else (p_architecture oldpkg) (p_architecture newpkg),
        p_arch_priority := (if p_arch_priority oldpkg = 0 then p_arch_priority newpkg
                            else p_arch_priority oldpkg),
        p_section := or_else (p_section oldpkg) (p_section newpkg),
        p_maintainer := or_else (p_maintainer oldpkg) (p_maintainer newpkg),
        p_description := or_else (p_description oldpkg) (p_description newpkg)\<rparr>, newpkg))"

definition merge_depends :: "pkg \<times> pkg \<Rightarrow> pkg \<times> pkg" where
  "merge_depends = (\<lambda>(oldpkg, newpkg).
     if p_depends_count oldpkg = 0 \<and> p_pre_depends_count oldpkg = 0 \<and>
        p_recommends_count oldpkg = 0 \<and> p_suggests_count oldpkg = 0
     then (oldpkg\<lparr>p_depends_count := p_depends_count newpkg, p_depends := p_depends newpkg,
             p_pre_depends_count := p_pre_depends_count newpkg,
             p_recommends_count := p_recommends_count newpkg,
             p_suggests_count := p_suggests_count newpkg\<rparr>,
           newpkg\<lparr>p_depends_count := 0, p_depends := [], p_pre_depends_count := 0,
             p_recommends_count := 0, p_suggests_count := 0\<rparr>)
     else (oldpkg, newpkg))"

definition merge_provides :: "pkg \<times> pkg \<Rightarrow> pkg \<times> pkg" where
  "merge_provides = (\<lambda>(oldpkg, newpkg).
     if p_provides_count oldpkg \<le> 1
     then (if p_provides oldpkg = None
           then (oldpkg\<lparr>p_provides_count := p_provides_count newpkg, p_provides := p_provides newpkg\<rparr>,
                 newpkg\<lparr>p_provides_count := 0, p_provides := None\<rparr>)
           else (oldpkg\<lparr>p_provides_count := p_provides_count newpkg\<rparr>, newpkg\<lparr>p_provides_count := 0\<rparr>))
     else (oldpkg, newpkg))"

definition merge_conflicts :: "pkg \<times> pkg \<Rightarrow> pkg \<times> pkg" where
  "merge_conflicts = (\<lambda>(oldpkg, newpkg).
     if p_conflicts_count oldpkg = 0
     then (oldpkg\<lparr>p_conflicts_count := p_conflicts_count newpkg, p_conflicts := p_conflicts newpkg\<rparr>,
           newpkg\<lparr>p_conflicts_count := 0, p_conflicts := None\<rparr>)
     else (oldpkg, newpkg))"

definition merge_replaces :: "pkg \<times> pkg \<Rightarrow> pkg \<times> pkg" where
  "merge_replaces = (\<lambda>(oldpkg, newpkg).
     if p_replaces_count oldpkg = 0
     then (oldpkg\<lparr>p_replaces_count := p_replaces_count newpkg, p_replaces := p_replaces newpkg\<rparr>,
           newpkg\<lparr>p_replaces_count := 0, p_replaces := []\<rparr>)
     else (oldpkg, newpkg))"

definition merge_texts :: "pkg \<times> pkg \<Rightarrow> pkg \<times> pkg" where
  "merge_texts = (\<lambda>(oldpkg, newpkg).
     (oldpkg\<lparr>p_filename := or_else (p_filename oldpkg) (p_filename newpkg),
        p_local_filename := or_else (p_local_filename oldpkg) (p_local_filename newpkg),
        p_tmp_unpack_dir := or_else (p_tmp_unpack_dir oldpkg) (p_tmp_unpack_dir newpkg),
        p_md5sum := or_else (p_md5sum oldpkg) (p_md5sum newpkg),
        p_size := (if p_size oldpkg = 0 then p_size newpkg else p_size oldpkg),
        p_installed_size := (if p_installed_size oldpkg = 0 then p_installed_size newpkg
                             else p_installed_size oldpkg),
        p_priority := or_else (p_priority oldpkg) (p_priority newpkg),
        p_source := or_else (p_source oldpkg) (p_source newpkg)\<rparr>, newpkg))"

definition merge_files :: "pkg \<times> pkg \<Rightarrow> pkg \<times> pkg" where
  "merge_files = (\<lambda>(oldpkg, newpkg).
     let (old1, new1) = (if p_conffiles oldpkg = []
           then (oldpkg\<lparr>p_conffiles := p_conffiles newpkg\<rparr>, newpkg\<lparr>p_conffiles := []\<rparr>)
           else (oldpkg, newpkg));
         (old2, new2) = (if p_installed_files old1 = None
           then (old1\<lparr>p_installed_files := p_installed_files new1,
                     p_installed_files_ref_cnt := p_installed_files_ref_cnt new1\<rparr>,
                 new1\<lparr>p_installed_files := None\<rparr>)
           else (old1, new1))
     in (old2\<lparr>p_essential := p_essential old2 \<or> p_essential new2\<rparr>, new2))"

definition pkg_merge :: "pkg \<Rightarrow> pkg \<Rightarrow> pkg \<times> pkg" where
  "pkg_merge oldpkg newpkg = merge_files (merge_texts (merge_replaces (merge_conflicts
     (merge_provides (merge_depends (merge_origin (oldpkg, newpkg)))))))"

text \<open>Pointers that are freed and not reset keep their value.\<close>

definition pkg_deinit :: "pkg \<Rightarrow> pkg" where
  "pkg_deinit pkg =
     pkg\<lparr>p_name := None, p_epoch := 0, p_version := None, p_revision := None, p_dest := None,
         p_src := None, p_architecture := None, p_maintainer := None, p_section := None,
         p_description := None, p_state_want := SW_UNKNOWN, p_state_flag := SF_OK,
         p_state_status := SS_NOT_INSTALLED, p_replaces := [], p_pre_depends_count := 0,
         p_provides_count := 0, p_filename := None, p_local_filename := None,
         p_tmp_unpack_dir := None, p_md5sum := None, p_priority := None, p_source := None,
         p_conffiles := [], p_installed_files_ref_cnt := 0, p_installed_files := None,
         p_essential := False, p_tags := None\<rparr>"

text \<open>
  \<open>pkg_vec_insert_merge\<close>: the index of the first package that has the name and either the same
  version and architecture, or the new package is one held for removal. A package that is
  overwritten is released.
\<close>

definition same_version_arch :: "pkg \<Rightarrow> pkg \<Rightarrow> bool option" where
  "same_version_arch p q =
     (if pkg_compare_versions p q = 0 then same_text (p_architecture p) (p_architecture q) else Some False)"

definition merge_match :: "pkg \<Rightarrow> pkg \<Rightarrow> bool option" where
  "merge_match p q =
     do { n \<leftarrow> same_text (p_name p) (p_name q);
          if \<not> n then Some False
          else if p_state_want p = SW_DEINSTALL \<and> p_state_flag p AND SF_HOLD \<noteq> 0 then Some True
          else same_version_arch p q }"

fun find_merge :: "(pkg_ref \<Rightarrow> bool option) \<Rightarrow> nat \<Rightarrow> pkg_ref list \<Rightarrow> nat option option" where
  "find_merge P i [] = Some None"
| "find_merge P i (r # vec) =
     do { b \<leftarrow> P r; if b then Some (Some i) else find_merge P (i + 1) vec }"

definition pkg_vec_insert_merge ::
  "pkg_ref list \<Rightarrow> pkg_ref \<Rightarrow> bool \<Rightarrow> store \<Rightarrow> (pkg_ref list \<times> store) option" where
  "pkg_vec_insert_merge vec pkg set_status s =
     do { found \<leftarrow> find_merge (\<lambda>r. merge_match (s_pkgs s pkg) (s_pkgs s r)) 0 vec;
          case found of
            None \<Rightarrow> Some (pkg_vec_insert vec pkg, s)
          | Some i \<Rightarrow>
              let old = vec ! i;
                  s1 = (if set_status \<and> pkg \<noteq> old then
                          (case pkg_merge (s_pkgs s pkg) (s_pkgs s old) of
                             (p, q) \<Rightarrow> upd_pkg old (\<lambda>_. q) (upd_pkg pkg (\<lambda>_. p) s))
                        else s)
              in Some (vec[i := pkg], upd_pkg old pkg_deinit s1) }"

section \<open>Abstract packages by name\<close>

definition abstract_pkg_fetch_by_name :: "string \<Rightarrow> store \<Rightarrow> apkg_ref option \<times> store" where
  "abstract_pkg_fetch_by_name pkg_name s =
     (case hash_table_get (s_hash s) pkg_name of (r, h) \<Rightarrow> (r, s\<lparr>s_hash := h\<rparr>))"

text \<open>A new abstract package takes the next reference.\<close>

definition add_new_abstract_pkg_by_name :: "string \<Rightarrow> store \<Rightarrow> apkg_ref \<times> store" where
  "add_new_abstract_pkg_by_name pkg_name s =
     (let r = s_apkg_next s
      in (r, s\<lparr>s_apkg_next := r + 1,
               s_apkgs := (s_apkgs s)(r := abstract_pkg_new\<lparr>ap_name := Some pkg_name\<rparr>),
               s_hash := snd (hash_table_insert (s_hash s) pkg_name r)\<rparr>))"

definition ensure_abstract_pkg_by_name :: "string \<Rightarrow> store \<Rightarrow> apkg_ref \<times> store" where
  "ensure_abstract_pkg_by_name pkg_name s =
     (case abstract_pkg_fetch_by_name pkg_name s of
        (Some r, s') \<Rightarrow> (r, s')
      | (None, s') \<Rightarrow> add_new_abstract_pkg_by_name pkg_name s')"

section \<open>Well-formed stores\<close>

text \<open>
  Every entry of the hash table names an abstract package of the store that has this name, so the
  table is injective, and abstract packages are only reachable by references below the next one.
\<close>

definition names_ok :: "store \<Rightarrow> bool" where
  "names_ok s \<longleftrightarrow> ht_ok (s_hash s) \<and>
     (\<forall>n r. ht_map (s_hash s) n = Some r \<longrightarrow> r < s_apkg_next s \<and> ap_name (s_apkgs s r) = Some n)"

lemma ensure_by_name:
  assumes "names_ok s" "ensure_abstract_pkg_by_name n s = (r, s')"
  shows "names_ok s'" and "ht_map (s_hash s') = (ht_map (s_hash s))(n \<mapsto> r)"
    and "s_pkgs s' = s_pkgs s" and "r < s_apkg_next s'" and "s_apkg_next s \<le> s_apkg_next s'"
    and "\<And>q. q < s_apkg_next s \<Longrightarrow> s_apkgs s' q = s_apkgs s q" and "ap_name (s_apkgs s' r) = Some n"
proof -
  define g where "g = hash_table_get (s_hash s) n"
  have g: "fst g = ht_map (s_hash s) n" "ht_map (snd g) = ht_map (s_hash s)" "ht_ok (snd g)"
    using assms(1) by (simp_all add: g_def hash_table_get_map hash_table_get_same names_ok_def)
  have e: "ensure_abstract_pkg_by_name n s =
      (case fst g of Some r \<Rightarrow> (r, s\<lparr>s_hash := snd g\<rparr>)
       | None \<Rightarrow> add_new_abstract_pkg_by_name n (s\<lparr>s_hash := snd g\<rparr>))"
    unfolding g_def ensure_abstract_pkg_by_name_def abstract_pkg_fetch_by_name_def
    by (simp add: case_prod_unfold cong: option.case_cong)
  have "names_ok s' \<and> ht_map (s_hash s') = (ht_map (s_hash s))(n \<mapsto> r) \<and> s_pkgs s' = s_pkgs s \<and>
      r < s_apkg_next s' \<and> s_apkg_next s \<le> s_apkg_next s' \<and>
      (\<forall>q < s_apkg_next s. s_apkgs s' q = s_apkgs s q) \<and> ap_name (s_apkgs s' r) = Some n"
  proof (cases "fst g")
    case (Some r0)
    then have "r = r0" "s' = s\<lparr>s_hash := snd g\<rparr>" using assms(2) e by auto
    moreover have "ht_map (s_hash s) n = Some r0" using Some g(1) by simp
    moreover from this have "(ht_map (s_hash s))(n \<mapsto> r0) = ht_map (s_hash s)" by (auto simp: fun_eq_iff)
    ultimately show ?thesis using assms(1) g by (auto simp: names_ok_def)
  next
    case None
    then have r: "r = s_apkg_next s" and s': "s' = s\<lparr>s_apkg_next := r + 1,
        s_apkgs := (s_apkgs s)(r := abstract_pkg_new\<lparr>ap_name := Some n\<rparr>),
        s_hash := snd (hash_table_insert (snd g) n r)\<rparr>"
      using assms(2) e by (auto simp: add_new_abstract_pkg_by_name_def Let_def)
    have "ht_ok (snd (hash_table_insert (snd g) n r))"
      "ht_map (snd (hash_table_insert (snd g) n r)) = (ht_map (s_hash s))(n \<mapsto> r)"
      using hash_table_insert_map [OF g(3), of n r] g(2) by simp_all
    then show ?thesis using assms(1) unfolding s' r by (auto simp: names_ok_def less_Suc_eq)
  qed
  then show "names_ok s'" "ht_map (s_hash s') = (ht_map (s_hash s))(n \<mapsto> r)"
    "s_pkgs s' = s_pkgs s" "r < s_apkg_next s'" "s_apkg_next s \<le> s_apkg_next s'"
    "\<And>q. q < s_apkg_next s \<Longrightarrow> s_apkgs s' q = s_apkgs s q" "ap_name (s_apkgs s' r) = Some n"
    by auto
qed

section \<open>Properties\<close>

text \<open>\<open>ensure_abstract_pkg_by_name\<close> finds or creates the one abstract package of a name: asking
  twice gives the same reference and creates nothing the second time, different names have
  different abstract packages, and the existing ones are untouched.\<close>

theorem ensure_abstract_pkg_unique:
  assumes "names_ok s" "ensure_abstract_pkg_by_name n s = (r, s1)" "ensure_abstract_pkg_by_name m s1 = (q, s2)"
  shows "(r = q) = (n = m) \<and> (n = m \<longrightarrow> s_apkg_next s2 = s_apkg_next s1 \<and> s_apkgs s2 = s_apkgs s1) \<and>
    (\<forall>a < s_apkg_next s. s_apkgs s2 a = s_apkgs s a) \<and> names_ok s2"
proof -
  note A = ensure_by_name [OF assms(1,2)] and B = ensure_by_name [OF ensure_by_name(1) [OF assms(1,2)] assms(3)]
  have "ap_name (s_apkgs s2 r) = Some n" using A(4,7) B(6) by simp
  then have neq: "n \<noteq> m \<Longrightarrow> r \<noteq> q" using B(7) by auto
  have same: "r = q \<and> s_apkg_next s2 = s_apkg_next s1 \<and> s_apkgs s2 = s_apkgs s1" if "n = m"
  proof -
    have "fst (hash_table_get (s_hash s1) m) = Some r" using A(2) that by (simp add: hash_table_get_map)
    then show ?thesis using assms(3)
      by (auto simp: ensure_abstract_pkg_by_name_def abstract_pkg_fetch_by_name_def split: prod.splits)
  qed
  have "s_apkgs s2 a = s_apkgs s a" if "a < s_apkg_next s" for a
    using A(5,6) B(6) that by simp
  then show ?thesis using neq same B(1) by blast
qed

definition empty_store :: store where
  "empty_store = \<lparr>s_pkgs = \<lambda>r. pkg_new, s_apkgs = \<lambda>r. abstract_pkg_new, s_apkg_next = 0,
     s_hash = hash_table_init ''pkg-hash'' blank_table 1024\<rparr>"

lemma empty_store_ok: "names_ok empty_store"
  using hash_table_init_map [of "blank_table :: apkg_ref hash_table" 1024 "''pkg-hash''"]
  by (simp add: names_ok_def empty_store_def blank_table_def)

theorem ensure_abstract_pkg_unique_witness:
  "fst (ensure_abstract_pkg_by_name ''b'' (snd (ensure_abstract_pkg_by_name ''a'' empty_store))) \<noteq>
   fst (ensure_abstract_pkg_by_name ''a'' empty_store)"
proof -
  obtain r s1 where 1: "ensure_abstract_pkg_by_name ''a'' empty_store = (r, s1)" by (cases "ensure_abstract_pkg_by_name ''a'' empty_store")
  obtain q s2 where 2: "ensure_abstract_pkg_by_name ''b'' s1 = (q, s2)" by (cases "ensure_abstract_pkg_by_name ''b'' s1")
  show ?thesis using ensure_abstract_pkg_unique [OF empty_store_ok 1 2] by (auto simp: 1 2)
qed

lemma merge_provides_fields:
  "p_provides_count (fst (merge_files x)) = p_provides_count (fst x)"
  "p_provides (fst (merge_files x)) = p_provides (fst x)"
  "p_provides_count (fst (merge_texts x)) = p_provides_count (fst x)"
  "p_provides (fst (merge_texts x)) = p_provides (fst x)"
  "p_provides_count (fst (merge_replaces x)) = p_provides_count (fst x)"
  "p_provides (fst (merge_replaces x)) = p_provides (fst x)"
  "p_provides_count (fst (merge_conflicts x)) = p_provides_count (fst x)"
  "p_provides (fst (merge_conflicts x)) = p_provides (fst x)"
  "p_provides_count (fst (merge_provides x)) =
     (if p_provides_count (fst x) \<le> 1 then p_provides_count (snd x) else p_provides_count (fst x))"
  "p_provides (fst (merge_provides x)) =
     (if p_provides_count (fst x) \<le> 1 \<and> p_provides (fst x) = None then p_provides (snd x) else p_provides (fst x))"
  "p_provides_count (fst (merge_depends x)) = p_provides_count (fst x)"
  "p_provides (fst (merge_depends x)) = p_provides (fst x)"
  "p_provides_count (snd (merge_depends x)) = p_provides_count (snd x)"
  "p_provides_count (fst (merge_origin x)) = p_provides_count (fst x)"
  "p_provides (fst (merge_origin x)) = p_provides (fst x)"
  "snd (merge_origin x) = snd x"
  by (simp_all add: merge_files_def merge_texts_def merge_replaces_def merge_conflicts_def
      merge_provides_def merge_depends_def merge_origin_def case_prod_unfold Let_def)

text \<open>\<open>pkg_merge\<close> can leave a package whose \<open>provides_count\<close> is larger than its array: when the old
  package provides only itself and the new one provides more, the count is taken over and the
  array is not. Printing the package then reads outside of the array.\<close>

theorem pkg_merge_breaks_provides:
  assumes "p_provides_count oldpkg = 1" "p_provides oldpkg = Some [self]"
    and "1 < p_provides_count newpkg"
  shows "p_provides_count (fst (pkg_merge oldpkg newpkg)) > length (the (p_provides (fst (pkg_merge oldpkg newpkg)))) \<and>
    pkg_formatted_field nm (fst (pkg_merge oldpkg newpkg)) ''Provides'' = None"
proof -
  have p: "p_provides_count (fst (pkg_merge oldpkg newpkg)) = p_provides_count newpkg"
    "p_provides (fst (pkg_merge oldpkg newpkg)) = Some [self]"
    using assms(1,2) by (simp_all add: pkg_merge_def merge_provides_fields case_prod_unfold)
  then show ?thesis using assms(3)
    by (simp add: pkg_formatted_field_def PKG_MINIMUM_FIELD_NAME_LEN_def strcasecmp_eq_def
        tolower_letters Let_def first_n_def)
qed

theorem pkg_merge_breaks_provides_witness:
  "pkg_formatted_field (\<lambda>r. ''x'')
     (fst (pkg_merge (pkg_new\<lparr>p_provides_count := 1, p_provides := Some [0]\<rparr>)
                     (pkg_new\<lparr>p_provides_count := 2, p_provides := Some [0, 1]\<rparr>))) ''Provides'' = None"
  using pkg_merge_breaks_provides [of "pkg_new\<lparr>p_provides_count := 1, p_provides := Some [0]\<rparr>" 0
      "pkg_new\<lparr>p_provides_count := 2, p_provides := Some [0, 1]\<rparr>" "\<lambda>r. ''x''"] by simp

end
