(* ===== verification/Opkg_Depends.thy ===== *)
theory Opkg_Depends
  imports Opkg_Store
begin

text \<open>
  Dependencies (\<open>libopkg/pkg_depends.c\<close>): the parser of dependency texts, the functions that build
  the graph of abstract packages, and the predicates on it.
\<close>

section \<open>The parser\<close>

definition BUFFER_LEN :: nat where "BUFFER_LEN = 2048"

definition name_char :: "char \<Rightarrow> bool" where
  "name_char c \<longleftrightarrow> \<not> isspace c \<and> c \<noteq> CHR ''('' \<and> c \<noteq> CHR ''*'' \<and> c \<noteq> CHR ''|''"

definition parse_constraint :: "string \<Rightarrow> version_constraint \<times> string" where
  "parse_constraint src =
     (if starts_with src ''<<'' then (EARLIER, drop 2 src)
      else if starts_with src ''<='' then (EARLIER_EQUAL, drop 2 src)
      else if starts_with src ''>='' then (LATER_EQUAL, drop 2 src)
      else if starts_with src ''>>'' then (LATER, drop 2 src)
      else if starts_with src ''='' then (EQUAL, tl src)
      else if starts_with src ''<'' then (EARLIER_EQUAL, tl src)
      else if starts_with src ''>'' then (LATER_EQUAL, tl src)
      else (NONE, src))"

text \<open>
  One alternative: its name, constraint and version, whether a star follows, and the rest of the
  text. A name or a version that does not fit the buffer is written past its end.
\<close>

definition parse_version_part :: "string \<Rightarrow> (version_constraint \<times> string option \<times> string) option" where
  "parse_version_part src =
     (case src of
        CHR ''('' # src1 \<Rightarrow>
          (case parse_constraint src1 of (c, src2) \<Rightarrow>
             let src3 = dropWhile isspace src2;
                 v = takeWhile (\<lambda>x. x \<noteq> CHR '')'') src3
             in if BUFFER_LEN \<le> length v then None
                else Some (c, Some (trim_xstrdup v), dropWhile (\<lambda>x. x \<noteq> CHR '')'') src3))
      | _ \<Rightarrow> Some (NONE, None, src))"

definition skip_separators :: "string \<Rightarrow> string" where
  "skip_separators = dropWhile (\<lambda>c. isspace c \<or> c = CHR '')'' \<or> c = CHR ''|'')"

definition parse_possibility ::
  "string \<Rightarrow> (string \<times> version_constraint \<times> string option \<times> bool \<times> string) option" where
  "parse_possibility src =
     (let nm = takeWhile name_char src
      in if BUFFER_LEN \<le> length nm then None
         else case parse_version_part (dropWhile isspace (dropWhile name_char src)) of
           None \<Rightarrow> None
         | Some (c, v, src1) \<Rightarrow>
             (case skip_separators src1 of
                CHR ''*'' # rest \<Rightarrow> Some (trim_xstrdup nm, c, v, True, rest)
              | rest \<Rightarrow> Some (trim_xstrdup nm, c, v, False, rest)))"

fun parse_possibilities ::
  "nat \<Rightarrow> string \<Rightarrow> compound_depend \<Rightarrow> store \<Rightarrow> (compound_depend \<times> store) option" where
  "parse_possibilities 0 src cd s = Some (cd, s)"
| "parse_possibilities (Suc n) src cd s =
     (case parse_possibility src of
        None \<Rightarrow> None
      | Some (nm, c, v, greedy, rest) \<Rightarrow>
          (case ensure_abstract_pkg_by_name nm s of
             (r, s') \<Rightarrow>
               parse_possibilities n rest
                 (cd\<lparr>cd_possibilities := cd_possibilities cd @ [\<lparr>d_constraint = c, d_version = v, d_pkg = r\<rparr>],
                     cd_type := (if greedy then GREEDY_DEPEND else cd_type cd)\<rparr>) s'))"

definition num_of_ors :: "string \<Rightarrow> nat" where
  "num_of_ors s = length (filter (\<lambda>c. c = CHR ''|'') s)"

definition parseDepends :: "string \<Rightarrow> store \<Rightarrow> (compound_depend \<times> store) option" where
  "parseDepends depend_str s =
     parse_possibilities (num_of_ors depend_str + 1) depend_str
       \<lparr>cd_type = DEPEND, cd_possibilities = []\<rparr> s"

section \<open>Building the graph\<close>

text \<open>A loop that parses the first texts of an array, each with the type it is given afterwards.\<close>

fun parse_texts ::
  "(depend_type \<Rightarrow> depend_type) \<Rightarrow> nat \<Rightarrow> string list \<Rightarrow> store \<Rightarrow> (compound_depend list \<times> store) option" where
  "parse_texts ty 0 strs s = Some ([], s)"
| "parse_texts ty (Suc n) [] s = None"
| "parse_texts ty (Suc n) (str # strs) s =
     do { (cd, s1) \<leftarrow> parseDepends str s;
          (cds, s2) \<leftarrow> parse_texts ty n strs s1;
          Some (cd\<lparr>cd_type := ty (cd_type cd)\<rparr> # cds, s2) }"

definition buildDepends :: "pkg_ref \<Rightarrow> store \<Rightarrow> store option" where
  "buildDepends r s =
     (let pkg = s_pkgs s r in
      if all_depends_count pkg = 0 then Some s
      else do { (pre, s1) \<leftarrow> parse_texts (\<lambda>t. PREDEPEND) (p_pre_depends_count pkg) (p_pre_depends_str pkg) s;
                (dep, s2) \<leftarrow> parse_texts (\<lambda>t. t) (p_depends_count pkg) (p_depends_str pkg) s1;
                (rec, s3) \<leftarrow> parse_texts (\<lambda>t. RECOMMEND) (p_recommends_count pkg) (p_recommends_str pkg) s2;
                (sug, s4) \<leftarrow> parse_texts (\<lambda>t. SUGGEST) (p_suggests_count pkg) (p_suggests_str pkg) s3;
                Some (upd_pkg r (\<lambda>p. p\<lparr>p_depends := pre @ dep @ rec @ sug\<rparr>) s4) })"

definition buildConflicts :: "pkg_ref \<Rightarrow> store \<Rightarrow> store option" where
  "buildConflicts r s =
     (let pkg = s_pkgs s r in
      if p_conflicts_count pkg = 0 then Some s
      else do { (cs, s1) \<leftarrow> parse_texts (\<lambda>t. t) (p_conflicts_count pkg) (p_conflicts_str pkg) s;
                Some (upd_pkg r (\<lambda>p. p\<lparr>p_conflicts := Some cs\<rparr>) s1) })"

definition insert_provider :: "apkg_ref \<Rightarrow> apkg_ref \<Rightarrow> store \<Rightarrow> store" where
  "insert_provider provided ab_pkg s =
     upd_apkg provided (\<lambda>a. a\<lparr>ap_provided_by := abstract_pkg_vec_insert (ap_provided_by a) ab_pkg\<rparr>) s"

fun provide_names :: "apkg_ref \<Rightarrow> nat \<Rightarrow> string list \<Rightarrow> store \<Rightarrow> (apkg_ref list \<times> store) option" where
  "provide_names ab_pkg 0 strs s = Some ([], s)"
| "provide_names ab_pkg (Suc n) [] s = None"
| "provide_names ab_pkg (Suc n) (str # strs) s =
     (case ensure_abstract_pkg_by_name str s of
        (a, s1) \<Rightarrow>
          do { (rest, s2) \<leftarrow> provide_names ab_pkg n strs (insert_provider a ab_pkg s1);
               Some (a # rest, s2) })"

definition buildProvides :: "apkg_ref \<Rightarrow> pkg_ref \<Rightarrow> store \<Rightarrow> store option" where
  "buildProvides ab_pkg r s =
     (let pkg = s_pkgs s r
      in do { (provided, s1) \<leftarrow> provide_names ab_pkg (p_provides_count pkg) (p_provides_str pkg)
                                   (insert_provider ab_pkg ab_pkg s);
              Some (upd_pkg r (\<lambda>p. p\<lparr>p_provides_count := p_provides_count p + 1,
                                     p_provides := Some (ab_pkg # provided)\<rparr>) s1) })"

section \<open>Conflicts and replacements\<close>

definition pkg_conflicts_abstract :: "pkg \<Rightarrow> apkg_ref \<Rightarrow> bool option" where
  "pkg_conflicts_abstract pkg conflictee =
     (if p_conflicts_count pkg = 0 then Some False
      else case p_conflicts pkg of
        None \<Rightarrow> None
      | Some cs \<Rightarrow> any_n (p_conflicts_count pkg)
          (\<lambda>c. Some (list_ex (\<lambda>d. d_pkg d = conflictee) (cd_possibilities c))) cs)"

text \<open>The comparison of one alternative with everything the other package provides.\<close>

definition provides_ref :: "pkg \<Rightarrow> apkg_ref \<Rightarrow> bool option" where
  "provides_ref pkg a =
     (if p_provides_count pkg = 0 then Some False
      else case p_provides pkg of
        None \<Rightarrow> None
      | Some ps \<Rightarrow> any_n (p_provides_count pkg) (\<lambda>x. Some (x = a)) ps)"

definition pkg_conflicts :: "pkg \<Rightarrow> pkg \<Rightarrow> bool option" where
  "pkg_conflicts pkg conflictee =
     (if p_conflicts_count pkg = 0 then Some False
      else case p_conflicts pkg of
        None \<Rightarrow> None
      | Some cs \<Rightarrow> any_n (p_conflicts_count pkg)
          (\<lambda>c. any_n (length (cd_possibilities c)) (\<lambda>d. provides_ref conflictee (d_pkg d))
                 (cd_possibilities c)) cs)"

definition pkg_replaces :: "pkg \<Rightarrow> pkg \<Rightarrow> bool option" where
  "pkg_replaces pkg replacee =
     any_n (p_replaces_count pkg) (provides_ref replacee) (p_replaces pkg)"

fun replace_names :: "pkg_ref \<Rightarrow> apkg_ref \<Rightarrow> nat \<Rightarrow> nat \<Rightarrow> string list \<Rightarrow> store \<Rightarrow> store option" where
  "replace_names r ab_pkg i 0 strs s = Some s"
| "replace_names r ab_pkg i (Suc n) [] s = None"
| "replace_names r ab_pkg i (Suc n) (str # strs) s =
     (case ensure_abstract_pkg_by_name str s of
        (old, s1) \<Rightarrow>
          let s2 = upd_pkg r (\<lambda>p. p\<lparr>p_replaces := (p_replaces p)[i := old]\<rparr>) s1;
              s3 = upd_apkg old (\<lambda>a. a\<lparr>ap_replaced_by :=
                     (case ap_replaced_by a of None \<Rightarrow> Some [] | Some v \<Rightarrow> Some v)\<rparr>) s2
          in do { c \<leftarrow> pkg_conflicts_abstract (s_pkgs s3 r) old;
                  replace_names r ab_pkg (i + 1) n strs
                    (if c then upd_apkg old (\<lambda>a. a\<lparr>ap_replaced_by :=
                             map_option (\<lambda>v. abstract_pkg_vec_insert v ab_pkg) (ap_replaced_by a)\<rparr>) s3
                     else s3) })"

text \<open>The array of replaced packages is zeroed first.\<close>

definition buildReplaces :: "apkg_ref \<Rightarrow> pkg_ref \<Rightarrow> store \<Rightarrow> store option" where
  "buildReplaces ab_pkg r s =
     (let pkg = s_pkgs s r; n = p_replaces_count pkg
      in if n = 0 then Some s
         else replace_names r ab_pkg 0 n (p_replaces_str pkg)
                (upd_pkg r (\<lambda>p. p\<lparr>p_replaces := replicate n 0\<rparr>) s))"

section \<open>Reverse dependencies\<close>

text \<open>The null-terminated array grows by one entry.\<close>

definition add_depended :: "apkg_ref \<Rightarrow> depend \<Rightarrow> store \<Rightarrow> store" where
  "add_depended ab_pkg d s =
     upd_apkg (d_pkg d) (\<lambda>a. a\<lparr>ap_depended_upon_by :=
       Some ((case ap_depended_upon_by a of None \<Rightarrow> [] | Some v \<Rightarrow> v) @ [ab_pkg])\<rparr>) s"

definition buildDependedUponBy :: "pkg_ref \<Rightarrow> apkg_ref \<Rightarrow> store \<Rightarrow> store option" where
  "buildDependedUponBy r ab_pkg s =
     (case first_n (all_depends_count (s_pkgs s r)) (p_depends (s_pkgs s r)) of
        None \<Rightarrow> None
      | Some ds \<Rightarrow>
          Some (fold (\<lambda>cd s. if cd_type cd \<in> {PREDEPEND, DEPEND, RECOMMEND}
                             then fold (add_depended ab_pkg) (cd_possibilities cd) s else s) ds s))"

section \<open>Satisfaction\<close>

definition is_installed :: "pkg \<Rightarrow> bool" where
  "is_installed pkg \<longleftrightarrow> p_state_status pkg = SS_INSTALLED \<or> p_state_status pkg = SS_UNPACKED"

definition pkg_installed_and_constraint_satisfied :: "pkg \<Rightarrow> depend \<Rightarrow> bool" where
  "pkg_installed_and_constraint_satisfied pkg depend \<longleftrightarrow>
     is_installed pkg \<and> version_constraints_satisfied depend pkg"

definition pkg_constraint_satisfied :: "pkg \<Rightarrow> depend \<Rightarrow> bool" where
  "pkg_constraint_satisfied pkg depend \<longleftrightarrow> version_constraints_satisfied depend pkg"

definition apkg_pkgs :: "store \<Rightarrow> apkg_ref \<Rightarrow> pkg_ref list" where
  "apkg_pkgs s a = (case ap_pkgs (s_apkgs s a) of None \<Rightarrow> [] | Some v \<Rightarrow> v)"

definition pkg_dependence_satisfiable :: "depend \<Rightarrow> store \<Rightarrow> bool" where
  "pkg_dependence_satisfiable depend s =
     list_ex (\<lambda>a. list_ex (\<lambda>p. version_constraints_satisfied depend (s_pkgs s p)) (apkg_pkgs s a))
       (ap_provided_by (s_apkgs s (d_pkg depend)))"

definition pkg_dependence_satisfied :: "depend \<Rightarrow> store \<Rightarrow> bool" where
  "pkg_dependence_satisfied depend s =
     list_ex (\<lambda>a. list_ex (\<lambda>p. version_constraints_satisfied depend (s_pkgs s p) \<and>
                               is_installed (s_pkgs s p)) (apkg_pkgs s a))
       (ap_provided_by (s_apkgs s (d_pkg depend)))"

definition is_pkg_in_pkg_vec :: "pkg_ref list \<Rightarrow> pkg \<Rightarrow> store \<Rightarrow> bool option" where
  "is_pkg_in_pkg_vec vec pkg s =
     any_n (length vec) (\<lambda>q.
       do { n \<leftarrow> same_text (p_name pkg) (p_name (s_pkgs s q));
            if \<not> n then Some False else same_version_arch pkg (s_pkgs s q) }) vec"

definition is_pkg_a_replaces :: "pkg \<Rightarrow> pkg \<Rightarrow> store \<Rightarrow> bool option" where
  "is_pkg_a_replaces pkg_scout pkg s =
     any_n (p_replaces_count pkg)
       (\<lambda>a. same_text (p_name pkg_scout) (ap_name (s_apkgs s a))) (p_replaces pkg)"

definition scout_conflict :: "pkg_ref \<Rightarrow> depend \<Rightarrow> pkg_ref \<Rightarrow> pkg_ref list \<times> store \<Rightarrow> (pkg_ref list \<times> store) option" where
  "scout_conflict r d scout x =
     (case x of (found, s) \<Rightarrow>
        let sp = s_pkgs s scout in
        if \<not> (p_state_status sp = SS_INSTALLED \<or> p_state_want sp = SW_INSTALL) \<or>
           \<not> version_constraints_satisfied d sp then Some (found, s)
        else do { repl \<leftarrow> is_pkg_a_replaces sp (s_pkgs s r) s;
                  if repl then Some (found, s)
                  else do { known \<leftarrow> is_pkg_in_pkg_vec found sp s;
                            Some (if known then found else pkg_vec_insert found scout, s) } })"

text \<open>NULL stands for an empty vector here, so the result is the vector.\<close>

definition pkg_hash_fetch_conflicts :: "pkg_ref \<Rightarrow> store \<Rightarrow> pkg_ref list option" where
  "pkg_hash_fetch_conflicts r s =
     (let pkg = s_pkgs s r in
      if p_parent pkg = None then Some []
      else case p_conflicts pkg of
        None \<Rightarrow> Some []
      | Some conflicts \<Rightarrow>
          do { cs \<leftarrow> first_n (p_conflicts_count pkg) conflicts;
               (found, s') \<leftarrow> foldM (\<lambda>c. foldM (\<lambda>d. foldM (scout_conflict r d) (apkg_pkgs s (d_pkg d)))
                                      (cd_possibilities c)) cs ([], s);
               Some found })"

section \<open>Messages about what is missing\<close>

definition merge_unresolved :: "string list option \<Rightarrow> string list option \<Rightarrow> string list option" where
  "merge_unresolved oldstuff newstuff =
     (case newstuff of
        None \<Rightarrow> oldstuff
      | Some new \<Rightarrow> Some ((case oldstuff of None \<Rightarrow> [] | Some old \<Rightarrow> old) @ new))"

definition apkg_name :: "store \<Rightarrow> apkg_ref \<Rightarrow> string" where
  "apkg_name s a = fmt_s (ap_name (s_apkgs s a))"

definition add_unresolved_dep :: "pkg \<Rightarrow> string list option \<Rightarrow> nat \<Rightarrow> store \<Rightarrow> string list option" where
  "add_unresolved_dep pkg the_lost ref_ndx s =
     Some ((case the_lost of None \<Rightarrow> [] | Some l \<Rightarrow> l) @ [pkg_depend_str (apkg_name s) (p_depends pkg ! ref_ndx)])"

section \<open>Insertion of a package\<close>

definition hash_insert_pkg :: "pkg_ref \<Rightarrow> bool \<Rightarrow> store \<Rightarrow> store option" where
  "hash_insert_pkg r set_status s =
     (case p_name (s_pkgs s r) of
        None \<Rightarrow> None
      | Some name \<Rightarrow>
          (case ensure_abstract_pkg_by_name name s of
             (ab_pkg, s1) \<Rightarrow>
               let s2 = upd_apkg ab_pkg (\<lambda>a. a\<lparr>ap_pkgs := (case ap_pkgs a of None \<Rightarrow> Some [] | v \<Rightarrow> v)\<rparr>) s1;
                   st = p_state_status (s_pkgs s2 r);
                   s3 = (if st = SS_INSTALLED \<or> st = SS_UNPACKED
                         then upd_apkg ab_pkg (\<lambda>a. a\<lparr>ap_state_status := st\<rparr>) s2 else s2)
               in do { s4 \<leftarrow> buildDepends r s3;
                       s5 \<leftarrow> buildProvides ab_pkg r s4;
                       s6 \<leftarrow> buildConflicts r s5;
                       s7 \<leftarrow> buildReplaces ab_pkg r s6;
                       s8 \<leftarrow> buildDependedUponBy r ab_pkg s7;
                       (vec, s9) \<leftarrow> pkg_vec_insert_merge (apkg_pkgs s8 ab_pkg) r set_status s8;
                       Some (upd_pkg r (\<lambda>p. p\<lparr>p_parent := Some ab_pkg\<rparr>)
                              (upd_apkg ab_pkg (\<lambda>a. a\<lparr>ap_pkgs := Some vec\<rparr>) s9)) }))"

section \<open>Parsing what was printed\<close>

definition weaken :: "version_constraint \<Rightarrow> version_constraint" where
  "weaken c = (case c of EARLIER \<Rightarrow> EARLIER_EQUAL | LATER \<Rightarrow> LATER_EQUAL | c \<Rightarrow> c)"

lemma weaken_satisfied:
  "version_constraints_satisfied (d\<lparr>d_constraint := weaken (d_constraint d)\<rparr>) p = version_constraints_satisfied d p"
  by (cases "d_constraint d") (auto simp: version_constraints_satisfied_alt weaken_def Let_def)

definition dep_name_char :: "char \<Rightarrow> bool" where
  "dep_name_char c \<longleftrightarrow> name_char c \<and> c \<noteq> CHR '')''"

definition dep_text_ok :: "(apkg_ref \<Rightarrow> string) \<Rightarrow> depend \<Rightarrow> bool" where
  "dep_text_ok nm d \<longleftrightarrow>
     nm (d_pkg d) \<noteq> [] \<and> list_all dep_name_char (nm (d_pkg d)) \<and> length (nm (d_pkg d)) < BUFFER_LEN \<and>
     (case d_version d of
        None \<Rightarrow> d_constraint d = NONE
      | Some v \<Rightarrow> d_constraint d \<noteq> NONE \<and> CHR '')'' \<notin> set v \<and> CHR ''|'' \<notin> set v \<and> length v < BUFFER_LEN \<and>
                 (v \<noteq> [] \<longrightarrow> \<not> isspace (hd v) \<and> \<not> isspace (last v)))"

lemma char_facts:
  "isspace CHR '' ''" "\<not> isspace CHR ''(''" "\<not> isspace CHR '')''" "\<not> isspace CHR ''|''"
  "\<not> name_char CHR '' ''" "\<not> isspace CHR ''<''" "\<not> isspace CHR ''=''"
  by (simp_all add: isspace_def is_space_def cval_def name_char_def)

lemma name_not_space: "name_char c \<Longrightarrow> \<not> isspace c" by (simp add: name_char_def)

lemma trim_both:
  assumes "s \<noteq> [] \<Longrightarrow> \<not> isspace (hd s) \<and> \<not> isspace (last s)"
  shows "trim_xstrdup s = s"
proof (cases s)
  case Nil
  then show ?thesis by (simp add: trim_xstrdup_def trim_end_def)
next
  case (Cons c t)
  have "dropWhile isspace (rev t) = rev t"
    using assms Cons by (cases "rev t") (auto simp: last_rev split: if_splits)
  moreover have "\<not> isspace c" using assms Cons by simp
  ultimately show ?thesis by (simp add: trim_xstrdup_def trim_end_def Cons)
qed

lemma trim_name: "list_all dep_name_char s \<Longrightarrow> trim_xstrdup s = s"
  by (intro trim_both conjI) (auto simp: list_all_iff dep_name_char_def name_char_def)

text \<open>What follows an alternative: nothing, or a bar and the next one.\<close>

definition dep_rest :: "string \<Rightarrow> string \<Rightarrow> bool" where
  "dep_rest rest next \<longleftrightarrow> rest = [] \<and> next = [] \<or>
     rest = '' | '' @ next \<and> next \<noteq> [] \<and> dep_name_char (hd next)"

lemma skip_rest: "dep_rest rest next \<Longrightarrow> skip_separators rest = next"
proof -
  assume r: "dep_rest rest next"
  show ?thesis
  proof (cases "rest = []")
    case True
    then show ?thesis using r by (auto simp: dep_rest_def skip_separators_def)
  next
    case False
    then have n: "rest = '' | '' @ next" "next \<noteq> []" "dep_name_char (hd next)" using r by (auto simp: dep_rest_def)
    then have "dropWhile (\<lambda>c. isspace c \<or> c = CHR '')'' \<or> c = CHR ''|'') next = next"
      by (cases "next") (auto simp: dep_name_char_def name_char_def)
    then show ?thesis using n char_facts by (simp add: skip_separators_def)
  qed
qed

lemma take_name:
  assumes "list_all dep_name_char s" "x = [] \<or> \<not> name_char (hd x)"
  shows "takeWhile name_char (s @ x) = s" "dropWhile name_char (s @ x) = x"
proof -
  have "\<forall>c \<in> set s. name_char c" using assms(1) by (auto simp: list_all_iff dep_name_char_def)
  then show "takeWhile name_char (s @ x) = s" "dropWhile name_char (s @ x) = x"
    using assms(2) by (cases x; simp add: takeWhile_append dropWhile_append)+
qed

lemma parse_constraint_text:
  "c \<noteq> NONE \<Longrightarrow> parse_constraint (constraint_to_str c @ v) = (weaken c, CHR '' '' # v)"
  by (cases c) (simp_all add: constraint_to_str_def parse_constraint_def weaken_def)

lemma takeWhile_until:
  assumes "c \<notin> set v"
  shows "takeWhile (\<lambda>x. x \<noteq> c) (v @ c # r) = v" "dropWhile (\<lambda>x. x \<noteq> c) (v @ c # r) = c # r"
  using assms by (induction v) auto

lemma parse_possibility_text:
  assumes "dep_text_ok nm d" "dep_rest rest next"
  shows "parse_possibility (depend_text nm d @ rest) =
    Some (nm (d_pkg d), weaken (d_constraint d), d_version d, False, next)"
proof -
  let ?n = "nm (d_pkg d)"
  have n: "list_all dep_name_char ?n" "length ?n < BUFFER_LEN" using assms(1) by (auto simp: dep_text_ok_def)
  have star: "(case next of CHR ''*'' # r \<Rightarrow> Some (trim_xstrdup ?n, c, v, True, r)
      | r \<Rightarrow> Some (trim_xstrdup ?n, c, v, False, r)) = Some (?n, c, v, False, next)" for c v
  proof (cases "next")
    case (Cons x xs)
    then have "x \<noteq> CHR ''*''" using assms(2) by (auto simp: dep_rest_def dep_name_char_def name_char_def)
    then show ?thesis using Cons trim_name [OF n(1)] by (simp split: list.splits char.splits bool.splits)
  qed (use trim_name [OF n(1)] in simp)
  show ?thesis
  proof (cases "d_version d")
    case None
    then have t: "depend_text nm d @ rest = ?n @ rest" by (simp add: depend_text_def)
    have r: "rest = [] \<or> \<not> name_char (hd rest)" using assms(2) char_facts(5) by (auto simp: dep_rest_def)
    have "parse_version_part (dropWhile isspace rest) = Some (NONE, None, dropWhile isspace rest)"
      using assms(2) char_facts by (auto simp: dep_rest_def parse_version_part_def)
    moreover have "skip_separators (dropWhile isspace rest) = next"
      using skip_rest [OF assms(2)] unfolding skip_separators_def
      by (induction rest) (auto simp: dropWhile_append)
    ultimately show ?thesis
      using n None assms(1) star [of NONE None]
      unfolding t parse_possibility_def take_name [OF n(1) r]
      by (simp add: Let_def dep_text_ok_def weaken_def)
  next
    case (Some v)
    let ?c = "d_constraint d"
    have v: "?c \<noteq> NONE" "CHR '')'' \<notin> set v" "length v < BUFFER_LEN"
      "v \<noteq> [] \<Longrightarrow> \<not> isspace (hd v) \<and> \<not> isspace (last v)"
      using assms(1) Some by (auto simp: dep_text_ok_def)
    let ?x = "'' ('' @ constraint_to_str ?c @ v @ '')'' @ rest"
    have t: "depend_text nm d @ rest = ?n @ ?x" using Some by (simp add: depend_text_def)
    have r: "?x = [] \<or> \<not> name_char (hd ?x)" using char_facts(5) by simp
    have dv: "dropWhile isspace (v @ CHR '')'' # rest) = v @ CHR '')'' # rest"
      using v(4) char_facts by (cases v) auto
    have "parse_version_part (dropWhile isspace ?x) = Some (weaken ?c, Some v, CHR '')'' # rest)"
      using v(3) takeWhile_until [OF v(2)] trim_both [OF v(4)] char_facts
        parse_constraint_text [OF v(1), of "v @ '')'' @ rest"]
      by (simp add: parse_version_part_def dv Let_def)
    moreover have "skip_separators (CHR '')'' # rest) = next"
      using skip_rest [OF assms(2)] by (simp add: skip_separators_def)
    ultimately show ?thesis
      using n Some star [of "weaken ?c" "Some v"]
      unfolding t parse_possibility_def take_name [OF n(1) r] by (simp add: Let_def)
  qed
qed

lemma join_depends_Cons:
  "join_depends nm (d # ds) = depend_text nm d @ (if ds = [] then [] else '' | '' @ join_depends nm ds)"
  by (cases ds) auto

lemma join_depends_rest:
  assumes "list_all (dep_text_ok nm) ds"
  shows "dep_rest (if ds = [] then [] else '' | '' @ join_depends nm ds) (join_depends nm ds)"
proof (cases ds)
  case (Cons d ds')
  then have "nm (d_pkg d) \<noteq> []" "dep_name_char (hd (nm (d_pkg d)))"
    using assms by (auto simp: dep_text_ok_def list_all_iff)
  then have "join_depends nm ds \<noteq> []" "dep_name_char (hd (join_depends nm ds))"
    unfolding Cons join_depends_Cons depend_text_def by auto
  then show ?thesis using Cons by (simp add: dep_rest_def)
qed (simp add: dep_rest_def)

lemma num_of_ors_join:
  assumes "list_all (dep_text_ok nm) ds" "ds \<noteq> []"
  shows "num_of_ors (join_depends nm ds) + 1 = length ds"
  using assms
proof (induction ds)
  case (Cons d ds)
  have app: "num_of_ors (a @ b) = num_of_ors a + num_of_ors b" for a b by (simp add: num_of_ors_def)
  have zero: "num_of_ors a = 0" if "CHR ''|'' \<notin> set a" for a
    using that by (auto simp: num_of_ors_def filter_empty_conv)
  have "CHR ''|'' \<notin> set (nm (d_pkg d))"
    using Cons.prems(1) by (auto simp: dep_text_ok_def list_all_iff dep_name_char_def name_char_def)
  moreover have "CHR ''|'' \<notin> set (constraint_to_str c)" for c by (cases c) (auto simp: constraint_to_str_def)
  ultimately have "CHR ''|'' \<notin> set (depend_text nm d)"
    using Cons.prems(1) by (auto simp: depend_text_def dep_text_ok_def split: option.splits)
  then show ?case
    using Cons unfolding join_depends_Cons app by (simp add: zero app) (simp add: num_of_ors_def)
qed simp

text \<open>The store after a lookup that finds its name: only the statistics of the table differ.\<close>

definition same_graph :: "store \<Rightarrow> store \<Rightarrow> bool" where
  "same_graph s s' \<longleftrightarrow> names_ok s' \<and> s_pkgs s' = s_pkgs s \<and> s_apkgs s' = s_apkgs s \<and>
     s_apkg_next s' = s_apkg_next s \<and> ht_map (s_hash s') = ht_map (s_hash s)"

lemma ensure_known:
  assumes "names_ok s" "ht_map (s_hash s) n = Some r"
  shows "\<exists>s'. ensure_abstract_pkg_by_name n s = (r, s') \<and> same_graph s s'"
proof -
  define g where "g = hash_table_get (s_hash s) n"
  have g: "fst g = Some r" "ht_map (snd g) = ht_map (s_hash s)" "ht_ok (snd g)"
    using assms by (simp_all add: g_def hash_table_get_map hash_table_get_same names_ok_def)
  then have "ensure_abstract_pkg_by_name n s = (r, s\<lparr>s_hash := snd g\<rparr>)"
    unfolding ensure_abstract_pkg_by_name_def abstract_pkg_fetch_by_name_def
    by (simp add: case_prod_unfold flip: g_def)
  then show ?thesis using g assms(1) by (auto simp: same_graph_def names_ok_def)
qed

lemma parse_possibilities_text:
  assumes "names_ok s" "list_all (dep_text_ok nm) ds"
    "\<forall>d \<in> set ds. ht_map (s_hash s) (nm (d_pkg d)) = Some (d_pkg d)"
  shows "\<exists>s'. parse_possibilities (length ds) (join_depends nm ds) cd s =
      Some (cd\<lparr>cd_possibilities := cd_possibilities cd @ map (\<lambda>d. d\<lparr>d_constraint := weaken (d_constraint d)\<rparr>) ds\<rparr>, s') \<and>
    same_graph s s'"
  using assms
proof (induction ds arbitrary: cd s)
  case Nil
  then show ?case by (simp add: same_graph_def)
next
  case (Cons d ds)
  obtain s1 where s1: "ensure_abstract_pkg_by_name (nm (d_pkg d)) s = (d_pkg d, s1)" "same_graph s s1"
    using ensure_known [OF Cons.prems(1), of "nm (d_pkg d)" "d_pkg d"] Cons.prems(3) by auto
  have p: "parse_possibility (join_depends nm (d # ds)) =
      Some (nm (d_pkg d), weaken (d_constraint d), d_version d, False, join_depends nm ds)"
    unfolding join_depends_Cons using Cons.prems(2)
    by (intro parse_possibility_text join_depends_rest) simp_all
  let ?d = "\<lparr>d_constraint = weaken (d_constraint d), d_version = d_version d, d_pkg = d_pkg d\<rparr>"
  have d: "?d = d\<lparr>d_constraint := weaken (d_constraint d)\<rparr>" by simp
  obtain s' where "parse_possibilities (length ds) (join_depends nm ds)
      (cd\<lparr>cd_possibilities := cd_possibilities cd @ [?d], cd_type := cd_type cd\<rparr>) s1 =
      Some (cd\<lparr>cd_possibilities := (cd_possibilities cd @ [?d]) @
        map (\<lambda>d. d\<lparr>d_constraint := weaken (d_constraint d)\<rparr>) ds\<rparr>, s')" "same_graph s1 s'"
    using Cons.IH [of s1 "cd\<lparr>cd_possibilities := cd_possibilities cd @ [?d], cd_type := cd_type cd\<rparr>"]
      Cons.prems s1(2) by (auto simp: same_graph_def)
  then show ?case using p s1 by (auto simp: same_graph_def)
qed

section \<open>Properties\<close>

text \<open>
  (C4) The two evaluators of version constraints agree up to the two strict operators. A
  constraint \<open>(op v)\<close> of a dependency, read by \<open>parseDepends\<close> and decided by
  \<open>version_constraints_satisfied\<close> (\<open>pkg_depends.c\<close>), holds of a package exactly when
  \<open>pkg_version_satisfied\<close> (\<open>pkg.c\<close>) accepts the package for the operator as it was written,
  for each of its seven operators; only for \<open><<\<close> and \<open>>>\<close> the dependency also accepts the
  version itself.
\<close>

theorem parsed_constraint_operators:
  assumes "op \<in> {''<<'', ''<'', ''<='', ''='', ''>='', ''>'', ''>>''}"
    and "CHR '')'' \<notin> set v" "length v < BUFFER_LEN" "v \<noteq> []" "\<not> isspace (hd v)" "\<not> isspace (last v)"
  shows "\<exists>c. parse_version_part (''('' @ op @ '' '' @ v @ '')'' @ rest) = Some (c, Some v, '')'' @ rest) \<and>
    (\<forall>p a. version_constraints_satisfied \<lparr>d_constraint = c, d_version = Some v, d_pkg = a\<rparr> p \<longleftrightarrow>
       pkg_version_satisfied p (parse_version pkg_new v) op \<or>
       op \<in> {''<<'', ''>>''} \<and> pkg_compare_versions p (parse_version pkg_new v) = 0)"
proof -
  have dv: "dropWhile isspace (v @ CHR '')'' # rest) = v @ CHR '')'' # rest"
    using assms(4,5) by (cases v) auto
  have "parse_constraint (op @ '' '' @ w) = (fst (parse_constraint op), '' '' @ w)" for w
    using assms(1) by (elim insertE emptyE) (simp_all add: parse_constraint_def)
  then have part: "parse_version_part (''('' @ op @ '' '' @ v @ '')'' @ rest) =
      Some (fst (parse_constraint op), Some v, '')'' @ rest)"
    using assms(3) takeWhile_until [OF assms(2)] trim_both [of v] assms(5,6) char_facts
    by (simp add: parse_version_part_def dv Let_def)
  show ?thesis
    unfolding part using assms(1)
    by (elim insertE emptyE)
      (auto simp: parse_constraint_def version_constraints_satisfied_alt pkg_version_satisfied_def Let_def)
qed

theorem parsed_constraint_operators_witness:
  "\<exists>c. parse_version_part ''(<< 1.0)'' = Some (c, Some ''1.0'', '')'') \<and>
    version_constraints_satisfied \<lparr>d_constraint = c, d_version = Some ''1.0'', d_pkg = 0\<rparr> (parse_version pkg_new ''1.0'')"
  using parsed_constraint_operators [of "''<<''" "''1.0''" "[]"]
  by (fastforce simp: BUFFER_LEN_def isspace_def is_space_def cval_def vercmp.cmp_refl version_ok_parse cstring_def)

text \<open>(C11) The text \<open>pkg_depend_str\<close> prints for a dependency is read back by \<open>parseDepends\<close> as the same
  alternatives, hooked to the same abstract packages, and no package or abstract package
  changes. The strict constraints come back as the non-strict ones; since both accept the same
  versions, the dependency that is read is satisfied by exactly the same packages. The text is
  shorter than 4 GiB, as \<open>pkg_depend_str_complete\<close> needs it.\<close>

theorem depend_text_roundtrip:
  assumes "names_ok s" "ds \<noteq> []" "list_all (dep_text_ok nm) ds"
    "\<forall>d \<in> set ds. ht_map (s_hash s) (nm (d_pkg d)) = Some (d_pkg d)"
    and "depend_texts_size nm ds < 2 ^ 32"
  shows "\<exists>s'. parseDepends (pkg_depend_str nm \<lparr>cd_type = t, cd_possibilities = ds\<rparr>) s =
      Some (\<lparr>cd_type = DEPEND, cd_possibilities = map (\<lambda>d. d\<lparr>d_constraint := weaken (d_constraint d)\<rparr>) ds\<rparr>, s') \<and>
    same_graph s s' \<and>
    (\<forall>d p. version_constraints_satisfied (d\<lparr>d_constraint := weaken (d_constraint d)\<rparr>) p =
           version_constraints_satisfied d p)"
proof -
  have "pkg_depend_str nm \<lparr>cd_type = t, cd_possibilities = ds\<rparr> = join_depends nm ds"
    using assms(5) by (simp add: pkg_depend_str_eq)
  then show ?thesis
    using parse_possibilities_text [OF assms(1,3,4), of "\<lparr>cd_type = DEPEND, cd_possibilities = []\<rparr>"]
      num_of_ors_join [OF assms(3,2)]
    by (auto simp: parseDepends_def weaken_satisfied)
qed

theorem depend_text_roundtrip_witness:
  "\<exists>s'. parseDepends ''libc (< 1.0-2)''
      (snd (ensure_abstract_pkg_by_name ''libc'' empty_store)) =
     Some (\<lparr>cd_type = DEPEND, cd_possibilities =
       [\<lparr>d_constraint = EARLIER_EQUAL, d_version = Some ''1.0-2'', d_pkg = 0\<rparr>]\<rparr>, s')"
proof -
  obtain r s where s: "ensure_abstract_pkg_by_name ''libc'' empty_store = (r, s)"
    by (cases "ensure_abstract_pkg_by_name ''libc'' empty_store")
  have "hash_table_get (s_hash empty_store) ''libc'' = (None, snd (hash_table_get (s_hash empty_store) ''libc''))"
    using hash_table_init_map [of "blank_table :: apkg_ref hash_table" 1024 "''pkg-hash''"]
    by (intro prod_eqI) (simp_all add: hash_table_get_map empty_store_def blank_table_def)
  then have r: "r = 0"
    using s by (auto simp: ensure_abstract_pkg_by_name_def abstract_pkg_fetch_by_name_def
        add_new_abstract_pkg_by_name_def Let_def empty_store_def split: prod.splits option.splits)
  let ?d = "\<lparr>d_constraint = EARLIER, d_version = Some ''1.0-2'', d_pkg = 0\<rparr>"
  have "dep_text_ok (\<lambda>r. ''libc'') ?d"
    by (simp add: dep_text_ok_def dep_name_char_def name_char_def BUFFER_LEN_def isspace_def is_space_def cval_def)
  then show ?thesis
    using depend_text_roundtrip [OF ensure_by_name(1) [OF empty_store_ok s], of "[?d]" "\<lambda>r. ''libc''" DEPEND]
      ensure_by_name(2) [OF empty_store_ok s] r
    by (auto simp: s pkg_depend_str_eq depend_texts_size_def depend_text_def constraint_to_str_def weaken_def)
qed

end
