(* ===== verification/Opkg_Insert.thy ===== *)
theory Opkg_Insert
  imports Opkg_Depends
begin

text \<open>
  What \<open>hash_insert_pkg\<close> establishes: the arrays of the inserted package agree with their
  counters, its parent is the abstract package of its name, and it can be found from everything it
  provides.
\<close>

section \<open>How the graph may change while a package is built\<close>

definition evolves :: "pkg_ref \<Rightarrow> store \<Rightarrow> store \<Rightarrow> bool" where
  "evolves r s s' \<longleftrightarrow> names_ok s' \<and> s_apkg_next s \<le> s_apkg_next s' \<and>
     (\<forall>q. q \<noteq> r \<longrightarrow> s_pkgs s' q = s_pkgs s q) \<and>
     (\<forall>a < s_apkg_next s. ap_pkgs (s_apkgs s' a) = ap_pkgs (s_apkgs s a) \<and>
        set (ap_provided_by (s_apkgs s a)) \<subseteq> set (ap_provided_by (s_apkgs s' a))) \<and>
     ht_map (s_hash s) \<subseteq>\<^sub>m ht_map (s_hash s')"

lemma evolves_refl: "names_ok s \<Longrightarrow> evolves r s s"
  by (simp add: evolves_def)

lemma evolves_trans: "evolves r s1 s2 \<Longrightarrow> evolves r s2 s3 \<Longrightarrow> evolves r s1 s3"
  unfolding evolves_def by (auto intro: map_le_trans) (meson less_le_trans subset_iff)+

lemma ensure_evolves:
  assumes "names_ok s" "ensure_abstract_pkg_by_name n s = (a, s')"
  shows "evolves r s s'" "s_pkgs s' = s_pkgs s" "a < s_apkg_next s'" "ht_map (s_hash s') n = Some a"
proof -
  note E = ensure_by_name [OF assms]
  have "ht_map (s_hash s) \<subseteq>\<^sub>m ht_map (s_hash s')"
  proof (cases "ht_map (s_hash s) n")
    case None
    then show ?thesis by (auto simp: E(2) map_le_def)
  next
    case (Some b)
    then have "fst (hash_table_get (s_hash s) n) = Some b" by (simp add: hash_table_get_map)
    then have "a = b" using assms(2)
      by (auto simp: ensure_abstract_pkg_by_name_def abstract_pkg_fetch_by_name_def split: prod.splits)
    then show ?thesis using Some by (auto simp: E(2) map_le_def)
  qed
  then show "evolves r s s'" using E by (simp add: evolves_def)
  show "s_pkgs s' = s_pkgs s" "a < s_apkg_next s'" "ht_map (s_hash s') n = Some a" using E by auto
qed

lemma names_ok_upd:
  assumes "names_ok s"
  shows "names_ok (upd_pkg r f s)"
    and "(\<And>x. ap_name (g x) = ap_name x) \<Longrightarrow> names_ok (upd_apkg a g s)"
  using assms by (auto simp: names_ok_def)

lemma upd_pkg_evolves: "names_ok s \<Longrightarrow> evolves r s (upd_pkg r f s)"
  using names_ok_upd(1) by (simp add: evolves_def)

lemma upd_apkg_evolves:
  assumes "names_ok s" "\<And>x. ap_name (g x) = ap_name x" "\<And>x. ap_pkgs (g x) = ap_pkgs x"
    "\<And>x. set (ap_provided_by x) \<subseteq> set (ap_provided_by (g x))"
  shows "evolves r s (upd_apkg a g s)"
  using assms names_ok_upd(2) by (auto simp: evolves_def)

lemma evolves_names: "evolves r s s' \<Longrightarrow> names_ok s'"
  by (simp add: evolves_def)

section \<open>The parser returns\<close>

lemma parse_version_part_total:
  assumes "length src < BUFFER_LEN"
  shows "\<exists>c v rest. parse_version_part src = Some (c, v, rest) \<and> length rest \<le> length src"
proof (cases "\<exists>t. src = CHR ''('' # t")
  case True
  then obtain t where t: "src = CHR ''('' # t" by blast
  obtain c u where cu: "parse_constraint t = (c, u)" by (cases "parse_constraint t")
  have "length u \<le> length t"
    using cu unfolding parse_constraint_def by (auto split: if_splits)
  moreover have "length (takeWhile P (dropWhile Q u)) \<le> length u" "length (dropWhile P (dropWhile Q u)) \<le> length u" for P Q
    by (meson length_takeWhile_le length_dropWhile_le order_trans)+
  ultimately have "length (takeWhile (\<lambda>x. x \<noteq> CHR '')'') (dropWhile isspace u)) < BUFFER_LEN"
    "length (dropWhile (\<lambda>x. x \<noteq> CHR '')'') (dropWhile isspace u)) \<le> length src"
    using assms t by (metis length_Cons le_SucI le_trans order_le_less_trans)+
  then show ?thesis using t cu by (simp add: parse_version_part_def Let_def)
next
  case False
  then have "parse_version_part src = Some (NONE, None, src)"
    unfolding parse_version_part_def by (cases src) (auto split: list.splits char.splits bool.splits)
  then show ?thesis by simp
qed

lemma parse_possibility_total:
  assumes "length src < BUFFER_LEN"
  shows "\<exists>nm c v g rest. parse_possibility src = Some (nm, c, v, g, rest) \<and> length rest \<le> length src"
proof -
  let ?s = "dropWhile isspace (dropWhile name_char src)"
  have s: "length ?s \<le> length src" by (meson length_dropWhile_le order_trans)
  have n: "length (takeWhile name_char src) < BUFFER_LEN"
    using assms length_takeWhile_le order_le_less_trans by blast
  obtain c v u where u: "parse_version_part ?s = Some (c, v, u)" "length u \<le> length ?s"
    using parse_version_part_total [of ?s] s assms by auto
  have k: "length (skip_separators u) \<le> length u" by (simp add: skip_separators_def length_dropWhile_le)
  show ?thesis
  proof (cases "\<exists>t. skip_separators u = CHR ''*'' # t")
    case True
    then obtain t where "skip_separators u = CHR ''*'' # t" by blast
    then show ?thesis using n u s k by (auto simp: parse_possibility_def Let_def)
  next
    case False
    then have "parse_possibility src =
        Some (trim_xstrdup (takeWhile name_char src), c, v, False, skip_separators u)"
      using n u by (cases "skip_separators u")
        (auto simp: parse_possibility_def Let_def split: list.splits char.splits bool.splits)
    then show ?thesis using u s k by auto
  qed
qed

lemma parse_possibilities_total:
  assumes "names_ok s" "length src < BUFFER_LEN"
  shows "\<exists>cd' s'. parse_possibilities n src cd s = Some (cd', s') \<and> evolves r s s' \<and> s_pkgs s' = s_pkgs s"
  using assms
proof (induction n arbitrary: src cd s)
  case 0
  then show ?case by (simp add: evolves_refl)
next
  case (Suc n)
  obtain nm c v g rest where p: "parse_possibility src = Some (nm, c, v, g, rest)" "length rest \<le> length src"
    using parse_possibility_total [OF Suc.prems(2)] by blast
  obtain a s1 where e: "ensure_abstract_pkg_by_name nm s = (a, s1)" by (cases "ensure_abstract_pkg_by_name nm s")
  note E = ensure_evolves [OF Suc.prems(1) e]
  have n1: "names_ok s1" using evolves_names [OF E(1)] .
  have l: "length rest < BUFFER_LEN" using p(2) Suc.prems(2) by simp
  let ?cd = "cd\<lparr>cd_possibilities := cd_possibilities cd @ [\<lparr>d_constraint = c, d_version = v, d_pkg = a\<rparr>],
     cd_type := (if g then GREEDY_DEPEND else cd_type cd)\<rparr>"
  obtain cd' s' where s': "parse_possibilities n rest ?cd s1 = Some (cd', s')" "evolves r s1 s'" "s_pkgs s' = s_pkgs s1"
    using Suc.IH [OF n1 l, of ?cd] by blast
  have "parse_possibilities (Suc n) src cd s = Some (cd', s')" using p e s'(1) by simp
  then show ?case using evolves_trans [OF E(1) s'(2)] s'(3) E(2) by auto
qed

lemma parseDepends_total:
  assumes "names_ok s" "length str < BUFFER_LEN"
  shows "\<exists>cd s'. parseDepends str s = Some (cd, s') \<and> evolves r s s' \<and> s_pkgs s' = s_pkgs s"
  unfolding parseDepends_def by (rule parse_possibilities_total [OF assms])

definition short_texts :: "string list \<Rightarrow> bool" where
  "short_texts strs \<longleftrightarrow> list_all (\<lambda>s. length s < BUFFER_LEN) strs"

lemma parse_texts_total:
  assumes "names_ok s" "short_texts strs" "n = length strs"
  shows "\<exists>cds s'. parse_texts ty n strs s = Some (cds, s') \<and> length cds = n \<and> evolves r s s' \<and>
    s_pkgs s' = s_pkgs s"
  using assms
proof (induction strs arbitrary: n s)
  case Nil
  then show ?case by (simp add: evolves_refl)
next
  case (Cons str strs)
  obtain cd s1 where 1: "parseDepends str s = Some (cd, s1)" "evolves r s s1" "s_pkgs s1 = s_pkgs s"
    using parseDepends_total [OF Cons.prems(1), of str r] Cons.prems(2) by (auto simp: short_texts_def)
  obtain cds s2 where 2: "parse_texts ty (length strs) strs s1 = Some (cds, s2)" "length cds = length strs"
    "evolves r s1 s2" "s_pkgs s2 = s_pkgs s1"
    using Cons.IH [OF evolves_names [OF 1(2)] _ refl] Cons.prems(2) by (auto simp: short_texts_def)
  show ?case using 1 2 Cons.prems(3) evolves_trans [OF 1(2) 2(3)] by simp
qed

section \<open>The steps of \<open>hash_insert_pkg\<close>\<close>

text \<open>What the parser of control files leaves: counters that are the lengths of the texts.\<close>

definition parsed_counts :: "pkg \<Rightarrow> bool" where
  "parsed_counts p \<longleftrightarrow>
     p_depends_count p = length (p_depends_str p) \<and> p_pre_depends_count p = length (p_pre_depends_str p) \<and>
     p_recommends_count p = length (p_recommends_str p) \<and> p_suggests_count p = length (p_suggests_str p) \<and>
     p_conflicts_count p = length (p_conflicts_str p) \<and> p_replaces_count p = length (p_replaces_str p) \<and>
     p_provides_count p = length (p_provides_str p) \<and>
     short_texts (p_depends_str p) \<and> short_texts (p_pre_depends_str p) \<and>
     short_texts (p_recommends_str p) \<and> short_texts (p_suggests_str p) \<and> short_texts (p_conflicts_str p)"

lemma buildDepends_step:
  assumes "names_ok s" "parsed_counts (s_pkgs s r)"
  shows "\<exists>s'. buildDepends r s = Some s' \<and> evolves r s s' \<and>
    (\<exists>ds. s_pkgs s' r = (s_pkgs s r)\<lparr>p_depends := ds\<rparr> \<and>
          (all_depends_count (s_pkgs s r) \<noteq> 0 \<longrightarrow> length ds = all_depends_count (s_pkgs s r)))"
proof (cases "all_depends_count (s_pkgs s r) = 0")
  case True
  then show ?thesis using assms(1) by (auto simp: buildDepends_def Let_def evolves_refl intro!: exI [of _ "p_depends (s_pkgs s r)"])
next
  case False
  let ?p = "s_pkgs s r"
  note c = assms(2) [unfolded parsed_counts_def]
  obtain pre s1 where 1: "parse_texts (\<lambda>t. PREDEPEND) (p_pre_depends_count ?p) (p_pre_depends_str ?p) s = Some (pre, s1)"
    "length pre = p_pre_depends_count ?p" "evolves r s s1" "s_pkgs s1 = s_pkgs s"
    using parse_texts_total [OF assms(1), of "p_pre_depends_str ?p" _ _ r] c by blast
  obtain dep s2 where 2: "parse_texts (\<lambda>t. t) (p_depends_count ?p) (p_depends_str ?p) s1 = Some (dep, s2)"
    "length dep = p_depends_count ?p" "evolves r s1 s2" "s_pkgs s2 = s_pkgs s1"
    using parse_texts_total [OF evolves_names [OF 1(3)], of "p_depends_str ?p" _ _ r] c by blast
  obtain rec s3 where 3: "parse_texts (\<lambda>t. RECOMMEND) (p_recommends_count ?p) (p_recommends_str ?p) s2 = Some (rec, s3)"
    "length rec = p_recommends_count ?p" "evolves r s2 s3" "s_pkgs s3 = s_pkgs s2"
    using parse_texts_total [OF evolves_names [OF 2(3)], of "p_recommends_str ?p" _ _ r] c by blast
  obtain sug s4 where 4: "parse_texts (\<lambda>t. SUGGEST) (p_suggests_count ?p) (p_suggests_str ?p) s3 = Some (sug, s4)"
    "length sug = p_suggests_count ?p" "evolves r s3 s4" "s_pkgs s4 = s_pkgs s3"
    using parse_texts_total [OF evolves_names [OF 3(3)], of "p_suggests_str ?p" _ _ r] c by blast
  have "evolves r s (upd_pkg r (\<lambda>p. p\<lparr>p_depends := pre @ dep @ rec @ sug\<rparr>) s4)"
    using 1(3) 2(3) 3(3) 4(3) upd_pkg_evolves [OF evolves_names [OF 4(3)]] evolves_trans by metis
  then show ?thesis using False 1 2 3 4
    by (simp add: buildDepends_def Let_def)
      (auto simp: all_depends_count_def intro!: exI [of _ "pre @ dep @ rec @ sug"])
qed

lemma buildConflicts_step:
  assumes "names_ok s" "p_conflicts_count (s_pkgs s r) = length (p_conflicts_str (s_pkgs s r))"
    "short_texts (p_conflicts_str (s_pkgs s r))"
  shows "\<exists>s'. buildConflicts r s = Some s' \<and> evolves r s s' \<and>
    (\<exists>cs. s_pkgs s' r = (s_pkgs s r)\<lparr>p_conflicts := cs\<rparr> \<and>
       (p_conflicts_count (s_pkgs s r) \<noteq> 0 \<longrightarrow> (\<exists>l. cs = Some l \<and> length l = p_conflicts_count (s_pkgs s r))))"
proof (cases "p_conflicts_count (s_pkgs s r) = 0")
  case True
  then show ?thesis using assms(1)
    by (auto simp: buildConflicts_def Let_def evolves_refl intro!: exI [of _ "p_conflicts (s_pkgs s r)"])
next
  case False
  let ?p = "s_pkgs s r"
  obtain cs s1 where 1: "parse_texts (\<lambda>t. t) (p_conflicts_count ?p) (p_conflicts_str ?p) s = Some (cs, s1)"
    "length cs = p_conflicts_count ?p" "evolves r s s1" "s_pkgs s1 = s_pkgs s"
    using parse_texts_total [OF assms(1,3,2)] by blast
  then show ?thesis
    using False evolves_trans [OF 1(3) upd_pkg_evolves [OF evolves_names [OF 1(3)]]]
    by (simp add: buildConflicts_def Let_def) (auto intro!: exI [of _ "Some cs"])
qed

lemma insert_provider_evolves:
  "names_ok s \<Longrightarrow> evolves r s (insert_provider a b s)" "s_pkgs (insert_provider a b s) = s_pkgs s"
  "b \<in> set (ap_provided_by (s_apkgs (insert_provider a b s) a))"
  by (auto simp: insert_provider_def abstract_pkg_vec_insert_def intro!: upd_apkg_evolves)

lemma provide_names_step:
  assumes "names_ok s" "n = length strs"
  shows "\<exists>as s'. provide_names b n strs s = Some (as, s') \<and> length as = n \<and> evolves r s s' \<and>
    s_pkgs s' = s_pkgs s \<and> (\<forall>a \<in> set as. a < s_apkg_next s' \<and> b \<in> set (ap_provided_by (s_apkgs s' a)))"
  using assms
proof (induction strs arbitrary: n s)
  case Nil
  then show ?case by (simp add: evolves_refl)
next
  case (Cons str strs)
  obtain a s1 where e: "ensure_abstract_pkg_by_name str s = (a, s1)" by (cases "ensure_abstract_pkg_by_name str s")
  note E = ensure_evolves [OF Cons.prems(1) e]
  let ?s2 = "insert_provider a b s1"
  have v: "evolves r s ?s2" using evolves_trans [OF E(1) insert_provider_evolves(1) [OF evolves_names [OF E(1)]]] .
  obtain as s' where s': "provide_names b (length strs) strs ?s2 = Some (as, s')" "length as = length strs"
    "evolves r ?s2 s'" "s_pkgs s' = s_pkgs ?s2"
    "\<forall>a \<in> set as. a < s_apkg_next s' \<and> b \<in> set (ap_provided_by (s_apkgs s' a))"
    using Cons.IH [OF evolves_names [OF v] refl] by blast
  have "a < s_apkg_next ?s2" using E(3) by (simp add: insert_provider_def)
  then have "a < s_apkg_next s' \<and> b \<in> set (ap_provided_by (s_apkgs s' a))"
    using s'(3) insert_provider_evolves(3) [of b a s1] unfolding evolves_def by (meson less_le_trans subsetD)
  then show ?case using s' e E(2) Cons.prems(2) evolves_trans [OF v s'(3)]
    by (simp add: insert_provider_evolves(2))
qed

lemma buildProvides_step:
  assumes "names_ok s" "parsed_counts (s_pkgs s r)" "b < s_apkg_next s"
  shows "\<exists>s'. buildProvides b r s = Some s' \<and> evolves r s s' \<and>
    (\<exists>as. s_pkgs s' r = (s_pkgs s r)\<lparr>p_provides_count := Suc (p_provides_count (s_pkgs s r)), p_provides := Some (b # as)\<rparr> \<and>
       length as = p_provides_count (s_pkgs s r) \<and>
       (\<forall>a \<in> set (b # as). b \<in> set (ap_provided_by (s_apkgs s' a)) \<and> a < s_apkg_next s'))"
proof -
  let ?s1 = "insert_provider b b s"
  have n1: "names_ok ?s1" using insert_provider_evolves(1) [OF assms(1)] evolves_names by blast
  obtain as s' where s': "provide_names b (p_provides_count (s_pkgs s r)) (p_provides_str (s_pkgs s r)) ?s1 = Some (as, s')"
    "length as = p_provides_count (s_pkgs s r)" "evolves r ?s1 s'" "s_pkgs s' = s_pkgs ?s1"
    "\<forall>a \<in> set as. a < s_apkg_next s' \<and> b \<in> set (ap_provided_by (s_apkgs s' a))"
    using provide_names_step [OF n1, of _ "p_provides_str (s_pkgs s r)" b r] assms(2) unfolding parsed_counts_def by blast
  have "b < s_apkg_next ?s1" using assms(3) by (simp add: insert_provider_def)
  then have b: "b < s_apkg_next s' \<and> b \<in> set (ap_provided_by (s_apkgs s' b))"
    using s'(3) insert_provider_evolves(3) [of b b s] unfolding evolves_def by (meson less_le_trans subsetD)
  have v: "evolves r s (upd_pkg r f s')" for f
    using evolves_trans [OF evolves_trans [OF insert_provider_evolves(1) [OF assms(1)] s'(3)]
        upd_pkg_evolves [OF evolves_names [OF s'(3)]]] .
  show ?thesis using s' b v
    by (simp add: buildProvides_def Let_def insert_provider_evolves(2)) (auto intro!: exI [of _ as])
qed

definition conflicts_agree :: "pkg \<Rightarrow> bool" where
  "conflicts_agree p \<longleftrightarrow> p_conflicts_count p = 0 \<or>
     (\<exists>cs. p_conflicts p = Some cs \<and> length cs = p_conflicts_count p)"

lemma any_n_returns: "length xs = n \<Longrightarrow> \<exists>b. any_n n (\<lambda>x. Some (p x)) xs = Some b"
  using any_n_total [of n xs "\<lambda>x. Some (p x)" p] by blast

lemma pkg_conflicts_abstract_total:
  "conflicts_agree p \<Longrightarrow> \<exists>b. pkg_conflicts_abstract p a = Some b"
  by (auto simp: conflicts_agree_def pkg_conflicts_abstract_def intro: any_n_returns)

lemma replace_names_step:
  assumes "names_ok s" "n = length strs" "conflicts_agree (s_pkgs s r)"
  shows "\<exists>s' xs. replace_names r b i n strs s = Some s' \<and> evolves r s s' \<and>
    s_pkgs s' r = (s_pkgs s r)\<lparr>p_replaces := xs\<rparr> \<and> length xs = length (p_replaces (s_pkgs s r))"
  using assms
proof (induction strs arbitrary: n s i)
  case Nil
  then show ?case by (auto simp: evolves_refl intro!: exI [of _ "p_replaces (s_pkgs s r)"])
next
  case (Cons str strs)
  obtain a s1 where e: "ensure_abstract_pkg_by_name str s = (a, s1)" by (cases "ensure_abstract_pkg_by_name str s")
  note E = ensure_evolves [OF Cons.prems(1) e]
  let ?s2 = "upd_pkg r (\<lambda>p. p\<lparr>p_replaces := (p_replaces p)[i := a]\<rparr>) s1"
  let ?g = "\<lambda>x. x\<lparr>ap_replaced_by := (case ap_replaced_by x of None \<Rightarrow> Some [] | Some v \<Rightarrow> Some v)\<rparr>"
  let ?s3 = "upd_apkg a ?g ?s2"
  have v2: "evolves r s ?s2" using evolves_trans [OF E(1) upd_pkg_evolves [OF evolves_names [OF E(1)]]] .
  have v3: "evolves r s ?s3"
    by (rule evolves_trans [OF v2 upd_apkg_evolves [OF evolves_names [OF v2]]]) simp_all
  have p3: "s_pkgs ?s3 r = (s_pkgs s r)\<lparr>p_replaces := (p_replaces (s_pkgs s r))[i := a]\<rparr>" using E(2) by simp
  then have c3: "conflicts_agree (s_pkgs ?s3 r)" using Cons.prems(3) by (simp add: conflicts_agree_def)
  then obtain c where c: "pkg_conflicts_abstract (s_pkgs ?s3 r) a = Some c"
    using pkg_conflicts_abstract_total by blast
  define s4 where "s4 = (if c then upd_apkg a (\<lambda>a. a\<lparr>ap_replaced_by :=
      map_option (\<lambda>v. abstract_pkg_vec_insert v b) (ap_replaced_by a)\<rparr>) ?s3 else ?s3)"
  have v4: "evolves r ?s3 s4" unfolding s4_def
    using upd_apkg_evolves [OF evolves_names [OF v3]] evolves_refl [OF evolves_names [OF v3]] by auto
  have p4: "s_pkgs s4 r = s_pkgs ?s3 r" by (simp add: s4_def)
  obtain s' xs where s': "replace_names r b (i + 1) (length strs) strs s4 = Some s'" "evolves r s4 s'"
    "s_pkgs s' r = (s_pkgs s4 r)\<lparr>p_replaces := xs\<rparr>" "length xs = length (p_replaces (s_pkgs s4 r))"
    using Cons.IH [OF evolves_names [OF v4] refl, of "i + 1"] c3 p4 by auto
  have "replace_names r b i n (str # strs) s = Some s'"
    using Cons.prems(2) e c s'(1) unfolding s4_def by (simp add: Let_def)
  moreover have "evolves r s s'" using evolves_trans [OF evolves_trans [OF v3 v4] s'(2)] .
  moreover have "s_pkgs s' r = (s_pkgs s r)\<lparr>p_replaces := xs\<rparr>" "length xs = length (p_replaces (s_pkgs s r))"
    unfolding s'(3,4) p4 p3 by simp_all
  ultimately show ?case using s'(4) p4 p3 by auto
qed

lemma buildReplaces_step:
  assumes "names_ok s" "p_replaces_count (s_pkgs s r) = length (p_replaces_str (s_pkgs s r))"
    "conflicts_agree (s_pkgs s r)"
  shows "\<exists>s' xs. buildReplaces b r s = Some s' \<and> evolves r s s' \<and>
    s_pkgs s' r = (s_pkgs s r)\<lparr>p_replaces := xs\<rparr> \<and> p_replaces_count (s_pkgs s r) \<le> length xs"
proof (cases "p_replaces_count (s_pkgs s r) = 0")
  case True
  then show ?thesis using assms(1)
    by (auto simp: buildReplaces_def Let_def evolves_refl intro!: exI [of _ "p_replaces (s_pkgs s r)"])
next
  case False
  let ?n = "p_replaces_count (s_pkgs s r)"
  let ?s1 = "upd_pkg r (\<lambda>p. p\<lparr>p_replaces := replicate ?n 0\<rparr>) s"
  have v: "evolves r s ?s1" using upd_pkg_evolves [OF assms(1)] .
  have "conflicts_agree (s_pkgs ?s1 r)" using assms(3) by (simp add: conflicts_agree_def)
  then obtain s' xs where "replace_names r b 0 ?n (p_replaces_str (s_pkgs s r)) ?s1 = Some s'" "evolves r ?s1 s'"
    "s_pkgs s' r = (s_pkgs ?s1 r)\<lparr>p_replaces := xs\<rparr>" "length xs = length (p_replaces (s_pkgs ?s1 r))"
    using replace_names_step [OF evolves_names [OF v] assms(2)] by blast
  then show ?thesis using False evolves_trans [OF v] by (auto simp: buildReplaces_def Let_def)
qed

lemma fold_evolves:
  assumes "\<And>x s. x \<in> set xs \<Longrightarrow> names_ok s \<Longrightarrow> evolves r s (f x s) \<and> s_pkgs (f x s) = s_pkgs s" "names_ok s"
  shows "evolves r s (fold f xs s) \<and> s_pkgs (fold f xs s) = s_pkgs s"
  using assms
proof (induction xs arbitrary: s)
  case Nil
  then show ?case by (simp add: evolves_refl)
next
  case (Cons x xs)
  have 1: "evolves r s (f x s)" "s_pkgs (f x s) = s_pkgs s" using Cons.prems by auto
  have "evolves r (f x s) (fold f xs (f x s)) \<and> s_pkgs (fold f xs (f x s)) = s_pkgs (f x s)"
    by (rule Cons.IH) (use Cons.prems(1) evolves_names [OF 1(1)] in auto)
  then show ?case using evolves_trans [OF 1(1)] 1(2) by simp
qed

lemma buildDependedUponBy_step:
  assumes "names_ok s" "all_depends_count (s_pkgs s r) \<le> length (p_depends (s_pkgs s r))"
  shows "\<exists>s'. buildDependedUponBy r b s = Some s' \<and> evolves r s s' \<and> s_pkgs s' = s_pkgs s"
proof -
  let ?ds = "take (all_depends_count (s_pkgs s r)) (p_depends (s_pkgs s r))"
  have add: "evolves r s (add_depended b d s) \<and> s_pkgs (add_depended b d s) = s_pkgs s" if "names_ok s" for d s
    using that by (auto simp: add_depended_def intro!: upd_apkg_evolves)
  let ?f = "\<lambda>cd s. if cd_type cd \<in> {PREDEPEND, DEPEND, RECOMMEND}
                   then fold (add_depended b) (cd_possibilities cd) s else s"
  have "evolves r s (?f cd s) \<and> s_pkgs (?f cd s) = s_pkgs s" if "names_ok s" for cd s
    using fold_evolves [of "cd_possibilities cd" r "add_depended b" s] add that evolves_refl [OF that] by simp
  then have "evolves r s (fold ?f ?ds s) \<and> s_pkgs (fold ?f ?ds s) = s_pkgs s"
    using assms(1) by (intro fold_evolves) blast+
  then show ?thesis using assms(2) by (simp add: buildDependedUponBy_def first_n_def)
qed

lemma find_merge_total:
  assumes "\<forall>q \<in> set vec. \<exists>b. P q = Some b"
  shows "\<exists>f. find_merge P i vec = Some f \<and> (case f of None \<Rightarrow> True | Some j \<Rightarrow> i \<le> j \<and> j < i + length vec)"
  using assms
proof (induction vec arbitrary: i)
  case (Cons q vec)
  then obtain b where "P q = Some b" by auto
  then show ?case using Cons.IH [of "i + 1"] Cons.prems by (cases b) (auto split: option.splits)
qed simp

lemma insert_merge_step:
  assumes "\<forall>q \<in> set vec. q \<noteq> r \<and> p_name (s_pkgs s q) \<noteq> None \<and> p_architecture (s_pkgs s q) \<noteq> None"
    "p_name (s_pkgs s r) \<noteq> None" "p_architecture (s_pkgs s r) \<noteq> None" "set_status \<Longrightarrow> vec = []"
  shows "\<exists>vec' s'. pkg_vec_insert_merge vec r set_status s = Some (vec', s') \<and> r \<in> set vec' \<and>
    s_pkgs s' r = s_pkgs s r \<and> s_apkgs s' = s_apkgs s \<and> s_hash s' = s_hash s \<and> s_apkg_next s' = s_apkg_next s"
proof -
  have "\<exists>b. merge_match (s_pkgs s r) (s_pkgs s q) = Some b" if q: "q \<in> set vec" for q
  proof -
    obtain n1 n2 a1 a2 where "p_name (s_pkgs s r) = Some n1" "p_name (s_pkgs s q) = Some n2"
      "p_architecture (s_pkgs s r) = Some a1" "p_architecture (s_pkgs s q) = Some a2"
      using assms(1-3) q by blast
    then show ?thesis unfolding merge_match_def same_version_arch_def same_text_Some
      by (simp split: if_splits) blast
  qed
  then obtain f where f: "find_merge (\<lambda>q. merge_match (s_pkgs s r) (s_pkgs s q)) 0 vec = Some f"
    "case f of None \<Rightarrow> True | Some j \<Rightarrow> j < length vec"
    using find_merge_total [of vec "\<lambda>q. merge_match (s_pkgs s r) (s_pkgs s q)" 0]
    by (auto split: option.splits)
  show ?thesis
  proof (cases f)
    case None
    then show ?thesis using f by (simp add: pkg_vec_insert_merge_def pkg_vec_insert_def)
  next
    case (Some j)
    then have "vec ! j \<noteq> r" "r \<in> set (vec[j := r])" "\<not> set_status"
      using f(2) assms(1,4) by (auto simp: set_update_memI)
    then show ?thesis using f Some by (simp add: pkg_vec_insert_merge_def)
  qed
qed

section \<open>Insertion\<close>

definition arrays_agree :: "pkg \<Rightarrow> bool" where
  "arrays_agree p \<longleftrightarrow> all_depends_count p \<le> length (p_depends p) \<and> conflicts_agree p \<and>
     p_replaces_count p \<le> length (p_replaces p) \<and>
     (\<exists>as. p_provides p = Some as \<and> length as = p_provides_count p)"

definition comparable :: "pkg \<Rightarrow> bool" where
  "comparable p \<longleftrightarrow> p_name p \<noteq> None \<and> p_architecture p \<noteq> None"

lemma ensure_apkg_pkgs:
  assumes "names_ok s" "ensure_abstract_pkg_by_name n s = (a, s')"
  shows "apkg_pkgs s' a = apkg_pkgs s a \<and> ht_map (s_hash s) n = Some a \<or> apkg_pkgs s' a = []"
  using assms(2) hash_table_get_map [of "s_hash s" n]
  by (auto simp: ensure_abstract_pkg_by_name_def abstract_pkg_fetch_by_name_def apkg_pkgs_def
      add_new_abstract_pkg_by_name_def abstract_pkg_new_def Let_def split: prod.splits option.splits)

lemma evolves_apkg_pkgs: "evolves r s s' \<Longrightarrow> a < s_apkg_next s \<Longrightarrow> apkg_pkgs s' a = apkg_pkgs s a"
  by (simp add: evolves_def apkg_pkgs_def)

lemma evolves_hash: "evolves r s s' \<Longrightarrow> ht_map (s_hash s) n = Some a \<Longrightarrow> ht_map (s_hash s') n = Some a"
  by (auto simp: evolves_def map_le_def dom_def)

lemma evolves_provided:
  "evolves r s s' \<Longrightarrow> a < s_apkg_next s \<Longrightarrow> b \<in> set (ap_provided_by (s_apkgs s a)) \<Longrightarrow>
   b \<in> set (ap_provided_by (s_apkgs s' a)) \<and> a < s_apkg_next s'"
  unfolding evolves_def by auto

text \<open>The five builders, from the state in which the abstract package exists.\<close>

lemma builders_step:
  assumes "names_ok s" "parsed_counts (s_pkgs s r)" "b < s_apkg_next s"
  shows "\<exists>s4 s5 s6 s7 s8. buildDepends r s = Some s4 \<and> buildProvides b r s4 = Some s5 \<and>
    buildConflicts r s5 = Some s6 \<and> buildReplaces b r s6 = Some s7 \<and>
    buildDependedUponBy r b s7 = Some s8 \<and> evolves r s s8 \<and> arrays_agree (s_pkgs s8 r) \<and>
    p_name (s_pkgs s8 r) = p_name (s_pkgs s r) \<and> p_architecture (s_pkgs s8 r) = p_architecture (s_pkgs s r) \<and>
    b \<in> set (the (p_provides (s_pkgs s8 r))) \<and>
    (\<forall>a \<in> set (the (p_provides (s_pkgs s8 r))). b \<in> set (ap_provided_by (s_apkgs s8 a)))"
proof -
  note pc = assms(2) [unfolded parsed_counts_def]
  obtain s4 ds where 4: "buildDepends r s = Some s4" "evolves r s s4"
    "s_pkgs s4 r = (s_pkgs s r)\<lparr>p_depends := ds\<rparr>"
    "all_depends_count (s_pkgs s r) \<noteq> 0 \<longrightarrow> length ds = all_depends_count (s_pkgs s r)"
    using buildDepends_step [OF assms(1,2)] by blast
  have "parsed_counts (s_pkgs s4 r)" "b < s_apkg_next s4"
    using assms(2,3) 4(2) unfolding 4(3) by (simp_all add: parsed_counts_def evolves_def)
  then obtain s5 as where 5: "buildProvides b r s4 = Some s5" "evolves r s4 s5"
    "s_pkgs s5 r = (s_pkgs s4 r)\<lparr>p_provides_count := Suc (p_provides_count (s_pkgs s4 r)), p_provides := Some (b # as)\<rparr>"
    "length as = p_provides_count (s_pkgs s4 r)"
    "\<forall>a \<in> set (b # as). b \<in> set (ap_provided_by (s_apkgs s5 a)) \<and> a < s_apkg_next s5"
    using buildProvides_step [OF evolves_names [OF 4(2)]] by blast
  have "p_conflicts_count (s_pkgs s5 r) = length (p_conflicts_str (s_pkgs s5 r))" "short_texts (p_conflicts_str (s_pkgs s5 r))"
    using pc by (simp_all add: 5(3) 4(3))
  then obtain s6 cs where 6: "buildConflicts r s5 = Some s6" "evolves r s5 s6"
    "s_pkgs s6 r = (s_pkgs s5 r)\<lparr>p_conflicts := cs\<rparr>"
    "p_conflicts_count (s_pkgs s5 r) \<noteq> 0 \<longrightarrow> (\<exists>l. cs = Some l \<and> length l = p_conflicts_count (s_pkgs s5 r))"
    using buildConflicts_step [OF evolves_names [OF 5(2)]] by blast
  have ca: "conflicts_agree (s_pkgs s6 r)" using 6(4) by (auto simp: conflicts_agree_def 6(3))
  have "p_replaces_count (s_pkgs s6 r) = length (p_replaces_str (s_pkgs s6 r))" using pc by (simp add: 6(3) 5(3) 4(3))
  then obtain s7 xs where 7: "buildReplaces b r s6 = Some s7" "evolves r s6 s7"
    "s_pkgs s7 r = (s_pkgs s6 r)\<lparr>p_replaces := xs\<rparr>" "p_replaces_count (s_pkgs s6 r) \<le> length xs"
    using buildReplaces_step [OF evolves_names [OF 6(2)] _ ca] by blast
  have dl: "all_depends_count (s_pkgs s7 r) \<le> length (p_depends (s_pkgs s7 r))"
    using 4(4) by (auto simp: 7(3) 6(3) 5(3) 4(3) all_depends_count_def)
  obtain s8 where 8: "buildDependedUponBy r b s7 = Some s8" "evolves r s7 s8" "s_pkgs s8 = s_pkgs s7"
    using buildDependedUponBy_step [OF evolves_names [OF 7(2)] dl] by blast
  have e58: "evolves r s5 s8" using evolves_trans [OF 6(2) evolves_trans [OF 7(2) 8(2)]] .
  have pr: "p_provides (s_pkgs s8 r) = Some (b # as)" by (simp add: 8(3) 7(3) 6(3) 5(3))
  have "arrays_agree (s_pkgs s8 r)"
    using dl ca 7(4) pr 5(4) unfolding arrays_agree_def 8(3)
    by (simp add: 7(3) 6(3) 5(3) 4(3) conflicts_agree_def)
  moreover have "p_name (s_pkgs s8 r) = p_name (s_pkgs s r) \<and> p_architecture (s_pkgs s8 r) = p_architecture (s_pkgs s r)"
    by (simp add: 8(3) 7(3) 6(3) 5(3) 4(3))
  moreover have "\<forall>a \<in> set (b # as). b \<in> set (ap_provided_by (s_apkgs s8 a))"
    using 5(5) evolves_provided [OF e58] by blast
  moreover have "evolves r s s8" using evolves_trans [OF 4(2) evolves_trans [OF 5(2) e58]] .
  ultimately show ?thesis using 4(1) 5(1) 6(1) 7(1) 8(1) pr by auto
qed

text \<open>The state in which the builders start: the abstract package exists and has a vector.\<close>

lemma insert_entry:
  fixes c :: bool and st :: state_status
  assumes "names_ok s" "ensure_abstract_pkg_by_name n s = (b, s1)"
  defines "s2 \<equiv> upd_apkg b (\<lambda>a. a\<lparr>ap_pkgs := (case ap_pkgs a of None \<Rightarrow> Some [] | v \<Rightarrow> v)\<rparr>) s1"
  defines "s3 \<equiv> (if c then upd_apkg b (\<lambda>a. a\<lparr>ap_state_status := st\<rparr>) s2 else s2)"
  shows "names_ok s3" "s_pkgs s3 = s_pkgs s" "b < s_apkg_next s3" "ht_map (s_hash s3) n = Some b"
    "apkg_pkgs s3 b = apkg_pkgs s b \<and> ht_map (s_hash s) n = Some b \<or> apkg_pkgs s3 b = []"
proof -
  note E = ensure_evolves [OF assms(1,2)]
  have 2: "names_ok s2" unfolding s2_def by (rule names_ok_upd(2) [OF evolves_names [OF E(1)]]) simp
  then show "names_ok s3" unfolding s3_def by (auto intro!: names_ok_upd(2))
  show "s_pkgs s3 = s_pkgs s" "b < s_apkg_next s3" "ht_map (s_hash s3) n = Some b"
    using E by (auto simp: s3_def s2_def)
  have "apkg_pkgs s3 b = apkg_pkgs s1 b"
    by (auto simp: s3_def s2_def apkg_pkgs_def split: option.splits)
  then show "apkg_pkgs s3 b = apkg_pkgs s b \<and> ht_map (s_hash s) n = Some b \<or> apkg_pkgs s3 b = []"
    using ensure_apkg_pkgs [OF assms(1,2)] by simp
qed

text \<open>(C12) \<open>hash_insert_pkg\<close> of a package that the parser of control files produced does not
  fail, and afterwards the graph is consistent at that package: it is in the vector of the one
  abstract package with its name, which is its parent; every counter of the package is the length
  of its array; and each abstract package that it provides, its own first of all, has the parent
  among its providers. The conditions: its dependency and conflict texts are shorter than the
  buffers of \<open>parseDepends\<close> (2048 bytes; longer ones overflow them), its counters are those the
  parser left (\<open>parsed_counts\<close>), the vector does not hold it already, the packages of the vector
  have a name and an architecture, and a package of a status file (\<open>set_status\<close>) is the first one
  of its name, so that \<open>pkg_merge\<close>, which breaks the counters, does not run.\<close>

theorem hash_insert_pkg_establishes:
  assumes "names_ok s" "parsed_counts (s_pkgs s r)" "p_name (s_pkgs s r) = Some n"
    "p_architecture (s_pkgs s r) \<noteq> None"
    "\<And>a q. q \<in> set (apkg_pkgs s a) \<Longrightarrow> q \<noteq> r \<and> comparable (s_pkgs s q)"
    "\<And>a. set_status \<Longrightarrow> ht_map (s_hash s) n = Some a \<Longrightarrow> apkg_pkgs s a = []"
  shows "\<exists>s' ab. hash_insert_pkg r set_status s = Some s' \<and> names_ok s' \<and>
    ht_map (s_hash s') n = Some ab \<and> p_parent (s_pkgs s' r) = Some ab \<and> r \<in> set (apkg_pkgs s' ab) \<and>
    arrays_agree (s_pkgs s' r) \<and> ab \<in> set (the (p_provides (s_pkgs s' r))) \<and>
    (\<forall>a \<in> set (the (p_provides (s_pkgs s' r))). ab \<in> set (ap_provided_by (s_apkgs s' a)))"
proof -
  obtain b s1 where e: "ensure_abstract_pkg_by_name n s = (b, s1)" by (cases "ensure_abstract_pkg_by_name n s")
  define s2 where "s2 = upd_apkg b (\<lambda>a. a\<lparr>ap_pkgs := (case ap_pkgs a of None \<Rightarrow> Some [] | v \<Rightarrow> v)\<rparr>) s1"
  define st where "st = p_state_status (s_pkgs s2 r)"
  define s3 where "s3 = (if st = SS_INSTALLED \<or> st = SS_UNPACKED
                         then upd_apkg b (\<lambda>a. a\<lparr>ap_state_status := st\<rparr>) s2 else s2)"
  note I = insert_entry [OF assms(1) e, of "st = SS_INSTALLED \<or> st = SS_UNPACKED" st, folded s2_def s3_def]
  obtain s4 s5 s6 s7 s8 where B: "buildDepends r s3 = Some s4" "buildProvides b r s4 = Some s5"
    "buildConflicts r s5 = Some s6" "buildReplaces b r s6 = Some s7"
    "buildDependedUponBy r b s7 = Some s8" "evolves r s3 s8" "arrays_agree (s_pkgs s8 r)"
    "p_name (s_pkgs s8 r) = p_name (s_pkgs s3 r)" "p_architecture (s_pkgs s8 r) = p_architecture (s_pkgs s3 r)"
    "b \<in> set (the (p_provides (s_pkgs s8 r)))"
    "\<forall>a \<in> set (the (p_provides (s_pkgs s8 r))). b \<in> set (ap_provided_by (s_apkgs s8 a))"
    using builders_step [OF I(1) _ I(3), of r] assms(2) I(2) by auto
  have vec: "apkg_pkgs s8 b = apkg_pkgs s b \<and> ht_map (s_hash s) n = Some b \<or> apkg_pkgs s8 b = []"
    using I(5) evolves_apkg_pkgs [OF B(6) I(3)] by auto
  then have v: "\<forall>q \<in> set (apkg_pkgs s8 b). q \<noteq> r \<and> p_name (s_pkgs s8 q) \<noteq> None \<and> p_architecture (s_pkgs s8 q) \<noteq> None"
    using assms(5) B(6) I(2) by (fastforce simp: evolves_def comparable_def)
  have "set_status \<Longrightarrow> apkg_pkgs s8 b = []" using vec assms(6) by auto
  moreover have "p_name (s_pkgs s8 r) \<noteq> None" "p_architecture (s_pkgs s8 r) \<noteq> None"
    using B(8,9) assms(3,4) I(2) by simp_all
  ultimately obtain vec s9 where M: "pkg_vec_insert_merge (apkg_pkgs s8 b) r set_status s8 = Some (vec, s9)" "r \<in> set vec"
    "s_pkgs s9 r = s_pkgs s8 r" "s_apkgs s9 = s_apkgs s8" "s_hash s9 = s_hash s8" "s_apkg_next s9 = s_apkg_next s8"
    using insert_merge_step [OF v, of set_status] by blast
  define s' where "s' = upd_pkg r (\<lambda>p. p\<lparr>p_parent := Some b\<rparr>) (upd_apkg b (\<lambda>a. a\<lparr>ap_pkgs := Some vec\<rparr>) s9)"
  have r: "hash_insert_pkg r set_status s = Some s'"
    unfolding hash_insert_pkg_def assms(3) option.case e prod.case Let_def
      s2_def [symmetric] st_def [symmetric] s3_def [symmetric] s'_def
    using B(1-5) M(1) by simp
  have n: "names_ok s'" using evolves_names [OF B(6)] M(4-6) by (simp add: names_ok_def s'_def)
  have h: "ht_map (s_hash s') n = Some b" using evolves_hash [OF B(6) I(4)] M(5) by (simp add: s'_def)
  have p: "s_pkgs s' r = (s_pkgs s8 r)\<lparr>p_parent := Some b\<rparr>" using M(3) by (simp add: s'_def)
  have a: "arrays_agree (s_pkgs s' r)" using B(7) unfolding p
    by (simp add: arrays_agree_def conflicts_agree_def all_depends_count_def)
  have pb: "ap_provided_by (s_apkgs s' a) = ap_provided_by (s_apkgs s8 a)" for a using M(4) by (simp add: s'_def)
  have "r \<in> set (apkg_pkgs s' b)" using M(2) by (simp add: s'_def apkg_pkgs_def)
  then show ?thesis using r n h a B(10,11) p pb by (intro exI [of _ s'] exI [of _ b]) simp
qed

definition sample_pkg :: pkg where
  "sample_pkg = pkg_new\<lparr>p_name := Some ''a'', p_architecture := Some ''all'',
     p_depends_str := [''b (>= 1) | c''], p_depends_count := 1,
     p_provides_str := [''d''], p_provides_count := 1\<rparr>"

theorem hash_insert_pkg_establishes_witness:
  "\<exists>s' ab. hash_insert_pkg 0 True (upd_pkg 0 (\<lambda>p. sample_pkg) empty_store) = Some s' \<and>
    p_parent (s_pkgs s' 0) = Some ab \<and> 0 \<in> set (apkg_pkgs s' ab) \<and> arrays_agree (s_pkgs s' 0)"
proof -
  let ?s = "upd_pkg 0 (\<lambda>p. sample_pkg) empty_store"
  have "parsed_counts (s_pkgs ?s 0)" by (simp add: parsed_counts_def sample_pkg_def short_texts_def BUFFER_LEN_def pkg_new_def)
  moreover have "p_name (s_pkgs ?s 0) = Some ''a''" "p_architecture (s_pkgs ?s 0) \<noteq> None"
    by (simp_all add: sample_pkg_def)
  moreover have "apkg_pkgs ?s a = []" for a
    by (simp add: apkg_pkgs_def empty_store_def abstract_pkg_new_def)
  ultimately show ?thesis
    using hash_insert_pkg_establishes [OF names_ok_upd(1) [OF empty_store_ok], of 0 "\<lambda>p. sample_pkg" 0 "''a''" True] by auto
qed

end
