(* ===== verification/Opkg_Candidates.thy ===== *)
theory Opkg_Candidates
  imports Opkg_Insert Opkg_Compare
begin

text \<open>
  The choice of a package for an abstract package:
  \<open>pkg_hash_fetch_best_installation_candidate\<close> and the lookups by name of
  \<open>libopkg/pkg_hash.c\<close>. Messages are not modelled.
\<close>

section \<open>The candidates\<close>

text \<open>
  The provider that stands for one entry of \<open>provided_by\<close>: its first replacement, or nothing
  when the replacement is a provider itself.
\<close>

definition effective_provider :: "apkg_ref list \<Rightarrow> store \<Rightarrow> apkg_ref \<Rightarrow> apkg_ref option" where
  "effective_provider providers s provider =
     (case ap_replaced_by (s_apkgs s provider) of
        Some (replacement # _) \<Rightarrow>
          if replacement \<noteq> provider
          then if abstract_pkg_vec_contains providers replacement then None else Some replacement
          else Some provider
      | _ \<Rightarrow> Some provider)"

definition add_matching :: "store \<Rightarrow> pkg_ref \<Rightarrow> pkg_ref list \<times> apkg_ref option list \<Rightarrow>
    pkg_ref list \<times> apkg_ref option list" where
  "add_matching s maybe m =
     (if p_arch_priority (s_pkgs s maybe) > 0 \<and> \<not> pkg_vec_contains (fst m) maybe
      then (pkg_vec_insert (fst m) maybe, snd m @ [p_parent (s_pkgs s maybe)]) else m)"

definition add_provider :: "apkg_ref list \<Rightarrow> store \<Rightarrow> apkg_ref \<Rightarrow> pkg_ref list \<times> apkg_ref option list \<Rightarrow>
    pkg_ref list \<times> apkg_ref option list" where
  "add_provider providers s provider m =
     (case effective_provider providers s provider of
        None \<Rightarrow> m
      | Some a \<Rightarrow> (case ap_pkgs (s_apkgs s a) of None \<Rightarrow> m | Some vec \<Rightarrow> fold (add_matching s) vec m))"

definition matching :: "apkg_ref \<Rightarrow> store \<Rightarrow> pkg_ref list \<times> apkg_ref option list" where
  "matching apkg s =
     (let providers = ap_provided_by (s_apkgs s apkg)
      in fold (add_provider providers s) providers ([], []))"

text \<open>
  The two sorts, the second one by name only; \<open>srt\<close> is the \<open>qsort\<close> of the C library.
\<close>

type_synonym pkg_sort = "(pkg_ref \<Rightarrow> pkg_ref \<Rightarrow> int) \<Rightarrow> pkg_ref list \<Rightarrow> pkg_ref list"

definition sort_matching :: "pkg_sort \<Rightarrow> store \<Rightarrow> pkg_ref list \<times> apkg_ref option list \<Rightarrow> pkg_ref list" where
  "sort_matching srt s m =
     (let ps = (if length (fst m) > 1
                then srt (\<lambda>a b. pkg_name_version_and_architecture_compare (s_pkgs s a) (s_pkgs s b)) (fst m)
                else fst m)
      in if length (snd m) > 1
         then srt (\<lambda>a b. abstract_pkg_name_compare (p_name (s_pkgs s a)) (p_name (s_pkgs s b))) ps
         else ps)"

section \<open>The choice\<close>

text \<open>The last candidate that satisfies the constraint, or the first one provided by hand.\<close>

fun good_by_name ::
  "(pkg \<Rightarrow> bool option) \<Rightarrow> store \<Rightarrow> pkg_ref option \<Rightarrow> pkg_ref list \<Rightarrow> pkg_ref option option" where
  "good_by_name constraint_fcn s good [] = Some good"
| "good_by_name constraint_fcn s good (m # ms) =
     do { b \<leftarrow> constraint_fcn (s_pkgs s m);
          if \<not> b then good_by_name constraint_fcn s good ms
          else if p_provided_by_hand (s_pkgs s m) then Some (Some m)
          else good_by_name constraint_fcn s (Some m) ms }"

definition parent_installed :: "store \<Rightarrow> pkg_ref \<Rightarrow> bool option" where
  "parent_installed s m =
     (case p_parent (s_pkgs s m) of
        None \<Rightarrow> None
      | Some a \<Rightarrow> Some (ap_state_status (s_apkgs s a) = SS_INSTALLED \<or> ap_state_status (s_apkgs s a) = SS_UNPACKED))"

text \<open>The second loop: the last package, the last one whose parent is installed, the last one held.\<close>

fun scan_matching :: "store \<Rightarrow> pkg_ref option \<times> pkg_ref option \<times> pkg_ref option \<Rightarrow> pkg_ref list \<Rightarrow>
    (pkg_ref option \<times> pkg_ref option \<times> pkg_ref option) option" where
  "scan_matching s acc [] = Some acc"
| "scan_matching s (latest, installed, held) (m # ms) =
     do { i \<leftarrow> parent_installed s m;
          scan_matching s
            (Some m, if i then Some m else installed,
             if p_state_flag (s_pkgs s m) AND (SF_HOLD OR SF_PREFER) \<noteq> 0 then Some m else held) ms }"

text \<open>The third loop: the first package with the highest architecture priority.\<close>

fun highest_priority :: "store \<Rightarrow> int \<Rightarrow> pkg_ref option \<Rightarrow> pkg_ref list \<Rightarrow> pkg_ref option" where
  "highest_priority s prio best [] = best"
| "highest_priority s prio best (m # ms) =
     (if p_arch_priority (s_pkgs s m) > prio
      then highest_priority s (p_arch_priority (s_pkgs s m)) (Some m) ms
      else highest_priority s prio best ms)"

definition choose_candidate ::
  "pkg_ref option \<Rightarrow> pkg_ref option \<times> pkg_ref option \<times> pkg_ref option \<Rightarrow> pkg_ref option \<Rightarrow> nat \<Rightarrow> pkg_ref option" where
  "choose_candidate good scan prio nmatching =
     (case scan of (latest, installed, held) \<Rightarrow>
        if good \<noteq> None then good
        else if held \<noteq> None then held
        else if installed \<noteq> None then installed
        else if prio \<noteq> None then prio
        else if nmatching > 1 then None
        else latest)"

text \<open>
  A null abstract package gives null. The outer option is a read through a null pointer in the
  constraint function or in the parent of a candidate. The sort is a parameter; the rest of
  the development runs the function with the stable \<open>qsort\<close>.
\<close>

definition best_installation_candidate_sorted ::
  "pkg_sort \<Rightarrow> apkg_ref \<Rightarrow> (pkg \<Rightarrow> bool option) \<Rightarrow> bool \<Rightarrow> store \<Rightarrow> pkg_ref option option" where
  "best_installation_candidate_sorted srt apkg constraint_fcn quiet s =
     (let m = matching apkg s in
      if ap_provided_by (s_apkgs s apkg) = [] \<or> fst m = [] then Some None
      else let ms = sort_matching srt s m in
           do { good \<leftarrow> good_by_name constraint_fcn s None ms;
                scan \<leftarrow> scan_matching s (None, None, None) ms;
                Some (choose_candidate good scan
                  (case scan of (latest, installed, held) \<Rightarrow>
                     if good = None \<and> held = None \<and> installed = None \<and> length (snd m) > 1 \<and> \<not> quiet
                     then highest_priority s 0 None ms else None)
                  (length (snd m))) })"

definition pkg_hash_fetch_best_installation_candidate ::
  "apkg_ref \<Rightarrow> (pkg \<Rightarrow> bool option) \<Rightarrow> bool \<Rightarrow> store \<Rightarrow> pkg_ref option option" where
  "pkg_hash_fetch_best_installation_candidate = best_installation_candidate_sorted qsort"

section \<open>Lookups by name\<close>

definition pkg_name_constraint_fcn :: "string option \<Rightarrow> pkg \<Rightarrow> bool option" where
  "pkg_name_constraint_fcn name pkg = same_text (p_name pkg) name"

definition pkg_vec_fetch_by_name :: "string \<Rightarrow> store \<Rightarrow> pkg_ref list option \<times> store" where
  "pkg_vec_fetch_by_name pkg_name s =
     (case abstract_pkg_fetch_by_name pkg_name s of
        (None, s') \<Rightarrow> (None, s')
      | (Some a, s') \<Rightarrow>
          (case ap_pkgs (s_apkgs s' a) of
             Some vec \<Rightarrow> (Some vec, s')
           | None \<Rightarrow>
               (case abstract_pkg_vec_get (ap_provided_by (s_apkgs s' a)) 0 of
                  Some b \<Rightarrow> (ap_pkgs (s_apkgs s' b), s')
                | None \<Rightarrow> (ap_pkgs (s_apkgs s' a), s'))))"

definition pkg_hash_fetch_best_installation_candidate_by_name ::
  "string \<Rightarrow> store \<Rightarrow> (pkg_ref option \<times> store) option" where
  "pkg_hash_fetch_best_installation_candidate_by_name name s =
     (case abstract_pkg_fetch_by_name name s of
        (None, s') \<Rightarrow> Some (None, s')
      | (Some a, s') \<Rightarrow>
          do { c \<leftarrow> pkg_hash_fetch_best_installation_candidate a
                      (pkg_name_constraint_fcn (ap_name (s_apkgs s' a))) False s';
               Some (c, s') })"

fun find_version :: "store \<Rightarrow> string \<Rightarrow> pkg_ref list \<Rightarrow> pkg_ref option option" where
  "find_version s version [] = Some None"
| "find_version s version (p # ps) =
     do { v \<leftarrow> pkg_version_str_alloc (s_pkgs s p);
          if strcmp v version = 0 then Some (Some p) else find_version s version ps }"

definition pkg_hash_fetch_by_name_version :: "string \<Rightarrow> string \<Rightarrow> store \<Rightarrow> (pkg_ref option \<times> store) option" where
  "pkg_hash_fetch_by_name_version pkg_name version s =
     (case pkg_vec_fetch_by_name pkg_name s of
        (None, s') \<Rightarrow> Some (None, s')
      | (Some vec, s') \<Rightarrow> do { p \<leftarrow> find_version s' version vec; Some (p, s') })"

definition pkg_hash_fetch_installed_by_name_dest ::
  "string \<Rightarrow> dest_ref option \<Rightarrow> store \<Rightarrow> pkg_ref option \<times> store" where
  "pkg_hash_fetch_installed_by_name_dest pkg_name dest s =
     (case pkg_vec_fetch_by_name pkg_name s of
        (None, s') \<Rightarrow> (None, s')
      | (Some vec, s') \<Rightarrow>
          (find (\<lambda>p. is_installed (s_pkgs s' p) \<and> p_dest (s_pkgs s' p) = dest) vec, s'))"

definition pkg_hash_fetch_installed_by_name :: "string \<Rightarrow> store \<Rightarrow> pkg_ref option \<times> store" where
  "pkg_hash_fetch_installed_by_name pkg_name s =
     (case pkg_vec_fetch_by_name pkg_name s of
        (None, s') \<Rightarrow> (None, s')
      | (Some vec, s') \<Rightarrow> (find (\<lambda>p. is_installed (s_pkgs s' p)) vec, s'))"

definition pkg_hash_fetch_available :: "pkg_ref list \<Rightarrow> store \<Rightarrow> pkg_ref list" where
  "pkg_hash_fetch_available all s =
     hash_table_foreach (s_hash s) (\<lambda>pkg_name ab_pkg all. fold (\<lambda>p all. pkg_vec_insert all p) (apkg_pkgs s ab_pkg) all) all"

definition pkg_hash_fetch_all_installed :: "pkg_ref list \<Rightarrow> store \<Rightarrow> pkg_ref list" where
  "pkg_hash_fetch_all_installed all s =
     hash_table_foreach (s_hash s)
       (\<lambda>pkg_name ab_pkg all. fold (\<lambda>p all. if is_installed (s_pkgs s p) then pkg_vec_insert all p else all)
          (apkg_pkgs s ab_pkg) all) all"

section \<open>What the loops compute\<close>

definition candidates :: "apkg_ref \<Rightarrow> store \<Rightarrow> pkg_ref set" where
  "candidates apkg s =
     {p. p_arch_priority (s_pkgs s p) > 0 \<and>
         (\<exists>provider \<in> set (ap_provided_by (s_apkgs s apkg)). \<exists>a.
            effective_provider (ap_provided_by (s_apkgs s apkg)) s provider = Some a \<and>
            p \<in> set (apkg_pkgs s a))}"

definition last_or :: "'a option \<Rightarrow> 'a list \<Rightarrow> 'a option" where
  "last_or d xs = (if xs = [] then d else Some (last xs))"

lemma last_or_simps [simp]: "last_or d [] = d" "last_or d (x # xs) = last_or (Some x) xs"
  by (simp_all add: last_or_def)

lemma last_or_eq_None: "last_or d xs = None \<longleftrightarrow> d = None \<and> xs = []"
  by (simp add: last_or_def)

lemma add_matching_fold:
  assumes "length (snd m) = length (fst m)" "distinct (fst m)"
  shows "length (snd (fold (add_matching s) vec m)) = length (fst (fold (add_matching s) vec m)) \<and>
    distinct (fst (fold (add_matching s) vec m)) \<and>
    set (fst (fold (add_matching s) vec m)) = set (fst m) \<union> {p \<in> set vec. p_arch_priority (s_pkgs s p) > 0}"
  using assms
proof (induction vec arbitrary: m)
  case (Cons v vec)
  let ?m = "add_matching s v m"
  have "length (snd ?m) = length (fst ?m)" "distinct (fst ?m)"
    "set (fst ?m) = set (fst m) \<union> (if p_arch_priority (s_pkgs s v) > 0 then {v} else {})"
    using Cons.prems by (auto simp: add_matching_def pkg_vec_insert_def vec_contains)
  then show ?case using Cons.IH [of ?m] by auto
qed simp

lemma add_provider_fold:
  assumes "length (snd m) = length (fst m)" "distinct (fst m)"
  shows "length (snd (fold (add_provider ps s) vec m)) = length (fst (fold (add_provider ps s) vec m)) \<and>
    distinct (fst (fold (add_provider ps s) vec m)) \<and>
    set (fst (fold (add_provider ps s) vec m)) = set (fst m) \<union>
      {p. p_arch_priority (s_pkgs s p) > 0 \<and>
          (\<exists>provider \<in> set vec. \<exists>a. effective_provider ps s provider = Some a \<and> p \<in> set (apkg_pkgs s a))}"
  using assms
proof (induction vec arbitrary: m)
  case (Cons v vec)
  let ?m = "add_provider ps s v m"
  let ?new = "{p. p_arch_priority (s_pkgs s p) > 0 \<and> (\<exists>a. effective_provider ps s v = Some a \<and> p \<in> set (apkg_pkgs s a))}"
  have "length (snd ?m) = length (fst ?m) \<and> distinct (fst ?m) \<and> set (fst ?m) = set (fst m) \<union> ?new"
  proof (cases "effective_provider ps s v")
    case None
    then show ?thesis using Cons.prems by (simp add: add_provider_def)
  next
    case (Some a)
    show ?thesis
    proof (cases "ap_pkgs (s_apkgs s a)")
      case None
      then show ?thesis using Some Cons.prems by (simp add: add_provider_def apkg_pkgs_def)
    next
      case (Some w)
      then show ?thesis using \<open>effective_provider ps s v = Some a\<close> add_matching_fold [OF Cons.prems, of s w]
        by (auto simp: add_provider_def apkg_pkgs_def)
    qed
  qed
  then show ?case using Cons.IH [of ?m] by (auto 0 3)
qed simp

lemma matching_spec:
  "length (snd (matching apkg s)) = length (fst (matching apkg s))" "distinct (fst (matching apkg s))"
  "set (fst (matching apkg s)) = candidates apkg s"
  using add_provider_fold [of "([], [])" "ap_provided_by (s_apkgs s apkg)" s "ap_provided_by (s_apkgs s apkg)"]
  unfolding matching_def candidates_def Let_def by (auto simp del: fold_simps)

lemma good_by_name_spec:
  assumes "\<forall>m \<in> set ms. constraint_fcn (s_pkgs s m) = Some (c m)"
  shows "good_by_name constraint_fcn s good ms =
    Some (case find (\<lambda>m. c m \<and> p_provided_by_hand (s_pkgs s m)) ms of
            Some m \<Rightarrow> Some m | None \<Rightarrow> last_or good (filter c ms))"
  using assms by (induction ms arbitrary: good) (auto cong: option.case_cong)

definition held :: "store \<Rightarrow> pkg_ref \<Rightarrow> bool" where
  "held s m \<longleftrightarrow> p_state_flag (s_pkgs s m) AND (SF_HOLD OR SF_PREFER) \<noteq> 0"

lemma scan_matching_spec:
  assumes "\<forall>m \<in> set ms. parent_installed s m = Some (i m)"
  shows "scan_matching s (l, n, h) ms =
    Some (last_or l ms, last_or n (filter i ms), last_or h (filter (held s) ms))"
  using assms by (induction ms arbitrary: l n h) (simp_all add: held_def)

lemma highest_priority_spec:
  assumes "\<forall>b. best = Some b \<longrightarrow> p_arch_priority (s_pkgs s b) = prio"
  shows "(\<forall>m \<in> set ms. p_arch_priority (s_pkgs s m) \<le> prio) \<and> highest_priority s prio best ms = best \<or>
    (\<exists>b \<in> set ms. highest_priority s prio best ms = Some b \<and> prio < p_arch_priority (s_pkgs s b) \<and>
       (\<forall>m \<in> set ms. p_arch_priority (s_pkgs s m) \<le> p_arch_priority (s_pkgs s b)))"
  using assms
proof (induction ms arbitrary: prio best)
  case (Cons m ms)
  show ?case
    using Cons.IH [of "Some m" "p_arch_priority (s_pkgs s m)"] Cons.IH [of best prio] Cons.prems
    by (cases "p_arch_priority (s_pkgs s m) > prio") auto
qed simp

subsection \<open>The order of the candidates\<close>

definition pkg_le :: "store \<Rightarrow> pkg_ref \<Rightarrow> pkg_ref \<Rightarrow> bool" where
  "pkg_le s a b \<longleftrightarrow> pkg_name_version_and_architecture_compare (s_pkgs s a) (s_pkgs s b) \<le> 0"

lemma ref_comparator:
  "comparator (\<lambda>r. sortable (s_pkgs s r))
     (\<lambda>a b. pkg_name_version_and_architecture_compare (s_pkgs s a) (s_pkgs s b))"
  by (rule comparator_key [OF pkgcmp.comparator_axioms])

lemma qsort_sorted_id: "sorted_wrt (\<lambda>a b. cmp a b \<le> 0) xs \<Longrightarrow> qsort cmp xs = xs"
proof (induction xs)
  case (Cons x xs)
  then show ?case by (cases xs) auto
qed simp

lemma sort_matching_spec:
  assumes "\<forall>m \<in> set (fst m). sortable (s_pkgs s m)"
  shows "set (sort_matching qsort s m) = set (fst m)" "sorted_wrt (pkg_le s) (sort_matching qsort s m)"
    "sort_matching qsort s m = [] \<longleftrightarrow> fst m = []" "length (sort_matching qsort s m) = length (fst m)"
proof -
  let ?cmp = "\<lambda>a b. pkg_name_version_and_architecture_compare (s_pkgs s a) (s_pkgs s b)"
  let ?ncmp = "\<lambda>a b. abstract_pkg_name_compare (p_name (s_pkgs s a)) (p_name (s_pkgs s b))"
  define ps where "ps = (if length (fst m) > 1 then qsort ?cmp (fst m) else fst m)"
  have set: "set ps = set (fst m)" by (simp add: ps_def)
  have "sorted_wrt (\<lambda>a b. ?cmp a b \<le> 0) (qsort ?cmp (fst m))"
    by (rule comparator.sorted_qsort [OF ref_comparator]) (use assms in \<open>simp add: list_all_iff\<close>)
  moreover have "sorted_wrt P (fst m)" if "\<not> length (fst m) > 1" for P
    using that by (cases "fst m"; cases "tl (fst m)") auto
  ultimately have sorted: "sorted_wrt (\<lambda>a b. ?cmp a b \<le> 0) ps" by (simp add: ps_def)
  have "?ncmp a b \<le> 0" if "?cmp a b \<le> 0" "a \<in> set ps" "b \<in> set ps" for a b
    using that assms unfolding set
    by (auto simp: pkg_name_version_and_architecture_compare_def abstract_pkg_name_compare_def sortable_def
        strcmp_refl Let_def split: option.splits if_splits)
  then have "sorted_wrt (\<lambda>a b. ?ncmp a b \<le> 0) ps"
    using sorted by (auto intro: sorted_wrt_mono_rel [of ps "\<lambda>a b. ?cmp a b \<le> 0"])
  then have e: "sort_matching qsort s m = ps"
    unfolding sort_matching_def Let_def ps_def [symmetric] by (auto simp: qsort_sorted_id)
  show "set (sort_matching qsort s m) = set (fst m)" "sorted_wrt (pkg_le s) (sort_matching qsort s m)"
    using set sorted by (simp_all add: e pkg_le_def [abs_def])
  show "length (sort_matching qsort s m) = length (fst m)" by (simp add: e ps_def)
  then show "sort_matching qsort s m = [] \<longleftrightarrow> fst m = []" by (metis length_0_conv)
qed

text \<open>Any other stable sort gives the same candidates in the same order.\<close>

lemma sort_matching_stable:
  assumes "stable_sort srt" "\<forall>m \<in> set (fst m). sortable (s_pkgs s m)"
  shows "sort_matching srt s m = sort_matching qsort s m"
proof -
  let ?cmp = "\<lambda>a b. pkg_name_version_and_architecture_compare (s_pkgs s a) (s_pkgs s b)"
  let ?ncmp = "\<lambda>a b. abstract_pkg_name_compare (p_name (s_pkgs s a)) (p_name (s_pkgs s b))"
  have n: "comparator (\<lambda>r. sortable (s_pkgs s r)) ?ncmp"
    by (rule comparator_mono [OF comparator_key [OF strcmp.comparator_axioms, of "\<lambda>r. the (p_name (s_pkgs s r))"]])
      (auto simp: sortable_def abstract_pkg_name_compare_def)
  have "list_all (\<lambda>r. sortable (s_pkgs s r)) (fst m)" using assms(2) by (simp add: list_all_iff)
  then have "srt ?cmp (fst m) = qsort ?cmp (fst m)" "srt ?ncmp (fst m) = qsort ?ncmp (fst m)"
    "srt ?ncmp (qsort ?cmp (fst m)) = qsort ?ncmp (qsort ?cmp (fst m))"
    by (intro stable_sort.srt_eq_qsort [OF assms(1)] ref_comparator n; simp add: list_all_iff)+
  then show ?thesis by (simp add: sort_matching_def Let_def)
qed

section \<open>The property of the choice\<close>

text \<open>A package of the set that satisfies the predicate and that no other such package is above.\<close>

definition greatest_of :: "store \<Rightarrow> pkg_ref set \<Rightarrow> (pkg_ref \<Rightarrow> bool) \<Rightarrow> pkg_ref \<Rightarrow> bool" where
  "greatest_of s M P p \<longleftrightarrow> p \<in> M \<and> P p \<and> (\<forall>q \<in> M. P q \<longrightarrow> pkg_le s q p)"

lemma last_filter_greatest:
  assumes "sorted_wrt (pkg_le s) ms" "\<forall>m \<in> set ms. sortable (s_pkgs s m)" "last_or None (filter P ms) = Some p"
  shows "greatest_of s (set ms) P p"
proof -
  have ne: "filter P ms \<noteq> []" and p: "p = last (filter P ms)" using assms(3) by (auto simp: last_or_def split: if_splits)
  have e: "butlast (filter P ms) @ [p] = filter P ms" unfolding p by (rule append_butlast_last_id [OF ne])
  have "sorted_wrt (pkg_le s) (butlast (filter P ms) @ [p])" unfolding e by (rule sorted_wrt_filter [OF assms(1)])
  then have le: "q \<in> set (butlast (filter P ms)) \<Longrightarrow> pkg_le s q p" for q by (simp add: sorted_wrt_append)
  have in_p: "p \<in> set ms \<and> P p" using last_in_set [OF ne] by (simp add: p)
  have "pkg_le s q p" if "q \<in> set ms" "P q" for q
  proof (cases "q = p")
    case True
    then show ?thesis using assms(2) in_p comparator.cmp_refl [OF ref_comparator, of s p] by (simp add: pkg_le_def)
  next
    case False
    have "q \<in> set (butlast (filter P ms) @ [p])" unfolding e using that by simp
    then show ?thesis using False le by simp
  qed
  then show ?thesis using in_p by (simp add: greatest_of_def)
qed

lemma find_elem: "find P xs = Some x \<Longrightarrow> x \<in> set xs \<and> P x"
  by (induction xs) (auto split: if_splits)

lemma find_absent: "find P xs = None \<longleftrightarrow> (\<forall>x \<in> set xs. \<not> P x)"
  by (induction xs) auto

lemma last_filter_None: "last_or None (filter P ms) = None \<longleftrightarrow> (\<forall>m \<in> set ms. \<not> P m)"
  by (simp add: last_or_eq_None filter_empty_conv)

definition parent_is_installed :: "store \<Rightarrow> pkg_ref \<Rightarrow> bool" where
  "parent_is_installed s p \<longleftrightarrow> parent_installed s p = Some True"

text \<open>
  The specification of the choice, over the set of candidates: first the constraint, then what
  is held, then what is installed, then, unless the caller is quiet, the architecture.
\<close>

definition choice_spec ::
  "store \<Rightarrow> pkg_ref set \<Rightarrow> (pkg_ref \<Rightarrow> bool) \<Rightarrow> bool \<Rightarrow> pkg_ref option \<Rightarrow> bool" where
  "choice_spec s M c quiet r \<longleftrightarrow>
     (if M = {} then r = None
      else if \<exists>p \<in> M. c p \<and> p_provided_by_hand (s_pkgs s p)
        then \<exists>p \<in> M. r = Some p \<and> c p \<and> p_provided_by_hand (s_pkgs s p)
      else if \<exists>p \<in> M. c p then \<exists>p. r = Some p \<and> greatest_of s M c p
      else if \<exists>p \<in> M. held s p then \<exists>p. r = Some p \<and> greatest_of s M (held s) p
      else if \<exists>p \<in> M. parent_is_installed s p then \<exists>p. r = Some p \<and> greatest_of s M (parent_is_installed s) p
      else if is_singleton M then M = {the r} \<and> r \<noteq> None
      else if quiet then r = None
      else \<exists>p \<in> M. r = Some p \<and> (\<forall>q \<in> M. p_arch_priority (s_pkgs s q) \<le> p_arch_priority (s_pkgs s p)))"

definition candidates_ok :: "apkg_ref \<Rightarrow> store \<Rightarrow> bool" where
  "candidates_ok apkg s \<longleftrightarrow>
     (\<forall>p \<in> candidates apkg s. version_ok (s_pkgs s p) \<and> p_name (s_pkgs s p) \<noteq> None \<and> p_parent (s_pkgs s p) \<noteq> None)"

text \<open>The candidates in the order of the sort, and the choice made from it.\<close>

definition sorted_candidates :: "store \<Rightarrow> pkg_ref set \<Rightarrow> pkg_ref list \<Rightarrow> bool" where
  "sorted_candidates s M ms \<longleftrightarrow> set ms = M \<and> sorted_wrt (pkg_le s) ms \<and>
     (\<forall>p \<in> M. sortable (s_pkgs s p) \<and> p_arch_priority (s_pkgs s p) > 0)"

definition choice_from :: "store \<Rightarrow> pkg_ref list \<Rightarrow> bool \<Rightarrow> nat \<Rightarrow> pkg_ref option \<Rightarrow> pkg_ref option" where
  "choice_from s ms quiet n good =
     (let installed = last_or None (filter (parent_is_installed s) ms); held = last_or None (filter (held s) ms)
      in choose_candidate good (last_or None ms, installed, held)
           (if good = None \<and> held = None \<and> installed = None \<and> n > 1 \<and> \<not> quiet
            then highest_priority s 0 None ms else None) n)"

lemma sorted_greatest:
  "sorted_candidates s M ms \<Longrightarrow> last_or None (filter P ms) = Some p \<Longrightarrow> greatest_of s M P p"
  using last_filter_greatest [of s ms P p] by (auto simp: sorted_candidates_def)

lemma sorted_none: "sorted_candidates s M ms \<Longrightarrow> last_or None (filter P ms) = None \<longleftrightarrow> \<not> (\<exists>p \<in> M. P p)"
  unfolding last_filter_None by (simp add: sorted_candidates_def)

lemma choice_by_constraint:
  assumes "sorted_candidates s M ms" "\<exists>p \<in> M. c p"
    "good = (case find (\<lambda>m. c m \<and> p_provided_by_hand (s_pkgs s m)) ms of
            Some m \<Rightarrow> Some m | None \<Rightarrow> last_or None (filter c ms))"
  shows "choice_spec s M c quiet (choice_from s ms quiet n good)"
proof (cases "find (\<lambda>m. c m \<and> p_provided_by_hand (s_pkgs s m)) ms")
  case None
  then have "good = last_or None (filter c ms)" using assms(3) by simp
  moreover have "good \<noteq> None" using calculation sorted_none [OF assms(1), of c] assms(2) by simp
  moreover have "\<not> (\<exists>p \<in> M. c p \<and> p_provided_by_hand (s_pkgs s p))"
    using None assms(1) by (simp add: find_absent sorted_candidates_def)
  ultimately show ?thesis using assms(2) sorted_greatest [OF assms(1), of c]
    by (auto simp: choice_spec_def choice_from_def choose_candidate_def)
next
  case (Some p)
  then have "p \<in> M" "c p" "p_provided_by_hand (s_pkgs s p)"
    using find_elem [OF Some] assms(1) by (simp_all add: sorted_candidates_def)
  then show ?thesis using Some assms(3)
    by (auto simp: choice_spec_def choice_from_def choose_candidate_def)
qed

lemma choice_by_architecture:
  assumes S: "sorted_candidates s M ms" and ne: "M \<noteq> {}" and n: "card M = n"
    and no: "\<not> (\<exists>p \<in> M. c p)" "\<not> (\<exists>p \<in> M. held s p)" "\<not> (\<exists>p \<in> M. parent_is_installed s p)"
  shows "choice_spec s M c quiet (choice_from s ms quiet n None)"
proof (cases "is_singleton M")
  case True
  then obtain x where x: "M = {x}" by (auto simp: is_singleton_def)
  have "last_or None ms = Some x"
    using S x last_in_set [of ms] by (cases "ms = []") (auto simp: last_or_def sorted_candidates_def)
  then show ?thesis
    using True n no x sorted_none [OF S, of "held s"] sorted_none [OF S, of "parent_is_installed s"]
    by (simp add: choice_spec_def choice_from_def choose_candidate_def)
next
  case ns: False
  have "finite M" using S by (auto simp: sorted_candidates_def)
  then have "card M \<noteq> 0" "card M \<noteq> 1" using ne ns by (simp_all add: is_singleton_altdef)
  then have gt: "n > 1" using n by linarith
  obtain x where "x \<in> M" using ne by blast
  then have x: "x \<in> M" "p_arch_priority (s_pkgs s x) > 0" using S by (simp_all add: sorted_candidates_def)
  then have "\<not> (\<forall>m \<in> M. p_arch_priority (s_pkgs s m) \<le> 0)" by (meson not_le)
  then have "\<exists>p \<in> M. highest_priority s 0 None ms = Some p \<and>
      (\<forall>q \<in> M. p_arch_priority (s_pkgs s q) \<le> p_arch_priority (s_pkgs s p))"
    using highest_priority_spec [of None s 0 ms] S by (auto simp: sorted_candidates_def)
  then show ?thesis
    using no ns gt ne sorted_none [OF S, of "held s"] sorted_none [OF S, of "parent_is_installed s"]
    by (auto simp: choice_spec_def choice_from_def choose_candidate_def)
qed

lemma choice_by_fallback:
  assumes S: "sorted_candidates s M ms" and ne: "M \<noteq> {}" and n: "card M = n" and no: "\<not> (\<exists>p \<in> M. c p)"
  shows "choice_spec s M c quiet (choice_from s ms quiet n None)"
proof (cases "\<exists>p \<in> M. held s p")
  case True
  then obtain p where "last_or None (filter (held s) ms) = Some p" using sorted_none [OF S, of "held s"] by auto
  with sorted_greatest [OF S this] show ?thesis
    using no ne True by (auto simp: choice_spec_def choice_from_def choose_candidate_def)
next
  case nh: False
  show ?thesis
  proof (cases "\<exists>p \<in> M. parent_is_installed s p")
    case True
    then obtain p where "last_or None (filter (parent_is_installed s) ms) = Some p"
      using sorted_none [OF S, of "parent_is_installed s"] by auto
    with sorted_greatest [OF S this] show ?thesis
      using no ne True nh sorted_none [OF S, of "held s"]
      by (auto simp: choice_spec_def choice_from_def choose_candidate_def)
  next
    case False
    then show ?thesis by (rule choice_by_architecture [OF S ne n no nh])
  qed
qed

lemma best_candidate_correct:
  assumes "candidates_ok apkg s" "\<forall>p \<in> candidates apkg s. constraint_fcn (s_pkgs s p) = Some (c p)"
  shows "\<exists>r. pkg_hash_fetch_best_installation_candidate apkg constraint_fcn quiet s = Some r \<and>
    choice_spec s (candidates apkg s) c quiet r"
proof -
  define M where "M = candidates apkg s"
  define m where "m = matching apkg s"
  define ms where "ms = sort_matching qsort s m"
  note m = matching_spec [of apkg s, folded m_def M_def]
  have so: "\<forall>p \<in> M. sortable (s_pkgs s p)" "\<forall>p \<in> M. p_arch_priority (s_pkgs s p) > 0"
    using assms(1) by (auto simp: candidates_ok_def sortable_def M_def candidates_def)
  then have S: "sorted_candidates s M ms"
    using sort_matching_spec [of m s] m(3) by (simp add: ms_def sorted_candidates_def)
  have d: "card M = length (snd m)" using m distinct_card [of "fst m"] by simp
  show ?thesis
  proof (cases "M = {}")
    case True
    then show ?thesis using m(3)
      by (auto simp: pkg_hash_fetch_best_installation_candidate_def best_installation_candidate_sorted_def Let_def choice_spec_def
          simp flip: m_def M_def)
  next
    case ne: False
    define good where "good = (case find (\<lambda>m. c m \<and> p_provided_by_hand (s_pkgs s m)) ms of
            Some m \<Rightarrow> Some m | None \<Rightarrow> last_or None (filter c ms))"
    have g: "good_by_name constraint_fcn s None ms = Some good"
      unfolding good_def by (rule good_by_name_spec) (use assms(2) S M_def in \<open>simp add: sorted_candidates_def\<close>)
    have "\<forall>p \<in> set ms. parent_installed s p = Some (parent_is_installed s p)"
      using assms(1) S
      by (auto simp: candidates_ok_def parent_is_installed_def parent_installed_def M_def sorted_candidates_def)
    note sc = scan_matching_spec [OF this, of None None None]
    have "ap_provided_by (s_apkgs s apkg) \<noteq> []" using ne by (auto simp: M_def candidates_def)
    then have r: "pkg_hash_fetch_best_installation_candidate apkg constraint_fcn quiet s =
        Some (choice_from s ms quiet (length (snd m)) good)"
      using ne m(3) g sc
      by (auto simp: pkg_hash_fetch_best_installation_candidate_def best_installation_candidate_sorted_def choice_from_def Let_def
          simp flip: m_def ms_def)
    have "good = None" if "\<not> (\<exists>p \<in> M. c p)"
      using that S sorted_none [OF S, of c] find_absent [of "\<lambda>m. c m \<and> p_provided_by_hand (s_pkgs s m)" ms]
      by (auto simp: good_def sorted_candidates_def)
    then have "choice_spec s M c quiet (choice_from s ms quiet (length (snd m)) good)"
      using choice_by_constraint [OF S _ good_def] choice_by_fallback [OF S ne d] by blast
    then show ?thesis using r by (simp add: M_def)
  qed
qed

lemma best_candidate_stable:
  assumes "stable_sort srt" "candidates_ok apkg s"
  shows "best_installation_candidate_sorted srt apkg constraint_fcn quiet s =
    pkg_hash_fetch_best_installation_candidate apkg constraint_fcn quiet s"
proof -
  have "\<forall>p \<in> set (fst (matching apkg s)). sortable (s_pkgs s p)"
    using assms(2) by (auto simp: matching_spec candidates_ok_def sortable_def candidates_def)
  from sort_matching_stable [OF assms(1) this] show ?thesis
    by (simp add: pkg_hash_fetch_best_installation_candidate_def best_installation_candidate_sorted_def Let_def)
qed

text \<open>(C13) Where the \<open>qsort\<close> of the C library is stable,
  \<open>pkg_hash_fetch_best_installation_candidate\<close> chooses, among the packages of the effective
  providers that have a supported architecture, one that satisfies the constraint whenever there
  is one: a package provided by hand if any of those is, else the greatest by name, version and
  architecture. Without one it falls back to the greatest held package, then to the greatest
  whose parent is installed, then to the only candidate although it does not satisfy the
  constraint, and for several candidates to nothing or, unless told to be quiet, to one with
  the highest architecture priority. C does not promise a stable \<open>qsort\<close>; the second sort, by
  name only, needs one to keep the order of the versions.\<close>

theorem best_candidate_choice:
  assumes "stable_sort srt"
    and "candidates_ok apkg s" "\<forall>p \<in> candidates apkg s. constraint_fcn (s_pkgs s p) = Some (c p)"
  shows "\<exists>r. best_installation_candidate_sorted srt apkg constraint_fcn quiet s = Some r \<and>
    choice_spec s (candidates apkg s) c quiet r"
  unfolding best_candidate_stable [OF assms(1,2)] by (rule best_candidate_correct [OF assms(2,3)])

definition two_versions :: store where
  "two_versions = empty_store\<lparr>
     s_pkgs := (\<lambda>r. if r = 0 then (example_pkg ''b'' ''1.10-1'')\<lparr>p_parent := Some 0, p_arch_priority := 1\<rparr>
                    else (example_pkg ''b'' ''1.12'')\<lparr>p_parent := Some 0, p_arch_priority := 1\<rparr>),
     s_apkgs := (\<lambda>a. abstract_pkg_new\<lparr>ap_name := Some ''b'', ap_pkgs := Some [1, 0], ap_provided_by := [0]\<rparr>),
     s_apkg_next := 1\<rparr>"

lemma example_fields:
  "p_name (example_pkg n v) = Some n" "p_provided_by_hand (example_pkg n v) = False"
  by (simp_all add: example_pkg_def parse_version_def Let_def case_prod_unfold pkg_new_def split: option.splits)

lemma two_versions_facts:
  "candidates 0 two_versions = {0, 1}" "candidates_ok 0 two_versions" "\<not> pkg_le two_versions 1 0"
  "\<not> p_provided_by_hand (s_pkgs two_versions 0)" "\<not> p_provided_by_hand (s_pkgs two_versions 1)"
proof -
  let ?v = "\<lambda>v. (example_pkg ''b'' v)\<lparr>p_parent := Some 0, p_arch_priority := 1\<rparr>"
  have s: "s_pkgs two_versions 0 = ?v ''1.10-1''" "s_pkgs two_versions 1 = ?v ''1.12''"
    by (simp_all add: two_versions_def)
  note s' = s(2) [unfolded One_nat_def]
  show c: "candidates 0 two_versions = {0, 1}"
    by (auto simp: candidates_def two_versions_def effective_provider_def abstract_pkg_new_def apkg_pkgs_def)
  show "\<not> p_provided_by_hand (s_pkgs two_versions 0)" "\<not> p_provided_by_hand (s_pkgs two_versions 1)"
    unfolding s by (simp_all add: example_fields)
  have v: "version_ok (?v x) = version_ok (example_pkg ''b'' x)" for x by (simp add: version_ok_def)
  show "candidates_ok 0 two_versions"
    using example_versions(2,3) unfolding candidates_ok_def c by (simp add: s s' v example_fields)
  have "pkg_compare_versions (?v x) (?v y) = pkg_compare_versions (example_pkg ''b'' x) (example_pkg ''b'' y)" for x y
    by (simp add: pkg_compare_versions_def Let_def)
  then have "pkg_compare_versions (?v ''1.12'') (?v ''1.10-1'') > 0"
    using example_versions(2,3) example_versions(6) [of "''b''" "''b''"] vercmp.cmp_less_iff by simp
  then show "\<not> pkg_le two_versions 1 0"
    unfolding pkg_le_def s by (simp add: pkg_name_version_and_architecture_compare_def example_fields Let_def)
qed

theorem best_candidate_choice_witness:
  "pkg_hash_fetch_best_installation_candidate 0 (\<lambda>p. Some True) True two_versions = Some (Some 1)"
proof -
  obtain r where r: "pkg_hash_fetch_best_installation_candidate 0 (\<lambda>p. Some True) True two_versions = Some r"
    "choice_spec two_versions {0, 1} (\<lambda>p. True) True r"
    using best_candidate_choice [OF stable_qsort.stable_sort_axioms two_versions_facts(2), of "\<lambda>p. Some True" "\<lambda>p. True" True]
      two_versions_facts(1) by (auto simp: pkg_hash_fetch_best_installation_candidate_def)
  then have "r = Some 1" using two_versions_facts(3-5)
    by (auto simp: choice_spec_def greatest_of_def split: if_splits)
  then show ?thesis using r(1) by simp
qed

lemma fold_collect:
  "fold (\<lambda>(k, v). fold (\<lambda>p all. if P p then all @ [p] else all) (f v)) kvs all =
   all @ concat (map (\<lambda>(k, v). filter P (f v)) kvs)"
proof -
  have "fold (\<lambda>p all. if P p then all @ [p] else all) vec all = all @ filter P vec" for vec all
    by (induction vec arbitrary: all) auto
  then show ?thesis by (induction kvs arbitrary: all) auto
qed

text \<open>\<open>pkg_hash_fetch_all_installed\<close> appends exactly the packages in the vectors of the abstract
  packages of the hash table that are installed or unpacked.\<close>

theorem fetch_all_installed_exact:
  assumes "ht_ok (s_hash s)"
  shows "\<exists>new. pkg_hash_fetch_all_installed all s = all @ new \<and>
    set new = {p. is_installed (s_pkgs s p) \<and>
                  (\<exists>n a. fst (hash_table_get (s_hash s) n) = Some a \<and> p \<in> set (apkg_pkgs s a))}"
proof -
  let ?new = "concat (map (\<lambda>(k, v). filter (\<lambda>p. is_installed (s_pkgs s p)) (apkg_pkgs s v)) (ht_list (s_hash s)))"
  note k = ht_list_keys [OF assms]
  have "pkg_hash_fetch_all_installed all s = all @ ?new"
    using fold_collect [of "\<lambda>p. is_installed (s_pkgs s p)" "apkg_pkgs s" "ht_list (s_hash s)" all]
    by (simp add: pkg_hash_fetch_all_installed_def hash_table_foreach_def fold_buckets ht_list_def
        pkg_vec_insert_def cong: if_cong)
  moreover have "set ?new = {p. is_installed (s_pkgs s p) \<and>
      (\<exists>n a. fst (hash_table_get (s_hash s) n) = Some a \<and> p \<in> set (apkg_pkgs s a))}"
  proof -
    have "(n, a) \<in> set (ht_list (s_hash s)) \<longleftrightarrow> fst (hash_table_get (s_hash s) n) = Some a" for n a
      using k by (metis hash_table_get_map map_of_eq_Some_iff)
    then show ?thesis by force
  qed
  ultimately show ?thesis by blast
qed

theorem fetch_all_installed_exact_witness:
  "\<exists>new. pkg_hash_fetch_all_installed [7] empty_store = [7] @ new \<and> set new = {}"
proof -
  have "ht_ok (s_hash empty_store)" using empty_store_ok by (simp add: names_ok_def)
  then obtain new where "pkg_hash_fetch_all_installed [7] empty_store = [7] @ new"
    "set new = {p. is_installed (s_pkgs empty_store p) \<and>
       (\<exists>n a. fst (hash_table_get (s_hash empty_store) n) = Some a \<and> p \<in> set (apkg_pkgs empty_store a))}"
    using fetch_all_installed_exact [of empty_store "[7]"] by blast
  then show ?thesis by (auto simp: empty_store_def is_installed_def pkg_new_def)
qed

end
