(* ===== verification/Opkg_Unsatisfied.thy ===== *)
theory Opkg_Unsatisfied
  imports Opkg_Candidates
begin

text \<open>
  The collection of what a package still needs:
  \<open>pkg_hash_fetch_unsatisfied_dependencies\<close> of \<open>libopkg/pkg_depends.c\<close>. The function calls
  itself; the model is given fuel, and the property shows that one more than the number of
  abstract packages whose dependencies are not checked yet is enough.
\<close>

section \<open>The function\<close>

text \<open>
  One call: the package and the vector of what is known to be missing; the number it returns,
  the vector, the texts of what cannot be resolved, and the marks on the abstract packages.
\<close>

type_synonym unsat_call =
  "pkg_ref \<Rightarrow> pkg_ref list \<Rightarrow> store \<Rightarrow> (nat \<times> pkg_ref list \<times> string list option \<times> store) option"

text \<open>One package that could satisfy a greedy dependency.\<close>

definition greedy_scout :: "unsat_call \<Rightarrow> pkg_ref \<Rightarrow> pkg_ref list \<times> store \<Rightarrow> (pkg_ref list \<times> store) option" where
  "greedy_scout rec scout x =
     (case x of (unsatisfied, s) \<Rightarrow>
        if p_state_want (s_pkgs s scout) = SW_INSTALL then Some (unsatisfied, s)
        else case p_parent (s_pkgs s scout) of
          None \<Rightarrow> None
        | Some a \<Rightarrow>
            if ap_dependencies_checked (s_apkgs s a) \<noteq> 0 then Some (unsatisfied, s)
            else do { known \<leftarrow> is_pkg_in_pkg_vec unsatisfied (s_pkgs s scout) s;
                      if known then Some (unsatisfied, s)
                      else do { (rc, tmp_vec, newstuff, s') \<leftarrow> rec scout [] s;
                                if newstuff \<noteq> None then Some (unsatisfied, s')
                                else do { bad \<leftarrow> any_n rc (\<lambda>p. Some (p_state_want (s_pkgs s' p) \<noteq> SW_INSTALL)) tmp_vec;
                                          Some (if bad then unsatisfied else pkg_vec_insert unsatisfied scout, s') } } })"

definition greedy_depend ::
  "unsat_call \<Rightarrow> compound_depend \<Rightarrow> pkg_ref list \<times> store \<Rightarrow> (pkg_ref list \<times> store) option" where
  "greedy_depend rec cd x =
     foldM (\<lambda>d x. foldM (\<lambda>l x. foldM (greedy_scout rec) (apkg_pkgs (snd x) l) x)
                    (ap_provided_by (s_apkgs (snd x) (d_pkg d))) x)
       (cd_possibilities cd) x"

text \<open>
  The first alternative whose best candidate satisfies it, unless it is to be ignored.
\<close>

fun first_satisfier ::
  "(pkg \<Rightarrow> depend \<Rightarrow> bool) \<Rightarrow> (pkg \<Rightarrow> bool) \<Rightarrow> depend list \<Rightarrow> store \<Rightarrow> pkg_ref option option" where
  "first_satisfier satisfied ignored [] s = Some None"
| "first_satisfier satisfied ignored (d # ds) s =
     do { best \<leftarrow> pkg_hash_fetch_best_installation_candidate (d_pkg d) (\<lambda>p. Some (satisfied p d)) True s;
          case best of
            None \<Rightarrow> first_satisfier satisfied ignored ds s
          | Some q \<Rightarrow>
              if satisfied (s_pkgs s q) d \<and> \<not> ignored (s_pkgs s q) then Some (Some q)
              else first_satisfier satisfied ignored ds s }"

definition optional_type :: "depend_type \<Rightarrow> bool" where
  "optional_type t \<longleftrightarrow> t = RECOMMEND \<or> t = SUGGEST"

definition plain_depend ::
  "unsat_call \<Rightarrow> pkg_ref \<Rightarrow> nat \<Rightarrow> compound_depend \<Rightarrow> string list option \<times> pkg_ref list \<times> store \<Rightarrow>
   (string list option \<times> pkg_ref list \<times> store) option" where
  "plain_depend rec r i cd x =
     (case x of (the_lost, unsatisfied, s) \<Rightarrow>
        do { found \<leftarrow> first_satisfier pkg_installed_and_constraint_satisfied (\<lambda>p. False) (cd_possibilities cd) s;
             if found \<noteq> None then Some x
             else do { entry \<leftarrow> first_satisfier pkg_constraint_satisfied
                         (\<lambda>p. optional_type (cd_type cd) \<and> (p_state_want p = SW_DEINSTALL \<or> p_state_want p = SW_PURGE))
                         (cd_possibilities cd) s;
                       case entry of
                         None \<Rightarrow>
                           Some (if optional_type (cd_type cd) then the_lost
                                 else add_unresolved_dep (s_pkgs s r) the_lost i s, unsatisfied, s)
                       | Some q \<Rightarrow>
                           if cd_type cd = SUGGEST \<or> q = r then Some x
                           else do { known \<leftarrow> is_pkg_in_pkg_vec unsatisfied (s_pkgs s q) s;
                                     if known then Some x
                                     else do { (rc, unsatisfied', newstuff, s') \<leftarrow>
                                                 rec q (pkg_vec_insert unsatisfied q) s;
                                               Some (merge_unresolved the_lost newstuff, unsatisfied', s') } } } })"

definition one_depend ::
  "unsat_call \<Rightarrow> pkg_ref \<Rightarrow> nat \<times> compound_depend \<Rightarrow> string list option \<times> pkg_ref list \<times> store \<Rightarrow>
   (string list option \<times> pkg_ref list \<times> store) option" where
  "one_depend rec r icd x =
     (if cd_type (snd icd) = GREEDY_DEPEND
      then map_option (Pair (fst x)) (greedy_depend rec (snd icd) (snd x))
      else plain_depend rec r (fst icd) (snd icd) x)"

definition mark_checked :: "apkg_ref \<Rightarrow> store \<Rightarrow> store" where
  "mark_checked a s = upd_apkg a (\<lambda>x. x\<lparr>ap_dependencies_checked := 1\<rparr>) s"

definition unsat_body :: "unsat_call \<Rightarrow> unsat_call" where
  "unsat_body rec r unsatisfied s =
     (case p_parent (s_pkgs s r) of
        None \<Rightarrow> Some (0, unsatisfied, None, s)
      | Some ab_pkg \<Rightarrow>
          if ap_dependencies_checked (s_apkgs s ab_pkg) \<noteq> 0 then Some (0, unsatisfied, None, s)
          else let s1 = mark_checked ab_pkg s; n = all_depends_count (s_pkgs s r) in
               if n = 0 then Some (0, unsatisfied, None, s1)
               else do { ds \<leftarrow> first_n n (p_depends (s_pkgs s r));
                         (the_lost, unsatisfied', s') \<leftarrow>
                           foldM (one_depend rec r) (List.enumerate 0 ds) (None, unsatisfied, s1);
                         Some (length unsatisfied', unsatisfied', the_lost, s') })"

primrec pkg_hash_fetch_unsatisfied_dependencies :: "nat \<Rightarrow> unsat_call" where
  "pkg_hash_fetch_unsatisfied_dependencies 0 = (\<lambda>r unsatisfied s. None)"
| "pkg_hash_fetch_unsatisfied_dependencies (Suc fuel) =
     unsat_body (pkg_hash_fetch_unsatisfied_dependencies fuel)"

section \<open>The marks only grow\<close>

definition checked_more :: "store \<Rightarrow> store \<Rightarrow> bool" where
  "checked_more s s' \<longleftrightarrow> s_pkgs s' = s_pkgs s \<and> s_hash s' = s_hash s \<and> s_apkg_next s' = s_apkg_next s \<and>
     (\<forall>a. s_apkgs s' a = s_apkgs s a \<or>
          s_apkgs s' a = (s_apkgs s a)\<lparr>ap_dependencies_checked := 1\<rparr>)"

lemma checked_more_refl [simp]: "checked_more s s"
  by (simp add: checked_more_def)

lemma checked_more_trans: "checked_more s t \<Longrightarrow> checked_more t u \<Longrightarrow> checked_more s u"
proof -
  assume 1: "checked_more s t" and 2: "checked_more t u"
  have "s_apkgs u a = s_apkgs s a \<or> s_apkgs u a = (s_apkgs s a)\<lparr>ap_dependencies_checked := 1\<rparr>" for a
  proof -
    have "s_apkgs t a = s_apkgs s a \<or> s_apkgs t a = (s_apkgs s a)\<lparr>ap_dependencies_checked := 1\<rparr>"
      "s_apkgs u a = s_apkgs t a \<or> s_apkgs u a = (s_apkgs t a)\<lparr>ap_dependencies_checked := 1\<rparr>"
      using 1 2 by (simp_all add: checked_more_def)
    then show ?thesis by (elim disjE) simp_all
  qed
  then show ?thesis using 1 2 by (simp add: checked_more_def)
qed

lemma mark_checked_more: "checked_more s (mark_checked a s)"
  by (simp add: checked_more_def mark_checked_def)

lemma checked_more_fields:
  assumes "checked_more s s'"
  shows "s_pkgs s' = s_pkgs s" "s_apkg_next s' = s_apkg_next s" "apkg_pkgs s' = apkg_pkgs s"
    "ap_provided_by (s_apkgs s' a) = ap_provided_by (s_apkgs s a)"
    "ap_replaced_by (s_apkgs s' a) = ap_replaced_by (s_apkgs s a)"
    "candidates b s' = candidates b s"
    "ap_dependencies_checked (s_apkgs s' a) = 0 \<Longrightarrow> ap_dependencies_checked (s_apkgs s a) = 0"
proof -
  have a: "s_apkgs s' a = s_apkgs s a \<or> s_apkgs s' a = (s_apkgs s a)\<lparr>ap_dependencies_checked := 1\<rparr>" for a
    using assms by (simp add: checked_more_def)
  show p: "s_pkgs s' = s_pkgs s" "s_apkg_next s' = s_apkg_next s" using assms by (simp_all add: checked_more_def)
  show k: "apkg_pkgs s' = apkg_pkgs s"
  proof
    show "apkg_pkgs s' b = apkg_pkgs s b" for b using a [of b] by (auto simp: apkg_pkgs_def)
  qed
  have f: "ap_provided_by (s_apkgs s' b) = ap_provided_by (s_apkgs s b)"
    "ap_replaced_by (s_apkgs s' b) = ap_replaced_by (s_apkgs s b)" for b
    using a [of b] by auto
  show "ap_provided_by (s_apkgs s' a) = ap_provided_by (s_apkgs s a)"
    "ap_replaced_by (s_apkgs s' a) = ap_replaced_by (s_apkgs s a)" by (rule f)+
  show "candidates b s' = candidates b s"
    by (simp add: candidates_def effective_provider_def f k p)
  show "ap_dependencies_checked (s_apkgs s' a) = 0 \<Longrightarrow> ap_dependencies_checked (s_apkgs s a) = 0"
    using a [of a] by auto
qed

definition pending :: "store \<Rightarrow> apkg_ref set" where
  "pending s = {a. a < s_apkg_next s \<and> ap_dependencies_checked (s_apkgs s a) = 0}"

lemma finite_pending [simp]: "finite (pending s)"
  by (simp add: pending_def)

lemma pending_antimono: "checked_more s s' \<Longrightarrow> card (pending s') \<le> card (pending s)"
  using checked_more_fields(2,7) [of s s'] by (intro card_mono) (auto simp: pending_def)

lemma pending_mark:
  assumes "a < s_apkg_next s" "ap_dependencies_checked (s_apkgs s a) = 0"
  shows "card (pending (mark_checked a s)) < card (pending s)"
  using assms by (intro psubset_card_mono) (auto simp: pending_def mark_checked_def)

section \<open>Well-formed graphs\<close>

definition pkg_ok :: "store \<Rightarrow> pkg_ref \<Rightarrow> bool" where
  "pkg_ok s p \<longleftrightarrow> version_ok (s_pkgs s p) \<and> comparable (s_pkgs s p) \<and>
     (\<exists>b < s_apkg_next s. p_parent (s_pkgs s p) = Some b) \<and>
     all_depends_count (s_pkgs s p) \<le> length (p_depends (s_pkgs s p))"

definition graph_ok :: "store \<Rightarrow> bool" where
  "graph_ok s \<longleftrightarrow> (\<forall>a. \<forall>p \<in> set (apkg_pkgs s a). pkg_ok s p)"

lemma checked_more_ok:
  assumes "checked_more s s'"
  shows "pkg_ok s' p = pkg_ok s p" "graph_ok s' = graph_ok s"
  using checked_more_fields [OF assms] by (simp_all add: pkg_ok_def graph_ok_def)

lemma graph_candidates_ok: "graph_ok s \<Longrightarrow> candidates_ok a s"
  by (fastforce simp: graph_ok_def candidates_ok_def candidates_def pkg_ok_def comparable_def)

lemma graph_candidate: "graph_ok s \<Longrightarrow> p \<in> candidates a s \<Longrightarrow> pkg_ok s p"
  by (auto simp: graph_ok_def candidates_def)

definition same_package :: "pkg \<Rightarrow> pkg \<Rightarrow> bool" where
  "same_package p q \<longleftrightarrow> p_name p = p_name q \<and> pkg_compare_versions p q = 0 \<and> p_architecture p = p_architecture q"

lemma comparable_Some: "comparable p \<longleftrightarrow> (\<exists>n a. p_name p = Some n \<and> p_architecture p = Some a)"
  by (auto simp: comparable_def)

lemma in_pkg_vec_returns:
  assumes "comparable p" "\<forall>q \<in> set vec. comparable (s_pkgs s q)"
  shows "is_pkg_in_pkg_vec vec p s = Some (\<exists>q \<in> set vec. same_package p (s_pkgs s q))"
proof -
  have "(do { n \<leftarrow> same_text (p_name p) (p_name (s_pkgs s q));
             if \<not> n then Some False else same_version_arch p (s_pkgs s q) }) =
      Some (same_package p (s_pkgs s q))" if "q \<in> set vec" for q
  proof -
    have "comparable (s_pkgs s q)" using assms(2) that by blast
    then obtain n1 n2 a1 a2 where "p_name p = Some n1" "p_architecture p = Some a1"
      "p_name (s_pkgs s q) = Some n2" "p_architecture (s_pkgs s q) = Some a2"
      using assms(1) unfolding comparable_Some by blast
    then show ?thesis by (simp add: same_version_arch_def same_package_def)
  qed
  then show ?thesis unfolding is_pkg_in_pkg_vec_def by (subst any_n_total) auto
qed

lemma foldM_progress:
  assumes "\<And>x y. x \<in> set xs \<Longrightarrow> I y \<Longrightarrow> \<exists>y'. f x y = Some y' \<and> I y' \<and> le y y' \<and> Q x y'"
    and "\<And>y. le y y" and "\<And>a b c. le a b \<Longrightarrow> le b c \<Longrightarrow> le a c"
    and "\<And>x y y'. Q x y \<Longrightarrow> le y y' \<Longrightarrow> Q x y'" and "I y"
  shows "\<exists>y'. foldM f xs y = Some y' \<and> I y' \<and> le y y' \<and> (\<forall>x \<in> set xs. Q x y')"
  using assms(1,5)
proof (induction xs arbitrary: y)
  case Nil
  then show ?case using assms(2) by simp
next
  case (Cons x xs)
  obtain y1 where 1: "f x y = Some y1" "I y1" "le y y1" "Q x y1" using Cons.prems(1) [of x y] Cons.prems(2) by auto
  obtain y' where "foldM f xs y1 = Some y'" "I y'" "le y1 y'" "\<forall>x \<in> set xs. Q x y'"
    using Cons.IH [of y1] Cons.prems(1) 1(2) by auto
  then show ?case using 1 assms(3) [of y y1 y'] assms(4) [of x y1 y'] by auto
qed

section \<open>One level of the recursion\<close>

text \<open>The contract of a call, for graphs with fewer unchecked abstract packages than the bound.\<close>

definition call_ok :: "nat \<Rightarrow> unsat_call \<Rightarrow> bool" where
  "call_ok n rec \<longleftrightarrow>
     (\<forall>r uns s. graph_ok s \<longrightarrow> pkg_ok s r \<longrightarrow> (\<forall>p \<in> set uns. pkg_ok s p) \<longrightarrow> card (pending s) < n \<longrightarrow>
        (\<exists>rc uns' lost s'. rec r uns s = Some (rc, uns', lost, s') \<and> rc \<le> length uns' \<and>
           checked_more s s' \<and> set uns \<subseteq> set uns' \<and> (\<forall>p \<in> set uns'. pkg_ok s p)))"

definition work_ok :: "store \<Rightarrow> pkg_ref list \<times> store \<Rightarrow> bool" where
  "work_ok s x \<longleftrightarrow> checked_more s (snd x) \<and> (\<forall>p \<in> set (fst x). pkg_ok s p)"

definition grows :: "pkg_ref list \<times> store \<Rightarrow> pkg_ref list \<times> store \<Rightarrow> bool" where
  "grows x y \<longleftrightarrow> set (fst x) \<subseteq> set (fst y) \<and> checked_more (snd x) (snd y)"

lemma grows_order: "grows x x" "grows x y \<Longrightarrow> grows y z \<Longrightarrow> grows x z"
  by (auto simp: grows_def intro: checked_more_trans)

lemma call_step:
  assumes "call_ok n rec" "graph_ok s" "card (pending s) < n" "work_ok s (uns, t)" "pkg_ok s r"
    "\<forall>p \<in> set vec. pkg_ok s p"
  obtains rc vec' lost t' where "rec r vec t = Some (rc, vec', lost, t')" "rc \<le> length vec'"
    "checked_more t t'" "checked_more s t'" "set vec \<subseteq> set vec'" "\<forall>p \<in> set vec'. pkg_ok s p"
proof -
  have c: "checked_more s t" using assms(4) by (simp add: work_ok_def)
  note o = checked_more_ok [OF c]
  have "card (pending t) < n" using pending_antimono [OF c] assms(3) by simp
  then have "\<exists>rc vec' lost t'. rec r vec t = Some (rc, vec', lost, t') \<and> rc \<le> length vec' \<and>
      checked_more t t' \<and> set vec \<subseteq> set vec' \<and> (\<forall>p \<in> set vec'. pkg_ok t p)"
    using assms(1) [unfolded call_ok_def, rule_format, of t r vec] assms(2,5,6) by (simp add: o)
  then show ?thesis using that checked_more_trans [OF c] by (auto simp: o)
qed

lemma known_returns:
  assumes "work_ok s (uns, t)" "pkg_ok s q"
  shows "is_pkg_in_pkg_vec uns (s_pkgs t q) t = Some (\<exists>p \<in> set uns. same_package (s_pkgs s q) (s_pkgs s p))"
proof -
  have "s_pkgs t = s_pkgs s" using assms(1) by (simp add: work_ok_def checked_more_def)
  then show ?thesis using assms in_pkg_vec_returns [of "s_pkgs t q" uns t] by (simp add: work_ok_def pkg_ok_def)
qed

lemma greedy_scout_step:
  assumes "call_ok n rec" "graph_ok s" "card (pending s) < n" "work_ok s x" "pkg_ok s scout"
  shows "\<exists>y. greedy_scout rec scout x = Some y \<and> work_ok s y \<and> grows x y"
proof -
  obtain uns t where x: "x = (uns, t)" by (cases x)
  note w = assms(4) [unfolded x]
  have p: "s_pkgs t = s_pkgs s" using w by (simp add: work_ok_def checked_more_def)
  obtain a where a: "p_parent (s_pkgs t scout) = Some a" using assms(5) by (auto simp: pkg_ok_def p)
  obtain rc vec lost t' where c: "rec scout [] t = Some (rc, vec, lost, t')" "rc \<le> length vec"
    "checked_more t t'" "checked_more s t'"
    by (rule call_step [OF assms(1-3) w assms(5), of "[]"]) auto
  have b: "any_n rc (\<lambda>p. Some (p_state_want (s_pkgs t' p) \<noteq> SW_INSTALL)) vec =
      Some (\<exists>p \<in> set (take rc vec). p_state_want (s_pkgs t' p) \<noteq> SW_INSTALL)"
    by (rule any_n_total [OF c(2)]) simp
  have t: "grows (uns, t) (uns, t')" "grows (uns, t) (pkg_vec_insert uns scout, t')"
    "work_ok s (uns, t')" "work_ok s (pkg_vec_insert uns scout, t')"
    using c(3,4) w assms(5) by (auto simp: grows_def work_ok_def pkg_vec_insert_def)
  show ?thesis using w t grows_order(1) [of "(uns, t)"]
    by (simp add: x greedy_scout_def a known_returns [OF w assms(5)] c(1) b)
qed

lemma greedy_depend_step:
  assumes "call_ok n rec" "graph_ok s" "card (pending s) < n" "work_ok s x"
  shows "\<exists>y. greedy_depend rec cd x = Some y \<and> work_ok s y \<and> grows x y"
proof -
  have 1: "\<exists>y. foldM (greedy_scout rec) (apkg_pkgs (snd x) l) x = Some y \<and> work_ok s y \<and> grows x y"
    if "work_ok s x" for x l
  proof -
    have "apkg_pkgs (snd x) l = apkg_pkgs s l" using that checked_more_fields(3) [of s "snd x"] by (simp add: work_ok_def)
    then have "pkg_ok s p" if "p \<in> set (apkg_pkgs (snd x) l)" for p
      using assms(2) that by (simp add: graph_ok_def)
    then show ?thesis
      using foldM_progress [of "apkg_pkgs (snd x) l" "work_ok s" "greedy_scout rec" grows "\<lambda>_ _. True" x]
        greedy_scout_step [OF assms(1-3)] grows_order that by blast
  qed
  have 2: "\<exists>y. foldM (\<lambda>l x. foldM (greedy_scout rec) (apkg_pkgs (snd x) l) x) ls x = Some y \<and> work_ok s y \<and> grows x y"
    if "work_ok s x" for x ls
    using foldM_progress [of ls "work_ok s" "\<lambda>l x. foldM (greedy_scout rec) (apkg_pkgs (snd x) l) x" grows "\<lambda>_ _. True" x]
      1 grows_order that by blast
  show ?thesis unfolding greedy_depend_def
    using foldM_progress [of "cd_possibilities cd" "work_ok s"
        "\<lambda>d x. foldM (\<lambda>l x. foldM (greedy_scout rec) (apkg_pkgs (snd x) l) x) (ap_provided_by (s_apkgs (snd x) (d_pkg d))) x"
        grows "\<lambda>_ _. True" x] 2 grows_order assms(4) by blast
qed

lemma choice_member: "choice_spec s M c quiet (Some q) \<Longrightarrow> q \<in> M"
  by (auto simp: choice_spec_def greatest_of_def split: if_splits)

lemma first_satisfier_returns:
  assumes "graph_ok s"
  shows "\<exists>f. first_satisfier satisfied ignored ds s = Some f \<and>
    (\<forall>q. f = Some q \<longrightarrow> (\<exists>d \<in> set ds. q \<in> candidates (d_pkg d) s \<and> satisfied (s_pkgs s q) d))"
proof (induction ds)
  case (Cons d ds)
  obtain best where b: "pkg_hash_fetch_best_installation_candidate (d_pkg d) (\<lambda>p. Some (satisfied p d)) True s = Some best"
    "choice_spec s (candidates (d_pkg d) s) (\<lambda>p. satisfied (s_pkgs s p) d) True best"
    using best_candidate_correct [OF graph_candidates_ok [OF assms], of "d_pkg d" "\<lambda>p. Some (satisfied p d)"
        "\<lambda>p. satisfied (s_pkgs s p) d" True] by auto
  then show ?case using Cons.IH choice_member [of s "candidates (d_pkg d) s" _ True]
    by (cases best) auto
qed simp

section \<open>What a plain dependency leaves behind\<close>

definition resolved :: "store \<Rightarrow> pkg_ref \<Rightarrow> pkg_ref list \<Rightarrow> compound_depend \<Rightarrow> bool" where
  "resolved s r uns cd \<longleftrightarrow>
     (\<exists>d \<in> set (cd_possibilities cd). \<exists>q \<in> candidates (d_pkg d) s.
        version_constraints_satisfied d (s_pkgs s q) \<and>
        (is_installed (s_pkgs s q) \<or> q = r \<or> (\<exists>p \<in> set uns. same_package (s_pkgs s q) (s_pkgs s p))))"

lemma resolved_mono: "resolved s r uns cd \<Longrightarrow> set uns \<subseteq> set uns' \<Longrightarrow> resolved s r uns' cd"
  unfolding resolved_def by blast

definition hard_type :: "depend_type \<Rightarrow> bool" where
  "hard_type t \<longleftrightarrow> t = PREDEPEND \<or> t = DEPEND"

definition settled :: "store \<Rightarrow> pkg_ref \<Rightarrow> nat \<times> compound_depend \<Rightarrow> string list option \<times> pkg_ref list \<times> store \<Rightarrow> bool" where
  "settled s r icd y \<longleftrightarrow> (fst y = None \<longrightarrow> hard_type (cd_type (snd icd)) \<longrightarrow> resolved s r (fst (snd y)) (snd icd))"

definition advances :: "string list option \<times> pkg_ref list \<times> store \<Rightarrow> string list option \<times> pkg_ref list \<times> store \<Rightarrow> bool" where
  "advances x y \<longleftrightarrow> (fst y = None \<longrightarrow> fst x = None) \<and> grows (snd x) (snd y)"

lemma advances_order: "advances x x" "advances x y \<Longrightarrow> advances y z \<Longrightarrow> advances x z"
  using grows_order(1) [of "snd x"] grows_order(2) [of "snd x" "snd y" "snd z"] by (simp_all add: advances_def)

lemma settled_stable: "settled s r icd x \<Longrightarrow> advances x y \<Longrightarrow> settled s r icd y"
  using resolved_mono by (auto simp: settled_def advances_def grows_def)

lemma same_package_refl: "pkg_ok s p \<Longrightarrow> same_package (s_pkgs s p) (s_pkgs s p)"
  using vercmp.cmp_refl by (simp add: same_package_def pkg_ok_def)

lemma merge_unresolved_None: "merge_unresolved a b = None \<longleftrightarrow> a = None \<and> b = None"
  by (auto simp: merge_unresolved_def split: option.splits)

text \<open>The satisfiers are the same whatever is marked as checked.\<close>

lemma satisfier_at:
  assumes "graph_ok s" "work_ok s (uns, t)"
  shows "\<exists>f. first_satisfier satisfied ignored ds t = Some f \<and>
    (\<forall>q. f = Some q \<longrightarrow> pkg_ok s q \<and> (\<exists>d \<in> set ds. q \<in> candidates (d_pkg d) s \<and> satisfied (s_pkgs s q) d))"
proof -
  have c: "checked_more s t" using assms(2) by (simp add: work_ok_def)
  have "graph_ok t" using assms(1) checked_more_ok(2) [OF c] by simp
  from first_satisfier_returns [OF this, of satisfied ignored ds] show ?thesis
    using checked_more_fields(1,6) [OF c] graph_candidate [OF assms(1)] by auto
qed

text \<open>The branch in which the best uninstalled candidate \<open>q\<close> is added, unless it is known.\<close>

lemma plain_candidate_step:
  assumes "call_ok n rec" "graph_ok s" "card (pending s) < n" "work_ok s (uns, t)" "pkg_ok s q"
    and q: "d \<in> set (cd_possibilities cd)" "q \<in> candidates (d_pkg d) s" "version_constraints_satisfied d (s_pkgs s q)"
  shows "\<exists>y. (if cd_type cd = SUGGEST \<or> q = r then Some (lost, uns, t)
       else do { known \<leftarrow> is_pkg_in_pkg_vec uns (s_pkgs t q) t;
                 if known then Some (lost, uns, t)
                 else do { (rc, unsatisfied', newstuff, s') \<leftarrow> rec q (pkg_vec_insert uns q) t;
                           Some (merge_unresolved lost newstuff, unsatisfied', s') } }) = Some y \<and>
     work_ok s (snd y) \<and> advances (lost, uns, t) y \<and> settled s r (i, cd) y"
proof (cases "cd_type cd = SUGGEST \<or> q = r \<or> (\<exists>p \<in> set uns. same_package (s_pkgs s q) (s_pkgs s p))")
  case True
  then have "settled s r (i, cd) (lost, uns, t)"
    using q by (auto simp: settled_def hard_type_def resolved_def)
  then show ?thesis using True assms(4) known_returns [OF assms(4,5)] advances_order(1) by auto
next
  case False
  obtain rc vec newstuff t' where c: "rec q (pkg_vec_insert uns q) t = Some (rc, vec, newstuff, t')"
    "checked_more t t'" "checked_more s t'" "set (pkg_vec_insert uns q) \<subseteq> set vec" "\<forall>p \<in> set vec. pkg_ok s p"
    by (rule call_step [OF assms(1-4,5), of "pkg_vec_insert uns q"])
      (use assms(4,5) in \<open>auto simp: pkg_vec_insert_def work_ok_def\<close>)
  have "q \<in> set vec" "set uns \<subseteq> set vec" using c(4) by (auto simp: pkg_vec_insert_def)
  then have "resolved s r vec cd" using q same_package_refl [OF assms(5)] by (auto simp: resolved_def)
  then have "work_ok s (snd (merge_unresolved lost newstuff, vec, t'))"
    "advances (lost, uns, t) (merge_unresolved lost newstuff, vec, t')"
    "settled s r (i, cd) (merge_unresolved lost newstuff, vec, t')"
    using c \<open>set uns \<subseteq> set vec\<close>
    by (auto simp: work_ok_def advances_def grows_def settled_def merge_unresolved_None)
  then show ?thesis using False known_returns [OF assms(4,5)] c(1) by auto
qed

lemma plain_depend_step:
  assumes "call_ok n rec" "graph_ok s" "card (pending s) < n" "work_ok s (snd x)"
  shows "\<exists>y. plain_depend rec r i cd x = Some y \<and> work_ok s (snd y) \<and> advances x y \<and> settled s r (i, cd) y"
proof -
  obtain lost uns t where x: "x = (lost, uns, t)" by (cases x)
  have w: "work_ok s (uns, t)" using assms(4) by (simp add: x)
  let ?ign = "\<lambda>p. optional_type (cd_type cd) \<and> (p_state_want p = SW_DEINSTALL \<or> p_state_want p = SW_PURGE)"
  obtain f where f: "first_satisfier pkg_installed_and_constraint_satisfied (\<lambda>p. False) (cd_possibilities cd) t = Some f"
    "\<And>q. f = Some q \<Longrightarrow> \<exists>d \<in> set (cd_possibilities cd). q \<in> candidates (d_pkg d) s \<and>
       pkg_installed_and_constraint_satisfied (s_pkgs s q) d"
    using satisfier_at [OF assms(2) w, of pkg_installed_and_constraint_satisfied "\<lambda>p. False"] by blast
  obtain e where e: "first_satisfier pkg_constraint_satisfied ?ign (cd_possibilities cd) t = Some e"
    "\<And>q. e = Some q \<Longrightarrow> pkg_ok s q \<and> (\<exists>d \<in> set (cd_possibilities cd). q \<in> candidates (d_pkg d) s \<and>
       pkg_constraint_satisfied (s_pkgs s q) d)"
    using satisfier_at [OF assms(2) w, of pkg_constraint_satisfied ?ign] by blast
  show ?thesis
  proof (cases "f = None")
    case False
    then have "resolved s r uns cd"
      using f(2) unfolding resolved_def pkg_installed_and_constraint_satisfied_def by blast
    then show ?thesis using False f(1) w advances_order(1)
      by (auto simp: plain_depend_def x settled_def)
  next
    case fn: True
    show ?thesis
    proof (cases e)
      case None
      then show ?thesis using fn f(1) e(1) w
        by (auto simp: plain_depend_def x settled_def advances_def grows_def add_unresolved_dep_def
            optional_type_def hard_type_def)
    next
      case (Some q)
      then obtain d where d: "pkg_ok s q" "d \<in> set (cd_possibilities cd)" "q \<in> candidates (d_pkg d) s"
        "version_constraints_satisfied d (s_pkgs s q)"
        using e(2) by (auto simp: pkg_constraint_satisfied_def)
      show ?thesis
        using plain_candidate_step [OF assms(1-3) w d, of r lost i] fn f(1) e(1) Some
        by (simp add: plain_depend_def x)
    qed
  qed
qed

section \<open>The whole recursion\<close>

lemma one_depend_step:
  assumes "call_ok n rec" "graph_ok s" "card (pending s) < n" "work_ok s (snd x)"
  shows "\<exists>y. one_depend rec r icd x = Some y \<and> work_ok s (snd y) \<and> advances x y \<and> settled s r icd y"
proof (cases "cd_type (snd icd) = GREEDY_DEPEND")
  case True
  obtain y where y: "greedy_depend rec (snd icd) (snd x) = Some y" "work_ok s y" "grows (snd x) y"
    using greedy_depend_step [OF assms] by blast
  then show ?thesis using True
    by (auto simp: one_depend_def advances_def settled_def hard_type_def intro!: exI [of _ "(fst x, y)"])
next
  case False
  then show ?thesis using plain_depend_step [OF assms, of r "fst icd" "snd icd"] by (simp add: one_depend_def)
qed

text \<open>The result of a call that does the work: everything hard is resolved unless a text says otherwise.\<close>

definition unsat_post ::
  "store \<Rightarrow> pkg_ref \<Rightarrow> pkg_ref list \<Rightarrow> nat \<times> pkg_ref list \<times> string list option \<times> store \<Rightarrow> bool" where
  "unsat_post s r uns y \<longleftrightarrow>
     (case y of (rc, uns', lost, s') \<Rightarrow>
        rc \<le> length uns' \<and> checked_more s s' \<and> set uns \<subseteq> set uns' \<and> (\<forall>p \<in> set uns'. pkg_ok s p) \<and>
        (ap_dependencies_checked (s_apkgs s (the (p_parent (s_pkgs s r)))) = 0 \<and> lost = None \<longrightarrow>
           (\<forall>cd \<in> set (take (all_depends_count (s_pkgs s r)) (p_depends (s_pkgs s r))).
              hard_type (cd_type cd) \<longrightarrow> resolved s r uns' cd)))"

lemma settled_all:
  assumes "\<forall>icd \<in> set (List.enumerate 0 ds). settled s r icd (None, uns, t)"
  shows "\<forall>cd \<in> set ds. hard_type (cd_type cd) \<longrightarrow> resolved s r uns cd"
proof
  fix cd assume "cd \<in> set ds"
  then obtain i where "i < length ds" "ds ! i = cd" by (auto simp: in_set_conv_nth)
  then have "(i, cd) \<in> set (List.enumerate 0 ds)" by (auto simp: in_set_enumerate_eq)
  then show "hard_type (cd_type cd) \<longrightarrow> resolved s r uns cd" using assms by (auto simp: settled_def)
qed

lemma unsat_body_step:
  assumes "call_ok n rec" "graph_ok s" "card (pending s) < Suc n" "pkg_ok s r" "\<forall>p \<in> set uns. pkg_ok s p"
  shows "\<exists>y. unsat_body rec r uns s = Some y \<and> unsat_post s r uns y"
proof -
  obtain a where a: "p_parent (s_pkgs s r) = Some a" "a < s_apkg_next s" using assms(4) by (auto simp: pkg_ok_def)
  define s1 where "s1 = mark_checked a s"
  define ds where "ds = take (all_depends_count (s_pkgs s r)) (p_depends (s_pkgs s r))"
  have fn: "first_n (all_depends_count (s_pkgs s r)) (p_depends (s_pkgs s r)) = Some ds"
    using assms(4) by (simp add: pkg_ok_def first_n_def ds_def)
  have c1: "checked_more s s1" by (simp add: s1_def mark_checked_more)
  have same: "resolved s1 r u cd = resolved s r u cd" for u cd
    using checked_more_fields(1,6) [OF c1] by (simp add: resolved_def)
  show ?thesis
  proof (cases "ap_dependencies_checked (s_apkgs s a) = 0 \<and> all_depends_count (s_pkgs s r) \<noteq> 0")
    case False
    then show ?thesis using a(1) assms(5) c1
      by (auto simp: unsat_body_def unsat_post_def Let_def simp flip: s1_def)
  next
    case True
    have lt: "card (pending s1) < n" using pending_mark [OF a(2)] True assms(3) by (simp add: s1_def)
    have g1: "graph_ok s1" "work_ok s1 (snd (None :: string list option, uns, s1))"
      using assms(2,5) checked_more_ok [OF c1] by (simp_all add: work_ok_def)
    have "\<exists>y. foldM (one_depend rec r) (List.enumerate 0 ds) (None, uns, s1) = Some y \<and> work_ok s1 (snd y) \<and>
        advances (None, uns, s1) y \<and> (\<forall>icd \<in> set (List.enumerate 0 ds). settled s1 r icd y)"
      by (rule foldM_progress [where I = "\<lambda>x. work_ok s1 (snd x)", OF one_depend_step [OF assms(1) g1(1) lt]])
        (use advances_order settled_stable g1(2) in blast)+
    then obtain lost uns' s' where y: "foldM (one_depend rec r) (List.enumerate 0 ds) (None, uns, s1) = Some (lost, uns', s')"
      "work_ok s1 (uns', s')" "advances (None, uns, s1) (lost, uns', s')"
      "\<forall>icd \<in> set (List.enumerate 0 ds). settled s1 r icd (lost, uns', s')"
      by auto
    have "unsat_post s r uns (length uns', uns', lost, s')"
      using y(2,3) settled_all [of ds s1 r uns' s'] y(4) checked_more_trans [OF c1] checked_more_ok(1) [OF c1]
      by (auto simp: unsat_post_def work_ok_def advances_def grows_def same simp flip: ds_def)
    then show ?thesis using True a(1) fn y(1) by (auto simp: unsat_body_def Let_def simp flip: s1_def)
  qed
qed

lemma unsat_call_ok: "call_ok n (pkg_hash_fetch_unsatisfied_dependencies n)"
proof (induction n)
  case 0
  then show ?case by (simp add: call_ok_def)
next
  case (Suc n)
  show ?case
    unfolding call_ok_def pkg_hash_fetch_unsatisfied_dependencies.simps
    using unsat_body_step [OF Suc] by (fastforce simp: unsat_post_def)
qed

text \<open>(C14) \<open>pkg_hash_fetch_unsatisfied_dependencies\<close> always returns, however the dependencies cycle: fuel
  for one more call than there are unchecked abstract packages is enough. When it reports nothing
  as unresolved, every hard dependency of the package has an alternative whose constraint is
  satisfied by a candidate that is installed, or is in the vector of packages to install, or is
  the package itself. The vector only grows.\<close>

theorem unsatisfied_dependencies_complete:
  assumes "graph_ok s" "pkg_ok s r" "\<forall>p \<in> set uns. pkg_ok s p" "card (pending s) < fuel"
  shows "\<exists>rc uns' lost s'. pkg_hash_fetch_unsatisfied_dependencies fuel r uns s = Some (rc, uns', lost, s') \<and>
    set uns \<subseteq> set uns' \<and>
    (ap_dependencies_checked (s_apkgs s (the (p_parent (s_pkgs s r)))) = 0 \<and> lost = None \<longrightarrow>
       (\<forall>cd \<in> set (take (all_depends_count (s_pkgs s r)) (p_depends (s_pkgs s r))).
          hard_type (cd_type cd) \<longrightarrow> resolved s r uns' cd))"
proof -
  obtain n where n: "fuel = Suc n" using assms(4) by (cases fuel) auto
  show ?thesis
    using unsat_body_step [OF unsat_call_ok [of n] assms(1) assms(4) [unfolded n] assms(2,3)]
    unfolding n pkg_hash_fetch_unsatisfied_dependencies.simps by (fastforce simp: unsat_post_def)
qed

text \<open>Two packages that depend on each other, neither of them installed.\<close>

definition cycle_pkg :: "nat \<Rightarrow> pkg" where
  "cycle_pkg i = pkg_new\<lparr>p_name := Some (if i = 0 then ''a'' else ''b''), p_version := Some ''1'',
     p_architecture := Some ''all'', p_arch_priority := 1, p_parent := Some (if i = 0 then 0 else 1),
     p_depends_count := 1,
     p_depends := [\<lparr>cd_type = DEPEND,
       cd_possibilities = [\<lparr>d_constraint = NONE, d_version = None, d_pkg = (if i = 0 then 1 else 0)\<rparr>]\<rparr>]\<rparr>"

definition cycle_store :: store where
  "cycle_store = empty_store\<lparr>s_pkgs := cycle_pkg, s_apkg_next := 2,
     s_apkgs := (\<lambda>a. abstract_pkg_new\<lparr>ap_name := Some (if a = 0 then ''a'' else ''b''),
                      ap_pkgs := Some [if a = 0 then 0 else 1], ap_provided_by := [a]\<rparr>)\<rparr>"

lemma cycle_ok: "graph_ok cycle_store" "pkg_ok cycle_store 0" "card (pending cycle_store) < 3"
proof -
  have p: "pkg_ok cycle_store i" for i
    by (simp add: pkg_ok_def cycle_store_def cycle_pkg_def version_ok_def opt_cstring_def comparable_def
        all_depends_count_def pkg_new_def)
  then show "graph_ok cycle_store" "pkg_ok cycle_store 0" by (simp_all add: graph_ok_def)
  have "pending cycle_store \<subseteq> {0, 1}" by (auto simp: pending_def cycle_store_def)
  then have "card (pending cycle_store) \<le> card {0, 1 :: nat}" by (intro card_mono) simp_all
  then show "card (pending cycle_store) < 3" by simp
qed

theorem unsatisfied_dependencies_complete_witness:
  "\<exists>rc uns lost s'. pkg_hash_fetch_unsatisfied_dependencies 3 0 [] cycle_store = Some (rc, uns, lost, s')"
  using unsatisfied_dependencies_complete [OF cycle_ok(1,2) _ cycle_ok(3), of "[]"] by auto

end
