(* ===== verification/Opkg_Digest.thy ===== *)
theory Opkg_Digest
  imports Opkg_Base "HOL-Library.Word"
begin

text \<open>
  The buffering that \<open>libopkg/md5.c\<close> and \<open>libopkg/sha256.c\<close> share word for word: the context with
  its 128-byte buffer and its 64-bit byte count in two words, \<open>process_bytes\<close>, the padding of the
  last block, and the loop over a stream. The compression of one 64-byte block is a parameter
  here; the two theories on top of this one supply it.
\<close>

unbundle bit_operations_syntax

type_synonym word32 = "32 word"

section \<open>Words and bytes\<close>

text \<open>A 32-bit word in memory, on a little-endian and on a big-endian host.\<close>

definition le_bytes :: "word32 \<Rightarrow> byte list" where
  "le_bytes w = map (\<lambda>i. ucast (drop_bit (8 * i) w)) [0, 1, 2, 3]"

definition le_word :: "byte list \<Rightarrow> word32" where
  "le_word bs = ucast (bs ! 0) OR push_bit 8 (ucast (bs ! 1)) OR push_bit 16 (ucast (bs ! 2)) OR push_bit 24 (ucast (bs ! 3))"

definition store_word :: "bool \<Rightarrow> word32 \<Rightarrow> byte list" where
  "store_word big w = (if big then rev (le_bytes w) else le_bytes w)"

definition load_word :: "bool \<Rightarrow> byte list \<Rightarrow> word32" where
  "load_word big bs = le_word (if big then rev bs else bs)"

definition swap_bytes :: "word32 \<Rightarrow> word32" where
  "swap_bytes n =
     push_bit 24 n OR push_bit 8 (n AND 0xff00) OR (drop_bit 8 n AND 0xff00) OR drop_bit 24 n"

definition block_words :: "(byte list \<Rightarrow> word32) \<Rightarrow> byte list \<Rightarrow> word32 list" where
  "block_words get bs = map (\<lambda>i. get (take 4 (drop (4 * i) bs))) [0..<16]"

lemma byte1_mask: "(0xff00 :: word32) = push_bit 8 (mask 8)"
  by (simp add: mask_eq_decr_exp)

lemma bit_swap_bytes: "bit (swap_bytes w) n \<longleftrightarrow> n < 32 \<and> bit w (8 * (3 - n div 8) + n mod 8)"
proof -
  have d: "n < 32 \<Longrightarrow> n div 8 = j \<Longrightarrow> n mod 8 = n - 8 * j" for j by (simp add: minus_mult_div_eq_mod [symmetric])
  have b: "bit (swap_bytes w) n \<longleftrightarrow> n < 32 \<and>
      (24 \<le> n \<and> bit w (n - 24) \<or> 16 \<le> n \<and> n < 24 \<and> bit w (n - 8) \<or> 8 \<le> n \<and> n < 16 \<and> bit w (8 + n) \<or> bit w (24 + n))"
    unfolding swap_bytes_def byte1_mask using bit_imp_le_length [of w "24 + n"] by (auto simp: bit_simps)
  consider "n < 8" | "8 \<le> n" "n < 16" | "16 \<le> n" "n < 24" | "24 \<le> n" "n < 32" | "32 \<le> n" by linarith
  then show ?thesis
  proof cases
    case 1
    then show ?thesis unfolding b by simp
  next
    case 2
    then have "n div 8 = 1" by simp
    from 2 d [OF _ this] this bit_imp_le_length [of w "24 + n"] show ?thesis unfolding b by (auto simp: algebra_simps)
  next
    case 3
    then have "n div 8 = 2" by simp
    from 3 d [OF _ this] this bit_imp_le_length [of w "24 + n"] show ?thesis unfolding b by auto
  next
    case 4
    then have "n div 8 = 3" by simp
    from 4 d [OF _ this] this bit_imp_le_length [of w "24 + n"] show ?thesis unfolding b by auto
  qed (simp add: b)
qed

lemma bit_push_byte:
  fixes b :: byte
  shows "bit (push_bit (8 * i) (ucast b) :: word32) n \<longleftrightarrow> n < 32 \<and> n div 8 = i \<and> bit b (n mod 8)"
proof (cases "8 * i \<le> n \<and> n - 8 * i < 8")
  case True
  then have "n div 8 = i" by (auto intro: div_nat_eqI)
  moreover from this have "n mod 8 = n - 8 * i" using minus_mult_div_eq_mod [of n 8] by simp
  ultimately show ?thesis using True by (auto simp: bit_simps)
next
  case False
  moreover have "8 * (n div 8) \<le> n" "n - 8 * (n div 8) < 8" by (simp_all add: minus_mult_div_eq_mod)
  ultimately show ?thesis using bit_imp_le_length [of b "n - 8 * i"] by (auto simp: bit_simps)
qed

lemma bit_le_word: "bit (le_word bs) n \<longleftrightarrow> n < 32 \<and> bit (bs ! (n div 8)) (n mod 8)"
proof -
  have "le_word bs = push_bit (8 * 0) (ucast (bs ! 0)) OR push_bit (8 * 1) (ucast (bs ! 1)) OR
      push_bit (8 * 2) (ucast (bs ! 2)) OR push_bit (8 * 3) (ucast (bs ! 3))"
    by (simp add: le_word_def)
  then have "bit (le_word bs) n \<longleftrightarrow> n < 32 \<and>
      (n div 8 = 0 \<and> bit (bs ! 0) (n mod 8) \<or> n div 8 = 1 \<and> bit (bs ! 1) (n mod 8) \<or>
       n div 8 = 2 \<and> bit (bs ! 2) (n mod 8) \<or> n div 8 = 3 \<and> bit (bs ! 3) (n mod 8))"
    unfolding bit_or_iff bit_push_byte by (simp only: bit_or_iff bit_push_byte) blast
  moreover have "n < 32 \<Longrightarrow> n div 8 = 0 \<or> n div 8 = 1 \<or> n div 8 = 2 \<or> n div 8 = 3" by linarith
  ultimately show ?thesis by metis
qed

lemma bit_le_bytes:
  assumes "j < 4"
  shows "bit (le_bytes w ! j) n \<longleftrightarrow> n < 8 \<and> bit w (8 * j + n)"
proof -
  have "j = 0 \<or> j = 1 \<or> j = 2 \<or> j = 3" using assms by linarith
  then show ?thesis unfolding le_bytes_def by (elim disjE) (simp_all add: bit_simps add.commute [of n] numeral_eq_Suc)
qed

lemma length_le_bytes [simp]: "length (le_bytes w) = 4" by (simp add: le_bytes_def)

lemma le_bytes_swap: "rev (le_bytes (swap_bytes w)) = le_bytes w"
proof -
  have "le_bytes (swap_bytes w) ! (3 - j) = le_bytes w ! j" if j: "j < 4" for j
  proof (rule bit_word_eqI)
    fix n assume "n < LENGTH(8)"
    then have "8 * (3 - j) + n < 32" "(8 * (3 - j) + n) div 8 = 3 - j" "(8 * (3 - j) + n) mod 8 = n" using j by simp_all
    then show "bit (le_bytes (swap_bytes w) ! (3 - j)) n = bit (le_bytes w ! j) n"
      using j \<open>n < LENGTH(8)\<close> by (simp add: bit_le_bytes bit_swap_bytes)
  qed
  then show ?thesis by (intro nth_equalityI) (simp_all add: rev_nth)
qed
lemma le_word_swap:
  assumes "length bs = 4"
  shows "swap_bytes (le_word (rev bs)) = le_word bs"
proof (rule bit_word_eqI)
  fix n assume n: "n < LENGTH(32)"
  define j where "j = n div 8"
  have "j < 4" using n by (simp add: j_def)
  then have "8 * (3 - j) + n mod 8 < 32" "(8 * (3 - j) + n mod 8) div 8 = 3 - j" "rev bs ! (3 - j) = bs ! j" using assms by (simp_all add: rev_nth)
  then show "bit (swap_bytes (le_word (rev bs))) n = bit (le_word bs) n"
    using n assms by (simp add: bit_le_word bit_swap_bytes flip: j_def)
qed

lemma rotate_word_rotl:
  fixes w :: word32
  assumes "0 < s" "s < 32"
  shows "push_bit s w OR drop_bit (32 - s) w = word_rotl s w"
proof (rule bit_word_eqI)
  fix n assume n: "n < LENGTH(32)"
  show "bit (push_bit s w OR drop_bit (32 - s) w) n = bit (word_rotl s w) n"
  proof (cases "n < s")
    case True
    then have "(n + (32 - s)) mod 32 = n + (32 - s)" using assms by simp
    then show ?thesis using n assms True by (simp add: bit_simps) (simp only: add.commute)
  next
    case False
    then have e: "n + (32 - s) = 32 + (n - s)" using assms by simp
    have "(n + (32 - s)) mod 32 = n - s" unfolding e mod_add_self1 using n by simp
    moreover have "\<not> bit w (32 + n - s)" using bit_imp_le_length [of w "32 + n - s"] False by auto
    ultimately show ?thesis using n assms False by (simp add: bit_simps)
  qed
qed
lemma rotl_rotr: "s \<le> 32 \<Longrightarrow> word_rotl s w = word_rotr (32 - s) (w :: word32)"
  by (rule bit_word_eqI) (auto simp: bit_simps mod_if)

lemma length_store_word [simp]: "length (store_word big w) = 4"
  by (simp add: store_word_def)

lemma store_swapped:
  "store_word big (if big then swap_bytes w else w) = le_bytes w"
  "store_word big (if big then w else swap_bytes w) = rev (le_bytes w)"
  using le_bytes_swap [of w] by (auto simp: store_word_def) (metis rev_rev_ident)+

lemma load_swapped:
  assumes "length bs = 4"
  shows "(if big then swap_bytes (load_word big bs) else load_word big bs) = le_word bs"
    and "(if big then load_word big bs else swap_bytes (load_word big bs)) = le_word (rev bs)"
  using le_word_swap [OF assms] le_word_swap [of "rev bs"] assms by (auto simp: load_word_def)

lemma block_words_cong:
  assumes "\<And>b. length b = 4 \<Longrightarrow> get b = get' b" "length bs = 64"
  shows "block_words get bs = block_words get' bs"
  using assms by (auto simp: block_words_def)

lemma length_block_words [simp]: "length (block_words get bs) = 16"
  by (simp add: block_words_def)

section \<open>The context\<close>

record 'h digest_ctx =
  dc_hash :: 'h
  dc_total0 :: word32
  dc_total1 :: word32
  dc_buflen :: nat
  dc_buffer :: "byte list"

definition init_ctx :: "'h \<Rightarrow> 'h digest_ctx" where
  "init_ctx h = \<lparr>dc_hash = h, dc_total0 = 0, dc_total1 = 0, dc_buflen = 0, dc_buffer = replicate 128 0\<rparr>"

text \<open>\<open>memcpy\<close> into a buffer at an offset.\<close>

definition put :: "nat \<Rightarrow> byte list \<Rightarrow> byte list \<Rightarrow> byte list" where
  "put off xs buf = take off buf @ xs @ drop (off + length xs) buf"

text \<open>The byte count: the comparison is made with \<open>len\<close> as a \<open>size_t\<close>.\<close>

definition count_bytes :: "nat \<Rightarrow> 'h digest_ctx \<Rightarrow> 'h digest_ctx" where
  "count_bytes len ctx =
     (let t0 = dc_total0 ctx + of_nat len
      in ctx\<lparr>dc_total0 := t0,
             dc_total1 := (if unat t0 < len then dc_total1 ctx + 1 else dc_total1 ctx)\<rparr>)"

function hash_blocks :: "('h \<Rightarrow> byte list \<Rightarrow> 'h) \<Rightarrow> 'h \<Rightarrow> byte list \<Rightarrow> 'h" where
  "hash_blocks step h bs = (if length bs < 64 then h else hash_blocks step (step h (take 64 bs)) (drop 64 bs))"
  by pat_completeness auto
termination by (relation "measure (\<lambda>(step, h, bs). length bs)") auto

declare hash_blocks.simps [simp del]

definition process_block :: "('h \<Rightarrow> byte list \<Rightarrow> 'h) \<Rightarrow> byte list \<Rightarrow> 'h digest_ctx \<Rightarrow> 'h digest_ctx" where
  "process_block step bs ctx =
     (count_bytes (length bs) ctx)\<lparr>dc_hash := hash_blocks step (dc_hash ctx) bs\<rparr>"

section \<open>\<open>process_bytes\<close>\<close>

text \<open>Rounding down to a multiple of the block size, \<open>len & ~63\<close>.\<close>

definition whole :: "nat \<Rightarrow> nat" where
  "whole n = 64 * (n div 64)"

text \<open>The first part: the new bytes that fit are joined to the ones in the buffer.\<close>

definition fill_buffer ::
  "('h \<Rightarrow> byte list \<Rightarrow> 'h) \<Rightarrow> byte list \<Rightarrow> 'h digest_ctx \<Rightarrow> 'h digest_ctx \<times> byte list" where
  "fill_buffer step bs ctx =
     (if dc_buflen ctx = 0 then (ctx, bs)
      else
        let left_over = dc_buflen ctx;
            add = (if length bs < 128 - left_over then length bs else 128 - left_over);
            ctx1 = ctx\<lparr>dc_buffer := put left_over (take add bs) (dc_buffer ctx), dc_buflen := left_over + add\<rparr>;
            n = dc_buflen ctx1 mod 64;
            ctx2 = (if dc_buflen ctx1 > 64
                    then (process_block step (take (whole (dc_buflen ctx1)) (dc_buffer ctx1)) ctx1)
                           \<lparr>dc_buflen := n,
                            dc_buffer := put 0 (take n (drop (whole (left_over + add)) (dc_buffer ctx1))) (dc_buffer ctx1)\<rparr>
                    else ctx1)
        in (ctx2, drop add bs))"

text \<open>Blocks that are not aligned are copied to the buffer one by one; the last one stays.\<close>

function copy_blocks ::
  "('h \<Rightarrow> byte list \<Rightarrow> 'h) \<Rightarrow> byte list \<Rightarrow> 'h digest_ctx \<Rightarrow> 'h digest_ctx \<times> byte list" where
  "copy_blocks step bs ctx =
     (if length bs > 64
      then let ctx1 = ctx\<lparr>dc_buffer := put 0 (take 64 bs) (dc_buffer ctx)\<rparr>
           in copy_blocks step (drop 64 bs) (process_block step (take 64 bs) ctx1)
      else (ctx, bs))"
  by pat_completeness auto
termination by (relation "measure (\<lambda>(step, bs, ctx). length bs)") auto

declare copy_blocks.simps [simp del]

definition whole_blocks ::
  "('h \<Rightarrow> byte list \<Rightarrow> 'h) \<Rightarrow> bool \<Rightarrow> byte list \<Rightarrow> 'h digest_ctx \<Rightarrow> 'h digest_ctx \<times> byte list" where
  "whole_blocks step unaligned bs ctx =
     (if length bs \<ge> 64
      then if unaligned then copy_blocks step bs ctx
           else (process_block step (take (whole (length bs)) bs) ctx, drop (whole (length bs)) bs)
      else (ctx, bs))"

definition keep_rest :: "('h \<Rightarrow> byte list \<Rightarrow> 'h) \<Rightarrow> byte list \<Rightarrow> 'h digest_ctx \<Rightarrow> 'h digest_ctx" where
  "keep_rest step bs ctx =
     (if length bs > 0
      then let buf = put (dc_buflen ctx) bs (dc_buffer ctx);
               left_over = dc_buflen ctx + length bs;
               ctx1 = ctx\<lparr>dc_buffer := buf\<rparr>
           in if left_over \<ge> 64
              then (process_block step (take 64 buf) ctx1)
                     \<lparr>dc_buffer := put 0 (take (left_over - 64) (drop 64 buf)) buf, dc_buflen := left_over - 64\<rparr>
              else ctx1\<lparr>dc_buflen := left_over\<rparr>
      else ctx)"

text \<open>\<open>unaligned\<close> says whether the rest of the caller's buffer is not aligned for 32-bit words.\<close>

definition process_bytes ::
  "('h \<Rightarrow> byte list \<Rightarrow> 'h) \<Rightarrow> bool \<Rightarrow> byte list \<Rightarrow> 'h digest_ctx \<Rightarrow> 'h digest_ctx" where
  "process_bytes step unaligned bs ctx =
     (case fill_buffer step bs ctx of (ctx1, bs1) \<Rightarrow>
        case whole_blocks step unaligned bs1 ctx1 of (ctx2, bs2) \<Rightarrow> keep_rest step bs2 ctx2)"

section \<open>The last block\<close>

definition fillbuf :: "byte list" where
  "fillbuf = 0x80 # replicate 63 0"

text \<open>\<open>enc\<close> writes the bit length, from the two words of the byte count.\<close>

definition conclude_ctx ::
  "('h \<Rightarrow> byte list \<Rightarrow> 'h) \<Rightarrow> (word32 \<Rightarrow> word32 \<Rightarrow> byte list) \<Rightarrow> 'h digest_ctx \<Rightarrow> 'h digest_ctx" where
  "conclude_ctx step enc ctx =
     (let bytes = dc_buflen ctx;
          size = (if bytes < 56 then 64 else 128);
          ctx1 = count_bytes bytes ctx;
          buf = put (size - 8) (enc (dc_total0 ctx1) (dc_total1 ctx1)) (dc_buffer ctx1);
          buf' = put bytes (take (size - 8 - bytes) fillbuf) buf
      in process_block step (take size buf') (ctx1\<lparr>dc_buffer := buf'\<rparr>))"

section \<open>The stream loop\<close>

definition BLOCKSIZE :: nat where "BLOCKSIZE = 4096"

text \<open>
  A stream is its remaining bytes and whether the read that comes up short reports an error
  rather than the end of the file. \<open>None\<close> is the return value 1.
\<close>

function digest_stream ::
  "('h \<Rightarrow> byte list \<Rightarrow> 'h) \<Rightarrow> bool \<Rightarrow> bool \<Rightarrow> byte list \<Rightarrow> 'h digest_ctx \<Rightarrow> 'h digest_ctx option" where
  "digest_stream step unaligned err stream ctx =
     (let buffer = take BLOCKSIZE stream
      in if length buffer = BLOCKSIZE
         then digest_stream step unaligned err (drop BLOCKSIZE stream) (process_block step buffer ctx)
         else if err then None
         else Some (if length buffer > 0 then process_bytes step unaligned buffer ctx else ctx))"
  by pat_completeness auto
termination
  by (relation "measure (\<lambda>(step, u, err, stream, ctx). length stream)") (auto simp: BLOCKSIZE_def)

declare digest_stream.simps [simp del]

section \<open>What the context stands for\<close>

lemma hash_blocks_Nil [simp]: "length bs < 64 \<Longrightarrow> hash_blocks step h bs = h"
  by (subst hash_blocks.simps) simp

lemma hash_blocks_one [simp]: "length bs = 64 \<Longrightarrow> hash_blocks step h bs = step h bs"
  by (subst hash_blocks.simps) simp

lemma hash_blocks_append:
  assumes "64 dvd length xs"
  shows "hash_blocks step h (xs @ ys) = hash_blocks step (hash_blocks step h xs) ys"
  using assms
proof (induction "length xs" arbitrary: xs h rule: less_induct)
  case less
  show ?case
  proof (cases "xs = []")
    case False
    then have l: "64 \<le> length xs" using less.prems by (auto dest: dvd_imp_le)
    have d: "64 dvd length (drop 64 xs)" using less.prems l by (simp add: dvd_minus_self)
    have "hash_blocks step h (xs @ ys) = hash_blocks step (step h (take 64 xs)) (drop 64 xs @ ys)"
      using l by (subst hash_blocks.simps) simp
    also have "\<dots> = hash_blocks step (hash_blocks step (step h (take 64 xs)) (drop 64 xs)) ys"
      using less.hyps [OF _ d] l by simp
    also have "hash_blocks step (step h (take 64 xs)) (drop 64 xs) = hash_blocks step h xs"
      using l by (subst (2) hash_blocks.simps) simp
    finally show ?thesis .
  qed simp
qed

lemma hash_blocks_cong:
  assumes "\<And>h b. P h \<Longrightarrow> length b = 64 \<Longrightarrow> step h b = step' h b" "\<And>h b. P h \<Longrightarrow> P (step' h b)" "P h"
  shows "hash_blocks step h bs = hash_blocks step' h bs"
  using assms(3)
proof (induction "length bs" arbitrary: h bs rule: less_induct)
  case less
  show ?case
  proof (cases "length bs < 64")
    case False
    then have "length (drop 64 bs) < length bs" by simp
    from less.hyps [OF this assms(2) [OF less.prems]] assms(1) [OF less.prems, of "take 64 bs"] False
    show ?thesis
      by (simp add: hash_blocks.simps [of step h bs] hash_blocks.simps [of step' h bs])
  qed simp
qed

text \<open>
  The bytes hashed so far are whole blocks, at most one block waits in the buffer, and the two
  words count the hashed bytes modulo \<open>2 ^ 64\<close>.
\<close>

definition counts :: "'h digest_ctx \<Rightarrow> nat \<Rightarrow> bool" where
  "counts ctx n \<longleftrightarrow> dc_total0 ctx = of_nat n \<and> dc_total1 ctx = of_nat (n div 2 ^ 32)"

definition absorbed :: "('h \<Rightarrow> byte list \<Rightarrow> 'h) \<Rightarrow> 'h \<Rightarrow> 'h digest_ctx \<Rightarrow> byte list \<Rightarrow> bool" where
  "absorbed step h0 ctx hs \<longleftrightarrow>
     64 dvd length hs \<and> dc_hash ctx = hash_blocks step h0 hs \<and> counts ctx (length hs) \<and>
     length (dc_buffer ctx) = 128"

definition waiting :: "'h digest_ctx \<Rightarrow> byte list \<Rightarrow> bool" where
  "waiting ctx rest \<longleftrightarrow>
     length rest \<le> 64 \<and> dc_buflen ctx = length rest \<and> take (length rest) (dc_buffer ctx) = rest"

definition stands_for :: "('h \<Rightarrow> byte list \<Rightarrow> 'h) \<Rightarrow> 'h \<Rightarrow> 'h digest_ctx \<Rightarrow> byte list \<Rightarrow> bool" where
  "stands_for step h0 ctx m \<longleftrightarrow>
     (\<exists>hs rest. m = hs @ rest \<and> absorbed step h0 ctx hs \<and> waiting ctx rest)"

lemma carry_nat:
  fixes n len w :: nat
  assumes "len < w"
  shows "(n + len) div w = n div w + (if (n + len) mod w < len then 1 else 0)"
proof -
  define q r where "q = n div w" and "r = n mod w"
  have n: "n = w * q + r" "r < w" using assms by (simp_all add: q_def r_def)
  have "(n + len) div w = q + (r + len) div w" "(n + len) mod w = (r + len) mod w"
    using assms by (simp_all add: n(1) add.assoc)
  moreover have "(r + len) div w = (if (r + len) mod w < len then 1 else 0)"
  proof (cases "r + len < w")
    case False
    then obtain x where x: "r + len = w + x" by (metis le_iff_add not_less)
    then have "x < w" "x < len" using n(2) assms by linarith+
    moreover from this have "(w + x) div w = 1" "(w + x) mod w = x" by (auto intro: div_nat_eqI)
    ultimately show ?thesis by (simp add: x)
  qed simp
  ultimately show ?thesis by (simp add: q_def)
qed

lemma count_bytes_counts:
  assumes "counts ctx n" "len < 2 ^ 32"
  shows "counts (count_bytes len ctx) (n + len)"
proof -
  define w :: nat where "w = 2 ^ 32"
  have u: "unat (of_nat (n + len) :: word32) = (n + len) mod w"
    unfolding w_def by (subst unat_of_nat) simp
  have t: "dc_total0 ctx + of_nat len = of_nat (n + len)" "dc_total1 ctx = of_nat (n div w)"
    using assms(1) by (simp_all add: counts_def w_def)
  have "len < w" using assms(2) by (simp add: w_def)
  from carry_nat [OF this, of n] show ?thesis
    unfolding counts_def count_bytes_def Let_def t u w_def [symmetric] by simp
qed

lemma length_put [simp]: "off + length xs \<le> length buf \<Longrightarrow> length (put off xs buf) = length buf"
  by (simp add: put_def)

lemma take_put: "off + length xs \<le> length buf \<Longrightarrow> take (off + length xs) (put off xs buf) = take off buf @ xs"
  by (simp add: put_def)

lemma take_put_0 [simp]: "length xs = n \<Longrightarrow> n \<le> length buf \<Longrightarrow> take n (put 0 xs buf) = xs"
  using take_put [of 0 xs buf] by simp

lemma absorbed_update [simp]:
  "absorbed step h0 (ctx\<lparr>dc_buflen := n\<rparr>) hs = absorbed step h0 ctx hs"
  "length buf = 128 \<Longrightarrow> length (dc_buffer ctx) = 128 \<Longrightarrow>
     absorbed step h0 (ctx\<lparr>dc_buffer := buf\<rparr>) hs = absorbed step h0 ctx hs"
  by (simp_all add: absorbed_def counts_def)

lemma absorbed_block:
  assumes "absorbed step h0 ctx hs" "64 dvd length b" "length b < 2 ^ 32"
  shows "absorbed step h0 (process_block step b ctx) (hs @ b)"
  using assms count_bytes_counts [of ctx "length hs" "length b"]
  by (simp add: absorbed_def process_block_def hash_blocks_append counts_def count_bytes_def Let_def)

lemma process_block_buffer [simp]:
  "dc_buffer (process_block step b ctx) = dc_buffer ctx"
  "dc_buflen (process_block step b ctx) = dc_buflen ctx"
  by (simp_all add: process_block_def count_bytes_def Let_def)

lemma whole_simps [simp]: "64 dvd whole n" "whole n \<le> n" "n - whole n = n mod 64"
  by (simp_all add: whole_def minus_mult_div_eq_mod)

lemma fill_buffer_eq:
  fixes n ad :: nat
  assumes "dc_buflen ctx \<noteq> 0"
    and "ad = (if length bs < 128 - dc_buflen ctx then length bs else 128 - dc_buflen ctx)"
    and "n = dc_buflen ctx + ad" "buf = put (dc_buflen ctx) (take ad bs) (dc_buffer ctx)"
    and "c = ctx\<lparr>dc_buffer := buf, dc_buflen := n\<rparr>"
  shows "fill_buffer step bs ctx =
    (if n > 64 then (process_block step (take (whole n) buf) c)
                      \<lparr>dc_buflen := n mod 64, dc_buffer := put 0 (take (n mod 64) (drop (whole n) buf)) buf\<rparr>
     else c, drop ad bs)"
  using assms(1) unfolding assms(3-5) fill_buffer_def Let_def assms(2) [symmetric] by simp

lemma fill_buffer_stands:
  assumes a: "absorbed step h0 ctx hs" and w: "waiting ctx rest"
    and f: "fill_buffer step bs ctx = (ctx1, bs1)"
  shows "\<exists>hs1 rest1. hs1 @ rest1 @ bs1 = hs @ rest @ bs \<and> absorbed step h0 ctx1 hs1 \<and>
    waiting ctx1 rest1 \<and> (bs1 = [] \<or> rest1 = [])"
proof (cases "dc_buflen ctx = 0")
  case True
  then show ?thesis using a w f by (auto simp: fill_buffer_def waiting_def intro!: exI [of _ hs])
next
  case False
  define L ad where "L = dc_buflen ctx"
    and "ad = (if length bs < 128 - dc_buflen ctx then length bs else 128 - dc_buflen ctx)"
  define n buf where "n = dc_buflen ctx + ad" and "buf = put (dc_buflen ctx) (take ad bs) (dc_buffer ctx)"
  define c where "c = ctx\<lparr>dc_buffer := buf, dc_buflen := n\<rparr>"
  let ?all = "rest @ take ad bs"
  note eq = fill_buffer_eq [OF False ad_def n_def buf_def c_def, of step]
  have wL: "length rest = L" "take L (dc_buffer ctx) = rest" "L \<le> 64" and lb: "length (dc_buffer ctx) = 128"
    using w a by (simp_all add: waiting_def absorbed_def L_def)
  have ad: "ad \<le> length bs" "n \<le> 128" "n = L + ad" "ad = length bs \<or> n = 128"
    using wL(3) by (auto simp: ad_def n_def L_def)
  have l: "length ?all = n" "length buf = 128" using ad lb wL(1) by (simp_all add: buf_def L_def)
  have tb: "take n buf = ?all"
    using take_put [of L "take ad bs" "dc_buffer ctx"] ad lb wL by (simp add: buf_def L_def)
  have bs1: "bs1 = drop ad bs" using f unfolding eq by simp
  have e: "bs1 = [] \<or> n = 128" using ad(4) bs1 by auto
  have ab: "absorbed step h0 c hs" using a l(2) lb by (simp add: c_def)
  show ?thesis
  proof (cases "n > 64")
    case True
    define k where "k = whole n"
    have k: "k \<le> n" "n - k = n mod 64" "64 dvd k" by (simp_all add: k_def)
    have tk: "take k buf = take k ?all" "take (n mod 64) (drop k buf) = drop k ?all"
      using tb k by (metis min.absorb1 take_take, metis take_drop drop_take)
    have lk: "length (take k ?all) = k" using k(1) l(1) by (simp only: length_take min_def) simp
    have ld: "length (drop k ?all) = n mod 64" using k(2) l(1) by (simp only: length_drop)
    let ?p = "process_block step (take k buf) c"
    have c1: "ctx1 = ?p\<lparr>dc_buflen := n mod 64, dc_buffer := put 0 (drop k ?all) buf\<rparr>"
      using f True unfolding eq k_def [symmetric] tk(2) by simp
    have "absorbed step h0 ?p (hs @ take k ?all)"
      unfolding tk(1) by (rule absorbed_block [OF ab]; unfold lk; use k ad(2) in simp)
    then have "absorbed step h0 ctx1 (hs @ take k ?all)" using l k ad(2) by (simp add: c1 c_def)
    moreover have "waiting ctx1 (drop k ?all)"
      using ld l(2) k(2) less_imp_le [OF mod_less_divisor [of 64 n]] take_put_0 [OF ld, of buf]
      unfolding waiting_def c1 ld by simp
    moreover have "bs1 = [] \<or> drop k ?all = []" using e l by (auto simp: k_def whole_def)
    moreover have "(hs @ take k ?all) @ drop k ?all @ bs1 = hs @ rest @ bs"
      unfolding bs1 append.assoc by (simp only: append.assoc [symmetric] append_take_drop_id) simp
    ultimately show ?thesis by blast
  next
    case False
    then have "ctx1 = c" using f unfolding eq by simp
    moreover from this have "waiting ctx1 ?all" using tb l(1) False unfolding waiting_def c_def by simp
    moreover have "bs1 = []" using False e by simp
    moreover have "hs @ ?all @ bs1 = hs @ rest @ bs" by (simp add: bs1)
    ultimately show ?thesis using ab by blast
  qed
qed

lemma copy_blocks_stands:
  assumes "copy_blocks step bs ctx = (ctx2, bs2)" "absorbed step h0 ctx hs"
  shows "\<exists>hs2. hs2 @ bs2 = hs @ bs \<and> absorbed step h0 ctx2 hs2 \<and> dc_buflen ctx2 = dc_buflen ctx \<and> length bs2 \<le> 64"
  using assms
proof (induction step bs ctx arbitrary: hs rule: copy_blocks.induct)
  case (1 step bs ctx)
  show ?case
  proof (cases "length bs > 64")
    case True
    let ?c = "process_block step (take 64 bs) (ctx\<lparr>dc_buffer := put 0 (take 64 bs) (dc_buffer ctx)\<rparr>)"
    have l: "length (dc_buffer ctx) = 128" using "1.prems"(2) by (simp add: absorbed_def)
    have "absorbed step h0 ?c (hs @ take 64 bs)"
      using True l "1.prems"(2) by (intro absorbed_block) simp_all
    moreover have "copy_blocks step (drop 64 bs) ?c = (ctx2, bs2)"
      using "1.prems"(1) True by (subst (asm) copy_blocks.simps) (simp add: Let_def)
    ultimately obtain hs2 where "hs2 @ bs2 = (hs @ take 64 bs) @ drop 64 bs" "absorbed step h0 ctx2 hs2"
        "dc_buflen ctx2 = dc_buflen ?c" "length bs2 \<le> 64"
      using "1.IH" [OF True refl] by blast
    then show ?thesis by auto
  next
    case False
    then show ?thesis using "1.prems" by (subst (asm) copy_blocks.simps) auto
  qed
qed

lemma whole_blocks_stands:
  assumes "whole_blocks step unaligned bs ctx = (ctx2, bs2)" "absorbed step h0 ctx hs" "length bs < 2 ^ 32"
  shows "\<exists>hs2. hs2 @ bs2 = hs @ bs \<and> absorbed step h0 ctx2 hs2 \<and> dc_buflen ctx2 = dc_buflen ctx \<and> length bs2 \<le> 64"
proof -
  consider "length bs \<ge> 64" unaligned | "length bs \<ge> 64" "\<not> unaligned" | "length bs < 64" by linarith
  then show ?thesis
  proof cases
    case 1
    then show ?thesis using assms copy_blocks_stands by (auto simp: whole_blocks_def)
  next
    case 2
    then have "ctx2 = process_block step (take (whole (length bs)) bs) ctx" "bs2 = drop (whole (length bs)) bs"
      using assms(1) by (simp_all add: whole_blocks_def)
    moreover from this have "absorbed step h0 ctx2 (hs @ take (whole (length bs)) bs)"
      using assms(2,3) le_less_trans [OF whole_simps(2) assms(3)] by (simp add: absorbed_block)
    ultimately show ?thesis using less_imp_le [OF mod_less_divisor [of 64 "length bs"]]
      by (intro exI [of _ "hs @ take (whole (length bs)) bs"]) simp
  next
    case 3
    then show ?thesis using assms by (auto simp: whole_blocks_def)
  qed
qed

lemma stands_forI:
  "absorbed step h0 ctx hs \<Longrightarrow> waiting ctx rest \<Longrightarrow> m = hs @ rest \<Longrightarrow> stands_for step h0 ctx m"
  unfolding stands_for_def by blast

lemma keep_rest_stands:
  assumes a: "absorbed step h0 ctx hs" and b: "dc_buflen ctx = 0" "length bs \<le> 64"
  shows "stands_for step h0 (keep_rest step bs ctx) (hs @ bs)"
proof -
  define buf where "buf = put 0 bs (dc_buffer ctx)"
  have l: "length (dc_buffer ctx) = 128" "length buf = 128"
    using a b(2) by (simp_all add: absorbed_def buf_def)
  have t: "take (length bs) buf = bs" using b(2) l(1) by (simp add: buf_def)
  consider "bs = []" | "length bs = 64" | "bs \<noteq> []" "length bs < 64" using b(2) by linarith
  then show ?thesis
  proof cases
    case 1
    then show ?thesis using a b
      by (auto simp: keep_rest_def stands_for_def waiting_def intro!: exI [of _ hs])
  next
    case 2
    have "absorbed step h0 (process_block step bs (ctx\<lparr>dc_buffer := buf\<rparr>)) (hs @ bs)"
      using a l 2 by (intro absorbed_block) simp_all
    then show ?thesis using 2 b(1) l t
      by (auto simp: keep_rest_def Let_def stands_for_def waiting_def buf_def [symmetric]
          intro!: exI [of _ "hs @ bs"])
  next
    case 3
    show ?thesis
      by (rule stands_forI [where hs = hs and rest = bs])
        (use 3 a b(1) l t in \<open>simp_all add: keep_rest_def Let_def waiting_def buf_def [symmetric]\<close>)
  qed
qed

lemma process_bytes_stands:
  assumes "stands_for step h0 ctx m" "length bs < 2 ^ 32"
  shows "stands_for step h0 (process_bytes step unaligned bs ctx) (m @ bs)"
proof -
  obtain hs rest where m: "m = hs @ rest" "absorbed step h0 ctx hs" "waiting ctx rest"
    using assms(1) by (auto simp: stands_for_def)
  obtain ctx1 bs1 where f: "fill_buffer step bs ctx = (ctx1, bs1)" by fastforce
  obtain hs1 rest1 where r: "hs1 @ rest1 @ bs1 = m @ bs" "absorbed step h0 ctx1 hs1" "waiting ctx1 rest1"
      "bs1 = [] \<or> rest1 = []"
    using fill_buffer_stands [OF m(2,3) f] m(1) by auto
  obtain ctx2 bs2 where w: "whole_blocks step unaligned bs1 ctx1 = (ctx2, bs2)" by fastforce
  have p: "process_bytes step unaligned bs ctx = keep_rest step bs2 ctx2"
    by (simp add: process_bytes_def f w)
  show ?thesis
  proof (cases "bs1 = []")
    case True
    then have "keep_rest step bs2 ctx2 = ctx1" using w by (auto simp: whole_blocks_def keep_rest_def)
    then show ?thesis using r(1) True stands_forI [OF r(2,3)] unfolding p by simp
  next
    case False
    have "length bs1 \<le> length bs" using f by (auto simp: fill_buffer_def Let_def split: if_splits)
    then have "length bs1 < 2 ^ 32" using assms(2) by linarith
    from whole_blocks_stands [OF w r(2) this] obtain hs2
      where h: "hs2 @ bs2 = hs1 @ bs1" "absorbed step h0 ctx2 hs2" "dc_buflen ctx2 = dc_buflen ctx1" "length bs2 \<le> 64"
      by blast
    have "dc_buflen ctx2 = 0" using h(3) False r(3,4) by (simp add: waiting_def)
    from keep_rest_stands [OF h(2) this h(4)] show ?thesis unfolding p using False r(1,4) h(1) by simp
  qed
qed

lemma init_ctx_stands: "stands_for step h0 (init_ctx h0) []"
  by (simp add: stands_for_def init_ctx_def absorbed_def waiting_def counts_def)

lemma digest_stream_stands:
  assumes "absorbed step h0 ctx m" "dc_buflen ctx = 0"
  shows "case digest_stream step unaligned err str ctx of None \<Rightarrow> err
         | Some ctx' \<Rightarrow> \<not> err \<and> stands_for step h0 ctx' (m @ str)"
  using assms
proof (induction step unaligned err str ctx arbitrary: m rule: digest_stream.induct)
  case (1 step unaligned err str ctx)
  let ?b = "take BLOCKSIZE str" and ?d = "drop BLOCKSIZE str"
  show ?case
  proof (cases "length ?b = BLOCKSIZE")
    case True
    have "absorbed step h0 (process_block step ?b ctx) (m @ ?b)"
      using True "1.prems"(1) by (intro absorbed_block) (auto simp: BLOCKSIZE_def)
    from "1.IH" [OF refl True this] "1.prems"(2) True show ?thesis
      by (subst digest_stream.simps) (simp add: Let_def flip: append.assoc cong: option.case_cong)
  next
    case False
    then have b: "?b = str" by auto
    have l: "length str < 2 ^ 32" using False by (simp add: BLOCKSIZE_def)
    have s: "stands_for step h0 ctx m"
      by (rule stands_forI [where hs = m and rest = "[]"]) (use "1.prems" in \<open>simp_all add: waiting_def\<close>)
    from process_bytes_stands [OF _ l, of step h0 ctx m unaligned] s False b show ?thesis
      by (subst digest_stream.simps) (auto simp: Let_def)
  qed
qed

section \<open>The one-shot digest\<close>

text \<open>
  The standards define the digest on the whole message: pad it with one bit, zeros and the length
  to a multiple of 64 bytes, then run the compression over the blocks.
\<close>

definition padded :: "(nat \<Rightarrow> byte list) \<Rightarrow> byte list \<Rightarrow> byte list" where
  "padded lenc m = m @ 0x80 # replicate ((119 - length m mod 64) mod 64) 0 @ lenc (length m)"

lemma padded_tail:
  fixes hs rest :: "byte list"
  defines "sz \<equiv> if length rest < 56 then 64 else 128"
  assumes "64 dvd length hs" "length rest \<le> 64"
  shows "padded lenc (hs @ rest) =
    hs @ rest @ take (sz - 8 - length rest) fillbuf @ lenc (length hs + length rest)"
proof -
  obtain k where k: "length hs = 64 * k" using assms(2) by (elim dvdE)
  have r: "(119 - (64 * k + length rest) mod 64) mod 64 = sz - 8 - length rest - 1"
  proof -
    consider "length rest < 56" | "56 \<le> length rest" "length rest < 64" | "length rest = 64"
      using assms(3) by linarith
    then show ?thesis
    proof cases
      case 1
      then have "(64 * k + length rest) mod 64 = length rest" by simp
      moreover have "(119 - length rest) mod 64 = 55 - length rest"
        using 1 mod_add_self1 [of 64 "55 - length rest"] by simp
      ultimately show ?thesis using 1 by (simp add: sz_def)
    next
      case 2
      then have "(64 * k + length rest) mod 64 = length rest" by simp
      then show ?thesis using 2 by (simp add: sz_def)
    next
      case 3
      then show ?thesis by (simp add: sz_def)
    qed
  qed
  have "take (sz - 8 - length rest) fillbuf = 0x80 # replicate (sz - 8 - length rest - 1) 0"
  proof -
    define j where "j = sz - 8 - length rest - 1"
    have "sz - 8 - length rest = Suc j" "j \<le> 63"
      using assms(3) by (cases "length rest < 56"; simp add: j_def sz_def)+
    then show ?thesis by (simp add: fillbuf_def min_def)
  qed
  then show ?thesis using r by (simp add: padded_def k)
qed

text \<open>What a compression function and a length encoding provide.\<close>

locale block_digest =
  fixes step :: "'h \<Rightarrow> byte list \<Rightarrow> 'h" and h0 :: 'h
    and enc :: "word32 \<Rightarrow> word32 \<Rightarrow> byte list" and lenc :: "nat \<Rightarrow> byte list"
  assumes enc_length: "length (enc a b) = 8"
    and enc_lenc: "enc (of_nat n) (of_nat (n div 2 ^ 32)) = lenc n"
begin

definition digest_of :: "byte list \<Rightarrow> 'h" where
  "digest_of m = hash_blocks step h0 (padded lenc m)"

lemma conclude_stands:
  assumes "stands_for step h0 ctx m"
  shows "dc_hash (conclude_ctx step enc ctx) = hash_blocks step h0 (padded lenc m)"
proof -
  obtain hs rest where m: "m = hs @ rest" and a: "absorbed step h0 ctx hs" and w: "waiting ctx rest"
    using assms by (auto simp: stands_for_def)
  define sz where "sz = (if length rest < 56 then 64 else 128 :: nat)"
  define buf where "buf = put (sz - 8) (lenc (length hs + length rest)) (dc_buffer ctx)"
  define buf' where "buf' = put (length rest) (take (sz - 8 - length rest) fillbuf) buf"
  have r: "length rest \<le> 64" "length rest \<le> sz - 8" "sz \<le> 128" "sz - 8 + 8 = sz"
    using w by (auto simp: sz_def waiting_def)
  have lb: "length (dc_buffer ctx) = 128" "length (lenc n) = 8" for n
    using a enc_length enc_lenc [of n] by (auto simp: absorbed_def simp flip: enc_lenc)
  let ?c = "count_bytes (length rest) ctx"
  have cnt: "counts ?c (length hs + length rest)"
    using a r(1) by (intro count_bytes_counts) (simp_all add: absorbed_def)
  have e: "enc (dc_total0 ?c) (dc_total1 ?c) = lenc (length hs + length rest)"
    using cnt enc_lenc [of "length hs + length rest"] unfolding counts_def by (simp only:)
  have c: "dc_buflen ctx = length rest" "dc_buffer ?c = dc_buffer ctx" "dc_hash ?c = hash_blocks step h0 hs"
    using a w by (simp_all add: waiting_def absorbed_def count_bytes_def Let_def)
  have tk: "take sz buf' = rest @ take (sz - 8 - length rest) fillbuf @ lenc (length hs + length rest)"
  proof -
    define off where "off = sz - 8"
    have o: "sz = off + 8" "length rest \<le> off" "off \<le> 120" "off - length rest \<le> 64"
      using r by (auto simp: off_def sz_def)
    have lp: "length (take (off - length rest) fillbuf) = off - length rest" using o(4) by (simp add: fillbuf_def)
    have b: "take (length rest) buf = rest" "drop off buf = lenc (length hs + length rest) @ drop sz (dc_buffer ctx)"
      using o lb w by (simp_all add: buf_def put_def waiting_def flip: off_def)
    have "buf' = rest @ take (off - length rest) fillbuf @ lenc (length hs + length rest) @ drop sz (dc_buffer ctx)"
      unfolding buf'_def put_def off_def [symmetric] lp using o(2) b by simp
    then show ?thesis using lp o lb by (simp flip: off_def)
  qed
  have "dc_hash (conclude_ctx step enc ctx) = hash_blocks step (hash_blocks step h0 hs) (take sz buf')"
    unfolding conclude_ctx_def Let_def c(1,2) e process_block_def sz_def [symmetric] buf_def [symmetric] buf'_def [symmetric]
    using a by (simp add: count_bytes_def Let_def absorbed_def)
  also have "\<dots> = hash_blocks step h0 (hs @ take sz buf')"
    using a by (simp add: hash_blocks_append absorbed_def)
  also have "hs @ take sz buf' = padded lenc m"
    using padded_tail [of hs rest lenc, folded sz_def] a r(1) unfolding absorbed_def by (simp only: tk m)
  finally show ?thesis .
qed

lemma buffer_correct:
  assumes "length m < 2 ^ 32"
  shows "dc_hash (conclude_ctx step enc (process_bytes step unaligned m (init_ctx h0))) = digest_of m"
  using conclude_stands [OF process_bytes_stands [OF init_ctx_stands assms]] by (simp add: digest_of_def)

lemma chunks_stand:
  assumes "stands_for step h0 ctx m" "\<forall>(u, bs) \<in> set chunks. length bs < 2 ^ 32"
  shows "stands_for step h0 (fold (\<lambda>(u, bs). process_bytes step u bs) chunks ctx) (m @ concat (map snd chunks))"
  using assms
proof (induction chunks arbitrary: ctx m)
  case (Cons c chunks)
  obtain u bs where c: "c = (u, bs)" by fastforce
  have "stands_for step h0 (process_bytes step u bs ctx) (m @ bs)"
    using Cons.prems by (intro process_bytes_stands) (auto simp: c)
  from Cons.IH [OF this] Cons.prems(2) show ?case by (simp add: c)
qed simp

lemma chunks_correct:
  assumes "\<forall>(u, bs) \<in> set chunks. length bs < 2 ^ 32"
  shows "dc_hash (conclude_ctx step enc (fold (\<lambda>(u, bs). process_bytes step u bs) chunks (init_ctx h0))) =
    digest_of (concat (map snd chunks))"
  using conclude_stands [OF chunks_stand [OF init_ctx_stands assms]] by (simp add: digest_of_def)

lemma stream_correct:
  "map_option (\<lambda>ctx. dc_hash (conclude_ctx step enc ctx)) (digest_stream step unaligned err str (init_ctx h0)) =
    (if err then None else Some (digest_of str))"
proof -
  have "absorbed step h0 (init_ctx h0) []" by (simp add: init_ctx_def absorbed_def counts_def)
  from digest_stream_stands [OF this, where unaligned = unaligned and err = err and str = str] show ?thesis
    using conclude_stands by (auto simp: digest_of_def init_ctx_def split: option.splits)
qed

end

end
