(* ===== verification/Opkg_Md5.thy ===== *)
theory Opkg_Md5
  imports Opkg_Digest
begin

text \<open>
  MD5 (\<open>libopkg/md5.c\<close>) and the hexadecimal file digest of \<open>libopkg/file_util.c\<close>. The compression
  works on four registers in a fixed order of roles, 64 operations per block; RFC 1321 rotates the
  roles instead. \<open>big\<close> says whether the host is big-endian (\<open>WORDS_BIGENDIAN\<close>).
\<close>

section \<open>The code\<close>

definition SWAP :: "bool \<Rightarrow> word32 \<Rightarrow> word32" where
  "SWAP big n = (if big then swap_bytes n else n)"

definition md5_h0 :: "word32 list" where
  "md5_h0 = [0x67452301, 0xefcdab89, 0x98badcfe, 0x10325476]"

definition md5_init_ctx :: "word32 list digest_ctx" where
  "md5_init_ctx = init_ctx md5_h0"

definition FF :: "word32 \<Rightarrow> word32 \<Rightarrow> word32 \<Rightarrow> word32" where "FF b c d = d XOR (b AND (c XOR d))"
definition FG :: "word32 \<Rightarrow> word32 \<Rightarrow> word32 \<Rightarrow> word32" where "FG b c d = FF d b c"
definition FH :: "word32 \<Rightarrow> word32 \<Rightarrow> word32 \<Rightarrow> word32" where "FH b c d = b XOR c XOR d"
definition FI :: "word32 \<Rightarrow> word32 \<Rightarrow> word32 \<Rightarrow> word32" where "FI b c d = c XOR (b OR NOT d)"

definition CYCLIC :: "word32 \<Rightarrow> nat \<Rightarrow> word32" where
  "CYCLIC w s = push_bit s w OR drop_bit (32 - s) w"

type_synonym md5_row =
  "(word32 \<Rightarrow> word32 \<Rightarrow> word32 \<Rightarrow> word32) \<times> nat \<times> nat \<times> nat \<times> nat \<times> nat \<times> nat \<times> word32"

text \<open>One \<open>OP\<close>: the function, the registers \<open>a b c d\<close>, the word, the shift and the constant.\<close>

definition md5_op :: "word32 list \<Rightarrow> md5_row \<Rightarrow> word32 list \<Rightarrow> word32 list" where
  "md5_op X row r =
     (case row of (f, a, b, c, d, k, s, T) \<Rightarrow>
        r[a := CYCLIC (r ! a + (f (r ! b) (r ! c) (r ! d) + X ! k + T)) s + r ! b])"

definition md5_ops :: "md5_row list" where
  "md5_ops =
   [(FF, 0, 1, 2, 3, 0, 7, 0xd76aa478), (FF, 3, 0, 1, 2, 1, 12, 0xe8c7b756),
    (FF, 2, 3, 0, 1, 2, 17, 0x242070db), (FF, 1, 2, 3, 0, 3, 22, 0xc1bdceee),
    (FF, 0, 1, 2, 3, 4, 7, 0xf57c0faf), (FF, 3, 0, 1, 2, 5, 12, 0x4787c62a),
    (FF, 2, 3, 0, 1, 6, 17, 0xa8304613), (FF, 1, 2, 3, 0, 7, 22, 0xfd469501),
    (FF, 0, 1, 2, 3, 8, 7, 0x698098d8), (FF, 3, 0, 1, 2, 9, 12, 0x8b44f7af),
    (FF, 2, 3, 0, 1, 10, 17, 0xffff5bb1), (FF, 1, 2, 3, 0, 11, 22, 0x895cd7be),
    (FF, 0, 1, 2, 3, 12, 7, 0x6b901122), (FF, 3, 0, 1, 2, 13, 12, 0xfd987193),
    (FF, 2, 3, 0, 1, 14, 17, 0xa679438e), (FF, 1, 2, 3, 0, 15, 22, 0x49b40821),
    (FG, 0, 1, 2, 3, 1, 5, 0xf61e2562), (FG, 3, 0, 1, 2, 6, 9, 0xc040b340),
    (FG, 2, 3, 0, 1, 11, 14, 0x265e5a51), (FG, 1, 2, 3, 0, 0, 20, 0xe9b6c7aa),
    (FG, 0, 1, 2, 3, 5, 5, 0xd62f105d), (FG, 3, 0, 1, 2, 10, 9, 0x02441453),
    (FG, 2, 3, 0, 1, 15, 14, 0xd8a1e681), (FG, 1, 2, 3, 0, 4, 20, 0xe7d3fbc8),
    (FG, 0, 1, 2, 3, 9, 5, 0x21e1cde6), (FG, 3, 0, 1, 2, 14, 9, 0xc33707d6),
    (FG, 2, 3, 0, 1, 3, 14, 0xf4d50d87), (FG, 1, 2, 3, 0, 8, 20, 0x455a14ed),
    (FG, 0, 1, 2, 3, 13, 5, 0xa9e3e905), (FG, 3, 0, 1, 2, 2, 9, 0xfcefa3f8),
    (FG, 2, 3, 0, 1, 7, 14, 0x676f02d9), (FG, 1, 2, 3, 0, 12, 20, 0x8d2a4c8a),
    (FH, 0, 1, 2, 3, 5, 4, 0xfffa3942), (FH, 3, 0, 1, 2, 8, 11, 0x8771f681),
    (FH, 2, 3, 0, 1, 11, 16, 0x6d9d6122), (FH, 1, 2, 3, 0, 14, 23, 0xfde5380c),
    (FH, 0, 1, 2, 3, 1, 4, 0xa4beea44), (FH, 3, 0, 1, 2, 4, 11, 0x4bdecfa9),
    (FH, 2, 3, 0, 1, 7, 16, 0xf6bb4b60), (FH, 1, 2, 3, 0, 10, 23, 0xbebfbc70),
    (FH, 0, 1, 2, 3, 13, 4, 0x289b7ec6), (FH, 3, 0, 1, 2, 0, 11, 0xeaa127fa),
    (FH, 2, 3, 0, 1, 3, 16, 0xd4ef3085), (FH, 1, 2, 3, 0, 6, 23, 0x04881d05),
    (FH, 0, 1, 2, 3, 9, 4, 0xd9d4d039), (FH, 3, 0, 1, 2, 12, 11, 0xe6db99e5),
    (FH, 2, 3, 0, 1, 15, 16, 0x1fa27cf8), (FH, 1, 2, 3, 0, 2, 23, 0xc4ac5665),
    (FI, 0, 1, 2, 3, 0, 6, 0xf4292244), (FI, 3, 0, 1, 2, 7, 10, 0x432aff97),
    (FI, 2, 3, 0, 1, 14, 15, 0xab9423a7), (FI, 1, 2, 3, 0, 5, 21, 0xfc93a039),
    (FI, 0, 1, 2, 3, 12, 6, 0x655b59c3), (FI, 3, 0, 1, 2, 3, 10, 0x8f0ccc92),
    (FI, 2, 3, 0, 1, 10, 15, 0xffeff47d), (FI, 1, 2, 3, 0, 1, 21, 0x85845dd1),
    (FI, 0, 1, 2, 3, 8, 6, 0x6fa87e4f), (FI, 3, 0, 1, 2, 15, 10, 0xfe2ce6e0),
    (FI, 2, 3, 0, 1, 6, 15, 0xa3014314), (FI, 1, 2, 3, 0, 13, 21, 0x4e0811a1),
    (FI, 0, 1, 2, 3, 4, 6, 0xf7537e82), (FI, 3, 0, 1, 2, 11, 10, 0xbd3af235),
    (FI, 2, 3, 0, 1, 2, 15, 0x2ad7d2bb), (FI, 1, 2, 3, 0, 9, 21, 0xeb86d391)]"

definition md5_block :: "bool \<Rightarrow> word32 list \<Rightarrow> byte list \<Rightarrow> word32 list" where
  "md5_block big h bs =
     (let X = block_words (\<lambda>b. SWAP big (load_word big b)) bs
      in map2 (+) (fold (md5_op X) md5_ops h) h)"

definition md5_process_block :: "bool \<Rightarrow> byte list \<Rightarrow> word32 list digest_ctx \<Rightarrow> word32 list digest_ctx" where
  "md5_process_block big = process_block (md5_block big)"

definition md5_process_bytes ::
  "bool \<Rightarrow> bool \<Rightarrow> byte list \<Rightarrow> word32 list digest_ctx \<Rightarrow> word32 list digest_ctx" where
  "md5_process_bytes big = process_bytes (md5_block big)"

definition md5_read_ctx :: "bool \<Rightarrow> word32 list digest_ctx \<Rightarrow> byte list" where
  "md5_read_ctx big ctx = concat (map (\<lambda>w. store_word big (SWAP big w)) (dc_hash ctx))"

definition md5_bit_length :: "bool \<Rightarrow> word32 \<Rightarrow> word32 \<Rightarrow> byte list" where
  "md5_bit_length big t0 t1 =
     store_word big (SWAP big (push_bit 3 t0)) @
     store_word big (SWAP big (push_bit 3 t1 OR drop_bit 29 t0))"

definition md5_finish_ctx :: "bool \<Rightarrow> word32 list digest_ctx \<Rightarrow> byte list" where
  "md5_finish_ctx big ctx = md5_read_ctx big (conclude_ctx (md5_block big) (md5_bit_length big) ctx)"

definition md5_stream :: "bool \<Rightarrow> bool \<Rightarrow> bool \<Rightarrow> byte list \<Rightarrow> byte list option" where
  "md5_stream big unaligned err stream =
     (case digest_stream (md5_block big) unaligned err stream md5_init_ctx of
        None \<Rightarrow> None
      | Some ctx \<Rightarrow> Some (md5_finish_ctx big ctx))"

definition md5_buffer :: "bool \<Rightarrow> bool \<Rightarrow> byte list \<Rightarrow> byte list" where
  "md5_buffer big unaligned buffer =
     md5_finish_ctx big (md5_process_bytes big unaligned buffer md5_init_ctx)"

text \<open>A file is \<open>None\<close> when it cannot be opened, else its bytes and whether reading them fails.\<close>

definition bin2hex :: string where "bin2hex = ''0123456789abcdef''"

definition hex_of :: "byte list \<Rightarrow> string" where
  "hex_of bs = concat (map (\<lambda>b. [bin2hex ! unat (drop_bit 4 b), bin2hex ! unat (b AND 0xf)]) bs)"

definition file_md5sum_alloc :: "bool \<Rightarrow> bool \<Rightarrow> (byte list \<times> bool) option \<Rightarrow> string option" where
  "file_md5sum_alloc big unaligned file =
     (case file of
        None \<Rightarrow> None
      | Some (bytes, err) \<Rightarrow>
          (case md5_stream big unaligned err bytes of
             None \<Rightarrow> None
           | Some md5sum_bin \<Rightarrow> Some (hex_of md5sum_bin)))"

section \<open>RFC 1321\<close>

definition rfc_F :: "nat \<Rightarrow> word32 \<Rightarrow> word32 \<Rightarrow> word32 \<Rightarrow> word32" where
  "rfc_F i x y z =
     (if i < 16 then (x AND y) OR (NOT x AND z)
      else if i < 32 then (x AND z) OR (y AND NOT z)
      else if i < 48 then x XOR y XOR z
      else y XOR (x OR NOT z))"

definition rfc_k :: "nat \<Rightarrow> nat" where
  "rfc_k i = (if i < 16 then i else if i < 32 then (5 * i + 1) mod 16
              else if i < 48 then (3 * i + 5) mod 16 else (7 * i) mod 16)"

definition rfc_s :: "nat \<Rightarrow> nat" where
  "rfc_s i = [[7, 12, 17, 22], [5, 9, 14, 20], [4, 11, 16, 23], [6, 10, 15, 21]] ! (i div 16) ! (i mod 4)"

definition rfc_T :: "word32 list" where
  "rfc_T =
   [0xd76aa478, 0xe8c7b756, 0x242070db, 0xc1bdceee, 0xf57c0faf, 0x4787c62a, 0xa8304613, 0xfd469501,
    0x698098d8, 0x8b44f7af, 0xffff5bb1, 0x895cd7be, 0x6b901122, 0xfd987193, 0xa679438e, 0x49b40821,
    0xf61e2562, 0xc040b340, 0x265e5a51, 0xe9b6c7aa, 0xd62f105d, 0x02441453, 0xd8a1e681, 0xe7d3fbc8,
    0x21e1cde6, 0xc33707d6, 0xf4d50d87, 0x455a14ed, 0xa9e3e905, 0xfcefa3f8, 0x676f02d9, 0x8d2a4c8a,
    0xfffa3942, 0x8771f681, 0x6d9d6122, 0xfde5380c, 0xa4beea44, 0x4bdecfa9, 0xf6bb4b60, 0xbebfbc70,
    0x289b7ec6, 0xeaa127fa, 0xd4ef3085, 0x04881d05, 0xd9d4d039, 0xe6db99e5, 0x1fa27cf8, 0xc4ac5665,
    0xf4292244, 0x432aff97, 0xab9423a7, 0xfc93a039, 0x655b59c3, 0x8f0ccc92, 0xffeff47d, 0x85845dd1,
    0x6fa87e4f, 0xfe2ce6e0, 0xa3014314, 0x4e0811a1, 0xf7537e82, 0xbd3af235, 0x2ad7d2bb, 0xeb86d391]"

fun rfc_round :: "word32 list \<Rightarrow> nat \<Rightarrow> word32 \<times> word32 \<times> word32 \<times> word32 \<Rightarrow> word32 \<times> word32 \<times> word32 \<times> word32" where
  "rfc_round X i (a, b, c, d) =
     (d, b + word_rotl (rfc_s i) (a + rfc_F i b c d + X ! rfc_k i + rfc_T ! i), b, c)"

definition rfc_block :: "word32 list \<Rightarrow> byte list \<Rightarrow> word32 list" where
  "rfc_block h bs =
     (case fold (rfc_round (block_words le_word bs)) [0..<64] (h ! 0, h ! 1, h ! 2, h ! 3) of
        (a, b, c, d) \<Rightarrow> [h ! 0 + a, h ! 1 + b, h ! 2 + c, h ! 3 + d])"

definition rfc_length :: "nat \<Rightarrow> byte list" where
  "rfc_length n = map (\<lambda>i. of_nat ((8 * n) div 256 ^ i)) [0..<8]"

definition MD5 :: "byte list \<Rightarrow> byte list" where
  "MD5 m = concat (map le_bytes (hash_blocks rfc_block md5_h0 (padded rfc_length m)))"

section \<open>The compression is the one of the RFC\<close>

lemma round_functions:
  "FF b c d = (b AND c) OR (NOT b AND d)"
  "FG b c d = (b AND d) OR (c AND NOT d)"
  "FH b c d = b XOR c XOR d"
  "FI b c d = c XOR (b OR NOT d)"
  by (simp_all add: FG_def FF_def FH_def FI_def) (rule bit_word_eqI; auto simp: bit_simps)+

definition fn_at :: "nat \<Rightarrow> word32 \<Rightarrow> word32 \<Rightarrow> word32 \<Rightarrow> word32" where
  "fn_at i = (if i < 16 then FF else if i < 32 then FG else if i < 48 then FH else FI)"

lemma fn_at_rfc: "fn_at i b c d = rfc_F i b c d"
  by (simp add: fn_at_def rfc_F_def round_functions)

definition role :: "nat \<Rightarrow> nat \<Rightarrow> nat" where "role i j = (j + (64 - i)) mod 4"

lemma md5_ops_rows:
  "md5_ops = map (\<lambda>i. (fn_at i, role i 0, role i 1, role i 2, role i 3, rfc_k i, rfc_s i, rfc_T ! i)) [0..<64]"
  unfolding md5_ops_def fn_at_def role_def rfc_k_def rfc_s_def rfc_T_def
  by (simp add: upt_rec)

definition roles :: "nat \<Rightarrow> word32 list \<Rightarrow> word32 \<times> word32 \<times> word32 \<times> word32" where
  "roles i r = (r ! role i 0, r ! role i 1, r ! role i 2, r ! role i 3)"

lemma role_cases:
  assumes "i < 64"
  obtains m where "m < 4" "\<And>j. role i j = (j + m) mod 4" "\<And>j. role (Suc i) (Suc j) = (j + m) mod 4"
    "role (Suc i) 0 = (3 + m) mod 4"
proof
  let ?m = "(64 - i) mod 4"
  have e: "Suc j + (64 - Suc i) = j + (64 - i)" "3 + (64 - i) = 4 + (64 - Suc i)" for j
    using assms by simp_all
  show "role i j = (j + ?m) mod 4" "role (Suc i) (Suc j) = (j + ?m) mod 4" for j
    unfolding role_def e by (simp_all add: mod_add_right_eq)
  show "role (Suc i) 0 = (3 + ?m) mod 4"
    unfolding role_def mod_add_right_eq e by simp
qed simp

lemma md5_op_rfc:
  assumes "i < 64" "length r = 4"
  shows "roles (Suc i) (md5_op X (md5_ops ! i) r) = rfc_round X i (roles i r)"
proof -
  have s: "0 < rfc_s i" "rfc_s i < 32"
  proof -
    have "\<forall>i \<in> set [0..<64]. 0 < rfc_s i \<and> rfc_s i < 32" by code_simp
    then show "0 < rfc_s i" "rfc_s i < 32" using assms(1) by auto
  qed
  have row: "md5_ops ! i = (fn_at i, role i 0, role i 1, role i 2, role i 3, rfc_k i, rfc_s i, rfc_T ! i)"
    using assms(1) by (simp add: md5_ops_rows)
  obtain m where m: "m < 4" "\<And>j. role i j = (j + m) mod 4" "\<And>j. role (Suc i) (Suc j) = (j + m) mod 4"
      "role (Suc i) 0 = (3 + m) mod 4"
    using role_cases [OF assms(1)] by blast
  have n: "role (Suc i) 1 = m mod 4" "role (Suc i) 2 = (1 + m) mod 4" "role (Suc i) 3 = (2 + m) mod 4"
    using m(3) [of 0] m(3) [of 1] m(3) [of 2] by (simp_all add: numeral_2_eq_2 numeral_3_eq_3)
  have "m = 0 \<or> m = 1 \<or> m = 2 \<or> m = 3" using m(1) by linarith
  then show ?thesis
    unfolding row md5_op_def roles_def prod.case rfc_round.simps fn_at_rfc CYCLIC_def rotate_word_rotl [OF s] m(2,4) n
    by (elim disjE) (simp_all add: assms(2) add_ac)
qed

lemma length_md5_op [simp]: "length (md5_op X row r) = length r"
  by (simp add: md5_op_def split: prod.split)

lemma md5_ops_rounds:
  assumes "length r = 4" "n \<le> 64"
  shows "length (fold (md5_op X) (take n md5_ops) r) = 4 \<and>
    roles n (fold (md5_op X) (take n md5_ops) r) = fold (rfc_round X) [0..<n] (roles 0 r)"
  using assms(2)
proof (induction n)
  case (Suc n)
  have "length md5_ops = 64" by (simp add: md5_ops_rows)
  then have "take (Suc n) md5_ops = take n md5_ops @ [md5_ops ! n]" using Suc.prems by (simp add: take_Suc_conv_app_nth)
  then show ?case using Suc md5_op_rfc by simp
qed (simp add: assms(1))

lemma md5_block_rfc:
  assumes "length h = 4" "length bs = 64"
  shows "md5_block big h bs = rfc_block h bs"
proof -
  have X: "block_words (\<lambda>b. SWAP big (load_word big b)) bs = block_words le_word bs"
    by (rule block_words_cong [OF _ assms(2)]) (simp add: SWAP_def load_swapped(1))
  define r where "r = fold (md5_op (block_words le_word bs)) md5_ops h"
  have len: "length md5_ops = 64" by (simp add: md5_ops_rows)
  have r: "length r = 4" "roles 64 r = fold (rfc_round (block_words le_word bs)) [0..<64] (roles 0 h)"
    using md5_ops_rounds [OF assms(1), of 64 "block_words le_word bs"] len by (simp_all add: r_def)
  have z: "roles 64 l = (l ! 0, l ! 1, l ! 2, l ! 3)" "roles 0 l = (l ! 0, l ! 1, l ! 2, l ! 3)" for l
    by (simp_all add: roles_def role_def)
  obtain h0 h1 h2 h3 where h: "h = [h0, h1, h2, h3]" using assms(1) by (auto simp: numeral_eq_Suc length_Suc_conv)
  obtain r0 r1 r2 r3 where r': "r = [r0, r1, r2, r3]" using r(1) by (auto simp: numeral_eq_Suc length_Suc_conv)
  have "fold (rfc_round (block_words le_word bs)) [0..<64] (h ! 0, h ! 1, h ! 2, h ! 3) = (r0, r1, r2, r3)"
    using r(2) unfolding z r' by simp
  then have "rfc_block h bs = [h0 + r0, h1 + r1, h2 + r2, h3 + r3]"
    unfolding rfc_block_def by (simp add: h del: upt_conv_Cons)
  moreover have "md5_block big h bs = map2 (+) r h" by (simp add: md5_block_def X r_def)
  ultimately show ?thesis by (simp add: h r' add.commute)
qed

lemma length_rfc_block [simp]: "length (rfc_block h bs) = 4"
  by (simp add: rfc_block_def split: prod.split)

lemma md5_hash_blocks_rfc:
  "length h = 4 \<Longrightarrow> hash_blocks (md5_block big) h bs = hash_blocks rfc_block h bs"
  by (rule hash_blocks_cong [where P = "\<lambda>h. length h = 4"]) (simp_all add: md5_block_rfc)

lemma bit_length_word:
  fixes n :: nat
  shows "u < 32 \<Longrightarrow> bit (push_bit 3 (of_nat n) :: word32) u = bit (8 * n) u"
    and "u < 32 \<Longrightarrow> bit (push_bit 3 (of_nat (n div 2 ^ 32)) OR drop_bit 29 (of_nat n) :: word32) u = bit (8 * n) (u + 32)"
proof -
  have b: "bit (8 * n) v \<longleftrightarrow> 3 \<le> v \<and> bit n (v - 3)" for v
    using bit_push_bit_iff_nat [of 3 n v] by (simp add: push_bit_eq_mult mult.commute)
  show "u < 32 \<Longrightarrow> bit (push_bit 3 (of_nat n) :: word32) u = bit (8 * n) u"
    unfolding b by (auto simp: bit_simps)
  have d: "n div 2 ^ 32 = drop_bit 32 n" by (simp add: drop_bit_eq_div)
  show "u < 32 \<Longrightarrow> bit (push_bit 3 (of_nat (n div 2 ^ 32)) OR drop_bit 29 (of_nat n) :: word32) u = bit (8 * n) (u + 32)"
    unfolding b d by (cases "u < 3") (auto simp: bit_simps add.commute)
qed

lemma bit_length_rfc: "md5_bit_length big (of_nat n) (of_nat (n div 2 ^ 32)) = rfc_length n"
proof (rule nth_equalityI)
  fix i assume "i < length (md5_bit_length big (of_nat n) (of_nat (n div 2 ^ 32)))"
  then have i: "i < 8" by (simp add: md5_bit_length_def)
  have d: "8 * n div 256 ^ i = drop_bit (8 * i) (8 * n)" by (simp add: drop_bit_eq_div power_mult)
  show "md5_bit_length big (of_nat n) (of_nat (n div 2 ^ 32)) ! i = rfc_length n ! i"
  proof (rule bit_word_eqI)
    fix t assume t: "t < LENGTH(8)"
    then have r: "bit (rfc_length n ! i) t = bit (8 * n) (8 * i + t)"
      using i by (simp add: rfc_length_def d bit_simps)
    have l: "md5_bit_length big (of_nat n) (of_nat (n div 2 ^ 32)) =
        le_bytes (push_bit 3 (of_nat n)) @ le_bytes (push_bit 3 (of_nat (n div 2 ^ 32)) OR drop_bit 29 (of_nat n))"
      unfolding md5_bit_length_def SWAP_def store_swapped ..
    show "bit (md5_bit_length big (of_nat n) (of_nat (n div 2 ^ 32)) ! i) t = bit (rfc_length n ! i) t"
    proof (cases "i < 4")
      case True
      then have "8 * i + t < 32" using t by simp
      then show ?thesis using t True unfolding l r
        by (simp add: nth_append bit_le_bytes bit_length_word(1))
    next
      case False
      then have i': "i - 4 < 4" and u: "8 * (i - 4) + t < 32" "8 * (i - 4) + t + 32 = 8 * i + t" using i t by simp_all
      from bit_le_bytes [OF i'] bit_length_word(2) [OF u(1), of n] t False show ?thesis
        unfolding l r u(2) nth_append length_le_bytes by simp
    qed
  qed
qed (simp add: md5_bit_length_def rfc_length_def)

interpretation md5: block_digest "md5_block big" md5_h0 "md5_bit_length big" rfc_length for big
  by unfold_locales (simp_all only: bit_length_rfc, simp add: md5_bit_length_def)

lemma md5_digest_rfc: "concat (map le_bytes (md5.digest_of big m)) = MD5 m"
  unfolding md5.digest_of_def MD5_def by (subst md5_hash_blocks_rfc) (simp_all add: md5_h0_def)

lemma md5_read_ctx_le: "md5_read_ctx big ctx = concat (map le_bytes (dc_hash ctx))"
  unfolding md5_read_ctx_def SWAP_def store_swapped ..

lemma md5_stream_MD5: "md5_stream big unaligned err bytes = (if err then None else Some (MD5 bytes))"
  using md5.stream_correct [of big unaligned err bytes]
  by (auto simp: md5_stream_def md5_finish_ctx_def md5_read_ctx_le md5_init_ctx_def md5_digest_rfc
      split: option.splits if_splits)

section \<open>Properties\<close>

text \<open>
  (C15) The file digest: for a file that can be read, \<open>file_md5sum_alloc\<close> returns the 32 lower-case
  hexadecimal digits of the MD5 digest that RFC 1321 defines on the file's whole contents (in its
  original round functions, rotation of roles and padding), on hosts of either byte order and
  whatever the alignment of the buffers; it returns \<open>NULL\<close> exactly when the file cannot be opened
  or reading it fails.
\<close>

theorem file_md5sum_alloc_rfc1321:
  "file_md5sum_alloc big unaligned file =
     (case file of
        None \<Rightarrow> None
      | Some (bytes, err) \<Rightarrow> if err then None else Some (hex_of (MD5 bytes)))"
  by (simp add: file_md5sum_alloc_def md5_stream_MD5 split: option.split)

text \<open>
  The digest does not depend on how the bytes are fed in: any sequence of
  \<open>md5_process_bytes\<close> calls, each below 4 GiB and at any alignment, gives the RFC 1321 digest of the
  concatenation.
\<close>

theorem md5_process_bytes_incremental:
  assumes "\<forall>(unaligned, bs) \<in> set chunks. length bs < 2 ^ 32"
  shows "md5_finish_ctx big (fold (\<lambda>(unaligned, bs). md5_process_bytes big unaligned bs) chunks md5_init_ctx) =
    MD5 (concat (map snd chunks))"
  using md5.chunks_correct [OF assms, of big]
  by (simp add: md5_finish_ctx_def md5_read_ctx_le md5_process_bytes_def md5_init_ctx_def md5_digest_rfc)

theorem md5_process_bytes_incremental_witness:
  "md5_finish_ctx True (fold (\<lambda>(unaligned, bs). md5_process_bytes True unaligned bs)
     [(True, [97]), (False, [98, 99])] md5_init_ctx) = MD5 [97, 98, 99]"
  using md5_process_bytes_incremental [of "[(True, [97]), (False, [98, 99])]" True] by simp

end
