(* ===== verification/Opkg_Sha256.thy ===== *)
theory Opkg_Sha256
  imports Opkg_Md5
begin

text \<open>
  SHA-224 and SHA-256 (\<open>libopkg/sha256.c\<close>) and \<open>file_sha256sum_alloc\<close>. The code keeps the message
  schedule in a circular array of 16 words and the eight working variables in fixed registers
  whose roles rotate; FIPS 180-2 has a schedule of 64 words and shifts the variables.
\<close>

section \<open>The code\<close>

definition SWAP_be :: "bool \<Rightarrow> word32 \<Rightarrow> word32" where
  "SWAP_be big n = (if big then n else swap_bytes n)"

definition sha256_h0 :: "word32 list" where
  "sha256_h0 = [0x6a09e667, 0xbb67ae85, 0x3c6ef372, 0xa54ff53a, 0x510e527f, 0x9b05688c, 0x1f83d9ab, 0x5be0cd19]"

definition sha224_h0 :: "word32 list" where
  "sha224_h0 = [0xc1059ed8, 0x367cd507, 0x3070dd17, 0xf70e5939, 0xffc00b31, 0x68581511, 0x64f98fa7, 0xbefa4fa4]"

definition sha256_init_ctx :: "word32 list digest_ctx" where
  "sha256_init_ctx = init_ctx sha256_h0"

definition sha224_init_ctx :: "word32 list digest_ctx" where
  "sha224_init_ctx = init_ctx sha224_h0"

text \<open>The table of the source (the constants of FIPS 180-2), in rows of eight: after as many rounds the registers are back in their places.\<close>

definition sha256_round_constants :: "word32 list" where
  "sha256_round_constants = concat
     [[0x428a2f98, 0x71374491, 0xb5c0fbcf, 0xe9b5dba5, 0x3956c25b, 0x59f111f1, 0x923f82a4, 0xab1c5ed5],
      [0xd807aa98, 0x12835b01, 0x243185be, 0x550c7dc3, 0x72be5d74, 0x80deb1fe, 0x9bdc06a7, 0xc19bf174],
      [0xe49b69c1, 0xefbe4786, 0x0fc19dc6, 0x240ca1cc, 0x2de92c6f, 0x4a7484aa, 0x5cb0a9dc, 0x76f988da],
      [0x983e5152, 0xa831c66d, 0xb00327c8, 0xbf597fc7, 0xc6e00bf3, 0xd5a79147, 0x06ca6351, 0x14292967],
      [0x27b70a85, 0x2e1b2138, 0x4d2c6dfc, 0x53380d13, 0x650a7354, 0x766a0abb, 0x81c2c92e, 0x92722c85],
      [0xa2bfe8a1, 0xa81a664b, 0xc24b8b70, 0xc76c51a3, 0xd192e819, 0xd6990624, 0xf40e3585, 0x106aa070],
      [0x19a4c116, 0x1e376c08, 0x2748774c, 0x34b0bcb5, 0x391c0cb3, 0x4ed8aa4a, 0x5b9cca4f, 0x682e6ff3],
      [0x748f82ee, 0x78a5636f, 0x84c87814, 0x8cc70208, 0x90befffa, 0xa4506ceb, 0xbef9a3f7, 0xc67178f2]]"

definition F2 :: "word32 \<Rightarrow> word32 \<Rightarrow> word32 \<Rightarrow> word32" where "F2 A B C = (A AND B) OR (C AND (A OR B))"
definition F1 :: "word32 \<Rightarrow> word32 \<Rightarrow> word32 \<Rightarrow> word32" where "F1 E F G = G XOR (E AND (F XOR G))"

definition rol :: "word32 \<Rightarrow> nat \<Rightarrow> word32" where
  "rol x n = push_bit n x OR drop_bit (32 - n) x"

definition S0 :: "word32 \<Rightarrow> word32" where "S0 x = rol x 25 XOR rol x 14 XOR drop_bit 3 x"
definition S1 :: "word32 \<Rightarrow> word32" where "S1 x = rol x 15 XOR rol x 13 XOR drop_bit 10 x"
definition SS0 :: "word32 \<Rightarrow> word32" where "SS0 x = rol x 30 XOR rol x 19 XOR rol x 10"
definition SS1 :: "word32 \<Rightarrow> word32" where "SS1 x = rol x 26 XOR rol x 21 XOR rol x 7"

text \<open>\<open>M(I)\<close> computes a word of the schedule and stores it over the one it replaces.\<close>

definition schedule_M :: "nat \<Rightarrow> word32 list \<Rightarrow> word32 list" where
  "schedule_M i x = x[i mod 16 := S1 (x ! ((i - 2) mod 16)) + x ! ((i - 7) mod 16) + S0 (x ! ((i - 15) mod 16)) + x ! (i mod 16)]"

text \<open>The registers of a row \<open>R(A, B, C, D, E, F, G, H, K, M)\<close>, in the eight orders that repeat.\<close>

definition sha256_rows :: "(nat \<times> nat \<times> nat \<times> nat \<times> nat \<times> nat \<times> nat \<times> nat) list" where
  "sha256_rows =
   [(0, 1, 2, 3, 4, 5, 6, 7),
    (7, 0, 1, 2, 3, 4, 5, 6),
    (6, 7, 0, 1, 2, 3, 4, 5),
    (5, 6, 7, 0, 1, 2, 3, 4),
    (4, 5, 6, 7, 0, 1, 2, 3),
    (3, 4, 5, 6, 7, 0, 1, 2),
    (2, 3, 4, 5, 6, 7, 0, 1),
    (1, 2, 3, 4, 5, 6, 7, 0)]"

definition round_R :: "nat \<times> nat \<times> nat \<times> nat \<times> nat \<times> nat \<times> nat \<times> nat \<Rightarrow> word32 \<Rightarrow> word32 \<Rightarrow> word32 list \<Rightarrow> word32 list" where
  "round_R row K m r =
     (case row of (A, B, C, D, E, F, G, H) \<Rightarrow>
        let t0 = SS0 (r ! A) + F2 (r ! A) (r ! B) (r ! C);
            t1 = r ! H + SS1 (r ! E) + F1 (r ! E) (r ! F) (r ! G) + K + m
        in r[D := r ! D + t1, H := t0 + t1])"

definition sha256_round :: "nat \<Rightarrow> word32 list \<times> word32 list \<Rightarrow> word32 list \<times> word32 list" where
  "sha256_round t st =
     (case st of (x, r) \<Rightarrow>
        let x' = (if t < 16 then x else schedule_M t x)
        in (x', round_R (sha256_rows ! (t mod 8)) (sha256_round_constants ! t) (x' ! (t mod 16)) r))"

definition sha256_block :: "bool \<Rightarrow> word32 list \<Rightarrow> byte list \<Rightarrow> word32 list" where
  "sha256_block big h bs =
     (let x = block_words (\<lambda>b. SWAP_be big (load_word big b)) bs
      in map2 (+) h (snd (fold sha256_round [0..<64] (x, h))))"

definition sha256_process_block :: "bool \<Rightarrow> byte list \<Rightarrow> word32 list digest_ctx \<Rightarrow> word32 list digest_ctx" where
  "sha256_process_block big = process_block (sha256_block big)"

definition sha256_process_bytes ::
  "bool \<Rightarrow> bool \<Rightarrow> byte list \<Rightarrow> word32 list digest_ctx \<Rightarrow> word32 list digest_ctx" where
  "sha256_process_bytes big = process_bytes (sha256_block big)"

definition sha256_read_ctx :: "bool \<Rightarrow> word32 list digest_ctx \<Rightarrow> byte list" where
  "sha256_read_ctx big ctx = concat (map (\<lambda>i. store_word big (SWAP_be big (dc_hash ctx ! i))) [0..<8])"

definition sha224_read_ctx :: "bool \<Rightarrow> word32 list digest_ctx \<Rightarrow> byte list" where
  "sha224_read_ctx big ctx = concat (map (\<lambda>i. store_word big (SWAP_be big (dc_hash ctx ! i))) [0..<7])"

definition sha256_bit_length :: "bool \<Rightarrow> word32 \<Rightarrow> word32 \<Rightarrow> byte list" where
  "sha256_bit_length big t0 t1 =
     store_word big (SWAP_be big (push_bit 3 t1 OR drop_bit 29 t0)) @
     store_word big (SWAP_be big (push_bit 3 t0))"

definition sha256_conclude_ctx :: "bool \<Rightarrow> word32 list digest_ctx \<Rightarrow> word32 list digest_ctx" where
  "sha256_conclude_ctx big = conclude_ctx (sha256_block big) (sha256_bit_length big)"

definition sha256_finish_ctx :: "bool \<Rightarrow> word32 list digest_ctx \<Rightarrow> byte list" where
  "sha256_finish_ctx big ctx = sha256_read_ctx big (sha256_conclude_ctx big ctx)"

definition sha224_finish_ctx :: "bool \<Rightarrow> word32 list digest_ctx \<Rightarrow> byte list" where
  "sha224_finish_ctx big ctx = sha224_read_ctx big (sha256_conclude_ctx big ctx)"

definition sha256_stream :: "bool \<Rightarrow> bool \<Rightarrow> bool \<Rightarrow> byte list \<Rightarrow> byte list option" where
  "sha256_stream big unaligned err stream =
     (case digest_stream (sha256_block big) unaligned err stream sha256_init_ctx of
        None \<Rightarrow> None
      | Some ctx \<Rightarrow> Some (sha256_finish_ctx big ctx))"

definition sha224_stream :: "bool \<Rightarrow> bool \<Rightarrow> bool \<Rightarrow> byte list \<Rightarrow> byte list option" where
  "sha224_stream big unaligned err stream =
     (case digest_stream (sha256_block big) unaligned err stream sha224_init_ctx of
        None \<Rightarrow> None
      | Some ctx \<Rightarrow> Some (sha224_finish_ctx big ctx))"

definition sha256_buffer :: "bool \<Rightarrow> bool \<Rightarrow> byte list \<Rightarrow> byte list" where
  "sha256_buffer big unaligned buffer =
     sha256_finish_ctx big (sha256_process_bytes big unaligned buffer sha256_init_ctx)"

definition sha224_buffer :: "bool \<Rightarrow> bool \<Rightarrow> byte list \<Rightarrow> byte list" where
  "sha224_buffer big unaligned buffer =
     sha224_finish_ctx big (sha256_process_bytes big unaligned buffer sha224_init_ctx)"

definition file_sha256sum_alloc :: "bool \<Rightarrow> bool \<Rightarrow> (byte list \<times> bool) option \<Rightarrow> string option" where
  "file_sha256sum_alloc big unaligned file =
     (case file of
        None \<Rightarrow> None
      | Some (bytes, err) \<Rightarrow>
          (case sha256_stream big unaligned err bytes of
             None \<Rightarrow> None
           | Some sha256sum_bin \<Rightarrow> Some (hex_of sha256sum_bin)))"

section \<open>FIPS 180-2\<close>

definition Ch :: "word32 \<Rightarrow> word32 \<Rightarrow> word32 \<Rightarrow> word32" where
  "Ch x y z = (x AND y) XOR (NOT x AND z)"
definition Maj :: "word32 \<Rightarrow> word32 \<Rightarrow> word32 \<Rightarrow> word32" where
  "Maj x y z = (x AND y) XOR (x AND z) XOR (y AND z)"
definition Sigma0 :: "word32 \<Rightarrow> word32" where
  "Sigma0 x = word_rotr 2 x XOR word_rotr 13 x XOR word_rotr 22 x"
definition Sigma1 :: "word32 \<Rightarrow> word32" where
  "Sigma1 x = word_rotr 6 x XOR word_rotr 11 x XOR word_rotr 25 x"
definition sigma0 :: "word32 \<Rightarrow> word32" where
  "sigma0 x = word_rotr 7 x XOR word_rotr 18 x XOR drop_bit 3 x"
definition sigma1 :: "word32 \<Rightarrow> word32" where
  "sigma1 x = word_rotr 17 x XOR word_rotr 19 x XOR drop_bit 10 x"

text \<open>The schedule: the 16 words of the block, then each from the four before it that count.\<close>

fun fips_schedule :: "nat \<Rightarrow> word32 list \<Rightarrow> word32 list" where
  "fips_schedule 0 W = W"
| "fips_schedule (Suc n) W =
     (let V = fips_schedule n W; t = length V
      in V @ [sigma1 (V ! (t - 2)) + V ! (t - 7) + sigma0 (V ! (t - 15)) + V ! (t - 16)])"

type_synonym fips_state = "word32 \<times> word32 \<times> word32 \<times> word32 \<times> word32 \<times> word32 \<times> word32 \<times> word32"

text \<open>
  The constant of round \<open>t\<close> is the first 32 bits of the fractional part of the cube root of the
  \<open>t\<close>-th prime, the initial values those of square roots.
\<close>

definition cbrt_bits :: "nat \<Rightarrow> nat \<Rightarrow> bool" where
  "cbrt_bits p k \<longleftrightarrow> (\<exists>q. (q * 2 ^ 32 + k) ^ 3 \<le> p * 2 ^ 96 \<and> p * 2 ^ 96 < (q * 2 ^ 32 + k + 1) ^ 3 \<and> k < 2 ^ 32)"

definition sqrt_bits :: "nat \<Rightarrow> nat \<Rightarrow> bool" where
  "sqrt_bits p k \<longleftrightarrow> (\<exists>q. (q * 2 ^ 32 + k) ^ 2 \<le> p * 2 ^ 64 \<and> p * 2 ^ 64 < (q * 2 ^ 32 + k + 1) ^ 2 \<and> k < 2 ^ 32)"

definition low_sqrt_bits :: "nat \<Rightarrow> nat \<Rightarrow> bool" where
  "low_sqrt_bits p k \<longleftrightarrow> (\<exists>q. (q * 2 ^ 32 + k) ^ 2 \<le> p * 2 ^ 128 \<and> p * 2 ^ 128 < (q * 2 ^ 32 + k + 1) ^ 2 \<and> k < 2 ^ 32)"

fun fips_round :: "word32 list \<Rightarrow> nat \<Rightarrow> fips_state \<Rightarrow> fips_state" where
  "fips_round W t (a, b, c, d, e, f, g, h) =
     (let T1 = h + Sigma1 e + Ch e f g + sha256_round_constants ! t + W ! t;
          T2 = Sigma0 a + Maj a b c
      in (T1 + T2, a, b, c, d + T1, e, f, g))"

definition fips_block :: "word32 list \<Rightarrow> byte list \<Rightarrow> word32 list" where
  "fips_block H bs =
     (let W = fips_schedule 48 (block_words (\<lambda>b. le_word (rev b)) bs)
      in case fold (fips_round W) [0..<64] (H ! 0, H ! 1, H ! 2, H ! 3, H ! 4, H ! 5, H ! 6, H ! 7) of
           (a, b, c, d, e, f, g, h) \<Rightarrow>
             [H ! 0 + a, H ! 1 + b, H ! 2 + c, H ! 3 + d, H ! 4 + e, H ! 5 + f, H ! 6 + g, H ! 7 + h])"

definition fips_length :: "nat \<Rightarrow> byte list" where
  "fips_length n = rev (rfc_length n)"

definition SHA256 :: "byte list \<Rightarrow> byte list" where
  "SHA256 m = concat (map (\<lambda>w. rev (le_bytes w)) (hash_blocks fips_block sha256_h0 (padded fips_length m)))"

definition SHA224 :: "byte list \<Rightarrow> byte list" where
  "SHA224 m = concat (map (\<lambda>w. rev (le_bytes w)) (take 7 (hash_blocks fips_block sha224_h0 (padded fips_length m))))"

section \<open>The constants\<close>

definition primes64 :: "nat list" where
  "primes64 = [2, 3, 5, 7, 11, 13, 17, 19, 23, 29, 31, 37, 41, 43, 47, 53, 59, 61, 67, 71, 73, 79, 83, 89, 97,
    101, 103, 107, 109, 113, 127, 131, 137, 139, 149, 151, 157, 163, 167, 173, 179, 181, 191, 193, 197, 199,
    211, 223, 227, 229, 233, 239, 241, 251, 257, 263, 269, 271, 277, 281, 283, 293, 307, 311]"

lemma cbrt_bitsI:
  "(q * 2 ^ 32 + k) ^ 3 \<le> p * 2 ^ 96 \<Longrightarrow> p * 2 ^ 96 < (q * 2 ^ 32 + k + 1) ^ 3 \<Longrightarrow> k < 2 ^ 32 \<Longrightarrow> cbrt_bits p k"
  unfolding cbrt_bits_def by blast

lemma sqrt_bitsI:
  "(q * 2 ^ 32 + k) ^ 2 \<le> p * 2 ^ 64 \<Longrightarrow> p * 2 ^ 64 < (q * 2 ^ 32 + k + 1) ^ 2 \<Longrightarrow> k < 2 ^ 32 \<Longrightarrow> sqrt_bits p k"
  unfolding sqrt_bits_def by blast

lemma low_sqrt_bitsI:
  "(q * 2 ^ 32 + k) ^ 2 \<le> p * 2 ^ 128 \<Longrightarrow> p * 2 ^ 128 < (q * 2 ^ 32 + k + 1) ^ 2 \<Longrightarrow> k < 2 ^ 32 \<Longrightarrow> low_sqrt_bits p k"
  unfolding low_sqrt_bits_def by blast

text \<open>Each prime with the bits above the ones that count.\<close>

definition cube_roots :: "(nat \<times> nat) list" where
  "cube_roots =
   [(2, 1), (3, 1), (5, 1), (7, 1), (11, 2), (13, 2), (17, 2), (19, 2), (23, 2), (29, 3), (31, 3), (37, 3),
    (41, 3), (43, 3), (47, 3), (53, 3), (59, 3), (61, 3), (67, 4), (71, 4), (73, 4), (79, 4), (83, 4), (89, 4),
    (97, 4), (101, 4), (103, 4), (107, 4), (109, 4), (113, 4), (127, 5), (131, 5), (137, 5), (139, 5), (149, 5), (151, 5),
    (157, 5), (163, 5), (167, 5), (173, 5), (179, 5), (181, 5), (191, 5), (193, 5), (197, 5), (199, 5), (211, 5), (223, 6),
    (227, 6), (229, 6), (233, 6), (239, 6), (241, 6), (251, 6), (257, 6), (263, 6), (269, 6), (271, 6), (277, 6), (281, 6),
    (283, 6), (293, 6), (307, 6), (311, 6)]"

lemma round_constants_are_cube_roots:
  "list_all2 (\<lambda>p k. cbrt_bits p (unat k)) primes64 sha256_round_constants"
proof -
  have "list_all2 (\<lambda>x k. (snd x * 2 ^ 32 + unat k) ^ 3 \<le> fst x * 2 ^ 96 \<and>
      fst x * 2 ^ 96 < (snd x * 2 ^ 32 + unat k + 1) ^ 3 \<and> unat k < 2 ^ 32) cube_roots sha256_round_constants"
    unfolding cube_roots_def sha256_round_constants_def by (simp only: concat.simps append.simps, simp)
  then have c: "list_all2 (\<lambda>x k. cbrt_bits (fst x) (unat k)) cube_roots sha256_round_constants"
    by (rule list_all2_mono) (blast intro: cbrt_bitsI)
  have e: "primes64 = map fst cube_roots" by (simp add: primes64_def cube_roots_def)
  show ?thesis unfolding e list_all2_map1 by (rule c)
qed

lemma sha256_h0_are_square_roots:
  "list_all2 (\<lambda>p k. sqrt_bits p (unat k)) (take 8 primes64) sha256_h0"
proof -
  have "list_all2 (\<lambda>x k. (snd x * 2 ^ 32 + unat k) ^ 2 \<le> fst x * 2 ^ 64 \<and>
      fst x * 2 ^ 64 < (snd x * 2 ^ 32 + unat k + 1) ^ 2 \<and> unat k < 2 ^ 32)
    ([(2, 1), (3, 1), (5, 2), (7, 2), (11, 3), (13, 3), (17, 4), (19, 4)] :: (nat \<times> nat) list) sha256_h0"
    unfolding sha256_h0_def by simp
  then have "list_all2 (\<lambda>x k. sqrt_bits (fst x) (unat k))
    ([(2, 1), (3, 1), (5, 2), (7, 2), (11, 3), (13, 3), (17, 4), (19, 4)] :: (nat \<times> nat) list) sha256_h0"
    by (rule list_all2_mono) (blast intro: sqrt_bitsI)
  then show ?thesis by (simp add: primes64_def sha256_h0_def)
qed

lemma sha224_h0_are_square_roots:
  "list_all2 (\<lambda>p k. low_sqrt_bits p (unat k)) (take 8 (drop 8 primes64)) sha224_h0"
proof -
  let ?roots = "([(23, 20597939549), (29, 23129106730), (31, 23913365850), (37, 26125266136),
    (41, 27501209191), (43, 28163984007), (47, 29444812301), (53, 31267833885)] :: (nat \<times> nat) list)"
  have "list_all2 (\<lambda>x k. (snd x * 2 ^ 32 + unat k) ^ 2 \<le> fst x * 2 ^ 128 \<and>
      fst x * 2 ^ 128 < (snd x * 2 ^ 32 + unat k + 1) ^ 2 \<and> unat k < 2 ^ 32) ?roots sha224_h0"
    unfolding sha224_h0_def by simp
  then have "list_all2 (\<lambda>x k. low_sqrt_bits (fst x) (unat k)) ?roots sha224_h0"
    by (rule list_all2_mono) (blast intro: low_sqrt_bitsI)
  then show ?thesis by (simp add: primes64_def sha224_h0_def)
qed

section \<open>The compression is the one of the standard\<close>

lemma rol_rotr: "0 < n \<Longrightarrow> n < 32 \<Longrightarrow> rol x n = word_rotr (32 - n) x"
  by (simp add: rol_def rotate_word_rotl rotl_rotr)

lemma sigma_functions: "S0 x = sigma0 x" "S1 x = sigma1 x" "SS0 x = Sigma0 x" "SS1 x = Sigma1 x"
  by (simp_all add: S0_def S1_def SS0_def SS1_def sigma0_def sigma1_def Sigma0_def Sigma1_def rol_rotr)

lemma choice_functions: "F1 x y z = Ch x y z" "F2 x y z = Maj x y z"
  by (simp_all add: F1_def F2_def Ch_def Maj_def) (rule bit_word_eqI; auto simp: bit_simps)+

lemma length_fips_schedule [simp]: "length (fips_schedule n W) = length W + n"
  by (induction n) (simp_all add: Let_def)

lemma fips_schedule_nth:
  assumes "t < length W + n"
  shows "fips_schedule (n + m) W ! t = fips_schedule n W ! t"
  using assms by (induction m) (simp_all add: Let_def nth_append)

lemma fips_schedule_word:
  assumes "length X = 16" "16 \<le> t" "t < 64"
  shows "fips_schedule 48 X ! t = sigma1 (fips_schedule 48 X ! (t - 2)) + fips_schedule 48 X ! (t - 7) +
    sigma0 (fips_schedule 48 X ! (t - 15)) + fips_schedule 48 X ! (t - 16)"
proof -
  define n where "n = t - 16"
  have n: "t = 16 + n" and e: "Suc n + (47 - n) = 48" "n + (48 - n) = 48" using assms by (simp_all add: n_def)
  have s: "fips_schedule 48 X ! i = fips_schedule n X ! i" if "i < t" for i
    using fips_schedule_nth [of i X n "48 - n"] that n assms(1) unfolding e by simp
  have "fips_schedule 48 X ! t = fips_schedule (Suc n) X ! t"
    using fips_schedule_nth [of t X "Suc n" "47 - n"] n assms(1) unfolding e by simp
  also have "\<dots> = sigma1 (fips_schedule n X ! (t - 2)) + fips_schedule n X ! (t - 7) +
    sigma0 (fips_schedule n X ! (t - 15)) + fips_schedule n X ! (t - 16)"
    using assms(1) n by (simp add: Let_def nth_append)
  finally show ?thesis using s assms(2) by simp
qed

definition reg :: "nat \<Rightarrow> nat \<Rightarrow> nat" where "reg t j = (j + (64 - t)) mod 8"

definition regs :: "nat \<Rightarrow> word32 list \<Rightarrow> fips_state" where
  "regs t r = (r ! reg t 0, r ! reg t 1, r ! reg t 2, r ! reg t 3, r ! reg t 4, r ! reg t 5, r ! reg t 6, r ! reg t 7)"

lemma sha256_rows_reg:
  "t < 64 \<Longrightarrow> sha256_rows ! (t mod 8) = (reg t 0, reg t 1, reg t 2, reg t 3, reg t 4, reg t 5, reg t 6, reg t 7)"
proof -
  have "map (\<lambda>t. sha256_rows ! (t mod 8)) [0..<64] =
    map (\<lambda>t. (reg t 0, reg t 1, reg t 2, reg t 3, reg t 4, reg t 5, reg t 6, reg t 7)) [0..<64]"
    unfolding sha256_rows_def reg_def by (simp add: upt_rec)
  then show "t < 64 \<Longrightarrow> ?thesis" by (simp only: map_eq_conv) simp
qed

lemma length_round_R [simp]: "length (round_R row K m r) = length r"
  by (simp add: round_R_def Let_def split: prod.split)

lemma round_R_registers:
  assumes "distinct [A, B, C, D, E, F, G, H]" "set [A, B, C, D, E, F, G, H] \<subseteq> {..<length r}"
    and "r' = round_R (A, B, C, D, E, F, G, H) (sha256_round_constants ! t) (W ! t) r"
  shows "(r' ! H, r' ! A, r' ! B, r' ! C, r' ! D, r' ! E, r' ! F, r' ! G) =
    fips_round W t (r ! A, r ! B, r ! C, r ! D, r ! E, r ! F, r ! G, r ! H)"
proof -
  define t1 where "t1 = r ! H + Sigma1 (r ! E) + Ch (r ! E) (r ! F) (r ! G) + sha256_round_constants ! t + W ! t"
  define t0 where "t0 = Sigma0 (r ! A) + Maj (r ! A) (r ! B) (r ! C)"
  have r': "r' = r[D := r ! D + t1, H := t0 + t1]"
    unfolding assms(3) round_R_def prod.case Let_def sigma_functions choice_functions t0_def t1_def ..
  have "fips_round W t (r ! A, r ! B, r ! C, r ! D, r ! E, r ! F, r ! G, r ! H) =
    (t1 + t0, r ! A, r ! B, r ! C, r ! D + t1, r ! E, r ! F, r ! G)"
    unfolding fips_round.simps Let_def t0_def t1_def ..
  then show ?thesis using assms(1,2) unfolding r' by (auto simp: add.commute [of t0])
qed

lemma round_R_fips:
  assumes "t < 64" "length r = 8"
  shows "regs (Suc t) (round_R (sha256_rows ! (t mod 8)) (sha256_round_constants ! t) (W ! t) r) = fips_round W t (regs t r)"
proof -
  define m where "m = (64 - t) mod 8"
  have e: "Suc j + (64 - Suc t) = j + (64 - t)" "7 + (64 - t) = 8 + (64 - Suc t)" for j
    using assms(1) by simp_all
  have r: "reg t j = (j + m) mod 8" for j
    unfolding reg_def m_def by (simp add: mod_add_right_eq)
  have rS: "reg (Suc t) (Suc j) = reg t j" "reg (Suc t) 0 = reg t 7" for j
    unfolding reg_def e by simp_all
  have rs: "reg (Suc t) 1 = reg t 0" "reg (Suc t) 2 = reg t 1" "reg (Suc t) 3 = reg t 2"
    "reg (Suc t) 4 = reg t 3" "reg (Suc t) 5 = reg t 4" "reg (Suc t) 6 = reg t 5" "reg (Suc t) 7 = reg t 6"
    using rS(1) [of 0] rS(1) [of 1] rS(1) [of 2] rS(1) [of 3] rS(1) [of 4] rS(1) [of 5] rS(1) [of 6]
    by (simp_all add: eval_nat_numeral)
  have "m < 8" by (simp add: m_def)
  then have "m = 0 \<or> m = 1 \<or> m = 2 \<or> m = 3 \<or> m = 4 \<or> m = 5 \<or> m = 6 \<or> m = 7" by linarith
  then have d: "distinct [reg t 0, reg t 1, reg t 2, reg t 3, reg t 4, reg t 5, reg t 6, reg t 7]"
    unfolding r by (elim disjE) simp_all
  have "set [reg t 0, reg t 1, reg t 2, reg t 3, reg t 4, reg t 5, reg t 6, reg t 7] \<subseteq> {..<length r}"
    unfolding r by (simp add: assms(2))
  from round_R_registers [OF d this refl, of t W] show ?thesis
    unfolding regs_def rS(2) rs sha256_rows_reg [OF assms(1)] .
qed

text \<open>
  Before round \<open>t\<close> the circular array holds the last 16 words of the schedule that exist.
\<close>

definition holds_schedule :: "word32 list \<Rightarrow> nat \<Rightarrow> word32 list \<Rightarrow> bool" where
  "holds_schedule W t x \<longleftrightarrow>
     length x = 16 \<and> (\<forall>i. max 16 t - 16 \<le> i \<longrightarrow> i < max 16 t \<longrightarrow> x ! (i mod 16) = W ! i)"

lemma schedule_M_holds:
  assumes X: "length X = 16" and W: "W = fips_schedule 48 X" and t: "16 \<le> t" "t < 64"
    and h: "holds_schedule W t x"
  shows "holds_schedule W (Suc t) (schedule_M t x)"
proof -
  have x: "x ! (i mod 16) = W ! i" if "t - 16 \<le> i" "i < t" for i
    using h that t(1) by (simp add: holds_schedule_def)
  have "t mod 16 = (t - 16) mod 16" using t(1) by (simp add: mod_if)
  then have "x ! (t mod 16) = W ! (t - 16)" using x [of "t - 16"] t(1) by simp
  then have w: "S1 (x ! ((t - 2) mod 16)) + x ! ((t - 7) mod 16) + S0 (x ! ((t - 15) mod 16)) + x ! (t mod 16) = W ! t"
    using fips_schedule_word [OF X t] x [of "t - 2"] x [of "t - 7"] x [of "t - 15"] t(1)
    by (simp add: sigma_functions W)
  have l: "length x = 16" using h by (simp add: holds_schedule_def)
  have "x[t mod 16 := W ! t] ! (i mod 16) = W ! i" if i: "Suc t - 16 \<le> i" "i < Suc t" for i
  proof (cases "i = t")
    case False
    have "i mod 16 \<noteq> t mod 16"
    proof
      assume "i mod 16 = t mod 16"
      then have "16 dvd t - i" using i(2) mod_eq_dvd_iff_nat [of i t 16] by simp
      then show False using False i t(1) by (auto dest: dvd_imp_le)
    qed
    then show ?thesis using x [of i] False i by simp
  qed (simp add: l)
  then show ?thesis using t(1) l unfolding holds_schedule_def schedule_M_def w by simp
qed

lemma sha256_rounds:
  assumes X: "length X = 16" and W: "W = fips_schedule 48 X" and h: "length h = 8" and n: "n \<le> 64"
  shows "\<exists>x r. fold sha256_round [0..<n] (X, h) = (x, r) \<and> holds_schedule W n x \<and> length r = 8 \<and>
    regs n r = fold (fips_round W) [0..<n] (regs 0 h)"
  using n
proof (induction n)
  case 0
  have "X ! i = W ! i" if "i < 16" for i using fips_schedule_nth [of i X 0 48] that X by (simp add: W)
  then show ?case using X h by (simp add: holds_schedule_def)
next
  case (Suc n)
  then obtain x r where r: "fold sha256_round [0..<n] (X, h) = (x, r)" "holds_schedule W n x" "length r = 8"
      "regs n r = fold (fips_round W) [0..<n] (regs 0 h)"
    by auto
  define x' where "x' = (if n < 16 then x else schedule_M n x)"
  have x': "holds_schedule W (Suc n) x'"
  proof (cases "n < 16")
    case True
    then show ?thesis using r(2) by (simp add: x'_def holds_schedule_def)
  next
    case False
    then show ?thesis using schedule_M_holds [OF X W _ _ r(2)] Suc.prems by (simp add: x'_def)
  qed
  then have w: "x' ! (n mod 16) = W ! n"
    unfolding holds_schedule_def by (elim conjE allE [of _ n]) (simp add: max_def)
  have "fold sha256_round [0..<Suc n] (X, h) =
      (x', round_R (sha256_rows ! (n mod 8)) (sha256_round_constants ! n) (W ! n) r)"
    using r(1) by (simp add: sha256_round_def Let_def w flip: x'_def)
  moreover have "regs (Suc n) (round_R (sha256_rows ! (n mod 8)) (sha256_round_constants ! n) (W ! n) r) =
      fold (fips_round W) [0..<Suc n] (regs 0 h)"
    using round_R_fips [of n r W] Suc.prems r(3,4) by simp
  ultimately show ?case using x' r(3) by simp
qed

lemma sha256_block_fips:
  assumes "length h = 8" "length bs = 64"
  shows "sha256_block big h bs = fips_block h bs"
proof -
  let ?X = "block_words (\<lambda>b. le_word (rev b)) bs"
  have X: "block_words (\<lambda>b. SWAP_be big (load_word big b)) bs = ?X"
    by (rule block_words_cong [OF _ assms(2)]) (simp add: SWAP_be_def load_swapped(2))
  obtain x r where r: "fold sha256_round [0..<64] (?X, h) = (x, r)" "length r = 8"
      "regs 64 r = fold (fips_round (fips_schedule 48 ?X)) [0..<64] (regs 0 h)"
    using sha256_rounds [OF _ refl assms(1), of ?X 64] by auto
  have z: "regs 64 l = (l ! 0, l ! 1, l ! 2, l ! 3, l ! 4, l ! 5, l ! 6, l ! 7)"
    "regs 0 l = (l ! 0, l ! 1, l ! 2, l ! 3, l ! 4, l ! 5, l ! 6, l ! 7)" for l
    by (simp_all add: regs_def reg_def)
  have l: "map2 (+) h r = [h ! 0 + r ! 0, h ! 1 + r ! 1, h ! 2 + r ! 2, h ! 3 + r ! 3,
      h ! 4 + r ! 4, h ! 5 + r ! 5, h ! 6 + r ! 6, h ! 7 + r ! 7]"
    by (rule nth_equalityI) (auto simp: assms(1) r(2) less_Suc_eq numeral_eq_Suc)
  show ?thesis
    unfolding sha256_block_def fips_block_def Let_def X r(1) snd_conv l
    unfolding r(3) [unfolded z, symmetric] prod.case ..
qed

lemma length_fips_block [simp]: "length (fips_block h bs) = 8"
  by (simp add: fips_block_def Let_def split: prod.split)

lemma sha256_hash_blocks_fips:
  "length h = 8 \<Longrightarrow> hash_blocks (sha256_block big) h bs = hash_blocks fips_block h bs"
  by (rule hash_blocks_cong [where P = "\<lambda>h. length h = 8"]) (simp_all add: sha256_block_fips)

lemma sha256_bit_length_fips: "sha256_bit_length big (of_nat n) (of_nat (n div 2 ^ 32)) = fips_length n"
  using arg_cong [OF bit_length_rfc [of False n], of rev]
  unfolding sha256_bit_length_def SWAP_be_def store_swapped fips_length_def md5_bit_length_def SWAP_def
  by simp

interpretation sha256: block_digest "sha256_block big" sha256_h0 "sha256_bit_length big" fips_length for big
  by unfold_locales (simp_all only: sha256_bit_length_fips, simp add: sha256_bit_length_def)

interpretation sha224: block_digest "sha256_block big" sha224_h0 "sha256_bit_length big" fips_length for big
  by unfold_locales (simp_all only: sha256_bit_length_fips, simp add: sha256_bit_length_def)

lemma sha256_digest_fips: "concat (map (\<lambda>w. rev (le_bytes w)) (sha256.digest_of big m)) = SHA256 m"
  unfolding sha256.digest_of_def SHA256_def by (subst sha256_hash_blocks_fips) (simp_all add: sha256_h0_def)

lemma sha224_digest_fips: "concat (map (\<lambda>w. rev (le_bytes w)) (take 7 (sha224.digest_of big m))) = SHA224 m"
  unfolding sha224.digest_of_def SHA224_def by (subst sha256_hash_blocks_fips) (simp_all add: sha224_h0_def)

lemma length_sha256_hash_blocks: "length h = 8 \<Longrightarrow> length (hash_blocks (sha256_block big) h bs) = 8"
proof (induction "length bs" arbitrary: h bs rule: less_induct)
  case less
  then show ?case
    by (cases "length bs < 64") (simp_all add: hash_blocks.simps [of _ h bs] sha256_block_fips)
qed

lemma sha256_read_ctx_fips:
  assumes "length (dc_hash ctx) = 8"
  shows "sha256_read_ctx big ctx = concat (map (\<lambda>w. rev (le_bytes w)) (dc_hash ctx))"
    and "sha224_read_ctx big ctx = concat (map (\<lambda>w. rev (le_bytes w)) (take 7 (dc_hash ctx)))"
proof -
  have s: "map (\<lambda>i. store_word big (SWAP_be big (dc_hash ctx ! i))) [0..<n] =
      map (\<lambda>w. rev (le_bytes w)) (take n (dc_hash ctx))" if "n \<le> 8" for n
    using that assms unfolding SWAP_be_def store_swapped by (intro nth_equalityI) simp_all
  show "sha256_read_ctx big ctx = concat (map (\<lambda>w. rev (le_bytes w)) (dc_hash ctx))"
    unfolding sha256_read_ctx_def s [OF order_refl] using assms by simp
  have "7 \<le> (8 :: nat)" by simp
  show "sha224_read_ctx big ctx = concat (map (\<lambda>w. rev (le_bytes w)) (take 7 (dc_hash ctx)))"
    unfolding sha224_read_ctx_def s [OF \<open>7 \<le> 8\<close>] ..
qed

text \<open>The digests of a context, however its bytes came in.\<close>

lemma sha256_finish_fips:
  assumes "stands_for (sha256_block big) sha256_h0 ctx m"
  shows "sha256_finish_ctx big ctx = SHA256 m"
proof -
  have h: "dc_hash (sha256_conclude_ctx big ctx) = sha256.digest_of big m"
    using sha256.conclude_stands [OF assms] by (simp add: sha256_conclude_ctx_def sha256.digest_of_def)
  have "length (sha256.digest_of big m) = 8"
    unfolding sha256.digest_of_def by (rule length_sha256_hash_blocks) (simp add: sha256_h0_def)
  then show ?thesis
    by (simp add: sha256_finish_ctx_def sha256_read_ctx_fips h sha256_digest_fips)
qed

lemma sha224_finish_fips:
  assumes "stands_for (sha256_block big) sha224_h0 ctx m"
  shows "sha224_finish_ctx big ctx = SHA224 m"
proof -
  have h: "dc_hash (sha256_conclude_ctx big ctx) = sha224.digest_of big m"
    using sha224.conclude_stands [OF assms] by (simp add: sha256_conclude_ctx_def sha224.digest_of_def)
  have "length (sha224.digest_of big m) = 8"
    unfolding sha224.digest_of_def by (rule length_sha256_hash_blocks) (simp add: sha224_h0_def)
  then show ?thesis
    by (simp add: sha224_finish_ctx_def sha256_read_ctx_fips h sha224_digest_fips)
qed

lemma init_absorbed: "absorbed step h0 (init_ctx h0) []" "dc_buflen (init_ctx h0) = 0"
  by (simp_all add: absorbed_def init_ctx_def counts_def)

lemma sha256_stream_fips: "sha256_stream big unaligned err bytes = (if err then None else Some (SHA256 bytes))"
proof -
  have "case digest_stream (sha256_block big) unaligned err bytes (init_ctx sha256_h0) of None \<Rightarrow> err
      | Some ctx' \<Rightarrow> \<not> err \<and> stands_for (sha256_block big) sha256_h0 ctx' ([] @ bytes)"
    by (rule digest_stream_stands [OF init_absorbed])
  then show ?thesis
    using sha256_finish_fips by (auto simp: sha256_stream_def sha256_init_ctx_def split: option.splits)
qed

lemma sha224_stream_fips: "sha224_stream big unaligned err bytes = (if err then None else Some (SHA224 bytes))"
proof -
  have "case digest_stream (sha256_block big) unaligned err bytes (init_ctx sha224_h0) of None \<Rightarrow> err
      | Some ctx' \<Rightarrow> \<not> err \<and> stands_for (sha256_block big) sha224_h0 ctx' ([] @ bytes)"
    by (rule digest_stream_stands [OF init_absorbed])
  then show ?thesis
    using sha224_finish_fips by (auto simp: sha224_stream_def sha224_init_ctx_def split: option.splits)
qed

section \<open>Properties\<close>

text \<open>
  (C16) The digests of \<open>sha256.c\<close> are those of FIPS 180-2: over a stream that reads without error,
  \<open>sha256_stream\<close> and \<open>sha224_stream\<close> return the standard's digest of all its bytes (with its
  64-word schedule, choice and majority functions and padding), on hosts of either byte order,
  \<open>file_sha256sum_alloc\<close> its hexadecimal form; a read error, or a file that does not open, gives
  the error result.
\<close>

theorem sha256_digests_fips180:
  "sha256_stream big unaligned err bytes = (if err then None else Some (SHA256 bytes)) \<and>
   sha224_stream big unaligned err bytes = (if err then None else Some (SHA224 bytes)) \<and>
   file_sha256sum_alloc big unaligned file =
     (case file of
        None \<Rightarrow> None
      | Some (content, failed) \<Rightarrow> if failed then None else Some (hex_of (SHA256 content)))"
  by (simp add: sha256_stream_fips sha224_stream_fips file_sha256sum_alloc_def split: option.split)

text \<open>
  The tables of \<open>sha256.c\<close> hold the constants the standard prescribes: the round constants are
  the first 32 fractional bits of the cube roots of the first 64 primes, the initial state of
  SHA-256 those of the square roots of the first 8 primes, and that of SHA-224 the second 32
  fractional bits of the square roots of the next 8.
\<close>

theorem sha256_constants_are_roots:
  "list_all2 (\<lambda>p k. cbrt_bits p (unat k)) primes64 sha256_round_constants \<and>
   list_all2 (\<lambda>p k. sqrt_bits p (unat k)) (take 8 primes64) sha256_h0 \<and>
   list_all2 (\<lambda>p k. low_sqrt_bits p (unat k)) (take 8 (drop 8 primes64)) sha224_h0"
  by (intro conjI round_constants_are_cube_roots sha256_h0_are_square_roots sha224_h0_are_square_roots)

text \<open>
  Feeding bytes in any number of \<open>sha256_process_bytes\<close> calls, each below 4 GiB and at any
  alignment, gives the standard's digest of their concatenation, for SHA-256 and for SHA-224.
\<close>

theorem sha256_process_bytes_incremental:
  assumes "\<forall>(unaligned, bs) \<in> set chunks. length bs < 2 ^ 32"
  shows "sha256_finish_ctx big (fold (\<lambda>(unaligned, bs). sha256_process_bytes big unaligned bs) chunks sha256_init_ctx) =
      SHA256 (concat (map snd chunks)) \<and>
    sha224_finish_ctx big (fold (\<lambda>(unaligned, bs). sha256_process_bytes big unaligned bs) chunks sha224_init_ctx) =
      SHA224 (concat (map snd chunks))"
  using sha256_finish_fips [OF sha256.chunks_stand [OF init_ctx_stands assms]]
    sha224_finish_fips [OF sha224.chunks_stand [OF init_ctx_stands assms]]
  by (simp add: sha256_process_bytes_def sha256_init_ctx_def sha224_init_ctx_def)

theorem sha256_process_bytes_incremental_witness:
  "sha256_finish_ctx False (fold (\<lambda>(unaligned, bs). sha256_process_bytes False unaligned bs)
     [(True, [97]), (False, [98, 99])] sha256_init_ctx) = SHA256 [97, 98, 99]"
  using sha256_process_bytes_incremental [of "[(True, [97]), (False, [98, 99])]" False] by simp

end
