(* ===== verification/Opkg_World.thy ===== *)
theory Opkg_World
  imports Opkg_Unsatisfied Opkg_Status_File Opkg_Md5
begin

text \<open>
  The state of a run of opkg and what it does to the system around it: the configuration
  (\<open>opkg_conf.h\<close>), the destinations (\<open>pkg_dest.h\<close>), the tables of packages and of file owners, and
  the world, an arbitrary type. The system calls the sources make, the tar and download code and
  the maintainer scripts are functions on the world, the fields of the environment. On top of
  them: the lists of installed files, the maintainer scripts, the file owners and the conffiles
  (parts of \<open>pkg.c\<close>, \<open>pkg_hash.c\<close>, \<open>conffile.c\<close>, \<open>file_util.c\<close>).

  A result \<open>None\<close> is a read through a null pointer. Messages are not modelled.
\<close>

section \<open>Configuration and environment\<close>

record pkg_dest =
  pd_name :: string
  pd_root_dir :: string
  pd_opkg_dir :: string
  pd_lists_dir :: string
  pd_info_dir :: string
  pd_status_file_name :: string

record pkg_src =
  sr_name :: string
  sr_value :: string
  sr_extra_data :: "string option"
  sr_gzip :: bool

record opkg_conf =
  c_src :: "src_ref \<Rightarrow> pkg_src"
  c_pkg_src_list :: "src_ref list"
  c_dist_src_list :: "src_ref list"
  c_dest :: "dest_ref \<Rightarrow> pkg_dest"
  c_dest_list :: "dest_ref list"
  c_default_dest :: dest_ref
  c_restrict_to_default_dest :: bool
  c_arch_list :: "(string \<times> string) list"
  c_tmp_dir :: string
  c_lists_dir :: string
  c_autoremove :: bool
  c_force_depends :: bool
  c_force_maintainer :: bool
  c_force_overwrite :: bool
  c_force_downgrade :: bool
  c_force_reinstall :: bool
  c_force_space :: bool
  c_force_removal_of_dependent_packages :: bool
  c_force_removal_of_essential_packages :: bool
  c_force_postinstall :: bool
  c_force_remove :: bool
  c_nodeps :: bool
  c_offline_root :: "string option"
  c_overlay_root :: "string option"
  c_query_all :: bool
  c_verbosity :: int
  c_noaction :: bool
  c_download_only :: bool
  c_cache :: "string option"
  c_http_proxy :: "string option"
  c_ftp_proxy :: "string option"
  c_pfm :: uint

text \<open>
  What the code calls. A file is its contents and whether reading it ends in an error, \<open>None\<close>
  when \<open>fopen\<close> fails. \<open>e_host\<close> says whether the host is big-endian and whether buffers are
  unaligned. The fields with a number return it as the C function does, zero for success,
  except that \<open>e_unlink\<close> and \<open>e_rename\<close> return the \<open>errno\<close> of a failure;
  \<open>e_write_file\<close> opens a file for writing, writes the text and closes it, and returns 0 or the
  \<open>errno\<close> of the failed opening. \<open>e_system\<close> runs a command in a shell with \<open>PKG_ROOT\<close> set,
  \<open>e_xsystem\<close> a program with its arguments, \<open>e_copy_file\<close> is \<open>copy_file\<close> of \<open>libbb\<close>, and
  \<open>e_deb_names\<close>, \<open>e_deb_control\<close>, \<open>e_deb_data\<close> and \<open>e_deb_control_file\<close> are the four calls of
  \<open>deb_extract\<close>.
  \<open>e_size\<close> is the size that \<open>stat\<close> finds, \<open>e_readdir\<close> the entries of a directory that can be
  opened, \<open>e_executable\<close> is \<open>access\<close> with \<open>X_OK\<close>, \<open>e_rm_r\<close> removes a directory and what is below
  it, \<open>e_unzip\<close> opens the first file for reading and the second for writing and gives what
  \<open>unzip\<close> returns, \<open>None\<close> when one of them does not open, and \<open>e_fnmatch\<close> is \<open>fnmatch\<close> without
  flags, true for a match. \<open>e_datadir\<close> is the directory \<open>DATADIR\<close> of the build.
\<close>

record 'w env = opkg_conf +
  e_host :: "bool \<times> bool"
  e_file :: "string \<Rightarrow> 'w \<Rightarrow> (string \<times> bool) option"
  e_stat :: "string \<Rightarrow> 'w \<Rightarrow> uint option"
  e_unlink :: "string \<Rightarrow> 'w \<Rightarrow> int \<times> 'w"
  e_rmdir :: "string \<Rightarrow> 'w \<Rightarrow> int \<times> 'w"
  e_rename :: "string \<Rightarrow> string \<Rightarrow> 'w \<Rightarrow> int \<times> 'w"
  e_copy_file :: "string \<Rightarrow> string \<Rightarrow> 'w \<Rightarrow> int \<times> 'w"
  e_write_file :: "string \<Rightarrow> string \<Rightarrow> 'w \<Rightarrow> int \<times> 'w"
  e_glob :: "string \<Rightarrow> 'w \<Rightarrow> string list option"
  e_system :: "string \<Rightarrow> string \<Rightarrow> 'w \<Rightarrow> int \<times> 'w"
  e_mkstemp :: "string \<Rightarrow> 'w \<Rightarrow> string option \<times> 'w"
  e_fdopen :: "'w \<Rightarrow> bool"
  e_mkdtemp :: "string \<Rightarrow> 'w \<Rightarrow> string option \<times> 'w"
  e_statvfs :: "string \<Rightarrow> 'w \<Rightarrow> (ulong \<times> ulong) option"
  e_getcwd :: "'w \<Rightarrow> string option"
  e_time :: "'w \<Rightarrow> ulong"
  e_deb_names :: "string \<Rightarrow> 'w \<Rightarrow> int \<times> string"
  e_deb_control :: "string \<Rightarrow> string \<Rightarrow> 'w \<Rightarrow> int \<times> 'w"
  e_deb_data :: "string \<Rightarrow> string \<Rightarrow> 'w \<Rightarrow> int \<times> 'w"
  e_xsystem :: "string list \<Rightarrow> 'w \<Rightarrow> int \<times> 'w"
  e_deb_control_file :: "string \<Rightarrow> 'w \<Rightarrow> int \<times> string"
  e_size :: "string \<Rightarrow> 'w \<Rightarrow> int option"
  e_mkdir_hier :: "string \<Rightarrow> 'w \<Rightarrow> int \<times> 'w"
  e_readdir :: "string \<Rightarrow> 'w \<Rightarrow> string list option"
  e_executable :: "string \<Rightarrow> 'w \<Rightarrow> bool"
  e_rm_r :: "string \<Rightarrow> 'w \<Rightarrow> 'w"
  e_getenv :: "string \<Rightarrow> 'w \<Rightarrow> string option"
  e_setenv :: "string \<Rightarrow> string \<Rightarrow> 'w \<Rightarrow> 'w"
  e_unzip :: "string \<Rightarrow> string \<Rightarrow> 'w \<Rightarrow> int option \<times> 'w"
  e_fnmatch :: "string \<Rightarrow> string \<Rightarrow> bool"
  e_datadir :: string

record 'w sys =
  y_world :: 'w
  y_store :: store
  y_files :: "pkg_ref hash_table"
  y_obs_files :: "pkg_ref hash_table"
  y_state_changed :: int
  y_sigint_blocked :: bool

abbreviation pkg_at :: "'w sys \<Rightarrow> pkg_ref \<Rightarrow> pkg" where
  "pkg_at y r \<equiv> s_pkgs (y_store y) r"

definition mod_pkg :: "pkg_ref \<Rightarrow> (pkg \<Rightarrow> pkg) \<Rightarrow> 'w sys \<Rightarrow> 'w sys" where
  "mod_pkg r f y = y\<lparr>y_store := upd_pkg r f (y_store y)\<rparr>"

definition mod_apkg :: "apkg_ref \<Rightarrow> (abstract_pkg \<Rightarrow> abstract_pkg) \<Rightarrow> 'w sys \<Rightarrow> 'w sys" where
  "mod_apkg a f y = y\<lparr>y_store := upd_apkg a f (y_store y)\<rparr>"

definition dest_of :: "'w env \<Rightarrow> pkg \<Rightarrow> pkg_dest option" where
  "dest_of e p = map_option (c_dest e) (p_dest p)"

definition unlink :: "'w env \<Rightarrow> string \<Rightarrow> 'w sys \<Rightarrow> 'w sys" where
  "unlink e f y = y\<lparr>y_world := snd (e_unlink e f (y_world y))\<rparr>"

text \<open>\<open>e_stat\<close> gives the mode of a file that \<open>stat\<close> finds.\<close>

definition S_IFMT :: uint where "S_IFMT = 0xF000"
definition S_IFDIR :: uint where "S_IFDIR = 0x4000"

definition file_exists :: "'w env \<Rightarrow> string \<Rightarrow> 'w \<Rightarrow> bool" where
  "file_exists e f w \<longleftrightarrow> e_stat e f w \<noteq> None"

definition file_is_dir :: "'w env \<Rightarrow> string \<Rightarrow> 'w \<Rightarrow> bool" where
  "file_is_dir e f w \<longleftrightarrow> (case e_stat e f w of None \<Rightarrow> False | Some m \<Rightarrow> m AND S_IFMT = S_IFDIR)"

definition md5_of :: "'w env \<Rightarrow> string \<Rightarrow> 'w \<Rightarrow> string option" where
  "md5_of e f w =
     file_md5sum_alloc (fst (e_host e)) (snd (e_host e)) (map_option (map_prod (map of_char) id) (e_file e f w))"

text \<open>The loop over \<open>file_read_line_alloc\<close>.\<close>

lemma file_read_line_alloc_shorter: "file_read_line_alloc fp = (Some l, rest) \<Longrightarrow> length rest < length fp"
proof -
  assume a: "file_read_line_alloc fp = (Some l, rest)"
  then have "fp \<noteq> []" "rest = tl (dropWhile (\<lambda>c. c \<noteq> newline) fp)"
    by (auto simp: file_read_line_alloc_def read_line_loop_correct split: if_splits)
  moreover have "length (tl (dropWhile (\<lambda>c. c \<noteq> newline) fp)) \<le> length fp - 1"
    using length_dropWhile_le [of "\<lambda>c. c \<noteq> newline" fp] by simp
  ultimately show ?thesis by (cases fp) auto
qed

function read_lines :: "string \<Rightarrow> string list" where
  "read_lines fp =
     (case file_read_line_alloc fp of (None, rest) \<Rightarrow> [] | (Some l, rest) \<Rightarrow> l # read_lines rest)"
  by pat_completeness auto
termination
  by (relation "measure length") (auto dest: file_read_line_alloc_shorter [OF sym])

declare read_lines.simps [simp del]

section \<open>The files of a package\<close>

text \<open>One line of the list: from a package file, or from the list file of an installed package.\<close>

definition name_from_package :: "pkg_dest \<Rightarrow> string \<Rightarrow> string" where
  "name_from_package d line =
     (let file_name = (if starts_with line ''.'' then tl line else line);
          file_name = (if starts_with file_name ''/'' then tl file_name else file_name)
      in pd_root_dir d @ file_name)"

definition name_from_list :: "string option \<Rightarrow> string \<Rightarrow> string" where
  "name_from_list offline_root file_name =
     (case offline_root of
        Some root \<Rightarrow> if \<not> starts_with file_name root then root @ file_name else file_name
      | None \<Rightarrow> file_name)"

definition list_file :: "pkg_dest \<Rightarrow> pkg \<Rightarrow> string" where
  "list_file d p = pd_info_dir d @ ''/'' @ fmt_s (p_name p) @ ''.list''"

definition set_installed_files :: "pkg_ref \<Rightarrow> string list option \<Rightarrow> 'w sys \<Rightarrow> 'w sys" where
  "set_installed_files r fs = mod_pkg r (\<lambda>p. p\<lparr>p_installed_files := fs\<rparr>)"

definition files_from_package ::
  "'w env \<Rightarrow> pkg_ref \<Rightarrow> 'w sys \<Rightarrow> (string list option \<times> 'w sys) option" where
  "files_from_package e r y =
     (let p = pkg_at y r in
      case p_local_filename p of
        None \<Rightarrow> Some (p_installed_files p, y)
      | Some local \<Rightarrow>
          (case e_mkstemp e (c_tmp_dir e @ ''/'' @ fmt_s (p_name p) @ ''.list.XXXXXX'') (y_world y) of
             (None, w) \<Rightarrow> Some (p_installed_files p, y\<lparr>y_world := w\<rparr>)
           | (Some tmp, w) \<Rightarrow>
               let y1 = y\<lparr>y_world := w\<rparr> in
               if \<not> e_fdopen e w then Some (p_installed_files p, unlink e tmp y1)
               else
                 (case e_deb_names e local w of
                    (err, text) \<Rightarrow>
                      if err \<noteq> 0 then Some (None, set_installed_files r None (unlink e tmp y1))
                      else
                        (case dest_of e p of
                           None \<Rightarrow> if read_lines text = [] then Some (Some [], unlink e tmp y1) else None
                         | Some d \<Rightarrow>
                             let fs = map (name_from_package d) (read_lines text)
                             in Some (Some fs, unlink e tmp (set_installed_files r (Some fs) y1))))))"

definition files_from_list ::
  "'w env \<Rightarrow> pkg_ref \<Rightarrow> 'w sys \<Rightarrow> (string list option \<times> 'w sys) option" where
  "files_from_list e r y =
     (let p = pkg_at y r in
      case dest_of e p of
        None \<Rightarrow> None
      | Some d \<Rightarrow>
          (case e_file e (list_file d p) (y_world y) of
             None \<Rightarrow> Some (p_installed_files p, y)
           | Some (text, err) \<Rightarrow>
               let fs = map (name_from_list (c_offline_root e)) (read_lines text)
               in Some (Some fs, set_installed_files r (Some fs) y)))"

definition pkg_get_installed_files ::
  "'w env \<Rightarrow> pkg_ref \<Rightarrow> 'w sys \<Rightarrow> (string list option \<times> 'w sys) option" where
  "pkg_get_installed_files e r y =
     (let y1 = mod_pkg r (\<lambda>p. p\<lparr>p_installed_files_ref_cnt := p_installed_files_ref_cnt p + 1\<rparr>) y in
      case p_installed_files (pkg_at y r) of
        Some fs \<Rightarrow> Some (Some fs, y1)
      | None \<Rightarrow>
          let y2 = set_installed_files r (Some []) y1 in
          if p_state_status (pkg_at y r) = SS_NOT_INSTALLED \<or> p_dest (pkg_at y r) = None
          then files_from_package e r y2 else files_from_list e r y2)"

definition pkg_free_installed_files :: "pkg_ref \<Rightarrow> 'w sys \<Rightarrow> 'w sys" where
  "pkg_free_installed_files r y =
     mod_pkg r (\<lambda>p. let n = p_installed_files_ref_cnt p - 1; p1 = p\<lparr>p_installed_files_ref_cnt := n\<rparr>
                    in if n > 0 then p1 else p1\<lparr>p_installed_files := None\<rparr>) y"

definition pkg_remove_installed_files_list :: "'w env \<Rightarrow> pkg_ref \<Rightarrow> 'w sys \<Rightarrow> 'w sys option" where
  "pkg_remove_installed_files_list e r y =
     (case dest_of e (pkg_at y r) of
        None \<Rightarrow> None
      | Some d \<Rightarrow> Some (if c_noaction e then y else unlink e (list_file d (pkg_at y r)) y))"

section \<open>Conffiles\<close>

definition pkg_get_conffile :: "pkg option \<Rightarrow> string \<Rightarrow> nv_pair option" where
  "pkg_get_conffile pkg file_name =
     (case pkg of None \<Rightarrow> None | Some p \<Rightarrow> List.find (\<lambda>cf. nv_name cf = Some file_name) (p_conffiles p))"

definition root_filename_alloc :: "'w env \<Rightarrow> string \<Rightarrow> string" where
  "root_filename_alloc e filename = (case c_offline_root e of Some root \<Rightarrow> root | None \<Rightarrow> []) @ filename"

definition conffile_has_been_modified :: "'w env \<Rightarrow> nv_pair \<Rightarrow> 'w \<Rightarrow> bool" where
  "conffile_has_been_modified e cf w =
     (case nv_value cf of
        None \<Rightarrow> True
      | Some v \<Rightarrow>
          (case md5_of e (root_filename_alloc e (fmt_s (nv_name cf))) w of
             None \<Rightarrow> True
           | Some md5sum \<Rightarrow> strcmp md5sum v \<noteq> 0))"

section \<open>Maintainer scripts\<close>

definition script_path :: "'w env \<Rightarrow> pkg \<Rightarrow> string \<Rightarrow> string option" where
  "script_path e p script =
     (if p_state_status p = SS_INSTALLED \<or> p_state_status p = SS_UNPACKED
      then map_option (\<lambda>d. pd_info_dir d @ ''/'' @ fmt_s (p_name p) @ ''.'' @ script) (dest_of e p)
      else map_option (\<lambda>dir. dir @ ''/'' @ script) (p_tmp_unpack_dir p))"

definition pkg_run_script :: "'w env \<Rightarrow> pkg_ref \<Rightarrow> string \<Rightarrow> string \<Rightarrow> 'w sys \<Rightarrow> int \<times> 'w sys" where
  "pkg_run_script e r script args y =
     (let p = pkg_at y r in
      if c_noaction e then (0, y)
      else if c_offline_root e \<noteq> None \<and> \<not> c_force_postinstall e then (0, y)
      else
        (case script_path e p script of
           None \<Rightarrow> (-1, y)
         | Some path \<Rightarrow>
             let root = pd_root_dir (case dest_of e p of Some d \<Rightarrow> d | None \<Rightarrow> c_dest e (c_default_dest e)) in
             if \<not> file_exists e path (y_world y) then (0, y)
             else (case e_system e root (path @ '' '' @ args) (y_world y) of (err, w) \<Rightarrow> (err, y\<lparr>y_world := w\<rparr>))))"

definition pkg_arch_supported :: "'w env \<Rightarrow> pkg \<Rightarrow> bool" where
  "pkg_arch_supported e p =
     (case p_architecture p of None \<Rightarrow> True | Some arch \<Rightarrow> list_ex (\<lambda>(name, val). strcmp name arch = 0) (c_arch_list e))"

section \<open>File owners\<close>

definition strip_offline_root :: "'w env \<Rightarrow> string \<Rightarrow> string" where
  "strip_offline_root e file_name =
     (case c_offline_root e of
        Some root \<Rightarrow> if starts_with file_name root then drop (length root) file_name else file_name
      | None \<Rightarrow> file_name)"

definition file_hash_remove :: "'w env \<Rightarrow> string \<Rightarrow> 'w sys \<Rightarrow> 'w sys" where
  "file_hash_remove e file_name y =
     y\<lparr>y_files := snd (hash_table_remove (y_files y) (strip_offline_root e file_name))\<rparr>"

definition file_hash_get_file_owner :: "'w env \<Rightarrow> string \<Rightarrow> 'w sys \<Rightarrow> pkg_ref option \<times> 'w sys" where
  "file_hash_get_file_owner e file_name y =
     (case hash_table_get (y_files y) (strip_offline_root e file_name) of (v, h) \<Rightarrow> (v, y\<lparr>y_files := h\<rparr>))"

definition str_list_remove_elt :: "string list \<Rightarrow> string \<Rightarrow> string list" where
  "str_list_remove_elt xs target = remove1 target xs"

definition filelist_changed :: "pkg \<Rightarrow> pkg" where
  "filelist_changed p = p\<lparr>p_state_flag := p_state_flag p OR SF_FILELIST_CHANGED\<rparr>"

text \<open>
  An old owner loses the name from its list of files, which must not be null. The byte before an
  empty name is not the file's.
\<close>

definition file_hash_set_file_owner :: "'w env \<Rightarrow> string \<Rightarrow> pkg_ref \<Rightarrow> 'w sys \<Rightarrow> 'w sys option" where
  "file_hash_set_file_owner e file_name owning_pkg y =
     (if file_name = [] then None
      else if last file_name = CHR ''/'' then Some y
      else
        let name = strip_offline_root e file_name in
        case hash_table_get (y_files y) name of (old_owning_pkg, h) \<Rightarrow>
        let y1 = y\<lparr>y_files := snd (hash_table_insert h name owning_pkg)\<rparr> in
        case old_owning_pkg of
          None \<Rightarrow> Some y1
        | Some old \<Rightarrow>
            do { (fs, y2) \<leftarrow> pkg_get_installed_files e old y1;
                 xs \<leftarrow> p_installed_files (pkg_at y2 old);
                 let y3 = set_installed_files old (Some (str_list_remove_elt xs name)) y2;
                     y4 = pkg_free_installed_files old y3
                 in Some (mod_pkg owning_pkg filelist_changed (mod_pkg old filelist_changed y4)) })"

text \<open>
  A loop over a list of files that may lose the element it stands on: the next element has been
  fetched before, so the loop sees the elements the list had at its start.
\<close>

definition claim_files :: "'w env \<Rightarrow> pkg_ref \<Rightarrow> string list \<Rightarrow> 'w sys \<Rightarrow> 'w sys option" where
  "claim_files e r = foldM (\<lambda>f. file_hash_set_file_owner e f r)"

text \<open>The loop of \<open>pkg_info_preinstall_check\<close> ends at the first package whose list is null.\<close>

fun preinstall_loop :: "'w env \<Rightarrow> pkg_ref list \<Rightarrow> 'w sys \<Rightarrow> 'w sys option" where
  "preinstall_loop e [] y = Some y"
| "preinstall_loop e (r # rs) y =
     do { (fs, y1) \<leftarrow> pkg_get_installed_files e r y;
          case fs of
            None \<Rightarrow> Some y1
          | Some xs \<Rightarrow> do { y2 \<leftarrow> claim_files e r xs y1; preinstall_loop e rs (pkg_free_installed_files r y2) } }"

definition pkg_info_preinstall_check :: "'w env \<Rightarrow> 'w sys \<Rightarrow> 'w sys option" where
  "pkg_info_preinstall_check e y = preinstall_loop e (pkg_hash_fetch_all_installed [] (y_store y)) y"

section \<open>Writing the database\<close>

definition write_filelist_helper :: "pkg_ref \<Rightarrow> string \<Rightarrow> pkg_ref \<Rightarrow> string \<Rightarrow> string" where
  "write_filelist_helper r key entry text = (if entry = r then text @ key @ [newline] else text)"

definition pkg_write_filelist :: "'w env \<Rightarrow> pkg_ref \<Rightarrow> 'w sys \<Rightarrow> (int \<times> 'w sys) option" where
  "pkg_write_filelist e r y =
     do { d \<leftarrow> dest_of e (pkg_at y r);
          case e_write_file e (list_file d (pkg_at y r)) (hash_table_foreach (y_files y) (write_filelist_helper r) []) (y_world y) of
            (err, w) \<Rightarrow>
              Some (if err \<noteq> 0 then (-1, y\<lparr>y_world := w\<rparr>)
                    else (0, mod_pkg r (\<lambda>p. p\<lparr>p_state_flag := p_state_flag p AND NOT SF_FILELIST_CHANGED\<rparr>) (y\<lparr>y_world := w\<rparr>))) }"

definition pkg_write_changed_filelists :: "'w env \<Rightarrow> 'w sys \<Rightarrow> (int \<times> 'w sys) option" where
  "pkg_write_changed_filelists e y =
     (if c_noaction e then Some (0, y)
      else foldM (\<lambda>r (ret, y).
             if p_state_flag (pkg_at y r) AND SF_FILELIST_CHANGED \<noteq> 0
             then do { (err, y') \<leftarrow> pkg_write_filelist e r y; Some (if err \<noteq> 0 then -1 else ret, y') }
             else Some (ret, y))
           (pkg_hash_fetch_all_installed [] (y_store y)) (0, y))"

definition set_flags_from_control :: "'w env \<Rightarrow> pkg_ref \<Rightarrow> 'w sys \<Rightarrow> 'w sys option" where
  "set_flags_from_control e r y =
     do { d \<leftarrow> dest_of e (pkg_at y r);
          case e_file e (pd_info_dir d @ ''/'' @ fmt_s (p_name (pkg_at y r)) @ ''.control'') (y_world y) of
            None \<Rightarrow> Some y
          | Some (text, err) \<Rightarrow>
              (case pkg_parse_from_stream \<lparr>pe_pfm = c_pfm e, pe_arch_list = c_arch_list e\<rparr> (PFM_ALL XOR PFM_ESSENTIAL)
                      \<lparr>ps_pkg = pkg_at y r, ps_conffiles = False, ps_description = False\<rparr>
                      \<lparr>st_data = text, st_error = err\<rparr> of
                 (ret, st, fp) \<Rightarrow> do { st' \<leftarrow> st; Some (mod_pkg r (\<lambda>_. ps_pkg st') y) }) }"

text \<open>Packages that are not installed and not wanted are not written.\<close>

definition status_skipped :: "pkg \<Rightarrow> bool" where
  "status_skipped p \<longleftrightarrow> p_state_status p = SS_NOT_INSTALLED \<and>
     (p_state_want p = SW_UNKNOWN \<or> p_state_want p = SW_DEINSTALL \<and> p_state_flag p \<noteq> SF_HOLD \<or> p_state_want p = SW_PURGE)"

definition EROFS :: int where "EROFS = 30"

definition open_status_files :: "'w env \<Rightarrow> 'w \<Rightarrow> int \<times> dest_ref list \<times> 'w" where
  "open_status_files e w =
     fold (\<lambda>d (ret, opened, w). case e_write_file e (pd_status_file_name (c_dest e d)) [] w of
             (err, w') \<Rightarrow> if err = 0 then (ret, opened @ [d], w')
                         else (if err \<noteq> EROFS then -1 else ret, opened, w'))
       (c_dest_list e) (0, [], w)"

definition status_entry ::
  "store \<Rightarrow> dest_ref list \<Rightarrow> pkg_ref \<Rightarrow> (dest_ref \<Rightarrow> string) \<Rightarrow> (dest_ref \<Rightarrow> string) option" where
  "status_entry s opened r texts =
     (let p = s_pkgs s r in
      if status_skipped p then Some texts
      else case p_dest p of
             None \<Rightarrow> Some texts
           | Some d \<Rightarrow> if d \<in> set opened
                      then map_option (\<lambda>t. texts(d := texts d @ t)) (pkg_print_status (apkg_name s) p)
                      else Some texts)"

text \<open>The destinations have different status files, so one file is complete when it is closed.\<close>

definition opkg_conf_write_status_files :: "'w env \<Rightarrow> 'w sys \<Rightarrow> (int \<times> 'w sys) option" where
  "opkg_conf_write_status_files e y =
     (if c_noaction e then Some (0, y)
      else case open_status_files e (y_world y) of
             (ret, opened, w) \<Rightarrow>
               do { texts \<leftarrow> foldM (status_entry (y_store y) opened) (pkg_hash_fetch_available [] (y_store y)) (\<lambda>d. []);
                    Some (ret, y\<lparr>y_world := fold (\<lambda>d w. snd (e_write_file e (pd_status_file_name (c_dest e d)) (texts d) w)) opened w\<rparr>) })"

section \<open>An environment for examples\<close>

text \<open>Nothing exists and every call fails or does nothing.\<close>

definition idle_env :: "'w env" where
  "idle_env = \<lparr>
     c_src = (\<lambda>s. \<lparr>sr_name = ''feed'', sr_value = ''http://src'', sr_extra_data = None, sr_gzip = False\<rparr>),
     c_pkg_src_list = [0], c_dist_src_list = [], c_dest = (\<lambda>d. \<lparr>pd_name = ''root'', pd_root_dir = ''/'', pd_opkg_dir = ''/o'', pd_lists_dir = ''/l'',
                   pd_info_dir = ''/i'', pd_status_file_name = ''/s''\<rparr>),
     c_dest_list = [0], c_default_dest = 0, c_restrict_to_default_dest = False, c_arch_list = [(''all'', ''1'')],
     c_tmp_dir = ''/tmp'', c_lists_dir = ''/lists'',
     c_autoremove = False, c_force_depends = False, c_force_maintainer = False, c_force_overwrite = False,
     c_force_downgrade = False, c_force_reinstall = False, c_force_space = False, c_force_removal_of_dependent_packages = False,
     c_force_removal_of_essential_packages = False, c_force_postinstall = False, c_force_remove = False,
     c_nodeps = False, c_offline_root = None, c_overlay_root = None, c_query_all = False, c_verbosity = 1, c_noaction = False,
     c_download_only = False, c_cache = None, c_http_proxy = None, c_ftp_proxy = None, c_pfm = 0,
     e_host = (False, False), e_file = (\<lambda>f w. None), e_stat = (\<lambda>f w. None),
     e_unlink = (\<lambda>f w. (1, w)), e_rmdir = (\<lambda>f w. (-1, w)), e_rename = (\<lambda>f g w. (1, w)),
     e_copy_file = (\<lambda>f g w. (-1, w)), e_write_file = (\<lambda>f t w. (1, w)), e_glob = (\<lambda>p w. None),
     e_system = (\<lambda>r c w. (-1, w)), e_mkstemp = (\<lambda>t w. (None, w)), e_fdopen = (\<lambda>w. False),
     e_mkdtemp = (\<lambda>t w. (None, w)), e_statvfs = (\<lambda>f w. None), e_getcwd = (\<lambda>w. None), e_time = (\<lambda>w. 0),
     e_deb_names = (\<lambda>f w. (-1, [])), e_deb_control = (\<lambda>f d w. (-1, w)), e_deb_data = (\<lambda>f d w. (-1, w)),
     e_xsystem = (\<lambda>argv w. (-1, w)), e_deb_control_file = (\<lambda>f w. (-1, [])), e_size = (\<lambda>f w. None),
     e_mkdir_hier = (\<lambda>d w. (-1, w)), e_readdir = (\<lambda>d w. None), e_executable = (\<lambda>f w. False),
     e_rm_r = (\<lambda>d w. w), e_getenv = (\<lambda>v w. None), e_setenv = (\<lambda>v t w. w),
     e_unzip = (\<lambda>f g w. (None, w)), e_fnmatch = (=), e_datadir = ''/usr/share''\<rparr>"

text \<open>Two installed packages, the second of which depends on the first.\<close>

definition example_pkg :: "string \<Rightarrow> apkg_ref \<Rightarrow> pkg" where
  "example_pkg n a = pkg_new\<lparr>p_name := Some n, p_version := Some ''1'', p_architecture := Some ''all'', p_dest := Some 0,
     p_provides_count := 1, p_provides := Some [a], p_parent := Some a, p_state_status := SS_INSTALLED,
     p_arch_priority := 1\<rparr>"

definition example_apkg :: "string \<Rightarrow> apkg_ref \<Rightarrow> apkg_ref list option \<Rightarrow> abstract_pkg" where
  "example_apkg n a dependers = abstract_pkg_new\<lparr>ap_name := Some n, ap_pkgs := Some [a], ap_state_status := SS_INSTALLED,
     ap_provided_by := [a], ap_depended_upon_by := dependers\<rparr>"

definition example_store :: store where
  "example_store = \<lparr>
     s_pkgs = (\<lambda>r. if r = 0 then example_pkg ''a'' 0
                   else (example_pkg ''b'' 1)\<lparr>p_depends_count := 1,
                     p_depends := [\<lparr>cd_type = DEPEND, cd_possibilities = [\<lparr>d_constraint = NONE, d_version = None, d_pkg = 0\<rparr>]\<rparr>]\<rparr>),
     s_apkgs = (\<lambda>a. if a = 0 then example_apkg ''a'' 0 (Some [1]) else if a = 1 then example_apkg ''b'' 1 None
                   else abstract_pkg_new),
     s_apkg_next = 2,
     s_hash = snd (hash_table_insert (snd (hash_table_insert (hash_table_init [] blank_table 4) ''a'' 0)) ''b'' 1)\<rparr>"

definition example_sys :: "'w \<Rightarrow> 'w sys" where
  "example_sys w = \<lparr>y_world = w, y_store = example_store,
     y_files = snd (hash_table_insert (hash_table_init [] blank_table 4) ''/bin/a'' 0),
     y_obs_files = hash_table_init [] blank_table 4, y_state_changed = 0, y_sigint_blocked = False\<rparr>"

lemmas example_defs = idle_env_def example_pkg_def example_apkg_def example_store_def example_sys_def

end
