(* ===== verification/Opkg_Remove.thy ===== *)
theory Opkg_Remove
  imports Opkg_World
begin

text \<open>
  The removal of packages (\<open>libopkg/opkg_remove.c\<close>). \<open>opkg_remove_pkg\<close> calls itself through the
  removal of dependent packages and of orphaned automatically installed ones; the model is given
  fuel, and the properties show how much is enough.
\<close>

section \<open>Dependents\<close>

definition dependers :: "store \<Rightarrow> apkg_ref \<Rightarrow> apkg_ref list" where
  "dependers s a = (case ap_depended_upon_by (s_apkgs s a) of None \<Rightarrow> [] | Some ds \<Rightarrow> ds)"

definition provided_apkgs :: "pkg \<Rightarrow> apkg_ref list option" where
  "provided_apkgs p = first_n (p_provides_count p) (case p_provides p of None \<Rightarrow> [] | Some ps \<Rightarrow> ps)"

definition collect_dependent :: "apkg_ref \<Rightarrow> apkg_ref list \<times> store \<Rightarrow> apkg_ref list \<times> store" where
  "collect_dependent a x =
     (case x of (dependents, s) \<Rightarrow>
        if ap_state_status (s_apkgs s a) = SS_INSTALLED \<and> ap_state_flag (s_apkgs s a) AND SF_MARKED = 0
        then (dependents @ [a], upd_apkg a (\<lambda>b. b\<lparr>ap_state_flag := ap_state_flag b OR SF_MARKED\<rparr>) s)
        else (dependents, s))"

text \<open>The number counts a dependent once for every provided package it depends on.\<close>

definition pkg_has_installed_dependents :: "pkg_ref \<Rightarrow> store \<Rightarrow> (nat \<times> apkg_ref list \<times> store) option" where
  "pkg_has_installed_dependents r s =
     do { provides \<leftarrow> provided_apkgs (s_pkgs s r);
          let ds = concat (map (dependers s) provides);
              n = length (filter (\<lambda>a. ap_state_status (s_apkgs s a) = SS_INSTALLED) ds);
              (dependents, s1) = fold collect_dependent ds ([], s);
              s2 = fold (\<lambda>a. upd_apkg a (\<lambda>b. b\<lparr>ap_state_flag := ap_state_flag b AND NOT SF_MARKED\<rparr>)) dependents s1
          in Some (n, dependents, s2) }"

type_synonym 'w remove_call = "pkg_ref \<Rightarrow> bool \<Rightarrow> 'w sys \<Rightarrow> (int \<times> 'w sys) option"

text \<open>The installed packages of a dependent that has not been encountered.\<close>

definition gather_dependent :: "store \<Rightarrow> apkg_ref \<Rightarrow> pkg_ref list \<Rightarrow> pkg_ref list option" where
  "gather_dependent s a vec =
     (if ap_dependencies_checked (s_apkgs s a) = 2 then Some vec
      else if ap_state_status (s_apkgs s a) = SS_INSTALLED
      then map_option (\<lambda>ps. fold (\<lambda>p vec. if p_state_status (s_pkgs s p) = SS_INSTALLED then pkg_vec_insert vec p else vec) ps vec)
             (ap_pkgs (s_apkgs s a))
      else Some vec)"

fun remove_each :: "'w remove_call \<Rightarrow> pkg_ref list \<Rightarrow> 'w sys \<Rightarrow> (int \<times> 'w sys) option" where
  "remove_each rec [] y = Some (0, y)"
| "remove_each rec (p # ps) y =
     do { (err, y1) \<leftarrow> rec p False y; if err \<noteq> 0 then Some (err, y1) else remove_each rec ps y1 }"

definition opkg_remove_dependent_pkgs ::
  "'w remove_call \<Rightarrow> pkg_ref \<Rightarrow> apkg_ref list \<Rightarrow> 'w sys \<Rightarrow> (int \<times> 'w sys) option" where
  "opkg_remove_dependent_pkgs rec r dependents y =
     (case p_parent (pkg_at y r) of
        None \<Rightarrow> Some (0, y)
      | Some ab_pkg \<Rightarrow>
          if ap_dependencies_checked (s_apkgs (y_store y) ab_pkg) = 2 then Some (0, y)
          else
            let y1 = mod_apkg ab_pkg (\<lambda>a. a\<lparr>ap_dependencies_checked := 2\<rparr>) y in
            do { vec \<leftarrow> foldM (gather_dependent (y_store y1)) dependents [];
                 remove_each rec vec y1 })"

section \<open>Orphans\<close>

text \<open>What the package may have pulled in: the alternatives of its hard and recommended dependencies.\<close>

definition pulled_in :: "pkg \<Rightarrow> apkg_ref list option" where
  "pulled_in p =
     map_option (\<lambda>cds. concat (map (\<lambda>cd. map d_pkg (cd_possibilities cd))
                    (filter (\<lambda>cd. cd_type cd \<in> {PREDEPEND, DEPEND, RECOMMEND}) cds)))
       (first_n (all_depends_count p) (p_depends p))"

definition fetch_installed :: "apkg_ref \<Rightarrow> 'w sys \<Rightarrow> pkg_ref option \<times> 'w sys" where
  "fetch_installed a y =
     (case pkg_hash_fetch_installed_by_name (apkg_name (y_store y) a) (y_store y) of
        (p, s) \<Rightarrow> (p, y\<lparr>y_store := s\<rparr>))"

fun orphan_loop :: "'w remove_call \<Rightarrow> apkg_ref list \<Rightarrow> int \<times> 'w sys \<Rightarrow> (int \<times> 'w sys) option" where
  "orphan_loop rec [] x = Some x"
| "orphan_loop rec (a # as) (err, y) =
     (case fetch_installed a y of
        (None, y1) \<Rightarrow> Some (-1, y1)
      | (Some p, y1) \<Rightarrow>
          if \<not> p_auto_installed (pkg_at y1 p) then orphan_loop rec as (err, y1)
          else do { (n_deps, dependents, s) \<leftarrow> pkg_has_installed_dependents p (y_store y1);
                    let y2 = y1\<lparr>y_store := s\<rparr> in
                    if n_deps = 0
                    then do { (rc, y3) \<leftarrow> rec p False y2;
                              orphan_loop rec as (if rc \<noteq> 0 then -1 else err, y3) }
                    else orphan_loop rec as (err, y2) })"

definition remove_autoinstalled :: "'w remove_call \<Rightarrow> pkg_ref \<Rightarrow> 'w sys \<Rightarrow> (int \<times> 'w sys) option" where
  "remove_autoinstalled rec r y =
     do { as \<leftarrow> pulled_in (pkg_at y r); orphan_loop rec as (0, y) }"

section \<open>Files\<close>

text \<open>One file of the list: the directories are kept for later.\<close>

definition remove_file :: "'w env \<Rightarrow> pkg_ref \<Rightarrow> string \<Rightarrow> string list \<times> 'w sys \<Rightarrow> string list \<times> 'w sys" where
  "remove_file e r file_name x =
     (case x of (dirs, y) \<Rightarrow>
        case file_hash_get_file_owner e file_name y of (owner, y1) \<Rightarrow>
        if owner \<noteq> Some r then (dirs, y1)
        else if file_is_dir e file_name (y_world y1) then (dirs @ [file_name], y1)
        else
          let rootdirlen = (case c_offline_root e of Some root \<Rightarrow> length root | None \<Rightarrow> 0);
              kept = (case pkg_get_conffile (Some (pkg_at y1 r)) (drop rootdirlen file_name) of
                        Some cf \<Rightarrow> conffile_has_been_modified e cf (y_world y1)
                      | None \<Rightarrow> False)
          in if kept then (dirs, y1)
             else (dirs, file_hash_remove e file_name (if c_noaction e then y1 else unlink e file_name y1)))"

fun rmdir_round :: "'w env \<Rightarrow> string list \<Rightarrow> 'w \<Rightarrow> string list \<times> 'w" where
  "rmdir_round e [] w = ([], w)"
| "rmdir_round e (d # ds) w =
     (case e_rmdir e d w of (rc, w1) \<Rightarrow>
        case rmdir_round e ds w1 of (rest, w2) \<Rightarrow> (if rc = 0 then rest else d # rest, w2))"

lemma rmdir_round_shorter: "length (fst (rmdir_round e ds w)) \<le> length ds"
  by (induction ds arbitrary: w) (auto split: prod.split simp: le_SucI intro: order_trans, (metis fst_conv le_SucI)+)

function rmdir_loop :: "'w env \<Rightarrow> string list \<Rightarrow> 'w \<Rightarrow> string list \<times> 'w" where
  "rmdir_loop e ds w =
     (case rmdir_round e ds w of (ds', w') \<Rightarrow> if length ds' < length ds then rmdir_loop e ds' w' else (ds', w'))"
  by pat_completeness auto
termination by (relation "measure (\<lambda>(e, ds, w). length ds)") (auto dest!: sym [of "(_, _)"])

declare rmdir_loop.simps [simp del]

definition remove_data_files_and_list :: "'w env \<Rightarrow> pkg_ref \<Rightarrow> 'w sys \<Rightarrow> 'w sys option" where
  "remove_data_files_and_list e r y =
     do { (fs, y1) \<leftarrow> pkg_get_installed_files e r y;
          case fs of
            None \<Rightarrow> Some y1
          | Some installed_files \<Rightarrow>
              (case fold (remove_file e r) installed_files ([], y1) of
                 (installed_dirs, y2) \<Rightarrow>
                   case (if c_noaction e then (installed_dirs, y_world y2) else rmdir_loop e installed_dirs (y_world y2)) of
                     (dirs, w) \<Rightarrow>
                       do { y3 \<leftarrow> pkg_remove_installed_files_list e r (pkg_free_installed_files r (y2\<lparr>y_world := w\<rparr>));
                            Some (fold (\<lambda>d y. snd (file_hash_get_file_owner e d y)) dirs y3) }) }"

definition remove_maintainer_scripts :: "'w env \<Rightarrow> pkg_ref \<Rightarrow> 'w sys \<Rightarrow> 'w sys option" where
  "remove_maintainer_scripts e r y =
     (if c_noaction e then Some y
      else do { d \<leftarrow> dest_of e (pkg_at y r);
                case e_glob e (pd_info_dir d @ ''/'' @ fmt_s (p_name (pkg_at y r)) @ ''.*'') (y_world y) of
                  None \<Rightarrow> Some y
                | Some paths \<Rightarrow> Some (fold (unlink e) paths y) })"

section \<open>\<open>opkg_remove_pkg\<close>\<close>

text \<open>The part that looks at dependents: the value to return, if the function ends here.\<close>

definition check_dependents ::
  "'w remove_call \<Rightarrow> 'w env \<Rightarrow> pkg_ref \<Rightarrow> 'w sys \<Rightarrow> (int option \<times> 'w sys) option" where
  "check_dependents rec e r y =
     (if c_force_depends e \<or> p_state_flag (pkg_at y r) AND SF_REPLACE \<noteq> 0 then Some (None, y)
      else do { (has_installed_dependents, dependents, s) \<leftarrow> pkg_has_installed_dependents r (y_store y);
                let y1 = y\<lparr>y_store := s\<rparr> in
                if has_installed_dependents = 0 then Some (None, y1)
                else if \<not> c_force_removal_of_dependent_packages e then Some (Some (-1), y1)
                else do { (err, y2) \<leftarrow> opkg_remove_dependent_pkgs rec r dependents y1;
                          Some (if err \<noteq> 0 then Some err else None, y2) } })"

definition mark_deinstall :: "pkg_ref \<Rightarrow> 'w sys \<Rightarrow> 'w sys" where
  "mark_deinstall r y =
     (mod_pkg r (\<lambda>p. (filelist_changed p)\<lparr>p_state_want := SW_DEINSTALL\<rparr>) y)
       \<lparr>y_state_changed := y_state_changed y + 1\<rparr>"

definition mark_removed :: "pkg_ref \<Rightarrow> apkg_ref \<Rightarrow> 'w sys \<Rightarrow> 'w sys" where
  "mark_removed r a y =
     mod_apkg a (\<lambda>b. b\<lparr>ap_state_status := SS_NOT_INSTALLED\<rparr>)
       (mod_pkg r (\<lambda>p. p\<lparr>p_state_status := SS_NOT_INSTALLED\<rparr>) y)"

definition remove_checked ::
  "'w remove_call \<Rightarrow> 'w env \<Rightarrow> pkg_ref \<Rightarrow> apkg_ref \<Rightarrow> bool \<Rightarrow> 'w sys \<Rightarrow> (int \<times> 'w sys) option" where
  "remove_checked rec e r parent_pkg from_upgrade y =
     (if \<not> from_upgrade \<and> p_dest (pkg_at y r) = None then None
      else
        case pkg_run_script e r ''prerm'' ''remove'' (mark_deinstall r y) of (rc, y1) \<Rightarrow>
        if rc \<noteq> 0 \<and> \<not> c_force_remove e then Some (-1, y1)
        else
          do { y2 \<leftarrow> remove_data_files_and_list e r y1;
               case pkg_run_script e r ''postrm'' ''remove'' y2 of (err, y3) \<Rightarrow>
                 do { y4 \<leftarrow> remove_maintainer_scripts e r y3;
                      let y5 = mark_removed r parent_pkg y4 in
                      if c_autoremove e
                      then do { (orphans, y6) \<leftarrow> remove_autoinstalled rec r y5;
                                Some (if orphans \<noteq> 0 then -1 else err, y6) }
                      else Some (err, y5) } })"

definition remove_body :: "'w env \<Rightarrow> 'w remove_call \<Rightarrow> 'w remove_call" where
  "remove_body e rec r from_upgrade y =
     (if p_essential (pkg_at y r) \<and> \<not> from_upgrade \<and> \<not> c_force_removal_of_essential_packages e then Some (-1, y)
      else case p_parent (pkg_at y r) of
             None \<Rightarrow> Some (0, y)
           | Some parent_pkg \<Rightarrow>
               do { (stop, y1) \<leftarrow> check_dependents rec e r y;
                    case stop of
                      Some err \<Rightarrow> Some (err, y1)
                    | None \<Rightarrow> remove_checked rec e r parent_pkg from_upgrade y1 })"

primrec opkg_remove_pkg :: "nat \<Rightarrow> 'w env \<Rightarrow> 'w remove_call" where
  "opkg_remove_pkg 0 e = (\<lambda>r from_upgrade y. None)"
| "opkg_remove_pkg (Suc fuel) e = remove_body e (opkg_remove_pkg fuel e)"

section \<open>What a removal changes in the store\<close>

text \<open>
  The packages lose their states and lists of files, the abstract packages their states and marks;
  the graph stays.
\<close>

definition pkg_sheds :: "pkg \<Rightarrow> pkg \<Rightarrow> bool" where
  "pkg_sheds p q \<longleftrightarrow>
     q = p\<lparr>p_state_want := p_state_want q, p_state_flag := p_state_flag q, p_state_status := p_state_status q,
           p_installed_files := p_installed_files q, p_installed_files_ref_cnt := p_installed_files_ref_cnt q\<rparr> \<and>
     (p_state_status q = p_state_status p \<or> p_state_status q = SS_NOT_INSTALLED) \<and>
     (p_state_want q = p_state_want p \<or> p_state_want q = SW_DEINSTALL)"

definition apkg_sheds :: "abstract_pkg \<Rightarrow> abstract_pkg \<Rightarrow> bool" where
  "apkg_sheds a b \<longleftrightarrow>
     b = a\<lparr>ap_dependencies_checked := ap_dependencies_checked b, ap_state_status := ap_state_status b,
           ap_state_flag := ap_state_flag b\<rparr> \<and>
     (ap_state_status b = ap_state_status a \<or> ap_state_status b = SS_NOT_INSTALLED) \<and>
     (ap_dependencies_checked b = ap_dependencies_checked a \<or> ap_dependencies_checked b = 2)"

definition sheds :: "store \<Rightarrow> store \<Rightarrow> bool" where
  "sheds s t \<longleftrightarrow> (\<forall>r. pkg_sheds (s_pkgs s r) (s_pkgs t r)) \<and> (\<forall>a. apkg_sheds (s_apkgs s a) (s_apkgs t a)) \<and>
     s_apkg_next t = s_apkg_next s \<and> ht_map (s_hash t) = ht_map (s_hash s)"

lemma pkg_sheds_refl [simp]: "pkg_sheds p p"
  by (simp add: pkg_sheds_def)

lemma apkg_sheds_refl [simp]: "apkg_sheds a a"
  by (simp add: apkg_sheds_def)

lemma sheds_refl [simp]: "sheds s s"
  by (simp add: sheds_def)

lemma pkg_sheds_trans:
  assumes "pkg_sheds p q" "pkg_sheds q r"
  shows "pkg_sheds p r"
proof -
  note 1 = assms(1) [unfolded pkg_sheds_def] and 2 = assms(2) [unfolded pkg_sheds_def]
  obtain w f st fs n where "q = p\<lparr>p_state_want := w, p_state_flag := f, p_state_status := st,
      p_installed_files := fs, p_installed_files_ref_cnt := n\<rparr>"
    using 1 by blast
  moreover obtain w' f' st' fs' n' where "r = q\<lparr>p_state_want := w', p_state_flag := f', p_state_status := st',
      p_installed_files := fs', p_installed_files_ref_cnt := n'\<rparr>"
    using 2 by blast
  ultimately show ?thesis using 1 2 by (auto simp: pkg_sheds_def)
qed

lemma apkg_sheds_trans:
  assumes "apkg_sheds a b" "apkg_sheds b c"
  shows "apkg_sheds a c"
proof -
  note 1 = assms(1) [unfolded apkg_sheds_def] and 2 = assms(2) [unfolded apkg_sheds_def]
  obtain d st f where "b = a\<lparr>ap_dependencies_checked := d, ap_state_status := st, ap_state_flag := f\<rparr>"
    using 1 by blast
  moreover obtain d' st' f' where "c = b\<lparr>ap_dependencies_checked := d', ap_state_status := st', ap_state_flag := f'\<rparr>"
    using 2 by blast
  ultimately show ?thesis using 1 2 by (auto simp: apkg_sheds_def)
qed

lemma sheds_trans: "sheds s t \<Longrightarrow> sheds t u \<Longrightarrow> sheds s u"
  unfolding sheds_def using pkg_sheds_trans apkg_sheds_trans by (metis (no_types, lifting))

text \<open>A dry run that never unpacks a package file leaves the world alone as well.\<close>

definition dry :: "'w env \<Rightarrow> store \<Rightarrow> bool" where
  "dry e s \<longleftrightarrow> c_noaction e \<and> (\<forall>r. p_local_filename (s_pkgs s r) = None)"

definition steps :: "'w env \<Rightarrow> 'w sys \<Rightarrow> 'w sys \<Rightarrow> bool" where
  "steps e y y' \<longleftrightarrow> sheds (y_store y) (y_store y') \<and> (dry e (y_store y) \<longrightarrow> y_world y' = y_world y)"

lemma sheds_local: "sheds s t \<Longrightarrow> p_local_filename (s_pkgs t r) = p_local_filename (s_pkgs s r)"
proof -
  assume "sheds s t"
  then obtain w f st fs n where "s_pkgs t r = s_pkgs s r\<lparr>p_state_want := w, p_state_flag := f, p_state_status := st,
      p_installed_files := fs, p_installed_files_ref_cnt := n\<rparr>"
    unfolding sheds_def pkg_sheds_def by blast
  then show ?thesis by simp
qed

lemma steps_refl [simp]: "steps e y y"
  by (simp add: steps_def)

lemma steps_trans: "steps e x y \<Longrightarrow> steps e y z \<Longrightarrow> steps e x z"
  unfolding steps_def using sheds_trans sheds_local by (metis dry_def)

lemma steps_store: "y_store y' = y_store y \<Longrightarrow> (c_noaction e \<longrightarrow> y_world y' = y_world y) \<Longrightarrow> steps e y y'"
  by (simp add: steps_def dry_def)

lemma mod_pkg_sheds: "pkg_sheds (s_pkgs s r) (f (s_pkgs s r)) \<Longrightarrow> sheds s (upd_pkg r f s)"
  by (simp add: sheds_def)

lemma mod_apkg_sheds: "apkg_sheds (s_apkgs s a) (f (s_apkgs s a)) \<Longrightarrow> sheds s (upd_apkg a f s)"
  by (simp add: sheds_def)

lemma mod_pkg_steps: "pkg_sheds (pkg_at y r) (f (pkg_at y r)) \<Longrightarrow> steps e y (mod_pkg r f y)"
  by (simp add: steps_def mod_pkg_def mod_pkg_sheds)

lemma mod_apkg_steps: "apkg_sheds (s_apkgs (y_store y) a) (f (s_apkgs (y_store y) a)) \<Longrightarrow> steps e y (mod_apkg a f y)"
  by (simp add: steps_def mod_apkg_def mod_apkg_sheds)

lemma mod_simps [simp]:
  "y_world (mod_pkg r f y) = y_world y" "y_files (mod_pkg r f y) = y_files y"
  "y_store (mod_pkg r f y) = upd_pkg r f (y_store y)"
  "y_world (mod_apkg a g y) = y_world y" "y_files (mod_apkg a g y) = y_files y"
  "y_store (mod_apkg a g y) = upd_apkg a g (y_store y)"
  "y_store (unlink e n y) = y_store y" "y_files (unlink e n y) = y_files y"
  by (simp_all add: mod_pkg_def mod_apkg_def unlink_def)

lemma set_installed_files_steps: "steps e y (set_installed_files r fs y)"
  by (simp add: set_installed_files_def mod_pkg_steps pkg_sheds_def)

lemma free_installed_files_steps: "steps e y (pkg_free_installed_files r y)"
  by (simp add: pkg_free_installed_files_def mod_pkg_steps pkg_sheds_def Let_def)

lemma files_from_package_steps:
  assumes "p_dest (pkg_at y r) = Some d"
  shows "\<exists>fs y'. files_from_package e r y = Some (fs, y') \<and> steps e y y'"
proof (cases "p_local_filename (pkg_at y r)")
  case None
  then show ?thesis by (simp add: files_from_package_def)
next
  case (Some f)
  then have nd: "\<not> dry e (y_store y)" by (auto simp: dry_def)
  have s: "sheds (y_store y) (y_store (set_installed_files r fs (y :: 'a sys)))" for fs y
    using set_installed_files_steps [of e y r fs] by (simp add: steps_def)
  show ?thesis
    using Some assms s [of "y\<lparr>y_world := _\<rparr>"] s [of "unlink e _ (y\<lparr>y_world := _\<rparr>)"]
    by (auto simp: files_from_package_def dest_of_def Let_def steps_def nd split: prod.split option.split)
qed

lemma files_from_list_steps:
  assumes "p_dest (pkg_at y r) = Some d"
  shows "\<exists>fs y'. files_from_list e r y = Some (fs, y') \<and> steps e y y'"
  using assms set_installed_files_steps by (auto simp: files_from_list_def dest_of_def Let_def split: option.split)

lemma get_installed_files_steps:
  assumes "p_dest (pkg_at y r) = Some d"
  shows "\<exists>fs y'. pkg_get_installed_files e r y = Some (fs, y') \<and> steps e y y'"
proof -
  define y1 where "y1 = mod_pkg r (\<lambda>p. p\<lparr>p_installed_files_ref_cnt := p_installed_files_ref_cnt p + 1\<rparr>) y"
  define y2 where "y2 = set_installed_files r (Some []) y1"
  have 1: "steps e y y1" by (simp add: y1_def mod_pkg_steps pkg_sheds_def)
  then have 2: "steps e y y2" using set_installed_files_steps steps_trans unfolding y2_def by blast
  have d: "p_dest (pkg_at y2 r) = Some d" using assms by (simp add: y2_def y1_def set_installed_files_def)
  obtain fs z where p: "files_from_package e r y2 = Some (fs, z)" "steps e y z"
    using files_from_package_steps [OF d] steps_trans [OF 2] by blast
  obtain fs' z' where l: "files_from_list e r y2 = Some (fs', z')" "steps e y z'"
    using files_from_list_steps [OF d] steps_trans [OF 2] by blast
  show ?thesis unfolding pkg_get_installed_files_def Let_def y1_def [symmetric] y2_def [symmetric]
    using 1 p l by (simp split: option.split)
qed

lemma run_script_steps: "steps e y (snd (pkg_run_script e r script args y))"
  by (rule steps_store) (simp_all add: pkg_run_script_def Let_def split: option.split prod.split)

lemma remove_file_steps: "steps e (snd x) (snd (remove_file e r f x))"
  by (rule steps_store)
    (auto simp: remove_file_def file_hash_get_file_owner_def file_hash_remove_def Let_def
      split: prod.splits option.splits)

lemma fold_steps:
  assumes "\<And>x z. steps e (p z) (p (f x z))"
  shows "steps e (p z) (p (fold f xs z))"
  by (induction xs arbitrary: z) (auto intro: steps_trans assms)

lemma remove_data_files_steps:
  assumes "p_dest (pkg_at y r) = Some d"
  shows "\<exists>y'. remove_data_files_and_list e r y = Some y' \<and> steps e y y'"
proof -
  obtain fs y1 where 1: "pkg_get_installed_files e r y = Some (fs, y1)" "steps e y y1"
    using get_installed_files_steps [OF assms] by blast
  show ?thesis
  proof (cases fs)
    case None
    then show ?thesis using 1 by (simp add: remove_data_files_and_list_def)
  next
    case (Some xs)
    obtain ds y2 where 2: "fold (remove_file e r) xs ([], y1) = (ds, y2)" by fastforce
    have s2: "steps e y y2"
      using steps_trans [OF 1(2)] fold_steps [of e snd "remove_file e r" "([], y1)" xs, OF remove_file_steps] 2 by simp
    obtain ds' w where 3: "(if c_noaction e then (ds, y_world y2) else rmdir_loop e ds (y_world y2)) = (ds', w)" by fastforce
    define y3 where "y3 = pkg_free_installed_files r (y2\<lparr>y_world := w\<rparr>)"
    have s3: "steps e y y3"
    proof -
      have "steps e y2 (y2\<lparr>y_world := w\<rparr>)" by (rule steps_store) (use 3 in auto)
      then show ?thesis using s2 free_installed_files_steps steps_trans unfolding y3_def by blast
    qed
    have "p_dest (pkg_at y3 r) = p_dest (pkg_at y r)"
    proof -
      have "pkg_sheds (pkg_at y r) (pkg_at y3 r)" using s3 by (simp add: steps_def sheds_def)
      then obtain w f st fs n where "pkg_at y3 r = pkg_at y r\<lparr>p_state_want := w, p_state_flag := f,
          p_state_status := st, p_installed_files := fs, p_installed_files_ref_cnt := n\<rparr>"
        unfolding pkg_sheds_def by blast
      then show ?thesis by simp
    qed
    moreover have "steps e y3 (if c_noaction e then y3 else unlink e f y3)" for f
      by (rule steps_store) simp_all
    ultimately obtain y4 where 4: "pkg_remove_installed_files_list e r y3 = Some y4" "steps e y3 y4"
      using assms by (auto simp: pkg_remove_installed_files_list_def dest_of_def)
    have 5: "steps e y4 (fold (\<lambda>d y. snd (file_hash_get_file_owner e d y)) ds' y4)"
      using fold_steps [of e "\<lambda>y. y" "\<lambda>d y. snd (file_hash_get_file_owner e d y)" y4 ds']
      by (simp add: steps_store file_hash_get_file_owner_def split: prod.split)
    have "steps e y (fold (\<lambda>d y. snd (file_hash_get_file_owner e d y)) ds' y4)"
      by (rule steps_trans [OF s3 steps_trans [OF 4(2) 5]])
    then show ?thesis
      using 1(1) 2 3 4(1) Some unfolding remove_data_files_and_list_def y3_def by simp
  qed
qed

lemma maintainer_scripts_steps:
  assumes "p_dest (pkg_at y r) = Some d"
  shows "\<exists>y'. remove_maintainer_scripts e r y = Some y' \<and> steps e y y'"
proof (cases "c_noaction e")
  case False
  have "steps e y (fold (unlink e) paths y)" for paths
    using fold_steps [of e "\<lambda>y. y" "unlink e" y paths] False by (simp add: steps_store)
  then show ?thesis using assms False by (auto simp: remove_maintainer_scripts_def dest_of_def split: option.split)
qed (simp add: remove_maintainer_scripts_def)

section \<open>Stores a removal can work on\<close>

definition provides_list :: "pkg \<Rightarrow> apkg_ref list" where
  "provides_list p = (case p_provides p of None \<Rightarrow> [] | Some ps \<Rightarrow> ps)"

definition removable_pkg :: "store \<Rightarrow> pkg \<Rightarrow> bool" where
  "removable_pkg s p \<longleftrightarrow> p_dest p \<noteq> None \<and> p_provides_count p \<le> length (provides_list p) \<and>
     all_depends_count p \<le> length (p_depends p) \<and> (\<exists>b < s_apkg_next s. p_parent p = Some b)"

definition removable :: "store \<Rightarrow> pkg_ref set \<Rightarrow> bool" where
  "removable s U \<longleftrightarrow> finite U \<and> (\<forall>p \<in> U. removable_pkg s (s_pkgs s p)) \<and> (\<forall>a. set (apkg_pkgs s a) \<subseteq> U) \<and>
     (\<forall>a. ap_state_status (s_apkgs s a) = SS_INSTALLED \<longrightarrow> ap_pkgs (s_apkgs s a) \<noteq> None)"

lemma pkg_sheds_fields:
  assumes "pkg_sheds p q"
  shows "p_dest q = p_dest p" "p_provides_count q = p_provides_count p" "p_provides q = p_provides p"
    "p_depends q = p_depends p" "all_depends_count q = all_depends_count p" "p_parent q = p_parent p"
    "p_essential q = p_essential p" "p_auto_installed q = p_auto_installed p"
    "is_installed q \<Longrightarrow> is_installed p"
proof -
  obtain w f st fs n where q: "q = p\<lparr>p_state_want := w, p_state_flag := f, p_state_status := st,
      p_installed_files := fs, p_installed_files_ref_cnt := n\<rparr>"
    using assms unfolding pkg_sheds_def by blast
  show "p_dest q = p_dest p" "p_provides_count q = p_provides_count p" "p_provides q = p_provides p"
    "p_depends q = p_depends p" "all_depends_count q = all_depends_count p" "p_parent q = p_parent p"
    "p_essential q = p_essential p" "p_auto_installed q = p_auto_installed p"
    by (simp_all add: q all_depends_count_def)
  have "p_state_status q = p_state_status p \<or> p_state_status q = SS_NOT_INSTALLED"
    using assms by (simp add: pkg_sheds_def)
  then show "is_installed q \<Longrightarrow> is_installed p" by (auto simp: is_installed_def)
qed

lemma apkg_sheds_fields:
  assumes "apkg_sheds a b"
  shows "ap_pkgs b = ap_pkgs a" "ap_name b = ap_name a" "ap_depended_upon_by b = ap_depended_upon_by a"
    "ap_provided_by b = ap_provided_by a" "ap_state_status b = SS_INSTALLED \<Longrightarrow> ap_state_status a = SS_INSTALLED"
    "ap_dependencies_checked b \<noteq> 2 \<Longrightarrow> ap_dependencies_checked a \<noteq> 2"
proof -
  obtain d st f where b: "b = a\<lparr>ap_dependencies_checked := d, ap_state_status := st, ap_state_flag := f\<rparr>"
    using assms unfolding apkg_sheds_def by blast
  show "ap_pkgs b = ap_pkgs a" "ap_name b = ap_name a" "ap_depended_upon_by b = ap_depended_upon_by a"
    "ap_provided_by b = ap_provided_by a" by (simp_all add: b)
  show "ap_state_status b = SS_INSTALLED \<Longrightarrow> ap_state_status a = SS_INSTALLED"
    "ap_dependencies_checked b \<noteq> 2 \<Longrightarrow> ap_dependencies_checked a \<noteq> 2"
    using assms by (auto simp: apkg_sheds_def)
qed

lemma sheds_pkg: "sheds s t \<Longrightarrow> pkg_sheds (s_pkgs s r) (s_pkgs t r)"
  and sheds_apkg: "sheds s t \<Longrightarrow> apkg_sheds (s_apkgs s a) (s_apkgs t a)"
  and sheds_next: "sheds s t \<Longrightarrow> s_apkg_next t = s_apkg_next s"
  by (simp_all add: sheds_def)

lemma sheds_apkg_pkgs: "sheds s t \<Longrightarrow> apkg_pkgs t = apkg_pkgs s"
  by (rule ext) (simp add: apkg_pkgs_def apkg_sheds_fields(1) [OF sheds_apkg])

lemma sheds_removable:
  assumes "sheds s t" "removable s U"
  shows "removable t U"
  unfolding removable_def
proof (intro conjI ballI allI impI)
  show "finite U" using assms(2) by (simp add: removable_def)
  show "removable_pkg t (s_pkgs t p)" if "p \<in> U" for p
    using assms(2) that pkg_sheds_fields [OF sheds_pkg [OF assms(1), of p]] sheds_next [OF assms(1)]
    by (simp add: removable_def removable_pkg_def provides_list_def)
  show "set (apkg_pkgs t a) \<subseteq> U" for a
    using assms(2) by (simp add: removable_def sheds_apkg_pkgs [OF assms(1)])
  show "ap_pkgs (s_apkgs t a) \<noteq> None" if "ap_state_status (s_apkgs t a) = SS_INSTALLED" for a
    using assms(2) that apkg_sheds_fields(1,5) [OF sheds_apkg [OF assms(1), of a]] by (simp add: removable_def)
qed

text \<open>What there is left to do: abstract packages not encountered yet and installed packages.\<close>

definition todo :: "store \<Rightarrow> pkg_ref set \<Rightarrow> nat" where
  "todo s U = card {a. a < s_apkg_next s \<and> ap_dependencies_checked (s_apkgs s a) \<noteq> 2} +
     card {p \<in> U. is_installed (s_pkgs s p)}"

lemma todo_antimono:
  assumes "sheds s t" "finite U"
  shows "todo t U \<le> todo s U"
  unfolding todo_def sheds_next [OF assms(1)]
  using pkg_sheds_fields(9) [OF sheds_pkg [OF assms(1)]] apkg_sheds_fields(6) [OF sheds_apkg [OF assms(1)]] assms(2)
  by (intro add_mono card_mono) auto

lemma todo_checked:
  assumes "a < s_apkg_next s" "ap_dependencies_checked (s_apkgs s a) \<noteq> 2"
  shows "todo (upd_apkg a (\<lambda>b. b\<lparr>ap_dependencies_checked := 2\<rparr>) s) U < todo s U"
  unfolding todo_def using assms by (intro add_less_le_mono psubset_card_mono) auto

lemma todo_removed:
  assumes "sheds s t" "finite U" "r \<in> U" "is_installed (s_pkgs s r)" "\<not> is_installed (s_pkgs t r)"
  shows "todo t U < todo s U"
  unfolding todo_def sheds_next [OF assms(1)]
proof (intro add_le_less_mono psubset_card_mono card_mono)
  show "{p \<in> U. is_installed (s_pkgs t p)} \<subset> {p \<in> U. is_installed (s_pkgs s p)}"
    using pkg_sheds_fields(9) [OF sheds_pkg [OF assms(1)]] assms(3-5) by auto
qed (use apkg_sheds_fields(6) [OF sheds_apkg [OF assms(1)]] assms(2) in auto)

section \<open>The parts of the function return\<close>

lemma first_n_total: "n \<le> length xs \<Longrightarrow> first_n n xs = Some (take n xs)"
  by (simp add: first_n_def)

lemma vec_fetch_store:
  assumes "pkg_vec_fetch_by_name n s = (v, t)"
  shows "\<exists>h. t = s\<lparr>s_hash := h\<rparr> \<and> ht_map h = ht_map (s_hash s)"
    and "v = Some vec \<Longrightarrow> \<exists>b. apkg_pkgs t b = vec"
proof -
  obtain a h where h: "hash_table_get (s_hash s) n = (a, h)" by fastforce
  then have m: "ht_map h = ht_map (s_hash s)" using hash_table_get_same [of "s_hash s" n] by simp
  have t: "t = s\<lparr>s_hash := h\<rparr>" using assms h
    by (auto simp: pkg_vec_fetch_by_name_def abstract_pkg_fetch_by_name_def split: option.splits)
  then show "\<exists>h. t = s\<lparr>s_hash := h\<rparr> \<and> ht_map h = ht_map (s_hash s)" using m by blast
  show "\<exists>b. apkg_pkgs t b = vec" if "v = Some vec"
  proof -
    have "\<exists>b. ap_pkgs (s_apkgs s b) = Some vec" using assms h that
      by (auto simp: pkg_vec_fetch_by_name_def abstract_pkg_fetch_by_name_def split: option.splits)
    then obtain b where "ap_pkgs (s_apkgs s b) = Some vec" by blast
    then have "apkg_pkgs t b = vec" by (simp add: apkg_pkgs_def t)
    then show ?thesis by blast
  qed
qed

lemma fetch_installed_steps:
  assumes "fetch_installed a y = (po, y1)"
  shows "steps e y y1" "y_world y1 = y_world y"
    and "po = Some p \<Longrightarrow> is_installed (pkg_at y1 p) \<and> (\<exists>b. p \<in> set (apkg_pkgs (y_store y1) b))"
proof -
  obtain v t where v: "pkg_vec_fetch_by_name (apkg_name (y_store y) a) (y_store y) = (v, t)" by fastforce
  have y1: "y1 = y\<lparr>y_store := t\<rparr>"
    using assms v by (auto simp: fetch_installed_def pkg_hash_fetch_installed_by_name_def split: option.splits)
  then show "steps e y y1" "y_world y1 = y_world y"
    using vec_fetch_store(1) [OF v] by (auto simp: steps_def sheds_def)
  show "is_installed (pkg_at y1 p) \<and> (\<exists>b. p \<in> set (apkg_pkgs (y_store y1) b))" if "po = Some p"
    using assms v that vec_fetch_store(2) [OF v] unfolding y1
    by (auto simp: fetch_installed_def pkg_hash_fetch_installed_by_name_def find_Some_iff split: option.splits)
      (metis nth_mem)
qed

lemma sheds_fold:
  assumes "\<And>x z. sheds (p z) (p (f x z))"
  shows "sheds (p z) (p (fold f xs z))"
  by (induction xs arbitrary: z) (auto intro: sheds_trans assms)

lemma has_installed_dependents_steps:
  assumes "removable_pkg t (s_pkgs s r)"
  shows "\<exists>n ds s'. pkg_has_installed_dependents r s = Some (n, ds, s') \<and> sheds s s' \<and> s_pkgs s' = s_pkgs s"
proof -
  obtain ps where ps: "provided_apkgs (s_pkgs s r) = Some ps"
    using assms by (simp add: removable_pkg_def provided_apkgs_def provides_list_def first_n_total)
  have c: "sheds (snd z) (snd (collect_dependent a z))" for a z
    by (auto simp: collect_dependent_def mod_apkg_sheds apkg_sheds_def split: prod.split)
  obtain ds s1 where 1: "fold collect_dependent (concat (map (dependers s) ps)) ([], s) = (ds, s1)" by fastforce
  have s1: "sheds s s1" using sheds_fold [of snd collect_dependent "([], s)", OF c] 1 by (metis snd_conv)
  have "sheds s1 (fold (\<lambda>a. upd_apkg a (\<lambda>b. b\<lparr>ap_state_flag := ap_state_flag b AND NOT SF_MARKED\<rparr>)) ds s1)"
    by (rule sheds_fold [where p = "\<lambda>z. z"]) (simp add: mod_apkg_sheds apkg_sheds_def)
  moreover have "s_pkgs (snd (fold collect_dependent as z)) = s_pkgs (snd z)" for as z
    by (induction as arbitrary: z) (auto simp: collect_dependent_def split: prod.split)
  then have "s_pkgs s1 = s_pkgs s" using 1 by (metis snd_conv)
  moreover have "s_pkgs (fold (\<lambda>a. upd_apkg a (f a)) as z) = s_pkgs z" for f as z
    by (induction as arbitrary: z) simp_all
  ultimately show ?thesis using ps 1 s1 sheds_trans by (fastforce simp: pkg_has_installed_dependents_def)
qed

lemma gather_total:
  assumes "removable s U" "set vec \<subseteq> U"
  shows "\<exists>vec'. foldM (gather_dependent s) as vec = Some vec' \<and> set vec' \<subseteq> U"
proof (rule foldM_invariant [where I = "\<lambda>v. set v \<subseteq> U"])
  fix a v assume "set v \<subseteq> U"
  have f: "set (fold (\<lambda>p vec. if p_state_status (s_pkgs s p) = SS_INSTALLED then pkg_vec_insert vec p else vec) ps v)
      \<subseteq> set v \<union> set ps" for ps v
  proof (induction ps arbitrary: v)
    case (Cons p ps)
    from Cons [of v] Cons [of "v @ [p]"] show ?case by (auto simp: pkg_vec_insert_def)
  qed simp
  have "set (apkg_pkgs s a) \<subseteq> U" using assms(1) by (simp add: removable_def)
  moreover have "ap_state_status (s_apkgs s a) = SS_INSTALLED \<Longrightarrow> \<exists>ps. ap_pkgs (s_apkgs s a) = Some ps \<and> apkg_pkgs s a = ps"
    using assms(1) by (auto simp: removable_def apkg_pkgs_def)
  ultimately show "\<exists>v'. gather_dependent s a v = Some v' \<and> set v' \<subseteq> U"
    using \<open>set v \<subseteq> U\<close> f by (auto simp: gather_dependent_def) blast
qed (rule assms(2))

section \<open>One level of the recursion\<close>

definition effort :: "pkg_ref set \<Rightarrow> pkg_ref \<Rightarrow> 'w sys \<Rightarrow> nat" where
  "effort U r y = 2 * todo (y_store y) U + (if is_installed (pkg_at y r) then 0 else 1)"

definition remove_ok :: "'w env \<Rightarrow> pkg_ref set \<Rightarrow> nat \<Rightarrow> 'w remove_call \<Rightarrow> bool" where
  "remove_ok e U n rec \<longleftrightarrow>
     (\<forall>r up y. r \<in> U \<longrightarrow> removable (y_store y) U \<longrightarrow> effort U r y < n \<longrightarrow>
        (\<exists>err y'. rec r up y = Some (err, y') \<and> steps e y y' \<and>
           (err = 0 \<longrightarrow> p_state_status (pkg_at y' r) = SS_NOT_INSTALLED \<and> p_state_want (pkg_at y' r) = SW_DEINSTALL)))"

lemma remove_call:
  assumes "remove_ok e U n rec" "r \<in> U" "removable (y_store y) U" "effort U r y < n"
  obtains err y' where "rec r up y = Some (err, y')" "steps e y y'"
  using assms unfolding remove_ok_def by blast

lemma steps_removable: "steps e y y' \<Longrightarrow> removable (y_store y) U \<Longrightarrow> removable (y_store y') U"
  using sheds_removable by (auto simp: steps_def)

lemma steps_todo: "steps e y y' \<Longrightarrow> finite U \<Longrightarrow> todo (y_store y') U \<le> todo (y_store y) U"
  using todo_antimono by (auto simp: steps_def)

lemma remove_each_steps:
  assumes "remove_ok e U n rec" "removable (y_store y) U" "2 * todo (y_store y) U + 1 < n" "set ps \<subseteq> U"
  shows "\<exists>err y'. remove_each rec ps y = Some (err, y') \<and> steps e y y'"
  using assms(2-4)
proof (induction ps arbitrary: y)
  case (Cons p ps)
  have fin: "finite U" using Cons.prems(1) by (simp add: removable_def)
  have "effort U p y < n" using Cons.prems(2) by (auto simp: effort_def)
  then obtain err y1 where 1: "rec p False y = Some (err, y1)" "steps e y y1"
    using remove_call [OF assms(1), of p y False] Cons.prems by auto
  obtain err' y2 where "remove_each rec ps y1 = Some (err', y2)" "steps e y1 y2"
    using Cons.IH [of y1] steps_removable [OF 1(2)] steps_todo [OF 1(2) fin] Cons.prems by auto
  then show ?case using 1 steps_trans by fastforce
qed simp

lemma removable_member: "removable s U \<Longrightarrow> r \<in> U \<Longrightarrow> removable_pkg s (s_pkgs s r)"
  and removable_finite: "removable s U \<Longrightarrow> finite U"
  by (simp_all add: removable_def)

lemma removable_parent:
  assumes "removable s U" "r \<in> U"
  obtains b where "p_parent (s_pkgs s r) = Some b" "b < s_apkg_next s"
  using removable_member [OF assms] by (auto simp: removable_pkg_def)

lemma remove_dependents_steps:
  assumes "remove_ok e U n rec" "removable (y_store y) U" "r \<in> U" "effort U r y < Suc n"
  shows "\<exists>err y'. opkg_remove_dependent_pkgs rec r ds y = Some (err, y') \<and> steps e y y'"
proof -
  obtain b where b: "p_parent (pkg_at y r) = Some b" "b < s_apkg_next (y_store y)"
    using removable_parent [OF assms(2,3)] by blast
  show ?thesis
  proof (cases "ap_dependencies_checked (s_apkgs (y_store y) b) = 2")
    case True
    then show ?thesis using b by (simp add: opkg_remove_dependent_pkgs_def)
  next
    case False
    define y1 where "y1 = mod_apkg b (\<lambda>a. a\<lparr>ap_dependencies_checked := 2\<rparr>) y"
    have s1: "steps e y y1" by (simp add: y1_def mod_apkg_steps apkg_sheds_def)
    have t: "todo (y_store y1) U < todo (y_store y) U" using todo_checked [OF b(2) False] by (simp add: y1_def)
    obtain vec where v: "foldM (gather_dependent (y_store y1)) ds [] = Some vec" "set vec \<subseteq> U"
      using gather_total [OF steps_removable [OF s1 assms(2)], of "[]" ds] by auto
    have "2 * todo (y_store y1) U + 1 < n" using t assms(4) by (auto simp: effort_def split: if_splits)
    then obtain err y' where "remove_each rec vec y1 = Some (err, y')" "steps e y1 y'"
      using remove_each_steps [OF assms(1) steps_removable [OF s1 assms(2)] _ v(2)] by blast
    then show ?thesis using b(1) False v(1) steps_trans [OF s1]
      by (auto simp: opkg_remove_dependent_pkgs_def Let_def simp flip: y1_def)
  qed
qed

lemma steps_with_store: "sheds (y_store y) s \<Longrightarrow> steps e y (y\<lparr>y_store := s\<rparr>)"
  by (simp add: steps_def)

lemma orphan_loop_steps:
  assumes "remove_ok e U n rec" "removable (y_store y) U" "2 * todo (y_store y) U < n"
  shows "\<exists>err' y'. orphan_loop rec as (err, y) = Some (err', y') \<and> steps e y y'"
  using assms(2,3)
proof (induction as arbitrary: err y)
  case (Cons a as)
  have fin: "finite U" using Cons.prems(1) by (rule removable_finite)
  obtain po y1 where 1: "fetch_installed a y = (po, y1)" by fastforce
  have s1: "steps e y y1" by (rule fetch_installed_steps(1) [OF 1])
  have step: "\<exists>err' y'. orphan_loop rec as (c, z) = Some (err', y') \<and> steps e y y'" if "steps e y z" for c z
    using Cons.IH [OF steps_removable [OF that Cons.prems(1)]] steps_todo [OF that fin] Cons.prems(2) steps_trans [OF that]
    by (metis le_less_trans mult_le_mono2)
  show ?case
  proof (cases "\<exists>p. po = Some p \<and> p_auto_installed (pkg_at y1 p)")
    case False
    then show ?thesis using 1 s1 step [OF s1] by (cases po) auto
  next
    case True
    then obtain p where p: "po = Some p" "p_auto_installed (pkg_at y1 p)" by blast
    have r1: "removable (y_store y1) U" by (rule steps_removable [OF s1 Cons.prems(1)])
    have i: "is_installed (pkg_at y1 p)" "p \<in> U"
      using fetch_installed_steps(3) [OF 1 p(1)] r1 by (auto simp: removable_def)
    obtain m ds s where d: "pkg_has_installed_dependents p (y_store y1) = Some (m, ds, s)" "sheds (y_store y1) s"
        "s_pkgs s = s_pkgs (y_store y1)"
      using has_installed_dependents_steps [OF removable_member [OF r1 i(2)]] by blast
    let ?y2 = "y1\<lparr>y_store := s\<rparr>"
    have s2: "steps e y ?y2" by (rule steps_trans [OF s1 steps_with_store [OF d(2)]])
    have "effort U p ?y2 < n" using i(1) d(3) steps_todo [OF s2 fin] Cons.prems(2) by (simp add: effort_def)
    then obtain rc y3 where "rec p False ?y2 = Some (rc, y3)" "steps e ?y2 y3"
      using remove_call [OF assms(1) i(2) steps_removable [OF s2 Cons.prems(1)]] by blast
    then show ?thesis using 1 p d(1) step [OF s2] step [OF steps_trans [OF s2]] by (auto simp: Let_def)
  qed
qed simp

lemma check_dependents_steps:
  assumes "remove_ok e U n rec" "removable (y_store y) U" "r \<in> U" "effort U r y < Suc n"
  shows "\<exists>stop y'. check_dependents rec e r y = Some (stop, y') \<and> steps e y y' \<and> stop \<noteq> Some 0"
proof -
  obtain m ds s where d: "pkg_has_installed_dependents r (y_store y) = Some (m, ds, s)" "sheds (y_store y) s"
      "s_pkgs s = s_pkgs (y_store y)"
    using has_installed_dependents_steps [OF removable_member [OF assms(2,3)]] by blast
  let ?y = "y\<lparr>y_store := s\<rparr>"
  have s1: "steps e y ?y" by (rule steps_with_store [OF d(2)])
  have "effort U r ?y < Suc n"
    using assms(4) d(3) steps_todo [OF s1 removable_finite [OF assms(2)]] by (simp add: effort_def split: if_splits)
  then obtain err y' where "opkg_remove_dependent_pkgs rec r ds ?y = Some (err, y')" "steps e ?y y'"
    using remove_dependents_steps [OF assms(1) steps_removable [OF s1 assms(2)] assms(3)] by blast
  then show ?thesis using d(1) s1 steps_trans [OF s1] by (auto simp: check_dependents_def Let_def)
qed

definition removed :: "pkg_ref \<Rightarrow> 'w sys \<Rightarrow> bool" where
  "removed r y \<longleftrightarrow> p_state_status (pkg_at y r) = SS_NOT_INSTALLED \<and> p_state_want (pkg_at y r) = SW_DEINSTALL"

lemma steps_removed: "steps e y y' \<Longrightarrow> removed r y \<Longrightarrow> removed r y'"
  using sheds_pkg [of "y_store y" "y_store y'" r] by (auto simp: steps_def removed_def pkg_sheds_def)

lemma steps_dest: "steps e y y' \<Longrightarrow> p_dest (pkg_at y' r) = p_dest (pkg_at y r)"
  using pkg_sheds_fields(1) [OF sheds_pkg] by (auto simp: steps_def)

text \<open>From the scripts to the marks: everything before the orphans.\<close>

lemma remove_files_steps:
  assumes "p_dest (pkg_at y r) = Some d"
  obtains y2 y4 where "remove_data_files_and_list e r (snd (pkg_run_script e r ''prerm'' ''remove'' (mark_deinstall r y))) = Some y2"
    "remove_maintainer_scripts e r (snd (pkg_run_script e r ''postrm'' ''remove'' y2)) = Some y4"
    "steps e y (mark_removed r a y4)" "removed r (mark_removed r a y4)"
    "steps e y (snd (pkg_run_script e r ''prerm'' ''remove'' (mark_deinstall r y)))"
proof -
  let ?y0 = "mark_deinstall r y" and ?script = "\<lambda>s y. snd (pkg_run_script e r s ''remove'' y)"
  have w0: "p_state_want (pkg_at ?y0 r) = SW_DEINSTALL" by (simp add: mark_deinstall_def)
  have m: "steps e y ?y0"
    by (rule steps_trans [OF mod_pkg_steps [of y r "\<lambda>p. (filelist_changed p)\<lparr>p_state_want := SW_DEINSTALL\<rparr>"]])
      (simp_all add: mark_deinstall_def steps_store filelist_changed_def pkg_sheds_def)
  have s1: "steps e ?y0 (?script ''prerm'' ?y0)" by (rule run_script_steps)
  obtain y2 where 2: "remove_data_files_and_list e r (?script ''prerm'' ?y0) = Some y2" "steps e (?script ''prerm'' ?y0) y2"
    using remove_data_files_steps [of _ r d e] steps_dest [OF steps_trans [OF m s1]] assms by metis
  have s3: "steps e ?y0 (?script ''postrm'' y2)"
    by (rule steps_trans [OF steps_trans [OF s1 2(2)] run_script_steps])
  obtain y4 where 4: "remove_maintainer_scripts e r (?script ''postrm'' y2) = Some y4" "steps e (?script ''postrm'' y2) y4"
    using maintainer_scripts_steps [of _ r d e] steps_dest [OF steps_trans [OF m s3]] assms by metis
  have s4: "steps e ?y0 y4" by (rule steps_trans [OF s3 4(2)])
  then have w4: "p_state_want (pkg_at y4 r) = SW_DEINSTALL"
    using w0 sheds_pkg [of "y_store ?y0" "y_store y4" r] by (auto simp: steps_def pkg_sheds_def)
  have "steps e y4 (mark_removed r a y4)" unfolding mark_removed_def
    by (rule steps_trans [OF mod_pkg_steps mod_apkg_steps]) (simp_all add: pkg_sheds_def apkg_sheds_def)
  then have "steps e y (mark_removed r a y4)" using m s4 steps_trans by blast
  moreover have "removed r (mark_removed r a y4)" using w4 by (simp add: removed_def mark_removed_def)
  ultimately show ?thesis using that 2(1) 4(1) steps_trans [OF m s1] by blast
qed

lemma remove_checked_steps:
  assumes ok: "remove_ok e U n rec" and y0: "removable (y_store y0) U" "r \<in> U" "effort U r y0 < Suc n"
    and y: "steps e y0 y"
  shows "\<exists>err y'. remove_checked rec e r b up y = Some (err, y') \<and> steps e y0 y' \<and> (err = 0 \<longrightarrow> removed r y')"
proof -
  have ry: "removable (y_store y) U" by (rule steps_removable [OF y y0(1)])
  have fin: "finite U" by (rule removable_finite [OF ry])
  obtain d where d: "p_dest (pkg_at y r) = Some d"
    using removable_member [OF ry y0(2)] by (auto simp: removable_pkg_def)
  obtain y2 y4 where f: "remove_data_files_and_list e r (snd (pkg_run_script e r ''prerm'' ''remove'' (mark_deinstall r y))) = Some y2"
      "remove_maintainer_scripts e r (snd (pkg_run_script e r ''postrm'' ''remove'' y2)) = Some y4"
      "steps e y (mark_removed r b y4)" "removed r (mark_removed r b y4)"
      "steps e y (snd (pkg_run_script e r ''prerm'' ''remove'' (mark_deinstall r y)))"
    using remove_files_steps [OF d, of e b] by blast
  let ?y5 = "mark_removed r b y4"
  have s5: "steps e y0 ?y5" by (rule steps_trans [OF y f(3)])
  have r5: "removable (y_store ?y5) U" by (rule steps_removable [OF s5 y0(1)])
  have "\<not> is_installed (pkg_at ?y5 r)" using f(4) by (simp add: removed_def is_installed_def)
  then have "2 * todo (y_store ?y5) U < n"
    using todo_removed [of "y_store y0" "y_store ?y5" U r] steps_todo [OF s5 fin] s5 fin y0(2,3)
    by (auto simp: effort_def steps_def split: if_splits)
  moreover obtain as where as: "pulled_in (pkg_at ?y5 r) = Some as"
    using removable_member [OF r5 y0(2)] by (simp add: pulled_in_def removable_pkg_def first_n_total)
  ultimately obtain err' y6 where o: "remove_autoinstalled rec r ?y5 = Some (err', y6)" "steps e ?y5 y6"
    using orphan_loop_steps [OF ok r5] by (fastforce simp: remove_autoinstalled_def)
  have "steps e y0 y6" "removed r y6" by (rule steps_trans [OF s5 o(2)], rule steps_removed [OF o(2) f(4)])
  then show ?thesis
    using f(1,2,4,5) s5 o(1) d steps_trans [OF y f(5)]
    by (auto simp: remove_checked_def Let_def split: prod.split)
qed

lemma remove_body_ok:
  assumes "remove_ok e U n rec"
  shows "remove_ok e U (Suc n) (remove_body e rec)"
  unfolding remove_ok_def
proof (intro allI impI)
  fix r up and y :: "'a sys"
  assume y: "r \<in> U" "removable (y_store y) U" "effort U r y < Suc n"
  obtain b where b: "p_parent (pkg_at y r) = Some b" using removable_parent [OF y(2,1)] by blast
  obtain stop y1 where 1: "check_dependents rec e r y = Some (stop, y1)" "steps e y y1" "stop \<noteq> Some 0"
    using check_dependents_steps [OF assms y(2,1,3)] by blast
  obtain err y2 where 2: "remove_checked rec e r b up y1 = Some (err, y2)" "steps e y y2" "err = 0 \<longrightarrow> removed r y2"
    using remove_checked_steps [OF assms y(2,1,3) 1(2)] by blast
  show "\<exists>err y'. remove_body e rec r up y = Some (err, y') \<and> steps e y y' \<and>
      (err = 0 \<longrightarrow> p_state_status (pkg_at y' r) = SS_NOT_INSTALLED \<and> p_state_want (pkg_at y' r) = SW_DEINSTALL)"
    using b 1 2 by (cases stop) (auto simp: remove_body_def removed_def)
qed

lemma opkg_remove_pkg_ok: "remove_ok e U n (opkg_remove_pkg n e)"
proof (induction n)
  case 0
  then show ?case by (simp add: remove_ok_def)
next
  case (Suc n)
  then show ?case using remove_body_ok by simp
qed

lemma todo_bound: "finite U \<Longrightarrow> todo s U \<le> s_apkg_next s + card U"
proof -
  assume "finite U"
  then have "card {p \<in> U. is_installed (s_pkgs s p)} \<le> card U" by (intro card_mono) auto
  moreover have "card {a. a < s_apkg_next s \<and> ap_dependencies_checked (s_apkgs s a) \<noteq> 2} \<le> card {a. a < s_apkg_next s}"
    by (intro card_mono) auto
  ultimately show ?thesis by (simp add: todo_def)
qed

lemma opkg_remove_pkg_steps:
  assumes "r \<in> U" "removable (y_store y) U" "2 * (s_apkg_next (y_store y) + card U) + 1 < fuel"
  obtains err y' where "opkg_remove_pkg fuel e r up y = Some (err, y')" "steps e y y'" "err = 0 \<Longrightarrow> removed r y'"
proof -
  have "effort U r y < fuel"
    using todo_bound [OF removable_finite [OF assms(2)], of "y_store y"] assms(3) by (simp add: effort_def)
  then show ?thesis using opkg_remove_pkg_ok [of e U fuel] assms that unfolding remove_ok_def removed_def by blast
qed

section \<open>Properties\<close>

text \<open>
  (C17) Removing a package always returns, whatever cycles the dependencies, the forced removal of
  dependents and the removal of orphans run through: twice the number of abstract packages and
  packages is enough fuel. On the way no other change is made to the tables than states that turn
  into not installed, marks, and cached lists of files; a removal that reports success has left
  the package not installed and wanted for removal.
\<close>

theorem opkg_remove_pkg_terminates:
  assumes "r \<in> U" "removable (y_store y) U" "2 * (s_apkg_next (y_store y) + card U) + 1 < fuel"
  shows "\<exists>err y'. opkg_remove_pkg fuel e r up y = Some (err, y') \<and> sheds (y_store y) (y_store y') \<and>
    (err = 0 \<longrightarrow> p_state_status (pkg_at y' r) = SS_NOT_INSTALLED \<and> p_state_want (pkg_at y' r) = SW_DEINSTALL)"
proof -
  obtain err y' where "opkg_remove_pkg fuel e r up y = Some (err, y')" "steps e y y'" "err = 0 \<Longrightarrow> removed r y'"
    using opkg_remove_pkg_steps [OF assms] by metis
  then show ?thesis unfolding steps_def removed_def by blast
qed

lemma example_removable: "removable example_store {0, 1}"
  by (auto simp: removable_def removable_pkg_def example_defs provides_list_def apkg_pkgs_def all_depends_count_def
      pkg_new_def abstract_pkg_new_def)

theorem opkg_remove_pkg_terminates_witness:
  "\<exists>err y'. opkg_remove_pkg 10 (idle_env\<lparr>c_autoremove := True, c_force_removal_of_dependent_packages := True\<rparr>) 0 False
      (example_sys ()) = Some (err, y') \<and> sheds example_store (y_store y') \<and>
    (err = 0 \<longrightarrow> p_state_status (pkg_at y' 0) = SS_NOT_INSTALLED \<and> p_state_want (pkg_at y' 0) = SW_DEINSTALL)"
  using opkg_remove_pkg_terminates [of 0 "{0, 1}" "example_sys ()" 10
      "idle_env\<lparr>c_autoremove := True, c_force_removal_of_dependent_packages := True\<rparr>" False] example_removable
  by (simp add: example_sys_def) (simp add: example_store_def)

text \<open>
  (C18) A dry run does not touch the system: with \<open>noaction\<close> set, the removal of a package with
  everything that hangs on it returns and leaves the world as it was (as long as no list of files
  has to be read from a package file, for which a temporary file is made).
\<close>

theorem opkg_remove_pkg_dry_run:
  assumes "c_noaction e" "\<forall>p. p_local_filename (pkg_at y p) = None"
    and "r \<in> U" "removable (y_store y) U" "2 * (s_apkg_next (y_store y) + card U) + 1 < fuel"
  shows "\<exists>err y'. opkg_remove_pkg fuel e r up y = Some (err, y') \<and> y_world y' = y_world y"
proof -
  obtain err y' where "opkg_remove_pkg fuel e r up y = Some (err, y')" "steps e y y'"
    using opkg_remove_pkg_steps [OF assms(3-5)] by metis
  then show ?thesis using assms(1,2) unfolding steps_def dry_def by blast
qed

theorem opkg_remove_pkg_dry_run_witness:
  "\<exists>err y'. opkg_remove_pkg 10 (idle_env\<lparr>c_noaction := True, e_unlink := (\<lambda>f w. (0, w + 1))\<rparr>) 0 False
      (example_sys (0 :: nat)) = Some (err, y') \<and> y_world y' = 0"
  using opkg_remove_pkg_dry_run [of "idle_env\<lparr>c_noaction := True, e_unlink := (\<lambda>f w. (0, w + 1))\<rparr>"
      "example_sys (0 :: nat)" 0 "{0, 1}" 10 False] example_removable
  by (simp add: example_sys_def) (simp add: example_defs pkg_new_def idle_env_def)

end
