(* ===== verification/Opkg_Remove_Files.thy ===== *)
theory Opkg_Remove_Files
  imports Opkg_Remove
begin

text \<open>
  Properties of the removal: when it refuses to work and what it then leaves, and which files it
  may touch.
\<close>

section \<open>The dependents, and what their search leaves\<close>

definition unmarked :: "store \<Rightarrow> bool" where
  "unmarked s \<longleftrightarrow> (\<forall>a. ap_state_flag (s_apkgs s a) AND SF_MARKED = 0)"

definition mark :: "abstract_pkg \<Rightarrow> abstract_pkg" where
  "mark b = b\<lparr>ap_state_flag := ap_state_flag b OR SF_MARKED\<rparr>"

definition marked :: "apkg_ref set \<Rightarrow> store \<Rightarrow> store" where
  "marked A s = s\<lparr>s_apkgs := (\<lambda>a. if a \<in> A then mark (s_apkgs s a) else s_apkgs s a)\<rparr>"

lemma mark_test: "(w OR SF_MARKED) AND SF_MARKED \<noteq> 0"
proof
  assume "(w OR SF_MARKED) AND SF_MARKED = 0"
  then have "bit ((w OR SF_MARKED) AND SF_MARKED) 6 = bit (0 :: uint) 6" by simp
  then show False by (simp add: bit_simps SF_MARKED_def)
qed

lemma unmark:
  assumes "w AND SF_MARKED = 0"
  shows "(w OR SF_MARKED) AND NOT SF_MARKED = w"
proof (rule bit_word_eqI)
  fix n assume "n < LENGTH(32)"
  have "\<not> bit (w AND SF_MARKED) n" using assms by simp
  then show "bit ((w OR SF_MARKED) AND NOT SF_MARKED) n = bit w n"
    using \<open>n < LENGTH(32)\<close> by (auto simp: bit_simps)
qed

lemma unmarked_clear:
  assumes "w AND SF_MARKED = 0"
  shows "w AND NOT SF_MARKED = w"
proof (rule bit_word_eqI)
  fix n assume "n < LENGTH(32)"
  have "\<not> bit (w AND SF_MARKED) n" using assms by simp
  then show "bit (w AND NOT SF_MARKED) n = bit w n"
    using \<open>n < LENGTH(32)\<close> by (auto simp: bit_simps)
qed

lemma unmark_pkg:
  assumes "ap_state_flag x AND SF_MARKED = 0"
  shows "(mark x)\<lparr>ap_state_flag := ap_state_flag (mark x) AND NOT SF_MARKED\<rparr> = x"
    and "x\<lparr>ap_state_flag := ap_state_flag x AND NOT SF_MARKED\<rparr> = x"
  using unmark [OF assms] unmarked_clear [OF assms] by (cases x; simp add: mark_def)+

lemma upd_marked:
  assumes "f (if a \<in> A then mark (s_apkgs s a) else s_apkgs s a) = (if a \<in> B then mark (s_apkgs s a) else s_apkgs s a)"
    and "\<And>b. b \<noteq> a \<Longrightarrow> b \<in> A \<longleftrightarrow> b \<in> B"
  shows "upd_apkg a f (marked A s) = marked B s"
proof -
  have "(\<lambda>b. if b \<in> A then mark (s_apkgs s b) else s_apkgs s b)
      (a := f (if a \<in> A then mark (s_apkgs s a) else s_apkgs s a)) =
    (\<lambda>b. if b \<in> B then mark (s_apkgs s b) else s_apkgs s b)"
    using assms by (intro ext) simp
  then show ?thesis by (simp add: upd_apkg_def marked_def)
qed

lemma collect_marks:
  assumes "unmarked s"
  shows "\<exists>es. fold collect_dependent as (ds, marked (set ds) s) = (es, marked (set es) s)"
proof (induction as arbitrary: ds)
  case (Cons a as)
  have "\<exists>es. collect_dependent a (ds, marked (set ds) s) = (es, marked (set es) s)"
  proof (cases "ap_state_status (s_apkgs (marked (set ds) s) a) = SS_INSTALLED \<and>
      ap_state_flag (s_apkgs (marked (set ds) s) a) AND SF_MARKED = 0")
    case True
    then have a: "a \<notin> set ds" using mark_test by (auto simp: marked_def mark_def)
    have "upd_apkg a (\<lambda>b. b\<lparr>ap_state_flag := ap_state_flag b OR SF_MARKED\<rparr>) (marked (set ds) s) = marked (set (ds @ [a])) s"
      using a by (intro upd_marked) (auto simp: mark_def)
    then show ?thesis using True by (simp add: collect_dependent_def)
  qed (auto simp: collect_dependent_def)
  then obtain es where "collect_dependent a (ds, marked (set ds) s) = (es, marked (set es) s)" by blast
  then show ?case using Cons.IH [of es] by simp
qed auto

lemma clear_marks:
  assumes "unmarked s"
  shows "fold (\<lambda>a. upd_apkg a (\<lambda>b. b\<lparr>ap_state_flag := ap_state_flag b AND NOT SF_MARKED\<rparr>)) ds (marked A s) = marked (A - set ds) s"
proof (induction ds arbitrary: A)
  case (Cons d ds)
  have u: "ap_state_flag (s_apkgs s d) AND SF_MARKED = 0" using assms by (simp add: unmarked_def)
  have "upd_apkg d (\<lambda>b. b\<lparr>ap_state_flag := ap_state_flag b AND NOT SF_MARKED\<rparr>) (marked A s) = marked (A - {d}) s"
  proof (rule upd_marked)
    show "(if d \<in> A then mark (s_apkgs s d) else s_apkgs s d)\<lparr>ap_state_flag :=
        ap_state_flag (if d \<in> A then mark (s_apkgs s d) else s_apkgs s d) AND NOT SF_MARKED\<rparr> =
      (if d \<in> A - {d} then mark (s_apkgs s d) else s_apkgs s d)"
    proof (cases "d \<in> A")
      case True
      show ?thesis unfolding if_P [OF True] using unmark_pkg(1) [OF u] by simp
    next
      case False
      show ?thesis unfolding if_not_P [OF False] using unmark_pkg(2) [OF u] False by simp
    qed
  qed simp
  then show ?case using Cons.IH [of "A - {d}"] by (simp add: Diff_insert2 [of A d "set ds"])
qed simp

definition installed_dependents :: "store \<Rightarrow> pkg \<Rightarrow> apkg_ref list" where
  "installed_dependents s p =
     filter (\<lambda>a. ap_state_status (s_apkgs s a) = SS_INSTALLED)
       (concat (map (dependers s) (take (p_provides_count p) (provides_list p))))"

lemma pkg_has_installed_dependents_pure:
  assumes "unmarked s" "p_provides_count (s_pkgs s r) \<le> length (provides_list (s_pkgs s r))"
  shows "\<exists>ds. pkg_has_installed_dependents r s = Some (length (installed_dependents s (s_pkgs s r)), ds, s)"
proof -
  have p: "provided_apkgs (s_pkgs s r) = Some (take (p_provides_count (s_pkgs s r)) (provides_list (s_pkgs s r)))"
    using assms(2) by (simp add: provided_apkgs_def provides_list_def first_n_total)
  have m: "marked {} s = s" by (simp add: marked_def)
  obtain es where "fold collect_dependent (concat (map (dependers s) (take (p_provides_count (s_pkgs s r)) (provides_list (s_pkgs s r))))) ([], s)
      = (es, marked (set es) s)"
    using collect_marks [OF assms(1), of _ "[]"] m by auto
  then show ?thesis
    using p clear_marks [OF assms(1), of es "set es"] m
    by (simp add: pkg_has_installed_dependents_def installed_dependents_def)
qed

section \<open>The files that are touched\<close>

text \<open>
  What may happen to the world when the files of \<open>r\<close> are removed: a listed file that \<open>r\<close> owns is
  unlinked, unless it is a directory or a conffile that was modified; a listed directory that \<open>r\<close>
  owns is removed when it is empty.
\<close>

definition kept_conffile :: "'w env \<Rightarrow> pkg \<Rightarrow> string \<Rightarrow> 'w \<Rightarrow> bool" where
  "kept_conffile e p f w =
     (case pkg_get_conffile (Some p) (drop (case c_offline_root e of Some root \<Rightarrow> length root | None \<Rightarrow> 0) f) of
        Some cf \<Rightarrow> conffile_has_been_modified e cf w
      | None \<Rightarrow> False)"

definition owner_of :: "'w env \<Rightarrow> 'w sys \<Rightarrow> string \<Rightarrow> pkg_ref option" where
  "owner_of e y f = ht_map (y_files y) (strip_offline_root e f)"

lemma get_owner:
  "file_hash_get_file_owner e f y =
     (owner_of e y f, y\<lparr>y_files := snd (hash_table_get (y_files y) (strip_offline_root e f))\<rparr>)"
  unfolding file_hash_get_file_owner_def owner_of_def hash_table_get_map [symmetric]
  by (simp add: split_beta)

lemma remove_file_cases:
  assumes "remove_file e r f (ds, y) = (ds', y')"
  obtains (foreign) "owner_of e y f \<noteq> Some r" "ds' = ds" "y_world y' = y_world y"
      "y_store y' = y_store y" "y_files y' = snd (hash_table_get (y_files y) (strip_offline_root e f))"
    | (dir) "owner_of e y f = Some r" "file_is_dir e f (y_world y)" "ds' = ds @ [f]" "y_world y' = y_world y"
      "y_store y' = y_store y" "y_files y' = snd (hash_table_get (y_files y) (strip_offline_root e f))"
    | (kept) "owner_of e y f = Some r" "\<not> file_is_dir e f (y_world y)" "kept_conffile e (pkg_at y r) f (y_world y)"
      "ds' = ds" "y_world y' = y_world y" "y_store y' = y_store y" "y_files y' = snd (hash_table_get (y_files y) (strip_offline_root e f))"
    | (unlinked) "owner_of e y f = Some r" "\<not> file_is_dir e f (y_world y)"
      "\<not> kept_conffile e (pkg_at y r) f (y_world y)" "ds' = ds"
      "y_world y' = (if c_noaction e then y_world y else snd (e_unlink e f (y_world y)))" "y_store y' = y_store y"
      "y_files y' = snd (hash_table_remove (snd (hash_table_get (y_files y) (strip_offline_root e f))) (strip_offline_root e f))"
proof -
  define y1 where "y1 = y\<lparr>y_files := snd (hash_table_get (y_files y) (strip_offline_root e f))\<rparr>"
  have y1: "y_world y1 = y_world y" "y_store y1 = y_store y"
    "y_files y1 = snd (hash_table_get (y_files y) (strip_offline_root e f))"
    by (simp_all add: y1_def)
  have eq: "remove_file e r f (ds, y) =
    (if owner_of e y f \<noteq> Some r then (ds, y1)
     else if file_is_dir e f (y_world y) then (ds @ [f], y1)
     else if kept_conffile e (pkg_at y r) f (y_world y) then (ds, y1)
     else (ds, file_hash_remove e f (if c_noaction e then y1 else unlink e f y1)))"
    unfolding remove_file_def get_owner prod.case y1_def [symmetric] Let_def y1 kept_conffile_def [symmetric] ..
  show ?thesis
  proof (cases "owner_of e y f = Some r \<and> \<not> file_is_dir e f (y_world y) \<and> \<not> kept_conffile e (pkg_at y r) f (y_world y)")
    case True
    then have "ds' = ds" "y' = file_hash_remove e f (if c_noaction e then y1 else unlink e f y1)"
      using assms unfolding eq by simp_all
    then show ?thesis using True y1 unlinked by (simp add: file_hash_remove_def unlink_def y1_def)
  next
    case False
    then have "y' = y1" using assms unfolding eq by (simp split: if_splits)
    then show ?thesis using False assms y1 foreign dir kept unfolding eq by (simp split: if_splits)
  qed
qed

definition may_touch :: "'w env \<Rightarrow> pkg_ref \<Rightarrow> 'w sys \<Rightarrow> string list \<Rightarrow> ('w \<Rightarrow> bool) \<Rightarrow> bool" where
  "may_touch e r y fs I \<longleftrightarrow>
     (\<forall>f \<in> set fs. \<forall>w. owner_of e y f = Some r \<longrightarrow> I w \<longrightarrow>
        (\<not> file_is_dir e f w \<longrightarrow> \<not> kept_conffile e (pkg_at y r) f w \<longrightarrow> I (snd (e_unlink e f w))) \<and>
        I (snd (e_rmdir e f w)))"

text \<open>A file that may be deleted: in some world of \<open>I\<close> it is neither a directory nor a modified conffile.\<close>

definition deletable :: "'w env \<Rightarrow> pkg \<Rightarrow> ('w \<Rightarrow> bool) \<Rightarrow> string \<Rightarrow> bool" where
  "deletable e p I f \<longleftrightarrow> (\<exists>w. I w \<and> \<not> file_is_dir e f w \<and> \<not> kept_conffile e p f w)"

text \<open>A file that must be deleted: in no world of \<open>I\<close> it is a directory or a modified conffile.\<close>

definition plain_file :: "'w env \<Rightarrow> pkg \<Rightarrow> ('w \<Rightarrow> bool) \<Rightarrow> string \<Rightarrow> bool" where
  "plain_file e p I f \<longleftrightarrow> (\<forall>w. I w \<longrightarrow> \<not> file_is_dir e f w \<and> \<not> kept_conffile e p f w)"

text \<open>
  Between two moments of the loop: owners only disappear, and only those of \<open>r\<close>, for listed
  files that may be deleted.
\<close>

definition releases :: "'w env \<Rightarrow> pkg_ref \<Rightarrow> string list \<Rightarrow> ('w \<Rightarrow> bool) \<Rightarrow> 'w sys \<Rightarrow> 'w sys \<Rightarrow> bool" where
  "releases e r fs I y y' \<longleftrightarrow> ht_ok (y_files y') \<and>
     (\<forall>k. ht_map (y_files y') k = ht_map (y_files y) k \<or>
          ht_map (y_files y) k = Some r \<and> ht_map (y_files y') k = None \<and>
          (\<exists>f \<in> set fs. deletable e (pkg_at y r) I f \<and> strip_offline_root e f = k))"

lemma releases_owner: "releases e r fs I y y' \<Longrightarrow> owner_of e y' f = Some r \<Longrightarrow> owner_of e y f = Some r"
  unfolding releases_def owner_of_def by (metis option.distinct(1))

text \<open>What the unlinking of \<open>f\<close> brings about and nothing the removal does afterwards undoes.\<close>

definition unlink_lasts :: "'w env \<Rightarrow> ('w \<Rightarrow> bool) \<Rightarrow> string \<Rightarrow> ('w \<Rightarrow> bool) \<Rightarrow> bool" where
  "unlink_lasts e I f J \<longleftrightarrow> (\<forall>w. I w \<longrightarrow> J (snd (e_unlink e f w))) \<and>
     (\<forall>g w. J w \<longrightarrow> J (snd (e_unlink e g w)) \<and> J (snd (e_rmdir e g w)))"

lemma hash_table_get_ok: "ht_ok h \<Longrightarrow> ht_ok (snd (hash_table_get h k))"
  by (auto simp: hash_table_get_def Let_def ht_ok_def bucket_ok_def hash_index_def split: option.split)

lemma remove_file_frame:
  assumes rf: "remove_file e r f (ds, y) = (ds', y')" and f: "f \<in> set fs" and m: "may_touch e r y0 fs I"
    and y: "releases e r fs I y0 y" "I (y_world y)" "pkg_at y r = pkg_at y0 r"
  shows "releases e r fs I y0 y' \<and> I (y_world y') \<and> y_store y' = y_store y \<and>
    (set ds' \<subseteq> set ds \<union> {f \<in> set fs. owner_of e y0 f = Some r})"
proof -
  have ok: "ht_ok (y_files y)" using y(1) by (simp add: releases_def)
  from rf show ?thesis
  proof (cases rule: remove_file_cases)
    case unlinked
    have o: "owner_of e y0 f = Some r" by (rule releases_owner [OF y(1) unlinked(1)])
    have h: "ht_ok (y_files y')" "ht_map (y_files y') = (ht_map (y_files y))(strip_offline_root e f := None)"
      using hash_table_remove_map [OF hash_table_get_ok [OF ok], of "strip_offline_root e f" "strip_offline_root e f"]
      by (simp_all add: unlinked(7) hash_table_get_same)
    have "I (y_world y')"
      using m f o y(2,3) unlinked(2,3,5) unfolding may_touch_def by (cases "c_noaction e") auto
    moreover have "deletable e (pkg_at y0 r) I f"
      using y(2,3) unlinked(2,3) unfolding deletable_def by auto
    then have "releases e r fs I y0 y'"
      using y(1) h o f unfolding releases_def owner_of_def by auto
    ultimately show ?thesis using unlinked(4,6) by simp
  qed (use y f releases_owner [OF y(1)] ok in \<open>auto simp: releases_def hash_table_get_ok hash_table_get_same\<close>)
qed

lemma remove_files_frame:
  assumes "may_touch e r y0 fs I" "set xs \<subseteq> set fs" "releases e r fs I y0 y" "I (y_world y)" "pkg_at y r = pkg_at y0 r"
    and "set ds \<subseteq> {f \<in> set fs. owner_of e y0 f = Some r}" "fold (remove_file e r) xs (ds, y) = (ds', y')"
  shows "releases e r fs I y0 y' \<and> I (y_world y') \<and> y_store y' = y_store y \<and>
    set ds' \<subseteq> {f \<in> set fs. owner_of e y0 f = Some r}"
  using assms(2-)
proof (induction xs arbitrary: ds y)
  case (Cons x xs)
  obtain ds1 y1 where 1: "remove_file e r x (ds, y) = (ds1, y1)" by fastforce
  have x: "x \<in> set fs" using Cons.prems(1) by simp
  note f = remove_file_frame [OF 1 x assms(1) Cons.prems(2,3,4)]
  then have "pkg_at y1 r = pkg_at y0 r" "set ds1 \<subseteq> {f \<in> set fs. owner_of e y0 f = Some r}"
    using Cons.prems(4,5) by auto
  from Cons.IH [OF _ _ _ this] f Cons.prems(1,6) 1 show ?case by simp
qed simp

text \<open>The entry of a file that must be deleted is gone after its turn, and stays away.\<close>

lemma remove_file_files:
  assumes "remove_file e r f (ds, y) = (ds', y')" "ht_ok (y_files y)"
  shows "ht_ok (y_files y')" "ht_map (y_files y') k = ht_map (y_files y) k \<or>
      ht_map (y_files y') k = None \<and> k = strip_offline_root e f"
  using assms
proof -
  note rm = hash_table_remove_map [OF hash_table_get_ok [OF assms(2)], of "strip_offline_root e f" "strip_offline_root e f"]
  show "ht_ok (y_files y')" using assms(1)
    by (cases rule: remove_file_cases) (simp_all add: hash_table_get_ok assms(2) rm)
  show "ht_map (y_files y') k = ht_map (y_files y) k \<or>
      ht_map (y_files y') k = None \<and> k = strip_offline_root e f" using assms(1)
    by (cases rule: remove_file_cases) (auto simp: hash_table_get_same rm)
qed

lemma remove_files_release:
  assumes "may_touch e r y0 fs I" "set xs \<subseteq> set fs" "releases e r fs I y0 y" "I (y_world y)" "pkg_at y r = pkg_at y0 r"
    and "fold (remove_file e r) xs (ds, y) = (ds', y')"
    and "owner_of e y0 f = Some r" "plain_file e (pkg_at y0 r) I f" "f \<in> set xs \<or> owner_of e y f = None"
  shows "owner_of e y' f = None"
  using assms(2-6,9)
proof (induction xs arbitrary: ds y)
  case (Cons x xs)
  obtain ds1 y1 where 1: "remove_file e r x (ds, y) = (ds1, y1)" by fastforce
  have x: "x \<in> set fs" and ok: "ht_ok (y_files y)" using Cons.prems(1,2) by (auto simp: releases_def)
  note f = remove_file_frame [OF 1 x assms(1) Cons.prems(2,3,4)]
  note stays = remove_file_files(2) [OF 1 ok]
  have "owner_of e y1 f = None" if "x = f \<or> owner_of e y f = None"
  proof (cases "owner_of e y f = None")
    case True
    then show ?thesis using stays [of "strip_offline_root e f"] by (auto simp: owner_of_def)
  next
    case False
    then have "x = f" "owner_of e y f = Some r"
      using that Cons.prems(2) assms(7) unfolding releases_def owner_of_def by metis+
    then show ?thesis
      using 1 assms(8) Cons.prems(3,4) hash_table_remove_map [OF hash_table_get_ok [OF ok], of "strip_offline_root e f" "strip_offline_root e f"]
      by (elim remove_file_cases) (auto simp: plain_file_def owner_of_def)
  qed
  then have "f \<in> set xs \<or> owner_of e y1 f = None" using Cons.prems(6) by auto
  with f Cons.IH [of y1 ds1] Cons.prems(1,4,5) 1 show ?case by simp
qed simp

lemma remove_files_unlink:
  assumes "may_touch e r y0 fs I" "set xs \<subseteq> set fs" "releases e r fs I y0 y" "I (y_world y)" "pkg_at y r = pkg_at y0 r"
    and "fold (remove_file e r) xs (ds, y) = (ds', y')"
    and "plain_file e (pkg_at y0 r) I f" "\<not> c_noaction e" "unlink_lasts e I f J"
    and "\<forall>g \<in> set fs. strip_offline_root e g = strip_offline_root e f \<longrightarrow> g = f"
    and "f \<in> set xs \<and> owner_of e y f = Some r \<or> J (y_world y)"
  shows "J (y_world y')"
  using assms(2-6,11)
proof (induction xs arbitrary: ds y)
  case (Cons x xs)
  obtain ds1 y1 where 1: "remove_file e r x (ds, y) = (ds1, y1)" by fastforce
  have x: "x \<in> set fs" and ok: "ht_ok (y_files y)" using Cons.prems(1,2) by (auto simp: releases_def)
  note f = remove_file_frame [OF 1 x assms(1) Cons.prems(2,3,4)]
  have "J (y_world y1)" if "J (y_world y) \<or> x = f \<and> owner_of e y f = Some r"
    using 1
  proof (cases rule: remove_file_cases)
    case unlinked
    then show ?thesis using that assms(8,9) Cons.prems(3) by (auto simp: unlink_lasts_def)
  qed (use that assms(7) Cons.prems(3,4) in \<open>auto simp: plain_file_def\<close>)
  moreover have "owner_of e y1 f = Some r" if "x \<noteq> f" "owner_of e y f = Some r"
    using that remove_file_files(2) [OF 1 ok, of "strip_offline_root e f"] assms(10) x
    by (auto simp: owner_of_def)
  ultimately have "f \<in> set xs \<and> owner_of e y1 f = Some r \<or> J (y_world y1)" using Cons.prems(6) by auto
  with f Cons.IH [of y1 ds1] Cons.prems(1,4,5) 1 show ?case by simp
qed simp

lemma rmdir_loop_frame:
  assumes "\<And>d w. d \<in> set ds \<Longrightarrow> I w \<Longrightarrow> I (snd (e_rmdir e d w))" "I w"
  shows "I (snd (rmdir_loop e ds w))"
  using assms
proof (induction e ds w rule: rmdir_loop.induct)
  case (1 e ds w)
  have round: "I (snd (rmdir_round e ds w)) \<and> set (fst (rmdir_round e ds w)) \<subseteq> set ds" if "I w"
      "\<And>d w. d \<in> set ds \<Longrightarrow> I w \<Longrightarrow> I (snd (e_rmdir e d w))" for ds w
    using that
  proof (induction ds arbitrary: w)
    case (Cons d ds)
    obtain rc w1 where 1: "e_rmdir e d w = (rc, w1)" by fastforce
    then have "I w1" using Cons.prems(2) [of d w] Cons.prems(1) by simp
    from Cons.IH [OF this] Cons.prems(2) 1 show ?case by (auto split: prod.split)
  qed simp
  obtain ds' w' where r: "rmdir_round e ds w = (ds', w')" by fastforce
  have w': "I w'" "set ds' \<subseteq> set ds" using round [of w ds] 1(2,3) r by auto
  show ?case
  proof (cases "length ds' < length ds")
    case True
    have "I (snd (rmdir_loop e ds' w'))"
      by (rule "1.IH" [OF r [symmetric] True]) (use 1(2) w' in auto)
    then show ?thesis using True r by (subst rmdir_loop.simps) simp
  next
    case False
    then show ?thesis using w'(1) r by (subst rmdir_loop.simps) simp
  qed
qed

text \<open>The list of an installed package: the cached one, or the lines of its list file.\<close>

definition listed_files :: "'w env \<Rightarrow> pkg_ref \<Rightarrow> 'w sys \<Rightarrow> string list" where
  "listed_files e r y =
     (case p_installed_files (pkg_at y r) of
        Some fs \<Rightarrow> fs
      | None \<Rightarrow>
          (case dest_of e (pkg_at y r) of
             None \<Rightarrow> []
           | Some d \<Rightarrow>
               (case e_file e (list_file d (pkg_at y r)) (y_world y) of
                  None \<Rightarrow> []
                | Some (text, err) \<Rightarrow> map (name_from_list (c_offline_root e)) (read_lines text))))"

lemma get_installed_listed:
  assumes "p_state_status (pkg_at y r) \<noteq> SS_NOT_INSTALLED" "p_dest (pkg_at y r) = Some d"
  shows "\<exists>y1. pkg_get_installed_files e r y = Some (Some (listed_files e r y), y1) \<and> y_world y1 = y_world y \<and>
    y_files y1 = y_files y \<and> p_conffiles (pkg_at y1 r) = p_conffiles (pkg_at y r) \<and>
    p_dest (pkg_at y1 r) = Some d \<and> p_name (pkg_at y1 r) = p_name (pkg_at y r)"
proof -
  have d: "dest_of e (pkg_at y r) = Some (c_dest e d)" using assms(2) by (simp add: dest_of_def)
  show ?thesis
    using assms d
    by (auto simp: pkg_get_installed_files_def files_from_list_def listed_files_def set_installed_files_def
        dest_of_def list_file_def Let_def split: option.split)
qed

lemma owner_of_files: "y_files y = y_files y' \<Longrightarrow> owner_of e y = owner_of e y'"
  by (rule ext) (simp add: owner_of_def)

lemma kept_conffile_cong: "p_conffiles p = p_conffiles q \<Longrightarrow> kept_conffile e p = kept_conffile e q"
  by (rule ext)+ (simp add: kept_conffile_def pkg_get_conffile_def)

lemma remove_data_files_frame:
  assumes s: "p_state_status (pkg_at y r) \<noteq> SS_NOT_INSTALLED" "p_dest (pkg_at y r) = Some d"
    and ok: "ht_ok (y_files y)" and I: "I (y_world y)" and m: "may_touch e r y (listed_files e r y) I"
    and l: "\<And>w. I w \<Longrightarrow> I (snd (e_unlink e (list_file (c_dest e d) (pkg_at y r)) w))"
  shows "\<exists>y'. remove_data_files_and_list e r y = Some y' \<and> I (y_world y') \<and> releases e r (listed_files e r y) I y y' \<and>
    (\<forall>f \<in> set (listed_files e r y). owner_of e y f = Some r \<longrightarrow> plain_file e (pkg_at y r) I f \<longrightarrow>
       owner_of e y' f = None \<and>
       (\<forall>J. unlink_lasts e I f J \<longrightarrow> \<not> c_noaction e \<longrightarrow>
          (\<forall>g \<in> set (listed_files e r y). strip_offline_root e g = strip_offline_root e f \<longrightarrow> g = f) \<longrightarrow>
          J (y_world y')))"
proof -
  let ?fs = "listed_files e r y"
  obtain y1 where 1: "pkg_get_installed_files e r y = Some (Some ?fs, y1)" "y_world y1 = y_world y"
      "y_files y1 = y_files y" "p_conffiles (pkg_at y1 r) = p_conffiles (pkg_at y r)"
      "p_dest (pkg_at y1 r) = Some d" "p_name (pkg_at y1 r) = p_name (pkg_at y r)"
    using get_installed_listed [OF s] by blast
  have o: "owner_of e y1 = owner_of e y" using 1(3) by (rule owner_of_files)
  have m1: "may_touch e r y1 ?fs I" using m unfolding may_touch_def o kept_conffile_cong [OF 1(4)] .
  have pl: "plain_file e (pkg_at y1 r) I = plain_file e (pkg_at y r) I"
    "deletable e (pkg_at y1 r) I = deletable e (pkg_at y r) I"
    unfolding plain_file_def [abs_def] deletable_def [abs_def] kept_conffile_cong [OF 1(4)] by (rule refl)+
  have r1: "releases e r ?fs I y1 y1" using ok by (simp add: releases_def 1(3))
  obtain ds y2 where 2: "fold (remove_file e r) ?fs ([], y1) = (ds, y2)" by fastforce
  have f: "releases e r ?fs I y1 y2" "I (y_world y2)" "y_store y2 = y_store y1"
    "set ds \<subseteq> {f \<in> set ?fs. owner_of e y1 f = Some r}"
    using remove_files_frame [OF m1 _ r1 _ _ _ 2] I 1(2) by simp_all
  obtain ds' w where 3: "(if c_noaction e then (ds, y_world y2) else rmdir_loop e ds (y_world y2)) = (ds', w)" by fastforce
  have "I (snd (rmdir_loop e ds (y_world y2)))"
    by (rule rmdir_loop_frame) (use m1 f in \<open>auto simp: may_touch_def\<close>)
  then have w: "I w" using 3 f(2) by (auto split: if_splits)
  define y3 where "y3 = pkg_free_installed_files r (y2\<lparr>y_world := w\<rparr>)"
  have p3: "p_dest (pkg_at y3 r) = Some d" "p_name (pkg_at y3 r) = p_name (pkg_at y r)"
    using f(3) 1(5,6) by (simp_all add: y3_def pkg_free_installed_files_def Let_def)
  have lf: "list_file (c_dest e d) (pkg_at y3 r) = list_file (c_dest e d) (pkg_at y r)"
    by (simp add: list_file_def p3(2))
  obtain y4 where 4: "pkg_remove_installed_files_list e r y3 = Some y4" "I (y_world y4)" "y_files y4 = y_files y2"
    using w l lf p3(1) by (cases "c_noaction e")
      (auto simp: pkg_remove_installed_files_list_def dest_of_def unlink_def y3_def pkg_free_installed_files_def)
  define y5 where "y5 = fold (\<lambda>d y. snd (file_hash_get_file_owner e d y)) ds' y4"
  have 5: "y_world y5 = y_world y4" "ht_map (y_files y5) = ht_map (y_files y4)" "ht_ok (y_files y4) \<longrightarrow> ht_ok (y_files y5)"
  proof -
    have "y_world (fold (\<lambda>d y. snd (file_hash_get_file_owner e d y)) ds z) = y_world z \<and>
        ht_map (y_files (fold (\<lambda>d y. snd (file_hash_get_file_owner e d y)) ds z)) = ht_map (y_files z) \<and>
        (ht_ok (y_files z) \<longrightarrow> ht_ok (y_files (fold (\<lambda>d y. snd (file_hash_get_file_owner e d y)) ds z)))" for ds z
      by (induction ds arbitrary: z) (auto simp: get_owner hash_table_get_same hash_table_get_ok)
    then show "y_world y5 = y_world y4" "ht_map (y_files y5) = ht_map (y_files y4)" "ht_ok (y_files y4) \<longrightarrow> ht_ok (y_files y5)"
      unfolding y5_def by blast+
  qed
  have "remove_data_files_and_list e r y = Some y5"
    using 1(1) 2 3 4(1) unfolding remove_data_files_and_list_def y3_def y5_def by simp
  moreover have "releases e r ?fs I y y5"
    using f(1) 4(3) 5(2,3) 1(3) unfolding releases_def pl by simp
  moreover have "owner_of e y5 f = None" if "f \<in> set ?fs" "owner_of e y f = Some r" "plain_file e (pkg_at y r) I f" for f
    using remove_files_release [OF m1 _ r1 _ _ 2, of f] that I 1(2) 4(3) 5(2) by (simp add: o pl owner_of_def)
  moreover have "J (y_world y5)" if "f \<in> set ?fs" "owner_of e y f = Some r" "plain_file e (pkg_at y r) I f"
      "unlink_lasts e I f J" "\<not> c_noaction e" "\<forall>g \<in> set ?fs. strip_offline_root e g = strip_offline_root e f \<longrightarrow> g = f" for f J
  proof -
    have "J (y_world y2)"
      using remove_files_unlink [OF m1 _ r1 _ _ 2 _ that(5,4,6)] that(1-3) I 1(2) by (simp add: o pl)
    then have "J (snd (rmdir_loop e ds (y_world y2)))"
      by (rule rmdir_loop_frame [rotated]) (use that(4) in \<open>simp add: unlink_lasts_def\<close>)
    then have "J w" using 3 that(5) by simp
    then have "J (y_world y4)" using 4(1) p3(1) that(4,5)
      by (auto simp: pkg_remove_installed_files_list_def dest_of_def unlink_def y3_def pkg_free_installed_files_def
          unlink_lasts_def)
    then show ?thesis using 5(1) by simp
  qed
  ultimately show ?thesis using 4(2) 5(1) by auto
qed

section \<open>Properties\<close>

text \<open>
  (C19) When removal is refused, because the package is essential or because an installed package
  depends on something it provides, and nothing forces it, the answer is -1 and nothing at all has
  changed: neither the tables (the marks of the search for dependents included) nor the system.
\<close>

theorem removal_refused_changes_nothing:
  assumes "p_essential (pkg_at y r) \<and> \<not> from_upgrade \<and> \<not> c_force_removal_of_essential_packages e \<or>
      p_parent (pkg_at y r) \<noteq> None \<and> \<not> c_force_depends e \<and> p_state_flag (pkg_at y r) AND SF_REPLACE = 0 \<and>
      \<not> c_force_removal_of_dependent_packages e \<and>
      (\<exists>q \<in> set (take (p_provides_count (pkg_at y r)) (provides_list (pkg_at y r))).
         \<exists>d \<in> set (dependers (y_store y) q). ap_state_status (s_apkgs (y_store y) d) = SS_INSTALLED)"
    and "p_provides_count (pkg_at y r) \<le> length (provides_list (pkg_at y r))" "unmarked (y_store y)"
  shows "opkg_remove_pkg (Suc fuel) e r from_upgrade y = Some (-1, y)"
proof (cases "p_essential (pkg_at y r) \<and> \<not> from_upgrade \<and> \<not> c_force_removal_of_essential_packages e")
  case True
  then show ?thesis by (simp add: remove_body_def)
next
  case False
  then obtain a q d where b: "p_parent (pkg_at y r) = Some a" "\<not> c_force_depends e"
      "p_state_flag (pkg_at y r) AND SF_REPLACE = 0" "\<not> c_force_removal_of_dependent_packages e"
      "q \<in> set (take (p_provides_count (pkg_at y r)) (provides_list (pkg_at y r)))"
      "d \<in> set (dependers (y_store y) q)" "ap_state_status (s_apkgs (y_store y) d) = SS_INSTALLED"
    using assms(1) by auto
  have "installed_dependents (y_store y) (pkg_at y r) \<noteq> []"
    using b(5-7) by (auto simp: installed_dependents_def filter_empty_conv)
  moreover obtain ds where "pkg_has_installed_dependents r (y_store y) =
      Some (length (installed_dependents (y_store y) (pkg_at y r)), ds, y_store y)"
    using pkg_has_installed_dependents_pure [OF assms(3,2)] by blast
  ultimately have "check_dependents rec e r y = Some (Some (-1), y)" for rec
    using b(2-4) by (simp add: check_dependents_def Let_def)
  then show ?thesis using b(1) False by (auto simp: remove_body_def)
qed

lemma example_unmarked: "unmarked example_store"
  by (simp add: unmarked_def example_store_def example_apkg_def abstract_pkg_new_def)

theorem removal_refused_changes_nothing_witness:
  "opkg_remove_pkg 1 idle_env 0 False (example_sys ()) = Some (-1, example_sys ())"
proof -
  have "p_provides_count (pkg_at (example_sys ()) 0) \<le> length (provides_list (pkg_at (example_sys ()) 0))"
    "p_parent (pkg_at (example_sys ()) 0) \<noteq> None" "p_state_flag (pkg_at (example_sys ()) 0) AND SF_REPLACE = 0"
    by (simp_all add: example_defs provides_list_def pkg_new_def SF_OK_def)
  moreover have "\<exists>q \<in> set (take (p_provides_count (pkg_at (example_sys ()) 0)) (provides_list (pkg_at (example_sys ()) 0))).
      \<exists>d \<in> set (dependers (y_store (example_sys ())) q). ap_state_status (s_apkgs (y_store (example_sys ())) d) = SS_INSTALLED"
    by (simp add: example_defs provides_list_def dependers_def pkg_new_def abstract_pkg_new_def)
  moreover have "unmarked (y_store (example_sys ()))" using example_unmarked by (simp add: example_sys_def)
  moreover have "\<not> c_force_depends (idle_env :: unit env)" "\<not> c_force_removal_of_dependent_packages (idle_env :: unit env)"
    by (simp_all add: idle_env_def)
  ultimately show ?thesis
    using removal_refused_changes_nothing [of "example_sys ()" 0 False idle_env 0] by simp
qed

text \<open>
  (C20) The files a removal touches. Let \<open>I\<close> be a property of the system that survives the unlinking
  of listed files that the package owns and that are neither directories nor modified conffiles,
  the removal of listed directories it owns, and the unlinking of its list file. Then \<open>I\<close> still
  holds after \<open>remove_data_files_and_list\<close>: files of other packages, modified conffiles and files
  not listed are left alone. The table of owners loses only entries of this package, for listed
  files that \<open>I\<close> does not make directories or modified conffiles. And it does lose the entry of
  each listed file of the package that \<open>I\<close> makes neither; unless noaction is set that file is
  unlinked, when no other listed name stands for it: whatever its unlinking brings about for
  good holds in the end.
\<close>

theorem remove_data_files_touches_only_own:
  assumes "p_state_status (pkg_at y r) \<noteq> SS_NOT_INSTALLED" "p_dest (pkg_at y r) = Some d"
    and "ht_ok (y_files y)" "I (y_world y)"
    and "\<And>f w. f \<in> set (listed_files e r y) \<Longrightarrow> owner_of e y f = Some r \<Longrightarrow> I w \<Longrightarrow> \<not> file_is_dir e f w \<Longrightarrow>
           \<not> kept_conffile e (pkg_at y r) f w \<Longrightarrow> I (snd (e_unlink e f w))"
    and "\<And>f w. f \<in> set (listed_files e r y) \<Longrightarrow> owner_of e y f = Some r \<Longrightarrow> I w \<Longrightarrow> I (snd (e_rmdir e f w))"
    and "\<And>w. I w \<Longrightarrow> I (snd (e_unlink e (list_file (c_dest e d) (pkg_at y r)) w))"
  shows "\<exists>y'. remove_data_files_and_list e r y = Some y' \<and> I (y_world y') \<and>
    (\<forall>k. ht_map (y_files y') k = ht_map (y_files y) k \<or>
         ht_map (y_files y) k = Some r \<and> ht_map (y_files y') k = None \<and>
         (\<exists>f \<in> set (listed_files e r y). deletable e (pkg_at y r) I f \<and> strip_offline_root e f = k)) \<and>
    (\<forall>f \<in> set (listed_files e r y). owner_of e y f = Some r \<longrightarrow> plain_file e (pkg_at y r) I f \<longrightarrow>
       owner_of e y' f = None \<and>
       (\<forall>J. unlink_lasts e I f J \<longrightarrow> \<not> c_noaction e \<longrightarrow>
          (\<forall>g \<in> set (listed_files e r y). strip_offline_root e g = strip_offline_root e f \<longrightarrow> g = f) \<longrightarrow>
          J (y_world y')))"
proof -
  have "may_touch e r y (listed_files e r y) I" using assms(5,6) unfolding may_touch_def by blast
  from remove_data_files_frame [OF assms(1-4) this assms(7)] show ?thesis unfolding releases_def by blast
qed

text \<open>
  The example: the world is the list of existing files, the package lists its own file and one it
  does not own.
\<close>

definition files_env :: "string list env" where
  "files_env = idle_env\<lparr>e_stat := (\<lambda>f w. if f \<in> set w then Some 0x81A4 else None), e_unlink := (\<lambda>f w. (0, filter (\<lambda>g. g \<noteq> f) w))\<rparr>"

definition two_files :: "string list sys" where
  "two_files = mod_pkg 0 (\<lambda>p. p\<lparr>p_installed_files := Some [''/bin/a'', ''/etc/passwd'']\<rparr>)
     (example_sys [''/bin/a'', ''/etc/passwd''])"

lemma example_files_ok: "ht_ok (y_files (example_sys w))" "ht_map (y_files (example_sys w)) = [''/bin/a'' \<mapsto> 0]"
  using hash_table_insert_map [of "hash_table_init [] (blank_table :: pkg_ref hash_table) 4" "''/bin/a''" 0] hash_table_init_map [of "blank_table :: pkg_ref hash_table" 4 "[]"]
  by (simp_all add: example_sys_def blank_table_def)

theorem remove_data_files_touches_only_own_witness:
  "\<exists>y'. remove_data_files_and_list files_env 0 two_files = Some y' \<and> ''/etc/passwd'' \<in> set (y_world y') \<and>
    ''/bin/a'' \<notin> set (y_world y') \<and> owner_of files_env two_files ''/bin/a'' = Some 0 \<and> owner_of files_env y' ''/bin/a'' = None"
proof -
  let ?I = "\<lambda>w. ''/etc/passwd'' \<in> set w"
  note defs = two_files_def example_sys_def example_store_def example_pkg_def files_env_def idle_env_def
    list_file_def pkg_new_def
  have ok: "ht_ok (y_files two_files)" using example_files_ok by (simp add: two_files_def)
  have m: "ht_map (y_files two_files) = [''/bin/a'' \<mapsto> 0]" using example_files_ok by (simp add: two_files_def)
  have l: "listed_files files_env 0 two_files = [''/bin/a'', ''/etc/passwd'']" by (simp add: listed_files_def two_files_def)
  have own: "owner_of files_env two_files f = (if f = ''/bin/a'' then Some 0 else None)" for f
    by (simp add: owner_of_def m strip_offline_root_def files_env_def idle_env_def)
  have "\<exists>y'. remove_data_files_and_list files_env 0 two_files = Some y' \<and> ?I (y_world y') \<and>
    (\<forall>k. ht_map (y_files y') k = ht_map (y_files two_files) k \<or>
         ht_map (y_files two_files) k = Some 0 \<and> ht_map (y_files y') k = None \<and>
         (\<exists>f \<in> set (listed_files files_env 0 two_files). deletable files_env (pkg_at two_files 0) ?I f \<and>
            strip_offline_root files_env f = k)) \<and>
    (\<forall>f \<in> set (listed_files files_env 0 two_files). owner_of files_env two_files f = Some 0 \<longrightarrow>
       plain_file files_env (pkg_at two_files 0) ?I f \<longrightarrow> owner_of files_env y' f = None \<and>
       (\<forall>J. unlink_lasts files_env ?I f J \<longrightarrow> \<not> c_noaction files_env \<longrightarrow>
          (\<forall>g \<in> set (listed_files files_env 0 two_files).
             strip_offline_root files_env g = strip_offline_root files_env f \<longrightarrow> g = f) \<longrightarrow> J (y_world y')))"
  proof (rule remove_data_files_touches_only_own [where d = 0, OF _ _ ok])
    show "?I (snd (e_unlink files_env f w))" if "owner_of files_env two_files f = Some 0" "?I w" for f w
      using that unfolding own by (auto simp: files_env_def split: if_splits)
  qed (simp_all add: defs)
  moreover have "plain_file files_env (pkg_at two_files 0) ?I ''/bin/a''"
    by (simp add: plain_file_def file_is_dir_def kept_conffile_def pkg_get_conffile_def defs S_IFMT_def S_IFDIR_def)
  moreover have "unlink_lasts files_env ?I ''/bin/a'' (\<lambda>w. ''/bin/a'' \<notin> set w)"
    by (auto simp: unlink_lasts_def files_env_def idle_env_def)
  moreover have "\<not> c_noaction files_env" "strip_offline_root files_env g = g" for g
    by (simp_all add: files_env_def idle_env_def strip_offline_root_def)
  ultimately show ?thesis unfolding l own by auto
qed

end
