(* ===== verification/Opkg_Download.thy ===== *)
theory Opkg_Download
  imports Opkg_World
begin

text \<open>
  The download of a package (\<open>libopkg/opkg_download.c\<close> as it is built without curl) and the two
  file operations it needs (\<open>libopkg/file_util.c\<close>).
\<close>

definition EXDEV :: int where "EXDEV = 18"
definition ENOENT :: int where "ENOENT = 2"

definition file_copy :: "'w env \<Rightarrow> string \<Rightarrow> string \<Rightarrow> 'w \<Rightarrow> int \<times> 'w" where
  "file_copy e src dest w = e_copy_file e src dest w"

definition file_move :: "'w env \<Rightarrow> string \<Rightarrow> string \<Rightarrow> 'w \<Rightarrow> int \<times> 'w" where
  "file_move e src dest w =
     (case e_rename e src dest w of (errno, w1) \<Rightarrow>
        if errno = 0 then (0, w1)
        else if errno = EXDEV
        then (case file_copy e src dest w1 of (err, w2) \<Rightarrow> (err, if err = 0 then snd (e_unlink e src w2) else w2))
        else (-1, w1))"

text \<open>\<open>basename\<close>: the text behind the last slash that is not at the end.\<close>

definition basename :: "string \<Rightarrow> string" where
  "basename path =
     (if path = [] then ''.''
      else case dropWhile (\<lambda>c. c = CHR ''/'') (rev path) of
             [] \<Rightarrow> ''/''
           | cs \<Rightarrow> rev (takeWhile (\<lambda>c. c \<noteq> CHR ''/'') cs))"

text \<open>The text from the last slash on, if there is one.\<close>

definition strrchr_slash :: "string \<Rightarrow> string option" where
  "strrchr_slash s =
     (if CHR ''/'' \<in> set s then Some (CHR ''/'' # rev (takeWhile (\<lambda>c. c \<noteq> CHR ''/'') (rev s))) else None)"

definition wget_argv :: "'w env \<Rightarrow> string \<Rightarrow> string \<Rightarrow> string list" where
  "wget_argv e tmp_file_location src =
     [''wget'', ''-q''] @ (if c_http_proxy e \<noteq> None \<or> c_ftp_proxy e \<noteq> None then [''-Y'', ''on''] else []) @
     [''-O'', tmp_file_location, src]"

definition opkg_download :: "'w env \<Rightarrow> string \<Rightarrow> string \<Rightarrow> 'w \<Rightarrow> int \<times> 'w" where
  "opkg_download e src dest_file_name w =
     (if starts_with src ''file:'' then file_copy e (drop 5 src) dest_file_name w
      else
        let tmp_file_location = c_tmp_dir e @ ''/'' @ basename src in
        case e_unlink e tmp_file_location w of (errno, w1) \<Rightarrow>
        if errno \<noteq> 0 \<and> errno \<noteq> ENOENT then (-1, w1)
        else (case e_xsystem e (wget_argv e tmp_file_location src) w1 of (res, w2) \<Rightarrow>
                if res \<noteq> 0 then (-1, w2) else file_move e tmp_file_location dest_file_name w2))"

text \<open>A package that has been downloaded is kept under its address or under its file name.\<close>

definition cache_names :: "string \<Rightarrow> string \<Rightarrow> string \<Rightarrow> string \<times> string" where
  "cache_names cache src dest_file_name =
     (cache @ ''/'' @ map (\<lambda>c. if c = CHR ''/'' then CHR '','' else c) src,
      cache @ ''/'' @ (case strrchr_slash dest_file_name of Some s \<Rightarrow> tl s | None \<Rightarrow> dest_file_name))"

definition opkg_download_cache :: "'w env \<Rightarrow> string \<Rightarrow> string \<Rightarrow> 'w \<Rightarrow> int \<times> 'w" where
  "opkg_download_cache e src dest_file_name w =
     (case c_cache e of
        None \<Rightarrow> opkg_download e src dest_file_name w
      | Some cache \<Rightarrow>
          if starts_with src ''file:'' then opkg_download e src dest_file_name w
          else if \<not> file_is_dir e cache w then (1, w)
          else (case cache_names cache src dest_file_name of (url_name, simple_name) \<Rightarrow>
                  if file_exists e url_name w then file_copy e url_name dest_file_name w
                  else if file_exists e simple_name w then file_copy e simple_name dest_file_name w
                  else (case opkg_download e src simple_name w of (err, w1) \<Rightarrow>
                          if err \<noteq> 0 then (err, snd (e_unlink e simple_name w1))
                          else file_copy e simple_name dest_file_name w1)))"

text \<open>The name of the local file is set before the download and stays when it fails.\<close>

definition opkg_download_pkg :: "'w env \<Rightarrow> pkg_ref \<Rightarrow> string \<Rightarrow> 'w sys \<Rightarrow> int \<times> 'w sys" where
  "opkg_download_pkg e r dir y =
     (case (p_src (pkg_at y r), p_filename (pkg_at y r)) of
        (Some src, Some filename) \<Rightarrow>
          let stripped_filename = (case strrchr_slash filename of Some s \<Rightarrow> s | None \<Rightarrow> filename);
              local = dir @ ''/'' @ stripped_filename;
              y1 = mod_pkg r (\<lambda>p. p\<lparr>p_local_filename := Some local\<rparr>) y
          in case opkg_download_cache e (sr_value (c_src e src) @ ''/'' @ filename) local (y_world y1) of
               (err, w) \<Rightarrow> (err, y1\<lparr>y_world := w\<rparr>)
      | _ \<Rightarrow> (-1, y))"

end
