(* ===== verification/Opkg_Install.thy ===== *)
theory Opkg_Install
  imports Opkg_Remove Opkg_Download
begin

text \<open>
  The installation of packages (\<open>libopkg/opkg_install.c\<close>). \<open>opkg_install_pkg\<close> calls itself for the
  packages that a dependency needs and for the replaced packages it puts back after a failure; like
  the removal, the model is given fuel. \<open>None\<close> is a read through a null pointer or past an array, or
  the end of the fuel. The stages of dpkg that are left out in the sources (they only return 0) and
  the messages are not in the model; a pointer that is read only for a message must not be null.
\<close>

type_synonym 'w install_call = "pkg_ref \<Rightarrow> 'w sys \<Rightarrow> (int \<times> 'w sys) option"

text \<open>A stage may end the function with a value.\<close>

type_synonym 'w stage = "'w sys \<Rightarrow> (int option \<times> 'w sys) option"

definition stage :: "'w stage \<Rightarrow> ('w sys \<Rightarrow> (int \<times> 'w sys) option) \<Rightarrow> 'w sys \<Rightarrow> (int \<times> 'w sys) option" where
  "stage m k y =
     do { (stop, y1) \<leftarrow> m y;
          case stop of Some rc \<Rightarrow> Some (rc, y1) | None \<Rightarrow> k y1 }"

text \<open>The calls that end the function with -1 when they fail.\<close>

definition or_fail :: "(int \<times> 'w sys) option \<Rightarrow> (int option \<times> 'w sys) option" where
  "or_fail = map_option (\<lambda>(err, y). (if err \<noteq> 0 then Some (-1) else None, y))"

fun each_until ::
  "('a \<Rightarrow> 'w sys \<Rightarrow> (int \<times> 'w sys) option) \<Rightarrow> 'a list \<Rightarrow> 'w sys \<Rightarrow> (int \<times> 'w sys) option" where
  "each_until f [] y = Some (0, y)"
| "each_until f (x # xs) y =
     do { (err, y1) \<leftarrow> f x y; if err \<noteq> 0 then Some (err, y1) else each_until f xs y1 }"

section \<open>Dependencies, conflicts and space\<close>

definition mark_to_install :: "pkg_ref \<Rightarrow> pkg_ref \<Rightarrow> 'w sys \<Rightarrow> 'w sys" where
  "mark_to_install r d y =
     mod_pkg d (\<lambda>p. p\<lparr>p_dest := (if p_dest p = None then p_dest (pkg_at y r) else p_dest p),
                     p_state_want := SW_INSTALL\<rparr>) y"

definition install_dependency :: "'w install_call \<Rightarrow> pkg_ref \<Rightarrow> 'w sys \<Rightarrow> (int \<times> 'w sys) option" where
  "install_dependency rec d y =
     (if is_installed (pkg_at y d) then Some (0, y)
      else do { (err, y1) \<leftarrow> rec d y;
                Some (err, mod_pkg d (\<lambda>p. p\<lparr>p_auto_installed := True\<rparr>) y1) })"

text \<open>The abstract packages bound the depth of \<open>pkg_hash_fetch_unsatisfied_dependencies\<close>.\<close>

definition satisfy_dependencies_for ::
  "'w env \<Rightarrow> 'w install_call \<Rightarrow> pkg_ref \<Rightarrow> 'w sys \<Rightarrow> (int \<times> 'w sys) option" where
  "satisfy_dependencies_for e rec r y =
     do { (ndepends, depends, unresolved, s) \<leftarrow>
            pkg_hash_fetch_unsatisfied_dependencies (Suc (s_apkg_next (y_store y))) r [] (y_store y);
          let y1 = y\<lparr>y_store := s\<rparr> in
          if unresolved \<noteq> None \<and> \<not> c_force_depends e then Some (-1, y1)
          else if ndepends = 0 then Some (0, y1)
          else each_until (install_dependency rec) depends (fold (mark_to_install r) depends y1) }"

definition check_conflicts_for :: "'w env \<Rightarrow> pkg_ref \<Rightarrow> 'w sys \<Rightarrow> int option" where
  "check_conflicts_for e r y =
     (if c_force_depends e then Some 0
      else map_option (\<lambda>conflicts. if conflicts \<noteq> [] then -1 else 0) (pkg_hash_fetch_conflicts r (y_store y)))"

definition get_available_kbytes :: "'w env \<Rightarrow> string \<Rightarrow> 'w \<Rightarrow> ulong" where
  "get_available_kbytes e filesystem w =
     (case e_statvfs e filesystem w of
        None \<Rightarrow> 0
      | Some (f_bavail, f_frsize) \<Rightarrow>
          if f_frsize \<ge> 1024 then f_bavail * (f_frsize div 1024)
          else if f_frsize > 0 then f_bavail div (1024 div f_frsize)
          else 0)"

definition space_root :: "'w env \<Rightarrow> pkg \<Rightarrow> 'w \<Rightarrow> string" where
  "space_root e p w =
     (case dest_of e p of
        None \<Rightarrow> pd_root_dir (c_dest e (c_default_dest e))
      | Some d \<Rightarrow>
          (case c_overlay_root e of
             None \<Rightarrow> pd_root_dir d
           | Some overlay \<Rightarrow>
               if strcmp (pd_name d) ''root'' = 0 \<and>
                  (case e_stat e overlay w of None \<Rightarrow> False | Some mode \<Rightarrow> mode AND S_IFDIR \<noteq> 0)
               then overlay else pd_root_dir d))"

definition verify_pkg_installable :: "'w env \<Rightarrow> pkg_ref \<Rightarrow> 'w sys \<Rightarrow> int" where
  "verify_pkg_installable e r y =
     (let p = pkg_at y r in
      if c_force_space e \<or> p_installed_size p = 0 then 0
      else
        let kbs_available = get_available_kbytes e (space_root e p (y_world y)) (y_world y);
            pkg_size_kbs = (p_installed_size p + 1023) div 1024
        in if pkg_size_kbs \<ge> kbs_available then -1 else 0)"

section \<open>File owners\<close>

definition obsolete :: "string \<Rightarrow> 'w sys \<Rightarrow> pkg_ref option \<times> 'w sys" where
  "obsolete f y = (case hash_table_get (y_obs_files y) f of (v, h) \<Rightarrow> (v, y\<lparr>y_obs_files := h\<rparr>))"

definition take_file :: "'w env \<Rightarrow> pkg_ref \<Rightarrow> pkg_ref option \<Rightarrow> string \<Rightarrow> 'w sys \<Rightarrow> 'w sys option" where
  "take_file e new_pkg old_pkg new_file y =
     (case file_hash_get_file_owner e new_file y of (owner, y1) \<Rightarrow>
        case obsolete new_file y1 of (obs, y2) \<Rightarrow>
        if owner = None \<or> owner = old_pkg \<or> obs \<noteq> None
        then file_hash_set_file_owner e new_file new_pkg y2 else Some y2)"

definition mark_obsolete :: "'w env \<Rightarrow> pkg_ref \<Rightarrow> string \<Rightarrow> 'w sys \<Rightarrow> 'w sys" where
  "mark_obsolete e old_pkg old_file y =
     (case file_hash_get_file_owner e old_file y of (owner, y1) \<Rightarrow>
        if owner = None \<or> owner = Some old_pkg
        then y1\<lparr>y_obs_files := snd (hash_table_insert (y_obs_files y1) old_file old_pkg)\<rparr> else y1)"

definition update_file_ownership ::
  "'w env \<Rightarrow> pkg_ref \<Rightarrow> pkg_ref option \<Rightarrow> 'w sys \<Rightarrow> (int \<times> 'w sys) option" where
  "update_file_ownership e new_pkg old_pkg y =
     do { (new_list, y1) \<leftarrow> pkg_get_installed_files e new_pkg y;
          case new_list of
            None \<Rightarrow> Some (-1, y1)
          | Some new_files \<Rightarrow>
              do { y2 \<leftarrow> foldM (take_file e new_pkg old_pkg) new_files y1;
                   case old_pkg of
                     None \<Rightarrow> Some (0, pkg_free_installed_files new_pkg y2)
                   | Some old \<Rightarrow>
                       do { (old_list, y3) \<leftarrow> pkg_get_installed_files e old y2;
                            case old_list of
                              None \<Rightarrow> Some (-1, pkg_free_installed_files new_pkg y3)
                            | Some old_files \<Rightarrow>
                                Some (0, pkg_free_installed_files new_pkg (pkg_free_installed_files old
                                           (fold (mark_obsolete e old) old_files y3))) } } }"

section \<open>Control files\<close>

definition pkg_extract_control_files_to_dir_with_prefix ::
  "'w env \<Rightarrow> pkg_ref \<Rightarrow> string \<Rightarrow> string \<Rightarrow> 'w sys \<Rightarrow> (int \<times> 'w sys) option" where
  "pkg_extract_control_files_to_dir_with_prefix e r dir prefix y =
     do { local \<leftarrow> p_local_filename (pkg_at y r);
          case e_deb_control e local (dir @ ''/'' @ prefix) (y_world y) of (err, w) \<Rightarrow> Some (err, y\<lparr>y_world := w\<rparr>) }"

definition pkg_extract_data_files_to_dir ::
  "'w env \<Rightarrow> pkg_ref \<Rightarrow> string \<Rightarrow> 'w sys \<Rightarrow> (int \<times> 'w sys) option" where
  "pkg_extract_data_files_to_dir e r dir y =
     do { local \<leftarrow> p_local_filename (pkg_at y r);
          case e_deb_data e local dir (y_world y) of (err, w) \<Rightarrow> Some (err, y\<lparr>y_world := w\<rparr>) }"

text \<open>The name of a conffile in the destination, without the offline root.\<close>

definition conffile_in_dest :: "'w env \<Rightarrow> pkg_dest \<Rightarrow> string \<Rightarrow> string option" where
  "conffile_in_dest e d line =
     (let cf_name = rev (dropWhile (\<lambda>c. c = CHR '' '' \<or> c = CHR 0x09) (rev line));
          rootlen = (case c_offline_root e of Some root \<Rightarrow> length root | None \<Rightarrow> 0)
      in if length (pd_root_dir d) < rootlen then None
         else Some (drop rootlen (pd_root_dir d) @ (if starts_with cf_name ''/'' then tl cf_name else cf_name)))"

definition add_conffile :: "'w env \<Rightarrow> pkg_ref \<Rightarrow> string \<Rightarrow> 'w sys \<Rightarrow> 'w sys option" where
  "add_conffile e r line y =
     (if line = [] then Some y
      else do { d \<leftarrow> dest_of e (pkg_at y r);
                name \<leftarrow> conffile_in_dest e d line;
                Some (mod_pkg r (\<lambda>p. p\<lparr>p_conffiles := conffile_list_append (p_conffiles p) name None\<rparr>) y) })"

definition unpack_pkg_control_files :: "'w env \<Rightarrow> pkg_ref \<Rightarrow> 'w sys \<Rightarrow> (int \<times> 'w sys) option" where
  "unpack_pkg_control_files e r y =
     (case e_mkdtemp e (c_tmp_dir e @ ''/'' @ fmt_s (p_name (pkg_at y r)) @ ''-XXXXXX'') (y_world y) of
        (tmp, w) \<Rightarrow>
          let y1 = mod_pkg r (\<lambda>p. p\<lparr>p_tmp_unpack_dir := tmp\<rparr>) (y\<lparr>y_world := w\<rparr>) in
          case tmp of
            None \<Rightarrow> Some (-1, y1)
          | Some dir \<Rightarrow>
              do { (err, y2) \<leftarrow> pkg_extract_control_files_to_dir_with_prefix e r dir [] y1;
                   if err \<noteq> 0 then Some (err, y2)
                   else if p_conffiles (pkg_at y2 r) \<noteq> [] then Some (0, y2)
                   else if \<not> file_exists e (dir @ ''/conffiles'') (y_world y2) then Some (0, y2)
                   else (case e_file e (dir @ ''/conffiles'') (y_world y2) of
                           None \<Rightarrow> Some (-1, y2)
                         | Some (text, _) \<Rightarrow> map_option (Pair 0) (foldM (add_conffile e r) (read_lines text) y2)) })"

section \<open>Packages that go\<close>

text \<open>
  Two packages have no \<open>depend\<close> in common: the dependencies of the old package are looked for among
  the pointers of the new one, so they are found only if the packages are the same.
\<close>

definition remove_orphan ::
  "'w remove_call \<Rightarrow> apkg_ref \<Rightarrow> int \<times> 'w sys \<Rightarrow> (int \<times> 'w sys) option" where
  "remove_orphan rem a x =
     (case x of (err, y) \<Rightarrow>
        case fetch_installed a y of
          (None, y1) \<Rightarrow> Some (err, y1)
        | (Some p, y1) \<Rightarrow>
            if \<not> p_auto_installed (pkg_at y1 p) then Some (err, y1)
            else do { (n_deps, dependents, s) \<leftarrow> pkg_has_installed_dependents p (y_store y1);
                      let y2 = y1\<lparr>y_store := s\<rparr> in
                      if n_deps = 1
                      then do { (r, y3) \<leftarrow> rem p False (mod_pkg p (\<lambda>q. q\<lparr>p_state_flag := p_state_flag q OR SF_REPLACE\<rparr>) y2);
                                Some (if err = 0 then r else err, y3) }
                      else Some (err, y2) })"

definition pkg_remove_orphan_dependent ::
  "'w remove_call \<Rightarrow> pkg_ref \<Rightarrow> pkg_ref \<Rightarrow> 'w sys \<Rightarrow> (int \<times> 'w sys) option" where
  "pkg_remove_orphan_dependent rem r old_pkg y =
     do { cds0 \<leftarrow> first_n (all_depends_count (pkg_at y old_pkg)) (p_depends (pkg_at y old_pkg));
          let as = concat (map (\<lambda>cd. map d_pkg (cd_possibilities cd)) (filter (\<lambda>cd. cd_type cd = DEPEND) cds0));
          if as = [] \<or> old_pkg = r then Some (0, y)
          else do { cds1 \<leftarrow> first_n (all_depends_count (pkg_at y r)) (p_depends (pkg_at y r));
                    foldM (remove_orphan rem) as (0, y) } }"

definition add_replacee :: "store \<Rightarrow> pkg_ref \<Rightarrow> pkg_ref \<Rightarrow> pkg_ref list \<Rightarrow> pkg_ref list option" where
  "add_replacee s r replacee vec =
     do { c \<leftarrow> pkg_conflicts (s_pkgs s r) (s_pkgs s replacee);
          Some (if c \<and> p_state_status (s_pkgs s replacee) = SS_INSTALLED then pkg_vec_insert vec replacee else vec) }"

definition pkg_get_installed_replacees :: "store \<Rightarrow> pkg_ref \<Rightarrow> pkg_ref list option" where
  "pkg_get_installed_replacees s r =
     do { as \<leftarrow> first_n (p_replaces_count (s_pkgs s r)) (p_replaces (s_pkgs s r));
          foldM (\<lambda>a. foldM (add_replacee s r) (apkg_pkgs s a)) as [] }"

definition remove_replacee :: "'w remove_call \<Rightarrow> pkg_ref \<Rightarrow> 'w sys \<Rightarrow> (int \<times> 'w sys) option" where
  "remove_replacee rem p y = rem p False (mod_pkg p (\<lambda>q. q\<lparr>p_state_flag := p_state_flag q OR SF_REPLACE\<rparr>) y)"

definition pkg_remove_installed_replacees ::
  "'w remove_call \<Rightarrow> pkg_ref list \<Rightarrow> 'w sys \<Rightarrow> (int \<times> 'w sys) option" where
  "pkg_remove_installed_replacees rem = each_until (remove_replacee rem)"

definition restore_replacee :: "'w install_call \<Rightarrow> pkg_ref \<Rightarrow> 'w sys \<Rightarrow> (int \<times> 'w sys) option" where
  "restore_replacee rec p y = (if p_state_status (pkg_at y p) \<noteq> SS_INSTALLED then rec p y else Some (0, y))"

definition pkg_remove_installed_replacees_unwind ::
  "'w install_call \<Rightarrow> pkg_ref list \<Rightarrow> 'w sys \<Rightarrow> (int \<times> 'w sys) option" where
  "pkg_remove_installed_replacees_unwind rec = each_until (restore_replacee rec)"

section \<open>Versions and scripts\<close>

definition opkg_install_check_downgrade ::
  "'w env \<Rightarrow> pkg_ref \<Rightarrow> pkg_ref option \<Rightarrow> 'w sys \<Rightarrow> (int \<times> 'w sys) option" where
  "opkg_install_check_downgrade e r old_pkg y =
     (case old_pkg of
        Some old \<Rightarrow>
          let cmp = pkg_compare_versions (pkg_at y old) (pkg_at y r);
              cmp = (if c_force_downgrade e \<and> cmp > 0 then -1 else cmp)
          in if \<not> c_download_only e \<and> p_dest (pkg_at y old) = None then None
             else if cmp < 0 then Some (0, mod_pkg r (\<lambda>p. p\<lparr>p_dest := p_dest (pkg_at y old)\<rparr>) y)
             else Some (1, y)
      | None \<Rightarrow> if \<not> c_download_only e \<and> p_dest (pkg_at y r) = None then None else Some (0, y))"

definition preinst_configure :: "'w env \<Rightarrow> pkg_ref \<Rightarrow> pkg_ref option \<Rightarrow> 'w sys \<Rightarrow> int \<times> 'w sys" where
  "preinst_configure e r old_pkg y =
     (let preinst_args =
        (case old_pkg of
           Some old \<Rightarrow> ''upgrade '' @ fmt_s (pkg_version_str_alloc (pkg_at y old))
         | None \<Rightarrow> if p_state_status (pkg_at y r) = SS_CONFIG_FILES
                   then ''install '' @ fmt_s (pkg_version_str_alloc (pkg_at y r)) else ''install'')
      in case pkg_run_script e r ''preinst'' preinst_args y of (err, y1) \<Rightarrow> (if err \<noteq> 0 then -1 else 0, y1))"

definition opkg_configure :: "'w env \<Rightarrow> pkg_ref \<Rightarrow> 'w sys \<Rightarrow> int \<times> 'w sys" where
  "opkg_configure e r y = pkg_run_script e r ''postinst'' ''configure'' y"

section \<open>Conffiles\<close>

definition backup_filename_alloc :: "string \<Rightarrow> string" where
  "backup_filename_alloc file_name = file_name @ ''-opkg.backup''"

definition backup_make_backup :: "'w env \<Rightarrow> string \<Rightarrow> 'w \<Rightarrow> int \<times> 'w" where
  "backup_make_backup e file_name w = file_copy e file_name (backup_filename_alloc file_name) w"

definition backup_exists_for :: "'w env \<Rightarrow> string \<Rightarrow> 'w \<Rightarrow> bool" where
  "backup_exists_for e file_name w = file_exists e (backup_filename_alloc file_name) w"

definition backup_remove :: "'w env \<Rightarrow> string \<Rightarrow> 'w \<Rightarrow> 'w" where
  "backup_remove e file_name w = snd (e_unlink e (backup_filename_alloc file_name) w)"

fun copy_until :: "('a \<Rightarrow> 'w \<Rightarrow> int \<times> 'w) \<Rightarrow> 'a list \<Rightarrow> 'w \<Rightarrow> int \<times> 'w" where
  "copy_until f [] w = (0, w)"
| "copy_until f (x # xs) w = (case f x w of (err, w1) \<Rightarrow> if err \<noteq> 0 then (err, w1) else copy_until f xs w1)"

definition backup_old_conffile :: "'w env \<Rightarrow> nv_pair \<Rightarrow> 'w \<Rightarrow> int \<times> 'w" where
  "backup_old_conffile e cf w =
     (let cf_name = root_filename_alloc e (fmt_s (nv_name cf)) in
      if file_exists e cf_name w \<and> conffile_has_been_modified e cf w then backup_make_backup e cf_name w else (0, w))"

definition backup_new_conffile :: "'w env \<Rightarrow> pkg option \<Rightarrow> nv_pair \<Rightarrow> 'w \<Rightarrow> int \<times> 'w" where
  "backup_new_conffile e old cf w =
     (let cf_name = root_filename_alloc e (fmt_s (nv_name cf)) in
      if pkg_get_conffile old (fmt_s (nv_name cf)) \<noteq> None then (0, w)
      else if file_exists e cf_name w \<and> \<not> backup_exists_for e cf_name w then backup_make_backup e cf_name w
      else (0, w))"

definition backup_modified_conffiles :: "'w env \<Rightarrow> pkg \<Rightarrow> pkg option \<Rightarrow> 'w \<Rightarrow> int \<times> 'w" where
  "backup_modified_conffiles e p old w =
     (if c_noaction e then (0, w)
      else case copy_until (backup_old_conffile e) (case old of None \<Rightarrow> [] | Some q \<Rightarrow> p_conffiles q) w of
             (err, w1) \<Rightarrow> if err \<noteq> 0 then (err, w1)
                         else copy_until (backup_new_conffile e old) (p_conffiles p) w1)"

definition backup_modified_conffiles_unwind :: "'w env \<Rightarrow> pkg \<Rightarrow> pkg option \<Rightarrow> 'w \<Rightarrow> 'w" where
  "backup_modified_conffiles_unwind e p old w =
     fold (\<lambda>cf. backup_remove e (fmt_s (nv_name cf)))
       ((case old of None \<Rightarrow> [] | Some q \<Rightarrow> p_conffiles q) @ p_conffiles p) w"

text \<open>One conffile after the data files have been written.\<close>

definition keep_or_replace :: "'w env \<Rightarrow> string \<Rightarrow> string option \<Rightarrow> 'w \<Rightarrow> 'w" where
  "keep_or_replace e root_filename md5 w =
     (let cf_backup = backup_filename_alloc root_filename in
      if file_exists e cf_backup w
      then
        let w1 = (case (md5_of e cf_backup w, md5) of
                    (Some md5sum, Some v) \<Rightarrow>
                      if strcmp v md5sum \<noteq> 0 \<and> \<not> c_force_maintainer e
                      then snd (e_rename e cf_backup root_filename
                             (snd (e_rename e root_filename (root_filename @ ''-opkg'') w)))
                      else w
                  | _ \<Rightarrow> w)
        in snd (e_unlink e cf_backup w1)
      else w)"

definition resolve_conffile :: "'w env \<Rightarrow> nv_pair \<Rightarrow> nv_pair list \<times> 'w \<Rightarrow> nv_pair list \<times> 'w" where
  "resolve_conffile e cf x =
     (case x of (cfs, w) \<Rightarrow>
        let root_filename = root_filename_alloc e (fmt_s (nv_name cf));
            cf = (if nv_value cf = None then cf\<lparr>nv_value := md5_of e root_filename w\<rparr> else cf)
        in (cfs @ [cf], if \<not> file_exists e root_filename w then w
                        else keep_or_replace e root_filename (nv_value cf) w))"

definition resolve_conffiles :: "'w env \<Rightarrow> pkg_ref \<Rightarrow> 'w sys \<Rightarrow> 'w sys" where
  "resolve_conffiles e r y =
     (if c_noaction e then y
      else case fold (resolve_conffile e) (p_conffiles (pkg_at y r)) ([], y_world y) of
             (cfs, w) \<Rightarrow> mod_pkg r (\<lambda>p. p\<lparr>p_conffiles := cfs\<rparr>) (y\<lparr>y_world := w\<rparr>))"

section \<open>Clashes\<close>

definition same_name :: "'w sys \<Rightarrow> pkg_ref \<Rightarrow> pkg_ref \<Rightarrow> bool option" where
  "same_name y p q = same_text (p_name (pkg_at y p)) (p_name (pkg_at y q))"

text \<open>Whether the owner of a file lets the package overwrite it.\<close>

definition owner_permits :: "pkg_ref \<Rightarrow> pkg_ref option \<Rightarrow> pkg_ref \<Rightarrow> 'w sys \<Rightarrow> bool option" where
  "owner_permits r old_pkg owner y =
     do { upgraded \<leftarrow> (case old_pkg of Some old \<Rightarrow> same_name y owner old | None \<Rightarrow> Some False);
          if upgraded then Some True
          else do { replaced \<leftarrow> pkg_replaces (pkg_at y r) (pkg_at y owner);
                    if replaced then Some True else same_name y owner r } }"

definition clash :: "'w env \<Rightarrow> pkg_ref \<Rightarrow> pkg_ref option \<Rightarrow> string \<Rightarrow> int \<times> 'w sys \<Rightarrow> (int \<times> 'w sys) option" where
  "clash e r old_pkg filename x =
     (case x of (clashes, y) \<Rightarrow>
        if \<not> file_exists e filename (y_world y) \<or> file_is_dir e filename (y_world y) then Some (clashes, y)
        else if backup_exists_for e filename (y_world y) then Some (clashes, y)
        else if c_force_overwrite e then map_option (Pair clashes) (file_hash_set_file_owner e filename r y)
        else
          case file_hash_get_file_owner e filename y of (owner, y1) \<Rightarrow>
            do { ok \<leftarrow> (case owner of None \<Rightarrow> Some False | Some o' \<Rightarrow> owner_permits r old_pkg o' y1);
                 if ok then Some (clashes, y1)
                 else (case obsolete filename y1 of (obs, y2) \<Rightarrow>
                         Some (if obs \<noteq> None then clashes else clashes + 1, y2)) })"

definition check_data_file_clashes ::
  "'w env \<Rightarrow> pkg_ref \<Rightarrow> pkg_ref option \<Rightarrow> 'w sys \<Rightarrow> (int \<times> 'w sys) option" where
  "check_data_file_clashes e r old_pkg y =
     do { (files_list, y1) \<leftarrow> pkg_get_installed_files e r y;
          case files_list of
            None \<Rightarrow> Some (-1, y1)
          | Some fs \<Rightarrow> do { (clashes, y2) \<leftarrow> foldM (clash e r old_pkg) fs (0, y1);
                            Some (clashes, pkg_free_installed_files r y2) } }"

definition change_owner :: "'w env \<Rightarrow> pkg_ref \<Rightarrow> string \<Rightarrow> 'w sys \<Rightarrow> 'w sys option" where
  "change_owner e r filename y =
     (let root_filename = root_filename_alloc e filename in
      if \<not> file_exists e root_filename (y_world y) \<or> file_is_dir e root_filename (y_world y) then Some y
      else
        case file_hash_get_file_owner e filename y of (owner, y1) \<Rightarrow>
          if c_force_overwrite e then file_hash_set_file_owner e filename r y1
          else (case owner of
                  None \<Rightarrow> Some y1
                | Some o' \<Rightarrow> do { replaced \<leftarrow> pkg_replaces (pkg_at y1 r) (pkg_at y1 o');
                                  if replaced then file_hash_set_file_owner e filename r y1 else Some y1 }))"

definition check_data_file_clashes_change :: "'w env \<Rightarrow> pkg_ref \<Rightarrow> 'w sys \<Rightarrow> (int \<times> 'w sys) option" where
  "check_data_file_clashes_change e r y =
     do { (files_list, y1) \<leftarrow> pkg_get_installed_files e r y;
          case files_list of
            None \<Rightarrow> Some (-1, y1)
          | Some fs \<Rightarrow> do { y2 \<leftarrow> foldM (change_owner e r) fs y1; Some (0, pkg_free_installed_files r y2) } }"

section \<open>Files\<close>

definition remove_obsolete ::
  "'w env \<Rightarrow> string hash_table \<Rightarrow> pkg_ref \<Rightarrow> string \<Rightarrow> int \<times> 'w sys \<Rightarrow> int \<times> 'w sys" where
  "remove_obsolete e new_files_table old_pkg old x =
     (case x of (err, y) \<Rightarrow>
        if fst (hash_table_get new_files_table old) \<noteq> None then (err, y)
        else if file_is_dir e old (y_world y) then (err, y)
        else
          case file_hash_get_file_owner e old y of (owner, y1) \<Rightarrow>
            if owner \<noteq> Some old_pkg \<or> c_noaction e then (err, y1)
            else (case e_unlink e old (y_world y1) of
                    (errno, w) \<Rightarrow> (if errno \<noteq> 0 then -1 else 0, y1\<lparr>y_world := w\<rparr>)))"

definition remove_obsolesced_files :: "'w env \<Rightarrow> pkg_ref \<Rightarrow> pkg_ref \<Rightarrow> 'w sys \<Rightarrow> (int \<times> 'w sys) option" where
  "remove_obsolesced_files e r old_pkg y =
     do { (old_list, y1) \<leftarrow> pkg_get_installed_files e old_pkg y;
          case old_list of
            None \<Rightarrow> Some (-1, y1)
          | Some old_files \<Rightarrow>
              do { (new_list, y2) \<leftarrow> pkg_get_installed_files e r y1;
                   case new_list of
                     None \<Rightarrow> Some (-1, pkg_free_installed_files old_pkg y2)
                   | Some new_files \<Rightarrow>
                       let new_files_table = fold (\<lambda>f h. snd (hash_table_insert h f f)) new_files
                                               (hash_table_init ''new_files'' blank_table 20)
                       in case fold (remove_obsolete e new_files_table old_pkg) old_files (0, y2) of
                            (err, y3) \<Rightarrow>
                              Some (err, pkg_free_installed_files r (pkg_free_installed_files old_pkg y3)) } }"

definition install_maintainer_scripts :: "'w env \<Rightarrow> pkg_ref \<Rightarrow> 'w sys \<Rightarrow> (int \<times> 'w sys) option" where
  "install_maintainer_scripts e r y =
     do { d \<leftarrow> dest_of e (pkg_at y r);
          pkg_extract_control_files_to_dir_with_prefix e r (pd_info_dir d) (fmt_s (p_name (pkg_at y r)) @ ''.'') y }"

definition install_data_files :: "'w env \<Rightarrow> pkg_ref \<Rightarrow> 'w sys \<Rightarrow> (int \<times> 'w sys) option" where
  "install_data_files e r y =
     do { d \<leftarrow> dest_of e (pkg_at y r);
          (err, y1) \<leftarrow> pkg_extract_data_files_to_dir e r (pd_root_dir d) y;
          if err \<noteq> 0 then Some (err, y1)
          else do { y2 \<leftarrow> set_flags_from_control e r y1; pkg_write_filelist e r y2 } }"

section \<open>\<open>opkg_install_pkg\<close>\<close>

definition obtain_file :: "'w env \<Rightarrow> pkg_ref \<Rightarrow> 'w stage" where
  "obtain_file e r y =
     (if p_local_filename (pkg_at y r) \<noteq> None then Some (None, y)
      else if c_cache e = None \<and> c_download_only e
      then (case e_getcwd e (y_world y) of
              None \<Rightarrow> Some (Some (-1), y)
            | Some cwd \<Rightarrow> or_fail (Some (opkg_download_pkg e r cwd y)))
      else or_fail (Some (opkg_download_pkg e r (c_tmp_dir e) y)))"

text \<open>A file that cannot be read has no digest and passes.\<close>

definition md5_mismatch :: "'w env \<Rightarrow> pkg_ref \<Rightarrow> 'w sys \<Rightarrow> bool option" where
  "md5_mismatch e r y =
     (case p_md5sum (pkg_at y r) of
        None \<Rightarrow> Some False
      | Some md5sum \<Rightarrow>
          do { local \<leftarrow> p_local_filename (pkg_at y r);
               Some (case md5_of e local (y_world y) of
                       None \<Rightarrow> False
                     | Some file_md5 \<Rightarrow> strcmp file_md5 md5sum \<noteq> 0) })"

definition check_md5 :: "'w env \<Rightarrow> pkg_ref \<Rightarrow> 'w stage" where
  "check_md5 e r y = map_option (\<lambda>bad. (if bad then Some (-1) else None, y)) (md5_mismatch e r y)"

definition already_installed :: "'w env \<Rightarrow> 'w install_call \<Rightarrow> pkg_ref \<Rightarrow> 'w stage" where
  "already_installed e rec r y =
     (if p_state_status (pkg_at y r) = SS_INSTALLED \<and> \<not> c_nodeps e
      then do { (err, y1) \<leftarrow> satisfy_dependencies_for e rec r y;
                if err \<noteq> 0 then Some (Some (-1), y1)
                else if p_dest (pkg_at y1 r) = None then None else Some (Some 0, y1) }
      else Some (None, y))"

definition default_dest :: "'w env \<Rightarrow> pkg_ref \<Rightarrow> 'w sys \<Rightarrow> 'w sys" where
  "default_dest e r y =
     mod_pkg r (\<lambda>p. if p_dest p = None then p\<lparr>p_dest := Some (c_default_dest e)\<rparr> else p) y"

definition find_old :: "pkg_ref \<Rightarrow> 'w sys \<Rightarrow> (pkg_ref option \<times> 'w sys) option" where
  "find_old r y =
     do { name \<leftarrow> p_name (pkg_at y r);
          case pkg_hash_fetch_installed_by_name name (y_store y) of (p, s) \<Rightarrow> Some (p, y\<lparr>y_store := s\<rparr>) }"

definition mark_wanted :: "pkg_ref \<Rightarrow> pkg_ref option \<Rightarrow> 'w sys \<Rightarrow> 'w sys" where
  "mark_wanted r old_pkg y =
     (let y1 = mod_pkg r (\<lambda>p. p\<lparr>p_state_want := SW_INSTALL\<rparr>) y in
      case old_pkg of None \<Rightarrow> y1 | Some old \<Rightarrow> mod_pkg old (\<lambda>p. p\<lparr>p_state_want := SW_DEINSTALL\<rparr>) y1)"

text \<open>The checks before anything is fetched.\<close>

definition check_installable :: "'w env \<Rightarrow> pkg_ref \<Rightarrow> pkg_ref option \<Rightarrow> 'w stage" where
  "check_installable e r old_pkg y =
     do { (err, y1) \<leftarrow> opkg_install_check_downgrade e r old_pkg y;
          if err \<noteq> 0 then Some (Some (-1), y1)
          else
            let y2 = mark_wanted r old_pkg y1 in
            do { err \<leftarrow> check_conflicts_for e r y2;
                 Some (if err \<noteq> 0 then Some (-1)
                       else if p_state_status (pkg_at y2 r) = SS_INSTALLED then Some 0
                       else if verify_pkg_installable e r y2 \<noteq> 0 then Some (-1) else None, y2) } }"

definition only_download :: "'w env \<Rightarrow> 'w install_call \<Rightarrow> pkg_ref \<Rightarrow> 'w stage" where
  "only_download e rec r y =
     (if \<not> c_download_only e then Some (None, y)
      else if c_nodeps e then Some (Some 0, y)
      else map_option (\<lambda>(err, y1). (Some (if err \<noteq> 0 then -1 else 0), y1)) (satisfy_dependencies_for e rec r y))"

definition unpack_control :: "'w env \<Rightarrow> pkg_ref \<Rightarrow> 'w stage" where
  "unpack_control e r y =
     (if p_tmp_unpack_dir (pkg_at y r) \<noteq> None then Some (None, y)
      else map_option (\<lambda>(err, y1). (if err = -1 then Some (-1) else None, y1)) (unpack_pkg_control_files e r y))"

definition install_dependencies :: "'w env \<Rightarrow> 'w install_call \<Rightarrow> pkg_ref \<Rightarrow> 'w stage" where
  "install_dependencies e rec r y =
     (if c_nodeps e then Some (None, y)
      else do { (err, y1) \<leftarrow> satisfy_dependencies_for e rec r y;
                Some (if err \<noteq> 0 then Some (-1)
                      else if p_state_status (pkg_at y1 r) = SS_UNPACKED then Some 0 else None, y1) })"

definition set_sigint :: "bool \<Rightarrow> 'w sys \<Rightarrow> 'w sys" where
  "set_sigint blocked y = y\<lparr>y_sigint_blocked := blocked\<rparr>"

text \<open>The way out after an error: what the stages have done is undone from the last one on.\<close>

definition unwind ::
  "'w env \<Rightarrow> 'w install_call \<Rightarrow> pkg_ref \<Rightarrow> pkg_ref option \<Rightarrow> pkg_ref list \<Rightarrow> bool \<Rightarrow> 'w sys \<Rightarrow> (int \<times> 'w sys) option" where
  "unwind e rec r old_pkg replacees conffiles y =
     (let y1 = (if conffiles
                then y\<lparr>y_world := backup_modified_conffiles_unwind e (pkg_at y r) (map_option (pkg_at y) old_pkg) (y_world y)\<rparr>
                else y)
      in do { (err, y2) \<leftarrow> pkg_remove_installed_replacees_unwind rec replacees y1;
              Some (-1, set_sigint False y2) })"

definition remove_old :: "'w env \<Rightarrow> pkg_ref \<Rightarrow> pkg_ref \<Rightarrow> 'w sys \<Rightarrow> 'w sys option" where
  "remove_old e r old y =
     (let y1 = mod_pkg old (\<lambda>p. p\<lparr>p_state_want := SW_DEINSTALL\<rparr>) y in
      do { y2 \<leftarrow> (if p_state_flag (pkg_at y1 old) AND SF_NOPRUNE \<noteq> 0 then Some y1
                  else map_option snd (remove_obsolesced_files e r old y1));
           y3 \<leftarrow> remove_data_files_and_list e old y2;
           remove_maintainer_scripts e old y3 })"

definition mark_unpacked :: "'w env \<Rightarrow> pkg_ref \<Rightarrow> pkg_ref option \<Rightarrow> 'w sys \<Rightarrow> 'w sys" where
  "mark_unpacked e r old_pkg y =
     (let y1 = mod_pkg r (\<lambda>p. p\<lparr>p_state_status := SS_UNPACKED,
                              p_state_flag := p_state_flag p AND NOT SF_PREFER\<rparr>) y;
          y2 = (case old_pkg of
                  None \<Rightarrow> y1 | Some old \<Rightarrow> mod_pkg old (\<lambda>p. p\<lparr>p_state_status := SS_NOT_INSTALLED\<rparr>) y1);
          y3 = mod_pkg r (\<lambda>p. p\<lparr>p_installed_time := e_time e (y_world y2)\<rparr>) y2
      in case p_parent (pkg_at y3 r) of
           None \<Rightarrow> y3
         | Some a \<Rightarrow> mod_apkg a (\<lambda>b. b\<lparr>ap_state_status := p_state_status (pkg_at y3 r)\<rparr>) y3)"

text \<open>Behind the point of no return nothing is undone.\<close>

definition commit :: "'w env \<Rightarrow> pkg_ref \<Rightarrow> pkg_ref option \<Rightarrow> 'w sys \<Rightarrow> (int \<times> 'w sys) option" where
  "commit e r old_pkg y =
     do { y1 \<leftarrow> (case old_pkg of None \<Rightarrow> Some y | Some old \<Rightarrow> remove_old e r old y);
          (err, y2) \<leftarrow> install_maintainer_scripts e r y1;
          if err \<noteq> 0 then Some (-1, set_sigint False y2)
          else do { (err, y3) \<leftarrow> install_data_files e r y2;
                    if err \<noteq> 0 then Some (-1, set_sigint False y3)
                    else do { (err, y4) \<leftarrow> check_data_file_clashes_change e r y3;
                              Some (0, set_sigint False (mark_unpacked e r old_pkg (resolve_conffiles e r y4))) } } }"

definition locked ::
  "'w env \<Rightarrow> 'w remove_call \<Rightarrow> 'w install_call \<Rightarrow> pkg_ref \<Rightarrow> pkg_ref option \<Rightarrow> pkg_ref list \<Rightarrow> 'w sys \<Rightarrow> (int \<times> 'w sys) option" where
  "locked e rem rec r old_pkg replacees y =
     (let y0 = (mod_pkg r filelist_changed (set_sigint True y))\<lparr>y_state_changed := y_state_changed y + 1\<rparr> in
      do { y1 \<leftarrow> (case old_pkg of
                    None \<Rightarrow> Some y0
                  | Some old \<Rightarrow> map_option snd (pkg_remove_orphan_dependent rem r old y0));
           (err, y2) \<leftarrow> pkg_remove_installed_replacees rem replacees y1;
           if err \<noteq> 0 then unwind e rec r old_pkg replacees False y2
           else
             case preinst_configure e r old_pkg y2 of (err, y3) \<Rightarrow>
             if err \<noteq> 0 then unwind e rec r old_pkg replacees False y3
             else
               case backup_modified_conffiles e (pkg_at y3 r) (map_option (pkg_at y3) old_pkg) (y_world y3) of
                 (err, w) \<Rightarrow>
                   let y4 = y3\<lparr>y_world := w\<rparr> in
                   if err \<noteq> 0 then unwind e rec r old_pkg replacees True y4
                   else do { (clashes, y5) \<leftarrow> check_data_file_clashes e r old_pkg y4;
                             if clashes \<noteq> 0 then unwind e rec r old_pkg replacees True y5
                             else if c_noaction e then Some (0, y5)
                             else commit e r old_pkg y5 } })"

definition install_body :: "'w env \<Rightarrow> 'w remove_call \<Rightarrow> 'w install_call \<Rightarrow> 'w install_call" where
  "install_body e rem rec r y =
     (if \<not> pkg_arch_supported e (pkg_at y r) then Some (-1, y)
      else
        stage (already_installed e rec r) (\<lambda>y1.
        do { (old_pkg, y2) \<leftarrow> find_old r (default_dest e r y1);
             stage (check_installable e r old_pkg) (
             stage (obtain_file e r) (
             stage (check_md5 e r) (
             stage (only_download e rec r) (
             stage (unpack_control e r) (
             stage (\<lambda>y. or_fail (update_file_ownership e r old_pkg y)) (
             stage (install_dependencies e rec r) (\<lambda>y3.
             do { replacees \<leftarrow> pkg_get_installed_replacees (y_store y3) r;
                  locked e rem rec r old_pkg replacees y3 }))))))) y2 }) y)"

text \<open>
  The function calls itself for dependencies and for packages it puts back. \<open>fuel\<close> bounds how deep
  the calls nest, and \<open>bottom\<close> answers a call for which none is left; a result that is the same for
  every \<open>bottom\<close> is the result of the code. \<open>opkg_install_pkg\<close> gives up with \<open>None\<close> there.
\<close>

primrec install_nested :: "'w install_call \<Rightarrow> nat \<Rightarrow> nat \<Rightarrow> 'w env \<Rightarrow> 'w install_call" where
  "install_nested bottom 0 rfuel e = bottom"
| "install_nested bottom (Suc fuel) rfuel e =
     install_body e (opkg_remove_pkg rfuel e) (install_nested bottom fuel rfuel e)"

definition opkg_install_pkg :: "nat \<Rightarrow> nat \<Rightarrow> 'w env \<Rightarrow> 'w install_call" where
  "opkg_install_pkg = install_nested (\<lambda>r y. None)"

lemma opkg_install_pkg_simps [simp]:
  "opkg_install_pkg 0 rfuel e = (\<lambda>r y. None)"
  "opkg_install_pkg (Suc fuel) rfuel e =
     install_body e (opkg_remove_pkg rfuel e) (opkg_install_pkg fuel rfuel e)"
  by (simp_all add: opkg_install_pkg_def)

definition newer :: "'w env \<Rightarrow> pkg \<Rightarrow> pkg \<Rightarrow> bool" where
  "newer e old new \<longleftrightarrow>
     pkg_compare_versions old new < 0 \<or> c_force_downgrade e \<and> pkg_compare_versions old new > 0"

definition opkg_install_by_name :: "nat \<Rightarrow> nat \<Rightarrow> 'w env \<Rightarrow> string \<Rightarrow> 'w sys \<Rightarrow> (int \<times> 'w sys) option" where
  "opkg_install_by_name fuel rfuel e pkg_name y =
     (case pkg_hash_fetch_installed_by_name pkg_name (y_store y) of
        (old_pkg, s) \<Rightarrow>
          do { (new_pkg, s1) \<leftarrow> pkg_hash_fetch_best_installation_candidate_by_name pkg_name s;
               let y1 = y\<lparr>y_store := s1\<rparr> in
               case new_pkg of
                 None \<Rightarrow> Some (-1, y1)
               | Some new \<Rightarrow>
                   let y2 = mod_pkg new (\<lambda>p. p\<lparr>p_state_flag := p_state_flag p OR SF_USER\<rparr>) y1 in
                   case old_pkg of
                     None \<Rightarrow> opkg_install_pkg fuel rfuel e new y2
                   | Some old \<Rightarrow>
                       if \<not> newer e (pkg_at y2 old) (pkg_at y2 new)
                       then if p_dest (pkg_at y2 old) = None then None else Some (0, y2)
                       else opkg_install_pkg fuel rfuel e new
                              (mod_pkg old (\<lambda>p. p\<lparr>p_state_want := SW_DEINSTALL\<rparr>)
                                (mod_pkg new (\<lambda>p. p\<lparr>p_dest := p_dest (pkg_at y2 old)\<rparr>) y2)) })"

definition opkg_upgrade_pkg :: "nat \<Rightarrow> nat \<Rightarrow> 'w env \<Rightarrow> pkg_ref \<Rightarrow> 'w sys \<Rightarrow> (int \<times> 'w sys) option" where
  "opkg_upgrade_pkg fuel rfuel e old y =
     (if p_state_flag (pkg_at y old) AND SF_HOLD \<noteq> 0 then Some (0, y)
      else
        do { name \<leftarrow> p_name (pkg_at y old);
             (new_pkg, s) \<leftarrow> pkg_hash_fetch_best_installation_candidate_by_name name (y_store y);
             let y1 = y\<lparr>y_store := s\<rparr> in
             case new_pkg of
               None \<Rightarrow> Some (0, y1)
             | Some new \<Rightarrow>
                 if pkg_compare_versions (pkg_at y1 old) (pkg_at y1 new) \<ge> 0
                 then if p_dest (pkg_at y1 old) = None then None else Some (0, y1)
                 else opkg_install_pkg fuel rfuel e new
                        (mod_pkg new (\<lambda>p. p\<lparr>p_state_flag := p_state_flag p OR SF_USER\<rparr>)
                          (mod_pkg old (\<lambda>p. p\<lparr>p_state_want := SW_DEINSTALL\<rparr>)
                            (mod_pkg new (\<lambda>p. p\<lparr>p_dest := p_dest (pkg_at y1 old)\<rparr>) y1))) })"

end
