(* ===== verification/Opkg_Essential.thy ===== *)
theory Opkg_Essential
  imports Opkg_World
begin

text \<open>
  \<open>set_flags_from_control\<close> reads the control file of an installed package with a mask that leaves
  the field \<open>Essential\<close> only; these lemmas show that nothing else of the package changes.
\<close>

lemma parse_stream_keeps:
  assumes "\<And>it line. I it \<Longrightarrow> I (fst (f it line))" "I item"
  shows "I (fst (snd (parse_stream_loop f acc bl m item fp)))"
  using assms
proof (induction f acc bl m item fp rule: parse_stream_loop.induct)
  case (1 f acc bl m item fp)
  show ?case
  proof (cases "fgets bl (st_data fp)")
    case None
    then show ?thesis using 1(3,4) by (subst parse_stream_loop.simps) simp
  next
    case (Some x)
    obtain chunk rest where x: "x = (chunk, rest)" by fastforce
    obtain item' stop where l: "f item (acc @ takeWhile (\<lambda>c. c \<noteq> CHR 0x0A) chunk) = (item', stop)" by fastforce
    then have "I item'" using 1(3) [OF 1(4)] by (metis fst_conv)
    then show ?thesis
      using 1(1,2) [OF Some x [symmetric] refl refl] 1(3,4) l
      by (subst parse_stream_loop.simps) (auto simp: Some x Let_def)
  qed
qed

definition essential_mask :: "uint \<Rightarrow> uint" where
  "essential_mask pfm = ((PFM_ALL XOR PFM_ESSENTIAL) OR pfm) XOR PFM_ALL"

lemma essential_bit: "i \<noteq> 7 \<Longrightarrow> i < 32 \<Longrightarrow> essential_mask pfm AND 2 ^ i = 0"
proof -
  have "bit PFM_ESSENTIAL j \<longleftrightarrow> j = 7" for j unfolding PFM_ESSENTIAL_def bit_exp_iff by auto
  then show "i \<noteq> 7 \<Longrightarrow> i < 32 \<Longrightarrow> essential_mask pfm AND 2 ^ i = 0"
    by (intro bit_word_eqI) (auto simp: bit_simps essential_mask_def PFM_ALL_def)
qed

lemma essential_mask_bits:
  "essential_mask pfm AND PFM_ARCHITECTURE = 0" "essential_mask pfm AND PFM_AUTO_INSTALLED = 0"
  "essential_mask pfm AND PFM_CONFFILES = 0" "essential_mask pfm AND PFM_CONFLICTS = 0"
  "essential_mask pfm AND PFM_DESCRIPTION = 0" "essential_mask pfm AND PFM_DEPENDS = 0"
  "essential_mask pfm AND PFM_FILENAME = 0" "essential_mask pfm AND PFM_INSTALLED_SIZE = 0"
  "essential_mask pfm AND PFM_INSTALLED_TIME = 0" "essential_mask pfm AND PFM_MD5SUM = 0"
  "essential_mask pfm AND PFM_MAINTAINER = 0" "essential_mask pfm AND PFM_PACKAGE = 0"
  "essential_mask pfm AND PFM_PRIORITY = 0" "essential_mask pfm AND PFM_PROVIDES = 0"
  "essential_mask pfm AND PFM_PRE_DEPENDS = 0" "essential_mask pfm AND PFM_RECOMMENDS = 0"
  "essential_mask pfm AND PFM_REPLACES = 0" "essential_mask pfm AND PFM_SECTION = 0"
  "essential_mask pfm AND PFM_SIZE = 0" "essential_mask pfm AND PFM_SOURCE = 0"
  "essential_mask pfm AND PFM_STATUS = 0" "essential_mask pfm AND PFM_SUGGESTS = 0"
  "essential_mask pfm AND PFM_TAGS = 0" "essential_mask pfm AND PFM_VERSION = 0"
  by (unfold pfm_defs, (rule essential_bit; simp)+)

definition only_essential :: "pkg \<Rightarrow> pkg \<Rightarrow> bool" where
  "only_essential p q \<longleftrightarrow> (q = p \<or> q = p\<lparr>p_essential := True\<rparr>)"

lemma parse_line_essential:
  assumes "pkg_parse_line env (PFM_ALL XOR PFM_ESSENTIAL) st line = Some (st', stop)"
  shows "only_essential (ps_pkg st) (ps_pkg st')"
proof -
  define c where "c = (case line of [] \<Rightarrow> CHR 0x00 | c # _ \<Rightarrow> c)"
  define skip where "skip = Some (reset_flags (ps_pkg st), False)"
  define dflt where "dflt = Some (reset_flags (ps_pkg st), line_is_blank line)"
  define ess where "ess = read_simple ''Essential'' line (\<lambda>v.
    if strcmp v ''yes'' = 0 then (ps_pkg st)\<lparr>p_essential := True\<rparr> else ps_pkg st)"
  note assms [unfolded pkg_parse_line_def Let_def essential_mask_def [symmetric] c_def [symmetric]
      skip_def [symmetric] dflt_def [symmetric] ess_def [symmetric]]
  then have "Some (st', stop) \<in> {skip, dflt, ess}"
    unfolding essential_mask_bits simp_thms if_False by (metis insertCI)
  then show ?thesis
    by (cases "parse_simple ''Essential'' line")
      (auto simp: skip_def dflt_def ess_def read_simple_def reset_flags_def only_essential_def split: if_splits)
qed

lemma parse_essential:
  assumes "pkg_parse_from_stream env (PFM_ALL XOR PFM_ESSENTIAL) st fp = (ret, Some st', fp')"
  shows "only_essential (ps_pkg st) (ps_pkg st')"
proof -
  define I :: "parse_state option \<Rightarrow> bool" where "I it \<longleftrightarrow> (case it of None \<Rightarrow> True | Some st' \<Rightarrow> only_essential (ps_pkg st) (ps_pkg st'))" for it
  have step: "I (fst (parse_callback env (PFM_ALL XOR PFM_ESSENTIAL) it line))" if "I it" for it :: "parse_state option" and line
  proof (cases it)
    case (Some u)
    then show ?thesis using that parse_line_essential [of env u line]
      by (fastforce simp: I_def parse_callback_def only_essential_def split: option.splits)
  qed (simp add: I_def parse_callback_def)
  define x where "x = parse_stream_loop (parse_callback env (PFM_ALL XOR PFM_ESSENTIAL)) [] 4096 4096 (Some st) fp"
  obtain ret' it fp'' where l: "x = (ret', it, fp'')" by (cases x)
  have it: "it = Some st'"
    using assms unfolding pkg_parse_from_stream_def parse_from_stream_nomalloc_def x_def [symmetric] l by (simp only: prod.case prod.inject)
  have "I (Some st)" by (simp add: I_def only_essential_def)
  then have "I (fst (snd x))" unfolding x_def by - (rule parse_stream_keeps [where I = I], rule step)
  then have "I (Some st')" unfolding l it by simp
  then show ?thesis by (simp add: I_def)
qed

end
