(* ===== verification/Opkg_Install_Runs.thy ===== *)
theory Opkg_Install_Runs
  imports Opkg_Install Opkg_Essential
begin

text \<open>
  What an installation, with everything it calls, can change in the tables, whatever the calls to
  the system do: the control data of the packages and the graph stay, no package becomes installed
  and no abstract package is unmarked. From this follows that a bounded depth of calls is enough.
\<close>

section \<open>The relation between the tables before and after\<close>

text \<open>The control data: what is left of a package without what a run may change.\<close>

definition control_data :: "pkg \<Rightarrow> pkg" where
  "control_data p = p\<lparr>p_state_want := SW_UNKNOWN, p_state_flag := 0, p_state_status := SS_NOT_INSTALLED,
     p_installed_files := None, p_installed_files_ref_cnt := 0, p_dest := None, p_local_filename := None,
     p_tmp_unpack_dir := None, p_conffiles := [], p_auto_installed := False, p_installed_time := 0,
     p_essential := False\<rparr>"

definition pkg_runs :: "pkg \<Rightarrow> pkg \<Rightarrow> bool" where
  "pkg_runs p q \<longleftrightarrow> control_data q = control_data p \<and> (p_state_status q = SS_INSTALLED \<longrightarrow> p_state_status p = SS_INSTALLED)"

definition graph_data :: "abstract_pkg \<Rightarrow> abstract_pkg" where
  "graph_data a = a\<lparr>ap_dependencies_checked := 0, ap_state_status := SS_NOT_INSTALLED, ap_state_flag := 0\<rparr>"

definition apkg_runs :: "abstract_pkg \<Rightarrow> abstract_pkg \<Rightarrow> bool" where
  "apkg_runs a b \<longleftrightarrow> graph_data b = graph_data a \<and> (ap_dependencies_checked b = 0 \<longrightarrow> ap_dependencies_checked a = 0)"

definition store_runs :: "store \<Rightarrow> store \<Rightarrow> bool" where
  "store_runs s t \<longleftrightarrow> (\<forall>r. pkg_runs (s_pkgs s r) (s_pkgs t r)) \<and> (\<forall>a. apkg_runs (s_apkgs s a) (s_apkgs t a)) \<and>
     s_apkg_next t = s_apkg_next s \<and> ht_map (s_hash t) = ht_map (s_hash s)"

definition runs :: "'w sys \<Rightarrow> 'w sys \<Rightarrow> bool" where
  "runs y y' \<longleftrightarrow> store_runs (y_store y) (y_store y')"

named_theorems runs_intro

lemma pkg_runs_refl [simp]: "pkg_runs p p"
  by (simp add: pkg_runs_def)

lemma apkg_runs_refl [simp]: "apkg_runs a a"
  by (simp add: apkg_runs_def)

lemma store_runs_refl [simp]: "store_runs s s"
  by (simp add: store_runs_def)

lemma store_runs_trans: "store_runs s t \<Longrightarrow> store_runs t u \<Longrightarrow> store_runs s u"
  by (auto simp: store_runs_def pkg_runs_def apkg_runs_def)

lemma runs_refl [simp]: "runs y y"
  by (simp add: runs_def)

lemma runs_trans: "runs x y \<Longrightarrow> runs y z \<Longrightarrow> runs x z"
  unfolding runs_def by (rule store_runs_trans)

lemma runs_store: "runs z y \<Longrightarrow> store_runs (y_store y) (y_store y') \<Longrightarrow> runs z y'"
  using store_runs_trans by (auto simp: runs_def)

lemma runs_same [simp]:
  "runs z (y\<lparr>y_world := w\<rparr>) = runs z y" "runs z (y\<lparr>y_files := h\<rparr>) = runs z y"
  "runs z (y\<lparr>y_obs_files := h\<rparr>) = runs z y" "runs z (y\<lparr>y_state_changed := n\<rparr>) = runs z y"
  "runs z (y\<lparr>y_sigint_blocked := b\<rparr>) = runs z y"
  by (simp_all add: runs_def)

lemma runs_mod_pkg:
  assumes "runs z y" "pkg_runs (pkg_at y r) (f (pkg_at y r))"
  shows "runs z (mod_pkg r f y)"
  by (rule runs_store [OF assms(1)]) (use assms(2) in \<open>simp add: mod_pkg_def store_runs_def\<close>)

lemma runs_mod_apkg:
  assumes "runs z y" "apkg_runs (s_apkgs (y_store y) a) (f (s_apkgs (y_store y) a))"
  shows "runs z (mod_apkg a f y)"
  by (rule runs_store [OF assms(1)]) (use assms(2) in \<open>simp add: mod_apkg_def store_runs_def\<close>)

text \<open>The changes that the program makes to a package.\<close>

lemma pkg_runs_changes [simp]:
  "pkg_runs p (p\<lparr>p_state_want := v\<rparr>)" "pkg_runs p (p\<lparr>p_state_flag := g\<rparr>)"
  "pkg_runs p (p\<lparr>p_installed_files := fs\<rparr>)" "pkg_runs p (p\<lparr>p_installed_files_ref_cnt := n\<rparr>)"
  "pkg_runs p (p\<lparr>p_installed_files_ref_cnt := n, p_installed_files := fs\<rparr>)"
  "pkg_runs p (p\<lparr>p_dest := d\<rparr>)" "pkg_runs p (p\<lparr>p_dest := d, p_state_want := v\<rparr>)"
  "pkg_runs p (p\<lparr>p_local_filename := l\<rparr>)" "pkg_runs p (p\<lparr>p_tmp_unpack_dir := l\<rparr>)"
  "pkg_runs p (p\<lparr>p_conffiles := cfs\<rparr>)" "pkg_runs p (p\<lparr>p_auto_installed := au\<rparr>)"
  "pkg_runs p (p\<lparr>p_installed_time := t\<rparr>)" "pkg_runs p (p\<lparr>p_essential := es\<rparr>)"
  "st \<noteq> SS_INSTALLED \<Longrightarrow> pkg_runs p (p\<lparr>p_state_status := st\<rparr>)"
  "st \<noteq> SS_INSTALLED \<Longrightarrow> pkg_runs p (p\<lparr>p_state_status := st, p_state_flag := g\<rparr>)"
  "pkg_runs p (filelist_changed p)" "pkg_runs p ((filelist_changed p)\<lparr>p_state_want := v\<rparr>)"
  by (simp_all add: pkg_runs_def control_data_def filelist_changed_def)

lemma apkg_runs_changes [simp]:
  "apkg_runs a (a\<lparr>ap_state_status := st\<rparr>)" "apkg_runs a (a\<lparr>ap_state_flag := g\<rparr>)"
  "n \<noteq> 0 \<Longrightarrow> apkg_runs a (a\<lparr>ap_dependencies_checked := n\<rparr>)"
  by (simp_all add: apkg_runs_def graph_data_def)

lemma foldM_keeps:
  assumes "foldM f xs x = Some x'" "I x" "\<And>a x x'. f a x = Some x' \<Longrightarrow> I x \<Longrightarrow> I x'"
  shows "I x'"
  using assms(1,2)
proof (induction xs arbitrary: x)
  case (Cons a xs)
  then obtain x1 where "f a x = Some x1" "foldM f xs x1 = Some x'" by (auto split: bind_splits)
  then show ?case using Cons assms(3) by blast
qed simp

lemma fold_keeps:
  assumes "I x" "\<And>a x. I x \<Longrightarrow> I (f a x)"
  shows "I (fold f xs x)"
  using assms(1) by (induction xs arbitrary: x) (auto intro: assms(2))

section \<open>Lists of files and owners\<close>

lemma runs_set_installed_files [runs_intro]: "runs z y \<Longrightarrow> runs z (set_installed_files r fs y)"
  by (simp add: set_installed_files_def runs_mod_pkg)

lemma runs_unlink [simp]: "runs z (unlink e f y) = runs z y"
  by (simp add: unlink_def)

lemma runs_get_installed_files [runs_intro]:
  assumes "pkg_get_installed_files e r y = Some (fs, y')" "runs z y"
  shows "runs z y'"
proof -
  have p: "runs z y2" if "files_from_package e r y1 = Some (fs, y2)" "runs z y1" for y1 y2
    using that by (auto simp: files_from_package_def Let_def runs_set_installed_files
        split: option.splits prod.splits if_splits)
  have l: "runs z y2" if "files_from_list e r y1 = Some (fs, y2)" "runs z y1" for y1 y2
    using that by (auto simp: files_from_list_def Let_def runs_set_installed_files split: option.splits prod.splits)
  show ?thesis
    using assms p l by (auto simp: pkg_get_installed_files_def Let_def runs_set_installed_files runs_mod_pkg
        split: option.splits if_splits)
qed

lemma runs_free_installed_files [runs_intro]: "runs z y \<Longrightarrow> runs z (pkg_free_installed_files r y)"
  by (auto simp: pkg_free_installed_files_def Let_def intro!: runs_mod_pkg)

lemma runs_remove_list [runs_intro]: "pkg_remove_installed_files_list e r y = Some y' \<Longrightarrow> runs z y \<Longrightarrow> runs z y'"
  by (auto simp: pkg_remove_installed_files_list_def split: option.splits)

lemma runs_run_script [runs_intro]: "pkg_run_script e r script args y = (rc, y') \<Longrightarrow> runs z y \<Longrightarrow> runs z y'"
  by (auto simp: pkg_run_script_def Let_def split: option.splits if_splits prod.splits)

lemma runs_get_owner [runs_intro]: "file_hash_get_file_owner e f y = (v, y') \<Longrightarrow> runs z y \<Longrightarrow> runs z y'"
  by (auto simp: file_hash_get_file_owner_def split: prod.splits)

lemma runs_hash_remove [simp]: "runs z (file_hash_remove e f y) = runs z y"
  by (simp add: file_hash_remove_def)

lemma runs_obsolete [runs_intro]: "obsolete f y = (v, y') \<Longrightarrow> runs z y \<Longrightarrow> runs z y'"
  by (auto simp: obsolete_def split: prod.splits)

lemma runs_set_owner [runs_intro]:
  assumes "file_hash_set_file_owner e f r y = Some y'" "runs z y"
  shows "runs z y'"
  using assms by (auto simp: file_hash_set_file_owner_def Let_def split: if_splits prod.splits option.splits bind_splits
      intro!: runs_mod_pkg runs_free_installed_files runs_set_installed_files elim!: runs_get_installed_files)

lemma runs_hash: "ht_map h = ht_map (s_hash s) \<Longrightarrow> store_runs s (s\<lparr>s_hash := h\<rparr>)"
  by (simp add: store_runs_def)

lemma runs_fetch_installed [runs_intro]: "fetch_installed a y = (p, y') \<Longrightarrow> runs z y \<Longrightarrow> runs z y'"
  using vec_fetch_store(1) [of "apkg_name (y_store y) a" "y_store y"]
  by (fastforce simp: fetch_installed_def pkg_hash_fetch_installed_by_name_def intro: runs_store runs_hash
      split: prod.splits option.splits)

lemma runs_set_flags [runs_intro]:
  assumes "set_flags_from_control e r y = Some y'" "runs z y"
  shows "runs z y'"
  using assms by (auto simp: set_flags_from_control_def only_essential_def split: bind_splits option.splits prod.splits
      dest!: parse_essential intro!: runs_mod_pkg)

section \<open>Removal\<close>

lemma runs_remove_file: "remove_file e r f (ds, y) = (ds', y') \<Longrightarrow> runs z y \<Longrightarrow> runs z y'"
  by (auto simp: remove_file_def Let_def elim!: runs_get_owner split: prod.splits if_splits)

lemma runs_remove_data_files [runs_intro]:
  assumes "remove_data_files_and_list e r y = Some y'" "runs z y"
  shows "runs z y'"
proof -
  obtain fs y1 where 1: "pkg_get_installed_files e r y = Some (fs, y1)" "runs z y1"
    using assms by (auto simp: remove_data_files_and_list_def intro: runs_get_installed_files split: bind_splits)
  show ?thesis
  proof (cases fs)
    case None
    then show ?thesis using assms(1) 1 by (simp add: remove_data_files_and_list_def)
  next
    case (Some files)
    obtain ds y2 where 2: "fold (remove_file e r) files ([], y1) = (ds, y2)" by fastforce
    have "runs z (snd (fold (remove_file e r) files ([], y1)))"
      by (rule fold_keeps [where I = "\<lambda>x. runs z (snd x)"])
        (use 1(2) in \<open>auto intro: runs_remove_file [OF prod.collapse [symmetric]] simp: prod_eq_iff\<close>)
    then have y2: "runs z y2" by (simp add: 2)
    have drop: "runs z (fold (\<lambda>d y. snd (file_hash_get_file_owner e d y)) ds' y3)" if "runs z y3" for ds' y3
      by (rule fold_keeps [where I = "runs z"]) (use that in \<open>auto intro: runs_get_owner [OF prod.collapse [symmetric]]\<close>)
    then show ?thesis
      using assms(1) 1(1) 2 y2 Some
      by (auto simp: remove_data_files_and_list_def intro!: runs_free_installed_files drop elim!: runs_remove_list
          split: bind_splits prod.splits)
  qed
qed

lemma runs_remove_scripts [runs_intro]:
  assumes "remove_maintainer_scripts e r y = Some y'" "runs z y"
  shows "runs z y'"
  using assms fold_keeps [where I = "runs z" and f = "unlink e"]
  by (auto simp: remove_maintainer_scripts_def split: if_splits bind_splits option.splits)

lemma runs_dependents [runs_intro]:
  assumes "pkg_has_installed_dependents r (y_store y) = Some (n, ds, s)" "runs z y"
  shows "runs z (y\<lparr>y_store := s\<rparr>)"
proof -
  obtain as where as: "provided_apkgs (s_pkgs (y_store y) r) = Some as"
    using assms(1) by (auto simp: pkg_has_installed_dependents_def split: bind_splits)
  define xs where "xs = concat (map (dependers (y_store y)) as)"
  obtain ds1 s1 where 1: "fold collect_dependent xs ([], y_store y) = (ds1, s1)" by fastforce
  have upd: "store_runs t (upd_apkg a (\<lambda>b. b\<lparr>ap_state_flag := g b\<rparr>) t)" for t a g by (simp add: store_runs_def)
  have "store_runs (y_store y) (snd (fold collect_dependent xs ([], y_store y)))"
    by (rule fold_keeps [where I = "\<lambda>x. store_runs (y_store y) (snd x)"])
      (auto simp: collect_dependent_def intro: store_runs_trans upd split: prod.splits)
  moreover have "store_runs s1 (fold (\<lambda>a. upd_apkg a (\<lambda>b. b\<lparr>ap_state_flag := ap_state_flag b AND NOT SF_MARKED\<rparr>)) ds1 s1)"
    by (rule fold_keeps [where I = "store_runs s1"]) (auto intro: store_runs_trans upd)
  ultimately have "store_runs (y_store y) s"
    using assms(1) as 1 unfolding xs_def by (auto simp: pkg_has_installed_dependents_def intro: store_runs_trans)
  then show ?thesis using assms(2) by (auto intro: runs_store)
qed

section \<open>What a removal keeps\<close>

definition call_runs :: "('a \<Rightarrow> 'w sys \<Rightarrow> (int \<times> 'w sys) option) \<Rightarrow> bool" where
  "call_runs f \<longleftrightarrow> (\<forall>a y rc y' z. f a y = Some (rc, y') \<longrightarrow> runs z y \<longrightarrow> runs z y')"

lemma call_runsD: "call_runs f \<Longrightarrow> f a y = Some (rc, y') \<Longrightarrow> runs z y \<Longrightarrow> runs z y'"
  unfolding call_runs_def by blast

lemma runs_each_until:
  assumes "each_until f xs y = Some (rc, y')" "call_runs f" "runs z y"
  shows "runs z y'"
  using assms(1,3)
proof (induction xs arbitrary: y)
  case (Cons x xs)
  then show ?case using call_runsD [OF assms(2)] by (auto split: bind_splits if_splits)
qed simp

locale removal =
  fixes rem :: "'w remove_call"
  assumes removed_runs: "rem p b y = Some (rc, y') \<Longrightarrow> runs z y \<Longrightarrow> runs z y'"
begin

lemma runs_remove_each: "remove_each rem ps y = Some (rc, y') \<Longrightarrow> runs z y \<Longrightarrow> runs z y'"
proof (induction ps arbitrary: y)
  case (Cons p ps)
  then show ?case by (auto split: bind_splits if_splits elim!: Cons.IH removed_runs)
qed simp

lemma runs_remove_dependents:
  assumes "opkg_remove_dependent_pkgs rem r ds y = Some (rc, y')" "runs z y"
  shows "runs z y'"
proof -
  have "runs z (mod_apkg a (\<lambda>a. a\<lparr>ap_dependencies_checked := 2\<rparr>) y)" for a
    by (rule runs_mod_apkg [OF assms(2)]) simp
  then show ?thesis
    using assms by (auto simp: opkg_remove_dependent_pkgs_def Let_def elim!: runs_remove_each
        split: option.splits if_splits bind_splits)
qed

lemma runs_orphan_loop: "orphan_loop rem as (err, y) = Some (rc, y') \<Longrightarrow> runs z y \<Longrightarrow> runs z y'"
proof (induction as arbitrary: err y)
  case (Cons a as)
  obtain po y1 where 1: "fetch_installed a y = (po, y1)" by fastforce
  then have r1: "runs z y1" using Cons.prems(2) by (rule runs_fetch_installed)
  show ?case
  proof (cases "po = None \<or> \<not> p_auto_installed (pkg_at y1 (the po))")
    case True
    then show ?thesis using Cons.prems(1) Cons.IH r1 by (cases po) (auto simp: 1)
  next
    case False
    then obtain p n ds s where p: "po = Some p" "pkg_has_installed_dependents p (y_store y1) = Some (n, ds, s)"
      using Cons.prems(1) by (auto simp: 1 split: bind_splits option.splits if_splits)
    have r2: "runs z (y1\<lparr>y_store := s\<rparr>)" by (rule runs_dependents [OF p(2) r1])
    show ?thesis using Cons.prems(1) False p(2) r2
      by (auto simp: 1 p(1) Let_def split: bind_splits if_splits elim!: Cons.IH removed_runs)
  qed
qed simp

lemma runs_remove_autoinstalled: "remove_autoinstalled rem r y = Some (rc, y') \<Longrightarrow> runs z y \<Longrightarrow> runs z y'"
  by (auto simp: remove_autoinstalled_def split: bind_splits elim!: runs_orphan_loop)

lemma runs_check_dependents:
  assumes "check_dependents rem e r y = Some (stop, y')" "runs z y"
  shows "runs z y'"
  using assms by (auto simp: check_dependents_def Let_def split: bind_splits if_splits
      elim!: runs_remove_dependents runs_dependents)

lemma runs_marks: "runs z y \<Longrightarrow> runs z (mark_deinstall r y)" "runs z y \<Longrightarrow> runs z (mark_removed r a y)"
  by (auto simp: mark_deinstall_def mark_removed_def intro!: runs_mod_pkg runs_mod_apkg)

lemma runs_remove_checked:
  assumes "remove_checked rem e r parent fu y = Some (rc, y')" "runs z y"
  shows "runs z y'"
proof -
  obtain rc1 y1 where 1: "pkg_run_script e r ''prerm'' ''remove'' (mark_deinstall r y) = (rc1, y1)" by fastforce
  have r1: "runs z y1" by (rule runs_run_script [OF 1 runs_marks(1) [OF assms(2)]])
  show ?thesis
  proof (cases "rc1 \<noteq> 0 \<and> \<not> c_force_remove e")
    case True
    then show ?thesis using assms(1) 1 r1 by (simp add: remove_checked_def split: if_splits)
  next
    case False
    then obtain y2 y3 y4 err where 2: "remove_data_files_and_list e r y1 = Some y2"
      "pkg_run_script e r ''postrm'' ''remove'' y2 = (err, y3)" "remove_maintainer_scripts e r y3 = Some y4"
      using assms(1) 1 by (auto simp: remove_checked_def split: if_splits bind_splits prod.splits)
    have "runs z (mark_removed r parent y4)"
      by (intro runs_marks runs_remove_scripts [OF 2(3)] runs_run_script [OF 2(2)] runs_remove_data_files [OF 2(1) r1])
    then show ?thesis using assms(1) 1 2 False
      by (auto simp: remove_checked_def Let_def split: if_splits bind_splits elim!: runs_remove_autoinstalled)
  qed
qed

lemma runs_remove_body: "remove_body e rem r fu y = Some (rc, y') \<Longrightarrow> runs z y \<Longrightarrow> runs z y'"
  by (auto simp: remove_body_def split: if_splits option.splits bind_splits
      elim!: runs_check_dependents runs_remove_checked)

end

lemma removal_body: "removal rem \<Longrightarrow> removal (remove_body e rem)"
  by (rule removal.intro) (rule removal.runs_remove_body)

lemma removal_opkg: "removal (opkg_remove_pkg fuel e)"
  by (induction fuel) (auto intro: removal_body removal.intro)

interpretation rm: removal "opkg_remove_pkg fuel e" for fuel e
  by (rule removal_opkg)

section \<open>Unsatisfied dependencies\<close>

locale unsat_runs =
  fixes rec :: unsat_call
  assumes checked: "rec r uns s = Some (n, uns', lost, s') \<Longrightarrow> checked_more t s \<Longrightarrow> checked_more t s'"
begin

lemma checked_greedy_scout:
  "greedy_scout rec scout (uns, s) = Some x' \<Longrightarrow> checked_more t s \<Longrightarrow> checked_more t (snd x')"
  by (auto simp: greedy_scout_def elim!: checked split: if_splits option.splits bind_splits)

lemma checked_greedy_depend:
  assumes "greedy_depend rec cd x = Some x'" "checked_more t (snd x)"
  shows "checked_more t (snd x')"
proof -
  have 1: "checked_more t (snd y')" if "foldM (greedy_scout rec) ps y = Some y'" "checked_more t (snd y)" for ps y y'
    using that by (rule foldM_keeps [where I = "\<lambda>x. checked_more t (snd x)"])
      (metis prod.collapse checked_greedy_scout)
  have 2: "checked_more t (snd y')" if "foldM (\<lambda>l x. foldM (greedy_scout rec) (apkg_pkgs (snd x) l) x) as y = Some y'"
    "checked_more t (snd y)" for as y y'
    using that by (rule foldM_keeps [where I = "\<lambda>x. checked_more t (snd x)"]) (rule 1)
  show ?thesis
    using assms unfolding greedy_depend_def by (rule foldM_keeps [where I = "\<lambda>x. checked_more t (snd x)"]) (rule 2)
qed

lemma checked_plain_depend:
  assumes "plain_depend rec r i cd (lost, uns, s) = Some (lost', uns', s')" "checked_more t s"
  shows "checked_more t s'"
  using assms by (auto simp: plain_depend_def elim!: checked split: if_splits option.splits bind_splits)

lemma checked_one_depend:
  assumes "one_depend rec r icd x = Some x'" "checked_more t (snd (snd x))"
  shows "checked_more t (snd (snd x'))"
proof (cases "cd_type (snd icd) = GREEDY_DEPEND")
  case True
  then show ?thesis using assms using checked_greedy_depend [of "snd icd" "snd x"]
    by (auto simp: one_depend_def)
next
  case False
  then show ?thesis using assms checked_plain_depend
    by (cases x; cases x') (auto simp: one_depend_def)
qed

lemma checked_unsat_body:
  assumes "unsat_body rec r uns s = Some (n, uns', lost, s')"
  shows "checked_more s s'"
    and "n \<noteq> 0 \<Longrightarrow> \<exists>a. p_parent (s_pkgs s r) = Some a \<and> ap_dependencies_checked (s_apkgs s a) = 0 \<and>
      ap_dependencies_checked (s_apkgs s' a) \<noteq> 0"
proof -
  have "checked_more s s' \<and> (n \<noteq> 0 \<longrightarrow> (\<exists>a. p_parent (s_pkgs s r) = Some a \<and> ap_dependencies_checked (s_apkgs s a) = 0 \<and>
      ap_dependencies_checked (s_apkgs s' a) \<noteq> 0))"
  proof (cases "\<exists>a. p_parent (s_pkgs s r) = Some a \<and> ap_dependencies_checked (s_apkgs s a) = 0")
    case False
    then show ?thesis using assms by (auto simp: unsat_body_def split: option.splits)
  next
    case True
    then obtain a where a: "p_parent (s_pkgs s r) = Some a" "ap_dependencies_checked (s_apkgs s a) = 0" by blast
    have m: "checked_more s (mark_checked a s)" by (simp add: checked_more_def mark_checked_def)
    show ?thesis
    proof (cases "all_depends_count (s_pkgs s r) = 0")
      case True
      then show ?thesis using assms a m by (simp add: unsat_body_def)
    next
      case False
      then obtain ds where ds: "foldM (one_depend rec r) (List.enumerate 0 ds) (None, uns, mark_checked a s) = Some (lost, uns', s')"
        using assms a by (auto simp: unsat_body_def Let_def split: bind_splits)
      have "checked_more (mark_checked a s) (snd (snd (lost, uns', s')))"
        using ds by (rule foldM_keeps [where I = "\<lambda>x. checked_more (mark_checked a s) (snd (snd x))"])
          (auto elim: checked_one_depend)
      then have c: "checked_more (mark_checked a s) s'" by simp
      from checked_more_fields(7) [OF this, of a] have "ap_dependencies_checked (s_apkgs s' a) \<noteq> 0"
        by (auto simp: mark_checked_def)
      then show ?thesis using checked_more_trans [OF m c] a by blast
    qed
  qed
  then show "checked_more s s'" and "n \<noteq> 0 \<Longrightarrow> \<exists>a. p_parent (s_pkgs s r) = Some a \<and>
      ap_dependencies_checked (s_apkgs s a) = 0 \<and> ap_dependencies_checked (s_apkgs s' a) \<noteq> 0"
    by blast+
qed

end

lemma unsat_runs_body: "unsat_runs rec \<Longrightarrow> unsat_runs (unsat_body rec)"
  by (rule unsat_runs.intro) (meson unsat_runs.checked_unsat_body(1) checked_more_trans)

lemma unsat_runs_fuel: "unsat_runs (pkg_hash_fetch_unsatisfied_dependencies fuel)"
  by (induction fuel) (auto intro: unsat_runs_body unsat_runs.intro)

interpretation un: unsat_runs "pkg_hash_fetch_unsatisfied_dependencies fuel" for fuel
  by (rule unsat_runs_fuel)

lemma unsat_progress:
  assumes "pkg_hash_fetch_unsatisfied_dependencies (Suc fuel) r uns s = Some (n, uns', lost, s')"
  shows "checked_more s s'"
    and "n \<noteq> 0 \<Longrightarrow> \<exists>a. p_parent (s_pkgs s r) = Some a \<and> ap_dependencies_checked (s_apkgs s a) = 0 \<and>
      ap_dependencies_checked (s_apkgs s' a) \<noteq> 0"
  using un.checked_unsat_body [of fuel r uns s n uns' lost s'] assms by simp_all

lemma checked_more_runs: "checked_more s s' \<Longrightarrow> store_runs s s'"
proof -
  assume c: "checked_more s s'"
  have "apkg_runs (s_apkgs s a) (s_apkgs s' a)" for a
    using c apkg_runs_changes(3) [of 1 "s_apkgs s a"] unfolding checked_more_def
    by (metis apkg_runs_refl zero_neq_one)
  moreover have "s_pkgs s' = s_pkgs s" "s_hash s' = s_hash s" "s_apkg_next s' = s_apkg_next s"
    using c by (auto simp: checked_more_def)
  ultimately show ?thesis by (simp add: store_runs_def)
qed

section \<open>The steps of an installation\<close>

lemma runs_world: "runs z y \<Longrightarrow> runs z (y\<lparr>y_world := w\<rparr>)"
  by simp

lemma runs_take_file: "take_file e r old f y = Some y' \<Longrightarrow> runs z y \<Longrightarrow> runs z y'"
  by (auto simp: take_file_def elim!: runs_set_owner runs_obsolete runs_get_owner split: prod.splits if_splits)

lemma runs_mark_obsolete: "runs z y \<Longrightarrow> runs z (mark_obsolete e old f y)"
  by (auto simp: mark_obsolete_def elim!: runs_get_owner split: prod.splits)

lemma runs_update_ownership:
  assumes "update_file_ownership e r old y = Some (err, y')" "runs z y"
  shows "runs z y'"
proof -
  have t: "runs z y2" if "foldM (take_file e r o') fs y1 = Some y2" "runs z y1" for o' fs y1 y2
    using that by (rule foldM_keeps [where I = "runs z"]) (rule runs_take_file)
  have m: "runs z (fold (mark_obsolete e o') fs y1)" if "runs z y1" for o' fs y1
    using that by (rule fold_keeps [where I = "runs z"]) (rule runs_mark_obsolete)
  show ?thesis
    using assms by (auto simp: update_file_ownership_def intro!: runs_free_installed_files m
        elim!: t runs_get_installed_files split: bind_splits option.splits)
qed

lemma runs_unpack:
  assumes "unpack_pkg_control_files e r y = Some (err, y')" "runs z y"
  shows "runs z y'"
proof -
  have a: "runs z y2" if "foldM (add_conffile e r) ls y1 = Some y2" "runs z y1" for ls y1 y2
    using that by (rule foldM_keeps [where I = "runs z"])
      (auto simp: add_conffile_def intro!: runs_mod_pkg split: if_splits bind_splits)
  show ?thesis
    using assms by (auto simp: unpack_pkg_control_files_def pkg_extract_control_files_to_dir_with_prefix_def Let_def
        intro!: runs_mod_pkg elim!: a split: prod.splits option.splits bind_splits if_splits)
qed

lemma runs_check_downgrade:
  "opkg_install_check_downgrade e r old y = Some (err, y') \<Longrightarrow> runs z y \<Longrightarrow> runs z y'"
  by (auto simp: opkg_install_check_downgrade_def Let_def intro!: runs_mod_pkg split: option.splits if_splits)

lemma runs_preinst: "preinst_configure e r old y = (err, y') \<Longrightarrow> runs z y \<Longrightarrow> runs z y'"
  by (auto simp: preinst_configure_def Let_def elim!: runs_run_script split: prod.splits)

lemma runs_resolve: "runs z y \<Longrightarrow> runs z (resolve_conffiles e r y)"
  by (auto simp: resolve_conffiles_def intro!: runs_mod_pkg split: prod.splits)

lemma runs_clashes:
  assumes "check_data_file_clashes e r old y = Some (n, y')" "runs z y"
  shows "runs z y'"
proof -
  have "runs z (snd x')" if "clash e r old f x = Some x'" "runs z (snd x)" for f x x'
    using that by (cases x; cases x') (auto simp: clash_def elim!: runs_set_owner runs_obsolete runs_get_owner
        split: if_splits prod.splits bind_splits option.splits)
  then have c: "runs z (snd x')" if "foldM (clash e r old) fs x = Some x'" "runs z (snd x)" for fs x x'
    using that by (rule foldM_keeps [where I = "\<lambda>x. runs z (snd x)", rotated 2])
  have c': "runs z y2" if "foldM (clash e r old) fs (k, y1) = Some (m, y2)" "runs z y1" for fs k m y1 y2
    using c [OF that(1)] that(2) by simp
  show ?thesis
    using assms by (auto simp: check_data_file_clashes_def intro!: runs_free_installed_files
        elim!: c' runs_get_installed_files split: bind_splits option.splits)
qed

lemma runs_clashes_change:
  assumes "check_data_file_clashes_change e r y = Some (n, y')" "runs z y"
  shows "runs z y'"
proof -
  have "runs z y2" if "change_owner e r f y1 = Some y2" "runs z y1" for f y1 y2
    using that by (auto simp: change_owner_def Let_def elim!: runs_set_owner runs_get_owner
        split: if_splits prod.splits bind_splits option.splits)
  then have c: "runs z y2" if "foldM (change_owner e r) fs y1 = Some y2" "runs z y1" for fs y1 y2
    using that by (rule foldM_keeps [where I = "runs z", rotated 2])
  show ?thesis
    using assms by (auto simp: check_data_file_clashes_change_def intro!: runs_free_installed_files
        elim!: c runs_get_installed_files split: bind_splits option.splits)
qed

lemma runs_obsolesced:
  assumes "remove_obsolesced_files e r old y = Some (n, y')" "runs z y"
  shows "runs z y'"
proof -
  have "runs z (snd (remove_obsolete e h old f x))" if "runs z (snd x)" for h f x
    using that by (cases x) (auto simp: remove_obsolete_def elim!: runs_get_owner split: prod.splits)
  then have f: "runs z y2" if "fold (remove_obsolete e h old) fs (0, y1) = (n, y2)" "runs z y1" for h fs n y1 y2
    using that fold_keeps [where I = "\<lambda>x. runs z (snd x)" and f = "remove_obsolete e h old" and xs = fs and x = "(0, y1)"]
    by simp
  show ?thesis
    using assms by (auto simp: remove_obsolesced_files_def Let_def intro!: runs_free_installed_files
        elim!: f runs_get_installed_files split: bind_splits option.splits prod.splits)
qed

lemma runs_maintainer_scripts:
  "install_maintainer_scripts e r y = Some (n, y') \<Longrightarrow> runs z y \<Longrightarrow> runs z y'"
  by (auto simp: install_maintainer_scripts_def pkg_extract_control_files_to_dir_with_prefix_def
      split: bind_splits prod.splits)

lemma runs_write_filelist: "pkg_write_filelist e r y = Some (n, y') \<Longrightarrow> runs z y \<Longrightarrow> runs z y'"
  by (auto simp: pkg_write_filelist_def intro!: runs_mod_pkg split: bind_splits prod.splits if_splits)

lemma runs_install_data:
  "install_data_files e r y = Some (n, y') \<Longrightarrow> runs z y \<Longrightarrow> runs z y'"
  by (auto simp: install_data_files_def pkg_extract_data_files_to_dir_def
      elim!: runs_write_filelist runs_set_flags split: bind_splits prod.splits if_splits)

lemma runs_download: "opkg_download_pkg e r dir y = (n, y') \<Longrightarrow> runs z y \<Longrightarrow> runs z y'"
  by (auto simp: opkg_download_pkg_def Let_def intro!: runs_mod_pkg split: option.splits prod.splits)

section \<open>The whole installation\<close>

lemma runs_find_old:
  assumes "find_old r y = Some (old, y')" "runs z y"
  shows "runs z y'"
proof -
  obtain name p s where n: "pkg_hash_fetch_installed_by_name name (y_store y) = (p, s)" "y' = y\<lparr>y_store := s\<rparr>"
    using assms(1) by (auto simp: find_old_def split: bind_splits prod.splits)
  then have "store_runs (y_store y) s"
    using vec_fetch_store(1) [of name "y_store y"] runs_hash
    by (fastforce simp: pkg_hash_fetch_installed_by_name_def split: prod.splits option.splits)
  then show ?thesis using assms(2) n(2) by (auto intro: runs_store)
qed

lemma runs_default_dest: "runs z y \<Longrightarrow> runs z (default_dest e r y)"
  by (auto simp: default_dest_def intro!: runs_mod_pkg)

lemma runs_mark_wanted: "runs z y \<Longrightarrow> runs z (mark_wanted r old y)"
  by (auto simp: mark_wanted_def Let_def intro!: runs_mod_pkg split: option.splits)

lemma runs_check_installable: "check_installable e r old y = Some (stop, y') \<Longrightarrow> runs z y \<Longrightarrow> runs z y'"
  by (auto simp: check_installable_def Let_def intro!: runs_mark_wanted elim!: runs_check_downgrade
      split: bind_splits if_splits)

lemma runs_obtain_file: "obtain_file e r y = Some (stop, y') \<Longrightarrow> runs z y \<Longrightarrow> runs z y'"
  by (auto simp: obtain_file_def or_fail_def split: if_splits option.splits prod.splits elim!: runs_download)

lemma runs_unpack_control: "unpack_control e r y = Some (stop, y') \<Longrightarrow> runs z y \<Longrightarrow> runs z y'"
  by (auto simp: unpack_control_def split: if_splits elim!: runs_unpack)

lemma runs_set_sigint [simp]: "runs z (set_sigint b y) = runs z y"
  by (simp add: set_sigint_def)

lemma runs_mark_unpacked: "runs z y \<Longrightarrow> runs z (mark_unpacked e r old y)"
  by (auto simp: mark_unpacked_def Let_def pkg_runs_def control_data_def intro!: runs_mod_pkg runs_mod_apkg
      split: option.splits)

lemma runs_remove_old: "remove_old e r old y = Some y' \<Longrightarrow> runs z y \<Longrightarrow> runs z y'"
  by (auto simp: remove_old_def Let_def intro!: runs_mod_pkg
      elim!: runs_remove_scripts runs_remove_data_files runs_obsolesced split: bind_splits if_splits)

lemma runs_commit:
  assumes "commit e r old y = Some (rc, y')" "runs z y"
  shows "runs z y'"
  using assms by (auto simp: commit_def intro!: runs_mark_unpacked runs_resolve split: bind_splits option.splits if_splits
      elim!: runs_clashes_change runs_install_data runs_maintainer_scripts runs_remove_old)

locale installation = removal rem for rem :: "'w remove_call" +
  fixes rec :: "'w install_call"
  assumes installed_runs: "rec p y = Some (rc, y') \<Longrightarrow> runs z y \<Longrightarrow> runs z y'"
begin

lemma runs_install_dependency: "install_dependency rec d y = Some (rc, y') \<Longrightarrow> runs z y \<Longrightarrow> runs z y'"
  by (auto simp: install_dependency_def intro!: runs_mod_pkg elim!: installed_runs split: if_splits bind_splits)

lemma runs_restore_replacee: "restore_replacee rec d y = Some (rc, y') \<Longrightarrow> runs z y \<Longrightarrow> runs z y'"
  by (auto simp: restore_replacee_def elim!: installed_runs split: if_splits)

lemma runs_remove_replacee: "remove_replacee rem d y = Some (rc, y') \<Longrightarrow> runs z y \<Longrightarrow> runs z y'"
  by (auto simp: remove_replacee_def intro!: runs_mod_pkg elim!: removed_runs)

lemma calls:
  "call_runs (install_dependency rec)" "call_runs (restore_replacee rec)" "call_runs (remove_replacee rem)"
  unfolding call_runs_def using runs_install_dependency runs_restore_replacee runs_remove_replacee by blast+

lemma runs_mark_all: "runs z y \<Longrightarrow> runs z (fold (mark_to_install r) ds y)"
  by (rule fold_keeps [where I = "runs z"]) (auto simp: mark_to_install_def intro!: runs_mod_pkg)

lemma runs_satisfy:
  assumes "satisfy_dependencies_for e rec r y = Some (rc, y')" "runs z y"
  shows "runs z y'"
proof -
  obtain n ds lost s where u:
    "pkg_hash_fetch_unsatisfied_dependencies (Suc (s_apkg_next (y_store y))) r [] (y_store y) = Some (n, ds, lost, s)"
    using assms(1) unfolding satisfy_dependencies_for_def by (auto split: bind_splits)
  have "runs z (y\<lparr>y_store := s\<rparr>)"
    by (rule runs_store [OF assms(2)]) (use checked_more_runs [OF unsat_progress(1) [OF u]] in simp)
  then show ?thesis
    using assms(1) unfolding satisfy_dependencies_for_def u
    by (auto simp: Let_def elim!: runs_each_until [OF _ calls(1)] intro!: runs_mark_all split: if_splits)
qed

lemma runs_stages:
  "already_installed e rec r y = Some (stop, y') \<Longrightarrow> runs z y \<Longrightarrow> runs z y'"
  "only_download e rec r y = Some (stop, y') \<Longrightarrow> runs z y \<Longrightarrow> runs z y'"
  "install_dependencies e rec r y = Some (stop, y') \<Longrightarrow> runs z y \<Longrightarrow> runs z y'"
  by (auto simp: already_installed_def only_download_def install_dependencies_def elim!: runs_satisfy
      split: if_splits bind_splits)

lemma runs_unwind: "unwind e rec r old reps cf y = Some (rc, y') \<Longrightarrow> runs z y \<Longrightarrow> runs z y'"
  by (auto simp: unwind_def Let_def pkg_remove_installed_replacees_unwind_def elim!: runs_each_until [OF _ calls(2)]
      split: bind_splits if_splits)

lemma runs_orphans:
  assumes "pkg_remove_orphan_dependent rem r old y = Some (err, y')" "runs z y"
  shows "runs z y'"
proof -
  have "runs z (snd x')" if o': "remove_orphan rem a x = Some x'" "runs z (snd x)" for a x x'
  proof -
    obtain k y0 po y1 where x: "x = (k, y0)" and 1: "fetch_installed a y0 = (po, y1)" by (metis prod.exhaust_sel)
    have "runs z y1" using 1 that(2) x by (auto elim: runs_fetch_installed)
    then show ?thesis using o'(1)
      by (auto simp: remove_orphan_def x 1 Let_def intro!: runs_mod_pkg elim!: removed_runs runs_dependents
          split: option.splits if_splits bind_splits)
  qed
  then have "runs z (snd x')" if "foldM (remove_orphan rem) as x = Some x'" "runs z (snd x)" for as x x'
    using that by (rule foldM_keeps [where I = "\<lambda>x. runs z (snd x)", rotated 2])
  then have f: "runs z y'" if "foldM (remove_orphan rem) as (0, y) = Some (err, y')" for as
    using that assms(2) by fastforce
  show ?thesis
    using assms by (auto simp: pkg_remove_orphan_dependent_def Let_def elim!: f split: bind_splits if_splits)
qed


end

end
