(* ===== verification/Opkg_Install_Fuel.thy ===== *)
theory Opkg_Install_Fuel
  imports Opkg_Install_Runs
begin

text \<open>
  An installation as a whole: what it keeps of the tables, and how deep its calls can nest. A call
  for a dependency marks an abstract package that was unmarked, a call that puts back a replaced
  package follows the removal of an installed one, and nothing undoes either.
\<close>

section \<open>An installation keeps the graph\<close>

context installation
begin

lemma runs_locked:
  assumes "locked e rem rec r old reps y = Some (rc, y')" "runs z y"
  shows "runs z y'"
proof -
  define y0 where "y0 = (mod_pkg r filelist_changed (set_sigint True y))\<lparr>y_state_changed := y_state_changed y + 1\<rparr>"
  have r0: "runs z y0" using assms(2) by (auto simp: y0_def intro!: runs_mod_pkg)
  have reps: "runs z y2" if "pkg_remove_installed_replacees rem reps y1 = Some (err, y2)" "runs z y1" for err y1 y2
    using that runs_each_until [OF _ calls(3)] by (auto simp: pkg_remove_installed_replacees_def)
  show ?thesis
    using assms(1) r0 unfolding locked_def Let_def y0_def [symmetric]
    by (auto simp del: runs_same simp: runs_same(1) elim!: runs_unwind runs_commit runs_clashes reps runs_preinst runs_orphans
        split: bind_splits option.splits if_splits prod.splits)
qed

lemma runs_install_body:
  assumes "install_body e rem rec r y = Some (rc, y')" "runs z y"
  shows "runs z y'"
  using assms unfolding install_body_def stage_def or_fail_def
  by (auto elim!: runs_locked runs_stages runs_update_ownership runs_unpack_control runs_obtain_file
      runs_check_installable runs_find_old intro!: runs_default_dest
      simp: check_md5_def split: bind_splits option.splits if_splits)

end

lemma installation_body: "installation rem rec \<Longrightarrow> installation rem (install_body e rem rec)"
  by (rule installation.intro, simp add: installation_def, rule installation_axioms.intro)
    (rule installation.runs_install_body)

lemma installation_opkg: "installation (opkg_remove_pkg rfuel e) (opkg_install_pkg fuel rfuel e)"
proof (induction fuel)
  case 0
  show ?case by (rule installation.intro [OF removal_opkg], rule installation_axioms.intro) simp
qed (simp add: installation_body)

interpretation inst: installation "opkg_remove_pkg rfuel e" "opkg_install_pkg fuel rfuel e" for rfuel e fuel
  by (rule installation_opkg)

section \<open>The depth of the calls\<close>

definition installed_set :: "'w sys \<Rightarrow> pkg_ref set" where
  "installed_set y = {r. p_state_status (pkg_at y r) = SS_INSTALLED}"

text \<open>The parents are abstract packages of the store, and finitely many packages are installed.\<close>

definition bounded :: "'w sys \<Rightarrow> bool" where
  "bounded y \<longleftrightarrow> finite (installed_set y) \<and> (\<forall>r a. p_parent (pkg_at y r) = Some a \<longrightarrow> a < s_apkg_next (y_store y))"

definition depth :: "'w sys \<Rightarrow> nat" where
  "depth y = card (pending (y_store y)) + card (installed_set y)"

lemma runs_parent: "runs y y' \<Longrightarrow> p_parent (pkg_at y' r) = p_parent (pkg_at y r)"
proof -
  assume "runs y y'"
  then have "control_data (pkg_at y' r) = control_data (pkg_at y r)"
    by (simp add: runs_def store_runs_def pkg_runs_def)
  then have "p_parent (control_data (pkg_at y' r)) = p_parent (control_data (pkg_at y r))" by simp
  then show ?thesis by (simp add: control_data_def)
qed

lemma runs_sets:
  assumes "runs y y'"
  shows "pending (y_store y') \<subseteq> pending (y_store y)" "installed_set y' \<subseteq> installed_set y"
  using assms by (auto simp: runs_def store_runs_def apkg_runs_def pkg_runs_def pending_def installed_set_def)

lemma runs_bounded: "runs y y' \<Longrightarrow> bounded y \<Longrightarrow> bounded y'"
  using runs_parent [of y y'] runs_sets(2) [of y y']
  by (auto simp: bounded_def runs_def store_runs_def intro: finite_subset)

lemma runs_depth:
  assumes "runs y y'" "bounded y"
  shows "depth y' \<le> depth y"
  unfolding depth_def using runs_sets [OF assms(1)] assms(2) by (intro add_mono card_mono) (simp_all add: bounded_def)

lemma depth_installed:
  assumes "runs y y'" "bounded y" "p \<in> installed_set y" "p \<notin> installed_set y'"
  shows "depth y' < depth y"
  unfolding depth_def using runs_sets [OF assms(1)] assms(2-4)
  by (intro add_le_less_mono card_mono psubset_card_mono) (auto simp: bounded_def)

lemma depth_pending:
  assumes "runs y y'" "bounded y" "p_parent (pkg_at y r) = Some a"
    "ap_dependencies_checked (s_apkgs (y_store y) a) = 0" "ap_dependencies_checked (s_apkgs (y_store y') a) \<noteq> 0"
  shows "depth y' < depth y"
proof -
  have "a \<in> pending (y_store y)" "a \<notin> pending (y_store y')" using assms(2-5) by (auto simp: bounded_def pending_def)
  then show ?thesis unfolding depth_def using runs_sets [OF assms(1)] assms(2)
    by (intro add_less_le_mono psubset_card_mono card_mono) (auto simp: bounded_def)
qed

text \<open>Two functions that agree on the calls of smaller depth.\<close>

definition agree :: "nat \<Rightarrow> 'w install_call \<Rightarrow> 'w install_call \<Rightarrow> bool" where
  "agree n rec rec' \<longleftrightarrow> (\<forall>r y. bounded y \<longrightarrow> depth y < n \<longrightarrow> rec r y = rec' r y)"

lemma each_until_cong:
  assumes "call_runs f" "\<And>x y'. x \<in> set xs \<Longrightarrow> runs y y' \<Longrightarrow> f x y' = g x y'"
  shows "each_until f xs y = each_until g xs y"
  using assms(2)
proof (induction xs arbitrary: y)
  case (Cons x xs)
  have "each_until f xs y' = each_until g xs y'" if "f x y = Some (rc, y')" for rc y'
  proof (rule Cons.IH)
    fix x' y'' assume "x' \<in> set xs" "runs y' y''"
    moreover have "runs y y'" by (rule call_runsD [OF assms(1) that runs_refl])
    ultimately show "f x' y'' = g x' y''" using Cons.prems by (auto intro: runs_trans)
  qed
  then show ?case using Cons.prems [of x y] by (auto split: bind_splits)
qed simp

lemma stage_cong:
  assumes "m y = m' y" "\<And>y1. m y = Some (None, y1) \<Longrightarrow> k y1 = k' y1"
  shows "stage m k y = stage m' k' y"
  using assms by (auto simp: stage_def split: bind_splits option.splits)

lemma replacees_installed:
  assumes "pkg_get_installed_replacees (y_store y) r = Some reps"
  shows "set reps \<subseteq> installed_set y"
proof -
  have 1: "set vec' \<subseteq> installed_set y" if "foldM (add_replacee (y_store y) r) ps vec = Some vec'" "set vec \<subseteq> installed_set y"
    for ps vec vec'
    using that by (rule foldM_keeps [where I = "\<lambda>vec. set vec \<subseteq> installed_set y"])
      (auto simp: add_replacee_def pkg_vec_insert_def installed_set_def split: bind_splits if_splits)
  obtain as where "foldM (\<lambda>a. foldM (add_replacee (y_store y) r) (apkg_pkgs (y_store y) a)) as [] = Some reps"
    using assms by (auto simp: pkg_get_installed_replacees_def split: bind_splits)
  then show ?thesis by (rule foldM_keeps [where I = "\<lambda>vec. set vec \<subseteq> installed_set y"]) (auto dest: 1)
qed

lemma bind_cong_some:
  assumes "\<And>x. m = Some x \<Longrightarrow> f x = g x"
  shows "Option.bind m f = Option.bind m g"
  using assms by (cases m) auto

context installation
begin

lemma satisfy_cong:
  assumes "agree n rec rec'" "bounded y" "depth y < Suc n"
  shows "satisfy_dependencies_for e rec r y = satisfy_dependencies_for e rec' r y"
proof (cases "pkg_hash_fetch_unsatisfied_dependencies (Suc (s_apkg_next (y_store y))) r [] (y_store y)")
  case None
  then show ?thesis unfolding satisfy_dependencies_for_def by simp
next
  case (Some x)
  then obtain k ds lost s where
    u: "pkg_hash_fetch_unsatisfied_dependencies (Suc (s_apkg_next (y_store y))) r [] (y_store y) = Some (k, ds, lost, s)"
    by (cases x) auto
  define y1 where "y1 = fold (mark_to_install r) ds (y\<lparr>y_store := s\<rparr>)"
  have r0: "runs y (y\<lparr>y_store := s\<rparr>)"
    by (rule runs_store [OF runs_refl]) (use checked_more_runs [OF unsat_progress(1) [OF u]] in simp)
  have r1: "runs (y\<lparr>y_store := s\<rparr>) y1" unfolding y1_def by (rule runs_mark_all) simp
  have "each_until (install_dependency rec) ds y1 = each_until (install_dependency rec') ds y1" if k: "k \<noteq> 0"
  proof (rule each_until_cong [OF calls(1)])
    fix d y2 assume r2: "runs y1 y2"
    obtain a where "p_parent (pkg_at y r) = Some a" "ap_dependencies_checked (s_apkgs (y_store y) a) = 0"
      "ap_dependencies_checked (s_apkgs s a) \<noteq> 0"
      using unsat_progress(2) [OF u k] by blast
    then have "depth (y\<lparr>y_store := s\<rparr>) < depth y" by (intro depth_pending [OF r0 assms(2)]) auto
    moreover have r: "runs (y\<lparr>y_store := s\<rparr>) y2" by (rule runs_trans [OF r1 r2])
    ultimately have "depth y2 < n" using runs_depth [OF r runs_bounded [OF r0 assms(2)]] assms(3) by simp
    moreover have "bounded y2" by (rule runs_bounded [OF r runs_bounded [OF r0 assms(2)]])
    ultimately show "install_dependency rec d y2 = install_dependency rec' d y2"
      using assms(1) by (simp add: install_dependency_def agree_def)
  qed
  then show ?thesis unfolding satisfy_dependencies_for_def u by (simp add: y1_def Let_def)
qed

lemma unwind_cong:
  assumes "agree n rec rec'" "bounded y" "depth y < Suc n" "set reps \<subseteq> installed_set y" "runs y y1"
  shows "unwind e rec r old reps cf y1 = unwind e rec' r old reps cf y1"
proof -
  have "each_until (restore_replacee rec) reps y2 = each_until (restore_replacee rec') reps y2" if r2: "runs y y2" for y2
  proof (rule each_until_cong [OF calls(2)])
    fix p y3 assume p: "p \<in> set reps" and "runs y2 y3"
    then have r: "runs y y3" using r2 by (auto intro: runs_trans)
    show "restore_replacee rec p y3 = restore_replacee rec' p y3"
    proof (cases "p \<in> installed_set y3")
      case False
      then have "depth y3 < n" using depth_installed [OF r assms(2), of p] p assms(3,4) by auto
      then show ?thesis
        using assms(1) runs_bounded [OF r assms(2)] by (simp add: restore_replacee_def agree_def)
    qed (simp add: restore_replacee_def installed_set_def)
  qed
  then show ?thesis
    using assms(5) by (simp add: unwind_def pkg_remove_installed_replacees_unwind_def Let_def)
qed

lemma locked_cong:
  assumes "agree n rec rec'" "bounded y" "depth y < Suc n" "set reps \<subseteq> installed_set y"
  shows "locked e rem rec r old reps y = locked e rem rec' r old reps y"
proof -
  define y0 where "y0 = (mod_pkg r filelist_changed (set_sigint True y))\<lparr>y_state_changed := y_state_changed y + 1\<rparr>"
  have r0: "runs y y0" by (auto simp: y0_def intro!: runs_mod_pkg)
  have reps: "runs y y2" if "pkg_remove_installed_replacees rem reps y1 = Some (err, y2)" "runs y y1" for err y1 y2
    using that runs_each_until [OF _ calls(3)] by (auto simp: pkg_remove_installed_replacees_def)
  note unw = unwind_cong [OF assms]
  have orphans: "runs y y1" if "(case old of None \<Rightarrow> Some y0 | Some o' \<Rightarrow>
      map_option snd (pkg_remove_orphan_dependent rem r o' y0)) = Some y1" for y1
    using that r0 by (auto split: option.splits elim!: runs_orphans)
  show ?thesis
    unfolding locked_def Let_def y0_def [symmetric]
  proof (rule bind_cong_some, goal_cases)
    case (1 y1)
    then have r1: "runs y y1" by (rule orphans)
    show ?case
    proof (rule bind_cong_some, goal_cases)
      case (1 x)
      obtain err y2 where x: "x = (err, y2)" by fastforce
      obtain err' y3 where p: "preinst_configure e r old y2 = (err', y3)" by fastforce
      obtain err'' w where b: "backup_modified_conffiles e (pkg_at y3 r) (map_option (pkg_at y3) old) (y_world y3) = (err'', w)"
        by fastforce
      have r2: "runs y y2" using reps 1 r1 by (simp add: x)
      then have r3: "runs y y3" using p by (auto elim: runs_preinst)
      then have "runs y (y3\<lparr>y_world := w\<rparr>)" by simp
      then show ?case using r2 r3
        by (auto simp: x p b intro!: bind_cong_some unw elim!: runs_clashes)
    qed
  qed
qed

end

text \<open>The states in which calls are covered.\<close>

definition covered :: "nat \<Rightarrow> 'w sys \<Rightarrow> bool" where
  "covered n y \<longleftrightarrow> bounded y \<and> depth y < n"

lemma runs_covered: "covered n y \<Longrightarrow> runs y y' \<Longrightarrow> covered n y'"
  using runs_bounded runs_depth by (fastforce simp: covered_def)

lemma covered_steps:
  "check_installable e r old y = Some (stop, y') \<Longrightarrow> covered n y \<Longrightarrow> covered n y'"
  "obtain_file e r y = Some (stop, y') \<Longrightarrow> covered n y \<Longrightarrow> covered n y'"
  "unpack_control e r y = Some (stop, y') \<Longrightarrow> covered n y \<Longrightarrow> covered n y'"
  "update_file_ownership e r old y = Some (err, y') \<Longrightarrow> covered n y \<Longrightarrow> covered n y'"
  by (auto elim!: runs_covered intro: runs_check_installable runs_obtain_file runs_unpack_control runs_update_ownership)

context installation
begin

lemma covered_stages:
  "already_installed e rec r y = Some (stop, y') \<Longrightarrow> covered n y \<Longrightarrow> covered n y'"
  "only_download e rec r y = Some (stop, y') \<Longrightarrow> covered n y \<Longrightarrow> covered n y'"
  "install_dependencies e rec r y = Some (stop, y') \<Longrightarrow> covered n y \<Longrightarrow> covered n y'"
  by (auto elim!: runs_covered intro: runs_stages)

lemma stages_cong:
  assumes "agree n rec rec'" "covered (Suc n) y"
  shows "already_installed e rec r y = already_installed e rec' r y"
    "only_download e rec r y = only_download e rec' r y"
    "install_dependencies e rec r y = install_dependencies e rec' r y"
  using satisfy_cong [OF assms(1)] assms(2)
  by (auto simp: already_installed_def only_download_def install_dependencies_def covered_def)

lemma install_body_cong:
  assumes "agree n rec rec'" "covered (Suc n) y"
  shows "install_body e rem rec r y = install_body e rem rec' r y"
proof -
  note cong = stages_cong [OF assms(1)]
  have locked: "do { reps \<leftarrow> pkg_get_installed_replacees (y_store y3) r; locked e rem rec r old reps y3 } =
      do { reps \<leftarrow> pkg_get_installed_replacees (y_store y3) r; locked e rem rec' r old reps y3 }"
    if "covered (Suc n) y3" for old y3
    using that by (intro bind_cong_some locked_cong [OF assms(1)]) (auto simp: covered_def dest: replacees_installed)
  show ?thesis
    unfolding install_body_def
  proof (intro if_cong refl stage_cong bind_cong_some cong assms(2), goal_cases)
    case (1 y1 x)
    obtain old y2 where x: "x = (old, y2)" by fastforce
    have c1: "covered (Suc n) (default_dest e r y1)"
      using 1 by (intro runs_covered [OF covered_stages(1) [OF _ assms(2)] runs_default_dest [OF runs_refl]])
    have "find_old r (default_dest e r y1) = Some (old, y2)" using 1 x by simp
    then have c2: "covered (Suc n) y2" by (intro runs_covered [OF c1] runs_find_old [OF _ runs_refl])
    show ?case unfolding x prod.case
      by (intro stage_cong refl cong locked)
        (auto simp: check_md5_def or_fail_def split: if_splits intro!: c2 elim!: covered_stages covered_steps)
  qed
qed

end

text \<open>A run with fuel beyond the depth never asks what happens without fuel.\<close>

lemma install_agree: "agree n (opkg_install_pkg n rfuel e) (install_nested bottom (n + k) rfuel e)"
proof (induction n)
  case 0
  then show ?case by (simp add: agree_def)
next
  case (Suc n)
  show ?case
    using installation.install_body_cong [OF installation_opkg Suc]
    by (simp add: agree_def covered_def)
qed

section \<open>Properties\<close>

text \<open>
  (C23) The calls of \<open>opkg_install_pkg\<close> to itself nest at most as deep as there are unmarked
  abstract packages and installed packages, whatever the system, the scripts and the packages do,
  cycles of dependencies and failed replacements included: with more fuel than that number, the
  result does not depend on what a call without fuel would answer (\<open>bottom\<close>), so no call without
  fuel is reached, and more fuel changes nothing. The removals that an installation calls have
  fuel of their own (\<open>rfuel\<close>).
\<close>

theorem opkg_install_pkg_depth:
  assumes "bounded y" "depth y < fuel"
  shows "install_nested bottom (fuel + k) rfuel e r y = opkg_install_pkg fuel rfuel e r y"
  using install_agree [of fuel rfuel e bottom k] assms by (simp add: agree_def)

text \<open>
  The example: \<open>a\<close> is installed and depends on \<open>b\<close>, which is not and is for another architecture.
  The call for \<open>a\<close> calls itself for \<open>b\<close>, and that call refuses.
\<close>

definition nested_store :: store where
  "nested_store = cycle_store\<lparr>s_pkgs := (cycle_pkg)
     (0 := (cycle_pkg 0)\<lparr>p_state_status := SS_INSTALLED, p_dest := Some 0\<rparr>,
      1 := (cycle_pkg 1)\<lparr>p_architecture := Some ''mips'', p_depends_count := 0, p_depends := []\<rparr>)\<rparr>"

definition nested_sys :: "unit sys" where
  "nested_sys = (example_sys ())\<lparr>y_store := nested_store\<rparr>"

lemma nested_bounded: "bounded nested_sys" "depth nested_sys < 4"
proof -
  have "installed_set nested_sys = {0}"
    by (auto simp: nested_sys_def nested_store_def installed_set_def cycle_store_def cycle_pkg_def pkg_new_def)
  moreover have "pending nested_store \<subseteq> {0, 1}" by (auto simp: pending_def nested_store_def cycle_store_def)
  then have "card (pending nested_store) \<le> card {0, 1 :: nat}" by (intro card_mono) simp_all
  ultimately show "bounded nested_sys" "depth nested_sys < 4"
    by (auto simp: bounded_def depth_def nested_sys_def nested_store_def cycle_store_def cycle_pkg_def split: if_splits)
qed

lemma nested_unsat:
  "\<exists>s. pkg_hash_fetch_unsatisfied_dependencies 3 0 [] nested_store = Some (1, [1], None, s) \<and> s_pkgs s = s_pkgs nested_store"
  by (simp add: eval_nat_numeral unsat_body_def one_depend_def plain_depend_def nested_store_def cycle_store_def cycle_pkg_def Let_def
   mark_checked_def all_depends_count_def pkg_new_def first_n_def pkg_hash_fetch_best_installation_candidate_def best_installation_candidate_sorted_def
   matching_def add_provider_def effective_provider_def add_matching_def abstract_pkg_new_def sort_matching_def upd_apkg_def pkg_vec_insert_def
   pkg_installed_and_constraint_satisfied_def pkg_constraint_satisfied_def version_constraints_satisfied_def is_installed_def
   is_pkg_in_pkg_vec_def parent_installed_def choose_candidate_def merge_unresolved_def pkg_vec_contains_def)


lemma nested_run:
  "opkg_install_pkg 1 rfuel idle_env 0 nested_sys = None"
  "\<exists>y'. opkg_install_pkg (Suc (Suc fuel)) rfuel idle_env 0 nested_sys = Some (-1, y')"
proof -
  obtain s where s: "pkg_hash_fetch_unsatisfied_dependencies 3 0 [] nested_store = Some (1, [1], None, s)"
    "s_pkgs s = s_pkgs nested_store" using nested_unsat by blast
  define y1 where "y1 = mark_to_install 0 1 (nested_sys\<lparr>y_store := s\<rparr>)"
  have p0: "pkg_arch_supported (idle_env :: unit env) (pkg_at nested_sys 0)" "p_state_status (pkg_at nested_sys 0) = SS_INSTALLED"
    "Suc (s_apkg_next nested_store) = 3" "y_store nested_sys = nested_store"
    by (simp_all add: nested_sys_def nested_store_def cycle_store_def cycle_pkg_def pkg_arch_supported_def idle_env_def strcmp_refl)
  have p1: "\<not> pkg_arch_supported (idle_env :: unit env) (pkg_at y1 1)" "\<not> is_installed (pkg_at y1 1)"
    by (simp_all add: y1_def mark_to_install_def mod_pkg_def s(2) nested_store_def cycle_pkg_def pkg_new_def
        pkg_arch_supported_def idle_env_def is_installed_def)
  have run: "install_body idle_env rem rec 0 nested_sys =
      do { (err, y2) \<leftarrow> each_until (install_dependency rec) [1] y1;
           if err \<noteq> 0 then Some (-1, y2)
           else if p_dest (pkg_at y2 0) = None then None else Some (0, y2) }" for rem rec
  proof -
    have n: "\<not> c_nodeps (idle_env :: unit env)" by (simp add: idle_env_def)
    have "satisfy_dependencies_for idle_env rec 0 nested_sys = each_until (install_dependency rec) [1] y1"
      unfolding satisfy_dependencies_for_def p0(3,4) s(1) by (simp add: y1_def)
    then show ?thesis
      using p0 n by (auto simp: install_body_def stage_def already_installed_def split: bind_splits option.splits)
  qed
  show "opkg_install_pkg 1 rfuel idle_env 0 nested_sys = None"
    using p1 by (simp add: run install_dependency_def)
  have "install_body idle_env rem rec 1 y1 = Some (-1, y1)" for rem rec using p1 by (simp add: install_body_def)
  then show "\<exists>y'. opkg_install_pkg (Suc (Suc fuel)) rfuel idle_env 0 nested_sys = Some (-1, y')"
    using p1 by (simp add: run install_dependency_def)
qed

theorem opkg_install_pkg_depth_witness:
  "(\<exists>y'. install_nested (\<lambda>r y. Some (0, y)) 100 0 idle_env 0 nested_sys = Some (-1, y')) \<and>
   opkg_install_pkg 1 0 idle_env 0 nested_sys = None"
  using opkg_install_pkg_depth [OF nested_bounded, of "\<lambda>r y. Some (0, y)" 96 0 idle_env 0] nested_run(1)
    nested_run(2) [of 2 0] by (simp add: eval_nat_numeral del: opkg_install_pkg_simps)
end
