(* ===== verification/Opkg_Install_Example.thy ===== *)
theory Opkg_Install_Example
  imports Opkg_Install_Fuel
begin

text \<open>
  A package without files and dependencies on a system where every call succeeds, and the proof
  that it is installed. The witnesses of the properties of \<open>opkg_install_pkg\<close> use it.
\<close>

definition install_env :: "string list env" where
  "install_env = idle_env\<lparr>e_mkstemp := (\<lambda>t w. (Some t, w)), e_fdopen := (\<lambda>w. True), e_mkdtemp := (\<lambda>t w. (Some t, w)),
     e_deb_names := (\<lambda>f w. (0, [])), e_deb_control := (\<lambda>f d w. (0, w @ [d])),
     e_deb_data := (\<lambda>f d w. (0, w @ [d])), e_write_file := (\<lambda>f t w. (0, w @ [f]))\<rparr>"

definition fresh_pkg :: pkg where
  "fresh_pkg = (example_pkg ''x'' 0)\<lparr>p_state_status := SS_NOT_INSTALLED, p_local_filename := Some ''x.ipk''\<rparr>"

definition fresh_sys :: "'w \<Rightarrow> 'w sys" where
  "fresh_sys w = (example_sys w)\<lparr>y_store := empty_store\<lparr>s_pkgs := (\<lambda>r. fresh_pkg), s_apkg_next := 1\<rparr>\<rparr>"

definition ready :: "string option \<Rightarrow> 'w sys \<Rightarrow> bool" where
  "ready dir y \<longleftrightarrow> (let p = pkg_at y 0 in
     p_name p = Some ''x'' \<and> p_architecture p = Some ''all'' \<and> p_state_status p = SS_NOT_INSTALLED \<and>
     p_dest p = Some 0 \<and> p_local_filename p = Some ''x.ipk'' \<and> p_md5sum p = None \<and> all_depends_count p = 0 \<and>
     p_conflicts p = None \<and> p_replaces_count p = 0 \<and> p_installed_size p = 0 \<and> p_conffiles p = [] \<and>
     p_installed_files p = None \<and> p_installed_files_ref_cnt p = 0 \<and> p_parent p = Some 0 \<and>
     p_tmp_unpack_dir p = dir \<and>
     ht_map (s_hash (y_store y)) = Map.empty)"

lemma env_simps [simp]:
  "c_nodeps install_env = False" "c_noaction install_env = False" "c_download_only install_env = False"
  "c_force_depends install_env = False" "c_offline_root install_env = None" "c_tmp_dir install_env = ''/tmp''"
  "c_arch_list install_env = [(''all'', ''1'')]"
  "e_mkstemp install_env t w = (Some t, w)" "e_fdopen install_env w" "e_mkdtemp install_env t w = (Some t, w)"
  "e_deb_names install_env f w = (0, [])" "e_deb_control install_env f d w = (0, w @ [d])"
  "e_deb_data install_env f d w = (0, w @ [d])" "e_write_file install_env f t w = (0, w @ [f])"
  "e_stat install_env f w = None" "e_file install_env f w = None"
  by (simp_all add: install_env_def idle_env_def)

lemma ready_pkg:
  "ready dir y \<Longrightarrow> ready dir (mod_pkg 0 (\<lambda>p. p\<lparr>p_state_want := sw\<rparr>) y)"
  "ready dir y \<Longrightarrow> ready dir (mod_pkg 0 filelist_changed y)"
  "ready dir y \<Longrightarrow> ready dir (mod_pkg 0 (\<lambda>p. p\<lparr>p_state_flag := g p\<rparr>) y)"
  "ready dir y \<Longrightarrow> ready dir (mod_pkg 0 (\<lambda>p. if p_dest p = None then p\<lparr>p_dest := Some k\<rparr> else p) y)"
  "ready dir (y\<lparr>y_world := w\<rparr>) = ready dir y" "ready dir (y\<lparr>y_sigint_blocked := b\<rparr>) = ready dir y"
  "ready dir (y\<lparr>y_state_changed := n\<rparr>) = ready dir y"
  by (simp_all add: ready_def mod_pkg_def Let_def filelist_changed_def all_depends_count_def)

lemma ready_files:
  assumes "ready dir y"
  shows "\<exists>y1. pkg_get_installed_files install_env 0 y = Some (Some [], y1) \<and> ready dir (pkg_free_installed_files 0 y1)"
  using assms by (simp add: ready_def Let_def pkg_get_installed_files_def files_from_package_def dest_of_def
      set_installed_files_def mod_pkg_def unlink_def pkg_free_installed_files_def all_depends_count_def
      read_lines.simps file_read_line_alloc_def file_read_line_loop.simps fgets_def)

lemma ready_find_old:
  assumes "ready dir y"
  shows "\<exists>y'. find_old 0 y = Some (None, y') \<and> ready dir y'"
proof -
  obtain v h where h: "hash_table_get (s_hash (y_store y)) ''x'' = (v, h)" by fastforce
  have "v = None" using h hash_table_get_map [of "s_hash (y_store y)" "''x''"] assms by (simp add: ready_def Let_def)
  moreover have "ht_map h = Map.empty"
    using h hash_table_get_same [of "s_hash (y_store y)" "''x''"] assms by (simp add: ready_def Let_def)
  ultimately show ?thesis
    using assms h by (simp add: find_old_def pkg_hash_fetch_installed_by_name_def pkg_vec_fetch_by_name_def
        abstract_pkg_fetch_by_name_def ready_def Let_def)
qed

lemma ready_unpack:
  "ready None y \<Longrightarrow> \<exists>y'. unpack_control install_env 0 y = Some (None, y') \<and> ready (Some ''/tmp/x-XXXXXX'') y'"
  by (simp add: unpack_control_def unpack_pkg_control_files_def fmt_s_def pkg_extract_control_files_to_dir_with_prefix_def file_exists_def
      mod_pkg_def ready_def Let_def all_depends_count_def)

lemma ready_satisfy: "ready dir y \<Longrightarrow> \<exists>y'. satisfy_dependencies_for install_env rec 0 y = Some (0, y') \<and> ready dir y'"
  by (simp add: satisfy_dependencies_for_def unsat_body_def ready_def Let_def mark_checked_def)

lemma ready_stages:
  assumes "ready dir y"
  shows "\<exists>y'. check_installable install_env 0 None y = Some (None, y') \<and> ready dir y'"
    "obtain_file install_env 0 y = Some (None, y)" "check_md5 install_env 0 y = Some (None, y)"
    "only_download install_env rec 0 y = Some (None, y)"
    "\<exists>y'. update_file_ownership install_env 0 None y = Some (0, y') \<and> ready dir y'"
    "\<exists>y'. install_dependencies install_env rec 0 y = Some (None, y') \<and> ready dir y'"
    "pkg_get_installed_replacees (y_store y) 0 = Some []"
    "already_installed install_env rec 0 y = Some (None, y)" "ready dir (default_dest install_env 0 y)"
proof -
  note r = assms [unfolded ready_def Let_def]
  have w: "ready dir (mark_wanted 0 None y)" using ready_pkg(1) [OF assms] by (simp add: mark_wanted_def)
  have "opkg_install_check_downgrade install_env 0 None y = Some (0, y)"
    using r by (simp add: opkg_install_check_downgrade_def)
  moreover have "check_conflicts_for install_env 0 (mark_wanted 0 None y) = Some 0"
    using w by (simp add: check_conflicts_for_def pkg_hash_fetch_conflicts_def ready_def Let_def)
  moreover have "verify_pkg_installable install_env 0 (mark_wanted 0 None y) = 0"
    "p_state_status (pkg_at (mark_wanted 0 None y) 0) = SS_NOT_INSTALLED"
    using w by (simp_all add: verify_pkg_installable_def ready_def Let_def)
  ultimately show "\<exists>y'. check_installable install_env 0 None y = Some (None, y') \<and> ready dir y'"
    using w by (simp add: check_installable_def)
  obtain y1 where y1: "pkg_get_installed_files install_env 0 y = Some (Some [], y1)" "ready dir (pkg_free_installed_files 0 y1)"
    using ready_files [OF assms] by blast
  then show "\<exists>y'. update_file_ownership install_env 0 None y = Some (0, y') \<and> ready dir y'"
    by (simp add: update_file_ownership_def)
  show "\<exists>y'. install_dependencies install_env rec 0 y = Some (None, y') \<and> ready dir y'"
    using ready_satisfy [OF assms, of rec] by (auto simp: install_dependencies_def ready_def Let_def)
  show "pkg_get_installed_replacees (y_store y) 0 = Some []"
    using r by (simp add: pkg_get_installed_replacees_def first_n_def)
  show "ready dir (default_dest install_env 0 y)"
    using ready_pkg(4) [OF assms] by (simp add: default_dest_def)
qed (use assms in \<open>simp_all add: obtain_file_def check_md5_def md5_mismatch_def only_download_def already_installed_def
    ready_def Let_def\<close>)

lemma ready_commit:
  assumes "ready dir y"
  shows "\<exists>y'. commit install_env 0 None y = Some (0, y')"
proof -
  have d: "dest_of install_env (pkg_at y' 0) = Some (c_dest install_env 0)" if "ready dir y'" for y' :: "string list sys"
    using that by (simp add: dest_of_def ready_def Let_def)
  have 1: "\<exists>y'. install_maintainer_scripts install_env 0 y = Some (0, y') \<and> ready dir y'"
    using assms by (simp add: install_maintainer_scripts_def pkg_extract_control_files_to_dir_with_prefix_def d ready_pkg)
      (simp add: ready_def Let_def)
  have 2: "\<exists>y''. install_data_files install_env 0 y' = Some (0, y'') \<and> ready dir y''" if "ready dir y'" for y'
  proof -
    have "\<exists>y1. pkg_extract_data_files_to_dir install_env 0 to y' = Some (0, y1) \<and> ready dir y1" for to
      using that by (simp add: pkg_extract_data_files_to_dir_def ready_pkg) (simp add: ready_def Let_def)
    then obtain y1 where y1: "pkg_extract_data_files_to_dir install_env 0 (pd_root_dir (c_dest install_env 0)) y' = Some (0, y1)" "ready dir y1"
      by blast
    have "set_flags_from_control install_env 0 y1 = Some y1"
      using y1(2) by (simp add: set_flags_from_control_def d)
    moreover have "\<exists>y2. pkg_write_filelist install_env 0 y1 = Some (0, y2) \<and> ready dir y2"
      using y1(2) by (simp add: pkg_write_filelist_def d ready_pkg)
    ultimately show ?thesis using that y1(1) by (simp add: install_data_files_def d)
  qed
  have 3: "\<exists>y''. check_data_file_clashes_change install_env 0 y' = Some (0, y'')" if "ready dir y'" for y'
    using ready_files [OF that] by (auto simp: check_data_file_clashes_change_def)
  show ?thesis using 1 2 3 by (fastforce simp: commit_def)
qed

lemma fresh_ready: "ready None (default_dest install_env 0 (fresh_sys w))"
  by (simp add: ready_def fresh_sys_def default_dest_def mod_pkg_def fresh_pkg_def example_pkg_def pkg_new_def Let_def
      all_depends_count_def example_sys_def empty_store_def hash_table_init_map blank_table_def)

lemma ready_locked:
  assumes "ready (Some dir) y"
  shows "\<exists>y'. locked install_env rem rec 0 None [] y = Some (0, y')"
proof -
  define y0 where "y0 = (mod_pkg 0 filelist_changed (set_sigint True y))\<lparr>y_state_changed := y_state_changed y + 1\<rparr>"
  have r0: "ready (Some dir) y0" using assms by (simp add: y0_def set_sigint_def ready_pkg)
  then have p: "preinst_configure install_env 0 None y0 = (0, y0)"
    by (simp add: preinst_configure_def pkg_run_script_def script_path_def file_exists_def Let_def ready_def)
  have b: "backup_modified_conffiles install_env (pkg_at y0 0) (map_option (pkg_at y0) None) (y_world y0) = (0, y_world y0)"
    using r0 by (simp add: backup_modified_conffiles_def ready_def Let_def)
  obtain y1 where c: "check_data_file_clashes install_env 0 None y0 = Some (0, y1)" "ready (Some dir) y1"
    using ready_files [OF r0] by (auto simp: check_data_file_clashes_def)
  then show ?thesis
    using ready_commit [OF c(2)] p b
    by (simp add: locked_def Let_def y0_def [symmetric] pkg_remove_installed_replacees_def)
qed

lemma example_installs: "\<exists>y'. opkg_install_pkg (Suc fuel) rfuel install_env 0 (fresh_sys []) = Some (0, y')"
proof -
  define rem where "rem = opkg_remove_pkg rfuel install_env"
  define rec where "rec = opkg_install_pkg fuel rfuel install_env"
  obtain y2 where 2: "find_old 0 (default_dest install_env 0 (fresh_sys [])) = Some (None, y2)" "ready None y2"
    using ready_find_old [OF fresh_ready] by blast
  obtain y3 where 3: "check_installable install_env 0 None y2 = Some (None, y3)" "ready None y3"
    using ready_stages(1) [OF 2(2)] by blast
  note 4 = ready_stages(2-4) [OF 3(2)]
  obtain y5 where 5: "unpack_control install_env 0 y3 = Some (None, y5)" "ready (Some ''/tmp/x-XXXXXX'') y5"
    using ready_unpack [OF 3(2)] by blast
  obtain y6 where 6: "update_file_ownership install_env 0 None y5 = Some (0, y6)" "ready (Some ''/tmp/x-XXXXXX'') y6"
    using ready_stages(5) [OF 5(2)] by blast
  obtain y7 where 7: "install_dependencies install_env rec 0 y6 = Some (None, y7)" "ready (Some ''/tmp/x-XXXXXX'') y7"
    using ready_stages(6) [OF 6(2)] by blast
  have 1: "pkg_arch_supported install_env (pkg_at (fresh_sys []) 0)"
    "already_installed install_env rec 0 (fresh_sys []) = Some (None, fresh_sys [])"
    by (simp_all add: pkg_arch_supported_def fresh_sys_def fresh_pkg_def example_pkg_def already_installed_def strcmp_refl)
  show ?thesis
    using ready_locked [OF 7(2)] 1 2(1) 3(1) 4 5(1) 6(1) 7(1) ready_stages(7) [OF 7(2)]
    by (simp add: install_body_def stage_def or_fail_def rec_def [symmetric] rem_def [symmetric])
qed

end
