(* ===== verification/Opkg_Install_Props.thy ===== *)
theory Opkg_Install_Props
  imports Opkg_Install_Example
begin

text \<open>
  What \<open>opkg_install_pkg\<close> promises: the tables it keeps, the state of the package after a success,
  and what is refused.
\<close>

section \<open>The graph\<close>

text \<open>
  (C24) Whatever happens during an installation, nested ones and error paths included, the control
  data of the packages, the graph of the abstract packages and the table of names stay as they are;
  no package becomes installed (that is left to the configuration) and no abstract package is
  unmarked.
\<close>

theorem opkg_install_pkg_keeps_graph:
  assumes "opkg_install_pkg fuel rfuel e r y = Some (rc, y')"
  shows "(\<forall>p. control_data (pkg_at y' p) = control_data (pkg_at y p) \<and>
        (p_state_status (pkg_at y' p) = SS_INSTALLED \<longrightarrow> p_state_status (pkg_at y p) = SS_INSTALLED)) \<and>
    (\<forall>a. graph_data (s_apkgs (y_store y') a) = graph_data (s_apkgs (y_store y) a)) \<and>
    pending (y_store y') \<subseteq> pending (y_store y) \<and> ht_map (s_hash (y_store y')) = ht_map (s_hash (y_store y))"
proof -
  have r: "runs y y'" by (rule inst.installed_runs [OF assms runs_refl])
  show ?thesis
    using runs_sets(1) [OF r] r by (auto simp: runs_def store_runs_def pkg_runs_def apkg_runs_def)
qed

theorem opkg_install_pkg_keeps_graph_witness:
  "\<exists>y'. opkg_install_pkg 3 1 install_env 0 (fresh_sys []) = Some (0, y') \<and>
     control_data (pkg_at y' 0) = control_data fresh_pkg \<and> p_state_status (pkg_at y' 0) \<noteq> SS_INSTALLED"
proof -
  obtain y' where y': "opkg_install_pkg 3 1 install_env 0 (fresh_sys []) = Some (0, y')"
    using example_installs [of 2 1] by (auto simp: eval_nat_numeral)
  from opkg_install_pkg_keeps_graph [OF y'] have
    "control_data (pkg_at y' 0) = control_data (pkg_at (fresh_sys ([] :: string list)) 0)"
    "p_state_status (pkg_at y' 0) = SS_INSTALLED \<longrightarrow> p_state_status (pkg_at (fresh_sys ([] :: string list)) 0) = SS_INSTALLED"
    by blast+
  then show ?thesis using y' by (simp add: fresh_sys_def fresh_pkg_def)
qed

section \<open>Success\<close>

lemma find_old_pkgs:
  assumes "find_old r y = Some (old, y')"
  shows "s_pkgs (y_store y') = s_pkgs (y_store y)" "old = Some q \<Longrightarrow> is_installed (pkg_at y q)"
proof -
  obtain name s where n: "pkg_hash_fetch_installed_by_name name (y_store y) = (old, s)" "y' = y\<lparr>y_store := s\<rparr>"
    using assms by (auto simp: find_old_def split: bind_splits prod.splits)
  then have s: "s_pkgs s = s_pkgs (y_store y)"
    using vec_fetch_store(1) [of name "y_store y"]
    by (fastforce simp: pkg_hash_fetch_installed_by_name_def split: prod.splits option.splits)
  then show "s_pkgs (y_store y') = s_pkgs (y_store y)" using n(2) by simp
  show "old = Some q \<Longrightarrow> is_installed (pkg_at y q)"
    using n(1) s vec_fetch_store(1) [of name "y_store y"]
    by (fastforce simp: pkg_hash_fetch_installed_by_name_def find_Some_iff split: prod.splits option.splits)
qed

lemma check_downgrade_self:
  assumes "version_ok (pkg_at y r)" "opkg_install_check_downgrade e r (Some r) y = Some (err, y')"
  shows "err = 1"
  using assms(2) vercmp.cmp_refl [OF assms(1)] by (auto simp: opkg_install_check_downgrade_def Let_def split: if_splits)

lemma check_downgrade_status:
  "opkg_install_check_downgrade e r old y = Some (err, y') \<Longrightarrow> p_state_status (pkg_at y' q) = p_state_status (pkg_at y q)"
  by (auto simp: opkg_install_check_downgrade_def Let_def mod_pkg_def split: option.splits if_splits)

lemma check_installable_stops:
  assumes "check_installable e r old y = Some (stop, y')" "p_state_status (pkg_at y r) \<noteq> SS_INSTALLED"
  shows "stop = None \<or> stop = Some (-1)"
proof -
  obtain err y1 where 1: "opkg_install_check_downgrade e r old y = Some (err, y1)"
    using assms(1) by (auto simp: check_installable_def split: bind_splits)
  then have "p_state_status (pkg_at (mark_wanted r old y1) r) \<noteq> SS_INSTALLED"
    using assms(2) check_downgrade_status [OF 1, of r] by (auto simp: mark_wanted_def mod_pkg_def Let_def split: option.splits)
  then show ?thesis using assms(1) 1 by (auto simp: check_installable_def Let_def split: if_splits bind_splits)
qed

lemma stage_zero:
  "stage m k y = Some (0, y') \<Longrightarrow> m y = Some (Some 0, y') \<or> (\<exists>y1. m y = Some (None, y1) \<and> k y1 = Some (0, y'))"
  by (auto simp: stage_def split: bind_splits option.splits)

lemma stops:
  "obtain_file e r y \<noteq> Some (Some 0, y')" "check_md5 e r y \<noteq> Some (Some 0, y')"
  "unpack_control e r y \<noteq> Some (Some 0, y')" "\<not> c_download_only e \<Longrightarrow> only_download e rec r y \<noteq> Some (Some 0, y')"
  "or_fail m \<noteq> Some (Some 0, y')"
  by (auto simp: obtain_file_def check_md5_def unpack_control_def only_download_def or_fail_def
      split: if_splits option.splits prod.splits)

lemma commit_unpacks:
  assumes "commit e r old y = Some (0, y')" "old \<noteq> Some r"
  shows "p_state_status (pkg_at y' r) = SS_UNPACKED \<and> y_sigint_blocked y' = False \<and>
    (\<forall>q. old = Some q \<longrightarrow> p_state_status (pkg_at y' q) = SS_NOT_INSTALLED) \<and>
    (\<forall>a. p_parent (pkg_at y' r) = Some a \<longrightarrow> ap_state_status (s_apkgs (y_store y') a) = SS_UNPACKED)"
proof -
  obtain y1 where "y' = set_sigint False (mark_unpacked e r old y1)"
    using assms(1) by (auto simp: commit_def split: bind_splits if_splits)
  then show ?thesis using assms(2)
    by (auto simp: mark_unpacked_def Let_def set_sigint_def mod_pkg_def mod_apkg_def split: option.splits)
qed

lemma locked_success:
  assumes "locked e rem rec r old reps y = Some (0, y')" "\<not> c_noaction e"
  shows "\<exists>y1. commit e r old y1 = Some (0, y')"
  using assms by (auto simp: locked_def Let_def unwind_def split: bind_splits if_splits prod.splits option.splits)

text \<open>
  (C21) Let actions be carried out (neither noaction nor download-only is set), let the package not
  be installed before, and let its version be made of C strings. When \<open>opkg_install_pkg\<close> then
  returns 0, the package is unpacked; if dependencies are ignored (nodeps), its abstract package
  is unpacked too and \<open>SIGINT\<close> is unblocked. With noaction or download-only the function returns
  0 without unpacking.
\<close>

theorem opkg_install_pkg_unpacks:
  assumes "opkg_install_pkg fuel rfuel e r y = Some (0, y')"
    and "p_state_status (pkg_at y r) \<noteq> SS_INSTALLED" "version_ok (pkg_at y r)"
    and "\<not> c_noaction e" "\<not> c_download_only e"
  shows "p_state_status (pkg_at y' r) = SS_UNPACKED \<and>
    (c_nodeps e \<longrightarrow> \<not> y_sigint_blocked y' \<and>
      (\<forall>a. p_parent (pkg_at y' r) = Some a \<longrightarrow> ap_state_status (s_apkgs (y_store y') a) = SS_UNPACKED))"
proof -
  define rem where "rem = opkg_remove_pkg rfuel e"
  obtain n where n: "fuel = Suc n" using assms(1) by (cases fuel) auto
  define rec where "rec = opkg_install_pkg n rfuel e"
  have b: "install_body e rem rec r y = Some (0, y')" using assms(1) by (simp add: n rem_def rec_def)
  have a: "already_installed e rec r y = Some (None, y)" using assms(2) by (simp add: already_installed_def)
  obtain old y2 where 2: "find_old r (default_dest e r y) = Some (old, y2)"
    using b a by (auto simp: install_body_def stage_def split: if_splits bind_splits)
  have p2: "pkg_at y2 q = pkg_at (default_dest e r y) q" for q using find_old_pkgs(1) [OF 2] by simp
  have st: "p_state_status (pkg_at y2 r) \<noteq> SS_INSTALLED" "version_ok (pkg_at y2 r)"
    using assms(2,3) unfolding p2 by (simp_all add: default_dest_def mod_pkg_def version_ok_def)
  obtain stop y3 where c: "check_installable e r old y2 = Some (stop, y3)"
    using b a 2 by (auto simp: install_body_def stage_def split: if_splits bind_splits)
  then have 3: "check_installable e r old y2 = Some (None, y3)"
    using b a 2 check_installable_stops [OF c st(1)] by (auto simp: install_body_def stage_def split: if_splits)
  have old: "old \<noteq> Some r"
    using 3 by (auto simp: check_installable_def split: bind_splits if_splits dest: check_downgrade_self [OF st(2)])
  consider (unpacked) y4 where "install_dependencies e rec r y4 = Some (Some 0, y')"
    | (locked) reps y4 where "locked e rem rec r old reps y4 = Some (0, y')"
    using b assms(5) by (auto simp: install_body_def stage_def [of "already_installed e rec r"] a 2
        stage_def [of "check_installable e r old"] 3 stops split: if_splits bind_splits dest!: stage_zero)
  then show ?thesis
  proof cases
    case unpacked
    then show ?thesis by (auto simp: install_dependencies_def split: if_splits bind_splits)
  next
    case locked
    then obtain y5 where "commit e r old y5 = Some (0, y')" using locked_success assms(4) by blast
    then show ?thesis using commit_unpacks old by blast
  qed
qed

theorem opkg_install_pkg_unpacks_witness:
  "\<exists>y'. opkg_install_pkg 3 1 install_env 0 (fresh_sys []) = Some (0, y') \<and> p_state_status (pkg_at y' 0) = SS_UNPACKED"
proof -
  obtain y' where y': "opkg_install_pkg 3 1 install_env 0 (fresh_sys []) = Some (0, y')"
    using example_installs [of 2 1] by (auto simp: eval_nat_numeral)
  have "p_state_status (pkg_at y' 0) = SS_UNPACKED"
    by (rule opkg_install_pkg_unpacks [OF y', THEN conjunct1])
      (simp_all add: fresh_sys_def fresh_pkg_def example_pkg_def pkg_new_def version_ok_def opt_cstring_def)
  then show ?thesis using y' by blast
qed

section \<open>Digests\<close>

text \<open>The parts of a run besides the tables of packages.\<close>

definition same_outside :: "'w sys \<Rightarrow> 'w sys \<Rightarrow> bool" where
  "same_outside y y' \<longleftrightarrow> y_world y' = y_world y \<and> y_files y' = y_files y \<and> y_obs_files y' = y_obs_files y \<and>
     y_state_changed y' = y_state_changed y \<and> y_sigint_blocked y' = y_sigint_blocked y"

lemma same_outside_refl [simp]: "same_outside y y"
  by (simp add: same_outside_def)

lemma same_outside_mod [simp]: "same_outside z (mod_pkg r f y) = same_outside z y"
  by (simp add: same_outside_def mod_pkg_def)

text \<open>The checks change states and destinations, not what is known of the file.\<close>

definition same_file :: "pkg \<Rightarrow> pkg \<Rightarrow> bool" where
  "same_file p q \<longleftrightarrow> p_local_filename q = p_local_filename p \<and> p_md5sum q = p_md5sum p"

lemma find_old_outside: "find_old r y = Some (old, y') \<Longrightarrow> same_outside z y' = same_outside z y"
  by (auto simp: find_old_def same_outside_def split: bind_splits prod.splits)

lemma check_installable_outside:
  assumes "check_installable e r old y = Some (stop, y')"
  shows "same_outside z y' = same_outside z y" "same_file (pkg_at y q) (pkg_at y' q)"
proof -
  obtain err y1 where 1: "opkg_install_check_downgrade e r old y = Some (err, y1)" "y' \<in> {y1, mark_wanted r old y1}"
    using assms by (auto simp: check_installable_def Let_def split: bind_splits if_splits)
  have "same_outside z y1 = same_outside z y" "same_file (pkg_at y q) (pkg_at y1 q)"
    using 1(1) by (auto simp: opkg_install_check_downgrade_def Let_def same_file_def mod_pkg_def same_outside_def
        split: option.splits if_splits)
  moreover have "same_outside z (mark_wanted r old y1) = same_outside z y1"
    "same_file (pkg_at y1 q) (pkg_at (mark_wanted r old y1) q)"
    by (auto simp: mark_wanted_def Let_def same_file_def mod_pkg_def same_outside_def split: option.splits)
  ultimately show "same_outside z y' = same_outside z y" "same_file (pkg_at y q) (pkg_at y' q)"
    using 1(2) by (auto simp: same_file_def)
qed

text \<open>
  (C22) A package file whose MD5 digest is not the one of the package list is refused: nothing is
  written, run or unpacked, no file changes its owner, and the database is not marked as changed.
\<close>

theorem md5_mismatch_refused:
  assumes "opkg_install_pkg fuel rfuel e r y = Some (rc, y')"
    and "p_state_status (pkg_at y r) \<noteq> SS_INSTALLED"
    and "p_local_filename (pkg_at y r) = Some f" "p_md5sum (pkg_at y r) = Some md5sum"
    and "md5_of e f (y_world y) = Some digest" "digest \<noteq> md5sum"
  shows "rc = -1 \<and> same_outside y y'"
proof -
  define rem where "rem = opkg_remove_pkg rfuel e"
  obtain n where n: "fuel = Suc n" using assms(1) by (cases fuel) auto
  define rec where "rec = opkg_install_pkg n rfuel e"
  have b: "install_body e rem rec r y = Some (rc, y')" using assms(1) by (simp add: n rem_def rec_def)
  have a: "already_installed e rec r y = Some (None, y)" using assms(2) by (simp add: already_installed_def)
  show ?thesis
  proof (cases "pkg_arch_supported e (pkg_at y r)")
    case False
    then show ?thesis using b by (simp add: install_body_def)
  next
    case True
    then obtain old y2 stop y3 where 2: "find_old r (default_dest e r y) = Some (old, y2)"
      and 3: "check_installable e r old y2 = Some (stop, y3)"
      using b a by (auto simp: install_body_def stage_def split: if_splits bind_splits)
    have y3: "same_outside y y3"
      using check_installable_outside(1) [OF 3, of y] find_old_outside [OF 2, of y] by (simp add: default_dest_def)
    have st: "p_state_status (pkg_at y2 r) \<noteq> SS_INSTALLED" "same_file (pkg_at y r) (pkg_at y2 r)"
      using assms(2) find_old_pkgs(1) [OF 2] by (simp_all add: default_dest_def mod_pkg_def same_file_def)
    from check_installable_stops [OF 3 st(1)] show ?thesis
    proof
      assume "stop = Some (-1)"
      then show ?thesis using b a 2 3 True y3 by (simp add: install_body_def stage_def)
    next
      assume s: "stop = None"
      have p: "p_local_filename (pkg_at y3 r) = Some f" "p_md5sum (pkg_at y3 r) = Some md5sum"
        using check_installable_outside(2) [OF 3, of r] st(2) assms(3,4) by (simp_all add: same_file_def)
      then have "obtain_file e r y3 = Some (None, y3)" "check_md5 e r y3 = Some (Some (-1), y3)"
        using assms(5,6) y3 by (simp_all add: obtain_file_def check_md5_def md5_mismatch_def same_outside_def)
      then show ?thesis using b a 2 3 s True y3 by (simp add: install_body_def stage_def)
    qed
  qed
qed

lemma find_old_empty:
  assumes "p_name (pkg_at y r) = Some n" "ht_map (s_hash (y_store y)) = Map.empty"
  shows "\<exists>h. find_old r y = Some (None, y\<lparr>y_store := (y_store y)\<lparr>s_hash := h\<rparr>\<rparr>)"
proof -
  obtain v h where h: "hash_table_get (s_hash (y_store y)) n = (v, h)" by fastforce
  then have "v = None" using hash_table_get_map [of "s_hash (y_store y)" n] assms(2) by simp
  then show ?thesis using assms(1) h
    by (intro exI [of _ h]) (simp add: find_old_def pkg_hash_fetch_installed_by_name_def pkg_vec_fetch_by_name_def
        abstract_pkg_fetch_by_name_def)
qed

lemma length_hex_of: "length (hex_of bs) = 2 * length bs"
  by (induction bs) (simp_all add: hex_of_def)

definition bad_env :: "string list env" where
  "bad_env = install_env\<lparr>e_file := (\<lambda>f w. Some (''forged'', False))\<rparr>"

definition listed_sys :: "string list sys" where
  "listed_sys = mod_pkg 0 (\<lambda>p. p\<lparr>p_md5sum := Some ''0''\<rparr>) (fresh_sys [])"

lemma bad_digest: "\<exists>d. md5_of bad_env f w = Some d \<and> d \<noteq> ''0''"
proof -
  obtain d where "md5_of bad_env f w = Some (hex_of d)"
    by (auto simp: md5_of_def bad_env_def file_md5sum_alloc_def md5_stream_MD5)
  moreover have "hex_of d \<noteq> ''0''" using length_hex_of [of d] by (metis One_nat_def length_Cons list.size(3) odd_one dvd_triv_left)
  ultimately show ?thesis by blast
qed

lemma example_refused: "\<exists>rc y'. opkg_install_pkg (Suc fuel) rfuel bad_env 0 listed_sys = Some (rc, y')"
proof -
  define y1 where "y1 = default_dest bad_env 0 listed_sys"
  have a: "pkg_arch_supported bad_env (pkg_at listed_sys 0)"
    "already_installed bad_env rec 0 listed_sys = Some (None, listed_sys)" for rec
    by (simp_all add: pkg_arch_supported_def listed_sys_def mod_pkg_def fresh_sys_def fresh_pkg_def example_pkg_def
        already_installed_def strcmp_refl bad_env_def install_env_def idle_env_def)
  have p: "pkg_at y1 0 = fresh_pkg\<lparr>p_md5sum := Some ''0''\<rparr>"
    by (simp add: y1_def listed_sys_def default_dest_def mod_pkg_def fresh_sys_def fresh_pkg_def example_pkg_def)
  then obtain h where h: "find_old 0 y1 = Some (None, y1\<lparr>y_store := (y_store y1)\<lparr>s_hash := h\<rparr>\<rparr>)"
    using find_old_empty [of y1 0 "''x''"]
    by (auto simp: y1_def listed_sys_def default_dest_def mod_pkg_def fresh_sys_def fresh_pkg_def example_pkg_def
        empty_store_def hash_table_init_map blank_table_def)
  define y2 where "y2 = y1\<lparr>y_store := (y_store y1)\<lparr>s_hash := h\<rparr>\<rparr>"
  have c: "c_force_depends bad_env = False" "c_download_only bad_env = False" by (simp_all add: bad_env_def)
  have "\<exists>stop. check_installable bad_env 0 None y2 = Some (stop, mark_wanted 0 None y2)"
    using p by (simp add: check_installable_def opkg_install_check_downgrade_def y2_def check_conflicts_for_def
        pkg_hash_fetch_conflicts_def mark_wanted_def mod_pkg_def fresh_pkg_def example_pkg_def pkg_new_def c Let_def)
  moreover have "p_local_filename (pkg_at (mark_wanted 0 None y2) 0) = Some ''x.ipk''"
    "p_md5sum (pkg_at (mark_wanted 0 None y2) 0) = Some ''0''"
    using p by (simp_all add: y2_def mark_wanted_def mod_pkg_def fresh_pkg_def)
  moreover obtain d where "md5_of bad_env ''x.ipk'' (y_world (mark_wanted 0 None y2)) = Some d" "d \<noteq> ''0''"
    using bad_digest by blast
  ultimately show ?thesis
    using a h by (auto simp: install_body_def stage_def y1_def [symmetric] y2_def [symmetric] obtain_file_def check_md5_def
        md5_mismatch_def split: option.splits)
qed

theorem md5_mismatch_refused_witness:
  "\<exists>y'. opkg_install_pkg 3 1 bad_env 0 listed_sys = Some (-1, y') \<and> same_outside listed_sys y'"
proof -
  obtain rc y' where y': "opkg_install_pkg 3 1 bad_env 0 listed_sys = Some (rc, y')"
    using example_refused [of 2 1] by (auto simp: eval_nat_numeral)
  obtain d where "md5_of bad_env ''x.ipk'' (y_world listed_sys) = Some d" "d \<noteq> ''0''" using bad_digest by blast
  then have "rc = -1 \<and> same_outside listed_sys y'"
    by (intro md5_mismatch_refused [OF y'])
      (simp_all add: listed_sys_def mod_pkg_def fresh_sys_def fresh_pkg_def)
  then show ?thesis using y' by blast
qed

end
