(* ===== verification/Opkg_Install_Dry.thy ===== *)
theory Opkg_Install_Dry
  imports Opkg_Install_Props
begin

text \<open>
  Two properties of the whole of \<open>opkg_install_pkg\<close>: interrupts are unblocked again on every way
  out, and with \<open>noaction\<close> the calls that change the system do not matter.
\<close>

section \<open>Interrupts\<close>

definition clear :: "'w sys \<Rightarrow> bool" where
  "clear y \<longleftrightarrow> \<not> y_sigint_blocked y"

lemma clear_simps [simp]:
  "clear (mod_pkg r f y) = clear y" "clear (y\<lparr>y_world := w\<rparr>) = clear y" "clear (y\<lparr>y_files := h\<rparr>) = clear y"
  "clear (y\<lparr>y_obs_files := h\<rparr>) = clear y" "clear (y\<lparr>y_store := s\<rparr>) = clear y" "clear (unlink e nm y) = clear y"
  "clear (set_installed_files r fs y) = clear y" "clear (pkg_free_installed_files r y) = clear y"
  "clear (set_sigint b y) = (\<not> b)" "clear (default_dest e r y) = clear y" "clear (mark_wanted r old y) = clear y"
  by (simp_all add: clear_def mod_pkg_def unlink_def set_installed_files_def pkg_free_installed_files_def set_sigint_def
      default_dest_def mark_wanted_def Let_def split: option.splits)

lemma clear_get_installed_files: "pkg_get_installed_files e r y = Some (fs, y') \<Longrightarrow> clear y' = clear y"
  by (auto simp: pkg_get_installed_files_def files_from_package_def files_from_list_def Let_def
      split: option.splits prod.splits if_splits)

lemma clear_owners:
  "file_hash_get_file_owner e f y = (v, y') \<Longrightarrow> clear y' = clear y" "obsolete f y = (v, y') \<Longrightarrow> clear y' = clear y"
  by (auto simp: file_hash_get_file_owner_def obsolete_def split: prod.splits)

lemma clear_set_owner: "file_hash_set_file_owner e f r y = Some y' \<Longrightarrow> clear y' = clear y"
  by (auto simp: file_hash_set_file_owner_def Let_def split: if_splits prod.splits option.splits bind_splits
      dest!: clear_get_installed_files)

lemma clear_update_ownership:
  assumes "update_file_ownership e r old y = Some (err, y')"
  shows "clear y' = clear y"
proof -
  have t: "clear y2 = clear y1" if "foldM (take_file e r o') fs y1 = Some y2" for o' fs y1 y2
    using that by (rule foldM_keeps [where I = "\<lambda>y. clear y = clear y1"])
      (auto simp: take_file_def dest!: clear_set_owner clear_owners split: prod.splits if_splits)
  have m: "clear (fold (mark_obsolete e o') fs y1) = clear y1" for o' fs y1
    by (rule fold_keeps [where I = "\<lambda>y. clear y = clear y1"])
      (auto simp: mark_obsolete_def dest!: clear_owners split: prod.splits)
  show ?thesis
    using assms by (auto simp: update_file_ownership_def m split: bind_splits option.splits
        dest!: t clear_get_installed_files)
qed

lemma clear_unpack_control:
  assumes "unpack_control e r y = Some (stop, y')"
  shows "clear y' = clear y"
proof -
  have a: "clear y2 = clear y1" if "foldM (add_conffile e r) ls y1 = Some y2" for ls y1 y2
    using that by (rule foldM_keeps [where I = "\<lambda>y. clear y = clear y1"])
      (auto simp: add_conffile_def split: if_splits bind_splits)
  show ?thesis
    using assms by (auto simp: unpack_control_def unpack_pkg_control_files_def pkg_extract_control_files_to_dir_with_prefix_def
        Let_def dest!: a split: prod.splits option.splits bind_splits if_splits)
qed

lemma clear_stages:
  "find_old r y = Some (old, y') \<Longrightarrow> clear y' = clear y"
  "check_installable e r old y = Some (stop, y') \<Longrightarrow> clear y' = clear y"
  "obtain_file e r y = Some (stop, y') \<Longrightarrow> clear y' = clear y"
  "check_md5 e r y = Some (stop, y') \<Longrightarrow> clear y' = clear y"
proof -
  show "find_old r y = Some (old, y') \<Longrightarrow> clear y' = clear y"
    using find_old_outside [of r y old y' y] by (simp add: same_outside_def clear_def)
  show "check_installable e r old y = Some (stop, y') \<Longrightarrow> clear y' = clear y"
    using check_installable_outside(1) [of e r old y stop y' y] by (simp add: same_outside_def clear_def)
qed (auto simp: obtain_file_def or_fail_def opkg_download_pkg_def check_md5_def Let_def
    split: if_splits option.splits prod.splits)

lemma locked_unblocks: "locked e rem rec r old reps y = Some (rc, y') \<Longrightarrow> \<not> c_noaction e \<Longrightarrow> clear y'"
  by (auto simp: locked_def unwind_def commit_def Let_def
      split: bind_splits if_splits prod.splits option.splits)

lemma keeps:
  "find_old r y = Some (old, y') \<Longrightarrow> clear y \<Longrightarrow> clear y'"
  "check_installable e r old y = Some (stop, y') \<Longrightarrow> clear y \<Longrightarrow> clear y'"
  "obtain_file e r y = Some (stop, y') \<Longrightarrow> clear y \<Longrightarrow> clear y'"
  "check_md5 e r y = Some (stop, y') \<Longrightarrow> clear y \<Longrightarrow> clear y'"
  "unpack_control e r y = Some (stop, y') \<Longrightarrow> clear y \<Longrightarrow> clear y'"
  "update_file_ownership e r old y = Some (err, y') \<Longrightarrow> clear y \<Longrightarrow> clear y'"
  by (auto dest!: clear_stages clear_unpack_control clear_update_ownership)

locale unblocking =
  fixes rec :: "'w install_call"
  assumes unblocked: "rec r y = Some (rc, y') \<Longrightarrow> clear y \<Longrightarrow> clear y'"
begin

lemma unblocked_each: "each_until (install_dependency rec) ds y = Some (rc, y') \<Longrightarrow> clear y \<Longrightarrow> clear y'"
proof (induction ds arbitrary: y)
  case (Cons d ds)
  have "clear y1" if "install_dependency rec d y = Some (err, y1)" for err y1
    using that Cons.prems(2) unblocked by (auto simp: install_dependency_def split: if_splits bind_splits)
  then show ?case using Cons.prems(1) by (auto split: bind_splits if_splits elim!: Cons.IH)
qed simp

lemma unblocked_satisfy:
  assumes "satisfy_dependencies_for e rec r y = Some (rc, y')" "clear y"
  shows "clear y'"
proof -
  have m: "clear (fold (mark_to_install r) ds y1) = clear y1" for ds y1
    by (rule fold_keeps [where I = "\<lambda>y. clear y = clear y1"]) (auto simp: mark_to_install_def)
  show ?thesis
    using assms unfolding satisfy_dependencies_for_def
    by (auto simp: m Let_def split: bind_splits if_splits elim!: unblocked_each)
qed

lemma unblocked_stages:
  "already_installed e rec r y = Some (stop, y') \<Longrightarrow> clear y \<Longrightarrow> clear y'"
  "only_download e rec r y = Some (stop, y') \<Longrightarrow> clear y \<Longrightarrow> clear y'"
  "install_dependencies e rec r y = Some (stop, y') \<Longrightarrow> clear y \<Longrightarrow> clear y'"
  by (auto simp: already_installed_def only_download_def install_dependencies_def elim!: unblocked_satisfy
      split: if_splits bind_splits)

lemma unblocked_body:
  assumes "install_body e rem rec r y = Some (rc, y')" "clear y" "\<not> c_noaction e"
  shows "clear y'"
  using assms unfolding install_body_def stage_def or_fail_def
  by (auto split: bind_splits option.splits if_splits elim!: locked_unblocks unblocked_stages keeps)

end

lemma unblocking_body: "unblocking rec \<Longrightarrow> \<not> c_noaction e \<Longrightarrow> unblocking (install_body e rem rec)"
  by (rule unblocking.intro) (rule unblocking.unblocked_body)

lemma unblocking_opkg: "\<not> c_noaction e \<Longrightarrow> unblocking (opkg_install_pkg fuel rfuel e)"
  by (induction fuel) (auto intro: unblocking_body unblocking.intro)

interpretation ub: unblocking "opkg_install_pkg fuel rfuel (e\<lparr>c_noaction := False\<rparr>)" for fuel rfuel e
  by (rule unblocking_opkg) simp

text \<open>
  (C25) \<open>SIGINT\<close>, which is blocked while files are written, is unblocked again on every way out of
  \<open>opkg_install_pkg\<close> when actions are not suppressed: after a success, a refusal, an error that is
  unwound and one behind the point of no return, and after the nested installations of each.
\<close>

theorem opkg_install_pkg_unblocks_sigint:
  assumes "opkg_install_pkg fuel rfuel e r y = Some (rc, y')" "\<not> y_sigint_blocked y" "\<not> c_noaction e"
  shows "\<not> y_sigint_blocked y'"
proof -
  have e: "e\<lparr>c_noaction := False\<rparr> = e" using assms(3) by simp
  show ?thesis using ub.unblocked [of fuel rfuel e r y rc y'] assms(1,2) unfolding e by (simp add: clear_def)
qed

theorem opkg_install_pkg_unblocks_sigint_witness:
  "\<exists>y'. opkg_install_pkg 3 1 install_env 0 (fresh_sys []) = Some (0, y') \<and> \<not> y_sigint_blocked y'"
proof -
  obtain y' where y': "opkg_install_pkg 3 1 install_env 0 (fresh_sys []) = Some (0, y')"
    using example_installs [of 2 1] by (auto simp: eval_nat_numeral)
  have "\<not> y_sigint_blocked y'"
    by (rule opkg_install_pkg_unblocks_sigint [OF y']) (simp_all add: fresh_sys_def example_sys_def)
  then show ?thesis using y' by blast
qed

section \<open>Dry runs\<close>

text \<open>The environment with other scripts, another extraction of data files and other writes.\<close>

definition other_calls ::
  "(string \<Rightarrow> string \<Rightarrow> 'w \<Rightarrow> int \<times> 'w) \<Rightarrow> (string \<Rightarrow> string \<Rightarrow> 'w \<Rightarrow> int \<times> 'w) \<Rightarrow> (string \<Rightarrow> 'w \<Rightarrow> int \<times> 'w) \<Rightarrow>
   (string \<Rightarrow> string \<Rightarrow> 'w \<Rightarrow> int \<times> 'w) \<Rightarrow> 'w env \<Rightarrow> 'w env" where
  "other_calls sh data rmd wr e =
     e\<lparr>e_system := sh, e_deb_data := data, e_rmdir := rmd, e_write_file := wr\<rparr>"

lemma other_fields:
  "c_dest (other_calls sh data rmd wr e) = c_dest e" "c_default_dest (other_calls sh data rmd wr e) = c_default_dest e"
  "c_arch_list (other_calls sh data rmd wr e) = c_arch_list e" "c_tmp_dir (other_calls sh data rmd wr e) = c_tmp_dir e"
  "c_autoremove (other_calls sh data rmd wr e) = c_autoremove e" "c_force_depends (other_calls sh data rmd wr e) = c_force_depends e"
  "c_force_maintainer (other_calls sh data rmd wr e) = c_force_maintainer e"
  "c_force_overwrite (other_calls sh data rmd wr e) = c_force_overwrite e"
  "c_force_downgrade (other_calls sh data rmd wr e) = c_force_downgrade e"
  "c_force_space (other_calls sh data rmd wr e) = c_force_space e"
  "c_force_removal_of_dependent_packages (other_calls sh data rmd wr e) = c_force_removal_of_dependent_packages e"
  "c_force_removal_of_essential_packages (other_calls sh data rmd wr e) = c_force_removal_of_essential_packages e"
  "c_force_postinstall (other_calls sh data rmd wr e) = c_force_postinstall e"
  "c_force_remove (other_calls sh data rmd wr e) = c_force_remove e" "c_nodeps (other_calls sh data rmd wr e) = c_nodeps e"
  "c_offline_root (other_calls sh data rmd wr e) = c_offline_root e" "c_overlay_root (other_calls sh data rmd wr e) = c_overlay_root e"
  "c_noaction (other_calls sh data rmd wr e) = c_noaction e" "c_download_only (other_calls sh data rmd wr e) = c_download_only e"
  "c_cache (other_calls sh data rmd wr e) = c_cache e" "c_http_proxy (other_calls sh data rmd wr e) = c_http_proxy e"
  "c_ftp_proxy (other_calls sh data rmd wr e) = c_ftp_proxy e" "c_src (other_calls sh data rmd wr e) = c_src e"
  "e_host (other_calls sh data rmd wr e) = e_host e" "e_file (other_calls sh data rmd wr e) = e_file e"
  "e_stat (other_calls sh data rmd wr e) = e_stat e" "e_unlink (other_calls sh data rmd wr e) = e_unlink e"
  "e_rename (other_calls sh data rmd wr e) = e_rename e" "e_copy_file (other_calls sh data rmd wr e) = e_copy_file e"
  "e_mkstemp (other_calls sh data rmd wr e) = e_mkstemp e" "e_fdopen (other_calls sh data rmd wr e) = e_fdopen e"
  "e_mkdtemp (other_calls sh data rmd wr e) = e_mkdtemp e" "e_statvfs (other_calls sh data rmd wr e) = e_statvfs e"
  "e_getcwd (other_calls sh data rmd wr e) = e_getcwd e" "e_deb_names (other_calls sh data rmd wr e) = e_deb_names e"
  "e_deb_control (other_calls sh data rmd wr e) = e_deb_control e" "e_xsystem (other_calls sh data rmd wr e) = e_xsystem e"
  by (simp_all add: other_calls_def)

locale dry_run =
  fixes e e' :: "'w env" and sh data rmd wr
  assumes noaction [simp]: "c_noaction e"
    and e': "e' = other_calls sh data rmd wr e"
begin

lemma fields_same:
  "c_dest e' = c_dest e" "c_default_dest e' = c_default_dest e"
  "c_arch_list e' = c_arch_list e" "c_tmp_dir e' = c_tmp_dir e"
  "c_autoremove e' = c_autoremove e" "c_force_depends e' = c_force_depends e"
  "c_force_maintainer e' = c_force_maintainer e"
  "c_force_overwrite e' = c_force_overwrite e"
  "c_force_downgrade e' = c_force_downgrade e"
  "c_force_space e' = c_force_space e"
  "c_force_removal_of_dependent_packages e' = c_force_removal_of_dependent_packages e"
  "c_force_removal_of_essential_packages e' = c_force_removal_of_essential_packages e"
  "c_force_postinstall e' = c_force_postinstall e"
  "c_force_remove e' = c_force_remove e" "c_nodeps e' = c_nodeps e"
  "c_offline_root e' = c_offline_root e" "c_overlay_root e' = c_overlay_root e"
  "c_noaction e' = c_noaction e" "c_download_only e' = c_download_only e"
  "c_cache e' = c_cache e" "c_http_proxy e' = c_http_proxy e"
  "c_ftp_proxy e' = c_ftp_proxy e" "c_src e' = c_src e"
  "e_host e' = e_host e" "e_file e' = e_file e"
  "e_stat e' = e_stat e" "e_unlink e' = e_unlink e"
  "e_rename e' = e_rename e" "e_copy_file e' = e_copy_file e"
  "e_mkstemp e' = e_mkstemp e" "e_fdopen e' = e_fdopen e"
  "e_mkdtemp e' = e_mkdtemp e" "e_statvfs e' = e_statvfs e"
  "e_getcwd e' = e_getcwd e" "e_deb_names e' = e_deb_names e"
  "e_deb_control e' = e_deb_control e" "e_xsystem e' = e_xsystem e"
  by (simp_all add: e' other_fields)

lemmas same = fields_same noaction [THEN eqTrueI] if_True

lemma world_same:
  "dest_of e' = dest_of e" "unlink e' = unlink e" "md5_of e' = md5_of e" "file_exists e' = file_exists e"
  "file_is_dir e' = file_is_dir e" "root_filename_alloc e' = root_filename_alloc e" "pkg_run_script e' = pkg_run_script e"
  "pkg_arch_supported e' = pkg_arch_supported e" "strip_offline_root e' = strip_offline_root e"
  unfolding fun_eq_iff dest_of_def unlink_def md5_of_def file_exists_def file_is_dir_def root_filename_alloc_def
      pkg_run_script_def pkg_arch_supported_def strip_offline_root_def same by simp_all

lemma files_same:
  "pkg_get_installed_files e' = pkg_get_installed_files e"
  "pkg_remove_installed_files_list e' = pkg_remove_installed_files_list e"
  "conffile_has_been_modified e' = conffile_has_been_modified e" "file_hash_remove e' = file_hash_remove e"
  "file_hash_get_file_owner e' = file_hash_get_file_owner e"
proof -
  have f: "files_from_package e' = files_from_package e" "files_from_list e' = files_from_list e"
    unfolding fun_eq_iff files_from_package_def files_from_list_def world_same same by simp_all
  show "pkg_get_installed_files e' = pkg_get_installed_files e"
    unfolding fun_eq_iff pkg_get_installed_files_def f same by simp_all
qed (unfold fun_eq_iff pkg_remove_installed_files_list_def conffile_has_been_modified_def file_hash_remove_def
    file_hash_get_file_owner_def world_same same, simp_all)

lemma set_owner_same: "file_hash_set_file_owner e' = file_hash_set_file_owner e"
  unfolding fun_eq_iff file_hash_set_file_owner_def world_same files_same same by simp_all

lemma download_same: "opkg_download_pkg e' = opkg_download_pkg e"
proof -
  have c: "file_copy e' = file_copy e" "wget_argv e' = wget_argv e"
    unfolding fun_eq_iff file_copy_def wget_argv_def same by simp_all
  have m: "file_move e' = file_move e" unfolding fun_eq_iff file_move_def c same by simp_all
  have d: "opkg_download e' = opkg_download e" unfolding fun_eq_iff opkg_download_def c m world_same same by simp_all
  have k: "opkg_download_cache e' = opkg_download_cache e"
    unfolding fun_eq_iff opkg_download_cache_def c d world_same same by simp_all
  show ?thesis unfolding fun_eq_iff opkg_download_pkg_def d k same by simp_all
qed

lemma remove_same: "remove_body e' = remove_body e"
proof -
  have f: "remove_file e' = remove_file e"
    unfolding fun_eq_iff remove_file_def world_same files_same same by simp_all
  have d: "remove_data_files_and_list e' = remove_data_files_and_list e"
    unfolding fun_eq_iff remove_data_files_and_list_def f files_same same by simp_all
  have m: "remove_maintainer_scripts e' = remove_maintainer_scripts e" "check_dependents rec e' = check_dependents rec e" for rec
    unfolding fun_eq_iff remove_maintainer_scripts_def check_dependents_def same by simp_all
  have c: "remove_checked rec e' = remove_checked rec e" for rec
    unfolding fun_eq_iff remove_checked_def d m world_same same by simp_all
  show ?thesis unfolding fun_eq_iff remove_body_def c m same by simp_all
qed

lemma opkg_remove_same: "opkg_remove_pkg fuel e' = opkg_remove_pkg fuel e"
proof (induction fuel)
  case (Suc fuel)
  show ?case by (rule ext)+ (simp add: Suc.IH remove_same)
qed (simp add: fun_eq_iff)

lemma ownership_same: "update_file_ownership e' = update_file_ownership e"
proof -
  have t: "take_file e' = take_file e" "mark_obsolete e' = mark_obsolete e"
    unfolding fun_eq_iff take_file_def mark_obsolete_def files_same set_owner_same same by simp_all
  show ?thesis unfolding fun_eq_iff update_file_ownership_def t files_same same by simp_all
qed

lemma unpack_same: "unpack_control e' = unpack_control e"
proof -
  have d: "conffile_in_dest e' = conffile_in_dest e" unfolding fun_eq_iff conffile_in_dest_def world_same same by simp_all
  have a: "add_conffile e' = add_conffile e"
    unfolding fun_eq_iff add_conffile_def d world_same same by simp_all
  have c: "pkg_extract_control_files_to_dir_with_prefix e' = pkg_extract_control_files_to_dir_with_prefix e"
    unfolding fun_eq_iff pkg_extract_control_files_to_dir_with_prefix_def same by simp_all
  have p: "unpack_pkg_control_files e' = unpack_pkg_control_files e"
    unfolding fun_eq_iff unpack_pkg_control_files_def a c world_same same by simp_all
  show ?thesis unfolding fun_eq_iff unpack_control_def p same by simp_all
qed

lemma checks_same:
  "check_installable e' = check_installable e" "obtain_file e' = obtain_file e" "check_md5 e' = check_md5 e"
  "default_dest e' = default_dest e"
proof -
  have g: "get_available_kbytes e' = get_available_kbytes e" "space_root e' = space_root e"
    unfolding fun_eq_iff get_available_kbytes_def space_root_def world_same same by simp_all
  have v: "verify_pkg_installable e' = verify_pkg_installable e"
    unfolding fun_eq_iff verify_pkg_installable_def g world_same same by simp_all
  have c: "opkg_install_check_downgrade e' = opkg_install_check_downgrade e" "check_conflicts_for e' = check_conflicts_for e"
    unfolding fun_eq_iff opkg_install_check_downgrade_def check_conflicts_for_def same by simp_all
  show "check_installable e' = check_installable e"
    unfolding fun_eq_iff check_installable_def v c same by simp_all
qed (unfold fun_eq_iff obtain_file_def check_md5_def md5_mismatch_def default_dest_def world_same download_same same,
    simp_all)

lemma dependencies_same:
  "already_installed e' = already_installed e" "only_download e' = only_download e"
  "install_dependencies e' = install_dependencies e"
proof -
  have s: "satisfy_dependencies_for e' = satisfy_dependencies_for e"
    unfolding fun_eq_iff satisfy_dependencies_for_def same by simp_all
  show "already_installed e' = already_installed e" "only_download e' = only_download e"
    "install_dependencies e' = install_dependencies e"
    unfolding fun_eq_iff already_installed_def only_download_def install_dependencies_def s same by simp_all
qed

lemma locked_same: "locked e' = locked e"
proof -
  have b: "backup_exists_for e' = backup_exists_for e" "backup_remove e' = backup_remove e"
    unfolding fun_eq_iff backup_exists_for_def backup_remove_def world_same same by simp_all
  have c: "clash e' = clash e"
    unfolding fun_eq_iff clash_def b world_same files_same set_owner_same same by simp_all
  have 1: "check_data_file_clashes e' = check_data_file_clashes e"
    unfolding fun_eq_iff check_data_file_clashes_def c files_same same by simp_all
  have u: "backup_modified_conffiles_unwind e' = backup_modified_conffiles_unwind e"
    unfolding fun_eq_iff backup_modified_conffiles_unwind_def b same by simp_all
  have 2: "unwind e' = unwind e" unfolding fun_eq_iff unwind_def u world_same same by simp_all
  have 3: "backup_modified_conffiles e' = backup_modified_conffiles e" "preinst_configure e' = preinst_configure e"
    unfolding fun_eq_iff backup_modified_conffiles_def preinst_configure_def world_same same by simp_all
  show ?thesis unfolding fun_eq_iff locked_def 1 2 3 same by simp_all
qed

lemma install_body_same: "install_body e' = install_body e"
  unfolding fun_eq_iff install_body_def dependencies_same checks_same unpack_same ownership_same locked_same world_same
  by simp

lemma opkg_install_same: "opkg_install_pkg fuel rfuel e' = opkg_install_pkg fuel rfuel e"
proof (induction fuel)
  case (Suc fuel)
  show ?case by (rule ext)+ (simp add: Suc.IH install_body_same opkg_remove_same)
qed (simp add: fun_eq_iff)

end

interpretation dr: dry_run "e\<lparr>c_noaction := True\<rparr>" "other_calls sh data rmd wr (e\<lparr>c_noaction := True\<rparr>)" sh data rmd wr
  for e sh data rmd wr
  by unfold_locales simp_all

text \<open>
  (C26) With \<open>noaction\<close> the result and the final state of an installation, whatever it ends with, do
  not depend on what maintainer scripts, the extraction of data files, the removal of directories
  and the writing of files would do: none of these calls is made, in nested installations and
  removals either.
\<close>

theorem opkg_install_pkg_dry_run:
  assumes "c_noaction e"
  shows "opkg_install_pkg fuel rfuel (other_calls sh data rmd wr e) r y = opkg_install_pkg fuel rfuel e r y"
proof -
  have e: "e\<lparr>c_noaction := True\<rparr> = e" using assms by simp
  show ?thesis using dr.opkg_install_same [of fuel rfuel sh data rmd wr e] unfolding e by simp
qed

theorem opkg_install_pkg_dry_run_witness:
  "opkg_install_pkg 3 1 (other_calls (\<lambda>root cmd w. (1, w @ [cmd])) (\<lambda>f d w. (1, [])) (\<lambda>d w. (0, [])) (\<lambda>f t w. (0, []))
       (install_env\<lparr>c_noaction := True\<rparr>)) 0 (fresh_sys []) =
   opkg_install_pkg 3 1 (install_env\<lparr>c_noaction := True\<rparr>) 0 (fresh_sys [])"
  by (rule opkg_install_pkg_dry_run) simp

end
