(* ===== verification/Opkg_Configure.thy ===== *)
theory Opkg_Configure
  imports Opkg_Install_Dry
begin

text \<open>
  Configuring the unpacked packages: the part of \<open>libopkg/opkg_cmd.c\<close> around
  \<open>opkg_configure_packages\<close>, which puts the packages into the order of their dependencies by a
  depth-first search and runs their \<open>postinst\<close> scripts in that order.
\<close>

section \<open>The order\<close>

text \<open>
  Two vectors grow during the search: the packages that have been visited, and those whose
  dependencies are done. \<open>rec\<close> is the recursive call.
\<close>

type_synonym search_call = "pkg_ref \<Rightarrow> pkg_ref list \<times> pkg_ref list \<Rightarrow> (pkg_ref list \<times> pkg_ref list) option"

definition pkg_present :: "store \<Rightarrow> pkg_ref \<Rightarrow> bool" where
  "pkg_present s p \<longleftrightarrow> p_state_status (s_pkgs s p) \<noteq> SS_NOT_INSTALLED"

text \<open>The first of the providers whose name is that of an installed or unpacked package.\<close>

fun present_provider :: "store \<Rightarrow> pkg_ref list \<Rightarrow> apkg_ref list \<Rightarrow> pkg_ref option" where
  "present_provider s all [] = None"
| "present_provider s all (d # ds) =
     (case find (\<lambda>dep. pkg_present s dep \<and> p_name (s_pkgs s dep) = ap_name (s_apkgs s d)) all of
        Some dep \<Rightarrow> Some dep
      | None \<Rightarrow> present_provider s all ds)"

definition search_possibility :: "search_call \<Rightarrow> store \<Rightarrow> pkg_ref list \<Rightarrow> depend \<Rightarrow>
    pkg_ref list \<times> pkg_ref list \<Rightarrow> (pkg_ref list \<times> pkg_ref list) option" where
  "search_possibility rec s all d vo =
     (case present_provider s all (ap_provided_by (s_apkgs s (d_pkg d))) of
        Some dep \<Rightarrow> rec dep vo | None \<Rightarrow> Some vo)"

definition search_body :: "search_call \<Rightarrow> store \<Rightarrow> pkg_ref list \<Rightarrow> search_call" where
  "search_body rec s all pkg vo =
     (if \<not> pkg_present s pkg then Some vo
      else if list_ex (\<lambda>v. p_name (s_pkgs s v) = p_name (s_pkgs s pkg)) (fst vo) then Some vo
      else
        do { cdeps \<leftarrow> first_n (all_depends_count (s_pkgs s pkg)) (p_depends (s_pkgs s pkg));
             vo1 \<leftarrow> foldM (\<lambda>cd. foldM (search_possibility rec s all) (cd_possibilities cd)) cdeps
                      (pkg_vec_insert (fst vo) pkg, snd vo);
             Some (fst vo1, pkg_vec_insert (snd vo1) pkg) })"

primrec opkg_recurse_pkgs_in_order :: "nat \<Rightarrow> store \<Rightarrow> pkg_ref list \<Rightarrow> search_call" where
  "opkg_recurse_pkgs_in_order 0 s all = (\<lambda>pkg vo. None)"
| "opkg_recurse_pkgs_in_order (Suc fuel) s all = search_body (opkg_recurse_pkgs_in_order fuel s all) s all"

definition ordered_pkgs :: "nat \<Rightarrow> store \<Rightarrow> pkg_ref list \<Rightarrow> pkg_ref list option" where
  "ordered_pkgs fuel s all = map_option snd (foldM (opkg_recurse_pkgs_in_order fuel s all) all ([], []))"

section \<open>Intercepted commands\<close>

record opkg_intercept =
  ic_oldpath :: "string option"
  ic_statedir :: string



definition opkg_prep_intercepts :: "'w env \<Rightarrow> 'w \<Rightarrow> opkg_intercept option \<times> 'w" where
  "opkg_prep_intercepts e w =
     (let oldpath = e_getenv e ''PATH'' w;
          newpath = e_datadir e @ ''/opkg/intercept:'' @ fmt_s oldpath
      in case e_mkdtemp e (c_tmp_dir e @ ''/opkg-intercept-XXXXXX'') w of
           (None, w1) \<Rightarrow> (None, w1)
         | (Some statedir, w1) \<Rightarrow>
             (Some \<lparr>ic_oldpath = oldpath, ic_statedir = statedir\<rparr>,
              e_setenv e ''PATH'' newpath (e_setenv e ''OPKG_INTERCEPT_DIR'' statedir w1)))"

definition run_intercept :: "'w env \<Rightarrow> string \<Rightarrow> string \<Rightarrow> 'w \<Rightarrow> 'w" where
  "run_intercept e statedir d_name w =
     (if d_name \<noteq> [] \<and> hd d_name = CHR ''.'' then w
      else let path = statedir @ ''/'' @ d_name in
           if e_executable e path w then snd (e_xsystem e [''sh'', ''-c'', path] w) else w)"

text \<open>
  The old path must not be null. The entries of the directory are those it has when it is opened.
  The error stays 0.
\<close>

definition opkg_finalize_intercepts :: "'w env \<Rightarrow> opkg_intercept \<Rightarrow> 'w \<Rightarrow> (int \<times> 'w) option" where
  "opkg_finalize_intercepts e ctx w =
     (case ic_oldpath ctx of
        None \<Rightarrow> None
      | Some oldpath \<Rightarrow>
          let w1 = e_setenv e ''PATH'' oldpath w;
              w2 = (case e_readdir e (ic_statedir ctx) w1 of
                      None \<Rightarrow> w1 | Some names \<Rightarrow> fold (run_intercept e (ic_statedir ctx)) names w1)
          in Some (0, e_rm_r e (ic_statedir ctx) w2))"

section \<open>Configuring\<close>

definition mark_configured :: "pkg_ref \<Rightarrow> apkg_ref \<Rightarrow> 'w sys \<Rightarrow> 'w sys" where
  "mark_configured r a y =
     (let y1 = mod_pkg r (\<lambda>p. p\<lparr>p_state_status := SS_INSTALLED\<rparr>) y;
          y2 = mod_apkg a (\<lambda>a. a\<lparr>ap_state_status := SS_INSTALLED\<rparr>) y1;
          y3 = mod_pkg r (\<lambda>p. p\<lparr>p_state_flag := p_state_flag p AND NOT SF_PREFER\<rparr>) y2
      in y3\<lparr>y_state_changed := y_state_changed y3 + 1\<rparr>)"

definition configure_one :: "'w env \<Rightarrow> string option \<Rightarrow> pkg_ref \<Rightarrow> int \<times> 'w sys \<Rightarrow> (int \<times> 'w sys) option" where
  "configure_one e pkg_name r ey =
     (case ey of (err, y) \<Rightarrow>
        if (case pkg_name of None \<Rightarrow> False | Some pat \<Rightarrow> \<not> e_fnmatch e pat (fmt_s (p_name (pkg_at y r)))) then Some (err, y)
        else if p_state_status (pkg_at y r) = SS_UNPACKED then
          (case opkg_configure e r y of
             (ret, y1) \<Rightarrow>
               if ret = 0 then do { a \<leftarrow> p_parent (pkg_at y1 r); Some (err, mark_configured r a y1) }
               else Some (-1, y1))
        else Some (err, y))"

definition opkg_configure_packages :: "nat \<Rightarrow> 'w env \<Rightarrow> string option \<Rightarrow> 'w sys \<Rightarrow> (int \<times> 'w sys) option" where
  "opkg_configure_packages fuel e pkg_name y =
     do { ordered \<leftarrow> ordered_pkgs fuel (y_store y) (pkg_hash_fetch_available [] (y_store y));
          case opkg_prep_intercepts e (y_world y) of
            (None, w) \<Rightarrow> Some (-1, y\<lparr>y_world := w\<rparr>)
          | (Some ic, w) \<Rightarrow>
              do { (err, y1) \<leftarrow> foldM (configure_one e pkg_name) ordered (0, y\<lparr>y_world := w\<rparr>);
                   (r, w1) \<leftarrow> opkg_finalize_intercepts e ic (y_world y1);
                   Some (if r \<noteq> 0 then -1 else err, y1\<lparr>y_world := w1\<rparr>) } }"

section \<open>What the search computes\<close>

definition satisfiers :: "store \<Rightarrow> pkg_ref list \<Rightarrow> compound_depend \<Rightarrow> pkg_ref list" where
  "satisfiers s all cd =
     List.map_filter (\<lambda>d. present_provider s all (ap_provided_by (s_apkgs s (d_pkg d)))) (cd_possibilities cd)"

text \<open>The packages the search descends to from a package.\<close>

definition successors :: "store \<Rightarrow> pkg_ref list \<Rightarrow> pkg_ref \<Rightarrow> pkg_ref list" where
  "successors s all p =
     concat (map (satisfiers s all) (take (all_depends_count (s_pkgs s p)) (p_depends (s_pkgs s p))))"

definition descends :: "store \<Rightarrow> pkg_ref list \<Rightarrow> (pkg_ref \<times> pkg_ref) set" where
  "descends s all = {(p, d). d \<in> set (successors s all p)}"

abbreviation pkg_name_of :: "store \<Rightarrow> pkg_ref \<Rightarrow> string option" where
  "pkg_name_of s p \<equiv> p_name (s_pkgs s p)"

definition counts_ok :: "store \<Rightarrow> pkg_ref \<Rightarrow> bool" where
  "counts_ok s p \<longleftrightarrow> all_depends_count (s_pkgs s p) \<le> length (p_depends (s_pkgs s p))"

lemma foldM_concat: "foldM (\<lambda>x. foldM f (g x)) xs s = foldM f (concat (map g xs)) s"
  by (induction xs arbitrary: s) (auto simp: foldM_append split: bind_splits)

lemma foldM_map_filter:
  "foldM (\<lambda>x s. case g x of Some y \<Rightarrow> f y s | None \<Rightarrow> Some s) xs = foldM f (List.map_filter g xs)"
proof (induction xs)
  case (Cons x xs)
  show ?case by (rule ext) (simp add: Cons.IH map_filter_simps split: option.split)
qed (simp add: fun_eq_iff)

lemma search_possibility_eq: "foldM (search_possibility rec s all) (cd_possibilities cd) = foldM rec (satisfiers s all cd)"
  unfolding search_possibility_def [abs_def] satisfiers_def foldM_map_filter [symmetric] by simp

lemma search_body_eq:
  "search_body rec s all p vo =
     (if \<not> pkg_present s p \<or> pkg_name_of s p \<in> pkg_name_of s ` set (fst vo) then Some vo
      else if \<not> counts_ok s p then None
      else do { vo1 \<leftarrow> foldM rec (successors s all p) (fst vo @ [p], snd vo); Some (fst vo1, snd vo1 @ [p]) })"
  unfolding search_body_def search_possibility_eq foldM_concat
  by (simp add: list_ex_iff first_n_def counts_ok_def successors_def pkg_vec_insert_def) (auto simp: image_iff eq_commute)

lemma present_provider_in: "present_provider s all ds = Some dep \<Longrightarrow> dep \<in> set all \<and> pkg_present s dep"
  by (induction ds) (auto split: option.splits dest: find_elem)

lemma successors_in: "d \<in> set (successors s all p) \<Longrightarrow> d \<in> set all \<and> pkg_present s d"
  by (auto simp: successors_def satisfiers_def List.map_filter_def present_provider_in split: option.splits)

subsection \<open>The search ends\<close>

definition grows :: "pkg_ref list \<times> pkg_ref list \<Rightarrow> pkg_ref list \<times> pkg_ref list \<Rightarrow> bool" where
  "grows vo vo' \<longleftrightarrow> set (fst vo) \<subseteq> set (fst vo')"

lemma search_grows: "opkg_recurse_pkgs_in_order fuel s all p vo = Some vo' \<Longrightarrow> grows vo vo'"
proof (induction fuel arbitrary: p vo vo')
  case (Suc fuel)
  have "grows vo1 vo2" if "foldM (opkg_recurse_pkgs_in_order fuel s all) ps vo1 = Some vo2" for ps vo1 vo2
    using that by (rule foldM_invariant_partial [where I = "grows vo1"]) (use Suc.IH in \<open>force simp: grows_def\<close>)+
  then show ?case using Suc.prems by (fastforce simp: search_body_eq grows_def split: if_splits bind_splits)
qed simp

text \<open>The names that are not yet visited.\<close>

definition unvisited :: "store \<Rightarrow> pkg_ref list \<Rightarrow> pkg_ref list \<Rightarrow> string option set" where
  "unvisited s all visited = pkg_name_of s ` set all - pkg_name_of s ` set visited"

lemma search_returns:
  assumes "\<forall>p \<in> set all. counts_ok s p"
  shows "p \<in> set all \<Longrightarrow> card (unvisited s all (fst vo)) < fuel \<Longrightarrow> \<exists>vo'. opkg_recurse_pkgs_in_order fuel s all p vo = Some vo'"
proof (induction fuel arbitrary: p vo)
  case (Suc fuel)
  show ?case
  proof (cases "pkg_present s p \<and> pkg_name_of s p \<notin> pkg_name_of s ` set (fst vo)")
    case True
    let ?vo = "(fst vo @ [p], snd vo)"
    have "unvisited s all (fst ?vo) \<subset> unvisited s all (fst vo)"
      using Suc.prems(1) True by (auto simp: unvisited_def)
    then have "card (unvisited s all (fst ?vo)) < card (unvisited s all (fst vo))"
      by (rule psubset_card_mono [rotated]) (simp add: unvisited_def)
    then have less: "card (unvisited s all (fst ?vo)) < fuel" using Suc.prems(2) by simp
    have mono: "card (unvisited s all (fst vo2)) \<le> card (unvisited s all (fst vo1))" if "grows vo1 vo2" for vo1 vo2
      using that by (intro card_mono) (auto simp: unvisited_def grows_def)
    have "\<exists>vo'. foldM (opkg_recurse_pkgs_in_order fuel s all) (successors s all p) ?vo = Some vo' \<and>
        card (unvisited s all (fst vo')) < fuel"
    proof (rule foldM_invariant [where I = "\<lambda>vo. card (unvisited s all (fst vo)) < fuel"])
      fix d and vo1 :: "pkg_ref list \<times> pkg_ref list"
      assume d: "d \<in> set (successors s all p)" "card (unvisited s all (fst vo1)) < fuel"
      then obtain vo2 where vo2: "opkg_recurse_pkgs_in_order fuel s all d vo1 = Some vo2"
        using Suc.IH [of d vo1] successors_in by blast
      then show "\<exists>vo2. opkg_recurse_pkgs_in_order fuel s all d vo1 = Some vo2 \<and> card (unvisited s all (fst vo2)) < fuel"
        using mono [OF search_grows [OF vo2]] d(2) by auto
    qed (rule less)
    then show ?thesis using True Suc.prems(1) assms by (auto simp: search_body_eq)
  qed (auto simp: search_body_eq)
qed simp

subsection \<open>The order it finds\<close>

text \<open>
  A package whose dependencies are done stands behind them, or behind a package of the same name,
  unless it can be reached again from what it depends on.
\<close>

definition placed :: "store \<Rightarrow> pkg_ref list \<Rightarrow> pkg_ref list \<Rightarrow> pkg_ref \<Rightarrow> bool" where
  "placed s all before q \<longleftrightarrow> (\<forall>d \<in> set (successors s all q).
     pkg_name_of s d \<in> pkg_name_of s ` set before \<or>
     (\<exists>v. pkg_name_of s v = pkg_name_of s d \<and> (v, q) \<in> (descends s all)\<^sup>*))"

lemma placed_mono: "placed s all before q \<Longrightarrow> set before \<subseteq> set before' \<Longrightarrow> placed s all before' q"
  by (fastforce simp: placed_def)

text \<open>What a part of the search adds: packages that are visited and done, each in its place.\<close>

definition explored ::
  "store \<Rightarrow> pkg_ref list \<Rightarrow> pkg_ref list \<times> pkg_ref list \<Rightarrow> pkg_ref list \<Rightarrow> pkg_ref list \<times> pkg_ref list \<Rightarrow> bool" where
  "explored s all vo D vo' \<longleftrightarrow> snd vo' = snd vo @ D \<and> set (fst vo') = set (fst vo) \<union> set D \<and>
     distinct (map (pkg_name_of s) D) \<and> pkg_name_of s ` set D \<inter> pkg_name_of s ` set (fst vo) = {} \<and>
     set D \<subseteq> {q \<in> set all. pkg_present s q} \<and>
     (\<forall>xs q ys. D = xs @ q # ys \<longrightarrow> placed s all (snd vo @ xs) q)"

lemma explored_refl: "explored s all vo [] vo"
  by (simp add: explored_def)

lemma append_split:
  assumes "as @ bs = xs @ q # ys"
  shows "(\<exists>us. as = xs @ q # us) \<or> (\<exists>us. xs = as @ us \<and> bs = us @ q # ys)"
proof -
  consider us where "as = xs @ us" "us @ bs = q # ys" | us where "as @ us = xs" "bs = us @ q # ys"
    using assms by (auto simp: append_eq_append_conv2)
  then show ?thesis
  proof cases
    case 1
    then show ?thesis by (cases us) auto
  qed auto
qed

lemma explored_trans:
  assumes "explored s all vo D vo1" "explored s all vo1 D1 vo2"
  shows "explored s all vo (D @ D1) vo2"
proof -
  have "placed s all (snd vo @ xs) q" if "D @ D1 = xs @ q # ys" for xs q ys
  proof -
    from append_split [OF that] show ?thesis using assms by (auto simp: explored_def)
  qed
  then show ?thesis using assms unfolding explored_def by (auto simp: image_Un)
qed

text \<open>Every package that is visited but not done leads to the one that is searched.\<close>

definition on_path :: "store \<Rightarrow> pkg_ref list \<Rightarrow> pkg_ref list \<times> pkg_ref list \<Rightarrow> pkg_ref \<Rightarrow> bool" where
  "on_path s all vo p \<longleftrightarrow> (\<forall>v \<in> set (fst vo) - set (snd vo). (v, p) \<in> (descends s all)\<^sup>*)"

lemma on_path_explored: "explored s all vo D vo' \<Longrightarrow> on_path s all vo p \<Longrightarrow> on_path s all vo' p"
  by (auto simp: on_path_def explored_def)

definition finds :: "store \<Rightarrow> pkg_ref list \<Rightarrow> pkg_ref \<Rightarrow> pkg_ref list \<times> pkg_ref list \<Rightarrow> pkg_ref list \<times> pkg_ref list \<Rightarrow> bool" where
  "finds s all p vo vo' \<longleftrightarrow>
     (\<exists>D. explored s all vo D vo') \<and> (pkg_present s p \<longrightarrow> pkg_name_of s p \<in> pkg_name_of s ` set (fst vo'))"

lemma finds_all:
  assumes "\<And>d vo vo'. d \<in> set ds \<Longrightarrow> on_path s all vo d \<Longrightarrow> rec d vo = Some vo' \<Longrightarrow> finds s all d vo vo'"
    "\<And>d. d \<in> set ds \<Longrightarrow> on_path s all vo d" "foldM rec ds vo = Some vo'"
  shows "\<exists>D. explored s all vo D vo' \<and> (\<forall>d \<in> set ds. pkg_present s d \<longrightarrow> pkg_name_of s d \<in> pkg_name_of s ` set (fst vo'))"
  using assms
proof (induction ds arbitrary: vo)
  case Nil
  then show ?case using explored_refl [of s all vo] by (intro exI [of _ "[]"]) simp
next
  case (Cons d ds)
  obtain vo1 where vo1: "rec d vo = Some vo1" "foldM rec ds vo1 = Some vo'" using Cons.prems(3) by (auto split: bind_splits)
  then have f: "finds s all d vo vo1" using Cons.prems(1) [of d vo vo1] Cons.prems(2) [of d] by simp
  then obtain D where D: "explored s all vo D vo1" by (auto simp: finds_def)
  have "on_path s all vo1 d1" if "d1 \<in> set ds" for d1
    using that Cons.prems(2) [of d1] D by (auto intro: on_path_explored)
  then obtain D1 where D1: "explored s all vo1 D1 vo'"
      "\<forall>d \<in> set ds. pkg_present s d \<longrightarrow> pkg_name_of s d \<in> pkg_name_of s ` set (fst vo')"
    using Cons.IH [of vo1] Cons.prems(1) vo1(2) by (metis list.set_intros(2))
  have "set (fst vo1) \<subseteq> set (fst vo')" using D1(1) by (auto simp: explored_def)
  then show ?case using explored_trans [OF D D1(1)] f D1(2) by (fastforce simp: finds_def)
qed

lemma search_finds:
  "opkg_recurse_pkgs_in_order fuel s all p vo = Some vo' \<Longrightarrow> p \<in> set all \<Longrightarrow> on_path s all vo p \<Longrightarrow> finds s all p vo vo'"
proof (induction fuel arbitrary: p vo vo')
  case (Suc fuel)
  show ?case
  proof (cases "pkg_present s p \<and> pkg_name_of s p \<notin> pkg_name_of s ` set (fst vo)")
    case False
    then have "vo' = vo" using Suc.prems(1) by (auto simp: search_body_eq)
    then show ?thesis using False explored_refl [of s all vo] unfolding finds_def by blast
  next
    case True
    let ?vo = "(fst vo @ [p], snd vo)"
    obtain vo1 where vo1: "foldM (opkg_recurse_pkgs_in_order fuel s all) (successors s all p) ?vo = Some vo1"
        "vo' = (fst vo1, snd vo1 @ [p])"
      using Suc.prems(1) True by (auto simp: search_body_eq split: if_splits bind_splits)
    have path: "on_path s all ?vo d" if "d \<in> set (successors s all p)" for d
      using that Suc.prems(3) by (auto simp: on_path_def descends_def intro: rtrancl_into_rtrancl)
    obtain D where D: "explored s all ?vo D vo1"
        "\<forall>d \<in> set (successors s all p). pkg_present s d \<longrightarrow> pkg_name_of s d \<in> pkg_name_of s ` set (fst vo1)"
      using finds_all [OF Suc.IH path vo1(1)] successors_in by blast
    have "placed s all (snd vo @ D) p"
      unfolding placed_def
    proof
      fix d assume "d \<in> set (successors s all p)"
      then obtain v where v: "v \<in> set (fst vo1)" "pkg_name_of s v = pkg_name_of s d"
        using D(2) successors_in by (fastforce simp: image_iff)
      then have "v \<in> set (snd vo @ D) \<or> (v, p) \<in> (descends s all)\<^sup>*"
        using D(1) Suc.prems(3) by (auto simp: explored_def on_path_def)
      then show "pkg_name_of s d \<in> pkg_name_of s ` set (snd vo @ D) \<or>
          (\<exists>v. pkg_name_of s v = pkg_name_of s d \<and> (v, p) \<in> (descends s all)\<^sup>*)"
        using v(2) by (metis imageI)
    qed
    moreover have "placed s all (snd vo @ xs) q" if "D = xs @ q # ys" for xs q ys
      using D(1) that by (auto simp: explored_def)
    ultimately have "placed s all (snd vo @ xs) q" if "D @ [p] = xs @ q # ys" for xs q ys
      using append_split [OF that] by (auto simp: Cons_eq_append_conv)
    then have "explored s all vo (D @ [p]) vo'"
      using D(1) True Suc.prems(2) unfolding explored_def vo1(2) by auto
    then show ?thesis using D(1) by (auto simp: finds_def explored_def vo1(2))
  qed
qed simp

lemma ordered_pkgs_order:
  assumes "\<forall>p \<in> set all. counts_ok s p" "length all < fuel"
  shows "\<exists>ordered. ordered_pkgs fuel s all = Some ordered \<and>
    set ordered \<subseteq> {p \<in> set all. pkg_present s p} \<and> distinct (map (pkg_name_of s) ordered) \<and>
    (\<forall>p \<in> set all. pkg_present s p \<longrightarrow> pkg_name_of s p \<in> pkg_name_of s ` set ordered) \<and>
    (\<forall>xs p ys. ordered = xs @ p # ys \<longrightarrow> placed s all xs p)"
proof -
  have "card (unvisited s all v) < fuel" for v
  proof -
    have "card (unvisited s all v) \<le> card (pkg_name_of s ` set all)" by (intro card_mono) (auto simp: unvisited_def)
    also have "\<dots> \<le> length all" by (meson card_image_le card_length finite_set le_trans)
    finally show ?thesis using assms(2) by simp
  qed
  then have "\<exists>vo'. foldM (opkg_recurse_pkgs_in_order fuel s all) all ([], []) = Some vo' \<and> True"
    using search_returns [OF assms(1)] by (intro foldM_invariant [where I = "\<lambda>_. True"]) blast+
  then obtain vo' where vo': "foldM (opkg_recurse_pkgs_in_order fuel s all) all ([], []) = Some vo'" by blast
  have "\<exists>D. explored s all ([], []) D vo' \<and>
      (\<forall>d \<in> set all. pkg_present s d \<longrightarrow> pkg_name_of s d \<in> pkg_name_of s ` set (fst vo'))"
    by (rule finds_all [OF search_finds _ vo']) (auto simp: on_path_def)
  then show ?thesis by (force simp: ordered_pkgs_def vo' explored_def)
qed

text \<open>
  (C27) The order in which packages are configured: for a table whose packages have the
  dependencies they count, the search always ends and gives every installed or unpacked package
  once (the first one of its name that is met), each behind the present packages it depends on,
  except where the package can be reached again from what it depends on, that is on a cycle.
\<close>

theorem configuration_order:
  assumes "\<forall>p \<in> set all. counts_ok s p" "length all < fuel"
  shows "\<exists>ordered. ordered_pkgs fuel s all = Some ordered \<and>
    set ordered \<subseteq> {p \<in> set all. pkg_present s p} \<and> distinct (map (pkg_name_of s) ordered) \<and>
    (\<forall>p \<in> set all. pkg_present s p \<longrightarrow> pkg_name_of s p \<in> pkg_name_of s ` set ordered) \<and>
    (\<forall>xs p ys. ordered = xs @ p # ys \<longrightarrow> placed s all xs p)"
  using assms by (rule ordered_pkgs_order)

definition order_store :: store where
  "order_store = empty_store\<lparr>
     s_pkgs := (\<lambda>r. if r = 0 then pkg_new\<lparr>p_name := Some ''a'', p_state_status := SS_UNPACKED, p_depends_count := 1,
                        p_depends := [\<lparr>cd_type = DEPEND, cd_possibilities = [\<lparr>d_constraint = NONE, d_version = None, d_pkg = 1\<rparr>]\<rparr>]\<rparr>
                    else pkg_new\<lparr>p_name := Some ''b'', p_state_status := SS_UNPACKED\<rparr>),
     s_apkgs := (\<lambda>a. abstract_pkg_new\<lparr>ap_name := Some (if a = 0 then ''a'' else ''b''), ap_provided_by := [a]\<rparr>)\<rparr>"

theorem configuration_order_witness:
  "\<exists>ordered. ordered_pkgs 3 order_store [0, 1] = Some ordered \<and> distinct (map (pkg_name_of order_store) ordered) \<and>
     pkg_name_of order_store ` set ordered = {Some ''a'', Some ''b''} \<and> successors order_store [0, 1] 0 = [1]"
proof -
  have "\<forall>p \<in> set [0, 1]. counts_ok order_store p"
    by (simp add: counts_ok_def order_store_def all_depends_count_def pkg_new_def)
  from configuration_order [OF this, of 3] obtain ordered where
    o: "ordered_pkgs 3 order_store [0, 1] = Some ordered" "set ordered \<subseteq> {0, 1}"
      "distinct (map (pkg_name_of order_store) ordered)"
      "\<forall>p \<in> {0, 1}. pkg_present order_store p \<longrightarrow> pkg_name_of order_store p \<in> pkg_name_of order_store ` set ordered"
    by auto
  have n: "pkg_name_of order_store 0 = Some ''a''" "pkg_name_of order_store 1 = Some ''b''"
    "pkg_present order_store 0" "pkg_present order_store 1"
    by (simp_all add: order_store_def pkg_present_def)
  have "pkg_name_of order_store ` set ordered \<subseteq> {Some ''a'', Some ''b''}" using o(2) n by auto
  then have "pkg_name_of order_store ` set ordered = {Some ''a'', Some ''b''}"
    using o(4) n by (intro subset_antisym) simp_all
  moreover have "successors order_store [0, 1] 0 = [1]"
    by (simp add: successors_def satisfiers_def order_store_def all_depends_count_def pkg_new_def pkg_present_def
        map_filter_simps)
  ultimately show ?thesis using o(1,3) by blast
qed

section \<open>What is configured\<close>

definition unpacked :: "'w sys \<Rightarrow> pkg_ref \<Rightarrow> bool" where
  "unpacked y r \<longleftrightarrow> p_state_status (pkg_at y r) = SS_UNPACKED"

lemma opkg_configure_pkgs: "opkg_configure e r y = (ret, y') \<Longrightarrow> y_store y' = y_store y"
  by (auto simp: opkg_configure_def pkg_run_script_def Let_def split: if_splits option.splits prod.splits)

lemma configure_one_spec:
  assumes "configure_one e pkg_name r (err, y) = Some (err', y')"
  shows "err \<noteq> 0 \<Longrightarrow> err' \<noteq> 0" "unpacked y' q \<Longrightarrow> unpacked y q" "pkg_name = None \<Longrightarrow> err' = 0 \<Longrightarrow> \<not> unpacked y' r"
    "p_name (pkg_at y' q) = p_name (pkg_at y q)"
proof -
  have "(err \<noteq> 0 \<longrightarrow> err' \<noteq> 0) \<and> (unpacked y' q \<longrightarrow> unpacked y q) \<and> (pkg_name = None \<longrightarrow> err' = 0 \<longrightarrow> \<not> unpacked y' r) \<and>
      p_name (pkg_at y' q) = p_name (pkg_at y q)"
    using assms opkg_configure_pkgs [of e r y]
    by (auto simp: configure_one_def unpacked_def mark_configured_def mod_pkg_def mod_apkg_def Let_def
        split: option.splits if_splits prod.splits bind_splits)
  then show "err \<noteq> 0 \<Longrightarrow> err' \<noteq> 0" "unpacked y' q \<Longrightarrow> unpacked y q" "pkg_name = None \<Longrightarrow> err' = 0 \<Longrightarrow> \<not> unpacked y' r"
    "p_name (pkg_at y' q) = p_name (pkg_at y q)" by blast+
qed

lemma configure_all:
  assumes "foldM (configure_one e None) rs (err, y) = Some (0, y')"
  shows "err = 0" "unpacked y' q \<Longrightarrow> unpacked y q" "r \<in> set rs \<Longrightarrow> \<not> unpacked y' r"
proof -
  have "err = 0 \<and> (\<forall>q. unpacked y' q \<longrightarrow> unpacked y q) \<and> (\<forall>r \<in> set rs. \<not> unpacked y' r)"
    using assms
  proof (induction rs arbitrary: err y)
    case (Cons r rs)
    obtain err1 y1 where 1: "configure_one e None r (err, y) = Some (err1, y1)"
      "foldM (configure_one e None) rs (err1, y1) = Some (0, y')"
      using Cons.prems by (auto split: bind_splits)
    note IH = Cons.IH [OF 1(2)]
    have u: "unpacked y' q \<Longrightarrow> unpacked y q" for q using IH configure_one_spec(2) [OF 1(1)] by blast
    moreover have "err = 0" using IH configure_one_spec(1) [OF 1(1)] by auto
    moreover have "\<not> unpacked y' r" using IH configure_one_spec(3) [OF 1(1)] by auto
    ultimately show ?case using IH by simp
  qed simp
  then show "err = 0" "unpacked y' q \<Longrightarrow> unpacked y q" "r \<in> set rs \<Longrightarrow> \<not> unpacked y' r" by blast+
qed

text \<open>
  (C28) When all packages are to be configured and the command reports success, every unpacked
  package of the table has become installed, provided that no two packages of the table that are
  installed or unpacked have the same name: of packages with the same name only one is configured.
\<close>

theorem configure_packages_complete:
  assumes "opkg_configure_packages fuel e None y = Some (0, y')"
    "inj_on (pkg_name_of (y_store y)) {p \<in> set (pkg_hash_fetch_available [] (y_store y)). pkg_present (y_store y) p}"
    "\<forall>p \<in> set (pkg_hash_fetch_available [] (y_store y)). counts_ok (y_store y) p"
    "length (pkg_hash_fetch_available [] (y_store y)) < fuel"
  shows "\<forall>p \<in> set (pkg_hash_fetch_available [] (y_store y)). p_state_status (pkg_at y' p) \<noteq> SS_UNPACKED"
proof
  let ?all = "pkg_hash_fetch_available [] (y_store y)"
  fix p assume p: "p \<in> set ?all"
  obtain ordered where o: "ordered_pkgs fuel (y_store y) ?all = Some ordered"
      "set ordered \<subseteq> {p \<in> set ?all. pkg_present (y_store y) p}"
      "\<forall>p \<in> set ?all. pkg_present (y_store y) p \<longrightarrow> pkg_name_of (y_store y) p \<in> pkg_name_of (y_store y) ` set ordered"
    using ordered_pkgs_order [OF assms(3,4)] by blast
  obtain w y1 where y1: "foldM (configure_one e None) ordered (0, y\<lparr>y_world := w\<rparr>) = Some (0, y1)" "y_store y1 = y_store y'"
    using assms(1) o(1) by (auto simp: opkg_configure_packages_def opkg_finalize_intercepts_def Let_def
        split: bind_splits prod.splits option.splits if_splits)
  have same: "unpacked y' q = unpacked y1 q" for q by (simp add: unpacked_def y1(2))
  show "p_state_status (pkg_at y' p) \<noteq> SS_UNPACKED"
  proof
    assume "p_state_status (pkg_at y' p) = SS_UNPACKED"
    then have u: "unpacked y1 p" by (simp add: unpacked_def y1(2))
    then have "unpacked (y\<lparr>y_world := w\<rparr>) p" using configure_all(2) [OF y1(1)] by blast
    then have "pkg_present (y_store y) p" by (simp add: unpacked_def pkg_present_def)
    then have "p \<in> set ordered" using o(2,3) p assms(2) by (auto simp: inj_on_def) blast
    then show False using configure_all(3) [OF y1(1)] u by blast
  qed
qed

definition configure_env :: "unit env" where
  "configure_env = idle_env\<lparr>e_mkdtemp := (\<lambda>t w. (Some t, w)), e_getenv := (\<lambda>v w. Some ''/bin'')\<rparr>"

definition unpacked_sys :: "unit sys" where
  "unpacked_sys = (example_sys ())\<lparr>y_store := example_store\<lparr>s_pkgs := (\<lambda>r. (s_pkgs example_store r)\<lparr>p_state_status := SS_UNPACKED\<rparr>)\<rparr>\<rparr>"

lemma fetch_available_set:
  assumes "ht_ok (s_hash s)"
  shows "set (pkg_hash_fetch_available [] s) = {p. \<exists>n a. ht_map (s_hash s) n = Some a \<and> p \<in> set (apkg_pkgs s a)}"
proof -
  have "pkg_hash_fetch_available [] s = concat (map (\<lambda>(k, v). apkg_pkgs s v) (ht_list (s_hash s)))"
    using fold_collect [of "\<lambda>p. True" "apkg_pkgs s" "ht_list (s_hash s)" "[]"]
    by (simp add: pkg_hash_fetch_available_def hash_table_foreach_def fold_buckets ht_list_def pkg_vec_insert_def)
  moreover have "(n, a) \<in> set (ht_list (s_hash s)) \<longleftrightarrow> ht_map (s_hash s) n = Some a" for n a
    using ht_list_keys [OF assms] by (metis map_of_eq_Some_iff)
  ultimately show ?thesis by force
qed

lemma unpacked_sys_table:
  "set (pkg_hash_fetch_available [] (y_store unpacked_sys)) = {0, 1}"
proof -
  let ?h = "s_hash (y_store unpacked_sys)"
  have h: "ht_ok ?h \<and> ht_map ?h = [''a'' \<mapsto> 0, ''b'' \<mapsto> 1]"
    by (simp add: unpacked_sys_def example_store_def blank_table_def hash_table_init_map hash_table_insert_map)
  have p: "apkg_pkgs (y_store unpacked_sys) 0 = [0]" "apkg_pkgs (y_store unpacked_sys) 1 = [1]"
    by (simp_all add: unpacked_sys_def example_store_def example_apkg_def apkg_pkgs_def)
  have two: "{p. \<exists>n a. [k \<mapsto> 0, l \<mapsto> 1] n = Some a \<and> p \<in> set (f a)} = set (f 0) \<union> set (f 1)" if "k \<noteq> l"
    for k l :: string and f :: "apkg_ref \<Rightarrow> pkg_ref list"
    using that by (auto simp: map_upd_Some_unfold)
  have ab: "''a'' \<noteq> ''b''" by simp
  show ?thesis
    unfolding fetch_available_set [OF conjunct1 [OF h]] conjunct2 [OF h] two [OF ab] p by auto
qed

theorem configure_packages_complete_witness:
  "\<exists>y'. opkg_configure_packages (Suc (length (pkg_hash_fetch_available [] (y_store unpacked_sys)))) configure_env None unpacked_sys =
       Some (0, y') \<and> p_state_status (pkg_at y' 0) \<noteq> SS_UNPACKED \<and> p_state_status (pkg_at y' 1) \<noteq> SS_UNPACKED"
proof -
  let ?s = "y_store unpacked_sys"
  let ?all = "pkg_hash_fetch_available [] ?s"
  have counts: "\<forall>p \<in> set ?all. counts_ok ?s p"
    unfolding unpacked_sys_table
    by (simp add: counts_ok_def unpacked_sys_def example_store_def example_pkg_def pkg_new_def all_depends_count_def)
  have inj: "inj_on (pkg_name_of ?s) {p \<in> set ?all. pkg_present ?s p}"
    unfolding unpacked_sys_table by (auto simp: inj_on_def unpacked_sys_def example_store_def example_pkg_def)
  obtain ordered where o: "ordered_pkgs (Suc (length ?all)) ?s ?all = Some ordered"
    using ordered_pkgs_order [OF counts, of "Suc (length ?all)"] by auto
  let ?I = "\<lambda>ey. fst ey = (0 :: int) \<and> (\<forall>r. p_parent (pkg_at (snd ey) r) \<noteq> None \<and> p_dest (pkg_at (snd ey) r) \<noteq> None)"
  have "\<exists>ey. foldM (configure_one configure_env None) ordered (0, unpacked_sys\<lparr>y_world := ()\<rparr>) = Some ey \<and> ?I ey"
  proof (rule foldM_invariant [where I = ?I])
    fix r and ey :: "int \<times> unit sys" assume I: "?I ey"
    obtain y a d where y: "ey = (0, y)" "p_parent (pkg_at y r) = Some a" "p_dest (pkg_at y r) = Some d"
      using I by (cases ey) (fastforce simp: not_None_eq)
    then show "\<exists>ey'. configure_one configure_env None r ey = Some ey' \<and> ?I ey'"
      using I by (auto simp: configure_one_def opkg_configure_def pkg_run_script_def Let_def configure_env_def
          idle_env_def mark_configured_def mod_pkg_def mod_apkg_def script_path_def dest_of_def file_exists_def)
  qed (simp add: unpacked_sys_def example_store_def example_pkg_def)
  then obtain y1 where "foldM (configure_one configure_env None) ordered (0, unpacked_sys\<lparr>y_world := ()\<rparr>) = Some (0, y1)"
    by auto
  then have r: "opkg_configure_packages (Suc (length ?all)) configure_env None unpacked_sys = Some (0, y1\<lparr>y_world := ()\<rparr>)"
    using o by (simp add: opkg_configure_packages_def opkg_prep_intercepts_def opkg_finalize_intercepts_def Let_def
        configure_env_def idle_env_def)
  from configure_packages_complete [OF r inj counts] show ?thesis
    using r unfolding unpacked_sys_table by auto
qed

end
