(* ===== verification/Opkg_Load.thy ===== *)
theory Opkg_Load
  imports Opkg_Configure
begin

text \<open>
  Loading packages: the lists of the feeds and the status files (\<open>pkg_hash_add_from_file\<close>,
  \<open>pkg_hash_load_feeds\<close> and \<open>pkg_hash_load_status_files\<close> of \<open>libopkg/pkg_hash.c\<close>), and packages
  given by the user as files or addresses (\<open>pkg_init_from_file\<close> of \<open>pkg.c\<close>,
  \<open>opkg_prepare_url_for_install\<close> of \<open>opkg_download.c\<close>). The address of the next package that is
  allocated is part of the state of the load.
\<close>

section \<open>Package lists\<close>

record load_state =
  l_next :: pkg_ref
  l_conffiles :: bool
  l_description :: bool
  l_store :: store

text \<open>A package with the origin it is loaded from.\<close>

definition blank_pkg :: "src_ref option \<Rightarrow> dest_ref option \<Rightarrow> pkg" where
  "blank_pkg src dest = pkg_new\<lparr>p_src := src, p_dest := dest\<rparr>"

definition new_paragraph :: "src_ref option \<Rightarrow> dest_ref option \<Rightarrow> load_state \<Rightarrow> parse_state" where
  "new_paragraph src dest l =
     \<lparr>ps_pkg = blank_pkg src dest, ps_conffiles = l_conffiles l, ps_description = l_description l\<rparr>"

definition has_architecture :: "pkg \<Rightarrow> bool" where
  "has_architecture p \<longleftrightarrow> p_architecture p \<noteq> None \<and> p_arch_priority p \<noteq> 0"

definition insert_loaded :: "bool \<Rightarrow> pkg \<Rightarrow> load_state \<Rightarrow> load_state option" where
  "insert_loaded is_status_file p l =
     do { s \<leftarrow> hash_insert_pkg (l_next l) is_status_file (upd_pkg (l_next l) (\<lambda>_. p) (l_store l));
          Some (l\<lparr>l_next := l_next l + 1, l_store := s\<rparr>) }"

text \<open>One round: \<open>True\<close> as the first result leaves the loop with an error.\<close>

definition add_paragraph ::
  "parse_env \<Rightarrow> src_ref option \<Rightarrow> dest_ref option \<Rightarrow> bool \<Rightarrow> stream \<Rightarrow> load_state \<Rightarrow> (bool \<times> stream \<times> load_state) option" where
  "add_paragraph env src dest is_status_file fp l =
     (case parse_from_stream_nomalloc (parse_callback env 0) (Some (new_paragraph src dest l)) fp 4096 of
        (ret, it, fp1) \<Rightarrow>
          do { st \<leftarrow> it;
               let l1 = l\<lparr>l_conffiles := ps_conffiles st, l_description := ps_description st\<rparr>; p = ps_pkg st
               in if p_name p = None then Some (False, fp1, l1)
                  else if ret = -1 then Some (True, fp1, l1)
                  else if \<not> has_architecture p then do { v \<leftarrow> pkg_version_str_alloc p; Some (False, fp1, l1) }
                  else do { l2 \<leftarrow> insert_loaded is_status_file p l1; Some (False, fp1, l2) } })"

text \<open>
  The loop ends at the end of the file, which a read error never reaches. The round behind the last
  blank line of a file finds no package and is left out.
\<close>

partial_function (option) add_loop ::
  "parse_env \<Rightarrow> src_ref option \<Rightarrow> dest_ref option \<Rightarrow> bool \<Rightarrow> stream \<Rightarrow> load_state \<Rightarrow> (int \<times> load_state) option" where
  "add_loop env src dest is_status_file fp l =
     do { (failed, fp1, l1) \<leftarrow> add_paragraph env src dest is_status_file fp l;
          if failed then Some (-1, l1)
          else if st_data fp1 = [] \<and> \<not> st_error fp1 then Some (0, l1)
          else add_loop env src dest is_status_file fp1 l1 }"

definition parse_env_of :: "'w env \<Rightarrow> parse_env" where
  "parse_env_of e = \<lparr>pe_pfm = c_pfm e, pe_arch_list = c_arch_list e\<rparr>"

definition pkg_hash_add_from_file ::
  "'w env \<Rightarrow> string \<Rightarrow> src_ref option \<Rightarrow> dest_ref option \<Rightarrow> bool \<Rightarrow> 'w \<Rightarrow> load_state \<Rightarrow> (int \<times> load_state) option" where
  "pkg_hash_add_from_file e file_name src dest is_status_file w l =
     (case e_file e file_name w of
        None \<Rightarrow> Some (-1, l)
      | Some (text, err) \<Rightarrow>
          add_loop (parse_env_of e) src dest is_status_file \<lparr>st_data = text, st_error = err\<rparr> l)"

text \<open>The two loops over the configured lists; both end at the first file that fails.\<close>

fun load_files :: "(load_state \<Rightarrow> (int \<times> load_state) option) list \<Rightarrow> load_state \<Rightarrow> (int \<times> load_state) option" where
  "load_files [] l = Some (0, l)"
| "load_files (f # fs) l = do { (err, l1) \<leftarrow> f l; if err \<noteq> 0 then Some (-1, l1) else load_files fs l1 }"

definition lists_dir :: "'w env \<Rightarrow> string" where
  "lists_dir e = (if c_restrict_to_default_dest e then pd_lists_dir (c_dest e (c_default_dest e)) else c_lists_dir e)"

definition load_pkg_src_list :: "'w env \<Rightarrow> 'w \<Rightarrow> load_state \<Rightarrow> (int \<times> load_state) option" where
  "load_pkg_src_list e w =
     load_files (map (\<lambda>src. let list_file = lists_dir e @ ''/'' @ sr_name (c_src e src) in
       (\<lambda>l. if file_exists e list_file w then pkg_hash_add_from_file e list_file (Some src) None False w l else Some (0, l)))
       (c_pkg_src_list e))"

definition pkg_hash_load_status_files :: "'w env \<Rightarrow> 'w \<Rightarrow> load_state \<Rightarrow> (int \<times> load_state) option" where
  "pkg_hash_load_status_files e w =
     load_files (map (\<lambda>dest. let status_file = pd_status_file_name (c_dest e dest) in
       (\<lambda>l. if file_exists e status_file w then pkg_hash_add_from_file e status_file None (Some dest) True w l else Some (0, l)))
       (c_dest_list e))"

section \<open>Packages given by the user\<close>

text \<open>
  The control file is extracted to a temporary file and parsed from there. A package without a
  name is malformed.
\<close>

definition pkg_init_from_file :: "'w env \<Rightarrow> string \<Rightarrow> bool \<times> bool \<Rightarrow> 'w \<Rightarrow> (int \<times> pkg \<times> 'w) option" where
  "pkg_init_from_file e filename flags w =
     (let p = pkg_new\<lparr>p_local_filename := Some filename\<rparr> in
      case e_mkstemp e (c_tmp_dir e @ ''/'' @ basename filename @ ''.control.XXXXXX'') w of
        (None, w1) \<Rightarrow> Some (-1, p, w1)
      | (Some control_path, w1) \<Rightarrow>
          if \<not> e_fdopen e w1 then Some (-1, p, snd (e_unlink e control_path w1))
          else
            (case e_deb_control_file e filename w1 of
               (err, text) \<Rightarrow>
                 if err \<noteq> 0 then Some (err, p, snd (e_unlink e control_path w1))
                 else
                   (case pkg_parse_from_stream (parse_env_of e) 0
                           \<lparr>ps_pkg = p, ps_conffiles = fst flags, ps_description = snd flags\<rparr>
                           \<lparr>st_data = text, st_error = False\<rparr> of
                      (ret, it, fp) \<Rightarrow>
                        do { st \<leftarrow> it;
                             Some (if ret \<noteq> 0 then -1 else 0, ps_pkg st, snd (e_unlink e control_path w1)) })))"

text \<open>The last four characters of a name; there must be as many.\<close>

definition package_extension :: "string \<Rightarrow> bool option" where
  "package_extension url =
     (if length url < 4 then None
      else Some (drop (length url - 4) url \<in> {''.opk'', ''.ipk'', ''.deb''}))"

definition insert_prepared :: "'w env \<Rightarrow> pkg \<Rightarrow> pkg_ref \<Rightarrow> 'w sys \<Rightarrow> 'w sys option" where
  "insert_prepared e p r y =
     do { s \<leftarrow> hash_insert_pkg r True
            (upd_pkg r (\<lambda>_. p\<lparr>p_dest := Some (c_default_dest e), p_state_want := SW_INSTALL,
                               p_state_flag := p_state_flag p OR SF_PREFER\<rparr>) (y_store y));
          Some (y\<lparr>y_store := s\<rparr>) }"

text \<open>
  The result is the error and the name to go on with, which changes for a package given by hand.
  \<open>r\<close> is the address of the package that is allocated.
\<close>

definition opkg_prepare_url_for_install ::
  "'w env \<Rightarrow> pkg_ref \<Rightarrow> string \<Rightarrow> 'w sys \<Rightarrow> (int \<times> string option \<times> 'w sys) option" where
  "opkg_prepare_url_for_install e r url y =
     (let finish = (\<lambda>p y1. do { y2 \<leftarrow> insert_prepared e p r y1; Some (0, p_name (pkg_at y2 r), y2) }) in
      if starts_with url ''http://'' \<or> starts_with url ''ftp://'' then
        let tmp_file = c_tmp_dir e @ ''/'' @ basename url in
        case opkg_download e url tmp_file (y_world y) of
          (err, w1) \<Rightarrow>
            if err \<noteq> 0 then Some (err, Some url, y\<lparr>y_world := w1\<rparr>)
            else do { (err, p, w2) \<leftarrow> pkg_init_from_file e tmp_file (False, False) w1;
                      if err \<noteq> 0 then Some (err, Some url, y\<lparr>y_world := w2\<rparr>)
                      else finish p (y\<lparr>y_world := w2\<rparr>) }
      else
        do { given \<leftarrow> package_extension url;
             if given
             then do { (err, p, w2) \<leftarrow> pkg_init_from_file e url (False, False) (y_world y);
                       if err \<noteq> 0 then Some (err, Some url, y\<lparr>y_world := w2\<rparr>)
                       else finish (p\<lparr>p_provided_by_hand := True\<rparr>) (y\<lparr>y_world := w2\<rparr>) }
             else Some (0, Some url, y) })"

section \<open>Reading back what was written\<close>

text \<open>What a package of the status file is read as, whatever it is read into.\<close>

definition restored_pkg :: "parse_env \<Rightarrow> (apkg_ref \<Rightarrow> string) \<Rightarrow> src_ref option \<Rightarrow> dest_ref option \<Rightarrow> pkg \<Rightarrow> pkg" where
  "restored_pkg env nm src dest p = (status_image env nm p)\<lparr>p_src := src, p_dest := dest\<rparr>"

lemma status_updates_blank: "fold (\<lambda>u q. u q) (status_updates env nm p) (blank_pkg src dest) = restored_pkg env nm src dest p"
  unfolding status_updates_def status_image_def restored_pkg_def blank_pkg_def Let_def
  by (simp add: if_update pkg_new_fields status_depends_def status_replaces_def
      cong: if_weak_cong option.case_cong_weak)

text \<open>One package read back: inserted, or ignored when its architecture is not configured.\<close>

definition restore_one ::
  "parse_env \<Rightarrow> (apkg_ref \<Rightarrow> string) \<Rightarrow> src_ref option \<Rightarrow> dest_ref option \<Rightarrow> bool \<Rightarrow> pkg \<Rightarrow> load_state \<Rightarrow> load_state option" where
  "restore_one env nm src dest is_status_file p l =
     (let q = restored_pkg env nm src dest p; l1 = l\<lparr>l_conffiles := False, l_description := False\<rparr>
      in if has_architecture q then insert_loaded is_status_file q l1 else Some l1)"

lemma restored_fields:
  "p_name (restored_pkg env nm src dest p) = p_name p" "p_version (restored_pkg env nm src dest p) = p_version p"
  "p_epoch (restored_pkg env nm src dest p) = p_epoch p" "p_revision (restored_pkg env nm src dest p) = p_revision p"
  by (simp_all add: restored_pkg_def status_image_def Let_def)

lemma restored_version: "pkg_version_str_alloc (restored_pkg env nm src dest p) = pkg_version_str_alloc p"
  unfolding pkg_version_str_alloc_def restored_fields by simp

lemma add_paragraph_printed:
  assumes "pe_pfm env = 0" "printable nm p"
    "\<forall>l \<in> set others. newline \<notin> set l \<and> length l + 2 \<le> EXCESSIVE_LINE_LEN"
  shows "add_paragraph env src dest b \<lparr>st_data = unlines (status_text nm p @ others), st_error = False\<rparr> l =
    map_option (\<lambda>l. (False, \<lparr>st_data = unlines others, st_error = False\<rparr>, l)) (restore_one env nm src dest b p l)"
proof -
  obtain v where v: "pkg_version_str_alloc p = Some v" "p_name p \<noteq> None"
    using assms(2) reads_Version [OF assms(1), of p] by (auto simp: printable_def printable_texts_def)
  show ?thesis
    unfolding add_paragraph_def paragraph_read [OF assms]
    using v by (simp add: new_paragraph_def status_updates_blank reset_flags_def restored_fields restored_version
        restore_one_def Let_def split: bind_split) auto
qed

lemma add_loop_printed:
  assumes "pe_pfm env = 0" "\<forall>p \<in> set ps. printable nm p"
  shows "add_loop env src dest b \<lparr>st_data = unlines (concat (map (status_text nm) ps)), st_error = False\<rparr> l =
    map_option (Pair 0) (foldM (restore_one env nm src dest b) ps l)"
  using assms(2)
proof (induction ps arbitrary: l)
  case Nil
  have "parse_from_stream_nomalloc (parse_callback env 0) it \<lparr>st_data = [], st_error = False\<rparr> 4096 =
      (0, it, \<lparr>st_data = [], st_error = False\<rparr>)" for it
    unfolding parse_from_stream_nomalloc_def by (subst parse_stream_loop.simps) (simp add: fgets_def)
  then show ?case
    by (subst add_loop.simps) (simp add: add_paragraph_def new_paragraph_def blank_pkg_def pkg_new_def unlines_def)
next
  case (Cons p ps)
  let ?others = "concat (map (status_text nm) ps)"
  have others: "\<forall>l \<in> set ?others. newline \<notin> set l \<and> length l + 2 \<le> EXCESSIVE_LINE_LEN"
    using Cons.prems printable_status_text(2) by fastforce
  have s: "add_paragraph env src dest b \<lparr>st_data = unlines (concat (map (status_text nm) (p # ps))), st_error = False\<rparr> l =
      map_option (\<lambda>l. (False, \<lparr>st_data = unlines ?others, st_error = False\<rparr>, l)) (restore_one env nm src dest b p l)"
    using Cons.prems by (simp add: add_paragraph_printed [OF assms(1) _ others] del: unlines_append)
  have e: "unlines ?others = [] \<longleftrightarrow> ps = []"
    by (cases ps) (auto simp: status_text_def unlines_def)
  note loop = add_loop.simps [of env src dest b "\<lparr>st_data = unlines (concat (map (status_text nm) (p # ps))), st_error = False\<rparr>" l]
  show ?case
  proof (cases "restore_one env nm src dest b p l")
    case None
    then show ?thesis unfolding loop s by simp
  next
    case (Some l1)
    have "add_loop env src dest b \<lparr>st_data = unlines ?others, st_error = False\<rparr> l1 =
        map_option (Pair 0) (foldM (restore_one env nm src dest b) ps l1)"
      using Cons.prems by (intro Cons.IH) simp
    then show ?thesis unfolding loop s using Some e by (cases "ps = []") simp_all
  qed
qed

text \<open>
  A read error at the end of a list is met again in every round, so the loop never returns, unless
  the package read last had got a name.
\<close>

lemma add_loop_read_error:
  assumes "add_loop env src dest b fp l = Some r"
  shows "\<not> (st_data fp = [] \<and> st_error fp)"
proof (rule add_loop.raw_induct [where P = "\<lambda>env src dest b fp l r. \<not> (st_data fp = [] \<and> st_error fp)", OF _ assms])
  fix loop env src dest b fp l and r :: "int \<times> load_state"
  assume IH: "\<And>env src dest b fp l r. loop env src dest b fp l = Some r \<Longrightarrow> \<not> (st_data fp = [] \<and> st_error fp)"
    and r: "do { (failed, fp1, l1) \<leftarrow> add_paragraph env src dest b fp l;
                 if failed then Some (-1, l1) else if st_data fp1 = [] \<and> \<not> st_error fp1 then Some (0, l1)
                 else loop env src dest b fp1 l1 } = Some r"
  show "\<not> (st_data fp = [] \<and> st_error fp)"
  proof
    assume e: "st_data fp = [] \<and> st_error fp"
    have "parse_from_stream_nomalloc (parse_callback env 0) it fp 4096 = (-1, it, fp)" for it
      unfolding parse_from_stream_nomalloc_def using e by (subst parse_stream_loop.simps) (simp add: fgets_def)
    then have "\<exists>l1. add_paragraph env src dest b fp l = Some (False, fp, l1)"
      by (simp add: add_paragraph_def new_paragraph_def blank_pkg_def pkg_new_def)
    then obtain l1 where "loop env src dest b fp l1 = Some r" using r e by auto
    from IH [OF this] show False using e by simp
  qed
qed

section \<open>The database\<close>

definition written_to :: "store \<Rightarrow> dest_ref \<Rightarrow> pkg_ref \<Rightarrow> bool" where
  "written_to s d r \<longleftrightarrow> \<not> status_skipped (s_pkgs s r) \<and> p_dest (s_pkgs s r) = Some d"

abbreviation status_file_of :: "'w env \<Rightarrow> dest_ref \<Rightarrow> string" where
  "status_file_of e d \<equiv> pd_status_file_name (c_dest e d)"

text \<open>Files keep what is written to them, and writing one leaves the others alone.\<close>

definition keeps_files :: "'w env \<Rightarrow> bool" where
  "keeps_files e \<longleftrightarrow> (\<forall>f t w. fst (e_write_file e f t w) = 0 \<and> e_file e f (snd (e_write_file e f t w)) = Some (t, False) \<and>
     (\<forall>g. g \<noteq> f \<longrightarrow> e_file e g (snd (e_write_file e f t w)) = e_file e g w))"

lemma all_opened:
  assumes "keeps_files e"
  shows "\<exists>w'. open_status_files e w = (0, c_dest_list e, w')"
proof -
  have "\<exists>w'. fold (\<lambda>d (ret, opened, w). case e_write_file e (status_file_of e d) [] w of
             (err, w') \<Rightarrow> if err = 0 then (ret, opened @ [d], w')
                         else (if err \<noteq> EROFS then -1 else ret, opened, w')) ds (0, opened, w) = (0, opened @ ds, w')"
    for ds opened w
  proof (induction ds arbitrary: opened w)
    case (Cons d ds)
    have "fst (e_write_file e (status_file_of e d) [] w) = 0" using assms by (simp add: keeps_files_def)
    then show ?case using Cons.IH [of "opened @ [d]"] by (auto split: prod.splits)
  qed simp
  from this [of "c_dest_list e" "[]" w] show ?thesis by (simp add: open_status_files_def)
qed

lemma status_entries:
  assumes "\<forall>r \<in> set rs. \<not> status_skipped (s_pkgs s r) \<longrightarrow> printable (apkg_name s) (s_pkgs s r)"
  shows "\<exists>texts'. foldM (status_entry s opened) rs texts = Some texts' \<and>
    (\<forall>d \<in> set opened. texts' d = texts d @
       unlines (concat (map (status_text (apkg_name s)) (map (s_pkgs s) (filter (written_to s d) rs)))))"
  using assms
proof (induction rs arbitrary: texts)
  case (Cons r rs)
  let ?t = "unlines (status_text (apkg_name s) (s_pkgs s r))"
  have "\<exists>texts1. status_entry s opened r texts = Some texts1 \<and>
      (\<forall>d \<in> set opened. texts1 d = texts d @ (if written_to s d r then ?t else []))"
    using Cons.prems printable_status_text(1)
    by (auto simp: status_entry_def written_to_def Let_def split: option.splits)
  then obtain texts1 where 1: "status_entry s opened r texts = Some texts1"
    "\<forall>d \<in> set opened. texts1 d = texts d @ (if written_to s d r then ?t else [])" by blast
  obtain texts' where "foldM (status_entry s opened) rs texts1 = Some texts'"
    "\<forall>d \<in> set opened. texts' d = texts1 d @
       unlines (concat (map (status_text (apkg_name s)) (map (s_pkgs s) (filter (written_to s d) rs))))"
    using Cons.IH [of texts1] Cons.prems by auto
  then show ?case using 1 by (simp add: unlines_def)
qed (simp add: unlines_def)

lemma files_written:
  assumes "keeps_files e" "inj_on (status_file_of e) (set ds)" "d \<in> set ds"
  shows "e_file e (status_file_of e d) (fold (\<lambda>d w. snd (e_write_file e (status_file_of e d) (texts d) w)) ds w) =
    Some (texts d, False)"
proof -
  have "e_file e (status_file_of e d) (fold (\<lambda>d w. snd (e_write_file e (status_file_of e d) (texts d) w)) ds w) =
      (if d \<in> set ds then Some (texts d, False) else e_file e (status_file_of e d) w)"
    if "inj_on (status_file_of e) (insert d (set ds))" for ds w
    using that
  proof (induction ds arbitrary: w)
    case (Cons b ds)
    have "inj_on (status_file_of e) (insert d (set ds))" using Cons.prems by (rule inj_on_subset) auto
    note IH = Cons.IH [OF this]
    have "status_file_of e b = status_file_of e d \<longleftrightarrow> b = d" using Cons.prems by (auto simp: inj_on_def)
    then show ?case using assms(1) by (auto simp: IH keeps_files_def)
  qed simp
  from this [of ds w] show ?thesis using assms(2,3) by (simp add: insert_absorb del: inj_on_insert)
qed

text \<open>
  (C29) The status files are a faithful database: when files keep what is written to them and the
  packages of the table can be printed, loading the status file that was written for a destination
  gives, one by one and in order, every package of the destination that is not skipped, with its
  name, version, dependencies, conffiles and states (see \<^const>\<open>status_image\<close>) and the destination.
\<close>

theorem status_database_roundtrip:
  assumes "\<not> c_noaction e" "keeps_files e" "c_pfm e = 0"
    "inj_on (status_file_of e) (set (c_dest_list e))" "d \<in> set (c_dest_list e)"
    "\<forall>r \<in> set (pkg_hash_fetch_available [] (y_store y)).
       \<not> status_skipped (pkg_at y r) \<longrightarrow> printable (apkg_name (y_store y)) (pkg_at y r)"
  shows "\<exists>y'. opkg_conf_write_status_files e y = Some (0, y') \<and>
    pkg_hash_add_from_file e (status_file_of e d) None (Some d) True (y_world y') l =
      map_option (Pair 0)
        (foldM (restore_one (parse_env_of e) (apkg_name (y_store y)) None (Some d) True)
          (map (pkg_at y) (filter (written_to (y_store y) d) (pkg_hash_fetch_available [] (y_store y)))) l)"
proof -
  let ?s = "y_store y"
  let ?rs = "pkg_hash_fetch_available [] ?s"
  let ?ps = "map (pkg_at y) (filter (written_to ?s d) ?rs)"
  obtain w where w: "open_status_files e (y_world y) = (0, c_dest_list e, w)" using all_opened [OF assms(2)] by blast
  obtain texts where t: "foldM (status_entry ?s (c_dest_list e)) ?rs (\<lambda>d. []) = Some texts"
    "texts d = unlines (concat (map (status_text (apkg_name ?s)) ?ps))"
    using status_entries [OF assms(6), of "c_dest_list e" "\<lambda>d. []"] assms(5) by auto
  define w' where "w' = fold (\<lambda>d w. snd (e_write_file e (status_file_of e d) (texts d) w)) (c_dest_list e) w"
  have f: "e_file e (status_file_of e d) w' = Some (texts d, False)"
    unfolding w'_def by (rule files_written [OF assms(2,4,5)])
  have "\<forall>p \<in> set ?ps. printable (apkg_name ?s) p" using assms(6) by (auto simp: written_to_def)
  then have "pkg_hash_add_from_file e (status_file_of e d) None (Some d) True w' l =
      map_option (Pair 0) (foldM (restore_one (parse_env_of e) (apkg_name ?s) None (Some d) True) ?ps l)"
    unfolding pkg_hash_add_from_file_def f t(2) option.case prod.case
    by (intro add_loop_printed) (simp add: assms(3) parse_env_of_def)
  moreover have "opkg_conf_write_status_files e y = Some (0, y\<lparr>y_world := w'\<rparr>)"
    using assms(1) by (simp add: opkg_conf_write_status_files_def w t(1) w'_def)
  ultimately show ?thesis by simp
qed

text \<open>A world of files, and a table with one package.\<close>

definition files_only_env :: "(string \<Rightarrow> string option) env" where
  "files_only_env = idle_env\<lparr>e_write_file := (\<lambda>f t w. (0, w(f \<mapsto> t))), e_file := (\<lambda>f w. map_option (\<lambda>t. (t, False)) (w f))\<rparr>"

definition one_pkg_store :: store where
  "one_pkg_store = empty_store\<lparr>s_pkgs := (\<lambda>r. example_status_pkg\<lparr>p_dest := Some 0\<rparr>),
     s_apkgs := (\<lambda>a. abstract_pkg_new\<lparr>ap_name := Some ''libc'', ap_pkgs := Some [0]\<rparr>),
     s_hash := snd (hash_table_insert (hash_table_init [] blank_table 4) ''uci'' 0)\<rparr>"

lemma one_pkg_table: "set (pkg_hash_fetch_available [] one_pkg_store) = {0}"
proof -
  let ?h = "s_hash one_pkg_store"
  have h: "ht_ok ?h \<and> ht_map ?h = [''uci'' \<mapsto> 0]"
    by (simp add: one_pkg_store_def blank_table_def hash_table_init_map hash_table_insert_map)
  have "apkg_pkgs one_pkg_store a = [0]" for a by (simp add: one_pkg_store_def apkg_pkgs_def)
  then show ?thesis unfolding fetch_available_set [OF conjunct1 [OF h]] conjunct2 [OF h] by auto
qed

lemma one_pkg_printable: "printable (apkg_name one_pkg_store) (s_pkgs one_pkg_store 0)"
proof -
  have "apkg_name one_pkg_store = (\<lambda>a. ''libc'')" by (simp add: fun_eq_iff apkg_name_def one_pkg_store_def fmt_s_def)
  moreover have "printable nm (p\<lparr>p_dest := d\<rparr>) = printable nm p" for nm p d
  proof -
    have 1: "all_depends_count (p\<lparr>p_dest := d\<rparr>) = all_depends_count p" by (simp add: all_depends_count_def)
    have 2: "status_depends nm (p\<lparr>p_dest := d\<rparr>) = status_depends nm p" "status_provides nm (p\<lparr>p_dest := d\<rparr>) = status_provides nm p"
      "status_replaces nm (p\<lparr>p_dest := d\<rparr>) = status_replaces nm p" "status_conflicts nm (p\<lparr>p_dest := d\<rparr>) = status_conflicts nm p"
      "printable_version (p\<lparr>p_dest := d\<rparr>) = printable_version p" "pkg_version_str_alloc (p\<lparr>p_dest := d\<rparr>) = pkg_version_str_alloc p"
      by (simp_all add: fun_eq_iff status_depends_def status_provides_def status_replaces_def status_conflicts_def 1
          printable_version_def pkg_version_str_alloc_def Let_def cong: option.case_cong if_cong conj_cong)
    show ?thesis unfolding printable_def printable_arrays_def printable_texts_def status_lines_def 1 2
      by (simp cong: option.case_cong if_cong)
  qed
  ultimately show ?thesis using example_printable by (simp add: one_pkg_store_def)
qed

definition blank_load :: load_state where
  "blank_load = \<lparr>l_next = 0, l_conffiles = False, l_description = False, l_store = empty_store\<rparr>"

theorem status_database_roundtrip_witness:
  "\<exists>y'. opkg_conf_write_status_files files_only_env ((example_sys Map.empty)\<lparr>y_store := one_pkg_store\<rparr>) = Some (0, y') \<and>
     pkg_hash_add_from_file files_only_env ''/s'' None (Some 0) True (y_world y') blank_load =
       map_option (Pair 0)
         (foldM (restore_one (parse_env_of files_only_env) (apkg_name one_pkg_store) None (Some 0) True)
           (map (s_pkgs one_pkg_store) (filter (written_to one_pkg_store 0) (pkg_hash_fetch_available [] one_pkg_store))) blank_load)"
proof -
  let ?y = "(example_sys Map.empty)\<lparr>y_store := one_pkg_store\<rparr> :: (string \<Rightarrow> string option) sys"
  have keeps: "keeps_files files_only_env" by (simp add: keeps_files_def files_only_env_def)
  have conf: "\<not> c_noaction files_only_env" "c_pfm files_only_env = 0" "0 \<in> set (c_dest_list files_only_env)"
    "inj_on (status_file_of files_only_env) (set (c_dest_list files_only_env))" "status_file_of files_only_env 0 = ''/s''"
    by (simp_all add: files_only_env_def idle_env_def)
  have "\<forall>r \<in> set (pkg_hash_fetch_available [] (y_store ?y)).
      \<not> status_skipped (pkg_at ?y r) \<longrightarrow> printable (apkg_name (y_store ?y)) (pkg_at ?y r)"
    using one_pkg_table one_pkg_printable by simp
  from status_database_roundtrip [OF conf(1) keeps conf(2,4,3) this, of blank_load] show ?thesis by (simp add: conf(5))
qed

end
