(* ===== verification/Opkg_Commands.thy ===== *)
theory Opkg_Commands
  imports Opkg_Load
begin

text \<open>
  The commands of opkg (\<open>libopkg/opkg_cmd.c\<close>), without \<open>update\<close>: those that change the system
  compose the installation, the removal and the configuration and then write the database; those
  that ask give the text they print. What goes through \<open>opkg_msg\<close> with \<open>NOTICE\<close> or \<open>INFO\<close> is printed
  according to \<open>verbosity\<close> and is part of the text where it is the answer of the command.

  \<open>SIGINT\<close> only changes what an interrupt does and is left out. \<open>next\<close> is the address of the first
  package that the command allocates.
\<close>

section \<open>Shared parts\<close>

definition print_pkg :: "pkg \<Rightarrow> string" where
  "print_pkg p =
     (let version = fmt_s (pkg_version_str_alloc p) in
      case p_description p of
        Some d \<Rightarrow> fmt_s (p_name p) @ '' - '' @ version @ '' - '' @ d @ [newline]
      | None \<Rightarrow> fmt_s (p_name p) @ '' - '' @ version @ [newline])"

definition NOTICE :: int where "NOTICE = 1"
definition INFO :: int where "INFO = 2"

text \<open>\<open>opkg_msg\<close> for one level; above \<open>NOTICE\<close> the name of the function stands in front.\<close>

definition opkg_msg :: "'w env \<Rightarrow> int \<Rightarrow> string \<Rightarrow> string \<Rightarrow> string" where
  "opkg_msg e level func text =
     (if c_verbosity e < level then [] else (if level = NOTICE then [] else func @ '': '') @ text)"

abbreviation notice :: "'w env \<Rightarrow> string \<Rightarrow> string" where
  "notice e \<equiv> opkg_msg e NOTICE []"

definition matches_arg :: "'w env \<Rightarrow> string list \<Rightarrow> pkg \<Rightarrow> bool" where
  "matches_arg e argv p = (case argv of [] \<Rightarrow> True | pat # _ \<Rightarrow> e_fnmatch e pat (fmt_s (p_name p)))"

definition pkg_vec_sort :: "store \<Rightarrow> pkg_ref list \<Rightarrow> pkg_ref list" where
  "pkg_vec_sort s vec = qsort (\<lambda>a b. pkg_compare_names (s_pkgs s a) (s_pkgs s b)) vec"

definition pkg_vec_mark_if_matches :: "'w env \<Rightarrow> string \<Rightarrow> pkg_ref list \<Rightarrow> store \<Rightarrow> store" where
  "pkg_vec_mark_if_matches e pattern vec s =
     fold (\<lambda>r s. if e_fnmatch e pattern (fmt_s (p_name (s_pkgs s r)))
                 then upd_pkg r (\<lambda>p. p\<lparr>p_state_flag := p_state_flag p OR SF_MARKED\<rparr>) s else s) vec s"

definition write_status_files_if_changed :: "'w env \<Rightarrow> 'w sys \<Rightarrow> 'w sys option" where
  "write_status_files_if_changed e y =
     (if y_state_changed y \<noteq> 0 \<and> \<not> c_noaction e
      then do { (ret, y1) \<leftarrow> opkg_conf_write_status_files e y;
                (ret, y2) \<leftarrow> pkg_write_changed_filelists e y1;
                Some y2 }
      else Some y)"

text \<open>The installed package of a name that a command acts on.\<close>

definition installed_by_name :: "'w env \<Rightarrow> string \<Rightarrow> 'w sys \<Rightarrow> pkg_ref option \<times> 'w sys" where
  "installed_by_name e name y =
     (case (if c_restrict_to_default_dest e
            then pkg_hash_fetch_installed_by_name_dest name (Some (c_default_dest e)) (y_store y)
            else pkg_hash_fetch_installed_by_name name (y_store y)) of
        (p, s) \<Rightarrow> (p, y\<lparr>y_store := s\<rparr>))"

definition queried_pkgs :: "'w env \<Rightarrow> store \<Rightarrow> pkg_ref list" where
  "queried_pkgs e s = (if c_query_all e then pkg_hash_fetch_available [] s else pkg_hash_fetch_all_installed [] s)"

section \<open>Commands that change the system\<close>

fun remove_matching :: "nat \<Rightarrow> 'w env \<Rightarrow> string \<Rightarrow> pkg_ref list \<Rightarrow> int \<times> 'w sys \<Rightarrow> (int \<times> 'w sys) option" where
  "remove_matching rfuel e arg [] ey = Some ey"
| "remove_matching rfuel e arg (p # ps) (err, y) =
     (if \<not> e_fnmatch e arg (fmt_s (p_name (pkg_at y p))) then remove_matching rfuel e arg ps (err, y)
      else
        do { name \<leftarrow> p_name (pkg_at y p);
             case installed_by_name e name y of
               (None, y1) \<Rightarrow> remove_matching rfuel e arg ps (err, y1)
             | (Some pkg_to_remove, y1) \<Rightarrow>
                 if p_state_status (pkg_at y1 p) = SS_NOT_INSTALLED then remove_matching rfuel e arg ps (err, y1)
                 else do { (ret, y2) \<leftarrow> opkg_remove_pkg rfuel e pkg_to_remove False y1;
                           remove_matching rfuel e arg ps (if ret \<noteq> 0 then -1 else err, y2) } })"

definition opkg_remove_cmd :: "nat \<Rightarrow> 'w env \<Rightarrow> string list \<Rightarrow> 'w sys \<Rightarrow> (int \<times> 'w sys) option" where
  "opkg_remove_cmd rfuel e argv y =
     do { y1 \<leftarrow> pkg_info_preinstall_check e y;
          let available = pkg_hash_fetch_all_installed [] (y_store y1);
          (err, y2) \<leftarrow> foldM (\<lambda>arg. remove_matching rfuel e arg available) argv (0, y1);
          y3 \<leftarrow> write_status_files_if_changed e y2;
          Some (err, y3) }"

text \<open>The loop that replaces packages given by hand by their names; it ends at the first error.\<close>

fun prepare_args ::
  "'w env \<Rightarrow> pkg_ref \<Rightarrow> string list \<Rightarrow> 'w sys \<Rightarrow> (int \<times> string list \<times> 'w sys) option" where
  "prepare_args e next [] y = Some (0, [], y)"
| "prepare_args e next (arg # args) y =
     do { (err, name, y1) \<leftarrow> opkg_prepare_url_for_install e next arg y;
          if err \<noteq> 0 then Some (-1, [], y1)
          else do { n \<leftarrow> name;
                    (err2, names, y2) \<leftarrow> prepare_args e (next + 1) args y1;
                    Some (err2, n # names, y2) } }"

definition finish_cmd :: "nat \<Rightarrow> 'w env \<Rightarrow> string option \<Rightarrow> int \<Rightarrow> 'w sys \<Rightarrow> (int \<times> 'w sys) option" where
  "finish_cmd cfuel e pkg_name err y =
     do { (ret, y1) \<leftarrow> opkg_configure_packages cfuel e pkg_name y;
          y2 \<leftarrow> write_status_files_if_changed e y1;
          Some (if ret \<noteq> 0 then -1 else err, y2) }"

definition install_each :: "nat \<Rightarrow> nat \<Rightarrow> 'w env \<Rightarrow> string list \<Rightarrow> 'w sys \<Rightarrow> (int \<times> 'w sys) option" where
  "install_each fuel rfuel e names y =
     foldM (\<lambda>name (err, y). do { (ret, y1) \<leftarrow> opkg_install_by_name fuel rfuel e name y;
                                 Some (if ret \<noteq> 0 then -1 else err, y1) }) names (0, y)"

definition opkg_install_cmd ::
  "nat \<Rightarrow> nat \<Rightarrow> nat \<Rightarrow> 'w env \<Rightarrow> pkg_ref \<Rightarrow> string list \<Rightarrow> 'w sys \<Rightarrow> (int \<times> 'w sys) option" where
  "opkg_install_cmd fuel rfuel cfuel e next argv y =
     do { (_, y0) \<leftarrow> (if c_force_reinstall e then opkg_remove_cmd rfuel (e\<lparr>c_force_depends := True\<rparr>) argv y else Some (0, y));
          (err, names, y1) \<leftarrow> prepare_args e next argv y0;
          if err \<noteq> 0 then Some (-1, y1)
          else do { y2 \<leftarrow> pkg_info_preinstall_check e y1;
                    (err, y3) \<leftarrow> install_each fuel rfuel e names y2;
                    finish_cmd cfuel e None err y3 } }"

text \<open>The names of packages given by hand are dropped here; the arguments themselves are looked up.\<close>

definition upgrade_each :: "nat \<Rightarrow> nat \<Rightarrow> 'w env \<Rightarrow> string list \<Rightarrow> 'w sys \<Rightarrow> (int \<times> 'w sys) option" where
  "upgrade_each fuel rfuel e argv y =
     foldM (\<lambda>arg (err, y).
       case installed_by_name e arg y of
         (None, y1) \<Rightarrow>
           if c_restrict_to_default_dest e then Some (err, y1)
           else do { (ret, y2) \<leftarrow> opkg_install_by_name fuel rfuel e arg y1; Some (if ret \<noteq> 0 then -1 else err, y2) }
       | (Some r, y1) \<Rightarrow> do { (ret, y2) \<leftarrow> opkg_upgrade_pkg fuel rfuel e r y1; Some (if ret \<noteq> 0 then -1 else err, y2) })
       argv (0, y)"

definition opkg_upgrade_cmd ::
  "nat \<Rightarrow> nat \<Rightarrow> nat \<Rightarrow> 'w env \<Rightarrow> pkg_ref \<Rightarrow> string list \<Rightarrow> 'w sys \<Rightarrow> (int \<times> 'w sys) option" where
  "opkg_upgrade_cmd fuel rfuel cfuel e next argv y =
     (if argv = [] then finish_cmd cfuel e None 0 y
      else
        do { (err, names, y1) \<leftarrow> prepare_args e next argv y;
             if err \<noteq> 0 then Some (-1, y1)
             else do { y2 \<leftarrow> pkg_info_preinstall_check e y1;
                       (err, y3) \<leftarrow> upgrade_each fuel rfuel e argv y2;
                       finish_cmd cfuel e None err y3 } })"

definition opkg_configure_cmd :: "nat \<Rightarrow> 'w env \<Rightarrow> string list \<Rightarrow> 'w sys \<Rightarrow> (int \<times> 'w sys) option" where
  "opkg_configure_cmd cfuel e argv y =
     do { (err, y1) \<leftarrow> opkg_configure_packages cfuel e (case argv of [] \<Rightarrow> None | a # _ \<Rightarrow> Some a) y;
          y2 \<leftarrow> write_status_files_if_changed e y1;
          Some (err, y2) }"

text \<open>An error stays set for the packages behind it.\<close>

definition opkg_download_cmd :: "'w env \<Rightarrow> string list \<Rightarrow> 'w sys \<Rightarrow> (int \<times> 'w sys) option" where
  "opkg_download_cmd e argv y =
     do { y1 \<leftarrow> pkg_info_preinstall_check e y;
          foldM (\<lambda>arg (err, y).
            do { (pkg, s) \<leftarrow> pkg_hash_fetch_best_installation_candidate_by_name arg (y_store y);
                 case pkg of
                   None \<Rightarrow> Some (err, y\<lparr>y_store := s\<rparr>)
                 | Some r \<Rightarrow> Some (case opkg_download_pkg e r ''.'' (y\<lparr>y_store := s\<rparr>) of
                                      (ret, y2) \<Rightarrow> (if ret \<noteq> 0 then -1 else err, y2)) }) argv (0, y1) }"

definition set_flags :: "string \<Rightarrow> pkg \<Rightarrow> pkg" where
  "set_flags flags p =
     (let p1 = (if flags \<in> {''hold'', ''noprune'', ''user'', ''ok''}
                then p\<lparr>p_state_flag := pkg_state_flag_from_str flags\<rparr> else p)
      in if flags \<in> {''installed'', ''unpacked''}
         then p1\<lparr>p_state_status := pkg_state_status_from_str flags\<rparr> else p1)"

definition flag_one :: "'w env \<Rightarrow> string \<Rightarrow> string \<Rightarrow> 'w sys \<Rightarrow> 'w sys" where
  "flag_one e flags arg y =
     (case installed_by_name e arg y of
        (None, y1) \<Rightarrow> y1
      | (Some r, y1) \<Rightarrow> (let y2 = mod_pkg r (set_flags flags) y1 in y2\<lparr>y_state_changed := y_state_changed y2 + 1\<rparr>))"

text \<open>The command is only called with arguments.\<close>

definition opkg_flag_cmd :: "'w env \<Rightarrow> string list \<Rightarrow> 'w sys \<Rightarrow> (int \<times> 'w sys) option" where
  "opkg_flag_cmd e argv y =
     (case argv of
        [] \<Rightarrow> None
      | flags # args \<Rightarrow> do { y1 \<leftarrow> write_status_files_if_changed e (fold (flag_one e flags) args y); Some (0, y1) })"

end
