(* ===== verification/Opkg_Queries.thy ===== *)
theory Opkg_Queries
  imports Opkg_Commands
begin

text \<open>
  The commands of \<open>libopkg/opkg_cmd.c\<close> that only ask, the search for what depends on a package,
  and the table of commands.
\<close>

section \<open>Lists and descriptions\<close>

definition opkg_list_cmd :: "'w env \<Rightarrow> string list \<Rightarrow> store \<Rightarrow> string" where
  "opkg_list_cmd e argv s =
     concat (map print_pkg (filter (matches_arg e argv) (map (s_pkgs s) (pkg_vec_sort s (pkg_hash_fetch_available [] s)))))"

definition opkg_list_installed_cmd :: "'w env \<Rightarrow> string list \<Rightarrow> store \<Rightarrow> string" where
  "opkg_list_installed_cmd e argv s =
     concat (map print_pkg (filter (matches_arg e argv) (map (s_pkgs s) (pkg_vec_sort s (pkg_hash_fetch_all_installed [] s)))))"

definition changed_conffile :: "'w env \<Rightarrow> 'w \<Rightarrow> nv_pair \<Rightarrow> string" where
  "changed_conffile e w cf =
     (case (nv_name cf, nv_value cf) of
        (Some name, Some v) \<Rightarrow> if conffile_has_been_modified e cf w then name @ [newline] else []
      | _ \<Rightarrow> [])"

definition opkg_list_changed_conffiles_cmd :: "'w env \<Rightarrow> string list \<Rightarrow> 'w sys \<Rightarrow> string" where
  "opkg_list_changed_conffiles_cmd e argv y =
     (let s = y_store y in
      concat (map (\<lambda>p. concat (map (changed_conffile e (y_world y)) (p_conffiles p)))
        (filter (matches_arg e argv) (map (s_pkgs s) (pkg_vec_sort s (pkg_hash_fetch_all_installed [] s))))))"

definition conffile_info :: "'w env \<Rightarrow> 'w \<Rightarrow> nv_pair \<Rightarrow> string" where
  "conffile_info e w cf =
     (case nv_value cf of
        None \<Rightarrow> []
      | Some v \<Rightarrow>
          opkg_msg e INFO ''opkg_info_status_cmd''
            (''conffile='' @ fmt_s (nv_name cf) @ '' md5sum='' @ v @ '' modified='' @
             (if conffile_has_been_modified e cf w then ''1'' else ''0'') @ ''.'' @ [newline]))"

definition opkg_info_status_cmd :: "'w env \<Rightarrow> string list \<Rightarrow> bool \<Rightarrow> 'w sys \<Rightarrow> string option" where
  "opkg_info_status_cmd e argv installed_only y =
     (let s = y_store y;
          available = (if installed_only then pkg_hash_fetch_all_installed [] s else pkg_hash_fetch_available [] s)
      in map_option concat (all_some (map (\<lambda>p.
           map_option (\<lambda>t. t @ (if c_verbosity e \<ge> NOTICE then concat (map (conffile_info e (y_world y)) (p_conffiles p)) else []))
             (pkg_formatted_info (apkg_name s) p))
           (filter (matches_arg e argv) (map (s_pkgs s) available)))))"

definition opkg_files_cmd :: "'w env \<Rightarrow> string list \<Rightarrow> 'w sys \<Rightarrow> (int \<times> string \<times> 'w sys) option" where
  "opkg_files_cmd e argv y =
     (case argv of
        [] \<Rightarrow> Some (-1, [], y)
      | name # _ \<Rightarrow>
          (case pkg_hash_fetch_installed_by_name name (y_store y) of
             (None, s) \<Rightarrow> Some (0, [], y\<lparr>y_store := s\<rparr>)
           | (Some r, s) \<Rightarrow>
               do { (files, y1) \<leftarrow> pkg_get_installed_files e r (y\<lparr>y_store := s\<rparr>);
                    fs \<leftarrow> files;
                    d \<leftarrow> dest_of e (pkg_at y1 r);
                    Some (0,
                      ''Package '' @ fmt_s (p_name (pkg_at y1 r)) @ '' ('' @ fmt_s (pkg_version_str_alloc (pkg_at y1 r)) @
                      '') is installed on '' @ pd_name d @ '' and has the following files:'' @ [newline] @
                      concat (map (\<lambda>f. f @ [newline]) fs),
                      pkg_free_installed_files r y1) }))"

definition search_one :: "'w env \<Rightarrow> string \<Rightarrow> pkg_ref \<Rightarrow> string \<times> 'w sys \<Rightarrow> (string \<times> 'w sys) option" where
  "search_one e pat r ty =
     (case ty of (text, y) \<Rightarrow>
        do { (files, y1) \<leftarrow> pkg_get_installed_files e r y;
             fs \<leftarrow> files;
             Some (text @ concat (map (\<lambda>f. if e_fnmatch e pat f then print_pkg (pkg_at y1 r) else []) fs),
                   pkg_free_installed_files r y1) })"

definition opkg_search_cmd :: "'w env \<Rightarrow> string list \<Rightarrow> 'w sys \<Rightarrow> (int \<times> string \<times> 'w sys) option" where
  "opkg_search_cmd e argv y =
     (case argv of
        [] \<Rightarrow> Some (-1, [], y)
      | pat # _ \<Rightarrow>
          map_option (Pair 0)
            (foldM (search_one e pat) (pkg_vec_sort (y_store y) (pkg_hash_fetch_all_installed [] (y_store y))) ([], y)))"

definition opkg_print_architecture_cmd :: "'w env \<Rightarrow> string" where
  "opkg_print_architecture_cmd e = concat (map (\<lambda>(name, val). ''arch '' @ name @ '' '' @ val @ [newline]) (c_arch_list e))"

text \<open>The other fields of the two packages are not set and not read.\<close>

definition opkg_compare_versions_cmd :: "string list \<Rightarrow> int" where
  "opkg_compare_versions_cmd argv =
     (case argv of
        [v1, op, v2] \<Rightarrow> if pkg_version_satisfied (parse_version pkg_new v1) (parse_version pkg_new v2) op then 1 else 0
      | _ \<Rightarrow> -1)"

section \<open>Relations between packages\<close>

definition depends_lines :: "'w env \<Rightarrow> store \<Rightarrow> pkg \<Rightarrow> string option" where
  "depends_lines e s p =
     do { cdeps \<leftarrow> first_n (all_depends_count p) (p_depends p);
          Some (notice e (fmt_s (p_name p) @ '' depends on:'' @ [newline]) @
                concat (map (\<lambda>cd. notice e (CHR 0x09 # pkg_depend_str (apkg_name s) cd @ [newline]))
                         (filter (\<lambda>cd. cd_type cd = DEPEND) cdeps))) }"

definition opkg_depends_cmd :: "'w env \<Rightarrow> string list \<Rightarrow> 'w sys \<Rightarrow> (string \<times> 'w sys) option" where
  "opkg_depends_cmd e argv y =
     do { y1 \<leftarrow> pkg_info_preinstall_check e y;
          let s = y_store y1;
          let pkgs = map (s_pkgs s) (queried_pkgs e s);
          texts \<leftarrow> all_some (map (depends_lines e s)
                    (concat (map (\<lambda>arg. filter (\<lambda>p. e_fnmatch e arg (fmt_s (p_name p))) pkgs) argv)));
          Some (concat texts, y1) }"

datatype what_field_type = WHATDEPENDS | WHATCONFLICTS | WHATPROVIDES | WHATREPLACES | WHATRECOMMENDS | WHATSUGGESTS

definition provides_lines :: "'w env \<Rightarrow> store \<Rightarrow> string \<Rightarrow> string \<Rightarrow> pkg \<Rightarrow> apkg_ref list \<Rightarrow> string" where
  "provides_lines e s rel_str target p as =
     concat (map (\<lambda>a.
       if e_fnmatch e target (apkg_name s a) then
         notice e (''    '' @ fmt_s (p_name p)) @
         (if strcmp target (apkg_name s a) \<noteq> 0
          then notice e (CHR 0x09 # rel_str @ '' '' @ apkg_name s a @ [newline]) else []) @
         notice e [newline]
       else []) as)"

definition opkg_what_provides_replaces_cmd ::
  "'w env \<Rightarrow> what_field_type \<Rightarrow> string list \<Rightarrow> 'w sys \<Rightarrow> (string \<times> 'w sys) option" where
  "opkg_what_provides_replaces_cmd e what_field_type argv y =
     (if argv = [] then Some ([], y)
      else
        let rel_str = (if what_field_type = WHATPROVIDES then ''provides'' else ''replaces'') in
        do { y1 \<leftarrow> pkg_info_preinstall_check e y;
             let s = y_store y1;
             texts \<leftarrow> all_some (map (\<lambda>target.
               map_option (\<lambda>ts. notice e (''What '' @ rel_str @ '' '' @ target @ [newline]) @ concat ts)
                 (all_some (map (\<lambda>p.
                   map_option (provides_lines e s rel_str target p)
                     (if what_field_type = WHATPROVIDES
                      then if p_provides_count p = 0 then Some [] else Option.bind (p_provides p) (first_n (p_provides_count p))
                      else first_n (p_replaces_count p) (p_replaces p)))
                   (map (s_pkgs s) (queried_pkgs e s))))) argv);
             Some (concat texts, y1) })"

section \<open>What depends on a package\<close>

definition set_marked :: "abstract_pkg \<Rightarrow> abstract_pkg" where
  "set_marked a = a\<lparr>ap_state_flag := ap_state_flag a OR SF_MARKED\<rparr>"

definition apkg_marked :: "store \<Rightarrow> apkg_ref \<Rightarrow> bool" where
  "apkg_marked s a \<longleftrightarrow> ap_state_flag (s_apkgs s a) AND SF_MARKED \<noteq> 0"

definition provided_by_pkg :: "pkg \<Rightarrow> apkg_ref list option" where
  "provided_by_pkg p = (if p_provides_count p = 0 then Some [] else Option.bind (p_provides p) (first_n (p_provides_count p)))"

definition pkg_mark_provides :: "pkg_ref \<Rightarrow> store \<Rightarrow> store option" where
  "pkg_mark_provides r s =
     do { a \<leftarrow> p_parent (s_pkgs s r);
          as \<leftarrow> provided_by_pkg (s_pkgs s r);
          Some (fold (\<lambda>a. upd_apkg a set_marked) as (upd_apkg a set_marked s)) }"

text \<open>The dependencies of a kind that a package has.\<close>

definition cdeps_of_type :: "depend_type \<Rightarrow> pkg \<Rightarrow> compound_depend list option" where
  "cdeps_of_type t p =
     map_option (filter (\<lambda>cd. cd_type cd = t))
       (if t = CONFLICTS
        then if p_conflicts_count p = 0 then Some [] else Option.bind (p_conflicts p) (first_n (p_conflicts_count p))
        else first_n (all_depends_count p) (p_depends p))"

definition depender_text :: "'w env \<Rightarrow> store \<Rightarrow> string \<Rightarrow> pkg \<Rightarrow> depend \<Rightarrow> string" where
  "depender_text e s rel_str p d =
     notice e (CHR 0x09 # fmt_s (p_name p) @ '' '' @ fmt_s (pkg_version_str_alloc p) @ [CHR 0x09] @ rel_str @ '' '' @
       apkg_name s (d_pkg d)) @
     (case d_version d of
        None \<Rightarrow> [] | Some v \<Rightarrow> notice e ('' ('' @ constraint_to_str (d_constraint d) @ v @ '')'')) @
     (if pkg_dependence_satisfiable d s then [] else notice e '' unsatisfiable'') @ notice e [newline]"

definition mark_if_depends :: "'w env \<Rightarrow> depend_type \<Rightarrow> string \<Rightarrow> pkg_ref \<Rightarrow> int \<times> string \<times> store \<Rightarrow> (int \<times> string \<times> store) option" where
  "mark_if_depends e t rel_str r st =
     (case st of (changed, text, s) \<Rightarrow>
        do { a \<leftarrow> p_parent (s_pkgs s r);
             if apkg_marked s a then Some st
             else
               do { cdeps \<leftarrow> cdeps_of_type t (s_pkgs s r);
                    case find (\<lambda>d. apkg_marked s (d_pkg d)) (concat (map cd_possibilities cdeps)) of
                      None \<Rightarrow> Some st
                    | Some d \<Rightarrow>
                        do { s1 \<leftarrow> pkg_mark_provides r (upd_pkg r (\<lambda>p. p\<lparr>p_state_flag := p_state_flag p OR SF_MARKED\<rparr>) s);
                             Some (changed + 1, text @ depender_text e s1 rel_str (s_pkgs s1 r) d, s1) } } })"

partial_function (option) what_depends_loop ::
  "'w env \<Rightarrow> depend_type \<Rightarrow> string \<Rightarrow> bool \<Rightarrow> pkg_ref list \<Rightarrow> string \<times> store \<Rightarrow> (string \<times> store) option" where
  "what_depends_loop e t rel_str recursive pkgs ts =
     do { (changed, text, s) \<leftarrow> foldM (mark_if_depends e t rel_str) pkgs (0, ts);
          if changed \<noteq> 0 \<and> recursive then what_depends_loop e t rel_str recursive pkgs (text, s) else Some (text, s) }"

definition relation_text :: "depend_type \<Rightarrow> string option" where
  "relation_text t =
     (case t of DEPEND \<Rightarrow> Some ''depends on'' | CONFLICTS \<Rightarrow> Some ''conflicts with'' | SUGGEST \<Rightarrow> Some ''suggests''
      | RECOMMEND \<Rightarrow> Some ''recommends'' | _ \<Rightarrow> None)"

definition mark_root :: "'w env \<Rightarrow> pkg_ref \<Rightarrow> string \<times> store \<Rightarrow> (string \<times> store) option" where
  "mark_root e r ts =
     (case ts of (text, s) \<Rightarrow>
        if p_state_flag (s_pkgs s r) AND SF_MARKED \<noteq> 0
        then do { s1 \<leftarrow> pkg_mark_provides r s; Some (text @ notice e (''  '' @ fmt_s (p_name (s_pkgs s r)) @ [newline]), s1) }
        else Some ts)"

definition opkg_what_depends_conflicts_cmd ::
  "'w env \<Rightarrow> depend_type \<Rightarrow> bool \<Rightarrow> string list \<Rightarrow> store \<Rightarrow> (int \<times> string \<times> store) option" where
  "opkg_what_depends_conflicts_cmd e what_field_type recursive argv s =
     (case relation_text what_field_type of
        None \<Rightarrow> Some (-1, [], s)
      | Some rel_str \<Rightarrow>
          let pkgs = queried_pkgs e s;
              s1 = fold (\<lambda>arg. pkg_vec_mark_if_matches e arg pkgs) argv (pkg_vec_clear_marks pkgs s)
          in do { (text, s2) \<leftarrow> foldM (mark_root e) pkgs (notice e (''Root set:'' @ [newline]), s1);
                  (text, s3) \<leftarrow> what_depends_loop e what_field_type rel_str recursive pkgs
                                  (text @ notice e (''What '' @ rel_str @ '' root set'' @ [newline]), s2);
                  Some (0, text, s3) })"

section \<open>The table of commands\<close>

text \<open>The name of each command, whether it needs arguments, and the fields it does not read.\<close>

datatype opkg_cmd_fun =
    Cmd_Update | Cmd_Upgrade | Cmd_List | Cmd_List_Installed | Cmd_List_Upgradable | Cmd_List_Changed_Conffiles | Cmd_Info | Cmd_Flag | Cmd_Status | Cmd_Install
  | Cmd_Remove | Cmd_Configure | Cmd_Files | Cmd_Search | Cmd_Download | Cmd_Compare_Versions | Cmd_Print_Architecture | Cmd_Depends | Cmd_Whatdepends
  | Cmd_Whatdependsrec | Cmd_Whatrecommends | Cmd_Whatsuggests | Cmd_Whatprovides | Cmd_Whatreplaces | Cmd_Whatconflicts

definition cmds :: "(string \<times> bool \<times> opkg_cmd_fun \<times> uint) list" where
  "cmds =
     (let ds = PFM_DESCRIPTION OR PFM_SOURCE in
      [(''update'', False, Cmd_Update, ds), (''upgrade'', True, Cmd_Upgrade, ds), (''list'', False, Cmd_List, PFM_SOURCE),
       (''list_installed'', False, Cmd_List_Installed, PFM_SOURCE), (''list-installed'', False, Cmd_List_Installed, PFM_SOURCE),
       (''list_upgradable'', False, Cmd_List_Upgradable, PFM_SOURCE), (''list-upgradable'', False, Cmd_List_Upgradable, PFM_SOURCE),
       (''list_changed_conffiles'', False, Cmd_List_Changed_Conffiles, PFM_SOURCE),
       (''list-changed-conffiles'', False, Cmd_List_Changed_Conffiles, PFM_SOURCE),
       (''info'', False, Cmd_Info, 0), (''flag'', True, Cmd_Flag, ds), (''status'', False, Cmd_Status, ds),
       (''install'', True, Cmd_Install, ds), (''remove'', True, Cmd_Remove, ds), (''configure'', False, Cmd_Configure, ds),
       (''files'', True, Cmd_Files, ds), (''search'', True, Cmd_Search, ds), (''download'', True, Cmd_Download, ds),
       (''compare_versions'', True, Cmd_Compare_Versions, ds), (''compare-versions'', True, Cmd_Compare_Versions, ds),
       (''print-architecture'', False, Cmd_Print_Architecture, ds), (''print_architecture'', False, Cmd_Print_Architecture, ds),
       (''print-installation-architecture'', False, Cmd_Print_Architecture, ds),
       (''print_installation_architecture'', False, Cmd_Print_Architecture, ds),
       (''depends'', True, Cmd_Depends, ds), (''whatdepends'', True, Cmd_Whatdepends, ds),
       (''whatdependsrec'', True, Cmd_Whatdependsrec, ds), (''whatrecommends'', True, Cmd_Whatrecommends, ds),
       (''whatsuggests'', True, Cmd_Whatsuggests, ds), (''whatprovides'', True, Cmd_Whatprovides, ds),
       (''whatreplaces'', True, Cmd_Whatreplaces, ds), (''whatconflicts'', True, Cmd_Whatconflicts, ds)])"

definition opkg_cmd_find :: "string \<Rightarrow> (string \<times> bool \<times> opkg_cmd_fun \<times> uint) option" where
  "opkg_cmd_find name = find (\<lambda>c. strcmp name (fst c) = 0) cmds"

section \<open>What the recursive search finds\<close>

text \<open>What is marked when a dependency on something marked marks the parent and the provided names.\<close>

inductive derived :: "store \<Rightarrow> depend_type \<Rightarrow> pkg_ref list \<Rightarrow> (apkg_ref \<Rightarrow> bool) \<Rightarrow> apkg_ref \<Rightarrow> bool" for s t pkgs R where
  root: "R a \<Longrightarrow> derived s t pkgs R a"
| depends: "r \<in> set pkgs \<Longrightarrow> cdeps_of_type t (s_pkgs s r) = Some cds \<Longrightarrow> cd \<in> set cds \<Longrightarrow>
    d \<in> set (cd_possibilities cd) \<Longrightarrow> derived s t pkgs R (d_pkg d) \<Longrightarrow>
    p_parent (s_pkgs s r) = Some a \<or> (\<exists>as. provided_by_pkg (s_pkgs s r) = Some as \<and> a \<in> set as) \<Longrightarrow>
    derived s t pkgs R a"

text \<open>The stores of the search differ in marks only, and marks are never taken away.\<close>

definition marks_grow :: "store \<Rightarrow> store \<Rightarrow> bool" where
  "marks_grow s s' \<longleftrightarrow>
     (\<forall>r. p_parent (s_pkgs s' r) = p_parent (s_pkgs s r) \<and> provided_by_pkg (s_pkgs s' r) = provided_by_pkg (s_pkgs s r) \<and>
          (\<forall>t. cdeps_of_type t (s_pkgs s' r) = cdeps_of_type t (s_pkgs s r))) \<and>
     (\<forall>a. apkg_marked s a \<longrightarrow> apkg_marked s' a)"

lemma marks_grow_refl: "marks_grow s s"
  by (simp add: marks_grow_def)

lemma marks_grow_trans: "marks_grow s s' \<Longrightarrow> marks_grow s' s'' \<Longrightarrow> marks_grow s s''"
  by (simp add: marks_grow_def)

lemma set_marked_marked: "ap_state_flag (set_marked a) AND SF_MARKED \<noteq> 0"
proof -
  have "(x OR SF_MARKED) AND SF_MARKED = SF_MARKED" for x by (simp add: bit_eq_iff bit_simps)
  moreover have "SF_MARKED \<noteq> 0" by (simp add: SF_MARKED_def)
  ultimately show ?thesis by (simp add: set_marked_def)
qed

lemma mark_one: "apkg_marked (upd_apkg a set_marked s) b \<longleftrightarrow> b = a \<or> apkg_marked s b"
  using set_marked_marked by (simp add: apkg_marked_def upd_apkg_def)

lemma mark_all: "apkg_marked (fold (\<lambda>a. upd_apkg a set_marked) as s) b \<longleftrightarrow> b \<in> set as \<or> apkg_marked s b"
  by (induction as arbitrary: s) (auto simp: mark_one)

lemma mark_all_pkgs: "s_pkgs (fold (\<lambda>a. upd_apkg a set_marked) as s) = s_pkgs s"
  by (induction as arbitrary: s) (simp_all add: upd_apkg_def)

definition relations_ok :: "store \<Rightarrow> depend_type \<Rightarrow> pkg_ref list \<Rightarrow> bool" where
  "relations_ok s t pkgs \<longleftrightarrow> (\<forall>r \<in> set pkgs. p_parent (s_pkgs s r) \<noteq> None \<and> provided_by_pkg (s_pkgs s r) \<noteq> None \<and>
     cdeps_of_type t (s_pkgs s r) \<noteq> None)"

text \<open>A package for which nothing is left to do.\<close>

definition nothing_left :: "store \<Rightarrow> depend_type \<Rightarrow> pkg_ref \<Rightarrow> bool" where
  "nothing_left s t r \<longleftrightarrow> (\<forall>a. p_parent (s_pkgs s r) = Some a \<longrightarrow> apkg_marked s a) \<or>
     (\<forall>cds cd d. cdeps_of_type t (s_pkgs s r) = Some cds \<longrightarrow> cd \<in> set cds \<longrightarrow> d \<in> set (cd_possibilities cd) \<longrightarrow>
        \<not> apkg_marked s (d_pkg d))"

lemma flag_marked_fields:
  "p_parent (p\<lparr>p_state_flag := x\<rparr>) = p_parent p" "provided_by_pkg (p\<lparr>p_state_flag := x\<rparr>) = provided_by_pkg p"
  "cdeps_of_type t (p\<lparr>p_state_flag := x\<rparr>) = cdeps_of_type t p"
  by (simp_all add: provided_by_pkg_def cdeps_of_type_def all_depends_count_def)

lemma mark_if_depends_step:
  assumes "relations_ok s t pkgs" "r \<in> set pkgs"
  shows "\<exists>n tx' s'. mark_if_depends e t rel r (c, tx, s) = Some (c + n, tx', s') \<and> 0 \<le> n \<and> marks_grow s s' \<and> nothing_left s' t r \<and>
    (n = 0 \<longrightarrow> s' = s) \<and> (0 < n \<longrightarrow> (\<exists>a. p_parent (s_pkgs s r) = Some a \<and> \<not> apkg_marked s a \<and> apkg_marked s' a)) \<and>
    (\<forall>a. apkg_marked s' a \<longrightarrow> derived s t pkgs (apkg_marked s) a)"
proof -
  obtain a as cds where r: "p_parent (s_pkgs s r) = Some a" "provided_by_pkg (s_pkgs s r) = Some as"
      "cdeps_of_type t (s_pkgs s r) = Some cds"
    using assms by (auto simp: relations_ok_def)
  have old: "derived s t pkgs (apkg_marked s) b" if "apkg_marked s b" for b using that by (rule derived.root)
  show ?thesis
  proof (cases "apkg_marked s a")
    case True
    then show ?thesis using r old marks_grow_refl by (auto simp: mark_if_depends_def nothing_left_def intro!: exI [of _ 0])
  next
    case False
    show ?thesis
    proof (cases "find (\<lambda>d. apkg_marked s (d_pkg d)) (concat (map cd_possibilities cds))")
      case None
      then have "\<forall>cd \<in> set cds. \<forall>d \<in> set (cd_possibilities cd). \<not> apkg_marked s (d_pkg d)" by (auto simp: find_None_iff)
      then have "nothing_left s t r" using r by (simp add: nothing_left_def)
      moreover have "mark_if_depends e t rel r (c, tx, s) = Some (c + 0, tx, s)"
        using r False None by (simp add: mark_if_depends_def)
      ultimately show ?thesis using old marks_grow_refl by (intro exI [of _ 0]) auto
    next
      case (Some d)
      then obtain cd where d: "cd \<in> set cds" "d \<in> set (cd_possibilities cd)" "apkg_marked s (d_pkg d)"
        by (auto simp: find_Some_iff in_set_conv_nth [symmetric] dest!: nth_mem)
      let ?s0 = "upd_pkg r (\<lambda>p. p\<lparr>p_state_flag := p_state_flag p OR SF_MARKED\<rparr>) s"
      let ?s1 = "fold (\<lambda>a. upd_apkg a set_marked) as (upd_apkg a set_marked ?s0)"
      have pk: "s_pkgs ?s1 = s_pkgs ?s0" by (simp add: mark_all_pkgs upd_apkg_def)
      have m0: "apkg_marked ?s0 b = apkg_marked s b" for b by (simp add: apkg_marked_def upd_pkg_def)
      have m: "apkg_marked ?s1 b \<longleftrightarrow> b \<in> set as \<or> b = a \<or> apkg_marked s b" for b by (simp add: mark_all mark_one m0)
      have same: "p_parent (s_pkgs ?s1 q) = p_parent (s_pkgs s q)" "provided_by_pkg (s_pkgs ?s1 q) = provided_by_pkg (s_pkgs s q)"
          "cdeps_of_type u (s_pkgs ?s1 q) = cdeps_of_type u (s_pkgs s q)" for q u
        unfolding pk by (simp_all add: upd_pkg_def flag_marked_fields)
      have "pkg_mark_provides r ?s0 = Some ?s1"
        using r by (simp add: pkg_mark_provides_def upd_pkg_def flag_marked_fields)
      then have "\<exists>tx'. mark_if_depends e t rel r (c, tx, s) = Some (c + 1, tx', ?s1)"
        using r False Some by (simp add: mark_if_depends_def)
      moreover have "marks_grow s ?s1" using same m by (simp add: marks_grow_def)
      moreover have "nothing_left ?s1 t r" using r(1) m by (simp add: nothing_left_def same)
      moreover have "derived s t pkgs (apkg_marked s) b" if "apkg_marked ?s1 b" for b
      proof (cases "apkg_marked s b")
        case False
        then have "p_parent (s_pkgs s r) = Some b \<or> (\<exists>as. provided_by_pkg (s_pkgs s r) = Some as \<and> b \<in> set as)"
          using that m r by auto
        then show ?thesis by (rule derived.depends [OF assms(2) r(3) d(1,2) derived.root [where R = "apkg_marked s", OF d(3)]])
      qed (rule derived.root)
      ultimately show ?thesis using r(1) False m by (intro exI [of _ 1]) auto
    qed
  qed
qed

lemma derived_grow:
  assumes "marks_grow s s'" "derived s' t pkgs R' a" "\<And>b. R' b \<Longrightarrow> derived s t pkgs R b"
  shows "derived s t pkgs R a"
  using assms(2)
proof induction
  case (depends r cds cd d a)
  then show ?case using assms(1) by (intro derived.depends [of r pkgs t s cds cd d R a]) (auto simp: marks_grow_def)
qed (rule assms(3))

lemma relations_grow: "marks_grow s s' \<Longrightarrow> relations_ok s t pkgs \<Longrightarrow> relations_ok s' t pkgs"
  by (simp add: relations_ok_def marks_grow_def)

definition unmarked_parents :: "store \<Rightarrow> pkg_ref list \<Rightarrow> apkg_ref set" where
  "unmarked_parents s pkgs = {a. \<not> apkg_marked s a \<and> (\<exists>r \<in> set pkgs. p_parent (s_pkgs s r) = Some a)}"

lemma unmarked_parents_finite: "finite (unmarked_parents s pkgs)"
proof -
  have "unmarked_parents s pkgs \<subseteq> set (map (\<lambda>r. the (p_parent (s_pkgs s r))) pkgs)" by (force simp: unmarked_parents_def)
  then show ?thesis by (rule finite_subset) simp
qed

lemma round_spec:
  assumes "relations_ok s t pkgs" "set xs \<subseteq> set pkgs"
  shows "\<exists>n tx' s'. foldM (mark_if_depends e t rel) xs (c, tx, s) = Some (c + n, tx', s') \<and> 0 \<le> n \<and> marks_grow s s' \<and>
    (n = 0 \<longrightarrow> s' = s \<and> (\<forall>r \<in> set xs. nothing_left s t r)) \<and> (0 < n \<longrightarrow> unmarked_parents s' pkgs \<subset> unmarked_parents s pkgs) \<and>
    (\<forall>a. apkg_marked s' a \<longrightarrow> derived s t pkgs (apkg_marked s) a)"
  using assms
proof (induction xs arbitrary: c tx s)
  case Nil
  then show ?case using marks_grow_refl by (auto intro: derived.root intro!: exI [of _ 0])
next
  case (Cons r xs)
  have r: "r \<in> set pkgs" and tail: "set xs \<subseteq> set pkgs" using Cons.prems(2) by simp_all
  obtain n tx1 s1 where 1: "mark_if_depends e t rel r (c, tx, s) = Some (c + n, tx1, s1)" "0 \<le> n" "marks_grow s s1" "nothing_left s1 t r"
      "n = 0 \<longrightarrow> s1 = s" "0 < n \<longrightarrow> (\<exists>a. p_parent (s_pkgs s r) = Some a \<and> \<not> apkg_marked s a \<and> apkg_marked s1 a)"
      "\<forall>a. apkg_marked s1 a \<longrightarrow> derived s t pkgs (apkg_marked s) a"
    using mark_if_depends_step [OF Cons.prems(1) r, where e = e and rel = rel and c = c and tx = tx] by blast
  obtain m tx2 s2 where 2: "foldM (mark_if_depends e t rel) xs (c + n, tx1, s1) = Some (c + n + m, tx2, s2)" "0 \<le> m"
      "marks_grow s1 s2" "m = 0 \<longrightarrow> s2 = s1 \<and> (\<forall>r \<in> set xs. nothing_left s1 t r)"
      "0 < m \<longrightarrow> unmarked_parents s2 pkgs \<subset> unmarked_parents s1 pkgs"
      "\<forall>a. apkg_marked s2 a \<longrightarrow> derived s1 t pkgs (apkg_marked s1) a"
    using Cons.IH [OF relations_grow [OF 1(3) Cons.prems(1)] tail, of "c + n" tx1] by blast
  have sub: "unmarked_parents s1 pkgs \<subseteq> unmarked_parents s pkgs" "unmarked_parents s2 pkgs \<subseteq> unmarked_parents s1 pkgs"
    using 1(3) 2(3) by (auto simp: unmarked_parents_def marks_grow_def)
  have "unmarked_parents s1 pkgs \<subset> unmarked_parents s pkgs" if "0 < n"
    using 1(6) that sub(1) r by (auto simp: unmarked_parents_def)
  then have "0 < n + m \<longrightarrow> unmarked_parents s2 pkgs \<subset> unmarked_parents s pkgs"
    using 1(2) 2(2,5) sub by (cases "0 < n") auto
  moreover have "derived s t pkgs (apkg_marked s) a" if "apkg_marked s2 a" for a
    using derived_grow [OF 1(3), of t pkgs "apkg_marked s1" a "apkg_marked s"] 2(6) 1(7) that by blast
  moreover have "n + m = 0 \<longrightarrow> s2 = s \<and> (\<forall>q \<in> set (r # xs). nothing_left s t q)"
    using 1(2,4,5) 2(2,4) by auto
  ultimately show ?case
    using 1(1,2) 2(1,2) marks_grow_trans [OF 1(3) 2(3)] by (intro exI [of _ "n + m"]) (simp add: add.assoc)
qed

lemma what_depends_loop_closes:
  assumes "relations_ok s t pkgs"
  shows "\<exists>tx' s'. what_depends_loop e t rel True pkgs (tx, s) = Some (tx', s') \<and> marks_grow s s' \<and>
    (\<forall>r \<in> set pkgs. nothing_left s' t r) \<and> (\<forall>a. apkg_marked s' a \<longrightarrow> derived s t pkgs (apkg_marked s) a)"
  using assms
proof (induction "card (unmarked_parents s pkgs)" arbitrary: s tx rule: less_induct)
  case less
  obtain n tx1 s1 where 1: "foldM (mark_if_depends e t rel) pkgs (0, tx, s) = Some (n, tx1, s1)" "0 \<le> n" "marks_grow s s1"
      "n = 0 \<longrightarrow> s1 = s \<and> (\<forall>r \<in> set pkgs. nothing_left s t r)" "0 < n \<longrightarrow> unmarked_parents s1 pkgs \<subset> unmarked_parents s pkgs"
      "\<forall>a. apkg_marked s1 a \<longrightarrow> derived s t pkgs (apkg_marked s) a"
    using round_spec [OF less.prems subset_refl, of e rel 0 tx] by auto
  show ?case
  proof (cases "n = 0")
    case True
    then show ?thesis using 1 by (subst what_depends_loop.simps) simp
  next
    case False
    then have "unmarked_parents s1 pkgs \<subset> unmarked_parents s pkgs" using 1(2,5) by simp
    then have "card (unmarked_parents s1 pkgs) < card (unmarked_parents s pkgs)"
      by (rule psubset_card_mono [OF unmarked_parents_finite])
    from less.hyps [OF this relations_grow [OF 1(3) less.prems], of tx1] obtain tx' s' where
      2: "what_depends_loop e t rel True pkgs (tx1, s1) = Some (tx', s')" "marks_grow s1 s'"
        "\<forall>r \<in> set pkgs. nothing_left s' t r" "\<forall>a. apkg_marked s' a \<longrightarrow> derived s1 t pkgs (apkg_marked s1) a" by blast
    have "derived s t pkgs (apkg_marked s) a" if "apkg_marked s' a" for a
      using derived_grow [OF 1(3), of t pkgs "apkg_marked s1" a "apkg_marked s"] 2(4) 1(6) that by blast
    then show ?thesis
      using 1(1) 2 False marks_grow_trans [OF 1(3) 2(2)] by (subst what_depends_loop.simps) simp
  qed
qed

lemma marked_bit: "(w :: uint) AND SF_MARKED \<noteq> 0 \<longleftrightarrow> bit w 6"
proof -
  have "SF_MARKED = 2 ^ 6" by (simp add: SF_MARKED_def)
  then show ?thesis using and_exp_eq_0_iff_not_bit [of w 6] by simp
qed

lemma bit_set_marked: "bit ((w :: uint) OR SF_MARKED) 6" "\<not> bit (w AND NOT SF_MARKED) 6"
proof -
  have "bit SF_MARKED 6" using marked_bit [of SF_MARKED] by (simp add: SF_MARKED_def)
  then show "bit (w OR SF_MARKED) 6" "\<not> bit (w AND NOT SF_MARKED) 6" by (simp_all add: bit_simps)
qed

definition flags_differ :: "store \<Rightarrow> store \<Rightarrow> bool" where
  "flags_differ s s' \<longleftrightarrow> s_apkgs s' = s_apkgs s \<and> (\<forall>r. \<exists>x. s_pkgs s' r = (s_pkgs s r)\<lparr>p_state_flag := x\<rparr>)"

lemma flags_differ_upd: "flags_differ s (upd_pkg r (\<lambda>p. p\<lparr>p_state_flag := f (p_state_flag p)\<rparr>) s)"
proof -
  have "\<exists>x. p = p\<lparr>p_state_flag := x\<rparr>" for p :: pkg by (intro exI [of _ "p_state_flag p"]) simp
  then show ?thesis by (auto simp: flags_differ_def upd_pkg_def)
qed

lemma flags_differ_trans: "flags_differ s s' \<Longrightarrow> flags_differ s' s'' \<Longrightarrow> flags_differ s s''"
  unfolding flags_differ_def
proof (elim conjE, intro conjI allI)
  fix r assume "\<forall>r. \<exists>x. s_pkgs s' r = (s_pkgs s r)\<lparr>p_state_flag := x\<rparr>" "\<forall>r. \<exists>x. s_pkgs s'' r = (s_pkgs s' r)\<lparr>p_state_flag := x\<rparr>"
  then obtain x y where "s_pkgs s' r = (s_pkgs s r)\<lparr>p_state_flag := x\<rparr>" "s_pkgs s'' r = (s_pkgs s' r)\<lparr>p_state_flag := y\<rparr>" by blast
  then have "s_pkgs s'' r = (s_pkgs s r)\<lparr>p_state_flag := y\<rparr>" by simp
  then show "\<exists>x. s_pkgs s'' r = (s_pkgs s r)\<lparr>p_state_flag := x\<rparr>" by (rule exI)
qed simp

lemma flags_differ_refl: "flags_differ s s"
  unfolding flags_differ_def
proof (intro conjI allI)
  fix r show "\<exists>x. s_pkgs s r = (s_pkgs s r)\<lparr>p_state_flag := x\<rparr>"
    by (rule exI [of _ "p_state_flag (s_pkgs s r)"]) simp
qed simp

lemma flags_differ_same:
  assumes "flags_differ s s'"
  shows "p_parent (s_pkgs s' r) = p_parent (s_pkgs s r)" "provided_by_pkg (s_pkgs s' r) = provided_by_pkg (s_pkgs s r)"
    "cdeps_of_type t (s_pkgs s' r) = cdeps_of_type t (s_pkgs s r)" "p_name (s_pkgs s' r) = p_name (s_pkgs s r)"
    "apkg_marked s' a = apkg_marked s a"
proof -
  obtain x where "s_pkgs s' r = (s_pkgs s r)\<lparr>p_state_flag := x\<rparr>" using assms by (auto simp: flags_differ_def)
  then show "p_parent (s_pkgs s' r) = p_parent (s_pkgs s r)" "provided_by_pkg (s_pkgs s' r) = provided_by_pkg (s_pkgs s r)"
    "cdeps_of_type t (s_pkgs s' r) = cdeps_of_type t (s_pkgs s r)" "p_name (s_pkgs s' r) = p_name (s_pkgs s r)"
    by (simp_all add: flag_marked_fields)
  show "apkg_marked s' a = apkg_marked s a" using assms by (simp add: apkg_marked_def flags_differ_def)
qed

abbreviation flagged :: "store \<Rightarrow> pkg_ref \<Rightarrow> bool" where
  "flagged s r \<equiv> bit (p_state_flag (s_pkgs s r)) 6"

lemma clear_marks_spec:
  "flags_differ s (pkg_vec_clear_marks vec s) \<and> (\<forall>r. flagged (pkg_vec_clear_marks vec s) r \<longleftrightarrow> flagged s r \<and> r \<notin> set vec)"
proof (induction vec arbitrary: s)
  case Nil
  then show ?case using flags_differ_refl by (simp add: pkg_vec_clear_marks_def)
next
  case (Cons r vec)
  let ?s = "upd_pkg r (\<lambda>p. p\<lparr>p_state_flag := p_state_flag p AND NOT SF_MARKED\<rparr>) s"
  have "pkg_vec_clear_marks (r # vec) s = pkg_vec_clear_marks vec ?s" by (simp add: pkg_vec_clear_marks_def)
  moreover have "flagged ?s q \<longleftrightarrow> flagged s q \<and> q \<noteq> r" for q using bit_set_marked(2) by (simp add: upd_pkg_def)
  ultimately show ?case using Cons.IH [of ?s] flags_differ_trans [OF flags_differ_upd] by auto
qed

lemma mark_if_matches_spec:
  "flags_differ s (pkg_vec_mark_if_matches e pat vec s) \<and>
   (\<forall>r. flagged (pkg_vec_mark_if_matches e pat vec s) r \<longleftrightarrow>
     flagged s r \<or> r \<in> set vec \<and> e_fnmatch e pat (fmt_s (p_name (s_pkgs s r))))"
proof (induction vec arbitrary: s)
  case Nil
  then show ?case using flags_differ_refl by (simp add: pkg_vec_mark_if_matches_def)
next
  case (Cons r vec)
  let ?s = "if e_fnmatch e pat (fmt_s (p_name (s_pkgs s r)))
    then upd_pkg r (\<lambda>p. p\<lparr>p_state_flag := p_state_flag p OR SF_MARKED\<rparr>) s else s"
  have "pkg_vec_mark_if_matches e pat (r # vec) s = pkg_vec_mark_if_matches e pat vec ?s"
    by (simp add: pkg_vec_mark_if_matches_def)
  moreover have d: "flags_differ s ?s" using flags_differ_upd flags_differ_refl by auto
  moreover have "flagged ?s q \<longleftrightarrow> flagged s q \<or> q = r \<and> e_fnmatch e pat (fmt_s (p_name (s_pkgs s r)))" for q
    using bit_set_marked(1) by (simp add: upd_pkg_def)
  ultimately show ?case
    using Cons.IH [of ?s] flags_differ_trans [OF d] flags_differ_same(4) [OF d] by auto
qed

definition selected :: "'w env \<Rightarrow> string list \<Rightarrow> store \<Rightarrow> pkg_ref \<Rightarrow> bool" where
  "selected e argv s r \<longleftrightarrow> (\<exists>arg \<in> set argv. e_fnmatch e arg (fmt_s (p_name (s_pkgs s r))))"

lemma root_set_spec:
  "flags_differ s (fold (\<lambda>arg. pkg_vec_mark_if_matches e arg vec) argv s) \<and>
   (\<forall>r. flagged (fold (\<lambda>arg. pkg_vec_mark_if_matches e arg vec) argv s) r \<longleftrightarrow> flagged s r \<or> r \<in> set vec \<and> selected e argv s r)"
proof (induction argv arbitrary: s)
  case Nil
  then show ?case using flags_differ_refl by (simp add: selected_def)
next
  case (Cons arg argv)
  let ?s = "pkg_vec_mark_if_matches e arg vec s"
  have 1: "flags_differ s ?s" "\<forall>r. flagged ?s r \<longleftrightarrow> flagged s r \<or> r \<in> set vec \<and> e_fnmatch e arg (fmt_s (p_name (s_pkgs s r)))"
    using mark_if_matches_spec by blast+
  have "selected e argv ?s r = selected e argv s r" for r by (simp add: selected_def flags_differ_same(4) [OF 1(1)])
  then show ?case using Cons.IH [of ?s] 1 flags_differ_trans [OF 1(1)] by (auto simp: selected_def)
qed

lemma flags_differ_grow: "flags_differ s s' \<Longrightarrow> marks_grow s s'"
  unfolding marks_grow_def using flags_differ_same by blast

definition stands_for :: "store \<Rightarrow> pkg_ref \<Rightarrow> apkg_ref \<Rightarrow> bool" where
  "stands_for s r a \<longleftrightarrow> p_parent (s_pkgs s r) = Some a \<or> (\<exists>as. provided_by_pkg (s_pkgs s r) = Some as \<and> a \<in> set as)"

lemma mark_roots_spec:
  assumes "\<forall>r \<in> set xs. p_parent (s_pkgs s r) \<noteq> None \<and> provided_by_pkg (s_pkgs s r) \<noteq> None"
  shows "\<exists>tx' s'. foldM (mark_root e) xs (tx, s) = Some (tx', s') \<and> s_pkgs s' = s_pkgs s \<and>
    (\<forall>a. apkg_marked s' a \<longleftrightarrow> apkg_marked s a \<or> (\<exists>r \<in> set xs. flagged s r \<and> stands_for s r a))"
  using assms
proof (induction xs arbitrary: tx s)
  case (Cons r xs)
  obtain a as where r: "p_parent (s_pkgs s r) = Some a" "provided_by_pkg (s_pkgs s r) = Some as" using Cons.prems by auto
  let ?s = "if flagged s r then fold (\<lambda>a. upd_apkg a set_marked) as (upd_apkg a set_marked s) else s"
  have pk: "s_pkgs ?s = s_pkgs s" by (simp add: mark_all_pkgs upd_apkg_def)
  have m: "apkg_marked ?s b \<longleftrightarrow> apkg_marked s b \<or> flagged s r \<and> stands_for s r b" for b
    using r by (auto simp: mark_all mark_one stands_for_def)
  obtain tx1 where 1: "mark_root e r (tx, s) = Some (tx1, ?s)"
    using r by (cases "flagged s r") (simp_all add: mark_root_def pkg_mark_provides_def marked_bit)
  have "\<forall>r \<in> set xs. p_parent (s_pkgs ?s r) \<noteq> None \<and> provided_by_pkg (s_pkgs ?s r) \<noteq> None"
    using Cons.prems unfolding pk by simp
  from Cons.IH [OF this, of tx1] obtain tx' s' where
    2: "foldM (mark_root e) xs (tx1, ?s) = Some (tx', s')" "s_pkgs s' = s_pkgs ?s"
      "\<forall>a. apkg_marked s' a \<longleftrightarrow> apkg_marked ?s a \<or> (\<exists>r \<in> set xs. flagged ?s r \<and> stands_for ?s r a)" by blast
  have "stands_for ?s q b = stands_for s q b" "flagged ?s q = flagged s q" for q b unfolding stands_for_def pk by simp_all
  then have "apkg_marked s' b \<longleftrightarrow> apkg_marked s b \<or> (\<exists>r \<in> set (r # xs). flagged s r \<and> stands_for s r b)" for b
    using 2(3) m [of b] by auto
  then show ?case using 1 2(1,2) pk by (intro exI [of _ tx'] exI [of _ s']) simp
qed simp

text \<open>The root set of a query: what the packages chosen by name stand for, and what was marked before.\<close>

definition root_set :: "'w env \<Rightarrow> string list \<Rightarrow> store \<Rightarrow> apkg_ref \<Rightarrow> bool" where
  "root_set e argv s a \<longleftrightarrow> apkg_marked s a \<or> (\<exists>r \<in> set (queried_pkgs e s). selected e argv s r \<and> stands_for s r a)"

text \<open>(C31) The recursive query for what depends on a set of packages (``whatdependsrec'')
  returns, although its loop runs until a round changes nothing: every round that goes on marks the
  name of one more package. When it returns, the root set is marked; every marked
  name was reached from the root set through the dependencies of the queried packages (and what these
  provide), so nothing is reported without a chain of dependencies that leads to the root set; and
  for each queried package the search is complete, its name is marked or none of its dependencies
  of the kind is. Nothing but marks changes, and no mark of a name is taken away.\<close>

theorem whatdepends_recursive_closure:
  assumes "relation_text t = Some rel" "relations_ok s t (queried_pkgs e s)"
  shows "\<exists>out s'. opkg_what_depends_conflicts_cmd e t True argv s = Some (0, out, s') \<and>
    (\<forall>a. root_set e argv s a \<longrightarrow> apkg_marked s' a) \<and>
    (\<forall>a. apkg_marked s' a \<longrightarrow> derived s t (queried_pkgs e s) (root_set e argv s) a) \<and>
    (\<forall>r \<in> set (queried_pkgs e s). nothing_left s' t r) \<and> marks_grow s s'"
proof -
  let ?ps = "queried_pkgs e s"
  let ?s0 = "pkg_vec_clear_marks ?ps s"
  let ?s1 = "fold (\<lambda>arg. pkg_vec_mark_if_matches e arg ?ps) argv ?s0"
  have 0: "flags_differ s ?s0" "\<forall>r. flagged ?s0 r \<longleftrightarrow> flagged s r \<and> r \<notin> set ?ps" using clear_marks_spec by blast+
  have 1: "flags_differ ?s0 ?s1" "\<forall>r. flagged ?s1 r \<longleftrightarrow> flagged ?s0 r \<or> r \<in> set ?ps \<and> selected e argv ?s0 r"
    using root_set_spec by blast+
  have d: "flags_differ s ?s1" by (rule flags_differ_trans [OF 0(1) 1(1)])
  have fl: "flagged ?s1 r \<longleftrightarrow> selected e argv s r" if "r \<in> set ?ps" for r
    using that 0(2) 1(2) by (simp add: selected_def flags_differ_same(4) [OF 0(1)])
  have ok: "relations_ok ?s1 t ?ps" by (rule relations_grow [OF flags_differ_grow [OF d] assms(2)])
  obtain tx2 s2 where 2: "foldM (mark_root e) ?ps (notice e (''Root set:'' @ [newline]), ?s1) = Some (tx2, s2)" "s_pkgs s2 = s_pkgs ?s1"
      "\<forall>a. apkg_marked s2 a \<longleftrightarrow> apkg_marked ?s1 a \<or> (\<exists>r \<in> set ?ps. flagged ?s1 r \<and> stands_for ?s1 r a)"
    using mark_roots_spec [of ?ps ?s1 e "notice e (''Root set:'' @ [newline])"] ok unfolding relations_ok_def by blast
  have g: "marks_grow s s2" using flags_differ_same [OF d] 2(2,3) by (simp add: marks_grow_def)
  have "stands_for ?s1 r a = stands_for s r a" for r a by (simp add: stands_for_def flags_differ_same [OF d])
  then have roots: "apkg_marked s2 a \<longleftrightarrow> root_set e argv s a" for a
    using 2(3) fl by (auto simp: root_set_def flags_differ_same(5) [OF d])
  obtain tx3 s3 where 3: "what_depends_loop e t rel True ?ps (tx2 @ notice e (''What '' @ rel @ '' root set'' @ [newline]), s2) = Some (tx3, s3)"
      "marks_grow s2 s3" "\<forall>r \<in> set ?ps. nothing_left s3 t r" "\<forall>a. apkg_marked s3 a \<longrightarrow> derived s2 t ?ps (apkg_marked s2) a"
    using what_depends_loop_closes [OF relations_grow [OF g assms(2)], of e rel] by blast
  have "derived s t ?ps (root_set e argv s) a" if "apkg_marked s3 a" for a
    using derived_grow [OF g, of t ?ps "apkg_marked s2" a "root_set e argv s"] 3(4) that roots by (blast intro: derived.root)
  moreover have "apkg_marked s3 a" if "root_set e argv s a" for a using that roots 3(2) by (simp add: marks_grow_def)
  moreover have "opkg_what_depends_conflicts_cmd e t True argv s = Some (0, tx3, s3)"
    using 2(1) 3(1) assms(1) by (simp add: opkg_what_depends_conflicts_cmd_def)
  ultimately show ?thesis using 3(3) marks_grow_trans [OF g 3(2)] by blast
qed

definition app_store :: store where
  "app_store = empty_store\<lparr>
     s_pkgs := (\<lambda>r. if r = 0
       then pkg_new\<lparr>p_name := Some ''app'', p_parent := Some 0, p_depends_count := 1,
              p_depends := [\<lparr>cd_type = DEPEND, cd_possibilities = [\<lparr>d_constraint = NONE, d_version = None, d_pkg = 1\<rparr>]\<rparr>]\<rparr>
       else pkg_new\<lparr>p_name := Some ''lib'', p_parent := Some 1\<rparr>),
     s_apkgs := (\<lambda>a. abstract_pkg_new\<lparr>ap_name := Some (if a = 0 then ''app'' else ''lib''), ap_pkgs := Some [0, 1]\<rparr>),
     s_hash := snd (hash_table_insert (hash_table_init [] blank_table 4) ''app'' 0)\<rparr>"

definition query_env :: "unit env" where
  "query_env = idle_env\<lparr>c_query_all := True, e_fnmatch := (\<lambda>pat name. pat = name)\<rparr>"

lemma app_store_queried: "set (queried_pkgs query_env app_store) = {0, 1}"
proof -
  let ?h = "s_hash app_store"
  have h: "ht_ok ?h \<and> ht_map ?h = [''app'' \<mapsto> 0]"
    by (simp add: app_store_def blank_table_def hash_table_init_map hash_table_insert_map)
  have "apkg_pkgs app_store a = [0, 1]" for a by (simp add: app_store_def apkg_pkgs_def)
  then show ?thesis unfolding queried_pkgs_def query_env_def
    using fetch_available_set [OF conjunct1 [OF h]] conjunct2 [OF h] by auto
qed

text \<open>Asked for ``lib'', the query marks ``app'' (name 0), which depends on it.\<close>

theorem whatdepends_recursive_closure_witness:
  "\<exists>out s'. opkg_what_depends_conflicts_cmd query_env DEPEND True [''lib''] app_store = Some (0, out, s') \<and>
     apkg_marked s' 0 \<and> apkg_marked s' 1"
proof -
  let ?ps = "queried_pkgs query_env app_store"
  have pk: "p_parent (s_pkgs app_store 0) = Some 0" "p_parent (s_pkgs app_store 1) = Some 1"
      "provided_by_pkg (s_pkgs app_store r) = Some []"
      "cdeps_of_type DEPEND (s_pkgs app_store 0) = Some [\<lparr>cd_type = DEPEND, cd_possibilities = [\<lparr>d_constraint = NONE, d_version = None, d_pkg = 1\<rparr>]\<rparr>]"
      "cdeps_of_type DEPEND (s_pkgs app_store 1) = Some []" for r
    by (simp_all add: app_store_def pkg_new_def provided_by_pkg_def cdeps_of_type_def all_depends_count_def first_n_def)
  have ok: "relations_ok app_store DEPEND ?ps" unfolding relations_ok_def app_store_queried using pk by simp
  have "selected query_env [''lib''] app_store 1" by (simp add: selected_def query_env_def app_store_def fmt_s_def)
  then have root: "root_set query_env [''lib''] app_store 1"
    using pk(2) unfolding root_set_def app_store_queried stands_for_def by blast
  obtain out s' where s': "opkg_what_depends_conflicts_cmd query_env DEPEND True [''lib''] app_store = Some (0, out, s')"
      "\<forall>a. root_set query_env [''lib''] app_store a \<longrightarrow> apkg_marked s' a" "\<forall>r \<in> set ?ps. nothing_left s' DEPEND r"
      "marks_grow app_store s'"
    using whatdepends_recursive_closure [of DEPEND "''depends on''" app_store query_env "[''lib'']"] ok
    by (auto simp: relation_text_def)
  have deps: "p_parent (s_pkgs s' 0) = Some 0" "cdeps_of_type DEPEND (s_pkgs s' 0) =
      Some [\<lparr>cd_type = DEPEND, cd_possibilities = [\<lparr>d_constraint = NONE, d_version = None, d_pkg = 1\<rparr>]\<rparr>]"
    using s'(4) pk unfolding marks_grow_def by simp_all
  have one: "apkg_marked s' 1" using s'(2) root by blast
  have "nothing_left s' DEPEND 0" using s'(3) app_store_queried by simp
  then have "apkg_marked s' 0" using deps one by (simp add: nothing_left_def)
  then show ?thesis using s'(1) one by blast
qed

end
