(* ===== verification/Opkg_Active_List.thy ===== *)
theory Opkg_Active_List
  imports Opkg_List
begin

text \<open>
  The lists of \<open>libopkg/active_list.c\<close>: an element hangs on a list with its \<open>node\<close>, and on its
  \<open>depend\<close> hang the elements it depends on, whose \<open>depended\<close> points back. They are modelled on the
  heap of \<open>Opkg_List\<close>: the address of an element is that of its \<open>node\<close> and even, its \<open>depend\<close> has the
  next address, and the data of an address is \<open>depended\<close>.
\<close>

section \<open>The operations\<close>

type_synonym active_heap = "addr list_heap"

definition depend_of :: "addr \<Rightarrow> addr" where
  "depend_of p = p + 1"

definition set_depended :: "addr \<Rightarrow> addr option \<Rightarrow> active_heap \<Rightarrow> active_heap" where
  "set_depended p d h = h\<lparr>lh_data := (lh_data h)(p := d)\<rparr>"

definition active_list_init :: "addr \<Rightarrow> active_heap \<Rightarrow> active_heap" where
  "active_list_init p h = set_depended p None (INIT_LIST_HEAD (depend_of p) (INIT_LIST_HEAD p h))"

text \<open>The loop that descends to the first element without dependencies.\<close>

partial_function (option) first_depend :: "addr \<Rightarrow> active_heap \<Rightarrow> addr option" where
  "first_depend elt h =
     (if lh_next h (depend_of elt) = depend_of elt then Some elt
      else first_depend (lh_next h (depend_of elt)) h)"

text \<open>The result is the next element, if there is one; an outer \<open>None\<close> is a loop that does not end.\<close>

definition active_list_next :: "addr option \<Rightarrow> addr option \<Rightarrow> active_heap \<Rightarrow> addr option option" where
  "active_list_next head0 ptr0 h =
     (case head0 of
        None \<Rightarrow> Some None
      | Some head \<Rightarrow>
          let ptr = (case ptr0 of None \<Rightarrow> head | Some p \<Rightarrow> p); elt = lh_next h ptr in
          if elt = head then Some None
          else if (case lh_data h ptr of None \<Rightarrow> False | Some d \<Rightarrow> depend_of d = elt) then Some (lh_data h ptr)
          else map_option Some (first_depend elt h))"

definition active_list_prev :: "addr option \<Rightarrow> addr option \<Rightarrow> active_heap \<Rightarrow> addr option" where
  "active_list_prev head0 ptr0 h =
     (case head0 of
        None \<Rightarrow> None
      | Some head \<Rightarrow>
          let ptr = (case ptr0 of None \<Rightarrow> head | Some p \<Rightarrow> p) in
          if lh_prev h (depend_of ptr) \<noteq> depend_of ptr then Some (lh_prev h (depend_of ptr))
          else
            let prev = (case lh_data h ptr of
                          Some d \<Rightarrow> if d \<noteq> head \<and> depend_of d = lh_prev h ptr then lh_prev h d else lh_prev h ptr
                        | None \<Rightarrow> lh_prev h ptr)
            in if prev = head then None else Some prev)"

definition active_list_add :: "addr \<Rightarrow> addr \<Rightarrow> active_heap \<Rightarrow> active_heap" where
  "active_list_add head elt h = set_depended elt (Some head) (list_add_tail elt head (list_del_init elt h))"

definition active_list_add_depend :: "addr \<Rightarrow> addr \<Rightarrow> active_heap \<Rightarrow> active_heap" where
  "active_list_add_depend elt dep h =
     set_depended dep (Some elt) (list_add_tail dep (depend_of elt) (list_del_init dep h))"

definition active_list_move_node ::
  "addr option \<Rightarrow> addr option \<Rightarrow> addr option \<Rightarrow> active_heap \<Rightarrow> addr option \<times> active_heap" where
  "active_list_move_node old_head new_head elt h =
     (case (old_head, new_head, elt) of
        (Some old, Some new, Some n) \<Rightarrow>
          if old = new then (Some n, h)
          else (active_list_prev (Some old) (Some n) h, active_list_add new n h)
      | _ \<Rightarrow> (None, h))"

text \<open>\<open>list_head_clear\<close> from a position on; the position behind it is taken before it is cleared.\<close>

partial_function (option) clear_from :: "addr \<Rightarrow> addr \<Rightarrow> active_heap \<Rightarrow> active_heap option" where
  "clear_from ptr head h =
     (if ptr = head then Some h
      else
        Option.bind
          (if lh_next h (depend_of ptr) \<noteq> depend_of ptr
           then clear_from (lh_next h (depend_of ptr)) (depend_of ptr) h else Some h)
          (\<lambda>h1. clear_from (lh_next h ptr) head (active_list_init ptr h1)))"

definition list_head_clear :: "addr \<Rightarrow> active_heap \<Rightarrow> active_heap option" where
  "list_head_clear head h = clear_from (lh_next h head) head h"

definition active_list_clear :: "addr \<Rightarrow> active_heap \<Rightarrow> active_heap option" where
  "active_list_clear head h =
     Option.bind (list_head_clear head h) (\<lambda>h1.
     Option.bind (if lh_next h1 (depend_of head) \<noteq> depend_of head then list_head_clear (depend_of head) h1 else Some h1) (\<lambda>h2.
     Some (active_list_init head h2)))"

text \<open>The sorting by insertion; \<open>tmphead\<close> is the address of a head on the stack.\<close>

partial_function (option) insert_position ::
  "(addr \<Rightarrow> addr \<Rightarrow> int) \<Rightarrow> addr \<Rightarrow> addr \<Rightarrow> addr option \<Rightarrow> active_heap \<Rightarrow> addr option option" where
  "insert_position cmp tmphead elt ptr h =
     (case ptr of
        None \<Rightarrow> Some None
      | Some p \<Rightarrow>
          if cmp p elt \<le> 0 then Some (Some p)
          else Option.bind (active_list_next (Some tmphead) (Some p) h) (\<lambda>ptr1. insert_position cmp tmphead elt ptr1 h))"

definition insert_sorted :: "(addr \<Rightarrow> addr \<Rightarrow> int) \<Rightarrow> addr \<Rightarrow> addr \<Rightarrow> addr \<Rightarrow> active_heap \<Rightarrow> active_heap option" where
  "insert_sorted cmp head tmphead elt h =
     Option.bind
       (if lh_next h tmphead = tmphead then Some None
        else Option.bind (active_list_next (Some tmphead) None h) (\<lambda>ptr. insert_position cmp tmphead elt ptr h))
       (\<lambda>ptr. Some (set_depended elt (Some tmphead)
          (snd (active_list_move_node (Some head) (case ptr of None \<Rightarrow> Some tmphead | Some p \<Rightarrow> Some p) (Some elt) h))))"

partial_function (option) sort_loop :: "(addr \<Rightarrow> addr \<Rightarrow> int) \<Rightarrow> addr \<Rightarrow> addr \<Rightarrow> active_heap \<Rightarrow> active_heap option" where
  "sort_loop cmp head tmphead h =
     Option.bind (active_list_next (Some head) None h) (\<lambda>elt.
       case elt of
         None \<Rightarrow> Some h
       | Some n \<Rightarrow> Option.bind (insert_sorted cmp head tmphead n h) (sort_loop cmp head tmphead))"

partial_function (option) move_back :: "addr \<Rightarrow> addr \<Rightarrow> active_heap \<Rightarrow> active_heap option" where
  "move_back head tmphead h =
     (case active_list_prev (Some tmphead) None h of
        None \<Rightarrow> Some h
      | Some p \<Rightarrow> move_back head tmphead (snd (active_list_move_node (Some tmphead) (Some head) (Some p) h)))"

definition active_list_sort :: "(addr \<Rightarrow> addr \<Rightarrow> int) \<Rightarrow> addr \<Rightarrow> addr \<Rightarrow> active_heap \<Rightarrow> active_heap option" where
  "active_list_sort cmp head tmphead h =
     Option.bind (sort_loop cmp head tmphead (active_list_init tmphead h)) (move_back head tmphead)"

section \<open>Trees of elements\<close>

datatype tree = Node addr "tree list"

fun root :: "tree \<Rightarrow> addr" where "root (Node a cs) = a"

text \<open>The elements of a list of trees, those an element depends on in front of it.\<close>

fun post :: "tree list \<Rightarrow> addr list" where
  "post [] = []"
| "post (Node a cs # ts) = post cs @ a # post ts"

text \<open>The elements below each element of the trees hang on its \<open>depend\<close> and point back to it.\<close>

fun hangs :: "active_heap \<Rightarrow> tree list \<Rightarrow> bool" where
  "hangs h [] \<longleftrightarrow> True"
| "hangs h (Node a cs # ts) \<longleftrightarrow>
     dlist h (depend_of a) (map root cs) \<and> (\<forall>c \<in> set cs. lh_data h (root c) = Some a) \<and> hangs h cs \<and> hangs h ts"

definition siblings :: "active_heap \<Rightarrow> addr \<Rightarrow> addr \<Rightarrow> tree list \<Rightarrow> bool" where
  "siblings h q p ts \<longleftrightarrow> dlist h q (map root ts) \<and> (\<forall>t \<in> set ts. lh_data h (root t) = Some p) \<and> hangs h ts"

definition forest :: "active_heap \<Rightarrow> addr \<Rightarrow> tree list \<Rightarrow> bool" where
  "forest h head ts \<longleftrightarrow> siblings h head head ts \<and> lh_data h head = None \<and>
     dlist h (depend_of head) [] \<and> distinct (head # post ts) \<and> (\<forall>a \<in> set (head # post ts). even a)"

lemma post_append [simp]: "post (ts @ us) = post ts @ post us"
  by (induction ts rule: post.induct) auto

lemma hangs_append: "hangs h (ts @ us) \<longleftrightarrow> hangs h ts \<and> hangs h us"
  by (induction ts rule: post.induct) auto

lemma siblings_below: "hangs h (ts @ Node a cs # us) \<Longrightarrow> siblings h (depend_of a) a cs"
  by (simp add: hangs_append siblings_def)

lemma post_roots: "root ` set ts \<subseteq> set (post ts)"
  by (induction ts rule: post.induct) auto

lemma post_in_tree: "a \<in> set (post ts) \<Longrightarrow> \<exists>us r cs vs. ts = us @ Node r cs # vs \<and> (a = r \<or> a \<in> set (post cs))"
proof (induction ts rule: post.induct)
  case (2 r cs ts)
  show ?case
  proof (cases "a \<in> set (post ts)")
    case True
    with 2 obtain us r' cs' vs where "ts = us @ Node r' cs' # vs" "a = r' \<or> a \<in> set (post cs')" by blast
    then show ?thesis by (metis append_Cons)
  next
    case False
    then show ?thesis using 2(3) by (intro exI [of _ "[]"]) auto
  qed
qed simp

lemma tree_list_induct [case_names less]:
  assumes "\<And>ts :: tree list. (\<And>us r cs vs. ts = us @ Node r cs # vs \<Longrightarrow> P cs) \<Longrightarrow> P ts"
  shows "P ts"
proof (induction "size_list size ts" arbitrary: ts rule: less_induct)
  case less
  show ?case
  proof (rule assms)
    fix us r cs vs assume "ts = us @ Node r cs # vs"
    then show "P cs" by (intro less) simp
  qed
qed

text \<open>The descent ends at the first element in the order.\<close>

lemma first_depend_post:
  "hangs h (Node r cs # ts) \<Longrightarrow> first_depend r h = Some (hd (post (Node r cs # ts)))"
proof (induction cs arbitrary: r ts rule: tree_list_induct)
  case (less cs)
  have d: "dlist h (depend_of r) (map root cs)" using less.prems by simp
  show ?case
  proof (cases cs)
    case Nil
    then have "lh_next h (depend_of r) = depend_of r" using d by (simp add: dlist_def)
    then show ?thesis using Nil by (simp add: first_depend.simps)
  next
    case (Cons c cs')
    obtain r' ds where c: "c = Node r' ds" by (cases c)
    have n: "lh_next h (depend_of r) = r'" "r' \<noteq> depend_of r" using d by (auto simp: dlist_def Cons c)
    have "first_depend r' h = Some (hd (post (Node r' ds # cs')))"
      using less.IH [of "[]" r' ds cs' r' cs'] less.prems by (simp add: Cons c)
    moreover have "hd (post (Node r cs # ts)) = hd (post (Node r' ds # cs'))" by (cases "post ds") (simp_all add: Cons c)
    ultimately show ?thesis using n by (simp add: first_depend.simps [of r])
  qed
qed

section \<open>The order of the elements\<close>

lemma split_unique: "a \<notin> set us \<Longrightarrow> a \<notin> set vs \<Longrightarrow> us @ a # vs = xs @ a # ys \<Longrightarrow> xs = us \<and> ys = vs"
  by (induction us arbitrary: xs) (auto simp: Cons_eq_append_conv)

lemma next_of_root:
  assumes "siblings h q p (us @ Node r cs # vs)" "\<forall>a \<in> set (post vs). even a" "head \<notin> set (post vs)" "even p"
    "p = head \<and> q = head \<or> q = depend_of p" "even head"
  shows "active_list_next (Some head) (Some r) h =
    Some (case post vs of b # _ \<Rightarrow> Some b | [] \<Rightarrow> if q = head then None else Some p)"
proof -
  have d: "lh_data h r = Some p" "dlist h q (map root us @ r # map root vs)" "hangs h vs"
    using assms(1) by (auto simp: siblings_def hangs_append)
  have n: "lh_next h r = hd (map root vs @ [q])" using dlist_mem_links(2) [OF d(2)] by simp
  show ?thesis
  proof (cases vs)
    case Nil
    then have "lh_next h r = q" using n by simp
    then show ?thesis using Nil d(1) assms(4-6) by (auto simp: active_list_next_def depend_of_def)
  next
    case (Cons v vs')
    obtain b ds where v: "v = Node b ds" by (cases v)
    have b: "lh_next h r = b" "b \<noteq> head" "even b" using n assms(2,3) by (auto simp: Cons v)
    then have "depend_of p \<noteq> b" using assms(4) by (metis depend_of_def even_plus_one_iff)
    moreover have "first_depend b h = Some (hd (post vs))" using first_depend_post d(3) by (simp add: Cons v)
    moreover have "post vs = hd (post vs) # tl (post vs)" by (simp add: Cons v)
    ultimately show ?thesis using b d(1) by (auto simp: active_list_next_def split: list.splits)
  qed
qed

lemma next_of_siblings:
  assumes "siblings h q p ts" "distinct (post ts)" "\<forall>a \<in> set (post ts). even a" "head \<notin> set (post ts)" "even p"
    "p = head \<and> q = head \<or> q = depend_of p" "even head" "post ts = xs @ a # ys"
  shows "active_list_next (Some head) (Some a) h =
    Some (case ys of b # _ \<Rightarrow> Some b | [] \<Rightarrow> if q = head then None else Some p)"
  using assms
proof (induction ts arbitrary: q p xs ys rule: tree_list_induct)
  case (less ts)
  have "a \<in> set (post ts)" using less.prems(8) by simp
  then obtain us r cs vs where ts: "ts = us @ Node r cs # vs" "a = r \<or> a \<in> set (post cs)"
    using post_in_tree by blast
  have p: "post ts = post us @ post cs @ r # post vs" by (simp add: ts(1) post_append)
  show ?case
  proof (cases "a = r")
    case True
    then have "ys = post vs" using less.prems(2,8) split_unique [of a "post us @ post cs" "post vs" xs ys] by (simp add: p)
    then show ?thesis using next_of_root [of h q p us r cs vs head] less.prems True unfolding ts(1) by (simp add: post_append)
  next
    case False
    then obtain xs' ys' where c: "post cs = xs' @ a # ys'" using ts(2) split_list by metis
    have "ys = ys' @ r # post vs"
      using less.prems(2,8) split_unique [of a "post us @ xs'" "ys' @ r # post vs" xs ys] by (simp add: p c)
    moreover have "siblings h (depend_of r) r cs" using less.prems(1) siblings_below by (auto simp: siblings_def ts(1))
    then have "active_list_next (Some head) (Some a) h =
        Some (case ys' of b # _ \<Rightarrow> Some b | [] \<Rightarrow> if depend_of r = head then None else Some r)"
      using less.prems by (intro less.IH [OF ts(1) _ _ _ _ _ _ _ c]) (auto simp: ts(1) post_append)
    moreover have "depend_of r \<noteq> head" using less.prems(3,7) by (auto simp: ts(1) post_append depend_of_def)
    ultimately show ?thesis by (auto split: list.splits)
  qed
qed

lemma next_of_forest:
  assumes "forest h head ts"
  shows "active_list_next (Some head) None h = Some (case post ts of [] \<Rightarrow> None | b # _ \<Rightarrow> Some b)"
    "post ts = xs @ a # ys \<Longrightarrow>
      active_list_next (Some head) (Some a) h = Some (case ys of [] \<Rightarrow> None | b # _ \<Rightarrow> Some b)"
proof -
  have f: "siblings h head head ts" "distinct (post ts)" "\<forall>a \<in> set (post ts). even a" "head \<notin> set (post ts)" "even head"
    "lh_data h head = None" using assms by (auto simp: forest_def)
  then show "post ts = xs @ a # ys \<Longrightarrow>
      active_list_next (Some head) (Some a) h = Some (case ys of [] \<Rightarrow> None | b # _ \<Rightarrow> Some b)"
    using next_of_siblings [of h head head ts head xs a ys] by (auto split: list.splits)
  show "active_list_next (Some head) None h = Some (case post ts of [] \<Rightarrow> None | b # _ \<Rightarrow> Some b)"
  proof (cases ts)
    case Nil
    then show ?thesis using f(1) by (simp add: siblings_def dlist_def active_list_next_def)
  next
    case (Cons t ts')
    obtain b ds where t: "t = Node b ds" by (cases t)
    have "lh_next h head = b" "b \<noteq> head" using f(1) by (auto simp: siblings_def dlist_def Cons t)
    moreover have "first_depend b h = Some (hd (post ts))"
      using first_depend_post f(1) by (simp add: siblings_def Cons t)
    moreover have "post ts = hd (post ts) # tl (post ts)" by (simp add: Cons t)
    ultimately show ?thesis using f(6) by (auto simp: active_list_next_def split: list.splits)
  qed
qed

section \<open>Adding, removing and clearing\<close>

text \<open>What the addresses of the trees say does not change with other addresses.\<close>

fun below :: "tree list \<Rightarrow> addr list" where
  "below [] = []"
| "below (Node a cs # ts) = post cs @ below ts"

definition same_at :: "active_heap \<Rightarrow> active_heap \<Rightarrow> addr \<Rightarrow> bool" where
  "same_at h h' x \<longleftrightarrow> lh_next h' x = lh_next h x \<and> lh_prev h' x = lh_prev h x \<and> lh_data h' x = lh_data h x"

definition places :: "tree list \<Rightarrow> addr set" where
  "places ts = set (post ts) \<union> depend_of ` set (post ts)"

lemma places_simps [simp]:
  "places [] = {}" "places (Node a cs # ts) = {a, depend_of a} \<union> places cs \<union> places ts"
  "places (ts @ us) = places ts \<union> places us"
  by (auto simp: places_def post_append)

lemma set_post: "set (post ts) = root ` set ts \<union> set (below ts)"
  by (induction ts rule: post.induct) auto

lemma below_roots: "distinct (post ts) \<Longrightarrow> set (below ts) \<inter> root ` set ts = {}"
proof (induction ts rule: post.induct)
  case (2 a cs ts)
  then have "set (below ts) \<inter> root ` set ts = {}" by simp
  moreover have "set (below ts) \<subseteq> set (post ts)" "root ` set ts \<subseteq> set (post ts)" by (auto simp: set_post)
  ultimately show ?case using 2(3) by auto
qed simp

lemma below_not_top:
  assumes "distinct (head # post ts)" "\<forall>a \<in> set (head # post ts). even a"
    "x \<in> insert (depend_of head) (set (below ts) \<union> depend_of ` set (post ts))"
  shows "x \<notin> insert head (root ` set ts)"
proof (cases "x \<in> set (below ts)")
  case True
  then show ?thesis using below_roots [of ts] assms(1) set_post [of ts] by auto
next
  case False
  then obtain b where "even b" "x = b + 1" using assms(2,3) by (auto simp: depend_of_def)
  then have "odd x" by simp
  moreover have "\<forall>y \<in> insert head (root ` set ts). even y" using assms(2) post_roots [of ts] by auto
  ultimately show ?thesis by metis
qed

lemma hangs_frame:
  "hangs h ts \<Longrightarrow> \<forall>x \<in> set (below ts) \<union> depend_of ` set (post ts). same_at h h' x \<Longrightarrow> hangs h' ts"
proof (induction ts rule: post.induct)
  case (2 a cs ts)
  have r: "\<forall>c \<in> set cs. same_at h h' (root c)" using 2(4) post_roots [of cs] by auto
  have "dlist h' (depend_of a) (map root cs)"
    by (rule dlist_frame [of h]) (use 2(3,4) r in \<open>auto simp: same_at_def\<close>)
  moreover have "\<forall>c \<in> set cs. lh_data h' (root c) = Some a" using 2(3) r by (auto simp: same_at_def)
  moreover have "set (below cs) \<subseteq> set (post cs)" by (auto simp: set_post)
  then have "hangs h' cs" using 2(3,4) by (intro 2(1)) auto
  moreover have "hangs h' ts" using 2(3,4) by (intro 2(2)) auto
  ultimately show ?case by simp
qed simp

lemma siblings_frame:
  assumes "siblings h q p ts" "\<forall>x \<in> insert q (places ts). same_at h h' x"
  shows "siblings h' q p ts"
proof -
  have r: "\<forall>t \<in> set ts. same_at h h' (root t)" using assms(2) post_roots [of ts] by (auto simp: places_def)
  have "dlist h' q (map root ts)"
    by (rule dlist_frame [of h]) (use assms r in \<open>auto simp: same_at_def siblings_def\<close>)
  moreover have "hangs h' ts"
    by (rule hangs_frame [of h]) (use assms in \<open>auto simp: siblings_def places_def set_post\<close>)
  ultimately show ?thesis using assms(1) r by (auto simp: siblings_def same_at_def)
qed

lemma forest_frame:
  assumes "forest h head ts" "\<forall>x \<in> {head, depend_of head} \<union> places ts. same_at h h' x"
  shows "forest h' head ts"
proof -
  have "dlist h' (depend_of head) []"
    by (rule dlist_frame [of h]) (use assms in \<open>auto simp: forest_def same_at_def\<close>)
  moreover have "siblings h' head head ts" by (rule siblings_frame [of h]) (use assms in \<open>auto simp: forest_def\<close>)
  ultimately show ?thesis using assms by (auto simp: forest_def same_at_def)
qed

text \<open>An element on no list, with what it depends on.\<close>

definition lone :: "active_heap \<Rightarrow> tree \<Rightarrow> bool" where
  "lone h t \<longleftrightarrow> dlist h (root t) [] \<and> hangs h [t] \<and> distinct (post [t]) \<and> (\<forall>a \<in> set (post [t]). even a)"

lemma lone_frame:
  assumes "lone h t" "\<forall>x \<in> places [t]. same_at h h' x"
  shows "lone h' t"
proof -
  obtain a cs where t: "t = Node a cs" by (cases t)
  have "dlist h' (root t) []" by (rule dlist_frame [of h]) (use assms in \<open>auto simp: lone_def same_at_def t\<close>)
  moreover have "hangs h' [t]" by (rule hangs_frame [of h]) (use assms in \<open>auto simp: lone_def places_def set_post t\<close>)
  ultimately show ?thesis using assms(1) by (simp add: lone_def)
qed

lemma lone_unlinked: "lone h t \<Longrightarrow> list_del_init (root t) h = h"
  by (cases h) (auto simp: lone_def dlist_def list_del_init_def INIT_LIST_HEAD_def del_between_def set_next_def set_prev_def fun_eq_iff)

lemma depend_of_odd [simp]: "even a \<Longrightarrow> even b \<Longrightarrow> depend_of a \<noteq> b" "even a \<Longrightarrow> even b \<Longrightarrow> a \<noteq> depend_of b"
  "depend_of a = depend_of b \<longleftrightarrow> a = b"
  by (auto simp: depend_of_def)

lemma depend_of_notin: "\<forall>b \<in> A. even b \<Longrightarrow> even a \<Longrightarrow> depend_of a \<notin> A"
  using depend_of_odd(1) by blast

lemma data_list_ops [simp]:
  "lh_data (list_add_tail n q h) = lh_data h" "lh_data (list_del_init n h) = lh_data h"
  by (simp_all add: list_add_tail_def add_between_def list_del_init_def INIT_LIST_HEAD_def del_between_def)

lemma set_depended_simps [simp]:
  "lh_next (set_depended p d h) = lh_next h" "lh_prev (set_depended p d h) = lh_prev h"
  "lh_data (set_depended p d h) = (lh_data h)(p := d)"
  by (simp_all add: set_depended_def)

lemma dlist_set_depended [simp]: "dlist (set_depended p d h) q xs = dlist h q xs"
proof -
  have "links (set_depended p d h) a xs b = links h a xs b" for a b by (induction xs arbitrary: a) auto
  then show ?thesis by (simp add: dlist_def)
qed

lemma active_list_add_forest:
  assumes "forest h head ts" "lone h t" "({head, depend_of head} \<union> places ts) \<inter> places [t] = {}"
  shows "forest (active_list_add head (root t) h) head (ts @ [t])"
    "\<forall>x. x \<notin> insert head (root ` set (ts @ [t])) \<longrightarrow> same_at h (active_list_add head (root t) h) x"
proof -
  obtain a cs where t: "t = Node a cs" by (cases t)
  let ?h = "active_list_add head a h"
  have f: "siblings h head head ts" "lh_data h head = None" "dlist h (depend_of head) []"
    "distinct (head # post ts)" "\<forall>x \<in> set (head # post ts). even x" using assms(1) by (auto simp: forest_def)
  have eq: "?h = set_depended a (Some head) (list_add_tail a head h)"
    using lone_unlinked [OF assms(2)] by (simp add: active_list_add_def t)
  have roots: "root ` set ts \<subseteq> set (post ts)" by (rule post_roots)
  have a: "a \<notin> set (head # map root ts)" "even a" using assms(2,3) roots by (auto simp: t places_def lone_def)
  have d: "dlist ?h head (map root ts @ [a])" using f(1) a(1) list_add_tail_dlist [of h head "map root ts" a]
    by (simp add: eq siblings_def)
  have "lh_prev h head = last (head # map root ts)"
    using f(1) links_last [of h head "map root ts" head] by (simp add: siblings_def dlist_def del: last.simps)
  then have "lh_prev h head \<in> set (head # map root ts)" by (metis last_in_set list.distinct(1))
  then show other: "\<forall>x. x \<notin> insert head (root ` set (ts @ [t])) \<longrightarrow> same_at h (active_list_add head (root t) h) x"
    by (auto simp: same_at_def eq t list_add_tail_def add_between_def)
  have dist: "distinct (post (ts @ [t]))" "\<forall>x \<in> set (post (ts @ [t])). even x"
    using f(4,5) assms(2,3) by (auto simp: post_append lone_def t places_def)
  have h: "head \<notin> set (post (ts @ [t]))" using f(4) assms(3) by (auto simp: post_append t places_def)
  have low: "x \<notin> insert head (root ` set (ts @ [t]))"
    if "x \<in> insert (depend_of head) (set (below (ts @ [t])) \<union> depend_of ` set (post (ts @ [t])))" for x
    by (rule below_not_top [OF _ _ that]) (use dist h f(5) in simp_all)
  have "hangs h (ts @ [t])" using f(1) assms(2) by (simp add: hangs_append siblings_def lone_def)
  moreover have "\<forall>x \<in> set (below (ts @ [t])) \<union> depend_of ` set (post (ts @ [t])). same_at h ?h x"
    using low other unfolding t root.simps by blast
  ultimately have "hangs ?h (ts @ [t])" by (rule hangs_frame)
  moreover have "\<forall>u \<in> set (ts @ [t]). lh_data ?h (root u) = Some head" using f(1) by (auto simp: eq t siblings_def)
  ultimately have "siblings ?h head head (ts @ [t])" using d by (simp add: siblings_def t)
  moreover have "dlist ?h (depend_of head) []"
  proof (rule dlist_frame [OF f(3)])
    have "same_at h ?h (depend_of head)" using low [of "depend_of head"] other unfolding t root.simps by blast
    then show "\<forall>x \<in> set [depend_of head]. lh_next ?h x = lh_next h x \<and> lh_prev ?h x = lh_prev h x"
      by (simp add: same_at_def)
  qed
  moreover have "lh_data ?h head = None" using f(2) a by (simp add: eq)
  ultimately show "forest (active_list_add head (root t) h) head (ts @ [t])"
    using dist h f(5) by (simp add: forest_def t)
qed

lemma list_del_init_forest:
  assumes "forest h head (us @ Node n cs # vs)"
  shows "forest (list_del_init n h) head (us @ vs)" "lone (list_del_init n h) (Node n cs)"
    "\<forall>x. x \<notin> insert head (root ` set (us @ Node n cs # vs)) \<longrightarrow> same_at h (list_del_init n h) x"
proof -
  let ?ts = "us @ Node n cs # vs" and ?h = "list_del_init n h"
  have f: "siblings h head head ?ts" "lh_data h head = None" "dlist h (depend_of head) []"
    "distinct (head # post ?ts)" "\<forall>x \<in> set (head # post ?ts). even x" using assms by (auto simp: forest_def)
  have d: "dlist h head (map root us @ n # map root vs)" using f(1) by (simp add: siblings_def)
  have ends: "lh_prev h n \<in> insert head (root ` set ?ts)" "lh_next h n \<in> insert head (root ` set ?ts)"
  proof -
    have "lh_prev h n = last (head # map root us)" "lh_next h n = hd (map root vs @ [head])"
      by (rule dlist_mem_links [OF d])+
    then have "lh_prev h n \<in> set (head # map root us)" "lh_next h n \<in> set (map root vs @ [head])"
      by (metis last_in_set list.distinct(1), metis hd_in_set snoc_eq_iff_butlast)
    then show "lh_prev h n \<in> insert head (root ` set ?ts)" "lh_next h n \<in> insert head (root ` set ?ts)" by auto
  qed
  then have other: "same_at h ?h x" if "x \<notin> insert head (root ` set ?ts)" for x
    using that by (auto simp: same_at_def list_del_init_def INIT_LIST_HEAD_def del_between_def)
  then show "\<forall>x. x \<notin> insert head (root ` set ?ts) \<longrightarrow> same_at h ?h x" by blast
  have low: "same_at h ?h x" if "x \<in> insert (depend_of head) (set (below ?ts) \<union> depend_of ` set (post ?ts))" for x
    by (rule other, rule below_not_top [OF _ _ that]) (use f(4,5) in simp_all)
  have "hangs ?h ?ts" by (rule hangs_frame [of h]) (use f(1) low in \<open>auto simp: siblings_def\<close>)
  then have hg: "hangs ?h (us @ vs)" "hangs ?h [Node n cs]" by (simp_all add: hangs_append)
  have dl: "dlist ?h head (map root (us @ vs))" "dlist ?h n []"
    using list_del_init_dlist [OF d] by simp_all
  have de: "dlist ?h (depend_of head) []"
    by (rule dlist_frame [OF f(3)]) (use low [of "depend_of head"] in \<open>simp add: same_at_def\<close>)
  show "forest ?h head (us @ vs)"
    using hg(1) dl(1) f de by (auto simp: forest_def siblings_def post_append)
  show "lone ?h (Node n cs)" using hg(2) dl(2) f(4,5) by (auto simp: lone_def post_append)
qed

definition blank_elt :: "active_heap \<Rightarrow> addr \<Rightarrow> bool" where
  "blank_elt h a \<longleftrightarrow> dlist h a [] \<and> dlist h (depend_of a) [] \<and> lh_data h a = None"

lemma init_other: "x \<noteq> a \<Longrightarrow> x \<noteq> depend_of a \<Longrightarrow> same_at h (active_list_init a h) x"
  by (simp add: same_at_def active_list_init_def INIT_LIST_HEAD_def)

lemma blank_init: "blank_elt (active_list_init a h) a"
  by (simp add: blank_elt_def active_list_init_def dlist_def INIT_LIST_HEAD_def depend_of_def)

lemma blank_frame: "blank_elt h a \<Longrightarrow> same_at h h' a \<Longrightarrow> same_at h h' (depend_of a) \<Longrightarrow> blank_elt h' a"
  by (simp add: blank_elt_def dlist_def same_at_def)

lemma same_at_trans: "same_at h h' x \<Longrightarrow> same_at h' h'' x \<Longrightarrow> same_at h h'' x"
  by (simp add: same_at_def)

lemma fold_init_other:
  "x \<notin> set as \<Longrightarrow> x \<notin> depend_of ` set as \<Longrightarrow> same_at h (fold active_list_init as h) x"
proof (induction as arbitrary: h)
  case (Cons a as)
  then have "same_at (active_list_init a h) (fold active_list_init as (active_list_init a h)) x" by simp
  then show ?case using same_at_trans [OF init_other [of x a h]] Cons.prems by auto
qed (simp add: same_at_def)

lemma fold_init_blank:
  "\<forall>a \<in> set as. even a \<Longrightarrow> b \<in> set as \<Longrightarrow> blank_elt (fold active_list_init as h) b"
proof (induction as arbitrary: h)
  case (Cons a as)
  have e: "even a" "even b" "\<forall>a \<in> set as. even a" using Cons.prems by auto
  show ?case
  proof (cases "b \<in> set as")
    case False
    then have b: "b = a" using Cons.prems by simp
    have "x \<notin> depend_of ` set as" if "even x" for x using e(3) that by (auto dest: depend_of_odd(2))
    then have "same_at (active_list_init a h) (fold active_list_init as (active_list_init a h)) a"
      using False e b by (intro fold_init_other) auto
    moreover have "depend_of a \<notin> set as" using e by (auto dest: depend_of_odd(1))
    then have "same_at (active_list_init a h) (fold active_list_init as (active_list_init a h)) (depend_of a)"
      using False b by (intro fold_init_other) auto
    ultimately show ?thesis using blank_frame [OF blank_init [of a h]] b by simp
  qed (use Cons e in simp)
qed simp

text \<open>The positions of a list follow each other and end at its head.\<close>

fun nexts :: "active_heap \<Rightarrow> tree list \<Rightarrow> addr \<Rightarrow> bool" where
  "nexts h [] q \<longleftrightarrow> True"
| "nexts h (Node a cs # ts) q \<longleftrightarrow> lh_next h a = hd (map root ts @ [q]) \<and> nexts h ts q"

lemma links_nexts: "links h b (map root ts) q \<Longrightarrow> nexts h ts q"
proof (induction ts arbitrary: b)
  case (Cons t ts)
  then show ?case using links_first [of h "root t" "map root ts" q] by (cases t) auto
qed simp

lemma nexts_frame: "nexts h ts q \<Longrightarrow> \<forall>t \<in> set ts. lh_next h' (root t) = lh_next h (root t) \<Longrightarrow> nexts h' ts q"
  by (induction ts rule: post.induct) auto

lemma clear_from_post:
  assumes "hangs h ts" "nexts h ts q" "distinct (post ts)" "\<forall>a \<in> set (post ts). even a" "q \<notin> set (post ts)"
  shows "clear_from (hd (map root ts @ [q])) q h = Some (fold active_list_init (post ts) h)"
  using assms
proof (induction ts arbitrary: h q rule: post.induct)
  case 1
  then show ?case by (simp add: clear_from.simps)
next
  case (2 a cs ts)
  have d: "dlist h (depend_of a) (map root cs)" using 2(3) by simp
  have "odd (depend_of a)" using 2(6) by (simp add: depend_of_def)
  then have da: "depend_of a \<notin> set (post cs)" using 2(6) by auto
  have first: "lh_next h (depend_of a) = hd (map root cs @ [depend_of a])"
    using links_first [of h "depend_of a" "map root cs" "depend_of a"] d by (simp add: dlist_def)
  let ?h1 = "fold active_list_init (post cs) h"
  let ?h2 = "active_list_init a ?h1"
  have "clear_from (hd (map root cs @ [depend_of a])) (depend_of a) h = Some ?h1"
    using 2(3-6) da d by (intro 2(1)) (auto simp: dlist_def links_nexts)
  then have 1: "(if lh_next h (depend_of a) \<noteq> depend_of a
      then clear_from (lh_next h (depend_of a)) (depend_of a) h else Some h) = Some ?h1"
  proof (cases cs)
    case (Cons c cs')
    then have "hd (map root cs @ [depend_of a]) \<noteq> depend_of a" using d by (auto simp: dlist_def)
    then show ?thesis using \<open>clear_from _ _ _ = Some ?h1\<close> by (simp add: first)
  qed (simp add: first)
  have out: "same_at h ?h2 x" if "x \<in> places ts" for x
  proof -
    have "x \<notin> insert a (set (post cs))" "x \<notin> depend_of ` insert a (set (post cs))"
    proof -
      have e: "\<forall>b \<in> insert a (set (post cs) \<union> set (post ts)). even b" using 2(6) by auto
      have n: "set (post ts) \<inter> insert a (set (post cs)) = {}" using 2(5) by auto
      show "x \<notin> insert a (set (post cs))"
        using that n depend_of_notin [of "insert a (set (post cs))"] e by (auto simp: places_def simp del: insert_iff)
      show "x \<notin> depend_of ` insert a (set (post cs))"
        using that n depend_of_notin [of "set (post ts)"] e by (auto simp: places_def)
    qed
    then show ?thesis using same_at_trans [OF fold_init_other [of x "post cs" h] init_other [of x a ?h1]] by auto
  qed
  have "hangs ?h2 ts" by (rule hangs_frame [of h]) (use 2(3) out in \<open>auto simp: places_def set_post\<close>)
  moreover have "nexts ?h2 ts q"
    by (rule nexts_frame [of h]) (use 2(4) out post_roots [of ts] in \<open>auto simp: places_def same_at_def\<close>)
  ultimately have "clear_from (hd (map root ts @ [q])) q ?h2 = Some (fold active_list_init (post ts) ?h2)"
    using 2(5-7) by (intro 2(2)) auto
  moreover have "lh_next h a = hd (map root ts @ [q])" "a \<noteq> q" using 2(4,7) by auto
  ultimately have "clear_from a q h = Some (fold active_list_init (post ts) ?h2)"
    by (subst clear_from.simps) (simp only: 1 Option.bind.simps if_False)
  then show ?case by simp
qed

lemma active_list_clear_forest:
  assumes "forest h head ts"
  shows "active_list_clear head h = Some (active_list_init head (fold active_list_init (post ts) h))"
proof -
  have f: "siblings h head head ts" "lh_data h head = None" "dlist h (depend_of head) []"
    "distinct (head # post ts)" "\<forall>x \<in> set (head # post ts). even x" using assms by (auto simp: forest_def)
  have "lh_next h head = hd (map root ts @ [head])"
    using f(1) links_first [of h head "map root ts" head] by (simp add: siblings_def dlist_def)
  then have "list_head_clear head h = Some (fold active_list_init (post ts) h)"
    unfolding list_head_clear_def using f by (intro trans [OF _ clear_from_post])
      (auto simp: siblings_def dlist_def links_nexts)
  moreover have "odd (depend_of head)" using f(5) by (simp add: depend_of_def)
  then have "depend_of head \<notin> set (post ts)" using f(5) by auto
  then have "same_at h (fold active_list_init (post ts) h) (depend_of head)"
    using f(4) by (intro fold_init_other) auto
  then have "lh_next (fold active_list_init (post ts) h) (depend_of head) = depend_of head"
    using f(3) by (simp add: same_at_def dlist_def)
  ultimately show ?thesis by (simp add: active_list_clear_def)
qed

section \<open>Flat lists\<close>

definition leaves :: "addr list \<Rightarrow> tree list" where
  "leaves as = map (\<lambda>a. Node a []) as"

lemma leaves_simps [simp]:
  "leaves [] = []" "leaves (a # as) = Node a [] # leaves as" "leaves (as @ bs) = leaves as @ leaves bs"
  "post (leaves as) = as" "map root (leaves as) = as" "root ` set (leaves as) = set as"
proof -
  show "post (leaves as) = as" by (induction as) (simp_all add: leaves_def)
qed (simp_all add: leaves_def image_image comp_def)

lemma prev_of_leaf:
  assumes "forest h head (leaves (us @ n # vs))"
  shows "active_list_prev (Some head) (Some n) h = (if us = [] then None else Some (last us))"
proof -
  have f: "dlist h head (us @ n # vs)" "lh_data h n = Some head" "dlist h (depend_of n) []" "head \<notin> set us"
    using assms by (auto simp: forest_def siblings_def hangs_append post_append)
  then have "lh_prev h n = last (head # us)" using dlist_mem_links(1) by blast
  moreover have "us \<noteq> [] \<Longrightarrow> last us \<noteq> head" using f(4) last_in_set by metis
  ultimately show ?thesis using f by (auto simp: active_list_prev_def dlist_def Let_def)
qed

lemma places_leaves [simp]: "places (leaves as) = set as \<union> depend_of ` set as"
  by (simp add: places_def)

lemma move_leaf:
  assumes "forest h all (leaves (us @ n # vs))" "forest h head (leaves ws)"
    "({all, depend_of all} \<union> places (leaves (us @ n # vs))) \<inter> ({head, depend_of head} \<union> places (leaves ws)) = {}"
  shows "\<exists>h'. active_list_move_node (Some all) (Some head) (Some n) h = (if us = [] then None else Some (last us), h') \<and>
    forest h' all (leaves (us @ vs)) \<and> forest h' head (leaves (ws @ [n])) \<and>
    (\<forall>x. x \<notin> {all, head} \<union> set (us @ n # vs) \<union> set ws \<longrightarrow> same_at h h' x)"
proof -
  let ?h1 = "list_del_init n h" and ?h' = "active_list_add head n h"
  have split: "leaves (us @ n # vs) = leaves us @ Node n [] # leaves vs" by simp
  note del = list_del_init_forest [OF assms(1) [unfolded split]]
  have out: "same_at h ?h1 x" if "x \<notin> {all} \<union> set (us @ n # vs)" for x using del(3) that by (simp add: image_Un)
  have "\<forall>x \<in> {head, depend_of head} \<union> places (leaves ws). same_at h ?h1 x"
    using out assms(3) unfolding places_leaves by blast
  then have ws: "forest ?h1 head (leaves ws)" by (rule forest_frame [OF assms(2)])
  have "?h' = active_list_add head n ?h1" using lone_unlinked [OF del(2)] by (simp add: active_list_add_def)
  then have add: "forest ?h' head (leaves ws @ [Node n []])"
    "\<forall>x. x \<notin> insert head (insert n (set ws)) \<longrightarrow> same_at ?h1 ?h' x"
    using active_list_add_forest [OF ws del(2)] assms(3) by auto
  have d: "distinct (all # us @ n # vs)" "\<forall>a \<in> set (all # us @ n # vs). even a"
    using assms(1) by (auto simp: forest_def)
  have "even head" "\<forall>a \<in> set ws. even a" using assms(2) by (auto simp: forest_def)
  then have "x \<notin> insert head (insert n (set ws))" if "x \<in> {all, depend_of all} \<union> places (leaves (us @ vs))" for x
    using that assms(3) d depend_of_notin [of "insert head (insert n (set ws))"] by (auto simp: places_def)
  then have "\<forall>x \<in> {all, depend_of all} \<union> places (leaves us @ leaves vs). same_at ?h1 ?h' x"
    using add(2) unfolding leaves_simps(3) by blast
  then have "forest ?h' all (leaves us @ leaves vs)" by (rule forest_frame [OF del(1)])
  moreover have "\<forall>x. x \<notin> {all, head} \<union> set (us @ n # vs) \<union> set ws \<longrightarrow> same_at h ?h' x"
  proof (intro allI impI)
    fix x assume "x \<notin> {all, head} \<union> set (us @ n # vs) \<union> set ws"
    then have "same_at h ?h1 x" "same_at ?h1 ?h' x" using out add(2) by auto
    then show "same_at h ?h' x" by (rule same_at_trans)
  qed
  moreover have "all \<noteq> head" using assms(3) by auto
  then have "active_list_move_node (Some all) (Some head) (Some n) h = (if us = [] then None else Some (last us), ?h')"
    using prev_of_leaf [OF assms(1)] by (simp add: active_list_move_node_def)
  ultimately show ?thesis using add(1) by auto
qed

lemma add_blank:
  assumes "forest h head (leaves ws)" "blank_elt h n" "even n" "n \<notin> set (head # ws)"
  shows "forest (active_list_add head n h) head (leaves (ws @ [n]))"
    "\<forall>x. x \<notin> {head, n} \<union> set ws \<longrightarrow> same_at h (active_list_add head n h) x"
proof -
  have l: "lone h (Node n [])" using assms(2,3) by (simp add: lone_def blank_elt_def)
  have "even head" "\<forall>a \<in> set ws. even a" using assms(1) by (auto simp: forest_def)
  then have "({head, depend_of head} \<union> places (leaves ws)) \<inter> places [Node n []] = {}"
    using assms(3,4) by (auto simp: places_def depend_of_def)
  from active_list_add_forest [OF assms(1) l this]
  show "forest (active_list_add head n h) head (leaves (ws @ [n]))"
    "\<forall>x. x \<notin> {head, n} \<union> set ws \<longrightarrow> same_at h (active_list_add head n h) x" by auto
qed

lemma forest_head_init: "even p \<Longrightarrow> forest (active_list_init p h) p []"
  using blank_init [of p h] by (simp add: forest_def siblings_def blank_elt_def)

lemma active_list_clear_blanks:
  assumes "forest h head ts"
  shows "\<exists>h'. active_list_clear head h = Some h' \<and> forest h' head [] \<and> (\<forall>a \<in> set (head # post ts). blank_elt h' a) \<and>
    (\<forall>x. x \<notin> {head, depend_of head} \<union> places ts \<longrightarrow> same_at h h' x)"
proof -
  let ?h1 = "fold active_list_init (post ts) h"
  let ?h' = "active_list_init head ?h1"
  have f: "distinct (head # post ts)" "\<forall>x \<in> set (head # post ts). even x" using assms by (auto simp: forest_def)
  have "blank_elt ?h' a" if "a \<in> set (post ts)" for a
  proof (rule blank_frame [OF fold_init_blank [of "post ts" a h]])
    have e: "even a" "even head" "a \<noteq> head" using f that by auto
    then show "same_at ?h1 ?h' a" "same_at ?h1 ?h' (depend_of a)" by (auto intro!: init_other)
  qed (use f that in auto)
  moreover have "same_at h ?h' x" if "x \<notin> {head, depend_of head} \<union> places ts" for x
    using that by (intro same_at_trans [OF fold_init_other init_other]) (auto simp: places_def)
  moreover have "forest ?h' head []" using f(2) by (intro forest_head_init) simp
  moreover note active_list_clear_forest [OF assms] blank_init [of head ?h1]
  ultimately show ?thesis by auto
qed

text \<open>
  (C34) The traversal of an active list: starting behind the head, \<^const>\<open>active_list_next\<close> visits every
  element once, each behind all the elements that hang on its \<open>depend\<close>, and ends; its descent
  always returns. So a loop over the list meets the elements in post-order, however deep the
  dependencies are nested.
\<close>

theorem active_list_next_postorder:
  assumes "forest h head ts"
  shows "active_list_next (Some head) None h = Some (case post ts of [] \<Rightarrow> None | b # _ \<Rightarrow> Some b) \<and>
    distinct (post ts) \<and>
    (\<forall>xs a ys. post ts = xs @ a # ys \<longrightarrow>
       active_list_next (Some head) (Some a) h = Some (case ys of [] \<Rightarrow> None | b # _ \<Rightarrow> Some b))"
  using next_of_forest [OF assms] assms by (simp add: forest_def)

definition zero_heap :: active_heap where
  "zero_heap = \<lparr>lh_next = (\<lambda>a. a), lh_prev = (\<lambda>a. a), lh_data = (\<lambda>a. None), lh_free = 0\<rparr>"

text \<open>Two elements, the first of which depends on a third.\<close>

theorem active_list_next_postorder_witness:
  "let h = active_list_add_depend 2 6 (active_list_add 0 4 (active_list_add 0 2 zero_heap)) in
   active_list_next (Some 0) None h = Some (Some 6) \<and> active_list_next (Some 0) (Some 6) h = Some (Some 2) \<and>
   active_list_next (Some 0) (Some 2) h = Some (Some 4) \<and> active_list_next (Some 0) (Some 4) h = Some None"
proof -
  let ?h = "active_list_add_depend 2 6 (active_list_add 0 4 (active_list_add 0 2 zero_heap))"
  have "forest ?h 0 [Node 2 [Node 6 []], Node 4 []]"
    by (simp add: forest_def siblings_def dlist_def active_list_add_depend_def active_list_add_def zero_heap_def
        list_add_tail_def add_between_def list_del_init_def INIT_LIST_HEAD_def del_between_def depend_of_def)
  from active_list_next_postorder [OF this]
  have n: "active_list_next (Some 0) None ?h = Some (Some 6)"
    "\<And>xs a ys. [6, 2, 4] = xs @ a # ys \<Longrightarrow>
      active_list_next (Some 0) (Some a) ?h = Some (case ys of [] \<Rightarrow> None | b # _ \<Rightarrow> Some b)"
    by simp_all
  from n(1) n(2) [of "[]" 6 "[2, 4]"] n(2) [of "[6]" 2 "[4]"] n(2) [of "[6, 2]" 4 "[]"] show ?thesis by simp
qed

end
