(* ===== verification/Opkg_Upgrade_List.thy ===== *)
theory Opkg_Upgrade_List
  imports Opkg_Queries Opkg_Active_List
begin

text \<open>
  The packages that can be upgraded: \<open>prepare_upgrade_list\<close> of \<open>libopkg/opkg_upgrade.c\<close>, which moves
  them from one active list to another, and \<open>opkg_list_upgradable_cmd\<close> of \<open>opkg_cmd.c\<close>. The two heads
  have the addresses 0 and 2, the member \<open>list\<close> of a package the address \<open>pkg_elt\<close> of the package.
  Between the commands every package is on no list, as \<open>pkg_init\<close> leaves it.
\<close>

section \<open>The lists\<close>

definition pkg_elt :: "pkg_ref \<Rightarrow> addr" where
  "pkg_elt r = 2 * r + 4"

text \<open>\<open>list_entry(node, pkg_t, list)\<close>\<close>

definition elt_pkg :: "addr \<Rightarrow> pkg_ref" where
  "elt_pkg a = (a - 4) div 2"

definition pkg_hash_check_installed_pkg_helper ::
  "store \<Rightarrow> addr \<Rightarrow> string \<Rightarrow> apkg_ref \<Rightarrow> active_heap \<Rightarrow> active_heap" where
  "pkg_hash_check_installed_pkg_helper s head pkg_name ab_pkg h =
     fold (\<lambda>r h. if is_installed (s_pkgs s r) then active_list_add head (pkg_elt r) h else h) (apkg_pkgs s ab_pkg) h"

definition has_upgrade :: "pkg_ref \<Rightarrow> store \<Rightarrow> (bool \<times> store) option" where
  "has_upgrade r s =
     do { name \<leftarrow> p_name (s_pkgs s r);
          (new, s1) \<leftarrow> pkg_hash_fetch_best_installation_candidate_by_name name s;
          Some (case new of None \<Rightarrow> False
                | Some n \<Rightarrow> pkg_compare_versions (s_pkgs s1 r) (s_pkgs s1 n) < 0, s1) }"

partial_function (option) upgrade_loop ::
  "addr \<Rightarrow> addr \<Rightarrow> addr option \<Rightarrow> store \<times> active_heap \<Rightarrow> (store \<times> active_heap) option" where
  "upgrade_loop all head elt sh =
     (case elt of
        None \<Rightarrow> Some sh
      | Some n \<Rightarrow>
          do { (newer, s1) \<leftarrow> has_upgrade (elt_pkg n) (fst sh);
               let (elt1, h1) = (if newer then active_list_move_node (Some all) (Some head) (Some n) (snd sh) else (Some n, snd sh));
               elt2 \<leftarrow> active_list_next (Some all) elt1 h1;
               upgrade_loop all head elt2 (s1, h1) })"

definition prepare_upgrade_list :: "'w env \<Rightarrow> 'w sys \<times> active_heap \<Rightarrow> (addr \<times> 'w sys \<times> active_heap) option" where
  "prepare_upgrade_list e yh =
     (case yh of (y, h) \<Rightarrow>
        let head = 0; all = 2; h1 = active_list_init all (active_list_init head h) in
        do { y1 \<leftarrow> pkg_info_preinstall_check e y;
             let s = y_store y1;
             let h2 = hash_table_foreach (s_hash s) (pkg_hash_check_installed_pkg_helper s all) h1;
             first \<leftarrow> active_list_next (Some all) (Some all) h2;
             (s1, h3) \<leftarrow> upgrade_loop all head first (s, h2);
             h4 \<leftarrow> active_list_clear all h3;
             Some (head, y1\<lparr>y_store := s1\<rparr>, h4) })"

definition upgrade_line :: "pkg_ref \<Rightarrow> store \<Rightarrow> (string \<times> store) option" where
  "upgrade_line r s =
     do { name \<leftarrow> p_name (s_pkgs s r);
          (new, s1) \<leftarrow> pkg_hash_fetch_best_installation_candidate_by_name name s;
          Some (case new of
                  None \<Rightarrow> []
                | Some n \<Rightarrow> fmt_s (p_name (s_pkgs s1 r)) @ '' - '' @ fmt_s (pkg_version_str_alloc (s_pkgs s1 r)) @ '' - '' @
                            fmt_s (pkg_version_str_alloc (s_pkgs s1 n)) @ [newline], s1) }"

partial_function (option) list_upgradable_loop ::
  "active_heap \<Rightarrow> addr \<Rightarrow> addr option \<Rightarrow> string \<times> store \<Rightarrow> (string \<times> store) option" where
  "list_upgradable_loop h head elt ts =
     (case elt of
        None \<Rightarrow> Some ts
      | Some n \<Rightarrow>
          do { (line, s1) \<leftarrow> upgrade_line (elt_pkg n) (snd ts);
               elt1 \<leftarrow> active_list_next (Some head) (Some n) h;
               list_upgradable_loop h head elt1 (fst ts @ line, s1) })"

definition opkg_list_upgradable_cmd :: "'w env \<Rightarrow> 'w sys \<times> active_heap \<Rightarrow> (string \<times> 'w sys \<times> active_heap) option" where
  "opkg_list_upgradable_cmd e yh =
     do { (head, y1, h1) \<leftarrow> prepare_upgrade_list e yh;
          first \<leftarrow> active_list_next (Some head) (Some head) h1;
          (text, s1) \<leftarrow> list_upgradable_loop h1 head first ([], y_store y1);
          h2 \<leftarrow> active_list_clear head h1;
          Some (text, y1\<lparr>y_store := s1\<rparr>, h2) }"

section \<open>What is listed\<close>

text \<open>The packages with a newer candidate, as a loop over a list.\<close>

fun upgradable :: "pkg_ref list \<Rightarrow> store \<Rightarrow> (pkg_ref list \<times> store) option" where
  "upgradable [] s = Some ([], s)"
| "upgradable (r # rs) s =
     do { (newer, s1) \<leftarrow> has_upgrade r s;
          (us, s2) \<leftarrow> upgradable rs s1;
          Some (if newer then r # us else us, s2) }"

fun upgrade_lines :: "pkg_ref list \<Rightarrow> store \<Rightarrow> (string \<times> store) option" where
  "upgrade_lines [] s = Some ([], s)"
| "upgrade_lines (r # rs) s =
     do { (line, s1) \<leftarrow> upgrade_line r s; (text, s2) \<leftarrow> upgrade_lines rs s1; Some (line @ text, s2) }"

lemma elt_pkg [simp]: "elt_pkg (pkg_elt r) = r"
  by (simp add: elt_pkg_def pkg_elt_def)

lemma pkg_elt_simps [simp]:
  "pkg_elt r = pkg_elt q \<longleftrightarrow> r = q" "even (pkg_elt r)" "pkg_elt r \<noteq> 0" "pkg_elt r \<noteq> 2" "pkg_elt r \<noteq> Suc 0" "pkg_elt r \<noteq> 3"
  "0 \<noteq> pkg_elt r" "2 \<noteq> pkg_elt r" "Suc 0 \<noteq> pkg_elt r"
  by (simp_all add: pkg_elt_def)

lemma not_pkg_elt [simp]: "0 \<notin> pkg_elt ` A" "2 \<notin> pkg_elt ` A" "Suc 0 \<notin> pkg_elt ` A"
  by auto

abbreviation elts :: "pkg_ref list \<Rightarrow> addr list" where
  "elts rs \<equiv> map pkg_elt rs"

lemma heads_apart:
  assumes "set rs \<inter> set us = {}"
  shows "({2, depend_of 2} \<union> places (leaves (elts rs))) \<inter> ({0, depend_of 0} \<union> places (leaves (elts us))) = {}"
proof -
  have "x \<notin> {0, depend_of 0} \<union> places (leaves (elts us))" if x: "x \<in> {2, depend_of 2} \<union> places (leaves (elts rs))" for x
  proof -
    from x consider "x = 2" | "x = 3" | r where "r \<in> set rs" "x = 2 * r + 4 \<or> x = 2 * r + 5"
      by (auto simp: depend_of_def pkg_elt_def)
    then show ?thesis
    proof cases
      case 3
      then show ?thesis using assms by (auto simp: depend_of_def pkg_elt_def; presburger)
    qed (auto simp: depend_of_def pkg_elt_def)
  qed
  then show ?thesis by blast
qed

text \<open>
  The loop moves on from the element it has moved by stepping back first; the packages in front of
  the current one, \<open>us\<close>, stay on the list.
\<close>

lemma upgrade_loop_refines:
  assumes "forest h 2 (leaves (elts (us @ rs)))" "forest h 0 (leaves (elts ws))" "distinct (us @ rs @ ws)"
  shows "\<exists>h'. upgrade_loop 2 0 (case rs of [] \<Rightarrow> None | r # _ \<Rightarrow> Some (pkg_elt r)) (s, h) =
      map_option (\<lambda>(ns, s'). (s', h' ns)) (upgradable rs s) \<and>
    (\<forall>ns s'. upgradable rs s = Some (ns, s') \<longrightarrow>
       forest (h' ns) 0 (leaves (elts (ws @ ns))) \<and>
       (\<exists>vs. forest (h' ns) 2 (leaves (elts vs)) \<and> set vs = set (us @ rs) - set ns) \<and>
       set ns \<subseteq> set rs \<and> (\<forall>x. x \<notin> {0, 2} \<union> pkg_elt ` set (us @ rs @ ws) \<longrightarrow> same_at h (h' ns) x))"
  using assms
proof (induction rs arbitrary: us ws s h)
  case Nil
  then show ?case by (auto simp: upgrade_loop.simps same_at_def intro!: exI [of _ "\<lambda>_. h"])
next
  case (Cons r rs)
  let ?nx = "case rs of [] \<Rightarrow> None | r # _ \<Rightarrow> Some (pkg_elt r)"
  show ?case
  proof (cases "has_upgrade r s")
    case None
    then show ?thesis by (simp add: upgrade_loop.simps)
  next
    case (Some ns1)
    obtain newer s1 where hu: "has_upgrade r s = Some (newer, s1)" using Some by (cases ns1) auto
    have nx: "(case elts rs of [] \<Rightarrow> None | b # _ \<Rightarrow> Some b) = ?nx" by (cases rs) auto
    show ?thesis
    proof (cases newer)
      case True
      have ap: "({2, depend_of 2} \<union> places (leaves (elts us @ pkg_elt r # elts rs))) \<inter>
          ({0, depend_of 0} \<union> places (leaves (elts ws))) = {}"
        using heads_apart [of "us @ r # rs" ws] Cons.prems(3) by auto
      have f2: "forest h 2 (leaves (elts us @ pkg_elt r # elts rs))" using Cons.prems(1) by simp
      obtain h1 where h1: "active_list_move_node (Some 2) (Some 0) (Some (pkg_elt r)) h =
            (if us = [] then None else Some (last (elts us)), h1)"
          "forest h1 2 (leaves (elts us @ elts rs))" "forest h1 0 (leaves (elts ws @ [pkg_elt r]))"
          "\<forall>x. x \<notin> {2, 0} \<union> set (elts us @ pkg_elt r # elts rs) \<union> set (elts ws) \<longrightarrow> same_at h h1 x"
        using move_leaf [OF f2 Cons.prems(2) ap] by auto
      have cont: "active_list_next (Some 2) (if us = [] then None else Some (last (elts us))) h1 = Some ?nx"
      proof (cases us rule: rev_cases)
        case Nil
        then show ?thesis using next_of_forest(1) [OF h1(2)] nx by simp
      next
        case (snoc us' u)
        then show ?thesis using next_of_forest(2) [OF h1(2), of "elts us'" "pkg_elt u" "elts rs"] nx by simp
      qed
      have step: "upgrade_loop 2 0 (Some (pkg_elt r)) (s, h) = upgrade_loop 2 0 ?nx (s1, h1)"
        by (simp add: upgrade_loop.simps [of 2 0 "Some (pkg_elt r)"] hu True h1(1) cont)
      have "forest h1 2 (leaves (elts (us @ rs)))" "forest h1 0 (leaves (elts (ws @ [r])))" using h1(2,3) by simp_all
      from Cons.IH [OF this, of s1] Cons.prems(3) obtain h' where h': "upgrade_loop 2 0 ?nx (s1, h1) =
            map_option (\<lambda>(ns, s'). (s', h' ns)) (upgradable rs s1)"
          "\<forall>ns s'. upgradable rs s1 = Some (ns, s') \<longrightarrow> forest (h' ns) 0 (leaves (elts ((ws @ [r]) @ ns))) \<and>
             (\<exists>vs. forest (h' ns) 2 (leaves (elts vs)) \<and> set vs = set (us @ rs) - set ns) \<and> set ns \<subseteq> set rs \<and>
             (\<forall>x. x \<notin> {0, 2} \<union> pkg_elt ` set (us @ rs @ ws @ [r]) \<longrightarrow> same_at h1 (h' ns) x)" by auto
      have fr: "same_at h (h' ns) x"
        if "upgradable rs s1 = Some (ns, s')" "x \<notin> {0, 2} \<union> pkg_elt ` set (us @ (r # rs) @ ws)" for ns s' x
      proof (rule same_at_trans)
        show "same_at h h1 x" using h1(4) that(2) by (simp add: image_Un)
        show "same_at h1 (h' ns) x" using h'(2) that by (auto simp: image_Un)
      qed
      show ?thesis
      proof (intro exI [of _ "\<lambda>ns. h' (tl ns)"] conjI allI impI)
        show "upgrade_loop 2 0 (case r # rs of [] \<Rightarrow> None | r # _ \<Rightarrow> Some (pkg_elt r)) (s, h) =
            map_option (\<lambda>(ns, s'). (s', h' (tl ns))) (upgradable (r # rs) s)"
          using h'(1) by (simp add: step hu True split: option.splits prod.splits bind_splits)
      qed (use h'(2) fr Cons.prems(3) hu True in \<open>auto split: bind_splits prod.splits\<close>)
    next
      case False
      have "active_list_next (Some 2) (Some (pkg_elt r)) h = Some ?nx"
        using next_of_forest(2) [OF Cons.prems(1), of "elts us" "pkg_elt r" "elts rs"] nx by simp
      then have step: "upgrade_loop 2 0 (Some (pkg_elt r)) (s, h) = upgrade_loop 2 0 ?nx (s1, h)"
        by (simp add: upgrade_loop.simps [of 2 0 "Some (pkg_elt r)"] hu False)
      have "forest h 2 (leaves (elts ((us @ [r]) @ rs)))" using Cons.prems(1) by simp
      from Cons.IH [OF this Cons.prems(2), of s1] Cons.prems(3) obtain h' where
          "upgrade_loop 2 0 ?nx (s1, h) = map_option (\<lambda>(ns, s'). (s', h' ns)) (upgradable rs s1)"
          "\<forall>ns s'. upgradable rs s1 = Some (ns, s') \<longrightarrow> forest (h' ns) 0 (leaves (elts (ws @ ns))) \<and>
             (\<exists>vs. forest (h' ns) 2 (leaves (elts vs)) \<and> set vs = set ((us @ [r]) @ rs) - set ns) \<and> set ns \<subseteq> set rs \<and>
             (\<forall>x. x \<notin> {0, 2} \<union> pkg_elt ` set ((us @ [r]) @ rs @ ws) \<longrightarrow> same_at h (h' ns) x)" by auto
      then show ?thesis
        by (intro exI [of _ h']) (auto simp: step hu False split: bind_splits prod.splits)
    qed
  qed
qed

lemma collected:
  assumes "forest h 2 (leaves (elts us))" "\<forall>r \<in> set rs. blank_elt h (pkg_elt r)" "distinct (us @ rs)"
  shows "forest (fold (\<lambda>r. active_list_add 2 (pkg_elt r)) rs h) 2 (leaves (elts (us @ rs))) \<and>
    (\<forall>x. x \<notin> {2} \<union> pkg_elt ` set (us @ rs) \<longrightarrow> same_at h (fold (\<lambda>r. active_list_add 2 (pkg_elt r)) rs h) x)"
  using assms
proof (induction rs arbitrary: us h)
  case (Cons r rs)
  let ?h1 = "active_list_add 2 (pkg_elt r) h"
  have "pkg_elt r \<notin> set (2 # elts us)" using Cons.prems by auto
  note add = add_blank [OF Cons.prems(1) _ _ this]
  have 1: "forest ?h1 2 (leaves (elts (us @ [r])))" using add(1) Cons.prems(2) by simp
  have o: "\<forall>x. x \<notin> {2, pkg_elt r} \<union> pkg_elt ` set us \<longrightarrow> same_at h ?h1 x" using add(2) Cons.prems(2) by simp
  have 2: "\<forall>q \<in> set rs. blank_elt ?h1 (pkg_elt q)"
  proof
    fix q assume q: "q \<in> set rs"
    have d: "depend_of (pkg_elt q) \<noteq> 2" "depend_of (pkg_elt q) \<noteq> pkg_elt p" for p
      by (simp_all add: depend_of_def pkg_elt_def, presburger)
    have "pkg_elt q \<notin> {2, pkg_elt r} \<union> pkg_elt ` set us" "depend_of (pkg_elt q) \<notin> {2, pkg_elt r} \<union> pkg_elt ` set us"
      using q Cons.prems(3) d by auto
    then show "blank_elt ?h1 (pkg_elt q)" using o q Cons.prems(2) by (intro blank_frame [of h _ ?h1]) auto
  qed
  have IH: "forest (fold (\<lambda>r. active_list_add 2 (pkg_elt r)) rs ?h1) 2 (leaves (elts ((us @ [r]) @ rs)))"
    "\<forall>x. x \<notin> {2} \<union> pkg_elt ` set ((us @ [r]) @ rs) \<longrightarrow> same_at ?h1 (fold (\<lambda>r. active_list_add 2 (pkg_elt r)) rs ?h1) x"
    using Cons.IH [OF 1 2] Cons.prems(3) by simp_all
  have "same_at h (fold (\<lambda>r. active_list_add 2 (pkg_elt r)) rs ?h1) x" if "x \<notin> {2} \<union> pkg_elt ` set (us @ r # rs)" for x
  proof (rule same_at_trans)
    show "same_at h ?h1 x" using o that by (simp add: image_Un)
    show "same_at ?h1 (fold (\<lambda>r. active_list_add 2 (pkg_elt r)) rs ?h1) x" using IH(2) that by simp
  qed
  then show ?case using IH(1) by simp
qed (simp_all add: same_at_def)

lemma fold_helper:
  "fold (\<lambda>(k, v). fold (\<lambda>r h. if P r then g r h else h) (f v)) kvs h =
   fold g (concat (map (\<lambda>(k, v). filter P (f v)) kvs)) h"
proof -
  have "fold (\<lambda>r h. if P r then g r h else h) vec h = fold g (filter P vec) h" for vec h
    by (induction vec arbitrary: h) auto
  then show ?thesis by (induction kvs arbitrary: h) auto
qed

lemma foreach_helper:
  "hash_table_foreach (s_hash s) (pkg_hash_check_installed_pkg_helper s all) h =
   fold (\<lambda>r. active_list_add all (pkg_elt r)) (pkg_hash_fetch_all_installed [] s) h"
proof -
  have "pkg_hash_fetch_all_installed [] s =
      concat (map (\<lambda>(k, v). filter (\<lambda>p. is_installed (s_pkgs s p)) (apkg_pkgs s v)) (concat (map bucket_entries (ht_entries (s_hash s)))))"
    using fold_collect [of "\<lambda>p. is_installed (s_pkgs s p)" "apkg_pkgs s" _ "[]"]
    by (simp add: pkg_hash_fetch_all_installed_def hash_table_foreach_def fold_buckets pkg_vec_insert_def cong: if_cong)
  moreover have "pkg_hash_check_installed_pkg_helper s all =
      (\<lambda>k v. fold (\<lambda>r h. if is_installed (s_pkgs s r) then active_list_add all (pkg_elt r) h else h) (apkg_pkgs s v))"
    by (simp add: fun_eq_iff pkg_hash_check_installed_pkg_helper_def)
  ultimately show ?thesis
    using fold_helper [of "\<lambda>p. is_installed (s_pkgs s p)" "\<lambda>r. active_list_add all (pkg_elt r)" "apkg_pkgs s"]
    by (simp add: hash_table_foreach_def fold_buckets)
qed

lemma list_upgradable_loop_refines:
  assumes "forest h 0 (leaves (elts (us @ rs)))"
  shows "list_upgradable_loop h 0 (case rs of [] \<Rightarrow> None | r # _ \<Rightarrow> Some (pkg_elt r)) (tx, s) =
    map_option (\<lambda>(t, s'). (tx @ t, s')) (upgrade_lines rs s)"
  using assms
proof (induction rs arbitrary: us tx s)
  case Nil
  then show ?case by (simp add: list_upgradable_loop.simps)
next
  case (Cons r rs)
  have "(case elts rs of [] \<Rightarrow> None | b # _ \<Rightarrow> Some b) = (case rs of [] \<Rightarrow> None | r # _ \<Rightarrow> Some (pkg_elt r))"
    by (cases rs) auto
  then have n: "active_list_next (Some 0) (Some (pkg_elt r)) h = Some (case rs of [] \<Rightarrow> None | r # _ \<Rightarrow> Some (pkg_elt r))"
    using next_of_forest(2) [OF Cons.prems, of "elts us" "pkg_elt r" "elts rs"] by simp
  have "forest h 0 (leaves (elts ((us @ [r]) @ rs)))" using Cons.prems by simp
  note IH = Cons.IH [OF this]
  have "list_upgradable_loop h 0 (Some (pkg_elt r)) (tx, s) =
      do { (line, s1) \<leftarrow> upgrade_line r s;
           map_option (\<lambda>(t, s'). ((tx @ line) @ t, s')) (upgrade_lines rs s1) }"
    by (subst list_upgradable_loop.simps) (simp add: n IH cong: option.case_cong)
  then show ?case by (auto split: bind_splits option.splits prod.splits)
qed

definition all_blank :: "active_heap \<Rightarrow> bool" where
  "all_blank h \<longleftrightarrow> (\<forall>r. blank_elt h (pkg_elt r))"

lemma pkg_not_head [simp]:
  "depend_of (pkg_elt r) \<noteq> 0" "depend_of (pkg_elt r) \<noteq> 2" "depend_of (pkg_elt r) \<noteq> depend_of 0" "depend_of (pkg_elt r) \<noteq> depend_of 2"
  "pkg_elt r \<noteq> depend_of 0" "pkg_elt r \<noteq> depend_of 2" "depend_of (pkg_elt r) \<noteq> pkg_elt q"
  by (simp_all add: depend_of_def pkg_elt_def, presburger)

lemma depend_of_image [simp]: "depend_of (pkg_elt r) \<in> depend_of ` A \<longleftrightarrow> pkg_elt r \<in> A"
  by auto

text \<open>An element that has been cleared, or was not touched, is on no list.\<close>

lemma blank_after:
  assumes "\<forall>x. x \<notin> B \<longrightarrow> same_at h h' x" "blank_elt h (pkg_elt r)" "pkg_elt r \<notin> B" "depend_of (pkg_elt r) \<notin> B"
  shows "blank_elt h' (pkg_elt r)"
  using assms by (intro blank_frame [of h _ h']) auto

lemma prepared:
  assumes "all_blank h" "pkg_info_preinstall_check e y = Some y1"
    "distinct (pkg_hash_fetch_all_installed [] (y_store y1))"
  shows "case upgradable (pkg_hash_fetch_all_installed [] (y_store y1)) (y_store y1) of
      None \<Rightarrow> prepare_upgrade_list e (y, h) = None
    | Some (us, s1) \<Rightarrow> \<exists>h'. prepare_upgrade_list e (y, h) = Some (0, y1\<lparr>y_store := s1\<rparr>, h') \<and>
        forest h' 0 (leaves (elts us)) \<and> (\<forall>r. r \<notin> set us \<longrightarrow> blank_elt h' (pkg_elt r))"
proof -
  let ?s = "y_store y1" and ?rs = "pkg_hash_fetch_all_installed [] (y_store y1)"
  let ?h0 = "active_list_init 0 h"
  let ?h1 = "active_list_init 2 ?h0"
  let ?h2 = "fold (\<lambda>r. active_list_add 2 (pkg_elt r)) ?rs ?h1"
  have o1: "\<forall>x. x \<notin> {0, depend_of 0, 2, depend_of 2} \<longrightarrow> same_at h ?h1 x"
    using same_at_trans [OF init_other [of _ 0 h] init_other [of _ 2 ?h0]] by auto
  have b1: "blank_elt ?h1 (pkg_elt r)" for r
    by (rule blank_after [OF o1]) (use assms(1) in \<open>auto simp: all_blank_def\<close>)
  have f0: "forest ?h1 0 []"
    by (rule forest_frame [OF forest_head_init [of 0 h]]) (auto simp: depend_of_def intro: init_other)
  have f2: "forest ?h1 2 (leaves (elts []))" using forest_head_init [of 2 ?h0] by simp
  have c: "forest ?h2 2 (leaves (elts ?rs))" "\<forall>x. x \<notin> {2} \<union> pkg_elt ` set ?rs \<longrightarrow> same_at ?h1 ?h2 x"
    using collected [OF f2, of ?rs] b1 assms(3) by auto
  have "forest ?h2 0 []"
    by (rule forest_frame [OF f0]) (use c(2) in \<open>auto simp: depend_of_def [of 0]\<close>)
  then have f0: "forest ?h2 0 (leaves (elts []))" by simp
  have c2: "forest ?h2 2 (leaves (elts ([] @ ?rs)))" using c(1) by simp
  have "(case elts ?rs of [] \<Rightarrow> None | b # _ \<Rightarrow> Some b) = (case ?rs of [] \<Rightarrow> None | r # _ \<Rightarrow> Some (pkg_elt r))"
    by (cases ?rs) auto
  then have first: "active_list_next (Some 2) (Some 2) ?h2 = Some (case ?rs of [] \<Rightarrow> None | r # _ \<Rightarrow> Some (pkg_elt r))"
    using next_of_forest(1) [OF c(1)] by (simp add: active_list_next_def)
  obtain h3 where loop: "upgrade_loop 2 0 (case ?rs of [] \<Rightarrow> None | r # _ \<Rightarrow> Some (pkg_elt r)) (?s, ?h2) =
        map_option (\<lambda>(ns, s'). (s', h3 ns)) (upgradable ?rs ?s)"
    and after: "\<forall>ns s'. upgradable ?rs ?s = Some (ns, s') \<longrightarrow> forest (h3 ns) 0 (leaves (elts ns)) \<and>
        (\<exists>vs. forest (h3 ns) 2 (leaves (elts vs)) \<and> set vs = set ?rs - set ns) \<and> set ns \<subseteq> set ?rs \<and>
        (\<forall>x. x \<notin> {0, 2} \<union> pkg_elt ` set ?rs \<longrightarrow> same_at ?h2 (h3 ns) x)"
    using upgrade_loop_refines [OF c2 f0, of ?s] assms(3) by auto
  have prep: "prepare_upgrade_list e (y, h) =
      do { (s1, h3) \<leftarrow> map_option (\<lambda>(ns, s'). (s', h3 ns)) (upgradable ?rs ?s);
           h4 \<leftarrow> active_list_clear 2 h3;
           Some (0, y1\<lparr>y_store := s1\<rparr>, h4) }"
    unfolding prepare_upgrade_list_def Let_def prod.case assms(2) Option.bind.simps foreach_helper first loop ..
  show ?thesis
  proof (cases "upgradable ?rs ?s")
    case None
    then show ?thesis by (simp add: prep)
  next
    case (Some p)
    obtain us s1 where us: "upgradable ?rs ?s = Some (us, s1)" using Some by (cases p) auto
    obtain vs where a: "forest (h3 us) 0 (leaves (elts us))" "forest (h3 us) 2 (leaves (elts vs))" "set vs = set ?rs - set us"
        "set us \<subseteq> set ?rs" "\<forall>x. x \<notin> {0, 2} \<union> pkg_elt ` set ?rs \<longrightarrow> same_at ?h2 (h3 us) x"
      using after us by blast
    obtain h4 where h4: "active_list_clear 2 (h3 us) = Some h4" "\<forall>a \<in> set (2 # post (leaves (elts vs))). blank_elt h4 a"
        "\<forall>x. x \<notin> {2, depend_of 2} \<union> places (leaves (elts vs)) \<longrightarrow> same_at (h3 us) h4 x"
      using active_list_clear_blanks [OF a(2)] by blast
    have "forest h4 0 (leaves (elts us))"
    proof (rule forest_frame [OF a(1)], rule ballI)
      fix x assume "x \<in> {0, depend_of 0} \<union> places (leaves (elts us))"
      then have "x \<notin> {2, depend_of 2} \<union> places (leaves (elts vs))" using heads_apart [of vs us] a(3) by blast
      then show "same_at (h3 us) h4 x" using h4(3) by blast
    qed
    moreover have "blank_elt h4 (pkg_elt r)" if "r \<notin> set us" for r
    proof (cases "r \<in> set ?rs")
      case True
      then show ?thesis using h4(2) a(3) that by auto
    next
      case False
      have "blank_elt ?h2 (pkg_elt r)" by (rule blank_after [OF c(2)]) (use b1 False in auto)
      then have "blank_elt (h3 us) (pkg_elt r)" by (rule blank_after [OF a(5)]) (use False in auto)
      moreover have "r \<notin> set vs" using False a(3) by blast
      ultimately show ?thesis by (intro blank_after [OF h4(3) \<open>blank_elt (h3 us) (pkg_elt r)\<close>]) auto
    qed
    ultimately show ?thesis using us h4(1) by (simp add: prep)
  qed
qed

text \<open>
  (C30) What \<open>list_upgradable\<close> prints: on lists of pointers that are rearranged while they are
  traversed, the command computes what a loop over the installed packages computes: one line for
  each package with a newer candidate, in the order of the table, with the effects of the lookups
  on the table in the same order. Where that loop reads a null pointer the command does too, and
  otherwise it returns and leaves every package on no list, ready for the next command.
\<close>

theorem list_upgradable_exact:
  assumes "all_blank h" "pkg_info_preinstall_check e y = Some y1"
    "distinct (pkg_hash_fetch_all_installed [] (y_store y1))"
  shows "case do { (us, s1) \<leftarrow> upgradable (pkg_hash_fetch_all_installed [] (y_store y1)) (y_store y1); upgrade_lines us s1 } of
      None \<Rightarrow> opkg_list_upgradable_cmd e (y, h) = None
    | Some (out, s2) \<Rightarrow> \<exists>h'. opkg_list_upgradable_cmd e (y, h) = Some (out, y1\<lparr>y_store := s2\<rparr>, h') \<and> all_blank h'"
proof (cases "upgradable (pkg_hash_fetch_all_installed [] (y_store y1)) (y_store y1)")
  case None
  then show ?thesis using prepared [OF assms] by (simp add: opkg_list_upgradable_cmd_def)
next
  case (Some p)
  obtain us s1 h1 where us: "p = (us, s1)" "prepare_upgrade_list e (y, h) = Some (0, y1\<lparr>y_store := s1\<rparr>, h1)"
      "forest h1 0 (leaves (elts us))" "\<forall>r. r \<notin> set us \<longrightarrow> blank_elt h1 (pkg_elt r)"
    using prepared [OF assms] Some by (auto split: prod.splits)
  have "(case elts us of [] \<Rightarrow> None | b # _ \<Rightarrow> Some b) = (case us of [] \<Rightarrow> None | r # _ \<Rightarrow> Some (pkg_elt r))"
    by (cases us) auto
  then have first: "active_list_next (Some 0) (Some 0) h1 = Some (case us of [] \<Rightarrow> None | r # _ \<Rightarrow> Some (pkg_elt r))"
    using next_of_forest(1) [OF us(3)] by (simp add: active_list_next_def)
  have loop: "list_upgradable_loop h1 0 (case us of [] \<Rightarrow> None | r # _ \<Rightarrow> Some (pkg_elt r)) ([], s1) = upgrade_lines us s1"
    using list_upgradable_loop_refines [of h1 "[]" us "[]" s1] us(3) by (simp add: option.map_id)
  obtain h2 where h2: "active_list_clear 0 h1 = Some h2" "\<forall>a \<in> set (0 # post (leaves (elts us))). blank_elt h2 a"
      "\<forall>x. x \<notin> {0, depend_of 0} \<union> places (leaves (elts us)) \<longrightarrow> same_at h1 h2 x"
    using active_list_clear_blanks [OF us(3)] by blast
  have "blank_elt h2 (pkg_elt r)" for r
  proof (cases "r \<in> set us")
    case False
    show ?thesis by (rule blank_after [OF h2(3)]) (use us(4) False in auto)
  qed (use h2(2) in auto)
  then have "all_blank h2" by (simp add: all_blank_def)
  then show ?thesis
    using Some us(1) by (simp add: opkg_list_upgradable_cmd_def us(2) first loop h2(1) split: option.splits prod.splits)
qed

text \<open>A table with one installed package.\<close>

lemma one_pkg_installed:
  assumes "s_hash s = s_hash one_pkg_store" "s_apkgs s = s_apkgs one_pkg_store"
  shows "distinct (pkg_hash_fetch_all_installed [] s)" "set (pkg_hash_fetch_all_installed [] s) \<subseteq> {0}"
proof -
  let ?h = "s_hash one_pkg_store"
  have h: "ht_ok ?h \<and> ht_map ?h = [''uci'' \<mapsto> 0]"
    by (simp add: one_pkg_store_def blank_table_def hash_table_init_map hash_table_insert_map)
  have k: "distinct (map fst (ht_list ?h))" "map_of (ht_list ?h) = [''uci'' \<mapsto> 0]"
    using ht_list_keys [OF conjunct1 [OF h]] h by simp_all
  have keys: "set (map fst (ht_list ?h)) = {''uci''}" using k(2) dom_map_of_conv_image_fst [of "ht_list ?h"] by simp
  then have "length (map fst (ht_list ?h)) = 1" using distinct_card [OF k(1)] by simp
  then obtain q where "ht_list ?h = [q]" by (cases "ht_list ?h") auto
  then obtain v where v: "ht_list ?h = [(''uci'', v)]" using keys by (cases q) simp
  have "apkg_pkgs s v = [0]" by (simp add: assms one_pkg_store_def apkg_pkgs_def)
  then have "pkg_hash_fetch_all_installed [] s = filter (\<lambda>p. is_installed (s_pkgs s p)) [0]"
    using fold_collect [of "\<lambda>p. is_installed (s_pkgs s p)" "apkg_pkgs s" "ht_list ?h" "[]"] v
    by (simp add: pkg_hash_fetch_all_installed_def hash_table_foreach_def fold_buckets ht_list_def pkg_vec_insert_def
        assms cong: if_cong)
  then show "distinct (pkg_hash_fetch_all_installed [] s)" "set (pkg_hash_fetch_all_installed [] s) \<subseteq> {0}"
    by (simp_all split: if_splits)
qed

lemma one_pkg_preinstall:
  "\<exists>y1. pkg_info_preinstall_check idle_env ((example_sys ())\<lparr>y_store := one_pkg_store\<rparr>) = Some y1 \<and>
     s_hash (y_store y1) = s_hash one_pkg_store \<and> s_apkgs (y_store y1) = s_apkgs one_pkg_store"
proof -
  let ?rs = "pkg_hash_fetch_all_installed [] one_pkg_store"
  have e: "e_file idle_env f w = None" for f w by (simp add: idle_env_def)
  have p: "p_installed_files (s_pkgs one_pkg_store 0) = None" "p_dest (s_pkgs one_pkg_store 0) = Some 0"
    "p_state_status (s_pkgs one_pkg_store 0) \<noteq> SS_NOT_INSTALLED"
    by (simp_all add: one_pkg_store_def example_status_pkg_def pkg_new_def)
  have "?rs = [] \<or> ?rs = [0]"
    using one_pkg_installed [of one_pkg_store] by (cases ?rs; cases "tl ?rs"; auto)
  then show ?thesis
    by (auto simp: pkg_info_preinstall_check_def pkg_get_installed_files_def files_from_list_def Let_def e
        set_installed_files_def mod_pkg_def dest_of_def upd_pkg_def p claim_files_def pkg_free_installed_files_def)
qed

theorem list_upgradable_exact_witness:
  "\<exists>y1. case do { (us, s1) \<leftarrow> upgradable (pkg_hash_fetch_all_installed [] (y_store y1)) (y_store y1); upgrade_lines us s1 } of
      None \<Rightarrow> opkg_list_upgradable_cmd idle_env ((example_sys ())\<lparr>y_store := one_pkg_store\<rparr>, zero_heap) = None
    | Some (out, s2) \<Rightarrow> \<exists>h'. opkg_list_upgradable_cmd idle_env ((example_sys ())\<lparr>y_store := one_pkg_store\<rparr>, zero_heap) =
        Some (out, y1\<lparr>y_store := s2\<rparr>, h') \<and> all_blank h'"
proof -
  obtain y1 where y1: "pkg_info_preinstall_check idle_env ((example_sys ())\<lparr>y_store := one_pkg_store\<rparr>) = Some y1"
      "s_hash (y_store y1) = s_hash one_pkg_store" "s_apkgs (y_store y1) = s_apkgs one_pkg_store"
    using one_pkg_preinstall by blast
  have "all_blank zero_heap" by (simp add: all_blank_def blank_elt_def dlist_def zero_heap_def)
  from list_upgradable_exact [OF this y1(1) one_pkg_installed(1) [OF y1(2,3)]] show ?thesis by blast
qed

end
