(* ===== verification/Opkg_Numbers.thy ===== *)
theory Opkg_Numbers
  imports Opkg_Parse_Util
begin

text \<open>
  The conversions of numbers with a fixed base that the readers of release files, modes and archives
  call: \<open>strtol\<close> with base 8 or 10 and \<open>atoi\<close>.
\<close>

definition strtol_in :: "nat \<Rightarrow> string \<Rightarrow> int" where
  "strtol_in b s0 =
     (let s = dropWhile isspace s0;
          neg = (s \<noteq> [] \<and> hd s = CHR ''-'');
          t = (if s \<noteq> [] \<and> (hd s = CHR ''-'' \<or> hd s = CHR ''+'') then tl s else s);
          n = int (num_in b (takeWhile (\<lambda>c. digit_of c < b) t))
      in max (- (2 ^ 63)) (min (2 ^ 63 - 1) (if neg then - n else n)))"

definition atoi :: "string \<Rightarrow> int" where
  "atoi s = sint (word_of_int (strtol_in 10 s) :: 32 word)"

lemma strtol_in_show_nat:
  assumes "n < 2 ^ 63"
  shows "strtol_in 10 (show_nat n) = int n"
proof -
  have d: "list_all isdigit (show_nat n)" "show_nat n \<noteq> []" using show_nat_digits by auto
  then obtain x xs where x: "show_nat n = x # xs" "isdigit x" by (cases "show_nat n") auto
  have t: "takeWhile (\<lambda>c. digit_of c < 10) (show_nat n) = show_nat n"
    using d(1) isdigit_digit_of(1) by (simp add: takeWhile_eq_all_conv list_all_iff)
  have "num_in 10 (show_nat n) = n" using num_in_10 [OF d(1)] by simp
  moreover have "dropWhile isspace (show_nat n) = show_nat n" "hd (show_nat n) \<noteq> CHR ''-''" "hd (show_nat n) \<noteq> CHR ''+''"
    using x by auto
  ultimately show ?thesis using assms by (simp add: strtol_in_def t)
qed

lemma atoi_show_nat:
  assumes "n < 2 ^ 31"
  shows "atoi (show_nat n) = int n"
proof -
  have "sint (word_of_int (int n) :: 32 word) = int n" using assms by transfer (simp add: signed_take_bit_int_eq_self)
  moreover have "strtol_in 10 (show_nat n) = int n" using assms by (intro strtol_in_show_nat) simp
  ultimately show ?thesis by (simp add: atoi_def)
qed

end
