(* ===== verification/Opkg_Release.thy ===== *)
theory Opkg_Release
  imports Opkg_Numbers Opkg_Load
begin

text \<open>
  Distributions: the release file that lists the architectures and components of a distribution and
  the digests of its package lists (\<open>libopkg/release_parse.c\<close>, \<open>cksum_list.c\<close>), the download and
  the verification of the lists (\<open>release.c\<close>), \<open>opkg_update_cmd\<close> of \<open>opkg_cmd.c\<close>, and the
  distributions in \<open>pkg_hash_load_feeds\<close> of \<open>pkg_hash.c\<close>.

  An array of texts is the empty list where the pointer is null: \<open>parse_list\<close> gives a null pointer
  for a blank text and at least one item otherwise.
\<close>

section \<open>Release files\<close>

record cksum =
  ck_name :: string
  ck_value :: string
  ck_size :: int

record release =
  rl_name :: "string option"
  rl_datestring :: "string option"
  rl_architectures :: "string list"
  rl_components :: "string list"
  rl_md5sums :: "cksum list option"
  rl_complist :: "string list"

definition release_init :: release where
  "release_init = \<lparr>rl_name = None, rl_datestring = None, rl_architectures = [], rl_components = [],
     rl_md5sums = None, rl_complist = []\<rparr>"

text \<open>The items behind the third are not looked at; fewer than three are read past their end.\<close>

definition cksum_init :: "string list \<Rightarrow> cksum option" where
  "cksum_init items =
     (case items of v # s # n # _ \<Rightarrow> Some \<lparr>ck_name = n, ck_value = v, ck_size = atoi s\<rparr> | _ \<Rightarrow> None)"

definition cksum_list_append :: "cksum list \<Rightarrow> string list \<Rightarrow> cksum list option" where
  "cksum_list_append list itemlist = map_option (\<lambda>c. list @ [c]) (cksum_init itemlist)"

definition cksum_list_find :: "cksum list \<Rightarrow> string \<Rightarrow> cksum option" where
  "cksum_list_find list name = find (\<lambda>c. strcmp (ck_name c) name = 0) list"

text \<open>
  The state is the release and the static flag \<open>reading_md5sums\<close>; the second result tells the
  reader to stop.
\<close>

definition release_parse_line :: "release \<times> bool \<Rightarrow> string \<Rightarrow> ((release \<times> bool) \<times> bool) option" where
  "release_parse_line st line =
     (case st of (r, reading) \<Rightarrow>
        let c = (case line of [] \<Rightarrow> CHR 0x00 | x # _ \<Rightarrow> x) in
        if c = CHR ''A'' then
          (if is_field ''Architectures'' line
           then map_option (\<lambda>v. ((r\<lparr>rl_architectures := v\<rparr>, False), False)) (parse_list line CHR '' '' False)
           else Some ((r, False), False))
        else if c = CHR ''C'' then
          (if is_field ''Codename'' line
           then map_option (\<lambda>v. ((r\<lparr>rl_name := Some v\<rparr>, False), False)) (parse_simple ''Codename'' line)
           else if is_field ''Components'' line
           then map_option (\<lambda>v. ((r\<lparr>rl_components := v\<rparr>, False), False)) (parse_list line CHR '' '' False)
           else Some ((r, False), False))
        else if c = CHR ''D'' then
          (if is_field ''Date'' line
           then map_option (\<lambda>v. ((r\<lparr>rl_datestring := Some v\<rparr>, False), False)) (parse_simple ''Date'' line)
           else Some ((r, False), False))
        else if c = CHR ''M'' then
          (if is_field ''MD5sum'' line
           then Some ((if rl_md5sums r = None then r\<lparr>rl_md5sums := Some []\<rparr> else r, True), False)
           else Some ((r, False), False))
        else if c = CHR '' '' then
          (if reading
           then do { md5sums \<leftarrow> rl_md5sums r;
                     items \<leftarrow> parse_list line CHR '' '' True;
                     l \<leftarrow> cksum_list_append md5sums items;
                     Some ((r\<lparr>rl_md5sums := Some l\<rparr>, True), False) }
           else Some ((r, False), False))
        else Some ((r, False), True))"

definition release_callback :: "(release \<times> bool) option \<Rightarrow> string \<Rightarrow> (release \<times> bool) option \<times> bool" where
  "release_callback it line =
     (case Option.bind it (\<lambda>st. release_parse_line st line) of
        None \<Rightarrow> (None, True) | Some (st, stop) \<Rightarrow> (Some st, stop))"

definition release_parse_from_stream :: "release \<times> bool \<Rightarrow> stream \<Rightarrow> int \<times> (release \<times> bool) option" where
  "release_parse_from_stream st fp =
     (case parse_from_stream_nomalloc release_callback (Some st) fp 4096 of (ret, it, _) \<Rightarrow> (ret, it))"

text \<open>An array that is null holds every item.\<close>

definition item_in_list :: "string \<Rightarrow> string list \<Rightarrow> bool" where
  "item_in_list component complist \<longleftrightarrow> complist = [] \<or> list_ex (\<lambda>c. strcmp component c = 0) complist"

definition release_arch_supported :: "'w env \<Rightarrow> release \<Rightarrow> bool" where
  "release_arch_supported e r \<longleftrightarrow> list_ex (\<lambda>(name, val). item_in_list name (rl_architectures r)) (c_arch_list e)"

definition release_init_from_file :: "'w env \<Rightarrow> string \<Rightarrow> bool \<Rightarrow> 'w \<Rightarrow> (int \<times> release \<times> bool) option" where
  "release_init_from_file e filename reading w =
     (case e_file e filename w of
        None \<Rightarrow> Some (-1, release_init, reading)
      | Some (text, err) \<Rightarrow>
          (case release_parse_from_stream (release_init, reading) \<lparr>st_data = text, st_error = err\<rparr> of
             (ret, it) \<Rightarrow>
               do { (r, reading1) \<leftarrow> it;
                    Some (if ret = 0 \<and> \<not> release_arch_supported e r then -1 else ret, r, reading1) }))"

definition release_comps_supported :: "release \<Rightarrow> string option \<Rightarrow> (bool \<times> release) option" where
  "release_comps_supported r complist =
     (case complist of
        None \<Rightarrow> Some (True, r)
      | Some c \<Rightarrow>
          do { comps \<leftarrow> parse_list c CHR '' '' True;
               Some (list_all (\<lambda>c. item_in_list c (rl_components r)) comps, r\<lparr>rl_complist := comps\<rparr>) })"

definition release_comps :: "release \<Rightarrow> string list" where
  "release_comps r = (if rl_complist r = [] then rl_components r else rl_complist r)"

section \<open>Verification and download of the lists\<close>

definition release_get_size :: "release \<Rightarrow> string \<Rightarrow> int option" where
  "release_get_size r pathname =
     (case rl_md5sums r of None \<Rightarrow> Some (-1) | Some l \<Rightarrow> map_option ck_size (cksum_list_find l pathname))"

definition release_get_md5 :: "release \<Rightarrow> string \<Rightarrow> string option option" where
  "release_get_md5 r pathname =
     (case rl_md5sums r of None \<Rightarrow> Some None | Some l \<Rightarrow> map_option (\<lambda>c. Some (ck_value c)) (cksum_list_find l pathname))"

definition release_verify_file :: "'w env \<Rightarrow> release \<Rightarrow> string \<Rightarrow> string \<Rightarrow> 'w \<Rightarrow> int option" where
  "release_verify_file e r file_name pathname w =
     do { md5 \<leftarrow> release_get_md5 r pathname;
          case e_size e file_name w of
            None \<Rightarrow> Some 1
          | Some sz \<Rightarrow>
              do { listed \<leftarrow> release_get_size r pathname;
                   if sz \<noteq> listed then Some 1
                   else
                     (case md5 of
                        None \<Rightarrow> Some 0
                      | Some m \<Rightarrow> do { f_md5 \<leftarrow> md5_of e file_name w; Some (if strcmp m f_md5 \<noteq> 0 then 1 else 0) }) } }"

text \<open>
  One component and architecture. The error is the one that the architecture before left, 0 for the
  first.
\<close>

definition download_gz :: "'w env \<Rightarrow> release \<Rightarrow> string \<Rightarrow> string \<Rightarrow> string \<Rightarrow> string \<Rightarrow> 'w \<Rightarrow> (int \<times> 'w) option" where
  "download_gz e r url tmp_file_name list_file_name subpath w =
     (case opkg_download e url tmp_file_name w of
        (err, w1) \<Rightarrow>
          if err \<noteq> 0 then Some (err, w1)
          else do { err \<leftarrow> release_verify_file e r tmp_file_name subpath w1;
                    if err \<noteq> 0 then Some (err, snd (e_unlink e list_file_name (snd (e_unlink e tmp_file_name w1))))
                    else (case e_unzip e tmp_file_name list_file_name w1 of
                            (ret, w2) \<Rightarrow> Some (case ret of None \<Rightarrow> 1 | Some err \<Rightarrow> err, snd (e_unlink e tmp_file_name w2))) })"

definition download_plain :: "'w env \<Rightarrow> release \<Rightarrow> string \<Rightarrow> string \<Rightarrow> string \<Rightarrow> string \<Rightarrow> 'w \<Rightarrow> (int \<times> 'w) option" where
  "download_plain e r url tmp_file_name list_file_name subpath w =
     (case opkg_download e url list_file_name w of
        (err, w1) \<Rightarrow>
          if err \<noteq> 0 then Some (err, w1)
          else do { err \<leftarrow> release_verify_file e r tmp_file_name subpath w1;
                    Some (err, if err \<noteq> 0 then snd (e_unlink e list_file_name w1) else w1) })"

definition release_download_arch ::
  "'w env \<Rightarrow> release \<Rightarrow> pkg_src \<Rightarrow> string \<Rightarrow> string \<Rightarrow> string \<Rightarrow> string \<Rightarrow> int \<times> 'w \<Rightarrow> (int \<times> 'w) option" where
  "release_download_arch e r dist dir tmpdir component arch ew =
     (let prefix = sr_value dist @ ''/dists/'' @ sr_name dist @ ''/'' @ component @ ''/binary'';
          list_file_name = dir @ ''/'' @ sr_name dist @ ''-'' @ component @ ''-'' @ arch;
          tmp_file_name = tmpdir @ ''/'' @ sr_name dist @ ''-'' @ component @ ''-'' @ arch @ ''.gz'';
          subpath = component @ ''/binary-'' @ arch @ ''/'' @ (if sr_gzip dist then ''Packages.gz'' else ''Packages'')
      in do { (err, w1) \<leftarrow>
                (if sr_gzip dist
                 then download_gz e r (prefix @ ''-'' @ arch @ ''/Packages.gz'') tmp_file_name list_file_name subpath (snd ew)
                 else Some ew);
              if err \<noteq> 0
              then download_plain e r (prefix @ ''-'' @ arch @ ''/Packages'') tmp_file_name list_file_name subpath w1
              else Some (err, w1) })"

definition release_download :: "'w env \<Rightarrow> release \<Rightarrow> pkg_src \<Rightarrow> string \<Rightarrow> string \<Rightarrow> 'w \<Rightarrow> (int \<times> 'w) option" where
  "release_download e r dist dir tmpdir w =
     foldM (\<lambda>component (ret, w).
       do { (err, w1) \<leftarrow> foldM (release_download_arch e r dist dir tmpdir component) (map fst (c_arch_list e)) (0, w);
            Some (if err \<noteq> 0 then 1 else ret, w1) }) (release_comps r) (0, w)"

section \<open>The command \<open>update\<close>\<close>

text \<open>The state of the loops: the failures so far, the static flag of the reader, and the world.\<close>

definition update_dist ::
  "'w env \<Rightarrow> string \<Rightarrow> string \<Rightarrow> pkg_src \<Rightarrow> int \<times> bool \<times> 'w \<Rightarrow> (int \<times> bool \<times> 'w) option" where
  "update_dist e dir tmp src st =
     (case st of (failures, reading, w) \<Rightarrow>
        let url = sr_value src @ ''/dists/'' @ sr_name src @ ''/Release'';
            list_file_name = dir @ ''/'' @ sr_name src
        in case opkg_download e url list_file_name w of
             (err, w1) \<Rightarrow>
               if err \<noteq> 0 then Some (failures + 1, reading, w1)
               else
                 do { (err, r, reading1) \<leftarrow> release_init_from_file e list_file_name reading w1;
                      (err, w2) \<leftarrow>
                        (if err \<noteq> 0 then Some (err, w1)
                         else do { (ok, r1) \<leftarrow> release_comps_supported r (sr_extra_data src);
                                   if \<not> ok then Some (-1, w1) else release_download e r1 src dir tmp w1 });
                      Some (if err \<noteq> 0 then (failures + 1, reading1, snd (e_unlink e list_file_name w2))
                            else (failures, reading1, w2)) })"

definition update_src :: "'w env \<Rightarrow> string \<Rightarrow> string \<Rightarrow> pkg_src \<Rightarrow> int \<times> 'w \<Rightarrow> int \<times> 'w" where
  "update_src e dir tmp src st =
     (case st of (failures, w) \<Rightarrow>
        if sr_extra_data src \<noteq> None \<and> sr_extra_data src \<noteq> Some ''__dummy__ '' then (failures, w)
        else
          let packages = (if sr_gzip src then ''Packages.gz'' else ''Packages'');
              url = sr_value src @ ''/'' @
                (case sr_extra_data src of None \<Rightarrow> packages | Some x \<Rightarrow> x @ ''/'' @ packages);
              list_file_name = dir @ ''/'' @ sr_name src;
              tmp_file_name = tmp @ ''/'' @ sr_name src @ ''.gz'';
              (err, w2) =
                (if sr_gzip src
                 then (case opkg_download e url tmp_file_name w of
                         (err, w1) \<Rightarrow>
                           if err \<noteq> 0 then (err, w1)
                           else (case e_unzip e tmp_file_name list_file_name w1 of
                                   (ret, w2) \<Rightarrow> (if ret = None then 1 else 0, snd (e_unlink e tmp_file_name w2))))
                 else opkg_download e url list_file_name w)
          in (if err \<noteq> 0 then failures + 1 else failures, w2))"

definition opkg_update_cmd :: "'w env \<Rightarrow> bool \<Rightarrow> 'w \<Rightarrow> (int \<times> bool \<times> 'w) option" where
  "opkg_update_cmd e reading w =
     (let dir = lists_dir e;
          made = (if file_is_dir e dir w then (0, w) else if file_exists e dir w then (-1, w) else e_mkdir_hier e dir w)
      in case made of (err, w1) \<Rightarrow>
         if err \<noteq> 0 then Some (-1, reading, w1)
         else
           (case e_mkdtemp e (c_tmp_dir e @ ''/update-XXXXXX'') w1 of
              (None, w2) \<Rightarrow> Some (-1, reading, w2)
            | (Some tmp, w2) \<Rightarrow>
                do { (failures, reading1, w3) \<leftarrow>
                       foldM (update_dist e dir tmp) (map (c_src e) (c_dist_src_list e)) (0, reading, w2);
                     let (failures, w4) = fold (update_src e dir tmp) (map (c_src e) (c_pkg_src_list e)) (failures, w3);
                     Some (failures, reading1, snd (e_rmdir e tmp w4)) }))"

section \<open>Loading the lists of distributions\<close>

text \<open>
  The lists of a distribution are loaded from a source of their own, \<open>subdist\<close>, which is allocated
  and freed again; every list is also entered into the configured sources, from which it is then
  loaded once more. The state has the configuration, the address of the next source, the sources
  of which at least the name has been freed, and the flag of the reader of release files. What is
  freed keeps its last value here.
\<close>

record 'w feed_state =
  fd_env :: "'w env"
  fd_next_src :: src_ref
  fd_freed :: "src_ref list"
  fd_reading :: bool
  fd_load :: load_state

definition set_src :: "src_ref \<Rightarrow> pkg_src \<Rightarrow> 'w env \<Rightarrow> 'w env" where
  "set_src r src e = e\<lparr>c_src := (c_src e)(r := src)\<rparr>"

definition pkg_src_list_append :: "pkg_src \<Rightarrow> 'w feed_state \<Rightarrow> 'w feed_state" where
  "pkg_src_list_append src f =
     (let r = fd_next_src f; e = set_src r src (fd_env f)
      in f\<lparr>fd_env := e\<lparr>c_pkg_src_list := c_pkg_src_list e @ [r]\<rparr>, fd_next_src := r + 1\<rparr>)"

text \<open>The first result is the error; it leaves the loops.\<close>

definition dist_hash_add_from_file ::
  "string \<Rightarrow> src_ref \<Rightarrow> 'w \<Rightarrow> string \<Rightarrow> int \<times> 'w feed_state \<Rightarrow> (int \<times> 'w feed_state) option" where
  "dist_hash_add_from_file dir r w arch st =
     (case st of (err, f) \<Rightarrow>
        let dist = c_src (fd_env f) r;
            subname = sr_name dist @ ''-'' @ arch;
            list_file = dir @ ''/'' @ subname
        in if err \<noteq> 0 \<or> \<not> file_exists (fd_env f) list_file w then Some st
           else do { (err, l) \<leftarrow> pkg_hash_add_from_file (fd_env f) list_file (Some r) None False w (fd_load f);
                     let f1 = f\<lparr>fd_load := l\<rparr>;
                     Some (if err \<noteq> 0 then (-1, f1)
                           else (0, pkg_src_list_append \<lparr>sr_name = subname, sr_value = sr_value dist,
                                      sr_extra_data = Some ''__dummy__'', sr_gzip = False\<rparr> f1)) })"

definition load_component ::
  "string \<Rightarrow> pkg_src \<Rightarrow> src_ref \<Rightarrow> 'w \<Rightarrow> string \<Rightarrow> int \<times> 'w feed_state \<Rightarrow> (int \<times> 'w feed_state) option" where
  "load_component dir src r w component st =
     (case st of (err, f) \<Rightarrow>
        if err \<noteq> 0 then Some st
        else foldM (dist_hash_add_from_file dir r w) (map fst (c_arch_list (fd_env f)))
               (0, f\<lparr>fd_env := set_src r (src\<lparr>sr_name := sr_name src @ ''-'' @ component\<rparr>) (fd_env f)\<rparr>))"

text \<open>Without components the name that is freed is still that of the distribution itself.\<close>

definition load_dist :: "string \<Rightarrow> 'w \<Rightarrow> src_ref \<Rightarrow> int \<times> 'w feed_state \<Rightarrow> (int \<times> 'w feed_state) option" where
  "load_dist dir w d st =
     (case st of (err, f) \<Rightarrow>
        let src = c_src (fd_env f) d; list_file = dir @ ''/'' @ sr_name src
        in if err \<noteq> 0 \<or> \<not> file_exists (fd_env f) list_file w then Some st
           else
             do { (err, rel, reading) \<leftarrow> release_init_from_file (fd_env f) list_file (fd_reading f) w;
                  let f1 = f\<lparr>fd_reading := reading\<rparr>;
                  if err \<noteq> 0 then Some (-1, f1)
                  else
                    let comps = release_comps rel; r = fd_next_src f1;
                        f2 = f1\<lparr>fd_env := set_src r src (fd_env f1), fd_next_src := r + 1\<rparr>
                    in do { (err, f3) \<leftarrow> foldM (load_component dir src r w) comps (0, f2);
                            Some (err, f3\<lparr>fd_freed := fd_freed f3 @ (if comps = [] then [d, r] else [r])\<rparr>) } })"

definition pkg_hash_load_feeds :: "'w \<Rightarrow> 'w feed_state \<Rightarrow> (int \<times> 'w feed_state) option" where
  "pkg_hash_load_feeds w f =
     do { (err, f1) \<leftarrow> foldM (load_dist (lists_dir (fd_env f)) w) (c_dist_src_list (fd_env f)) (0, f);
          if err \<noteq> 0 then Some (-1, f1)
          else do { (err, l) \<leftarrow> load_pkg_src_list (fd_env f1) w (fd_load f1);
                    Some (err, f1\<lparr>fd_load := l\<rparr>) } }"

section \<open>A release file is read as it was written\<close>

text \<open>Words with one or more spaces in front of each.\<close>

definition spaced_words :: "(nat \<times> string) list \<Rightarrow> string" where
  "spaced_words xs = concat (map (\<lambda>(n, x). replicate (Suc n) CHR '' '' @ x) xs)"

definition spaceless :: "string \<Rightarrow> bool" where
  "spaceless x \<longleftrightarrow> x \<noteq> [] \<and> list_all (\<lambda>c. \<not> isspace c) x"

lemma isspace_blank [simp]: "isspace CHR '' ''"
  by (simp add: isspace_def is_space_def cval_def)

lemma spaceless_no_blank: "spaceless x \<Longrightarrow> CHR '' '' \<notin> set x"
  by (auto simp: spaceless_def list_all_iff)

lemma dropWhile_pad: "spaceless x \<Longrightarrow> dropWhile isspace (replicate n CHR '' '' @ x @ s) = x @ s"
  by (induction n) (cases x; auto simp: spaceless_def)+

lemma parse_list_loop_padded:
  assumes "spaceless x" "\<forall>(n, y) \<in> set xs. spaceless y"
  shows "parse_list_loop CHR '' '' (replicate n CHR '' '' @ x @ spaced_words xs) = x # map snd xs"
  using assms
proof (induction xs arbitrary: n x)
  case Nil
  have x: "CHR '' '' \<notin> set x" "x \<noteq> []" using Nil spaceless_no_blank by (auto simp: spaceless_def)
  have d: "dropWhile isspace (replicate n CHR '' '' @ x) = x" using dropWhile_pad [of x n "[]"] Nil by simp
  have t: "takeWhile (\<lambda>c. c \<noteq> CHR '' '') x = x" "dropWhile (\<lambda>c. c \<noteq> CHR '' '') x = []"
    using x(1) by (auto simp: takeWhile_eq_all_conv dropWhile_eq_Nil_conv)
  have "parse_list_loop CHR '' '' [] = []" by (simp add: parse_list_loop.simps)
  then show ?case
    using x by (subst parse_list_loop.simps) (simp add: spaced_words_def d t Let_def)
next
  case (Cons a xs)
  obtain m y where a: "a = (m, y)" by (cases a)
  have x: "CHR '' '' \<notin> set x" "x \<noteq> []" using Cons.prems spaceless_no_blank by (auto simp: spaceless_def)
  let ?r = "CHR '' '' # replicate m CHR '' '' @ y @ spaced_words xs"
  have p: "spaced_words (a # xs) = ?r" by (simp add: spaced_words_def a)
  have d: "dropWhile isspace (replicate n CHR '' '' @ x @ ?r) = x @ ?r" using dropWhile_pad Cons.prems(1) by blast
  have t: "takeWhile (\<lambda>c. c \<noteq> CHR '' '') (x @ ?r) = x" "dropWhile (\<lambda>c. c \<noteq> CHR '' '') (x @ ?r) = ?r"
    using x(1) by (auto simp: takeWhile_append dropWhile_append)
  have e: "trim_end x = x"
    using Cons.prems(1) by (intro trim_end_trimmed) (auto simp: spaceless_def list_all_iff)
  have "parse_list_loop CHR '' '' (replicate m CHR '' '' @ y @ spaced_words xs) = y # map snd xs"
    using Cons.prems by (intro Cons.IH) (auto simp: a)
  then show ?case
    unfolding p by (subst parse_list_loop.simps) (simp only: d t Let_def e, simp add: a x(2))
qed

lemma parse_list_padded:
  assumes "\<forall>(n, y) \<in> set xs. spaceless y"
  shows "parse_list (spaced_words xs) CHR '' '' True = Some (map snd xs)"
    "CHR '':'' \<notin> set field \<Longrightarrow> parse_list (field @ '':'' @ spaced_words xs) CHR '' '' False = Some (map snd xs)"
proof -
  have 1: "(if line_is_blank (spaced_words xs) then [] else parse_list_loop CHR '' '' (spaced_words xs)) = map snd xs"
  proof (cases xs)
    case (Cons a ys)
    obtain n x where a: "a = (n, x)" by (cases a)
    have p: "spaced_words xs = replicate (Suc n) CHR '' '' @ x @ spaced_words ys" by (simp add: spaced_words_def Cons a)
    have x: "spaceless x" "\<forall>(n, y) \<in> set ys. spaceless y" using assms by (auto simp: Cons a)
    then have "\<not> line_is_blank (spaced_words xs)"
      unfolding p by (cases x) (auto simp: line_is_blank_def spaceless_def)
    then show ?thesis unfolding p parse_list_loop_padded [OF x] by (simp add: Cons a)
  qed (simp add: spaced_words_def line_is_blank_def)
  then show "parse_list (spaced_words xs) CHR '' '' True = Some (map snd xs)"
    "CHR '':'' \<notin> set field \<Longrightarrow> parse_list (field @ '':'' @ spaced_words xs) CHR '' '' False = Some (map snd xs)"
    by (simp_all add: parse_list_def strchr_append)
qed

text \<open>
  The lines of a release file as opkg reads it, and those that stop the reader: an empty line and
  every line that starts with another character than the five it knows.
\<close>

definition cksum_line :: "nat \<times> nat \<times> cksum \<Rightarrow> string" where
  "cksum_line q = (case q of (i, j, c) \<Rightarrow> spaced_words [(0, ck_value c), (i, show_nat (nat (ck_size c))), (j, ck_name c)])"

definition release_lines ::
  "string \<Rightarrow> string \<Rightarrow> (nat \<times> string) list \<Rightarrow> (nat \<times> string) list \<Rightarrow> (nat \<times> nat \<times> cksum) list \<Rightarrow> string list" where
  "release_lines codename date archs comps sums =
     [''Codename: '' @ codename, ''Date: '' @ date, ''Architectures:'' @ spaced_words archs, ''Components:'' @ spaced_words comps,
      ''MD5sum:''] @ map cksum_line sums"

definition stops :: "string \<Rightarrow> bool" where
  "stops l \<longleftrightarrow> (case l of [] \<Rightarrow> True | c # _ \<Rightarrow> c \<notin> {CHR ''A'', CHR ''C'', CHR ''D'', CHR ''M'', CHR '' ''})"

definition cksum_ok :: "cksum \<Rightarrow> bool" where
  "cksum_ok c \<longleftrightarrow> spaceless (ck_value c) \<and> spaceless (ck_name c) \<and> 0 \<le> ck_size c \<and> ck_size c < 2 ^ 31"

lemma spaceless_show_nat: "spaceless (show_nat n)"
  using show_nat_digits [of n] by (auto simp: spaceless_def list_all_iff)

lemma parse_cksum_line:
  assumes "rl_md5sums r = Some l" "cksum_ok (snd (snd q))"
  shows "release_parse_line (r, True) (cksum_line q) = Some ((r\<lparr>rl_md5sums := Some (l @ [snd (snd q)])\<rparr>, True), False)"
proof -
  obtain i j c where q: "q = (i, j, c)" by (cases q)
  let ?s = "show_nat (nat (ck_size c))"
  have "\<forall>(n, y) \<in> set [(0, ck_value c), (i, ?s), (j, ck_name c)]. spaceless y"
    using assms(2) spaceless_show_nat by (simp add: q cksum_ok_def)
  from parse_list_padded(1) [OF this]
  have "parse_list (cksum_line q) CHR '' '' True = Some [ck_value c, ?s, ck_name c]"
    by (simp add: cksum_line_def q)
  moreover have "\<exists>s. cksum_line q = CHR '' '' # s" by (simp add: cksum_line_def q spaced_words_def)
  moreover have "atoi ?s = ck_size c" using assms(2) atoi_show_nat [of "nat (ck_size c)"] by (auto simp: q cksum_ok_def)
  ultimately show ?thesis
    using assms(1) by (auto simp: release_parse_line_def cksum_list_append_def cksum_init_def q Let_def)
qed

lemma feed_cksum_lines:
  assumes "\<forall>q \<in> set sums. cksum_ok (snd (snd q))" "rl_md5sums r = Some l"
  shows "feed_lines release_callback (Some (r, True)) (map cksum_line sums @ rest) =
    feed_lines release_callback (Some (r\<lparr>rl_md5sums := Some (l @ map (\<lambda>q. snd (snd q)) sums)\<rparr>, True)) rest"
  using assms
proof (induction sums arbitrary: r l)
  case (Cons q sums)
  have "release_callback (Some (r, True)) (cksum_line q) =
      (Some (r\<lparr>rl_md5sums := Some (l @ [snd (snd q)])\<rparr>, True), False)"
    using parse_cksum_line [of r l q] Cons.prems by (simp add: release_callback_def)
  then show ?case using Cons.IH [of "r\<lparr>rl_md5sums := Some (l @ [snd (snd q)])\<rparr>"] Cons.prems by simp
next
  case Nil
  then have "r\<lparr>rl_md5sums := Some l\<rparr> = r" by (cases r) simp
  then show ?case by simp
qed

lemma stops_line: "stops l \<Longrightarrow> release_callback (Some (r, b)) l = (Some (r, False), True)"
  by (cases l) (auto simp: stops_def release_callback_def release_parse_line_def Let_def)

lemma feed_release_lines:
  assumes "trimmed codename" "trimmed date" "\<forall>(n, y) \<in> set archs. spaceless y" "\<forall>(n, y) \<in> set comps. spaceless y"
    "\<forall>q \<in> set sums. cksum_ok (snd (snd q))" "rest \<noteq> [] \<longrightarrow> stops (hd rest)"
  shows "fst (feed_lines release_callback (Some (release_init, b)) (release_lines codename date archs comps sums @ rest)) =
    Some (\<lparr>rl_name = Some codename, rl_datestring = Some date, rl_architectures = map snd archs,
           rl_components = map snd comps, rl_md5sums = Some (map (\<lambda>q. snd (snd q)) sums), rl_complist = []\<rparr>, rest = [])"
proof -
  have f: "CHR '':'' \<notin> set ''Architectures''" "CHR '':'' \<notin> set ''Components''" by simp_all
  note pl = parse_list_padded(2) [OF assms(3) f(1)] parse_list_padded(2) [OF assms(4) f(2)]
  have 1: "release_callback (Some (r, b)) (''Codename: '' @ codename) = (Some (r\<lparr>rl_name := Some codename\<rparr>, False), False)" for r b
    using trim_space [OF assms(1)] by (simp add: release_callback_def release_parse_line_def is_field_def parse_simple_def)
  have 2: "release_callback (Some (r, b)) (''Date: '' @ date) = (Some (r\<lparr>rl_datestring := Some date\<rparr>, False), False)" for r b
    using trim_space [OF assms(2)] by (simp add: release_callback_def release_parse_line_def is_field_def parse_simple_def)
  have 3: "release_callback (Some (r, b)) (''Architectures:'' @ spaced_words archs) =
      (Some (r\<lparr>rl_architectures := map snd archs\<rparr>, False), False)" for r b
    using pl(1) by (simp add: release_callback_def release_parse_line_def is_field_def)
  have 4: "release_callback (Some (r, b)) (''Components:'' @ spaced_words comps) =
      (Some (r\<lparr>rl_components := map snd comps\<rparr>, False), False)" for r b
    using pl(2) by (simp add: release_callback_def release_parse_line_def is_field_def)
  have 5: "release_callback (Some (r, b)) ''MD5sum:'' =
      (Some (if rl_md5sums r = None then r\<lparr>rl_md5sums := Some []\<rparr> else r, True), False)" for r b
    by (simp add: release_callback_def release_parse_line_def is_field_def)
  let ?r = "\<lparr>rl_name = Some codename, rl_datestring = Some date, rl_architectures = map snd archs,
           rl_components = map snd comps, rl_md5sums = Some [], rl_complist = []\<rparr>"
  have lines: "release_lines codename date archs comps sums @ rest =
      (''Codename: '' @ codename) # (''Date: '' @ date) # (''Architectures:'' @ spaced_words archs) #
      (''Components:'' @ spaced_words comps) # ''MD5sum:'' # (map cksum_line sums @ rest)"
    by (simp add: release_lines_def)
  have "feed_lines release_callback (Some (release_init, b)) (release_lines codename date archs comps sums @ rest) =
      feed_lines release_callback (Some (?r, True)) (map cksum_line sums @ rest)"
    unfolding lines feed_lines.simps 1 2 3 4 5 prod.case if_False by (simp add: release_init_def)
  also have "\<dots> = feed_lines release_callback (Some (?r\<lparr>rl_md5sums := Some (map (\<lambda>q. snd (snd q)) sums)\<rparr>, True)) rest"
    using feed_cksum_lines [OF assms(5), of ?r "[]"] by simp
  finally show ?thesis using assms(6) by (cases rest) (simp_all add: stops_line)
qed

text \<open>
  (C33) A release file made of the five fields that opkg knows is read back exactly: the codename, the
  date, the architectures and components in order, and the size, digest and name of every list,
  whatever the padding between the words. The first line that starts with another character ends
  the reading, and the lines behind it are ignored; without one the flag that says that digests are
  being read stays set for the next file.
\<close>

theorem release_file_roundtrip:
  assumes "trimmed codename" "trimmed date" "\<forall>(n, y) \<in> set archs. spaceless y" "\<forall>(n, y) \<in> set comps. spaceless y"
    "\<forall>q \<in> set sums. cksum_ok (snd (snd q))" "rest \<noteq> [] \<longrightarrow> stops (hd rest)"
    "\<forall>l \<in> set (release_lines codename date archs comps sums @ rest). newline \<notin> set l \<and> length l + 2 \<le> EXCESSIVE_LINE_LEN"
  shows "release_parse_from_stream (release_init, b)
      \<lparr>st_data = unlines (release_lines codename date archs comps sums @ rest), st_error = False\<rparr> =
    (0, Some (\<lparr>rl_name = Some codename, rl_datestring = Some date, rl_architectures = map snd archs,
           rl_components = map snd comps, rl_md5sums = Some (map (\<lambda>q. snd (snd q)) sums), rl_complist = []\<rparr>, rest = []))"
  using feed_release_lines [OF assms(1-6), of b]
  unfolding release_parse_from_stream_def parse_from_stream_nomalloc_def
  by (subst parse_stream_lines [OF assms(7)]) (auto split: prod.splits)

theorem release_file_roundtrip_witness:
  "release_parse_from_stream (release_init, False)
     \<lparr>st_data = unlines (release_lines ''stable'' ''today'' [(0, ''all''), (0, ''mips'')] [(0, ''main'')]
        [(0, 3, \<lparr>ck_name = ''main/Packages'', ck_value = ''d41d'', ck_size = 7\<rparr>)] @ [''Origin: here'', ''Date: never'']),
      st_error = False\<rparr> =
   (0, Some (\<lparr>rl_name = Some ''stable'', rl_datestring = Some ''today'', rl_architectures = [''all'', ''mips''],
      rl_components = [''main''], rl_md5sums = Some [\<lparr>ck_name = ''main/Packages'', ck_value = ''d41d'', ck_size = 7\<rparr>],
      rl_complist = []\<rparr>, False))"
proof -
  let ?sums = "[(0, 3, \<lparr>ck_name = ''main/Packages'', ck_value = ''d41d'', ck_size = 7\<rparr>)] :: (nat \<times> nat \<times> cksum) list"
  have sp: "spaceless ''all''" "spaceless ''mips''" "spaceless ''main''" "spaceless ''d41d''" "spaceless ''main/Packages''"
    by (simp_all add: spaceless_def isspace_def is_space_def cval_def)
  have t: "trimmed ''stable''" "trimmed ''today''"
    by (simp_all add: trimmed_def isspace_def is_space_def cval_def)
  have s7: "show_nat 7 = ''7''" by (simp add: show_nat.simps digit_char_def char_of_def bit_Suc_0_iff)
  have c: "\<forall>q \<in> set ?sums. cksum_ok (snd (snd q))" using sp by (simp add: cksum_ok_def)
  have "\<forall>l \<in> set (release_lines ''stable'' ''today'' [(0, ''all''), (0, ''mips'')] [(0, ''main'')] ?sums @
      [''Origin: here'', ''Date: never'']). newline \<notin> set l \<and> length l + 2 \<le> EXCESSIVE_LINE_LEN"
    by (simp add: release_lines_def cksum_line_def spaced_words_def s7 EXCESSIVE_LINE_LEN_def)
  from release_file_roundtrip [OF t _ _ c _ this, of False] show ?thesis using sp by (simp add: stops_def)
qed

section \<open>What is inflated has been verified\<close>

text \<open>A file that has the size and the digest that the release lists for a path.\<close>

definition listed_file :: "'w env \<Rightarrow> release \<Rightarrow> string \<Rightarrow> string \<Rightarrow> 'w \<Rightarrow> bool" where
  "listed_file e r path file w \<longleftrightarrow>
     (\<exists>l c. rl_md5sums r = Some l \<and> c \<in> set l \<and> ck_name c = path \<and>
        e_size e file w = Some (ck_size c) \<and> md5_of e file w = Some (ck_value c))"

lemma verified_listed:
  assumes "release_verify_file e r file path w = Some 0" "\<And>n. e_size e file w = Some n \<Longrightarrow> 0 \<le> n"
  shows "listed_file e r path file w"
proof (cases "rl_md5sums r")
  case None
  then show ?thesis using assms
    by (auto simp: release_verify_file_def release_get_size_def release_get_md5_def split: option.splits if_splits)
next
  case (Some l)
  then obtain c where c: "cksum_list_find l path = Some c" "e_size e file w = Some (ck_size c)" "md5_of e file w = Some (ck_value c)"
    using assms(1) by (auto simp: release_verify_file_def release_get_size_def release_get_md5_def strcmp_eq_0
        split: option.splits if_splits bind_splits)
  then have "c \<in> set l" "ck_name c = path"
    by (auto simp: cksum_list_find_def find_Some_iff strcmp_eq_0)
  then show ?thesis using c Some by (auto simp: listed_file_def)
qed

definition list_subpath :: "string \<Rightarrow> string \<Rightarrow> string" where
  "list_subpath component arch = component @ ''/binary-'' @ arch @ ''/Packages.gz''"

lemma opkg_download_unzip: "opkg_download (e\<lparr>e_unzip := u\<rparr>) = opkg_download e"
  by (simp add: fun_eq_iff opkg_download_def file_copy_def file_move_def wget_argv_def Let_def
      cong: prod.case_cong if_cong)

lemma release_verify_unzip: "release_verify_file (e\<lparr>e_unzip := u\<rparr>) = release_verify_file e"
  by (simp add: fun_eq_iff release_verify_file_def md5_of_def cong: option.case_cong if_cong)

lemma download_gz_unzip:
  assumes "\<And>n w. e_size e tmp w = Some n \<Longrightarrow> 0 \<le> n"
    "\<And>w. listed_file e r path tmp w \<Longrightarrow> u tmp file w = e_unzip e tmp file w"
  shows "download_gz (e\<lparr>e_unzip := u\<rparr>) r url tmp file path w = download_gz e r url tmp file path w"
proof -
  have "u tmp file w1 = e_unzip e tmp file w1" if "release_verify_file e r tmp path w1 = Some 0" for w1
    using verified_listed [OF that] assms by blast
  then show ?thesis
    by (auto simp: download_gz_def opkg_download_unzip release_verify_unzip split: prod.splits bind_splits)
qed

lemma foldM_eq: "(\<And>x s. x \<in> set xs \<Longrightarrow> f x s = g x s) \<Longrightarrow> foldM f xs s = foldM g xs s"
  by (induction xs arbitrary: s) (auto intro!: Option.bind_cong)

lemma release_download_arch_unzip:
  assumes "\<And>f n w. e_size e f w = Some n \<Longrightarrow> 0 \<le> n"
    "\<And>f g w. listed_file e r (list_subpath component arch) f w \<Longrightarrow> u f g w = e_unzip e f g w"
  shows "release_download_arch (e\<lparr>e_unzip := u\<rparr>) r dist dir tmp component arch ew =
    release_download_arch e r dist dir tmp component arch ew"
proof -
  have p: "download_plain (e\<lparr>e_unzip := u\<rparr>) r url f g path w = download_plain e r url f g path w" for url f g path w
    by (simp add: download_plain_def opkg_download_unzip release_verify_unzip cong: prod.case_cong if_cong)
  have gz: "download_gz (e\<lparr>e_unzip := u\<rparr>) r url f g (list_subpath component arch) w =
      download_gz e r url f g (list_subpath component arch) w" for url f g w
    by (rule download_gz_unzip) (use assms in auto)
  show ?thesis
    unfolding release_download_arch_def Let_def p
    using gz by (simp add: list_subpath_def cong: if_cong)
qed

text \<open>
  (C32) Only verified archives are inflated: while the lists of a distribution are downloaded, what
  the decompressor would do matters only for files whose size and MD5 digest are those that the
  release lists for the component and architecture at hand. With any decompressor that agrees on
  these files, the results and the worlds are the same.
\<close>

theorem only_verified_lists_inflated:
  assumes "\<And>f n w. e_size e f w = Some n \<Longrightarrow> 0 \<le> n"
    "\<And>component arch tmp_file list_file w. component \<in> set (release_comps r) \<Longrightarrow> arch \<in> fst ` set (c_arch_list e) \<Longrightarrow>
      listed_file e r (list_subpath component arch) tmp_file w \<Longrightarrow> u tmp_file list_file w = e_unzip e tmp_file list_file w"
  shows "release_download (e\<lparr>e_unzip := u\<rparr>) r dist dir tmp w = release_download e r dist dir tmp w"
proof -
  have "foldM (release_download_arch (e\<lparr>e_unzip := u\<rparr>) r dist dir tmp component) (map fst (c_arch_list e)) ew =
      foldM (release_download_arch e r dist dir tmp component) (map fst (c_arch_list e)) ew"
    if "component \<in> set (release_comps r)" for component ew
    using assms that by (intro foldM_eq release_download_arch_unzip) auto
  then show ?thesis
    unfolding release_download_def by (intro foldM_eq) (auto split: prod.splits)
qed

text \<open>
  The example: the world counts what has happened to the one list, 0 before the download, 1 when
  the archive is there, 2 when it has been inflated.
\<close>

definition archive_env :: "nat env" where
  "archive_env = idle_env\<lparr>e_copy_file := (\<lambda>f g w. (0, 1)), e_unlink := (\<lambda>f w. (0, w)),
     e_file := (\<lambda>f w. if w = 1 then Some (''gzipped'', False) else None),
     e_size := (\<lambda>f w. if w = 1 then Some 7 else None), e_unzip := (\<lambda>f g w. (Some 0, w + 1))\<rparr>"

definition archive_release :: release where
  "archive_release = release_init\<lparr>rl_components := [''main''],
     rl_md5sums := Some [\<lparr>ck_name = ''main/binary-all/Packages.gz'',
       ck_value = hex_of (MD5 (map of_char ''gzipped'')), ck_size = 7\<rparr>]\<rparr>"

definition archive_src :: pkg_src where
  "archive_src = \<lparr>sr_name = ''stable'', sr_value = ''file:/feed'', sr_extra_data = None, sr_gzip = True\<rparr>"

lemma archive_listed: "listed_file archive_env archive_release ''main/binary-all/Packages.gz'' f 1"
  by (simp add: listed_file_def archive_env_def archive_release_def md5_of_def file_md5sum_alloc_def md5_stream_MD5)

lemma archive_inflated: "release_download archive_env archive_release archive_src ''/lists'' ''/tmp'' 0 = Some (0, 2)"
proof -
  let ?path = "''main/binary-all/Packages.gz''"
  have c: "cksum_list_find (the (rl_md5sums archive_release)) ?path = Some (hd (the (rl_md5sums archive_release)))"
    by (simp add: cksum_list_find_def archive_release_def strcmp_eq_0)
  have v: "release_verify_file archive_env archive_release f ?path 1 = Some 0" for f
    using c by (simp add: release_verify_file_def release_get_md5_def release_get_size_def md5_of_def
        file_md5sum_alloc_def md5_stream_MD5 archive_env_def archive_release_def strcmp_eq_0)
  have d: "opkg_download archive_env (''file:'' @ x) f w = (0, 1)" for x f w
    by (simp add: opkg_download_def file_copy_def archive_env_def)
  have gz: "download_gz archive_env archive_release (''file:'' @ x) f g ?path 0 = Some (0, 2)" for x f g
    unfolding download_gz_def d prod.case using v [of f] by (simp add: archive_env_def)
  show ?thesis
    using gz by (simp add: release_download_def release_download_arch_def release_comps_def
        archive_src_def archive_release_def archive_env_def idle_env_def release_init_def)
qed

theorem only_verified_lists_inflated_witness:
  "release_download (archive_env\<lparr>e_unzip := \<lambda>f g w. if w = 1 then (Some 0, w + 1) else (None, w)\<rparr>)
     archive_release archive_src ''/lists'' ''/tmp'' 0 = Some (0, 2) \<and>
   listed_file archive_env archive_release ''main/binary-all/Packages.gz'' ''/tmp/stable-main-all.gz'' 1"
proof -
  have "0 \<le> n" if "e_size archive_env f w = Some n" for f n w
    using that by (auto simp: archive_env_def split: if_splits)
  moreover have "(\<lambda>f g w. if w = 1 then (Some 0, w + 1) else (None, w)) f g w = e_unzip archive_env f g w"
    if "listed_file archive_env archive_release p f w" for p f g w
    using that by (auto simp: listed_file_def archive_env_def split: if_splits)
  ultimately have "release_download (archive_env\<lparr>e_unzip := \<lambda>f g w. if w = 1 then (Some 0, w + 1) else (None, w)\<rparr>)
      archive_release archive_src ''/lists'' ''/tmp'' 0 =
    release_download archive_env archive_release archive_src ''/lists'' ''/tmp'' 0"
    by (rule only_verified_lists_inflated)
  then show ?thesis using archive_inflated archive_listed by simp
qed

end
