(* ===== verification/Opkg_Conf.thy ===== *)
theory Opkg_Conf
  imports Opkg_Numbers Opkg_World
begin

text \<open>
  The configuration: the options and the configuration files, the resolution of the destinations, and
  the start and the end of a run with its lock and its temporary directory (\<open>libopkg/opkg_conf.c\<close>,
  \<open>pkg_dest.c\<close>, \<open>pkg_dest_list.c\<close>, \<open>pkg_src.c\<close>). The fields of a \<open>struct opkg_conf\<close> that are not
  options of a file are set by the command line before the files are read.

  The lines of a configuration file are recognised by two regular expressions. What they match is
  written out: the leftmost alternative of each word that allows the rest to match, and the longest
  text for everything else.
\<close>

section \<open>The configuration\<close>

record conf =
  cf_pkg_src_list :: "pkg_src list"
  cf_dist_src_list :: "pkg_src list"
  cf_pkg_dest_list :: "pkg_dest list"
  cf_tmp_dest_list :: "(string \<times> string) list"
  cf_arch_list :: "(string \<times> string) list"
  cf_restrict_to_default_dest :: bool
  cf_default_dest :: "nat option"
  cf_dest_str :: "string option"
  cf_conf_file :: "string option"
  cf_tmp_dir :: "string option"
  cf_lists_dir :: "string option"
  cf_force_depends :: int
  cf_force_defaults :: int
  cf_force_maintainer :: int
  cf_force_overwrite :: int
  cf_force_downgrade :: int
  cf_force_reinstall :: int
  cf_force_space :: int
  cf_force_postinstall :: int
  cf_check_signature :: int
  cf_nodeps :: int
  cf_offline_root :: "string option"
  cf_overlay_root :: "string option"
  cf_query_all :: int
  cf_verbosity :: int
  cf_noaction :: int
  cf_download_only :: int
  cf_cache :: "string option"
  cf_http_proxy :: "string option"
  cf_ftp_proxy :: "string option"
  cf_no_proxy :: "string option"
  cf_proxy_user :: "string option"
  cf_proxy_passwd :: "string option"

text \<open>
  What the start and the end of a run use beside the calls of \<^typ>\<open>'w env\<close>: \<open>glob\<close>, whose \<open>None\<close>
  is an error other than finding nothing; \<open>creat\<close>, \<open>lockf\<close> with \<open>F_TLOCK\<close> and with \<open>F_ULOCK\<close>, and
  \<open>close\<close>, of the lock file; the results of \<open>regcomp\<close> for the two expressions of the reader (the
  comments and the lines), and whether \<open>fclose\<close> of a configuration file succeeds; and the names the
  build fixes.
\<close>

record 'w conf_env = "'w env" +
  ce_glob :: "string \<Rightarrow> 'w \<Rightarrow> string list option"
  ce_creat :: "string \<Rightarrow> 'w \<Rightarrow> bool \<times> 'w"
  ce_lock :: "'w \<Rightarrow> bool \<times> 'w"
  ce_unlock :: "'w \<Rightarrow> 'w"
  ce_close :: "'w \<Rightarrow> 'w"
  ce_regcomp :: "'w \<Rightarrow> int \<times> int"
  ce_fclose :: "string \<Rightarrow> 'w \<Rightarrow> bool"
  ce_opkglibdir :: string
  ce_opkgetcdir :: string
  ce_lockfile :: string
  ce_host_cpu :: string

text \<open>A row of the table points to a field: here it is read and written.\<close>

datatype opkg_option =
    OPKG_OPT_TYPE_BOOL "conf \<Rightarrow> int" "int \<Rightarrow> conf \<Rightarrow> conf"
  | OPKG_OPT_TYPE_INT "conf \<Rightarrow> int" "int \<Rightarrow> conf \<Rightarrow> conf"
  | OPKG_OPT_TYPE_STRING "conf \<Rightarrow> string option" "string option \<Rightarrow> conf \<Rightarrow> conf"

definition options_table :: "(string \<times> opkg_option) list" where
  "options_table = [
     (''cache'', OPKG_OPT_TYPE_STRING cf_cache (\<lambda>v c. c\<lparr>cf_cache := v\<rparr>)),
     (''force_defaults'', OPKG_OPT_TYPE_BOOL cf_force_defaults (\<lambda>v c. c\<lparr>cf_force_defaults := v\<rparr>)),
     (''force_maintainer'', OPKG_OPT_TYPE_BOOL cf_force_maintainer (\<lambda>v c. c\<lparr>cf_force_maintainer := v\<rparr>)),
     (''force_depends'', OPKG_OPT_TYPE_BOOL cf_force_depends (\<lambda>v c. c\<lparr>cf_force_depends := v\<rparr>)),
     (''force_overwrite'', OPKG_OPT_TYPE_BOOL cf_force_overwrite (\<lambda>v c. c\<lparr>cf_force_overwrite := v\<rparr>)),
     (''force_downgrade'', OPKG_OPT_TYPE_BOOL cf_force_downgrade (\<lambda>v c. c\<lparr>cf_force_downgrade := v\<rparr>)),
     (''force_reinstall'', OPKG_OPT_TYPE_BOOL cf_force_reinstall (\<lambda>v c. c\<lparr>cf_force_reinstall := v\<rparr>)),
     (''force_space'', OPKG_OPT_TYPE_BOOL cf_force_space (\<lambda>v c. c\<lparr>cf_force_space := v\<rparr>)),
     (''force_postinstall'', OPKG_OPT_TYPE_BOOL cf_force_postinstall (\<lambda>v c. c\<lparr>cf_force_postinstall := v\<rparr>)),
     (''check_signature'', OPKG_OPT_TYPE_BOOL cf_check_signature (\<lambda>v c. c\<lparr>cf_check_signature := v\<rparr>)),
     (''ftp_proxy'', OPKG_OPT_TYPE_STRING cf_ftp_proxy (\<lambda>v c. c\<lparr>cf_ftp_proxy := v\<rparr>)),
     (''http_proxy'', OPKG_OPT_TYPE_STRING cf_http_proxy (\<lambda>v c. c\<lparr>cf_http_proxy := v\<rparr>)),
     (''no_proxy'', OPKG_OPT_TYPE_STRING cf_no_proxy (\<lambda>v c. c\<lparr>cf_no_proxy := v\<rparr>)),
     (''test'', OPKG_OPT_TYPE_BOOL cf_noaction (\<lambda>v c. c\<lparr>cf_noaction := v\<rparr>)),
     (''noaction'', OPKG_OPT_TYPE_BOOL cf_noaction (\<lambda>v c. c\<lparr>cf_noaction := v\<rparr>)),
     (''download_only'', OPKG_OPT_TYPE_BOOL cf_download_only (\<lambda>v c. c\<lparr>cf_download_only := v\<rparr>)),
     (''nodeps'', OPKG_OPT_TYPE_BOOL cf_nodeps (\<lambda>v c. c\<lparr>cf_nodeps := v\<rparr>)),
     (''offline_root'', OPKG_OPT_TYPE_STRING cf_offline_root (\<lambda>v c. c\<lparr>cf_offline_root := v\<rparr>)),
     (''overlay_root'', OPKG_OPT_TYPE_STRING cf_overlay_root (\<lambda>v c. c\<lparr>cf_overlay_root := v\<rparr>)),
     (''proxy_passwd'', OPKG_OPT_TYPE_STRING cf_proxy_passwd (\<lambda>v c. c\<lparr>cf_proxy_passwd := v\<rparr>)),
     (''proxy_user'', OPKG_OPT_TYPE_STRING cf_proxy_user (\<lambda>v c. c\<lparr>cf_proxy_user := v\<rparr>)),
     (''query-all'', OPKG_OPT_TYPE_BOOL cf_query_all (\<lambda>v c. c\<lparr>cf_query_all := v\<rparr>)),
     (''tmp_dir'', OPKG_OPT_TYPE_STRING cf_tmp_dir (\<lambda>v c. c\<lparr>cf_tmp_dir := v\<rparr>)),
     (''verbosity'', OPKG_OPT_TYPE_INT cf_verbosity (\<lambda>v c. c\<lparr>cf_verbosity := v\<rparr>))]"

text \<open>A value is a null pointer only for other callers: the files always give one.\<close>

definition set_slot :: "opkg_option \<Rightarrow> string option \<Rightarrow> conf \<Rightarrow> int \<times> conf" where
  "set_slot opt val c =
     (case opt of
        OPKG_OPT_TYPE_BOOL g u \<Rightarrow> (0, if g c \<noteq> 0 then c else u 1 c)
      | OPKG_OPT_TYPE_INT g u \<Rightarrow>
          (case val of None \<Rightarrow> (-1, c) | Some v \<Rightarrow> (0, if g c \<noteq> 0 then c else u (atoi v) c))
      | OPKG_OPT_TYPE_STRING g u \<Rightarrow>
          (case val of None \<Rightarrow> (-1, c) | Some v \<Rightarrow> (0, if g c \<noteq> None then c else u (Some v) c)))"

definition opkg_conf_set_option :: "string \<Rightarrow> string option \<Rightarrow> conf \<Rightarrow> int \<times> conf" where
  "opkg_conf_set_option name val c =
     (case find (\<lambda>(n, opt). strcmp n name = 0) options_table of
        None \<Rightarrow> (-1, c) | Some (n, opt) \<Rightarrow> set_slot opt val c)"

section \<open>The lines of a file\<close>

definition comment_line :: "string \<Rightarrow> bool" where
  "comment_line line \<longleftrightarrow> (case dropWhile isspace line of [] \<Rightarrow> True | c # _ \<Rightarrow> c = CHR ''#'')"

text \<open>A text in quotation marks at the front, and what is behind it.\<close>

definition quoted_text :: "string \<Rightarrow> (string \<times> string) option" where
  "quoted_text s =
     (case s of [] \<Rightarrow> None
      | c # t \<Rightarrow>
          if c = CHR 0x22 \<and> CHR 0x22 \<in> set t
          then Some (takeWhile (\<lambda>c. c \<noteq> CHR 0x22) t, tl (dropWhile (\<lambda>c. c \<noteq> CHR 0x22) t)) else None)"

definition conf_word :: "(string \<Rightarrow> bool) \<Rightarrow> string \<Rightarrow> string \<times> string" where
  "conf_word ok s0 =
     (let s = dropWhile isspace s0; bare = (takeWhile (\<lambda>c. \<not> isspace c) s, dropWhile (\<lambda>c. \<not> isspace c) s)
      in case quoted_text s of None \<Rightarrow> bare | Some (w, rest) \<Rightarrow> if ok rest then (w, rest) else bare)"

text \<open>
  The type, name, value and extra text of a line, and whether there is text behind the extra word.
  What follows the value has to start with a space.
\<close>

definition conf_line :: "string \<Rightarrow> string \<times> string \<times> string \<times> string option \<times> bool" where
  "conf_line line =
     (let (type, s1) = conf_word (\<lambda>_. True) line;
          (name, s2) = conf_word (\<lambda>_. True) s1;
          (val, s3) = conf_word (\<lambda>rest. rest = [] \<or> isspace (hd rest)) s2;
          t = dropWhile isspace s3;
          garbage = dropWhile isspace (dropWhile (\<lambda>c. \<not> isspace c) t)
      in (type, name, val,
          if t = [] then None else Some (if garbage \<noteq> [] then t else takeWhile (\<lambda>c. \<not> isspace c) t), garbage \<noteq> []))"

definition pkg_src_init :: "string \<Rightarrow> string \<Rightarrow> string option \<Rightarrow> bool \<Rightarrow> pkg_src" where
  "pkg_src_init name base_url extra_data gzip =
     \<lparr>sr_name = name, sr_value = base_url, sr_extra_data = extra_data, sr_gzip = gzip\<rparr>"

text \<open>\<open>nv_pair_list_find\<close> on a list of sources, whose first two fields are those of a pair.\<close>

definition add_src :: "string \<Rightarrow> string \<Rightarrow> string option \<Rightarrow> bool \<Rightarrow> pkg_src list \<Rightarrow> pkg_src list" where
  "add_src name val extra gzip l =
     (if list_ex (\<lambda>s. strcmp (sr_name s) name = 0) l then l else l @ [pkg_src_init name val extra gzip])"

definition conf_directive :: "string \<times> string \<times> string \<times> string option \<times> bool \<Rightarrow> conf \<Rightarrow> conf" where
  "conf_directive d c =
     (case d of (type, name, val, extra, garbage) \<Rightarrow>
        if garbage \<and> take 4 type \<noteq> ''dist'' then c
        else if strcmp type ''option'' = 0 then snd (opkg_conf_set_option name (Some val) c)
        else if strcmp type ''dist'' = 0 then c\<lparr>cf_dist_src_list := add_src name val extra False (cf_dist_src_list c)\<rparr>
        else if strcmp type ''dist/gz'' = 0 then c\<lparr>cf_dist_src_list := add_src name val extra True (cf_dist_src_list c)\<rparr>
        else if strcmp type ''src'' = 0 then c\<lparr>cf_pkg_src_list := add_src name val extra False (cf_pkg_src_list c)\<rparr>
        else if strcmp type ''src/gz'' = 0 then c\<lparr>cf_pkg_src_list := add_src name val extra True (cf_pkg_src_list c)\<rparr>
        else if strcmp type ''dest'' = 0 then c\<lparr>cf_tmp_dest_list := cf_tmp_dest_list c @ [(name, val)]\<rparr>
        else if strcmp type ''lists_dir'' = 0 then c\<lparr>cf_lists_dir := Some val\<rparr>
        else if strcmp type ''arch'' = 0 then c\<lparr>cf_arch_list := cf_arch_list c @ [(name, val)]\<rparr>
        else c)"

function conf_lines :: "string \<Rightarrow> conf \<Rightarrow> conf" where
  "conf_lines fp c =
     (case file_read_line_alloc fp of
        (None, _) \<Rightarrow> c
      | (Some line, rest) \<Rightarrow> conf_lines rest (if comment_line line then c else conf_directive (conf_line line) c))"
  by pat_completeness auto
termination
proof (relation "measure (\<lambda>(fp, c). length fp)", goal_cases)
  case (2 fp c x rest line)
  then have "fp \<noteq> []" "rest = tl (dropWhile (\<lambda>c. c \<noteq> newline) fp)"
    by (auto simp: file_read_line_alloc_reads_line split: if_splits)
  moreover from this have "length rest < length fp"
    using length_dropWhile_le [of "\<lambda>c. c \<noteq> newline" fp] by (cases "dropWhile (\<lambda>c. c \<noteq> newline) fp") auto
  ultimately show ?case by simp
qed simp

declare conf_lines.simps [simp del]

text \<open>
  An expression that does not compile leaves its error code, and no line is read; a file that cannot
  be closed leaves -1, whatever has been read.
\<close>

definition opkg_conf_parse_file :: "'w conf_env \<Rightarrow> string \<Rightarrow> 'w \<Rightarrow> conf \<Rightarrow> int \<times> conf" where
  "opkg_conf_parse_file e filename w c =
     (case e_file e filename w of
        None \<Rightarrow> (-1, c)
      | Some (text, read_error) \<Rightarrow>
          (case ce_regcomp e w of
             (comment_err, line_err) \<Rightarrow>
               let (err, c1) = (if comment_err \<noteq> 0 then (comment_err, c)
                                else if line_err \<noteq> 0 then (line_err, c)
                                else (0, conf_lines text c))
               in (if ce_fclose e filename w then err else -1, c1)))"

section \<open>Destinations\<close>

definition OPKG_STATE_DIR_PREFIX :: "'w conf_env \<Rightarrow> string" where
  "OPKG_STATE_DIR_PREFIX e = ce_opkglibdir e @ ''/opkg''"

text \<open>An empty root directory would be read in front of its first byte.\<close>

definition pkg_dest_init :: "'w conf_env \<Rightarrow> string \<Rightarrow> string \<Rightarrow> string \<Rightarrow> 'w \<Rightarrow> (pkg_dest \<times> 'w) option" where
  "pkg_dest_init e name root_dir lists_dir w =
     (if root_dir = [] then None
      else
        let root = (if last root_dir = CHR ''/'' then root_dir else root_dir @ ''/'');
            opkg_dir = root @ OPKG_STATE_DIR_PREFIX e;
            lists = (if lists_dir \<noteq> [] \<and> hd lists_dir = CHR ''/'' then lists_dir else ''/'' @ lists_dir);
            info_dir = opkg_dir @ ''/info''
        in Some (\<lparr>pd_name = name, pd_root_dir = root, pd_opkg_dir = opkg_dir, pd_lists_dir = lists,
                   pd_info_dir = info_dir, pd_status_file_name = opkg_dir @ ''/status''\<rparr>,
                 fold (\<lambda>d w. snd (e_mkdir_hier e d w)) [root, opkg_dir, lists, info_dir] w))"

definition pkg_dest_list_append ::
  "'w conf_env \<Rightarrow> string \<Rightarrow> string \<Rightarrow> string \<Rightarrow> conf \<times> 'w \<Rightarrow> (nat \<times> conf \<times> 'w) option" where
  "pkg_dest_list_append e name root_dir lists_dir cw =
     (case cw of (c, w) \<Rightarrow>
        do { (d, w1) \<leftarrow> pkg_dest_init e name root_dir lists_dir w;
             Some (length (cf_pkg_dest_list c), c\<lparr>cf_pkg_dest_list := cf_pkg_dest_list c @ [d]\<rparr>, w1) })"

definition resolve_dest :: "'w conf_env \<Rightarrow> string \<times> string \<Rightarrow> conf \<times> 'w \<Rightarrow> (conf \<times> 'w) option" where
  "resolve_dest e nv cw =
     (case cw of (c, w) \<Rightarrow>
        let root_dir = (case cf_offline_root c of None \<Rightarrow> snd nv | Some r \<Rightarrow> r @ snd nv)
        in do { lists_dir \<leftarrow> cf_lists_dir c;
                (d, c1, w1) \<leftarrow> pkg_dest_list_append e (fst nv) root_dir lists_dir (c, w);
                let c2 = (if cf_default_dest c1 = None then c1\<lparr>cf_default_dest := Some d\<rparr> else c1);
                Some (if (case cf_dest_str c2 of None \<Rightarrow> False | Some s \<Rightarrow> strcmp (fst nv) s = 0)
                      then c2\<lparr>cf_default_dest := Some d, cf_restrict_to_default_dest := True\<rparr> else c2, w1) })"

definition resolve_pkg_dest_list :: "'w conf_env \<Rightarrow> conf \<times> 'w \<Rightarrow> (int \<times> conf \<times> 'w) option" where
  "resolve_pkg_dest_list e cw =
     do { (c, w) \<leftarrow> foldM (resolve_dest e) (cf_tmp_dest_list (fst cw)) cw;
          Some (if cf_dest_str c \<noteq> None \<and> \<not> cf_restrict_to_default_dest c then -1 else 0, c, w) }"

section \<open>The start of a run\<close>

definition opkg_conf_init :: "conf \<Rightarrow> int \<times> conf" where
  "opkg_conf_init c =
     (0, c\<lparr>cf_pkg_src_list := [], cf_dist_src_list := [], cf_pkg_dest_list := [], cf_tmp_dest_list := [], cf_arch_list := []\<rparr>)"

text \<open>The state of a run: the lock file and whether its descriptor is open.\<close>

record 'w run =
  ru_conf :: conf
  ru_sys :: "'w sys"
  ru_lock_file :: "string option"
  ru_lock_fd :: bool

definition in_world :: "('w \<Rightarrow> 'w) \<Rightarrow> 'w run \<Rightarrow> 'w run" where
  "in_world f u = u\<lparr>ru_sys := (ru_sys u)\<lparr>y_world := f (y_world (ru_sys u))\<rparr>\<rparr>"

definition in_conf :: "(conf \<Rightarrow> conf) \<Rightarrow> 'w run \<Rightarrow> 'w run" where
  "in_conf f u = u\<lparr>ru_conf := f (ru_conf u)\<rparr>"

definition free_strings :: "conf \<Rightarrow> conf" where
  "free_strings = fold (\<lambda>(n, opt) c. case opt of OPKG_OPT_TYPE_STRING g u \<Rightarrow> u None c | _ \<Rightarrow> c) options_table"

definition deinit_lists :: "conf \<Rightarrow> conf" where
  "deinit_lists c = c\<lparr>cf_pkg_src_list := [], cf_dist_src_list := [], cf_pkg_dest_list := [], cf_arch_list := []\<rparr>"

text \<open>The labels at the end of \<open>opkg_conf_load\<close>, each of which runs into the next.\<close>

definition load_err0 :: "'w run \<Rightarrow> 'w run" where
  "load_err0 u = in_conf (\<lambda>c. c\<lparr>cf_tmp_dest_list := []\<rparr>) u"

definition load_err1 :: "'w run \<Rightarrow> 'w run" where
  "load_err1 u = load_err0 (in_conf (\<lambda>c. free_strings (deinit_lists c)) u)"

definition load_err2 :: "'w run \<Rightarrow> 'w run" where
  "load_err2 u = load_err1 (u\<lparr>ru_lock_file := None\<rparr>)"

definition load_err3 :: "'w conf_env \<Rightarrow> 'w run \<Rightarrow> 'w run" where
  "load_err3 e u =
     load_err2 (in_world (\<lambda>w. case ru_lock_file u of None \<Rightarrow> ce_close e (ce_unlock e w)
                              | Some f \<Rightarrow> snd (e_unlink e f (ce_close e (ce_unlock e w)))) u)"

definition deinit_tables :: "'w sys \<Rightarrow> 'w sys" where
  "deinit_tables y = y\<lparr>y_store := (y_store y)\<lparr>s_hash := hash_table_deinit (s_hash (y_store y))\<rparr>,
     y_files := hash_table_deinit (y_files y), y_obs_files := hash_table_deinit (y_obs_files y)\<rparr>"

definition load_err4 :: "'w conf_env \<Rightarrow> 'w run \<Rightarrow> 'w run" where
  "load_err4 e u =
     load_err3 e (in_world (\<lambda>w. case cf_tmp_dir (ru_conf u) of None \<Rightarrow> w | Some d \<Rightarrow> snd (e_rmdir e d w))
       (u\<lparr>ru_sys := deinit_tables (ru_sys u)\<rparr>))"

text \<open>The configuration files that are found in the directory, but for the one given by the user.\<close>

fun load_conf_files :: "'w conf_env \<Rightarrow> string list \<Rightarrow> 'w \<Rightarrow> conf \<Rightarrow> int \<times> conf" where
  "load_conf_files e [] w c = (0, c)"
| "load_conf_files e (f # fs) w c =
     (if cf_conf_file c = Some f then load_conf_files e fs w c
      else case opkg_conf_parse_file e f w c of
             (err, c1) \<Rightarrow> if err < 0 then (-1, c1) else load_conf_files e fs w c1)"

definition conf_pattern :: "'w conf_env \<Rightarrow> 'w \<Rightarrow> conf \<Rightarrow> string" where
  "conf_pattern e w c =
     (case cf_offline_root c of
        Some r \<Rightarrow> r @ ''/etc/opkg/*.conf''
      | None \<Rightarrow> (case e_getenv e ''OPKG_CONF_DIR'' w of None \<Rightarrow> ce_opkgetcdir e @ ''/opkg'' | Some d \<Rightarrow> d) @ ''/*.conf'')"

text \<open>The parts before the lock: the result is where the function continues, \<open>None\<close> behind them.\<close>

definition load_glob_part :: "'w conf_env \<Rightarrow> 'w run \<Rightarrow> ('w run \<Rightarrow> 'w run) option \<times> 'w run" where
  "load_glob_part e u =
     (let w = y_world (ru_sys u)
      in case ce_glob e (conf_pattern e w (ru_conf u)) w of
           None \<Rightarrow> (Some load_err1, u)
         | Some fs \<Rightarrow>
             (case load_conf_files e fs w (ru_conf u) of
                (err, c) \<Rightarrow> (if err < 0 then Some load_err1 else None, u\<lparr>ru_conf := c\<rparr>)))"

definition load_files_part :: "'w conf_env \<Rightarrow> 'w run \<Rightarrow> ('w run \<Rightarrow> 'w run) option \<times> 'w run" where
  "load_files_part e u =
     (let w = y_world (ru_sys u);
          u1 = in_conf (\<lambda>c. c\<lparr>cf_restrict_to_default_dest := False, cf_default_dest := None,
                 cf_offline_root := (if cf_offline_root c = None then e_getenv e ''OFFLINE_ROOT'' w else cf_offline_root c)\<rparr>) u;
          (stop, u2) =
            (case cf_conf_file (ru_conf u1) of
               None \<Rightarrow> (None, u1)
             | Some f \<Rightarrow>
                 if e_stat e f w = None then (Some load_err0, u1)
                 else case opkg_conf_parse_file e f w (ru_conf u1) of
                        (err, c) \<Rightarrow> (if err \<noteq> 0 then Some load_err1 else None, u1\<lparr>ru_conf := c\<rparr>))
      in if stop \<noteq> None then (stop, u2) else load_glob_part e u2)"

definition load_lock_part :: "'w conf_env \<Rightarrow> 'w run \<Rightarrow> ('w run \<Rightarrow> 'w run) option \<times> 'w run" where
  "load_lock_part e u =
     (let lock_file = (case cf_offline_root (ru_conf u) of None \<Rightarrow> ce_lockfile e | Some r \<Rightarrow> r @ ''/'' @ ce_lockfile e);
          (ok, w1) = ce_creat e lock_file (y_world (ru_sys u));
          u1 = in_world (\<lambda>_. w1) (u\<lparr>ru_lock_file := Some lock_file, ru_lock_fd := ok\<rparr>)
      in if \<not> ok then (Some load_err2, u1)
         else
           (case ce_lock e w1 of
              (False, w2) \<Rightarrow> (Some load_err2, in_world (\<lambda>_. ce_close e w2) (u1\<lparr>ru_lock_fd := False\<rparr>))
            | (True, w2) \<Rightarrow> (None, in_world (\<lambda>_. w2) u1)))"

text \<open>The part behind the lock. A null pointer for the list directory does not occur here.\<close>

definition default_conf :: "'w conf_env \<Rightarrow> conf \<Rightarrow> conf" where
  "default_conf e c =
     (let lists = (case cf_lists_dir c of None \<Rightarrow> OPKG_STATE_DIR_PREFIX e @ ''/lists'' | Some d \<Rightarrow> d)
      in c\<lparr>cf_lists_dir := Some (case cf_offline_root c of None \<Rightarrow> lists | Some r \<Rightarrow> r @ ''/'' @ lists),
           cf_arch_list := (if cf_arch_list c = [] then [(''all'', ''1''), (''noarch'', ''1''), (ce_host_cpu e, ''10'')]
                            else cf_arch_list c),
           cf_tmp_dest_list := (if cf_tmp_dest_list c = [] then [(''root'', ''/'')] else cf_tmp_dest_list c)\<rparr>)"

definition init_tables :: "'w sys \<Rightarrow> 'w sys" where
  "init_tables y = y\<lparr>y_store := (y_store y)\<lparr>s_hash := hash_table_init ''pkg-hash'' (s_hash (y_store y)) 1024\<rparr>,
     y_files := hash_table_init ''file-hash'' (y_files y) 1024,
     y_obs_files := hash_table_init ''obs-file-hash'' (y_obs_files y) 64\<rparr>"

definition tmp_template :: "'w conf_env \<Rightarrow> 'w run \<Rightarrow> string" where
  "tmp_template e u =
     (case cf_tmp_dir (ru_conf u) of
        Some d \<Rightarrow> d
      | None \<Rightarrow> (case e_getenv e ''TMPDIR'' (y_world (ru_sys u)) of None \<Rightarrow> ''/tmp'' | Some d \<Rightarrow> d)) @ ''/opkg-XXXXXX''"

definition load_tables_part :: "'w conf_env \<Rightarrow> 'w run \<Rightarrow> (('w run \<Rightarrow> 'w run) option \<times> 'w run) option" where
  "load_tables_part e u =
     (case e_mkdtemp e (tmp_template e u) (y_world (ru_sys u)) of
        (d, w1) \<Rightarrow>
          let u1 = in_world (\<lambda>_. w1) (in_conf (\<lambda>c. c\<lparr>cf_tmp_dir := d\<rparr>) u)
          in if d = None then Some (Some (load_err3 e), u1)
             else
               let u2 = in_conf (default_conf e) (u1\<lparr>ru_sys := init_tables (ru_sys u1)\<rparr>)
               in do { (err, c, w2) \<leftarrow> resolve_pkg_dest_list e (ru_conf u2, y_world (ru_sys u2));
                       let u3 = in_world (\<lambda>_. w2) (u2\<lparr>ru_conf := c\<rparr>);
                       Some (if err \<noteq> 0 then (Some (load_err4 e), u3)
                             else (None, in_conf (\<lambda>c. c\<lparr>cf_tmp_dest_list := []\<rparr>) u3)) })"

definition opkg_conf_load :: "'w conf_env \<Rightarrow> 'w run \<Rightarrow> (int \<times> 'w run) option" where
  "opkg_conf_load e u =
     (case load_files_part e u of
        (Some label, u1) \<Rightarrow> Some (-1, label u1)
      | (None, u1) \<Rightarrow>
          (case load_lock_part e u1 of
             (Some label, u2) \<Rightarrow> Some (-1, label u2)
           | (None, u2) \<Rightarrow>
               do { (stop, u3) \<leftarrow> load_tables_part e u2;
                    Some (case stop of Some label \<Rightarrow> (-1, label u3) | None \<Rightarrow> (0, u3)) }))"

text \<open>The end of a run. A freed pointer keeps its last value.\<close>

definition opkg_conf_deinit :: "'w conf_env \<Rightarrow> 'w run \<Rightarrow> 'w run" where
  "opkg_conf_deinit e u =
     (let u1 = in_world (\<lambda>w. case cf_tmp_dir (ru_conf u) of None \<Rightarrow> w | Some d \<Rightarrow> e_rm_r e d w) u;
          u2 = in_conf (\<lambda>c. free_strings (deinit_lists c)) (u1\<lparr>ru_sys := deinit_tables (ru_sys u1)\<rparr>);
          u3 = (if ru_lock_fd u2 then in_world (\<lambda>w. ce_close e (ce_unlock e w)) u2 else u2)
      in in_world (\<lambda>w. case ru_lock_file u3 of None \<Rightarrow> w | Some f \<Rightarrow> snd (e_unlink e f w)) u3)"

section \<open>A configuration file is read as it was written\<close>

type_synonym directive = "string \<times> string \<times> string \<times> string option"

text \<open>Names and values in quotation marks, so that they may be empty and have spaces.\<close>

definition quoted :: "string \<Rightarrow> string" where
  "quoted s = CHR 0x22 # s @ [CHR 0x22]"

definition directive_line :: "directive \<Rightarrow> string" where
  "directive_line d =
     (case d of (type, name, val, extra) \<Rightarrow>
        type @ CHR '' '' # quoted name @ CHR '' '' # quoted val @ (case extra of None \<Rightarrow> [] | Some x \<Rightarrow> CHR '' '' # x))"

definition bare_word :: "string \<Rightarrow> bool" where
  "bare_word s \<longleftrightarrow> s \<noteq> [] \<and> (\<forall>c \<in> set s. \<not> isspace c)"

definition directive_ok :: "directive \<Rightarrow> bool" where
  "directive_ok d \<longleftrightarrow>
     (case d of (type, name, val, extra) \<Rightarrow>
        bare_word type \<and> hd type \<noteq> CHR ''#'' \<and> hd type \<noteq> CHR 0x22 \<and> CHR 0x22 \<notin> set name \<and> CHR 0x22 \<notin> set val \<and>
        (\<forall>x. extra = Some x \<longrightarrow> bare_word x))"

lemma isspace_quotes [simp]: "isspace CHR '' ''" "\<not> isspace CHR 0x22"
  by (simp_all add: isspace_def is_space_def cval_def)

lemma skip_bare: "bare_word s \<Longrightarrow> dropWhile isspace (s @ t) = s @ t"
  by (cases s) (simp_all add: bare_word_def)

lemma bare_run:
  assumes "\<forall>c \<in> set s. \<not> isspace c" "t = [] \<or> isspace (hd t)"
  shows "takeWhile (\<lambda>c. \<not> isspace c) (s @ t) = s" "dropWhile (\<lambda>c. \<not> isspace c) (s @ t) = t"
  using assms by (cases t; simp add: takeWhile_append2 dropWhile_append2)+

lemma bare_conf_word:
  assumes "bare_word s" "hd s \<noteq> CHR 0x22" "t = [] \<or> isspace (hd t)"
  shows "conf_word ok (s @ t) = (s, t)"
proof -
  have "quoted_text (s @ t) = None" using assms(1,2) by (cases s) (simp_all add: quoted_text_def bare_word_def)
  moreover have "\<forall>c \<in> set s. \<not> isspace c" using assms(1) by (simp add: bare_word_def)
  ultimately show ?thesis
    using bare_run [OF _ assms(3)] skip_bare [OF assms(1)] by (simp add: conf_word_def)
qed

lemma until_char:
  assumes "x \<notin> set s"
  shows "takeWhile (\<lambda>c. c \<noteq> x) (s @ x # t) = s" "dropWhile (\<lambda>c. c \<noteq> x) (s @ x # t) = x # t"
  using assms by (induction s) auto

lemma quoted_conf_word:
  assumes "CHR 0x22 \<notin> set s" "ok t"
  shows "conf_word ok (CHR '' '' # quoted s @ t) = (s, t)"
proof -
  have "takeWhile (\<lambda>c. c \<noteq> CHR 0x22) (s @ CHR 0x22 # t) = s" "dropWhile (\<lambda>c. c \<noteq> CHR 0x22) (s @ CHR 0x22 # t) = CHR 0x22 # t"
    by (rule until_char [OF assms(1)])+
  then show ?thesis using assms(2) by (simp add: conf_word_def quoted_text_def quoted_def)
qed

lemma conf_line_directive:
  assumes "directive_ok (type, name, val, extra)"
  shows "conf_line (directive_line (type, name, val, extra)) = (type, name, val, extra, False)"
proof -
  let ?x = "case extra of None \<Rightarrow> [] | Some x \<Rightarrow> CHR '' '' # x"
  have a: "bare_word type" "hd type \<noteq> CHR 0x22" "CHR 0x22 \<notin> set name" "CHR 0x22 \<notin> set val" "\<forall>x. extra = Some x \<longrightarrow> bare_word x"
    using assms by (simp_all add: directive_ok_def)
  have x: "?x = [] \<or> isspace (hd ?x)" by (simp split: option.splits)
  have tail: "dropWhile isspace ?x = (case extra of None \<Rightarrow> [] | Some x \<Rightarrow> x)"
    using a(5) skip_bare [of _ "[]"] by (simp split: option.splits)
  show ?thesis
  proof (cases extra)
    case None
    then show ?thesis
      using bare_conf_word [OF a(1,2), of "CHR '' '' # quoted name @ CHR '' '' # quoted val @ ?x" "\<lambda>_. True"]
        quoted_conf_word [OF a(3), of "\<lambda>_. True" "CHR '' '' # quoted val @ ?x"]
        quoted_conf_word [where ok = "\<lambda>rest. rest = [] \<or> isspace (hd rest)", OF a(4) x] tail
      by (simp add: conf_line_def directive_line_def)
  next
    case (Some w)
    then have w: "w \<noteq> []" "\<forall>c \<in> set w. \<not> isspace c" using a(5) by (simp_all add: bare_word_def)
    have run: "takeWhile (\<lambda>c. \<not> isspace c) w = w" "dropWhile (\<lambda>c. \<not> isspace c) w = []"
      using bare_run [OF w(2), of "[]"] by simp_all
    have some: "\<exists>c \<in> set w. \<not> isspace c" using w by (cases w) auto
    show ?thesis
      using bare_conf_word [OF a(1,2), of "CHR '' '' # quoted name @ CHR '' '' # quoted val @ ?x" "\<lambda>_. True"]
        quoted_conf_word [OF a(3), of "\<lambda>_. True" "CHR '' '' # quoted val @ ?x"]
        quoted_conf_word [where ok = "\<lambda>rest. rest = [] \<or> isspace (hd rest)", OF a(4) x] tail Some w(1) some
      by (simp add: run conf_line_def directive_line_def)
  qed
qed

lemma directive_no_comment: "directive_ok d \<Longrightarrow> \<not> comment_line (directive_line d)"
  by (cases d; cases "fst d") (auto simp: directive_ok_def directive_line_def comment_line_def bare_word_def)

lemma conf_lines_cons:
  assumes "newline \<notin> set l"
  shows "conf_lines (l @ newline # fp) c = conf_lines fp (if comment_line l then c else conf_directive (conf_line l) c)"
proof -
  have "takeWhile (\<lambda>c. c \<noteq> newline) (l @ newline # fp) = l" "dropWhile (\<lambda>c. c \<noteq> newline) (l @ newline # fp) = newline # fp"
    by (rule until_char [OF assms])+
  then show ?thesis by (subst conf_lines.simps) (simp add: file_read_line_alloc_reads_line)
qed

lemma conf_lines_nil: "conf_lines [] c = c"
  by (subst conf_lines.simps) (simp add: file_read_line_alloc_reads_line)

text \<open>A file of comments (\<open>Inl\<close>) and directives (\<open>Inr\<close>).\<close>

definition conf_file_line :: "string + directive \<Rightarrow> string" where
  "conf_file_line x = (case x of Inl s \<Rightarrow> s | Inr d \<Rightarrow> directive_line d)"

definition conf_file_ok :: "string + directive \<Rightarrow> bool" where
  "conf_file_ok x \<longleftrightarrow> newline \<notin> set (conf_file_line x) \<and> (case x of Inl s \<Rightarrow> comment_line s | Inr d \<Rightarrow> directive_ok d)"

fun apply_directive :: "string + directive \<Rightarrow> conf \<Rightarrow> conf" where
  "apply_directive (Inl s) c = c"
| "apply_directive (Inr (type, name, val, extra)) c = conf_directive (type, name, val, extra, False) c"

lemma conf_lines_directives:
  assumes "\<forall>x \<in> set xs. conf_file_ok x"
  shows "conf_lines (unlines (map conf_file_line xs)) c = fold apply_directive xs c"
  using assms
proof (induction xs arbitrary: c)
  case Nil
  then show ?case by (simp add: conf_lines_nil)
next
  case (Cons x xs)
  then have n: "newline \<notin> set (conf_file_line x)" by (simp add: conf_file_ok_def)
  have "(if comment_line (conf_file_line x) then c else conf_directive (conf_line (conf_file_line x)) c) = apply_directive x c"
  proof (cases x)
    case (Inl s)
    then show ?thesis using Cons.prems by (simp add: conf_file_ok_def conf_file_line_def)
  next
    case (Inr d)
    obtain ty n v ex where "d = (ty, n, v, ex)" by (metis prod_cases4)
    then show ?thesis
      using Inr Cons.prems directive_no_comment conf_line_directive by (simp add: conf_file_ok_def conf_file_line_def)
  qed
  then show ?case using Cons conf_lines_cons [OF n] by simp
qed

text \<open>
  (C36) A configuration file is read as it was written: from a file of comment lines and directives,
  whose names and values are written in quotation marks and may be empty or have spaces, the reader
  carries out exactly the directives, in order, each with its type, name, value and extra word, and
  nothing for the comments. The result is 0, unless an expression of the reader does not compile,
  when nothing is read and its error code is the result, or the file cannot be closed, when it is -1.
\<close>

theorem conf_file_roundtrip:
  assumes "\<forall>x \<in> set xs. conf_file_ok x" "e_file e f w = Some (unlines (map conf_file_line xs), err)"
  shows "opkg_conf_parse_file e f w c =
    (if \<not> ce_fclose e f w then -1
     else if fst (ce_regcomp e w) \<noteq> 0 then fst (ce_regcomp e w) else snd (ce_regcomp e w),
     if ce_regcomp e w = (0, 0) then fold apply_directive xs c else c)"
  using assms by (cases "ce_regcomp e w") (simp add: opkg_conf_parse_file_def conf_lines_directives)

definition feed_directives :: "(string + directive) list" where
  "feed_directives = [Inl ''# feeds'', Inr (''src/gz'', ''base'', ''http://host/base'', None), Inr (''dest'', ''root'', ''/'', None),
     Inr (''src/gz'', ''base'', ''http://other'', None), Inr (''option'', ''tmp_dir'', ''/my tmp'', None)]"

text \<open>A system without configuration files, where everything succeeds; the world is whether the lock is held.\<close>

definition bare_env :: "bool conf_env" where
  "bare_env = env.extend (idle_env\<lparr>e_mkdtemp := (\<lambda>t w. (Some ''/tmp/opkg-a'', w))\<rparr>)
     \<lparr>ce_glob = (\<lambda>p w. Some []), ce_creat = (\<lambda>f w. (True, w)), ce_lock = (\<lambda>w. (True, True)), ce_unlock = (\<lambda>w. False),
      ce_close = (\<lambda>w. False), ce_regcomp = (\<lambda>w. (0, 0)), ce_fclose = (\<lambda>f w. True),
      ce_opkglibdir = ''/usr/lib'', ce_opkgetcdir = ''/etc'', ce_lockfile = ''/usr/lib/opkg/lock'', ce_host_cpu = ''mips''\<rparr>"

definition feed_env :: "bool conf_env" where
  "feed_env = bare_env\<lparr>e_file := (\<lambda>f w. Some (unlines (map conf_file_line feed_directives), False))\<rparr>"

definition blank_conf :: conf where
  "blank_conf = \<lparr>cf_pkg_src_list = [], cf_dist_src_list = [], cf_pkg_dest_list = [], cf_tmp_dest_list = [], cf_arch_list = [],
     cf_restrict_to_default_dest = False, cf_default_dest = None, cf_dest_str = None, cf_conf_file = None, cf_tmp_dir = None,
     cf_lists_dir = None, cf_force_depends = 0, cf_force_defaults = 0, cf_force_maintainer = 0, cf_force_overwrite = 0,
     cf_force_downgrade = 0, cf_force_reinstall = 0, cf_force_space = 0, cf_force_postinstall = 0, cf_check_signature = 0,
     cf_nodeps = 0, cf_offline_root = None, cf_overlay_root = None, cf_query_all = 0, cf_verbosity = 0, cf_noaction = 0,
     cf_download_only = 0, cf_cache = None, cf_http_proxy = None, cf_ftp_proxy = None, cf_no_proxy = None,
     cf_proxy_user = None, cf_proxy_passwd = None\<rparr>"

theorem conf_file_roundtrip_witness:
  "opkg_conf_parse_file feed_env ''/etc/opkg.conf'' False blank_conf =
     (0, blank_conf\<lparr>cf_pkg_src_list := [\<lparr>sr_name = ''base'', sr_value = ''http://host/base'', sr_extra_data = None, sr_gzip = True\<rparr>],
        cf_tmp_dest_list := [(''root'', ''/'')], cf_tmp_dir := Some ''/my tmp''\<rparr>)"
proof -
  have ok: "\<forall>x \<in> set feed_directives. conf_file_ok x"
    by (simp add: feed_directives_def conf_file_ok_def conf_file_line_def directive_line_def directive_ok_def bare_word_def quoted_def
        comment_line_def isspace_def is_space_def cval_def)
  have f: "e_file feed_env ''/etc/opkg.conf'' False = Some (unlines (map conf_file_line feed_directives), False)"
    "ce_regcomp feed_env w = (0, 0)" "ce_fclose feed_env g w" for g w
    by (simp_all add: feed_env_def bare_env_def env.defs)
  show ?thesis
    unfolding conf_file_roundtrip [OF ok f(1)]
    by (simp add: f feed_directives_def conf_directive_def add_src_def pkg_src_init_def opkg_conf_set_option_def options_table_def
        set_slot_def strcmp_eq_0 blank_conf_def)
qed

section \<open>What a successful start guarantees\<close>

text \<open>Directives change neither the destinations nor what the command line set, and keep names of sources distinct.\<close>

definition files_keep :: "conf \<Rightarrow> conf \<Rightarrow> bool" where
  "files_keep c c' \<longleftrightarrow> cf_pkg_dest_list c' = cf_pkg_dest_list c \<and> cf_default_dest c' = cf_default_dest c \<and>
     cf_restrict_to_default_dest c' = cf_restrict_to_default_dest c \<and> cf_dest_str c' = cf_dest_str c \<and>
     (distinct (map sr_name (cf_pkg_src_list c)) \<longrightarrow> distinct (map sr_name (cf_pkg_src_list c'))) \<and>
     (distinct (map sr_name (cf_dist_src_list c)) \<longrightarrow> distinct (map sr_name (cf_dist_src_list c')))"

lemma files_keep_refl: "files_keep c c"
  by (simp add: files_keep_def)

lemma files_keep_trans: "files_keep c c' \<Longrightarrow> files_keep c' c'' \<Longrightarrow> files_keep c c''"
  by (simp add: files_keep_def)

definition slot_keeps :: "opkg_option \<Rightarrow> bool" where
  "slot_keeps opt \<longleftrightarrow>
     (case opt of OPKG_OPT_TYPE_BOOL g u \<Rightarrow> \<forall>v c. files_keep c (u v c) | OPKG_OPT_TYPE_INT g u \<Rightarrow> \<forall>v c. files_keep c (u v c)
      | OPKG_OPT_TYPE_STRING g u \<Rightarrow> \<forall>v c. files_keep c (u v c))"

lemma slots_keep: "\<forall>opt \<in> set (map snd options_table). slot_keeps opt"
  by (simp add: options_table_def slot_keeps_def files_keep_def)

lemma set_option_keeps: "files_keep c (snd (opkg_conf_set_option name val c))"
proof (cases "find (\<lambda>(n, opt). strcmp n name = 0) options_table")
  case None
  then show ?thesis by (simp add: opkg_conf_set_option_def files_keep_refl)
next
  case (Some r)
  then have "r \<in> set options_table" by (auto simp: find_Some_iff in_set_conv_nth)
  then have "slot_keeps (snd r)" using slots_keep by auto
  then show ?thesis
    using Some files_keep_refl [of c]
    by (cases "snd r"; cases val) (auto simp: opkg_conf_set_option_def set_slot_def slot_keeps_def split: prod.splits)
qed

lemma add_src_distinct: "distinct (map sr_name l) \<Longrightarrow> distinct (map sr_name (add_src name val extra gz l))"
  by (auto simp: add_src_def pkg_src_init_def list_ex_iff strcmp_eq_0)

lemma conf_directive_keeps: "files_keep c (conf_directive d c)"
proof -
  obtain ty n v ex g where d: "d = (ty, n, v, ex, g)" by (metis prod_cases5)
  show ?thesis
    unfolding d conf_directive_def prod.case
    using set_option_keeps [of c n "Some v"] add_src_distinct by (simp add: files_keep_refl) (auto simp: files_keep_def)
qed

lemma conf_lines_keep: "files_keep c (conf_lines fp c)"
proof (induction fp c rule: conf_lines.induct)
  case (1 fp c)
  show ?case
  proof (cases "file_read_line_alloc fp")
    case (Pair l rest)
    then show ?thesis
    proof (cases l)
      case (Some line)
      have "files_keep c (if comment_line line then c else conf_directive (conf_line line) c)"
        by (simp add: files_keep_refl conf_directive_keeps)
      from files_keep_trans [OF this 1 [OF Pair [symmetric] Some]] show ?thesis
        using Pair Some by (subst conf_lines.simps) simp
    qed (subst conf_lines.simps, simp add: files_keep_refl)
  qed
qed

lemma parse_file_keeps: "files_keep c (snd (opkg_conf_parse_file e f w c))"
  by (simp add: opkg_conf_parse_file_def Let_def conf_lines_keep files_keep_refl split: option.split prod.split)

lemma conf_files_keep: "files_keep c (snd (load_conf_files e fs w c))"
proof (induction fs arbitrary: c)
  case (Cons f fs)
  obtain err c1 where 1: "opkg_conf_parse_file e f w c = (err, c1)" by fastforce
  then have "files_keep c c1" using parse_file_keeps [of c e f w] by simp
  then show ?case using files_keep_trans [OF _ Cons.IH [of c1]] Cons.IH [of c] 1 by simp
qed (simp add: files_keep_refl)

text \<open>The destinations resolved so far.\<close>

definition dests_ok :: "conf \<Rightarrow> bool" where
  "dests_ok c \<longleftrightarrow>
     (\<forall>d \<in> set (cf_pkg_dest_list c). pd_root_dir d \<noteq> [] \<and> last (pd_root_dir d) = CHR ''/'') \<and>
     (case cf_default_dest c of
        None \<Rightarrow> cf_pkg_dest_list c = [] \<and> \<not> cf_restrict_to_default_dest c
      | Some i \<Rightarrow> i < length (cf_pkg_dest_list c) \<and>
          (cf_restrict_to_default_dest c \<longrightarrow> cf_dest_str c = Some (pd_name (cf_pkg_dest_list c ! i))))"

definition start_keeps :: "conf \<Rightarrow> conf \<Rightarrow> bool" where
  "start_keeps c c' \<longleftrightarrow> cf_pkg_src_list c' = cf_pkg_src_list c \<and> cf_dist_src_list c' = cf_dist_src_list c \<and>
     cf_arch_list c' = cf_arch_list c \<and> cf_lists_dir c' = cf_lists_dir c \<and> cf_tmp_dir c' = cf_tmp_dir c \<and>
     cf_dest_str c' = cf_dest_str c"

lemma resolve_dest_step:
  assumes "resolve_dest e nv (c, w) = Some (c', w')" "dests_ok c"
  shows "dests_ok c' \<and> start_keeps c c' \<and> cf_pkg_dest_list c' \<noteq> []"
proof -
  obtain l d w1 where l: "cf_lists_dir c = Some l"
    and d: "pkg_dest_init e (fst nv) (case cf_offline_root c of None \<Rightarrow> snd nv | Some r \<Rightarrow> r @ snd nv) l w = Some (d, w1)"
    using assms(1) by (auto simp: resolve_dest_def pkg_dest_list_append_def Let_def split: Option.bind_splits)
  have n: "pd_name d = fst nv" "pd_root_dir d \<noteq> []" "last (pd_root_dir d) = CHR ''/''"
    using d by (auto simp: pkg_dest_init_def Let_def split: if_splits)
  let ?c1 = "c\<lparr>cf_pkg_dest_list := cf_pkg_dest_list c @ [d]\<rparr>"
  let ?i = "length (cf_pkg_dest_list c)"
  let ?c2 = "if cf_default_dest c = None then ?c1\<lparr>cf_default_dest := Some ?i\<rparr> else ?c1"
  have c': "c' = (if cf_dest_str c = Some (fst nv) then ?c2\<lparr>cf_default_dest := Some ?i, cf_restrict_to_default_dest := True\<rparr> else ?c2)"
    using assms(1) l d
    by (auto simp: resolve_dest_def pkg_dest_list_append_def Let_def strcmp_eq_0 split: option.splits if_splits)
  have "dests_ok c'"
    using assms(2) n unfolding c' dests_ok_def by (auto simp: nth_append split: option.splits)
  then show ?thesis unfolding c' by (simp add: start_keeps_def)
qed

lemma resolve_dests:
  assumes "foldM (resolve_dest e) nvs (c, w) = Some (c', w')" "dests_ok c"
  shows "dests_ok c' \<and> start_keeps c c' \<and> (nvs \<noteq> [] \<or> cf_pkg_dest_list c \<noteq> [] \<longrightarrow> cf_pkg_dest_list c' \<noteq> [])"
  using assms
proof (induction nvs arbitrary: c w)
  case Nil
  then show ?case by (simp add: start_keeps_def)
next
  case (Cons nv nvs)
  then obtain c1 w1 where 1: "resolve_dest e nv (c, w) = Some (c1, w1)" "foldM (resolve_dest e) nvs (c1, w1) = Some (c', w')"
    by (auto split: Option.bind_splits)
  from resolve_dest_step [OF 1(1) Cons.prems(2)] Cons.IH [OF 1(2)] show ?case by (simp add: start_keeps_def)
qed

definition ready :: "conf \<Rightarrow> bool" where
  "ready c \<longleftrightarrow> dests_ok c \<and> cf_default_dest c \<noteq> None \<and> cf_lists_dir c \<noteq> None \<and> cf_tmp_dir c \<noteq> None \<and> cf_arch_list c \<noteq> [] \<and>
     distinct (map sr_name (cf_pkg_src_list c)) \<and> distinct (map sr_name (cf_dist_src_list c)) \<and>
     (\<forall>s. cf_dest_str c = Some s \<longrightarrow> cf_restrict_to_default_dest c)"

definition startable :: "conf \<Rightarrow> bool" where
  "startable c \<longleftrightarrow> cf_pkg_dest_list c = [] \<and> distinct (map sr_name (cf_pkg_src_list c)) \<and> distinct (map sr_name (cf_dist_src_list c))"

lemma glob_part_ok:
  assumes "load_glob_part e u = (None, u1)"
  shows "files_keep (ru_conf u) (ru_conf u1) \<and> ru_sys u1 = ru_sys u"
proof -
  obtain fs err where "load_conf_files e fs (y_world (ru_sys u)) (ru_conf u) = (err, ru_conf u1)" "ru_sys u1 = ru_sys u"
    using assms by (auto simp: load_glob_part_def Let_def split: option.splits prod.splits if_splits)
  then show ?thesis using conf_files_keep [of "ru_conf u" e fs "y_world (ru_sys u)"] by simp
qed

lemma files_part_ok:
  assumes "load_files_part e u = (None, u1)" "startable (ru_conf u)"
  shows "startable (ru_conf u1) \<and> cf_default_dest (ru_conf u1) = None \<and> \<not> cf_restrict_to_default_dest (ru_conf u1) \<and>
    ru_sys u1 = ru_sys u"
proof -
  let ?w = "y_world (ru_sys u)"
  let ?c0 = "(ru_conf u)\<lparr>cf_restrict_to_default_dest := False, cf_default_dest := None,
    cf_offline_root := (if cf_offline_root (ru_conf u) = None then e_getenv e ''OFFLINE_ROOT'' ?w else cf_offline_root (ru_conf u))\<rparr>"
  have ok: "startable c' \<and> cf_default_dest c' = None \<and> \<not> cf_restrict_to_default_dest c'" if "files_keep ?c0 c'" for c'
    using that assms(2) by (simp add: startable_def files_keep_def)
  obtain u2 where u2: "load_glob_part e u2 = (None, u1)" "ru_sys u2 = ru_sys u" "files_keep ?c0 (ru_conf u2)"
  proof (cases "cf_conf_file ?c0")
    case None
    then have "load_glob_part e (u\<lparr>ru_conf := ?c0\<rparr>) = (None, u1)"
      using assms(1) by (simp add: load_files_part_def in_conf_def)
    then show thesis by (rule that) (simp_all add: files_keep_refl)
  next
    case (Some f)
    obtain err c where p: "opkg_conf_parse_file e f ?w ?c0 = (err, c)" by fastforce
    then have "load_glob_part e (u\<lparr>ru_conf := c\<rparr>) = (None, u1)"
      using assms(1) Some
      by (cases "e_stat e f ?w"; cases "err = 0") (simp_all add: load_files_part_def in_conf_def Let_def)
    then show thesis by (rule that) (use p parse_file_keeps [of ?c0 e f ?w] in simp_all)
  qed
  then show ?thesis using ok [OF files_keep_trans [OF u2(3)]] glob_part_ok [OF u2(1)] by simp
qed

lemma lock_part_ok:
  assumes "load_lock_part e u = (None, u1)"
  shows "ru_conf u1 = ru_conf u \<and> ru_lock_fd u1 \<and> ru_lock_file u1 \<noteq> None \<and>
    (\<exists>w. ce_lock e w = (True, y_world (ru_sys u1)))"
  using assms by (auto simp: load_lock_part_def Let_def in_world_def split: prod.splits if_splits bool.splits)

text \<open>What survives the making of directories survives the resolution of the destinations.\<close>

lemma resolve_world:
  assumes "\<And>d w. L w \<Longrightarrow> L (snd (e_mkdir_hier e d w))" "resolve_pkg_dest_list e (c, w) = Some (err, c', w')" "L w"
  shows "L w'"
proof -
  have dirs: "L w'" if "pkg_dest_init e n rd ld w = Some (d, w')" "L w" for n rd ld w d w'
    using that(1) by (simp add: pkg_dest_init_def Let_def split: if_split_asm) (use that(2) assms(1) in auto)
  have step: "L w'" if rd: "resolve_dest e nv (c, w) = Some (c', w')" "L w" for nv c w c' w'
  proof -
    obtain l d w1 where l: "cf_lists_dir c = Some l"
      and d: "pkg_dest_init e (fst nv) (case cf_offline_root c of None \<Rightarrow> snd nv | Some r \<Rightarrow> r @ snd nv) l w = Some (d, w1)"
      using rd(1) by (auto simp: resolve_dest_def pkg_dest_list_append_def Let_def split: Option.bind_splits)
    then have "w1 = w'" using rd(1) by (auto simp: resolve_dest_def pkg_dest_list_append_def Let_def)
    then show ?thesis using dirs [OF d rd(2)] by simp
  qed
  have "L w'" if "foldM (resolve_dest e) nvs (c, w) = Some (c', w')" "L w" for nvs c w c' w'
    using that
  proof (induction nvs arbitrary: c w)
    case (Cons nv nvs)
    then obtain c1 w1 where "resolve_dest e nv (c, w) = Some (c1, w1)" "foldM (resolve_dest e) nvs (c1, w1) = Some (c', w')"
      by (auto split: Option.bind_splits)
    then show ?case using Cons.IH step Cons.prems(2) by blast
  qed simp
  then show ?thesis using assms(2,3) by (auto simp: resolve_pkg_dest_list_def split: Option.bind_splits)
qed

lemma tables_part_world:
  assumes "load_tables_part e u = Some (None, u1)" "L (y_world (ru_sys u))"
    "\<And>t w. L w \<Longrightarrow> L (snd (e_mkdtemp e t w))" "\<And>d w. L w \<Longrightarrow> L (snd (e_mkdir_hier e d w))"
  shows "L (y_world (ru_sys u1))"
proof -
  obtain d w1 where d: "e_mkdtemp e (tmp_template e u) (y_world (ru_sys u)) = (d, w1)" by fastforce
  then have "L w1" using assms(3) [OF assms(2), of "tmp_template e u"] by simp
  then show ?thesis
    using assms(1) d resolve_world [where L = L and e = e] assms(4)
    by (auto simp: load_tables_part_def Let_def in_conf_def in_world_def init_tables_def split: Option.bind_splits if_splits)
qed

lemma default_conf_fields:
  "cf_pkg_dest_list (default_conf e c) = cf_pkg_dest_list c" "cf_default_dest (default_conf e c) = cf_default_dest c"
  "cf_restrict_to_default_dest (default_conf e c) = cf_restrict_to_default_dest c" "cf_dest_str (default_conf e c) = cf_dest_str c"
  "cf_pkg_src_list (default_conf e c) = cf_pkg_src_list c" "cf_dist_src_list (default_conf e c) = cf_dist_src_list c"
  "cf_tmp_dir (default_conf e c) = cf_tmp_dir c" "cf_lists_dir (default_conf e c) \<noteq> None"
  "cf_arch_list (default_conf e c) \<noteq> []" "cf_tmp_dest_list (default_conf e c) \<noteq> []"
  by (simp_all add: default_conf_def Let_def)

lemma tables_part_ok:
  assumes "load_tables_part e u = Some (None, u1)" "startable (ru_conf u)" "cf_default_dest (ru_conf u) = None"
    "\<not> cf_restrict_to_default_dest (ru_conf u)"
  shows "ready (ru_conf u1) \<and> ru_lock_fd u1 = ru_lock_fd u \<and> ru_lock_file u1 = ru_lock_file u"
proof -
  obtain d w1 where d: "e_mkdtemp e (tmp_template e u) (y_world (ru_sys u)) = (Some d, w1)"
    using assms(1) by (auto simp: load_tables_part_def Let_def split: prod.splits if_splits)
  let ?c = "default_conf e ((ru_conf u)\<lparr>cf_tmp_dir := Some d\<rparr>)"
  obtain c w2 w0 where r: "resolve_pkg_dest_list e (?c, w0) = Some (0, c, w2)" "ru_conf u1 = c\<lparr>cf_tmp_dest_list := []\<rparr>"
      "ru_lock_fd u1 = ru_lock_fd u" "ru_lock_file u1 = ru_lock_file u"
    using assms(1) d by (auto simp: load_tables_part_def Let_def in_conf_def in_world_def split: Option.bind_splits if_splits)
  have f: "foldM (resolve_dest e) (cf_tmp_dest_list ?c) (?c, w0) = Some (c, w2)" "\<forall>s. cf_dest_str c = Some s \<longrightarrow> cf_restrict_to_default_dest c"
    using r(1) by (auto simp: resolve_pkg_dest_list_def split: Option.bind_splits if_splits)
  have "dests_ok ?c" using assms(2-4) by (simp add: dests_ok_def default_conf_fields startable_def)
  from resolve_dests [OF f(1) this] have "dests_ok c" "start_keeps ?c c" "cf_pkg_dest_list c \<noteq> []"
    by (simp_all add: default_conf_fields)
  then have "ready (c\<lparr>cf_tmp_dest_list := []\<rparr>)"
    using f(2) assms(2) by (auto simp: ready_def start_keeps_def default_conf_fields startable_def dests_ok_def split: option.splits)
  then show ?thesis using r by simp
qed

text \<open>
  (C35) What a successful start guarantees: after \<open>opkg_conf_load\<close> has returned 0 there is a default
  destination, and it is one of the destinations, all of whose root directories end with a slash;
  when the user chose a destination by name, it is the default one and the run is restricted to it;
  there are a list directory, a temporary directory and at least one architecture; no two sources
  and no two distributions have the same name, however the files repeat them; the lock file is open,
  and the lock is held: whatever a successful \<open>lockf\<close> establishes (\<open>L\<close>), and the making of
  directories does not undo, is true of the system. Any other result is -1.
\<close>

theorem opkg_conf_load_ready:
  assumes "opkg_conf_load e u = Some (r, u')" "startable (ru_conf u)"
    and "\<And>w w'. ce_lock e w = (True, w') \<Longrightarrow> L w'"
    and "\<And>t w. L w \<Longrightarrow> L (snd (e_mkdtemp e t w))" "\<And>d w. L w \<Longrightarrow> L (snd (e_mkdir_hier e d w))"
  shows "if r = 0 then ready (ru_conf u') \<and> ru_lock_fd u' \<and> ru_lock_file u' \<noteq> None \<and> L (y_world (ru_sys u')) else r = -1"
proof (cases "r = 0")
  case True
  then obtain u1 u2 where 1: "load_files_part e u = (None, u1)" "load_lock_part e u1 = (None, u2)" "load_tables_part e u2 = Some (None, u')"
    using assms(1) by (auto simp: opkg_conf_load_def split: prod.splits option.splits Option.bind_splits)
  note 2 = files_part_ok [OF 1(1) assms(2)] lock_part_ok [OF 1(2)]
  then have "L (y_world (ru_sys u2))" using assms(3) by blast
  then have "L (y_world (ru_sys u'))" using tables_part_world [OF 1(3) _ assms(4,5)] by simp
  moreover have "ready (ru_conf u') \<and> ru_lock_fd u' = ru_lock_fd u2 \<and> ru_lock_file u' = ru_lock_file u2"
    using 2 tables_part_ok [OF 1(3)] by simp
  ultimately show ?thesis using True 2 by simp
next
  case False
  then have "r = -1" using assms(1) by (auto simp: opkg_conf_load_def split: prod.splits option.splits Option.bind_splits)
  then show ?thesis using False by simp
qed

definition first_run :: "bool run" where
  "first_run = \<lparr>ru_conf = blank_conf, ru_sys = example_sys False, ru_lock_file = None, ru_lock_fd = False\<rparr>"

text \<open>Without any configuration file the root directory is the only destination; the lock was free and is held.\<close>

theorem opkg_conf_load_ready_witness:
  "\<exists>u'. opkg_conf_load bare_env first_run = Some (0, u') \<and> ready (ru_conf u') \<and>
    map pd_root_dir (cf_pkg_dest_list (ru_conf u')) = [''/''] \<and> \<not> y_world (ru_sys first_run) \<and> y_world (ru_sys u')"
proof -
  have s: "startable (ru_conf first_run)" by (simp add: first_run_def blank_conf_def startable_def)
  obtain u' where u': "opkg_conf_load bare_env first_run = Some (0, u')" "map pd_root_dir (cf_pkg_dest_list (ru_conf u')) = [''/'']"
    by (simp add: opkg_conf_load_def load_files_part_def load_glob_part_def load_lock_part_def load_tables_part_def Let_def
        bare_env_def first_run_def blank_conf_def env.defs idle_env_def in_conf_def in_world_def default_conf_def init_tables_def
        resolve_pkg_dest_list_def resolve_dest_def pkg_dest_list_append_def pkg_dest_init_def)
  have "if (0 :: int) = 0 then ready (ru_conf u') \<and> ru_lock_fd u' \<and> ru_lock_file u' \<noteq> None \<and> y_world (ru_sys u') else (0 :: int) = -1"
    by (rule opkg_conf_load_ready [OF u'(1) s, where L = "\<lambda>w. w"]) (simp_all add: bare_env_def env.defs idle_env_def)
  then show ?thesis using u' by (auto simp: first_run_def example_sys_def)
qed

end
