(* ===== verification/Opkg_Api.thy ===== *)
theory Opkg_Api
  imports Opkg_Upgrade_List Opkg_Release Opkg_Conf
begin

text \<open>
  The interface of the library for other programs, \<open>libopkg/opkg.c\<close>: the start of a run, options,
  installation, removal and upgrade with reports of progress, the update of the lists, and queries.

  A report of progress is the action, the package and the percentage; the reports are collected in
  the order in which the callback gets them, and there are none when the callback is a null pointer.
  Only a download through curl, which is not part of this build, reports from within a download. A
  failing \<open>opkg_assert\<close> does not occur: names, values and callbacks are not null pointers here.
\<close>

section \<open>From the configuration to a run\<close>

text \<open>
  The globals that the other theories read: sources are numbered through both lists, destinations in
  their list. What only the command line can set, beside the files, is left as it is in \<open>e\<close>.
\<close>

definition conf_env :: "'w env \<Rightarrow> conf \<Rightarrow> 'w env option" where
  "conf_env e c =
     do { default \<leftarrow> cf_default_dest c;
          tmp \<leftarrow> cf_tmp_dir c;
          lists \<leftarrow> cf_lists_dir c;
          let srcs = cf_pkg_src_list c @ cf_dist_src_list c; n = length (cf_pkg_src_list c) in
          Some (e\<lparr>c_src := (\<lambda>r. srcs ! r), c_pkg_src_list := [0..<n], c_dist_src_list := [n..<length srcs],
                  c_dest := (\<lambda>d. cf_pkg_dest_list c ! d), c_dest_list := [0..<length (cf_pkg_dest_list c)],
                  c_default_dest := default, c_restrict_to_default_dest := cf_restrict_to_default_dest c,
                  c_arch_list := cf_arch_list c, c_tmp_dir := tmp, c_lists_dir := lists,
                  c_force_depends := cf_force_depends c \<noteq> 0, c_force_maintainer := cf_force_maintainer c \<noteq> 0,
                  c_force_overwrite := cf_force_overwrite c \<noteq> 0, c_force_downgrade := cf_force_downgrade c \<noteq> 0,
                  c_force_reinstall := cf_force_reinstall c \<noteq> 0, c_force_space := cf_force_space c \<noteq> 0,
                  c_force_postinstall := cf_force_postinstall c \<noteq> 0, c_nodeps := cf_nodeps c \<noteq> 0,
                  c_offline_root := cf_offline_root c, c_overlay_root := cf_overlay_root c,
                  c_query_all := cf_query_all c \<noteq> 0, c_verbosity := cf_verbosity c, c_noaction := cf_noaction c \<noteq> 0,
                  c_download_only := cf_download_only c \<noteq> 0, c_cache := cf_cache c,
                  c_http_proxy := cf_http_proxy c, c_ftp_proxy := cf_ftp_proxy c\<rparr>) }"

text \<open>What a started program has beside the configuration: the environment and the flags of the readers.\<close>

record 'w library =
  lb_run :: "'w run"
  lb_saved :: conf
  lb_env :: "'w env"
  lb_next :: pkg_ref
  lb_conffiles :: bool
  lb_description :: bool
  lb_reading :: bool

definition pkg_hash_deinit :: "'w run \<Rightarrow> 'w run" where
  "pkg_hash_deinit u =
     (let y = ru_sys u
      in u\<lparr>ru_sys := y\<lparr>y_store := (y_store y)\<lparr>s_hash := hash_table_deinit (s_hash (y_store y))\<rparr>\<rparr>\<rparr>)"

definition loaded :: "'w feed_state \<Rightarrow> 'w library \<Rightarrow> 'w library" where
  "loaded f lb =
     (let l = fd_load f; u = lb_run lb
      in lb\<lparr>lb_run := u\<lparr>ru_sys := (ru_sys u)\<lparr>y_store := l_store l\<rparr>\<rparr>, lb_env := fd_env f, lb_next := l_next l,
            lb_conffiles := l_conffiles l, lb_description := l_description l, lb_reading := fd_reading f\<rparr>)"

text \<open>Feeds, then status files; an error releases the tables of packages and everything else.\<close>

definition load_lists :: "'w conf_env \<Rightarrow> 'w library \<Rightarrow> (int \<times> 'w library) option" where
  "load_lists e lb =
     (let u = lb_run lb; w = y_world (ru_sys u) in
      do { env \<leftarrow> conf_env (lb_env lb) (ru_conf u);
           let n = length (cf_pkg_src_list (ru_conf u)) + length (cf_dist_src_list (ru_conf u));
               l = \<lparr>l_next = lb_next lb, l_conffiles = lb_conffiles lb, l_description = lb_description lb,
                    l_store = y_store (ru_sys u)\<rparr>;
               f = \<lparr>fd_env = env, fd_next_src = n, fd_freed = [], fd_reading = lb_reading lb, fd_load = l\<rparr> in
           do { (err, f1) \<leftarrow> pkg_hash_load_feeds w f;
                (err, f2) \<leftarrow> (if err \<noteq> 0 then Some (err, f1)
                              else map_option (\<lambda>(err, l). (err, f1\<lparr>fd_load := l\<rparr>)) (pkg_hash_load_status_files (fd_env f1) w (fd_load f1)));
                let lb1 = loaded f2 lb in
                Some (if err \<noteq> 0 then (-1, lb1\<lparr>lb_run := opkg_conf_deinit e (pkg_hash_deinit (lb_run lb1))\<rparr>) else (0, lb1)) } })"

definition opkg_new :: "'w conf_env \<Rightarrow> 'w library \<Rightarrow> (int \<times> 'w library) option" where
  "opkg_new e lb =
     (let u = lb_run lb; lb1 = lb\<lparr>lb_saved := ru_conf u\<rparr> in
      do { (err, u1) \<leftarrow> opkg_conf_load e (u\<lparr>ru_conf := snd (opkg_conf_init (ru_conf u))\<rparr>);
           if err \<noteq> 0 then Some (-1, lb1\<lparr>lb_run := opkg_conf_deinit e u1\<rparr>)
           else load_lists e (lb1\<lparr>lb_run := u1\<rparr>) })"

definition opkg_free :: "'w conf_env \<Rightarrow> 'w library \<Rightarrow> 'w library" where
  "opkg_free e lb = lb\<lparr>lb_run := opkg_conf_deinit e (lb_run lb)\<rparr>"

definition opkg_re_read_config_files :: "'w conf_env \<Rightarrow> 'w library \<Rightarrow> (int \<times> 'w library) option" where
  "opkg_re_read_config_files e lb =
     (let lb1 = opkg_free e lb in opkg_new e (lb1\<lparr>lb_run := (lb_run lb1)\<lparr>ru_conf := lb_saved lb1\<rparr>\<rparr>))"

section \<open>Options\<close>

text \<open>
  The position goes on only past options of another name: at the option that is looked for the loop
  stays. Behind the table is the row of null pointers, whose type is the first one, \<open>BOOL\<close>.
\<close>

partial_function (option) get_option_loop :: "string \<Rightarrow> nat \<Rightarrow> nat option" where
  "get_option_loop option i =
     (if i < length options_table
      then get_option_loop option (if strcmp (fst (options_table ! i)) option \<noteq> 0 then i + 1 else i)
      else Some i)"

datatype option_value = Int_Value int | Pointer_Value "string option"

text \<open>
  The value at a position of the table, or the read through the null pointer behind it. For a text
  the function copies the bytes at the address of the field itself, up to the first zero: \<open>raw\<close>
  are these bytes, the representation of a pointer.
\<close>

datatype read_error = Null_Read

definition read_option :: "(nat \<Rightarrow> string) \<Rightarrow> nat \<Rightarrow> conf \<Rightarrow> read_error + option_value" where
  "read_option raw i c =
     (if i < length options_table
      then case snd (options_table ! i) of
             OPKG_OPT_TYPE_BOOL g u \<Rightarrow> Inr (Int_Value (g c))
           | OPKG_OPT_TYPE_INT g u \<Rightarrow> Inr (Int_Value (g c))
           | OPKG_OPT_TYPE_STRING g u \<Rightarrow> Inr (Pointer_Value (Some (raw i)))
      else Inl Null_Read)"

text \<open>\<open>None\<close> is a loop that does not end.\<close>

definition opkg_get_option :: "(nat \<Rightarrow> string) \<Rightarrow> string \<Rightarrow> conf \<Rightarrow> (read_error + option_value) option" where
  "opkg_get_option raw option c = map_option (\<lambda>i. read_option raw i c) (get_option_loop option 0)"

text \<open>A value is a pointer to an integer or a text, as the type of the option says.\<close>

definition set_option_value :: "opkg_option \<Rightarrow> option_value \<Rightarrow> conf \<Rightarrow> conf option" where
  "set_option_value opt val c =
     (case (opt, val) of
        (OPKG_OPT_TYPE_BOOL g u, Int_Value v) \<Rightarrow> Some (u (if v = 0 then 0 else 1) c)
      | (OPKG_OPT_TYPE_INT g u, Int_Value v) \<Rightarrow> Some (u v c)
      | (OPKG_OPT_TYPE_STRING g u, Pointer_Value v) \<Rightarrow> Some (u v c)
      | _ \<Rightarrow> None)"

definition opkg_set_option :: "string \<Rightarrow> option_value \<Rightarrow> conf \<Rightarrow> conf option" where
  "opkg_set_option option val c =
     (case find (\<lambda>(n, opt). strcmp n option = 0) options_table of
        None \<Rightarrow> Some c | Some (n, opt) \<Rightarrow> set_option_value opt val c)"

section \<open>Packages\<close>

datatype opkg_action = NO_ACTION | OPKG_INSTALL | OPKG_REMOVE | OPKG_DOWNLOAD

type_synonym progress_data = "opkg_action \<times> pkg_ref option \<times> int"

definition progress :: "bool \<Rightarrow> progress_data \<Rightarrow> progress_data list \<Rightarrow> progress_data list" where
  "progress progress_callback d reports = (if progress_callback then reports @ [d] else reports)"

text \<open>Other than the command, this one keeps the order of the table and the first error.\<close>

definition api_configure_one :: "'w env \<Rightarrow> string option \<Rightarrow> pkg_ref \<Rightarrow> int \<times> 'w sys \<Rightarrow> (int \<times> 'w sys) option" where
  "api_configure_one e pkg_name r ey =
     (case ey of (err, y) \<Rightarrow>
        if (case pkg_name of None \<Rightarrow> False | Some pat \<Rightarrow> \<not> e_fnmatch e pat (fmt_s (p_name (pkg_at y r)))) then Some (err, y)
        else if p_state_status (pkg_at y r) = SS_UNPACKED then
          (case opkg_configure e r y of
             (ret, y1) \<Rightarrow>
               if ret = 0 then
                 do { a \<leftarrow> p_parent (pkg_at y1 r);
                      Some (err, mod_pkg r (\<lambda>p. p\<lparr>p_state_flag := p_state_flag p AND NOT SF_PREFER\<rparr>)
                                   (mod_apkg a (\<lambda>a. a\<lparr>ap_state_status := SS_INSTALLED\<rparr>)
                                     (mod_pkg r (\<lambda>p. p\<lparr>p_state_status := SS_INSTALLED\<rparr>) y1))) }
               else Some (if err = 0 then ret else err, y1))
        else Some (err, y))"

definition api_configure_packages :: "'w env \<Rightarrow> string option \<Rightarrow> 'w sys \<Rightarrow> (int \<times> 'w sys) option" where
  "api_configure_packages e pkg_name y =
     foldM (api_configure_one e pkg_name) (pkg_hash_fetch_available [] (y_store y)) (0, y)"

text \<open>The end of each operation that changes packages.\<close>

definition write_out :: "'w env \<Rightarrow> 'w sys \<Rightarrow> 'w sys option" where
  "write_out e y =
     do { (_, y1) \<leftarrow> opkg_conf_write_status_files e y;
          (_, y2) \<leftarrow> pkg_write_changed_filelists e y1;
          Some y2 }"

text \<open>The part of a location from its last slash on, the slash included.\<close>

definition stripped :: "string \<Rightarrow> string" where
  "stripped filename = (case strrchr_slash filename of Some s \<Rightarrow> s | None \<Rightarrow> filename)"

text \<open>One package of the download loop: \<open>True\<close> leaves the function with -1.\<close>

definition download_one :: "'w env \<Rightarrow> pkg_ref \<Rightarrow> bool \<times> 'w sys \<Rightarrow> (bool \<times> 'w sys) option" where
  "download_one e r st =
     (case st of (failed, y) \<Rightarrow>
        if failed \<or> p_local_filename (pkg_at y r) \<noteq> None then Some st
        else
          (case p_src (pkg_at y r) of
             None \<Rightarrow> Some (True, y)
           | Some src \<Rightarrow>
               do { filename \<leftarrow> p_filename (pkg_at y r);
                    let url = sr_value (c_src e src) @ ''/'' @ filename;
                        local = c_tmp_dir e @ ''/'' @ stripped filename;
                        y1 = mod_pkg r (\<lambda>p. p\<lparr>p_local_filename := Some local\<rparr>) y
                    in case opkg_download e url local (y_world y1) of
                         (err, w) \<Rightarrow> Some (err \<noteq> 0, y1\<lparr>y_world := w\<rparr>) }))"

definition clear_checked :: "'w sys \<Rightarrow> 'w sys option" where
  "clear_checked y =
     foldM (\<lambda>r y. map_option (\<lambda>a. mod_apkg a (\<lambda>a. a\<lparr>ap_dependencies_checked := 0\<rparr>) y) (p_parent (pkg_at y r)))
       (pkg_hash_fetch_available [] (y_store y)) y"

definition opkg_install_package ::
  "nat \<Rightarrow> nat \<Rightarrow> 'w env \<Rightarrow> string \<Rightarrow> bool \<Rightarrow> 'w sys \<Rightarrow> (int \<times> progress_data list \<times> 'w sys) option" where
  "opkg_install_package fuel rfuel e package_name cb y =
     do { y1 \<leftarrow> pkg_info_preinstall_check e y;
          case pkg_hash_fetch_installed_by_name package_name (y_store y1) of
            (Some old, s) \<Rightarrow> Some (-1, [], y1\<lparr>y_store := s\<rparr>)
          | (None, s) \<Rightarrow>
              do { (new, s1) \<leftarrow> pkg_hash_fetch_best_installation_candidate_by_name package_name s;
                   case new of
                     None \<Rightarrow> Some (-1, [], y1\<lparr>y_store := s1\<rparr>)
                   | Some r \<Rightarrow>
                       let y2 = mod_pkg r (\<lambda>p. p\<lparr>p_state_flag := p_state_flag p OR SF_USER\<rparr>) (y1\<lparr>y_store := s1\<rparr>);
                           log = progress cb (NO_ACTION, Some r, 0) []
                       in do { (ndepends, deps, unresolved, s2) \<leftarrow>
                                 pkg_hash_fetch_unsatisfied_dependencies (Suc (s_apkg_next (y_store y2))) r [] (y_store y2);
                               let y3 = y2\<lparr>y_store := s2\<rparr> in
                               if unresolved \<noteq> None then Some (-1, log, y3)
                               else
                                 do { (failed, y4) \<leftarrow> foldM (download_one e) (pkg_vec_insert deps r) (False, y3);
                                      if failed then Some (-1, log, y4)
                                      else
                                        do { y5 \<leftarrow> clear_checked y4;
                                             let log1 = progress cb (OPKG_INSTALL, Some r, 75) log;
                                             (err, y6) \<leftarrow> opkg_install_pkg fuel rfuel e r y5;
                                             if err \<noteq> 0 then Some (-1, log1, y6)
                                             else
                                               do { let log2 = progress cb (OPKG_INSTALL, Some r, 75) log1;
                                                    (err, y7) \<leftarrow> api_configure_packages e None y6;
                                                    if err \<noteq> 0 then Some (-1, log2, y7)
                                                    else do { y8 \<leftarrow> write_out e y7;
                                                              Some (0, progress cb (OPKG_INSTALL, Some r, 100) log2, y8) } } } } } } }"

definition opkg_remove_package ::
  "nat \<Rightarrow> 'w env \<Rightarrow> string \<Rightarrow> bool \<Rightarrow> 'w sys \<Rightarrow> (int \<times> progress_data list \<times> 'w sys) option" where
  "opkg_remove_package rfuel e package_name cb y =
     do { y1 \<leftarrow> pkg_info_preinstall_check e y;
          case pkg_hash_fetch_installed_by_name package_name (y_store y1) of
            (None, s) \<Rightarrow> Some (-1, [], y1\<lparr>y_store := s\<rparr>)
          | (Some r, s) \<Rightarrow>
              let y2 = y1\<lparr>y_store := s\<rparr> in
              if p_state_status (pkg_at y2 r) = SS_NOT_INSTALLED then Some (-1, [], y2)
              else
                do { name \<leftarrow> p_name (pkg_at y2 r);
                     let log = progress cb (OPKG_REMOVE, Some r, 0) [];
                     let (to_remove, y3) = installed_by_name e name y2;
                     let log1 = progress cb (OPKG_REMOVE, Some r, 75) log;
                     q \<leftarrow> to_remove;
                     (err, y4) \<leftarrow> opkg_remove_pkg rfuel e q False y3;
                     y5 \<leftarrow> write_out e y4;
                     Some (if err \<noteq> 0 then -1 else 0, progress cb (OPKG_REMOVE, Some r, 100) log1, y5) } }"

definition opkg_upgrade_package ::
  "nat \<Rightarrow> nat \<Rightarrow> 'w env \<Rightarrow> string \<Rightarrow> bool \<Rightarrow> 'w sys \<Rightarrow> (int \<times> progress_data list \<times> 'w sys) option" where
  "opkg_upgrade_package fuel rfuel e package_name cb y =
     do { y1 \<leftarrow> pkg_info_preinstall_check e y;
          case installed_by_name e package_name y1 of
            (None, y2) \<Rightarrow> Some (-1, [], y2)
          | (Some r, y2) \<Rightarrow>
              let log = progress cb (OPKG_INSTALL, Some r, 0) [] in
              do { (err, y3) \<leftarrow> opkg_upgrade_pkg fuel rfuel e r y2;
                   if err \<noteq> 0 then Some (-1, log, y3)
                   else
                     do { let log1 = progress cb (OPKG_INSTALL, Some r, 75) log;
                          (err, y4) \<leftarrow> api_configure_packages e None y3;
                          if err \<noteq> 0 then Some (-1, log1, y4)
                          else do { y5 \<leftarrow> write_out e y4;
                                    Some (0, progress cb (OPKG_INSTALL, Some r, 100) log1, y5) } } } }"

text \<open>The installed packages with their positions in the vector.\<close>

definition opkg_upgrade_all ::
  "nat \<Rightarrow> nat \<Rightarrow> 'w env \<Rightarrow> bool \<Rightarrow> 'w sys \<Rightarrow> (int \<times> progress_data list \<times> 'w sys) option" where
  "opkg_upgrade_all fuel rfuel e cb y =
     (let log = progress cb (OPKG_INSTALL, None, 0) [] in
      do { y1 \<leftarrow> pkg_info_preinstall_check e y;
           let installed = pkg_hash_fetch_all_installed [] (y_store y1);
           (err, log1, y2) \<leftarrow>
             foldM (\<lambda>(i, r) (err, log, y).
               do { let log' = progress cb (OPKG_INSTALL, Some r, int (99 * i div length installed)) log;
                    (ret, y') \<leftarrow> opkg_upgrade_pkg fuel rfuel e r y;
                    Some (err + ret, log', y') }) (List.enumerate 0 installed) (0, log, y1);
           if err \<noteq> 0 then Some (1, log1, y2)
           else
             do { (err, y3) \<leftarrow> api_configure_packages e None y2;
                  if err \<noteq> 0 then Some (1, log1, y3)
                  else do { y4 \<leftarrow> write_out e y3; Some (0, progress cb (OPKG_INSTALL, None, 100) log1, y4) } } })"

section \<open>The package lists\<close>

text \<open>The state: the result, the number of sources that are done, the reports, and the world.\<close>

definition update_list ::
  "'w env \<Rightarrow> bool \<Rightarrow> string \<Rightarrow> string \<Rightarrow> nat \<Rightarrow> pkg_src \<Rightarrow> int \<times> nat \<times> progress_data list \<times> 'w \<Rightarrow> int \<times> nat \<times> progress_data list \<times> 'w" where
  "update_list e cb dir tmp n_sources src st =
     (case st of (result, sources_done, log, w) \<Rightarrow>
        let packages = (if sr_gzip src then ''Packages.gz'' else ''Packages'');
            url = sr_value src @ ''/'' @
              (case sr_extra_data src of None \<Rightarrow> packages | Some x \<Rightarrow> x @ ''/'' @ packages);
            list_file_name = dir @ ''/'' @ sr_name src;
            tmp_file_name = tmp @ ''/'' @ sr_name src @ ''.gz'';
            (err, w2) =
              (if sr_gzip src
               then (case opkg_download e url tmp_file_name w of
                       (err, w1) \<Rightarrow>
                         if err \<noteq> 0 then (err, w1)
                         else (case e_unzip e tmp_file_name list_file_name w1 of
                                 (ret, w2) \<Rightarrow> (if ret = None then 1 else 0, snd (e_unlink e tmp_file_name w2))))
               else opkg_download e url list_file_name w)
        in (if err \<noteq> 0 then -1 else result, sources_done + 1,
            progress cb (OPKG_DOWNLOAD, None, int (100 * (sources_done + 1) div n_sources)) log, w2))"

definition update_lists_only ::
  "'w env \<Rightarrow> bool \<Rightarrow> 'w \<Rightarrow> bool \<times> int \<times> progress_data list \<times> 'w" where
  "update_lists_only e cb w =
     (let log = progress cb (OPKG_DOWNLOAD, None, 0) [];
          dir = lists_dir e;
          made = (if file_is_dir e dir w then (0, w) else if file_exists e dir w then (1, w) else e_mkdir_hier e dir w)
      in case made of (err, w1) \<Rightarrow>
         if err \<noteq> 0 then (False, 1, log, w1)
         else
           (case e_mkdtemp e (c_tmp_dir e @ ''/update-XXXXXX'') w1 of
              (None, w2) \<Rightarrow> (False, 1, log, w2)
            | (Some tmp, w2) \<Rightarrow>
                (case fold (update_list e cb dir tmp (length (c_pkg_src_list e))) (map (c_src e) (c_pkg_src_list e)) (0, 0, log, w2) of
                   (result, _, log1, w3) \<Rightarrow> (True, result, log1, snd (e_rmdir e tmp w3)))))"

text \<open>After the lists have been visited, the program starts anew to read them.\<close>

definition opkg_update_package_lists ::
  "'w conf_env \<Rightarrow> bool \<Rightarrow> 'w library \<Rightarrow> (int \<times> progress_data list \<times> 'w library) option" where
  "opkg_update_package_lists e cb lb =
     (case update_lists_only (lb_env lb) cb (y_world (ru_sys (lb_run lb))) of
        (visited, result, log, w) \<Rightarrow>
          let lb1 = lb\<lparr>lb_run := in_world (\<lambda>_. w) (lb_run lb)\<rparr> in
          if \<not> visited then Some (result, log, lb1)
          else map_option (\<lambda>(_, lb2). (result, log, lb2)) (opkg_re_read_config_files e lb1))"

section \<open>Queries\<close>

definition pkg_compare_names_and_version :: "pkg \<Rightarrow> pkg \<Rightarrow> int" where
  "pkg_compare_names_and_version a b =
     (let ret = strcmp (fmt_s (p_name a)) (fmt_s (p_name b)) in if ret = 0 then pkg_compare_versions a b else ret)"

text \<open>The packages the callback gets, in order. Packages in the table have names.\<close>

definition opkg_list_packages :: "store \<Rightarrow> pkg_ref list" where
  "opkg_list_packages s =
     qsort (\<lambda>a b. pkg_compare_names_and_version (s_pkgs s a) (s_pkgs s b)) (pkg_hash_fetch_available [] s)"

partial_function (option) report_upgradable ::
  "addr \<Rightarrow> addr option \<Rightarrow> active_heap \<Rightarrow> pkg_ref list \<times> store \<Rightarrow> (pkg_ref list \<times> store) option" where
  "report_upgradable head elt h rs =
     (case elt of
        None \<Rightarrow> Some rs
      | Some n \<Rightarrow>
          do { name \<leftarrow> p_name (s_pkgs (snd rs) (elt_pkg n));
               (new, s) \<leftarrow> pkg_hash_fetch_best_installation_candidate_by_name name (snd rs);
               next_elt \<leftarrow> active_list_next (Some head) (Some n) h;
               report_upgradable head next_elt h (fst rs @ (case new of None \<Rightarrow> [] | Some r \<Rightarrow> [r]), s) })"

definition opkg_list_upgradable_packages ::
  "'w env \<Rightarrow> 'w sys \<times> active_heap \<Rightarrow> (pkg_ref list \<times> 'w sys \<times> active_heap) option" where
  "opkg_list_upgradable_packages e yh =
     do { y0 \<leftarrow> pkg_info_preinstall_check e (fst yh);
          (head, y1, h1) \<leftarrow> prepare_upgrade_list e (y0, snd yh);
          first \<leftarrow> active_list_next (Some head) (Some head) h1;
          (rs, s) \<leftarrow> report_upgradable head first h1 ([], y_store y1);
          h2 \<leftarrow> active_list_clear head h1;
          Some (rs, y1\<lparr>y_store := s\<rparr>, h2) }"

text \<open>\<open>sstrcmp\<close> finds no difference when one of the texts is missing.\<close>

definition sstrcmp :: "string option \<Rightarrow> string option \<Rightarrow> int" where
  "sstrcmp x y = (case (x, y) of (Some a, Some b) \<Rightarrow> strcmp a b | _ \<Rightarrow> 0)"

text \<open>A package that no list offers has no source to compare the repository with.\<close>

fun find_among ::
  "'w env \<Rightarrow> store \<Rightarrow> string option \<Rightarrow> string option \<Rightarrow> string option \<Rightarrow> string option \<Rightarrow> pkg_ref list \<Rightarrow> pkg_ref option option" where
  "find_among e s name ver arch repo [] = Some None"
| "find_among e s name ver arch repo (r # rs) =
     (let p = s_pkgs s r; next_pkg = find_among e s name ver arch repo rs in
      if sstrcmp (p_name p) name \<noteq> 0 then next_pkg
      else if sstrcmp (pkg_version_str_alloc p) ver \<noteq> 0 then next_pkg
      else if sstrcmp (p_architecture p) arch \<noteq> 0 then next_pkg
      else if repo = None then Some (Some r)
      else (case p_src p of
              None \<Rightarrow> None
            | Some src \<Rightarrow> if sstrcmp (Some (sr_name (c_src e src))) repo \<noteq> 0 then next_pkg else Some (Some r)))"

definition opkg_find_package ::
  "'w env \<Rightarrow> store \<Rightarrow> string option \<Rightarrow> string option \<Rightarrow> string option \<Rightarrow> string option \<Rightarrow> pkg_ref option option" where
  "opkg_find_package e s name ver arch repo = find_among e s name ver arch repo (pkg_hash_fetch_available [] s)"

section \<open>Repositories that answer\<close>

fun strstr :: "string \<Rightarrow> string \<Rightarrow> string option" where
  "strstr s t = (if take (length t) s = t then Some s else case s of [] \<Rightarrow> None | c # cs \<Rightarrow> strstr cs t)"

text \<open>
  The host of a source, up to the slash behind it. Without ``://'' the pointer that \<open>index\<close> reads
  is invalid.
\<close>

definition repository_host :: "string \<Rightarrow> string option" where
  "repository_host val =
     do { s \<leftarrow> strstr val ''://'';
          Some (let host = drop 3 s
                in if CHR ''/'' \<in> set host
                   then take (length val - length host) val @ takeWhile (\<lambda>c. c \<noteq> CHR ''/'') host else val) }"

text \<open>A host is known when it occurs in one of the addresses that are already in the list.\<close>

definition collect_repository :: "string \<Rightarrow> string list \<Rightarrow> string list option" where
  "collect_repository val src =
     map_option (\<lambda>host. if list_ex (\<lambda>x. strstr x host \<noteq> None) src then src else src @ [host @ ''/index.html''])
       (repository_host val)"

definition opkg_repository_accessibility_check :: "'w env \<Rightarrow> 'w \<Rightarrow> (int \<times> 'w) option" where
  "opkg_repository_accessibility_check e w =
     do { src \<leftarrow> foldM collect_repository (map (\<lambda>r. sr_value (c_src e r)) (c_pkg_src_list e)) [];
          Some (fold (\<lambda>url (ret, w). case opkg_download e url ''/dev/null'' w of (err, w1) \<Rightarrow> (if err \<noteq> 0 then ret + 1 else ret, w1))
                  src (0, w)) }"

section \<open>What the interface guarantees, and what it does not\<close>

definition behind_table :: "string \<Rightarrow> nat \<Rightarrow> nat \<Rightarrow> bool" where
  "behind_table option i j \<longleftrightarrow>
     length options_table \<le> j \<and> (\<forall>m. i \<le> m \<longrightarrow> m < length options_table \<longrightarrow> fst (options_table ! m) \<noteq> option)"

lemma behind_table_step:
  assumes "behind_table option (if strcmp (fst (options_table ! i)) option \<noteq> 0 then i + 1 else i) j"
  shows "behind_table option i j"
proof (cases "fst (options_table ! i) = option")
  case True
  then show ?thesis using assms by (simp only: strcmp_eq_0 simp_thms if_False)
next
  case False
  then have "behind_table option (i + 1) j" using assms by (simp only: strcmp_eq_0 simp_thms if_True)
  moreover have "m = i \<or> i + 1 \<le> m" if "i \<le> m" for m using that by linarith
  ultimately show ?thesis using False unfolding behind_table_def by metis
qed

lemma get_option_loop_ends:
  assumes "get_option_loop option i = Some j"
  shows "behind_table option i j"
proof (rule get_option_loop.raw_induct [where P = behind_table, OF _ assms])
  fix loop option i j
  assume IH: "\<And>option i j. loop option i = Some j \<Longrightarrow> behind_table option i j"
    and body: "(if i < length options_table
      then loop option (if strcmp (fst (options_table ! i)) option \<noteq> 0 then i + 1 else i) else Some i) = Some j"
  show "behind_table option i j"
  proof (cases "i < length options_table")
    case True
    then have "loop option (if strcmp (fst (options_table ! i)) option \<noteq> 0 then i + 1 else i) = Some j"
      using body by (simp only: if_True)
    then show ?thesis by (rule behind_table_step [OF IH])
  next
    case False
    then show ?thesis using body by (simp add: behind_table_def)
  qed
qed

lemma get_option_loop_unknown:
  assumes "i \<le> length options_table" "option \<notin> fst ` set options_table"
  shows "get_option_loop option i = Some (length options_table)"
  using assms(1)
proof (induction "length options_table - i" arbitrary: i)
  case 0
  then show ?case by (subst get_option_loop.simps) simp
next
  case (Suc n)
  then have i: "i < length options_table" by simp
  then have "fst (options_table ! i) \<noteq> option" using assms(2) by force
  then have "get_option_loop option i = get_option_loop option (i + 1)"
    using i by (subst get_option_loop.simps) (simp only: strcmp_eq_0 if_True simp_thms)
  also have "\<dots> = Some (length options_table)"
    by (rule Suc.hyps(1)) (use Suc.hyps(2) i in simp_all)
  finally show ?case .
qed

text \<open>
  (C38) \<open>opkg_get_option\<close> never gives the value of an option: for the name of an option its loop does
  not end, because nothing leaves it once the name is found; for every other name the loop ends at
  the row of null pointers behind the table, and the function reads through one of them.
\<close>

theorem opkg_get_option_never_answers:
  "opkg_get_option raw option c = (if option \<in> fst ` set options_table then None else Some (Inl Null_Read))"
proof (cases "option \<in> fst ` set options_table")
  case True
  then have "\<not> behind_table option 0 j" for j
    unfolding behind_table_def by (metis image_iff in_set_conv_nth le0)
  then have "get_option_loop option 0 = None"
    using get_option_loop_ends [of option 0] by (cases "get_option_loop option 0") auto
  then show ?thesis using True by (simp add: opkg_get_option_def)
next
  case False
  then show ?thesis
    using get_option_loop_unknown [of 0 option] by (simp add: opkg_get_option_def read_option_def)
qed

theorem opkg_get_option_never_answers_witness:
  "opkg_get_option (\<lambda>i. []) ''nodeps'' blank_conf = None \<and>
    opkg_get_option (\<lambda>i. []) ''speed'' blank_conf = Some (Inl Null_Read)"
  unfolding opkg_get_option_never_answers by (simp add: options_table_def)

text \<open>Reports that only ever advance, from 0 on, and never beyond 100.\<close>

definition advancing :: "progress_data list \<Rightarrow> bool" where
  "advancing log \<longleftrightarrow> sorted (map (\<lambda>d. snd (snd d)) log) \<and> (\<forall>d \<in> set log. 0 \<le> snd (snd d) \<and> snd (snd d) \<le> 100)"

definition ends_at :: "int \<Rightarrow> progress_data list \<Rightarrow> bool" where
  "ends_at p log \<longleftrightarrow> log \<noteq> [] \<and> snd (snd (last log)) = p"

definition up_to :: "int \<Rightarrow> progress_data list \<Rightarrow> bool" where
  "up_to p log \<longleftrightarrow> advancing log \<and> (\<forall>d \<in> set log. snd (snd d) \<le> p)"

lemma up_to_progress:
  assumes "up_to p log" "p \<le> q" "0 \<le> q" "q \<le> 100"
  shows "up_to q (progress cb (a, r, q) log)"
  using assms by (auto simp: up_to_def advancing_def progress_def sorted_append)

lemma up_to_nil: "up_to p []"
  by (simp add: up_to_def advancing_def)

lemma up_to_advancing: "up_to p log \<Longrightarrow> advancing log"
  by (simp add: up_to_def)

lemma progress_ends: "cb \<Longrightarrow> ends_at q (progress cb (a, r, q) log)"
  by (simp add: ends_at_def progress_def)

lemma progress_off: "progress False d log = log"
  by (simp add: progress_def)

text \<open>What every report of an operation with result \<open>r\<close> looks like.\<close>

definition reports_ok :: "bool \<Rightarrow> int \<Rightarrow> progress_data list \<Rightarrow> bool" where
  "reports_ok cb r log \<longleftrightarrow> advancing log \<and> (cb \<and> r = 0 \<longrightarrow> ends_at 100 log) \<and> (\<not> cb \<longrightarrow> log = [])"

lemma reports_ok_error: "up_to 75 log \<Longrightarrow> r \<noteq> 0 \<Longrightarrow> \<not> cb \<longrightarrow> log = [] \<Longrightarrow> reports_ok cb r log"
  by (simp add: reports_ok_def up_to_def)

lemma reports_ok_done:
  assumes "up_to 75 log" "\<not> cb \<longrightarrow> log = []"
  shows "reports_ok cb r (progress cb (a, q, 100) log)"
proof -
  have "up_to 100 (progress cb (a, q, 100) log)" by (rule up_to_progress [OF assms(1)]) simp_all
  then show ?thesis
    using progress_ends [of cb] assms(2) by (cases cb) (simp_all add: reports_ok_def up_to_def progress_off)
qed

lemma up_to_zero: "up_to 75 (progress cb (a, r, 0) [])"
  by (simp add: up_to_def advancing_def progress_def)

lemma up_to_later: "up_to 75 log \<Longrightarrow> up_to 75 (progress cb (a, r, 75) log)"
  using up_to_progress [of 75 log 75] by simp

lemmas report_rules = reports_ok_error reports_ok_done up_to_later up_to_zero up_to_nil

lemma remove_reports: "opkg_remove_package rfuel e n cb y = Some (r, log, y') \<Longrightarrow> reports_ok cb r log"
  by (auto simp: opkg_remove_package_def progress_off Let_def split: Option.bind_splits prod.splits option.splits if_splits
      intro!: report_rules)

lemma upgrade_reports: "opkg_upgrade_package fuel rfuel e n cb y = Some (r, log, y') \<Longrightarrow> reports_ok cb r log"
  by (auto simp: opkg_upgrade_package_def progress_off Let_def split: Option.bind_splits prod.splits option.splits if_splits
      intro!: report_rules)

lemma install_reports: "opkg_install_package fuel rfuel e n cb y = Some (r, log, y') \<Longrightarrow> reports_ok cb r log"
  by (auto simp: opkg_install_package_def progress_off Let_def split: Option.bind_splits prod.splits option.splits if_splits
      intro!: report_rules)

lemma upgrade_round:
  assumes "foldM (\<lambda>(i, r) (err, log, y).
       do { let log' = progress cb (OPKG_INSTALL, Some r, int (99 * i div n)) log;
            (ret, y') \<leftarrow> f r y;
            Some (err + ret, log', y') }) (List.enumerate k xs) (err, log, y) = Some (err', log', y')"
    "up_to (int (99 * k div n)) log" "k + length xs \<le> n" "\<not> cb \<longrightarrow> log = []"
  shows "up_to 99 log' \<and> (\<not> cb \<longrightarrow> log' = [])"
  using assms
proof (induction xs arbitrary: k err log y)
  case Nil
  have "99 * k div n \<le> 99" using Nil.prems(3) div_le_mono [of "99 * k" "99 * n" n] by (cases "n = 0") auto
  then show ?case using Nil.prems by (auto simp: up_to_def)
next
  case (Cons r xs)
  let ?log = "progress cb (OPKG_INSTALL, Some r, int (99 * k div n)) log"
  obtain ret y1 where "f r y = Some (ret, y1)"
    and rest: "foldM (\<lambda>(i, r) (err, log, y).
       do { let log' = progress cb (OPKG_INSTALL, Some r, int (99 * i div n)) log;
            (ret, y') \<leftarrow> f r y;
            Some (err + ret, log', y') }) (List.enumerate (Suc k) xs) (err + ret, ?log, y1) = Some (err', log', y')"
    using Cons.prems(1) by (auto split: Option.bind_splits)
  have le: "99 * k div n \<le> 99 * Suc k div n" by (rule div_le_mono) simp
  have "99 * k div n \<le> 99 * n div n" using Cons.prems(3) by (intro div_le_mono) simp
  then have "99 * k div n \<le> 99" using Cons.prems(3) by simp
  then have "up_to (int (99 * k div n)) ?log" using up_to_progress [OF Cons.prems(2)] by simp
  then have "up_to (int (99 * Suc k div n)) ?log" using le unfolding up_to_def by (meson of_nat_mono order_trans)
  then show ?case using Cons.IH [OF rest] Cons.prems(3,4) by (simp add: progress_off)
qed

lemma upgrade_all_reports:
  assumes "opkg_upgrade_all fuel rfuel e cb y = Some (r, log, y')"
  shows "reports_ok cb r log"
proof -
  let ?log0 = "progress cb (OPKG_INSTALL, None, 0) []"
  obtain y1 err log1 y2 where y1: "pkg_info_preinstall_check e y = Some y1"
    and f: "foldM (\<lambda>(i, r) (err, log, y).
               do { let log' = progress cb (OPKG_INSTALL, Some r, int (99 * i div length (pkg_hash_fetch_all_installed [] (y_store y1)))) log;
                    (ret, y') \<leftarrow> opkg_upgrade_pkg fuel rfuel e r y;
                    Some (err + ret, log', y') }) (List.enumerate 0 (pkg_hash_fetch_all_installed [] (y_store y1))) (0, ?log0, y1)
             = Some (err, log1, y2)"
    using assms unfolding opkg_upgrade_all_def Let_def by (auto split: Option.bind_splits)
  have z: "up_to 0 ?log0" by (simp add: up_to_def advancing_def progress_def)
  have "up_to 99 log1 \<and> (\<not> cb \<longrightarrow> log1 = [])" by (rule upgrade_round [OF f]) (simp_all add: z progress_off)
  moreover from this have "up_to 100 (progress cb (OPKG_INSTALL, None, 100) log1)" by (intro up_to_progress [of 99]) simp_all
  moreover have "log = log1 \<and> r \<noteq> 0 \<or> log = progress cb (OPKG_INSTALL, None, 100) log1 \<and> r = 0"
    using assms y1 f unfolding opkg_upgrade_all_def Let_def by (auto split: Option.bind_splits if_splits)
  ultimately show ?thesis
    using progress_ends [of cb] by (cases cb) (auto simp: reports_ok_def up_to_def progress_off)
qed

text \<open>
  (C37) Progress is reported faithfully: whatever an installation, a removal, an upgrade or the upgrade
  of all packages meets on its way, the percentages that the callback of the client gets never go
  back and stay between 0 and 100; an operation that succeeds reports 100 at the end, and nothing
  is reported without a callback.
\<close>

theorem progress_reports:
  assumes "(r, log, y') \<in> {x. opkg_install_package fuel rfuel e name cb y = Some x \<or>
      opkg_remove_package rfuel e name cb y = Some x \<or> opkg_upgrade_package fuel rfuel e name cb y = Some x \<or>
      opkg_upgrade_all fuel rfuel e cb y = Some x}"
  shows "advancing log \<and> (cb \<and> r = 0 \<longrightarrow> ends_at 100 log) \<and> (\<not> cb \<longrightarrow> log = [])"
proof -
  have "reports_ok cb r log"
    using assms by (auto intro: install_reports remove_reports upgrade_reports upgrade_all_reports)
  then show ?thesis by (simp add: reports_ok_def)
qed

definition bare_sys :: "unit sys" where
  "bare_sys = (example_sys ())\<lparr>y_store := empty_store\<lparr>s_hash := hash_table_init [] blank_table 4\<rparr>\<rparr>"

definition noaction_env :: "unit env" where
  "noaction_env = idle_env\<lparr>c_noaction := True\<rparr>"

lemma no_pkgs:
  "pkg_hash_fetch_available [] (y_store bare_sys) = []" "pkg_hash_fetch_all_installed [] (y_store bare_sys) = []"
proof -
  have h: "ht_ok (s_hash (y_store bare_sys)) \<and> ht_map (s_hash (y_store bare_sys)) = Map.empty"
    by (simp add: bare_sys_def blank_table_def hash_table_init_map)
  show a: "pkg_hash_fetch_available [] (y_store bare_sys) = []"
    using fetch_available_set [OF conjunct1 [OF h]] conjunct2 [OF h] by simp
  show "pkg_hash_fetch_all_installed [] (y_store bare_sys) = []"
    using fetch_all_installed_exact [OF conjunct1 [OF h], of "[]"] conjunct2 [OF h] by (auto simp: hash_table_get_map)
qed

text \<open>Nothing is installed: the upgrade of all packages reports 0 and 100.\<close>

theorem progress_reports_witness:
  "\<exists>log. opkg_upgrade_all 1 1 noaction_env True bare_sys = Some (0, log, bare_sys) \<and> advancing log \<and> ends_at 100 log"
proof -
  obtain log where log: "opkg_upgrade_all 1 1 noaction_env True bare_sys = Some (0, log, bare_sys)"
    by (simp add: opkg_upgrade_all_def no_pkgs pkg_info_preinstall_check_def api_configure_packages_def write_out_def
        opkg_conf_write_status_files_def pkg_write_changed_filelists_def noaction_env_def)
  show ?thesis using progress_reports [of 0 log bare_sys 1 1 noaction_env "[]" True bare_sys] log by simp
qed

end
