(* ===== verification/Padjffs2.thy ===== *)
theory Padjffs2
  imports Opkg_Base
begin

text \<open>
  The program \<open>padjffs2\<close> (\<open>padjffs2/padjffs2.c\<close>): it pads an image file to each of the given
  block sizes and writes the end-of-filesystem marker of JFFS2 there.

  The file is its bytes, written at their end; \<open>write\<close> is any function of the length of the file
  and of the number of bytes, which gives the number of bytes written or -1. \<open>ssize_t\<close> has 64
  bits and is an \<^typ>\<open>int\<close>, since the lengths of files stay far below its bounds; the masks are
  words. The messages are left out.
\<close>

unbundle bit_operations_syntax

type_synonym write_call = "nat \<Rightarrow> nat \<Rightarrow> int"

section \<open>The program\<close>

definition eof_mark :: "byte list" where "eof_mark = [0xde, 0xad, 0xc0, 0xde]"

definition BUF_SIZE :: int where "BUF_SIZE = 64 * 1024"

text \<open>The complement is taken of 32 bits and then extended by zeros to the 64 bits of the length.\<close>

definition ALIGN :: "int \<Rightarrow> uint \<Rightarrow> int" where
  "ALIGN x y = (x + uint (y - 1)) AND uint (NOT (y - 1))"

definition bit_mask :: "nat \<Rightarrow> uint" where "bit_mask i = push_bit i 1"

text \<open>The two loops over the bits: the last mask is left when no bit is found.\<close>

definition lowest_mask :: "uint \<Rightarrow> uint" where
  "lowest_mask pad_mask =
     (case find (\<lambda>i. pad_mask AND bit_mask i \<noteq> 0) [10..<32] of Some i \<Rightarrow> bit_mask i | None \<Rightarrow> bit_mask 31)"

definition clear_aligned :: "int \<Rightarrow> uint \<Rightarrow> uint" where
  "clear_aligned in_len pad_mask =
     fold (\<lambda>i m. if in_len AND uint (bit_mask i - 1) = 0 then m AND NOT (bit_mask i) else m) [10..<32] pad_mask"

definition write_end :: "write_call \<Rightarrow> byte list \<Rightarrow> byte list \<Rightarrow> int \<times> byte list" where
  "write_end wr buf data =
     (let t = wr (length data) (length buf) in (t, data @ take (nat t) buf))"

text \<open>The result of the writes: \<open>Inl\<close> after a write that was not complete.\<close>

function fill :: "write_call \<Rightarrow> int \<Rightarrow> int \<Rightarrow> byte list \<Rightarrow> byte list + int \<times> byte list" where
  "fill wr in_len out_len data =
     (if out_len < in_len then
        let len = min (in_len - out_len) BUF_SIZE in
        case write_end wr (replicate (nat len) 0xff) data of
          (t, d) \<Rightarrow> if t \<noteq> len then Inl d else fill wr in_len (out_len + len) d
      else Inr (out_len, data))"
  by pat_completeness auto
termination
  by (relation "measure (\<lambda>(wr, in_len, out_len, data). nat (in_len - out_len))") (auto simp: BUF_SIZE_def)

declare fill.simps [simp del]

partial_function (option) pad_loop ::
  "write_call \<Rightarrow> uint \<Rightarrow> int \<Rightarrow> int \<Rightarrow> byte list \<Rightarrow> (int \<times> byte list) option" where
  "pad_loop wr pad_mask in_len out_len data =
     (if pad_mask = 0 then Some (0, data)
      else
        let in_len = ALIGN in_len (lowest_mask pad_mask); pad_mask = clear_aligned in_len pad_mask in
        case fill wr in_len out_len data of
          Inl d \<Rightarrow> Some (-1, d)
        | Inr (out_len, d) \<Rightarrow>
            (case write_end wr eof_mark d of
               (t, d1) \<Rightarrow> if t \<noteq> 4 then Some (-1, d1) else pad_loop wr pad_mask in_len (out_len + 4) d1))"

text \<open>What the program meets: memory, whether the file opens and its end is found, the writes.\<close>

record pad_host =
  ph_malloc :: bool
  ph_open :: bool
  ph_lseek :: bool
  ph_write :: write_call

definition pad_image :: "pad_host \<Rightarrow> uint \<Rightarrow> byte list \<Rightarrow> (int \<times> byte list) option" where
  "pad_image h pad_mask data =
     (if \<not> ph_malloc h \<or> \<not> ph_open h \<or> \<not> ph_lseek h then Some (-1, data)
      else pad_loop (ph_write h) pad_mask (int (length data)) (int (length data)) data)"

text \<open>\<open>strtoul s NULL 0\<close>: the base is that of the prefix.\<close>

fun base_num :: "nat \<Rightarrow> nat \<Rightarrow> string \<Rightarrow> nat" where
  "base_num b n [] = n"
| "base_num b n (c # cs) =
     (case hex_val c of Some d \<Rightarrow> if d < b then base_num b (b * n + d) cs else n | None \<Rightarrow> n)"

definition strtoul0 :: "string \<Rightarrow> ulong" where
  "strtoul0 s0 =
     (let s = dropWhile isspace s0;
          neg = (s \<noteq> [] \<and> hd s = CHR ''-'');
          s' = (if s \<noteq> [] \<and> (hd s = CHR ''-'' \<or> hd s = CHR ''+'') then tl s else s);
          n = (case s' of
                 z # x # h # ds \<Rightarrow>
                   if z = CHR ''0'' \<and> (x = CHR ''x'' \<or> x = CHR ''X'') \<and> hex_val h \<noteq> None then base_num 16 0 (h # ds)
                   else base_num (if z = CHR ''0'' then 8 else 10) 0 s'
               | z # ds \<Rightarrow> base_num (if z = CHR ''0'' then 8 else 10) 0 s'
               | [] \<Rightarrow> 0)
      in if n \<ge> 2 ^ 64 then - 1 else if neg then - of_nat n else of_nat n)"

definition pad_mask_of :: "string list \<Rightarrow> uint" where
  "pad_mask_of args =
     (let m = fold (\<lambda>a m. ucast (ucast m OR strtoul0 a * 1024)) args 0
      in if m = 0 then (4 * 1024) OR (8 * 1024) OR (64 * 1024) OR (128 * 1024) else m)"

text \<open>The exit status and the file behind the arguments \<open>file pad0 pad1\<close> and so on.\<close>

definition padjffs2_main :: "pad_host \<Rightarrow> string list \<Rightarrow> byte list \<Rightarrow> (int \<times> byte list) option" where
  "padjffs2_main h argv data =
     (if length argv < 2 then Some (1, data)
      else case pad_image h (pad_mask_of (drop 2 argv)) data of
             None \<Rightarrow> None | Some (err, d) \<Rightarrow> Some (if err \<noteq> 0 then 1 else 0, d))"

section \<open>Masks and alignment\<close>

definition align_up :: "nat \<Rightarrow> nat \<Rightarrow> nat" where
  "align_up n i = (n + 2 ^ i - 1) div 2 ^ i * 2 ^ i"

definition mask_bits :: "uint \<Rightarrow> nat set" where "mask_bits m = {i. bit m i}"

lemma mask_bits_less: "i \<in> mask_bits m \<Longrightarrow> i < 32"
  by (auto simp: mask_bits_def dest: bit_imp_le_length)

lemma finite_mask_bits [simp]: "finite (mask_bits m)"
  by (rule finite_subset [of _ "{..<32}"]) (auto dest: mask_bits_less)

lemma mask_bits_empty: "mask_bits m = {} \<longleftrightarrow> m = 0"
proof -
  have "m = 0 \<longleftrightarrow> (\<forall>i < 32. \<not> bit m i)" by (simp add: bit_eq_iff [of m])
  then show ?thesis using mask_bits_less [of _ m] by (auto simp: mask_bits_def)
qed

lemma align_up_ge: "n \<le> align_up n i"
proof -
  have "(n + 2 ^ i - 1) mod 2 ^ i < (2 :: nat) ^ i" by simp
  then have "n + 2 ^ i - 1 < align_up n i + 2 ^ i"
    unfolding align_up_def using div_mult_mod_eq [of "n + 2 ^ i - 1" "2 ^ i"] by linarith
  then show ?thesis by (simp add: less_eq_Suc_le)
qed

lemma align_up_dvd [simp]: "2 ^ i dvd align_up n i"
  by (simp add: align_up_def)

lemma align_up_least:
  assumes "2 ^ i dvd m" "n \<le> m"
  shows "align_up n i \<le> m"
proof -
  obtain k where k: "m = 2 ^ i * k" using assms(1) by (auto elim: dvdE)
  have "(n + 2 ^ i - 1) div 2 ^ i \<le> (m + 2 ^ i - 1) div 2 ^ i" using assms(2) by (intro div_le_mono) simp
  also have "\<dots> = k" unfolding k using div_mult_self4 [of "2 ^ i" k "2 ^ i - 1 :: nat"] by (simp add: add.commute)
  finally show ?thesis unfolding align_up_def k by (simp add: mult.commute)
qed

lemma align_up_eqI: "2 ^ i dvd m \<Longrightarrow> n \<le> m \<Longrightarrow> m < n + 2 ^ i \<Longrightarrow> align_up n i = m"
proof -
  assume m: "2 ^ i dvd m" "n \<le> m" "m < n + 2 ^ i"
  have le: "align_up n i \<le> m" using m by (intro align_up_least)
  have "2 ^ i dvd m - align_up n i" using m(1) by (simp add: dvd_diff_nat)
  moreover have "m - align_up n i < 2 ^ i" using m(3) align_up_ge [of n i] by (simp add: less_diff_conv2 le)
  ultimately have "m - align_up n i = 0" by (metis dvd_imp_le gr0I not_le)
  then show ?thesis using le by simp
qed

lemma align_up_chain:
  assumes "i \<le> j"
  shows "align_up (align_up n i) j = align_up n j" "align_up n i \<le> align_up n j"
proof -
  have d: "2 ^ i dvd align_up n j" using assms align_up_dvd [of j n] by (metis dvd_trans le_imp_power_dvd)
  show le: "align_up n i \<le> align_up n j" by (rule align_up_least [OF d align_up_ge])
  show "align_up (align_up n i) j = align_up n j"
    by (rule antisym) (auto intro!: align_up_least le order.trans [OF align_up_ge align_up_ge])
qed

lemma bit_mask_less: "bit_mask i - 1 = mask i"
  by (simp add: bit_mask_def mask_eq_decr_exp push_bit_eq_mult)

lemma low_bits: "int n AND uint (bit_mask i - 1) = 0 \<longleftrightarrow> 2 ^ i dvd n" if "i < 32"
proof -
  have "int n AND uint (bit_mask i - 1) = int n mod 2 ^ i"
    using that by (simp add: bit_mask_less uint_mask_eq min_absorb2 flip: take_bit_eq_mask take_bit_eq_mod)
  also have "\<dots> = int (n mod 2 ^ i)" by (simp add: zmod_int)
  finally show ?thesis by (simp add: dvd_eq_mod_eq_0)
qed

lemma ALIGN_align_up:
  assumes "i < 32" "n + 2 ^ i \<le> 2 ^ 32"
  shows "ALIGN (int n) (bit_mask i) = int (align_up n i)"
proof -
  define v where "v = n + 2 ^ i - 1"
  have "v < 2 ^ 32" using assms(2) unfolding v_def by simp
  then have v: "int v < 2 ^ 32" by (metis of_nat_less_iff of_nat_numeral of_nat_power)
  have u: "uint (mask i :: uint) = mask i" using assms(1) by (simp add: uint_mask_eq min_absorb2)
  have "ALIGN (int n) (bit_mask i) = (int n + mask i) AND take_bit 32 (NOT (mask i))"
    by (simp add: ALIGN_def bit_mask_less u unsigned_not_eq)
  also have "int n + mask i = int v"
    unfolding v_def mask_eq_exp_minus_1 of_nat_diff [OF trans_le_add2 [OF one_le_power [OF one_le_numeral]]] by simp
  also have "int v AND take_bit 32 (NOT (mask i)) = take_bit 32 (int v) AND NOT (mask i)"
    by (rule bit_eqI) (auto simp: bit_simps)
  also have "\<dots> = int v AND NOT (mask i)" using v by (simp add: take_bit_int_eq_self)
  also have "\<dots> = push_bit i (drop_bit i (int v))"
    by (rule bit_eqI) (auto simp: bit_simps)
  also have "\<dots> = int (align_up n i)"
    by (simp add: align_up_def v_def push_bit_eq_mult drop_bit_eq_div zdiv_int)
  finally show ?thesis .
qed

lemma bit_bit_mask: "bit (bit_mask i) n \<longleftrightarrow> n = i \<and> i < 32"
  by (auto simp: bit_mask_def bit_simps)

lemma and_bit_mask: "m AND bit_mask i \<noteq> 0 \<longleftrightarrow> i \<in> mask_bits m" for m :: uint
  using mask_bits_less [of i m] unfolding bit_eq_iff [of "m AND bit_mask i"] bit_and_iff bit_bit_mask by (auto simp: mask_bits_def)

lemma lowest_mask_spec:
  assumes "m \<noteq> 0" "\<forall>i \<in> mask_bits m. 10 \<le> i"
  shows "lowest_mask m = bit_mask (Min (mask_bits m))"
proof -
  let ?i = "Min (mask_bits m)"
  have i: "?i \<in> mask_bits m" using assms(1) by (intro Min_in) (simp_all add: mask_bits_empty)
  have l: "[10..<32] = [10..<?i] @ ?i # [Suc ?i..<32]"
    using assms(2) i mask_bits_less [OF i] upt_add_eq_append [of 10 ?i "32 - ?i"] by (simp add: upt_conv_Cons)
  have "find (\<lambda>i. m AND bit_mask i \<noteq> 0) [10..<?i] = None"
    using Min_le [OF finite_mask_bits [of m]] by (auto simp: find_None_iff and_bit_mask not_le [symmetric] simp del: not_le)
  moreover have "find P (xs @ x # ys) = Some x" if "find P xs = None" "P x" for P xs ys and x :: nat
    using that by (induction xs) (auto split: if_splits)
  ultimately have "find (\<lambda>i. m AND bit_mask i \<noteq> 0) [10..<32] = Some ?i"
    using i unfolding l by (simp add: and_bit_mask del: not_not)
  then show ?thesis by (simp add: lowest_mask_def)
qed

lemma clear_aligned_bits:
  "mask_bits (clear_aligned (int n) m) = {i \<in> mask_bits m. i < 10 \<or> \<not> 2 ^ i dvd n}"
proof -
  have "mask_bits (fold (\<lambda>i m. if int n AND uint (bit_mask i - 1) = 0 then m AND NOT (bit_mask i) else m) js m) =
      {i \<in> mask_bits m. i \<notin> set js \<or> \<not> 2 ^ i dvd n}" if "set js \<subseteq> {..<32}" for js
    using that
  proof (induction js arbitrary: m)
    case (Cons i js)
    have m: "mask_bits (m AND NOT (bit_mask i)) = mask_bits m - {i}" for m :: uint
      using Cons.prems by (auto simp: mask_bits_def bit_mask_def bit_simps dest: bit_imp_le_length)
    have d: "int n AND uint (bit_mask i - 1) = 0 \<longleftrightarrow> 2 ^ i dvd n" using Cons.prems by (simp add: low_bits)
    have js: "set js \<subseteq> {..<32}" using Cons.prems by simp
    show ?case by (cases "2 ^ i dvd n") (auto simp: d m Cons.IH [OF js])
  qed simp
  then have "mask_bits (clear_aligned (int n) m) = {i \<in> mask_bits m. i \<notin> set [10..<32] \<or> \<not> 2 ^ i dvd n}"
    unfolding clear_aligned_def by (rule meta_mp) (auto simp del: set_upt)
  moreover have "i \<notin> set [10..<32] \<longleftrightarrow> i < 10" if "i \<in> mask_bits m" for i
    using mask_bits_less [OF that] by (auto simp del: upt_rec_numeral)
  ultimately show ?thesis by blast
qed

lemma align_up_gap:
  assumes "10 \<le> i" "10 \<le> j" "align_up n i < align_up n' j"
  shows "align_up n i + 4 \<le> align_up n' j"
proof -
  have "2 ^ 10 dvd align_up n k" if "10 \<le> k" for n k
    using le_imp_power_dvd [OF that, of "2 :: nat"] align_up_dvd [of k n] by (rule dvd_trans)
  then have "2 ^ 10 dvd align_up n' j - align_up n i" using assms(1,2) by (intro dvd_diff_nat) simp_all
  then have "2 ^ 10 \<le> align_up n' j - align_up n i" using assms(3) by (intro dvd_imp_le) simp_all
  then show ?thesis by simp
qed

section \<open>The loop\<close>

text \<open>The ends of the blocks that are still to be marked.\<close>

definition block_ends :: "nat \<Rightarrow> uint \<Rightarrow> nat set" where
  "block_ends n m = align_up n ` mask_bits m"

lemma block_ends_step:
  fixes n m
  assumes "m \<noteq> 0" "\<forall>i \<in> mask_bits m. 10 \<le> i"
  defines "a \<equiv> align_up n (Min (mask_bits m))"
  shows "block_ends n m = insert a (block_ends a (clear_aligned (int a) m))"
    "\<forall>k \<in> block_ends a (clear_aligned (int a) m). a < k"
proof -
  let ?i = "Min (mask_bits m)"
  have i: "?i \<in> mask_bits m" using assms(1) by (intro Min_in) (simp_all add: mask_bits_empty)
  have le: "?i \<le> j" if "j \<in> mask_bits m" for j using that by (intro Min_le) simp_all
  have bits: "mask_bits (clear_aligned (int a) m) = {j \<in> mask_bits m. \<not> 2 ^ j dvd a}"
    using assms(2) by (auto simp: clear_aligned_bits not_less)
  have same: "align_up n j = a" if "j \<in> mask_bits m" "2 ^ j dvd a" for j
    using align_up_least [OF that(2), of n] align_up_chain(2) [OF le [OF that(1)], of n] align_up_ge
    by (simp add: a_def)
  have later: "align_up n j = align_up a j" if "j \<in> mask_bits m" for j
    using align_up_chain(1) [OF le [OF that], of n] by (simp add: a_def)
  show "block_ends n m = insert a (block_ends a (clear_aligned (int a) m))"
  proof -
    have "align_up n ` mask_bits m = align_up n ` {j \<in> mask_bits m. 2 ^ j dvd a} \<union> align_up n ` {j \<in> mask_bits m. \<not> 2 ^ j dvd a}"
      by blast
    also have "align_up n ` {j \<in> mask_bits m. 2 ^ j dvd a} = {a}"
      using i same align_up_dvd [of ?i n] unfolding a_def [symmetric] by auto
    also have "align_up n ` {j \<in> mask_bits m. \<not> 2 ^ j dvd a} = align_up a ` {j \<in> mask_bits m. \<not> 2 ^ j dvd a}"
      using later by (intro image_cong) auto
    finally show ?thesis unfolding block_ends_def bits by simp
  qed
  show "\<forall>k \<in> block_ends a (clear_aligned (int a) m). a < k"
  proof
    fix k assume "k \<in> block_ends a (clear_aligned (int a) m)"
    then obtain j where "k = align_up a j" "\<not> 2 ^ j dvd a" unfolding block_ends_def bits by auto
    then show "a < k" using align_up_ge [of a j] align_up_dvd [of j a] by (cases "a = k") auto
  qed
qed

text \<open>What is written up to the end of a block.\<close>

definition mark_block :: "nat \<Rightarrow> byte list \<Rightarrow> byte list" where
  "mark_block k data = data @ replicate (k - length data) 0xff @ eof_mark"

abbreviation complete :: "write_call \<Rightarrow> bool" where
  "complete wr \<equiv> \<forall>n len. wr n len = int len"

lemma fill_complete:
  assumes "complete wr"
  shows "fill wr (int k) (int (length data)) data =
    Inr (int (max k (length data)), data @ replicate (k - length data) 0xff)"
proof (induction "k - length data" arbitrary: data rule: less_induct)
  case less
  show ?case
  proof (cases "length data < k")
    case True
    define len where "len = min (k - length data) (64 * 1024)"
    have len: "min (int k - int (length data)) BUF_SIZE = int len" using True by (simp add: len_def BUF_SIZE_def)
    have "0 < len" "len \<le> k - length data" using True by (simp_all add: len_def)
    then have "fill wr (int k) (int (length (data @ replicate len 0xff))) (data @ replicate len 0xff) =
        Inr (int k, data @ replicate (k - length data) 0xff)"
      using True by (subst less.hyps) (auto simp flip: replicate_add)
    then show ?thesis
      using True assms by (subst fill.simps) (simp add: len write_end_def)
  qed (subst fill.simps, simp)
qed

lemma pad_loop_complete:
  assumes "complete wr" "\<forall>i \<in> mask_bits m. 10 \<le> i" "n \<le> 2 ^ 31" "\<forall>k \<in> block_ends n m. length data \<le> k"
  shows "pad_loop wr m (int n) (int (length data)) data =
    Some (0, fold mark_block (sorted_list_of_set (block_ends n m)) data)"
  using assms(2-)
proof (induction "card (mask_bits m)" arbitrary: m n data rule: less_induct)
  case less
  show ?case
  proof (cases "m = 0")
    case True
    then show ?thesis by (subst pad_loop.simps) (simp add: block_ends_def mask_bits_def)
  next
    case False
    define i where "i = Min (mask_bits m)"
    define a where "a = align_up n i"
    define m1 where "m1 = clear_aligned (int a) m"
    have i: "i \<in> mask_bits m" unfolding i_def using False by (intro Min_in) (simp_all add: mask_bits_empty)
    have "i < 32" using mask_bits_less [OF i] .
    then have "2 ^ i \<le> (2 :: nat) ^ 31" by (intro power_increasing) simp_all
    then have al: "ALIGN (int n) (bit_mask i) = int a"
      using ALIGN_align_up [OF \<open>i < 32\<close>, of n] less.prems(2) by (simp add: a_def)
    have a: "a \<le> 2 ^ 31"
      unfolding a_def using \<open>i < 32\<close> less.prems(2) by (intro align_up_least le_imp_power_dvd) simp_all
    note step = block_ends_step [OF False less.prems(1), of n, folded i_def, folded a_def, folded m1_def]
    have sub: "mask_bits m1 \<subset> mask_bits m"
      using i align_up_dvd [of i n] less.prems(1) unfolding m1_def clear_aligned_bits a_def [symmetric]
      by (fastforce simp: a_def)
    have len: "length data \<le> a" using less.prems(3) step(1) by simp
    have d1: "length (mark_block a data) = a + 4" using len by (simp add: mark_block_def eof_mark_def)
    have far: "length (mark_block a data) \<le> k" if k: "k \<in> block_ends a m1" for k
    proof -
      obtain j where j: "j \<in> mask_bits m1" "k = align_up a j" using k by (auto simp: block_ends_def)
      have "10 \<le> i" "10 \<le> j" using less.prems(1) i j(1) sub by auto
      moreover have "a < k" using step(2) k by simp
      ultimately have "a + 4 \<le> k" unfolding j(2) a_def by (intro align_up_gap) simp_all
      then show ?thesis unfolding d1 .
    qed
    have "pad_loop wr m1 (int a) (int (length (mark_block a data))) (mark_block a data) =
        Some (0, fold mark_block (sorted_list_of_set (block_ends a m1)) (mark_block a data))"
      using less.prems(1) sub far a by (intro less.hyps psubset_card_mono) auto
    moreover have "sorted_list_of_set (block_ends n m) = a # sorted_list_of_set (block_ends a m1)"
    proof -
      have fin: "finite (block_ends a m1)" by (simp add: block_ends_def)
      have "a \<notin> block_ends a m1" using step(2) by auto
      then show ?thesis unfolding step(1) using step(2) fin
        by (simp add: insort_is_Cons less_imp_le)
    qed
    ultimately show ?thesis
      using False len assms(1)
      by (subst pad_loop.simps)
        (simp add: lowest_mask_spec [OF False less.prems(1), folded i_def] al Let_def fill_complete flip: m1_def,
          simp add: write_end_def mark_block_def eof_mark_def max_def add.commute flip: m1_def)
  qed
qed

text \<open>The loop ends whatever the writes do.\<close>

lemma clear_aligned_lowest:
  assumes "m \<noteq> 0" "\<forall>i \<in> mask_bits m. 10 \<le> i"
  shows "mask_bits (clear_aligned (ALIGN n (lowest_mask m)) m) \<subset> mask_bits m"
proof -
  define i where "i = Min (mask_bits m)"
  have i: "i \<in> mask_bits m" unfolding i_def using assms(1) by (intro Min_in) (simp_all add: mask_bits_empty)
  have al: "ALIGN n (lowest_mask m) = int (nat (ALIGN n (bit_mask i)))"
    using assms by (simp add: lowest_mask_spec i_def ALIGN_def)
  have "ALIGN n (bit_mask i) AND uint (bit_mask i - 1) = 0"
    by (rule bit_eqI) (auto simp: ALIGN_def bit_simps unsigned_not_eq)
  then have "2 ^ i dvd nat (ALIGN n (bit_mask i))"
    using low_bits [OF mask_bits_less [OF i], of "nat (ALIGN n (bit_mask i))"] by (simp add: ALIGN_def)
  then show ?thesis using i assms(2) unfolding al clear_aligned_bits by fastforce
qed

lemma pad_loop_returns:
  "\<forall>i \<in> mask_bits m. 10 \<le> i \<Longrightarrow> \<exists>r. pad_loop wr m in_len out_len data = Some r"
proof (induction "card (mask_bits m)" arbitrary: m in_len out_len data rule: less_induct)
  case less
  show ?case
  proof (cases "m = 0")
    case False
    define m1 where "m1 = clear_aligned (ALIGN in_len (lowest_mask m)) m"
    have sub: "mask_bits m1 \<subset> mask_bits m" unfolding m1_def by (rule clear_aligned_lowest [OF False less.prems])
    have "\<exists>r. pad_loop wr m1 il ol d = Some r" for il ol d
      using less.prems sub by (intro less.hyps psubset_card_mono) auto
    then show ?thesis by (subst pad_loop.simps) (auto simp: Let_def split: sum.splits prod.splits simp flip: m1_def)
  qed (subst pad_loop.simps, simp)
qed

text \<open>
  An image of 4 GiB and more loses the high bits of its length, so the marker is put where the
  image ends and not at a boundary.
\<close>

lemma ALIGN_drops_high_bits: "ALIGN (2 ^ 32 + 4097) (bit_mask 12) = 8192"
  by (simp add: ALIGN_def bit_mask_def)

section \<open>The padded image\<close>

text \<open>The blocks are marked one behind the other, so every mark stays where it was written.\<close>

lemma fold_mark_block:
  assumes "sorted_wrt (\<lambda>a b. a + 4 \<le> b) ks" "\<forall>k \<in> set ks. length data \<le> k"
  defines "d \<equiv> fold mark_block ks data"
  shows "length d = (if ks = [] then length data else last ks + 4)"
    "take (length data) d = data"
    "k \<in> set ks \<Longrightarrow> take 4 (drop k d) = eof_mark"
    "length data \<le> j \<Longrightarrow> j < length d \<Longrightarrow> \<forall>k \<in> set ks. j \<notin> {k..<k + 4} \<Longrightarrow> d ! j = 0xff"
proof -
  have "length d = (if ks = [] then length data else last ks + 4) \<and> take (length data) d = data \<and>
      (\<forall>k \<in> set ks. take 4 (drop k d) = eof_mark) \<and>
      (\<forall>j. length data \<le> j \<longrightarrow> j < length d \<longrightarrow> (\<forall>k \<in> set ks. j \<notin> {k..<k + 4}) \<longrightarrow> d ! j = 0xff)"
    using assms(1,2) unfolding d_def
  proof (induction ks arbitrary: data)
    case (Cons k ks)
    define e where "e = mark_block k data"
    have len: "length e = k + 4" using Cons.prems(2) by (simp add: e_def mark_block_def eof_mark_def)
    note IH = Cons.IH [of e]
    have later: "\<forall>k \<in> set ks. length e \<le> k" using Cons.prems(1) by (simp add: len)
    define d where "d = fold mark_block ks e"
    have 1: "length d = (if ks = [] then length e else last ks + 4)" "take (length e) d = e"
      "\<forall>k \<in> set ks. take 4 (drop k d) = eof_mark"
      "\<And>j. length e \<le> j \<Longrightarrow> j < length d \<Longrightarrow> \<forall>k \<in> set ks. j \<notin> {k..<k + 4} \<Longrightarrow> d ! j = 0xff"
      using IH later Cons.prems(1) by (simp_all add: d_def)
    have e: "take (length data) e = data" "take 4 (drop k e) = eof_mark"
      "\<And>j. length data \<le> j \<Longrightarrow> j < k \<Longrightarrow> e ! j = 0xff"
      using Cons.prems(2) by (simp_all add: e_def mark_block_def eof_mark_def nth_append)
    have nth: "d ! j = e ! j" if "j < length e" for j using 1(2) that by (metis nth_take)
    have "take 4 (drop k d) = take 4 (drop k (take (length e) d))" by (simp add: len drop_take)
    then have k: "take 4 (drop k d) = eof_mark" unfolding 1(2) by (simp add: e(2))
    have "take (length data) d = take (length data) (take (length e) d)"
      using Cons.prems(2) by (simp add: len min_absorb1)
    then have t: "take (length data) d = data" unfolding 1(2) by (simp add: e(1))
    have "d ! j = 0xff" if j: "length data \<le> j" "j < length d" "\<forall>k \<in> set (k # ks). j \<notin> {k..<k + 4}" for j
    proof (cases "j < length e")
      case True
      then have "j < k" using j(3) len by auto
      then show ?thesis using nth [OF True] e(3) [OF j(1)] by simp
    next
      case False
      then show ?thesis using 1(4) [of j] j by simp
    qed
    then show ?case using 1(1,3) k t len by (auto simp: d_def e_def)
  qed simp
  then show "length d = (if ks = [] then length data else last ks + 4)"
    "take (length data) d = data"
    "k \<in> set ks \<Longrightarrow> take 4 (drop k d) = eof_mark"
    "length data \<le> j \<Longrightarrow> j < length d \<Longrightarrow> \<forall>k \<in> set ks. j \<notin> {k..<k + 4} \<Longrightarrow> d ! j = 0xff"
    by blast+
qed

lemma pad_mask_of_bits: "\<forall>i \<in> mask_bits (pad_mask_of args). 10 \<le> i" "pad_mask_of args \<noteq> 0"
proof -
  let ?f = "\<lambda>a m. ucast (ucast m OR strtoul0 a * 1024) :: uint"
  have shift: "x * 1024 = push_bit 10 x" for x :: ulong by (simp add: push_bit_eq_mult)
  have "\<forall>i \<in> mask_bits (fold ?f as m). 10 \<le> i" if "\<forall>i \<in> mask_bits m. 10 \<le> i" for as m
    using that
  proof (induction as arbitrary: m)
    case (Cons a as)
    have "\<forall>i \<in> mask_bits (?f a m). 10 \<le> i"
      using Cons.prems unfolding shift by (auto simp: mask_bits_def bit_simps)
    then show ?case using Cons.IH by simp
  qed simp
  from this [of 0 args] have f: "\<forall>i \<in> mask_bits (fold ?f args 0). 10 \<le> i" by (simp add: mask_bits_def)
  have d: "(4 * 1024) OR (8 * 1024) OR (64 * 1024) OR (128 * 1024) = (push_bit 10 204 :: uint)"
    by (simp add: push_bit_eq_mult)
  have "\<forall>i \<in> mask_bits (push_bit 10 x). 10 \<le> i" for x by (simp add: mask_bits_def bit_push_bit_iff)
  then have "\<forall>i \<in> mask_bits (if b then push_bit 10 204 else fold ?f args 0). 10 \<le> i" for b
    using f by (cases b) (simp_all only: if_True if_False)
  then show "\<forall>i \<in> mask_bits (pad_mask_of args). 10 \<le> i" unfolding pad_mask_of_def Let_def d .
  show "pad_mask_of args \<noteq> 0" by (simp add: pad_mask_of_def Let_def)
qed

lemma block_ends_apart:
  assumes "\<forall>i \<in> mask_bits m. 10 \<le> i"
  shows "sorted_wrt (\<lambda>a b. a + 4 \<le> b) (sorted_list_of_set (block_ends n m))"
  by (rule sorted_wrt_mono_rel [OF _ strict_sorted_list_of_set])
    (use assms in \<open>auto simp: block_ends_def intro: align_up_gap\<close>)

lemma sorted_last: "sorted xs \<Longrightarrow> x \<in> set xs \<Longrightarrow> x \<le> last xs"
  by (induction xs) auto

text \<open>
  (C39) \<open>padjffs2\<close> leaves the image as it was at the front of the file and, when every write is
  complete and the image has at most 2 GiB, puts the end-of-filesystem marker at the first
  boundary behind it of each of the block sizes asked for; all other bytes behind the image are
  \<open>0xff\<close>, and the file ends behind the marker of the largest block size. The block sizes are the
  bits of the mask computed from the arguments, 4, 8, 64 and 128 KiB without any.
\<close>

theorem padjffs2_marks_blocks:
  assumes "ph_malloc h" "ph_open h" "ph_lseek h" "\<forall>n len. ph_write h n len = int len"
    "2 \<le> length argv" "length data \<le> 2 ^ 31"
  defines "sizes \<equiv> {i. bit (pad_mask_of (drop 2 argv)) i}"
  shows "\<exists>d. padjffs2_main h argv data = Some (0, d) \<and> take (length data) d = data \<and>
    (\<forall>i \<in> sizes. take 4 (drop (align_up (length data) i) d) = eof_mark) \<and>
    (\<forall>j. length data \<le> j \<and> j < length d \<and> (\<forall>i \<in> sizes. j \<notin> {align_up (length data) i..<align_up (length data) i + 4})
       \<longrightarrow> d ! j = 0xff) \<and>
    length d = align_up (length data) (Max sizes) + 4"
proof -
  let ?m = "pad_mask_of (drop 2 argv)" and ?n = "length data"
  let ?ks = "sorted_list_of_set (block_ends ?n ?m)"
  have sizes: "sizes = mask_bits ?m" by (simp add: sizes_def mask_bits_def)
  have set: "set ?ks = align_up ?n ` sizes" by (simp add: block_ends_def sizes)
  have ge: "\<forall>k \<in> set ?ks. ?n \<le> k" using align_up_ge by (auto simp: set)
  have ne: "sizes \<noteq> {}" using pad_mask_of_bits(2) by (simp add: sizes mask_bits_empty)
  have "pad_loop (ph_write h) ?m (int ?n) (int ?n) data = Some (0, fold mark_block ?ks data)"
    using ge by (intro pad_loop_complete assms(4,6) pad_mask_of_bits(1)) (simp add: block_ends_def)
  then have main: "padjffs2_main h argv data = Some (0, fold mark_block ?ks data)"
    using assms(5) by (simp add: padjffs2_main_def pad_image_def assms(1-3))
  have fin: "finite sizes" by (simp add: sizes)
  have kne: "?ks \<noteq> []" using ne set by (metis image_is_empty list.set(1))
  have "last ?ks = align_up ?n (Max sizes)"
  proof (rule antisym)
    have "last ?ks \<in> align_up ?n ` sizes" using last_in_set [OF kne] unfolding set .
    then show "last ?ks \<le> align_up ?n (Max sizes)" using fin by (auto intro!: align_up_chain(2))
    have "align_up ?n (Max sizes) \<in> set ?ks" unfolding set using fin ne by simp
    then show "align_up ?n (Max sizes) \<le> last ?ks" by (intro sorted_last) simp
  qed
  then show ?thesis
    using main kne fold_mark_block [OF block_ends_apart [OF pad_mask_of_bits(1)] ge] unfolding set by (simp add: Ball_def image_iff) blast
qed

theorem padjffs2_marks_blocks_witness:
  "\<exists>d. padjffs2_main \<lparr>ph_malloc = True, ph_open = True, ph_lseek = True, ph_write = \<lambda>n len. int len\<rparr>
         [''padjffs2'', ''image'', ''4'', ''8''] [7, 7] = Some (0, d) \<and>
       take 2 d = [7, 7] \<and> take 4 (drop 4096 d) = eof_mark \<and> take 4 (drop 8192 d) = eof_mark \<and> length d = 8196"
proof -
  define h where "h = \<lparr>ph_malloc = True, ph_open = True, ph_lseek = True, ph_write = \<lambda>n len. int len\<rparr>"
  have strtoul: "strtoul0 ''4'' = 4" "strtoul0 ''8'' = 8"
    by (simp_all add: strtoul0_def char_class_defs hex_val_def)
  have m: "pad_mask_of (drop 2 [''padjffs2'', ''image'', ''4'', ''8'']) = 0x3000"
    by (simp add: pad_mask_of_def strtoul)
  have e: "(0x3000 :: uint) = bit_mask 12 OR bit_mask 13" by (simp add: bit_mask_def)
  have sizes: "{i. bit (0x3000 :: uint) i} = {12, 13}" unfolding e bit_or_iff bit_bit_mask by auto
  have h: "ph_malloc h" "ph_open h" "ph_lseek h" "\<forall>n len. ph_write h n len = int len" by (simp_all add: h_def)
  have l: "length [7, 7 :: byte] = 2" by simp
  have a: "align_up 2 12 = 4096" "align_up 2 13 = 8192" by (simp_all add: align_up_def)
  have argv: "2 \<le> length [''padjffs2'', ''image'', ''4'', ''8'']" "length [7, 7 :: byte] \<le> 2 ^ 31" by simp_all
  show ?thesis
    using padjffs2_marks_blocks [OF h argv] unfolding m sizes l h_def [symmetric] by (auto simp: a)
qed

end
