(* ===== verification/Hexof.thy ===== *)
theory Hexof
  imports Opkg_Base
begin

text \<open>
  The program \<open>hexof\<close> (\<open>hexof/hexof.c\<close>): it prints where a pattern of bytes, given in hexadecimal,
  first occurs in a file. \<open>getopt\<close> is a parameter: the options it reports and the operands it
  leaves. The file is \<open>None\<close> when it does not open, else its bytes and whether all of them could
  be read. The result is the exit status and what is printed to the standard output.
\<close>

section \<open>The program\<close>

definition is_hex :: "char \<Rightarrow> bool" where
  "is_hex c \<longleftrightarrow> (48 \<le> cval c \<and> cval c \<le> 57) \<or> (65 \<le> cval c \<and> cval c \<le> 70) \<or> (97 \<le> cval c \<and> cval c \<le> 102)"

text \<open>The inner and the outer loop of \<open>_memmem\<close>; the rest of the buffer is a list.\<close>

fun same_bytes :: "byte list \<Rightarrow> byte list \<Rightarrow> bool" where
  "same_bytes [] bf = True"
| "same_bytes (p # pt) [] = False"
| "same_bytes (p # pt) (b # bf) = (if p \<noteq> b then False else same_bytes pt bf)"

fun memmem_loop :: "byte list \<Rightarrow> byte list \<Rightarrow> nat \<Rightarrow> nat option" where
  "memmem_loop pt [] i = (if same_bytes pt [] then Some i else None)"
| "memmem_loop pt (b # bf) i =
     (if length (b # bf) < length pt then None
      else if same_bytes pt (b # bf) then Some i else memmem_loop pt bf (i + 1))"

definition memmem :: "byte list \<Rightarrow> byte list \<Rightarrow> nat option" where
  "memmem s1 s2 = (if length s2 > length s1 then None else memmem_loop s2 s1 0)"

definition pattern_size :: nat where "pattern_size = 128"

text \<open>\<open>sscanf\<close> with \<open>%2hhx\<close> on two digits. Behind an odd number of digits stands the NUL of the string.\<close>

definition scan_byte :: "char \<Rightarrow> char \<Rightarrow> byte" where
  "scan_byte c d = (case (hex_val c, hex_val d) of (Some a, Some b) \<Rightarrow> of_nat (16 * a + b) | _ \<Rightarrow> 0)"

fun pattern_loop :: "string \<Rightarrow> byte list \<Rightarrow> byte list option" where
  "pattern_loop [] pattern = Some pattern"
| "pattern_loop [c] pattern = None"
| "pattern_loop (c # d # cs) pattern =
     (if length pattern \<ge> pattern_size then None
      else if \<not> is_hex c \<or> \<not> is_hex d then None
      else pattern_loop cs (pattern @ [scan_byte c d]))"

datatype getopt = Opt_s string | Opt_h | Opt_unknown

fun options :: "getopt list \<Rightarrow> ulong \<Rightarrow> ulong + int" where
  "options [] start_offset = Inl start_offset"
| "options (Opt_s optarg # os) start_offset = options os (fst (strtoul10 optarg))"
| "options (Opt_h # os) start_offset = Inr 0"
| "options (Opt_unknown # os) start_offset = Inr 1"

definition hexof_main :: "getopt list \<Rightarrow> string list \<Rightarrow> (byte list \<times> bool) option \<Rightarrow> int \<times> string" where
  "hexof_main opts args file =
     (case options opts 0 of
        Inr status \<Rightarrow> (status, [])
      | Inl start_offset \<Rightarrow>
          if length args < 2 then (1, [])
          else
            (case pattern_loop (args ! 0) [] of
               None \<Rightarrow> (1, [])
             | Some pattern \<Rightarrow>
                 (case file of
                    None \<Rightarrow> (1, [])
                  | Some (data, read) \<Rightarrow>
                      if \<not> read then (1, [])
                      else if unat start_offset \<ge> length data then (1, [])
                      else
                        (case memmem (drop (unat start_offset) data) pattern of
                           Some k \<Rightarrow> (0, show_nat (unat start_offset + k) @ [CHR 0x0A])
                         | None \<Rightarrow> (2, [])))))"

section \<open>The pattern\<close>

text \<open>The text writes the bytes as two hexadecimal digits each, in either case.\<close>

definition hex_pairs :: "string \<Rightarrow> byte list \<Rightarrow> bool" where
  "hex_pairs text p \<longleftrightarrow> length text = 2 * length p \<and>
     (\<forall>k < length p. \<exists>a b. hex_val (text ! (2 * k)) = Some a \<and> hex_val (text ! (2 * k + 1)) = Some b \<and>
        p ! k = of_nat (16 * a + b))"

lemma is_hex_val: "is_hex c \<longleftrightarrow> hex_val c \<noteq> None"
  by (auto simp: is_hex_def hex_val_def Let_def)

lemma hex_pairs_Cons:
  "hex_pairs (c # d # cs) p \<longleftrightarrow> (\<exists>b q. p = b # q \<and> is_hex c \<and> is_hex d \<and> b = scan_byte c d \<and> hex_pairs cs q)"
  by (cases p) (auto simp: hex_pairs_def All_less_Suc2 is_hex_val scan_byte_def)

lemma pattern_loop_pairs:
  "hex_pairs ds p \<Longrightarrow> length pt + length p \<le> pattern_size \<Longrightarrow> pattern_loop ds pt = Some (pt @ p)"
proof (induction ds pt arbitrary: p rule: pattern_loop.induct)
  case (3 c d cs pt)
  then show ?case by (auto simp: hex_pairs_Cons)
qed (auto simp: hex_pairs_def)

section \<open>The search\<close>

definition occurs :: "byte list \<Rightarrow> byte list \<Rightarrow> nat \<Rightarrow> bool" where
  "occurs p data n \<longleftrightarrow> n + length p \<le> length data \<and> take (length p) (drop n data) = p"

lemma same_bytes_iff: "same_bytes pt bf \<longleftrightarrow> take (length pt) bf = pt"
  by (induction pt bf rule: same_bytes.induct) auto

lemma occurs_0: "occurs p data 0 \<longleftrightarrow> same_bytes p data"
  by (auto simp: occurs_def same_bytes_iff) (metis length_take min.cobounded1)

lemma occurs_Suc: "occurs p (b # data) (Suc n) \<longleftrightarrow> occurs p data n"
  by (simp add: occurs_def)

lemma memmem_loop_least:
  "memmem_loop p data i =
     (if \<exists>n. occurs p data n then Some (i + (LEAST n. occurs p data n)) else None)"
proof (induction p data i rule: memmem_loop.induct)
  case (1 pt i)
  have "occurs pt [] n \<longleftrightarrow> n = 0 \<and> pt = []" for n by (auto simp: occurs_def)
  then show ?case by (cases pt) auto
next
  case (2 pt b bf i)
  show ?case
  proof (cases "same_bytes pt (b # bf)")
    case True
    then have "occurs pt (b # bf) 0" "\<not> length (b # bf) < length pt" unfolding occurs_0 [symmetric] by (auto simp: occurs_def)
    then show ?thesis using True Least_eq_0 [of "occurs pt (b # bf)"] by auto
  next
    case False
    then have 0: "\<not> occurs pt (b # bf) 0" by (simp add: occurs_0)
    have ex: "(\<exists>n. occurs pt (b # bf) n) \<longleftrightarrow> (\<exists>n. occurs pt bf n)"
      using 0 by (metis not0_implies_Suc occurs_Suc)
    have least: "(LEAST n. occurs pt (b # bf) n) = Suc (LEAST n. occurs pt bf n)" if "occurs pt bf m" for m
      using Least_Suc [of "occurs pt (b # bf)" "Suc m"] that 0 by (simp add: occurs_Suc)
    have "\<not> occurs pt bf n" if "length (b # bf) < length pt" for n using that by (simp add: occurs_def)
    then show ?thesis using 2 False ex least by auto
  qed
qed

lemma memmem_least:
  "memmem data p = (if \<exists>n. occurs p data n then Some (LEAST n. occurs p data n) else None)"
proof -
  have "\<not> occurs p data n" if "length p > length data" for n using that by (simp add: occurs_def)
  then show ?thesis by (auto simp: memmem_def memmem_loop_least)
qed

text \<open>
  (C40) For a pattern of at most 128 bytes, written in hexadecimal digits of either case, and a start
  inside the file, \<open>hexof\<close> prints the least offset from the start on at which the pattern occurs
  and returns 0, or prints nothing and returns 2 when it does not occur.
\<close>

theorem hexof_finds_first:
  assumes "options opts 0 = Inl start" "hex_pairs text p" "length p \<le> pattern_size" "unat start < length data"
  shows "hexof_main opts [text, file] (Some (data, True)) =
    (if \<exists>n \<ge> unat start. occurs p data n
     then (0, show_nat (LEAST n. unat start \<le> n \<and> occurs p data n) @ [CHR 0x0A]) else (2, []))"
proof -
  let ?o = "unat start"
  have o: "occurs p (drop ?o data) = (\<lambda>n. occurs p data (?o + n))"
    using assms(4) by (auto simp: occurs_def add.commute fun_eq_iff)
  have ex: "(\<exists>n \<ge> ?o. occurs p data n) \<longleftrightarrow> (\<exists>n. occurs p data (?o + n))"
    by (metis le_add1 le_add_diff_inverse)
  have "?o + (LEAST n. occurs p data (?o + n)) = (LEAST n. ?o \<le> n \<and> occurs p data n)" if "occurs p data (?o + m)" for m
  proof (rule Least_equality [symmetric])
    show "?o \<le> ?o + (LEAST n. occurs p data (?o + n)) \<and> occurs p data (?o + (LEAST n. occurs p data (?o + n)))"
      using LeastI [of "\<lambda>n. occurs p data (?o + n)", OF that] by simp
    show "?o + (LEAST n. occurs p data (?o + n)) \<le> n" if "?o \<le> n \<and> occurs p data n" for n
      using Least_le [of "\<lambda>n. occurs p data (?o + n)" "n - ?o"] that by simp linarith
  qed
  then show ?thesis
    using assms pattern_loop_pairs [OF assms(2), of "[]"] unfolding ex
    by (auto simp: hexof_main_def memmem_least o)
qed

theorem hexof_finds_first_witness:
  "hexof_main [Opt_s ''1''] [''dEaD'', ''image''] (Some ([0xde, 0xad, 0, 0xde, 0xad, 0xde, 0xad], True)) =
   (0, ''3'' @ [CHR 0x0A])"
proof -
  let ?data = "[0xde, 0xad, 0, 0xde, 0xad, 0xde, 0xad] :: byte list"
  have o: "options [Opt_s ''1''] 0 = Inl 1" by (simp add: strtoul10_def char_class_defs digit_val_def num_def Let_def)
  have p: "hex_pairs ''dEaD'' [0xde, 0xad]"
    by (simp add: hex_pairs_def hex_val_def cval_def All_less_Suc2 numeral_2_eq_2 eval_nat_numeral)
  have "(LEAST n. 1 \<le> n \<and> occurs [0xde, 0xad] ?data n) = 3"
  proof (rule Least_equality)
    fix n assume n: "1 \<le> n \<and> occurs [0xde, 0xad] ?data n"
    show "3 \<le> n"
    proof (rule ccontr)
      assume "\<not> 3 \<le> n"
      then have "n = 1 \<or> n = 2" using n by auto
      then show False using n by (auto simp: occurs_def)
    qed
  qed (simp add: occurs_def)
  moreover have "\<exists>n \<ge> 1. occurs [0xde, 0xad] ?data n" by (rule exI [of _ 3]) (simp add: occurs_def)
  moreover have "show_nat 3 = ''3''" by (simp add: show_nat.simps digit_char_def char_of_def bit_Suc_0_iff)
  ultimately show ?thesis using hexof_finds_first [OF o p, of ?data "''image''"] by (simp add: pattern_size_def)
qed

end
