(* ===== verification/Spec2Isabelle.thy ===== *)
theory Spec2Isabelle
  imports Opkg_Compare Opkg_Status_File Opkg_List Opkg_Insert Opkg_Unsatisfied Opkg_Sha256 Opkg_Remove_Files Opkg_Api
    Padjffs2 Hexof
begin

text \<open>
  A verification library for the programs of this repository that carry logic of their own: the
  package manager opkg (\<open>src/opkg/libopkg\<close> and the parts of \<open>src/opkg/libbb\<close> it rests on), the
  image padder \<open>src/padjffs2\<close> and the byte searcher \<open>src/hexof\<close>. File names below are relative to
  \<open>src/opkg/libopkg\<close> unless they say otherwise.

  \<^bold>\<open>How the program works.\<close> opkg reads the lists of the feeds and the status files of its
  destinations into tables (a hash table from names to abstract packages, each with the packages of
  that name and the abstract packages that provide and replace it), resolves what the user asks for
  on these tables, downloads, verifies, unpacks, configures and removes packages through scripts
  and archives, and finally writes the status files back. The three structures that everything
  shares, the configuration, the tables and the owners of files, are globals of the C program; here
  they are the fields of the record \<^typ>\<open>'w sys\<close>, which each operation takes and returns.

  \<^bold>\<open>Conventions.\<close>
  \<^item> C strings are \<^typ>\<open>string\<close> without the terminating zero; a pointer that may be null is an
    option. Machine integers whose width matters are words (\<open>uint\<close>, the flags, the digests);
    counters that cannot overflow in memory are \<^typ>\<open>int\<close> or \<^typ>\<open>nat\<close>.
  \<^item> Packages and abstract packages live in a store and are named by references, so aliasing is
    explicit; \<open>list.h\<close> is modelled on a heap of nodes with their two pointers.
  \<^item> A function that would read a null pointer or run behind an array returns \<^const>\<open>None\<close>, so that
    a result \<open>Some\<close> also says that this does not happen. Error codes are the integers of the source.
  \<^item> What the program asks of the system (files, directories, child processes, \<open>getenv\<close>,
    \<open>fnmatch\<close>, the extraction of archives, \<open>mkdtemp\<close>) are functions of the record \<^typ>\<open>'w env\<close> on
    an arbitrary type of worlds; its other fields are the configuration. No property assumes
    anything about them that its statement does not say.
  \<^item> The modelled build is the one of this repository: \<open>--disable-curl --disable-gpg\<close>, without
    \<open>HAVE_SHA256\<close>, \<open>HAVE_OPENSSL\<close> and \<open>HAVE_PATHFINDER\<close>.

  \<^bold>\<open>Recursion.\<close> Loops over lists are folds or structural recursion. Loops over a stream or until
  nothing changes are \<open>partial_function (option)\<close>, where not ending is \<^const>\<open>None\<close>. Functions that call
  themselves through the tables take fuel for the depth of the calls, and running out is \<^const>\<open>None\<close>;
  for \<open>opkg_install_pkg\<close> what happens then is a parameter (\<open>install_nested\<close>) that a result with
  enough fuel does not depend on. That enough fuel exists is proved for each: one more than the abstract packages not yet checked
  for \<open>pkg_hash_fetch_unsatisfied_dependencies\<close>, linear in
  the packages and abstract packages for \<open>opkg_remove_pkg\<close>, the
  unmarked abstract packages and the installed packages for \<open>opkg_install_pkg\<close>, the number of packages for the depth-first search before the
  configuration.

  \<^bold>\<open>The theories\<close>, each over those named before it:
  \<^item> \<open>Opkg_Base\<close>: characters, C library functions, the fold \<open>foldM\<close> over fallible steps and the
    lemmas the components share. \<open>Opkg_Compare\<close>: the locale \<open>comparator\<close> of three-way
    comparisons, interpreted on \<open>strcmp\<close>, on the version order and on the order of packages, and
    \<open>qsort\<close>. C does not say in which order equal elements come out of it; the definitions use a
    stable one (locale \<open>stable_sort\<close>), and the choice of a candidate, which needs stability, is
    proved for every stable sort.
  \<^item> \<open>Opkg_Types\<close>, \<open>Opkg_State\<close>: the structs and enumerations of \<open>pkg.h\<close>, \<open>pkg_depends.h\<close> and
    \<open>nv_pair.h\<close>, and the names of states. \<open>Opkg_Parse_Util\<close>: \<open>parse_util.c\<close>, the line readers and
    the stream reader.
  \<^item> \<open>Opkg_Version\<close>: \<open>verrevcmp\<close>, \<open>pkg_compare_versions\<close>, \<open>parse_version\<close> and the two checks of a
    version constraint; the order is that of the Debian policy, a total preorder.
  \<^item> \<open>Opkg_Parse\<close>, \<open>Opkg_Format\<close>, \<open>Opkg_Status_File\<close>: \<open>pkg_parse.c\<close>, the writers of \<open>pkg.c\<close> and
    \<open>pkg_depends.c\<close>, and that a status paragraph is read back as it was written.
  \<^item> \<open>Opkg_Hash_Table\<close>, \<open>Opkg_List\<close>: \<open>hash_table.c\<close> as a finite map (locale \<open>string_map_remove\<close>),
    \<open>list.h\<close> and \<open>void_list.c\<close> as sequences (locale \<open>sequence_store\<close>).
  \<^item> \<open>Opkg_Store\<close>, \<open>Opkg_Depends\<close>, \<open>Opkg_Insert\<close>, \<open>Opkg_Candidates\<close>, \<open>Opkg_Unsatisfied\<close>: the tables,
    the builders of the dependency graph (\<open>pkg_depends.c\<close>), \<open>hash_insert_pkg\<close>, the choice of a
    candidate (\<open>pkg_hash.c\<close>), and the closure of dependencies. The two evaluators of version
    constraints (\<open>pkg_depends.c\<close>, \<open>pkg.c\<close>) agree but for the version itself under \<open><<\<close> and \<open>>>\<close>.
  \<^item> \<open>Opkg_Digest\<close>, \<open>Opkg_Md5\<close>, \<open>Opkg_Sha256\<close>: the buffering the digests share (locale
    \<open>block_digest\<close>) and the digests against their standards.
  \<^item> \<open>Opkg_World\<close>, \<open>Opkg_Essential\<close>, \<open>Opkg_Download\<close>: configuration, owners of files, scripts, the
    status files, \<open>opkg_download.c\<close>.
  \<^item> \<open>Opkg_Remove\<close>, \<open>Opkg_Remove_Files\<close>: \<open>opkg_remove.c\<close>.
  \<^item> \<open>Opkg_Install\<close>, \<open>Opkg_Install_Props\<close>, \<open>Opkg_Install_Runs\<close>, \<open>Opkg_Install_Fuel\<close>,
    \<open>Opkg_Install_Dry\<close>, \<open>Opkg_Install_Example\<close>: \<open>opkg_install.c\<close> and \<open>opkg_upgrade.c\<close>, the locales of
    what recursive calls may change (\<open>removal\<close>, \<open>unsat_runs\<close>, \<open>installation\<close>), of unblocking
    \<open>SIGINT\<close> (\<open>unblocking\<close>) and of suppressed actions (\<open>dry_run\<close>).
  \<^item> \<open>Opkg_Configure\<close>, \<open>Opkg_Load\<close>, \<open>Opkg_Commands\<close>, \<open>Opkg_Queries\<close>: the configuration of packages,
    the loading of lists and status files, the commands of \<open>opkg_cmd.c\<close> and their table.
  \<^item> \<open>Opkg_Active_List\<close>, \<open>Opkg_Upgrade_List\<close>: the intrusive lists of \<open>active_list.c\<close> on the heap of
    \<open>Opkg_List\<close>, seen as forests that are traversed in post-order, the collection of the packages to
    upgrade (\<open>opkg_upgrade.c\<close>), and \<open>list_upgradable\<close> against a loop over the installed packages.
  \<^item> \<open>Opkg_Numbers\<close>, \<open>Opkg_Release\<close>: \<open>strtol\<close> and \<open>atoi\<close>, release files (\<open>release_parse.c\<close>,
    \<open>cksum_list.c\<close>), the download and verification of lists (\<open>release.c\<close>), \<open>update\<close>, and the lists of
    distributions in \<open>pkg_hash_load_feeds\<close>.
  \<^item> \<open>Opkg_Conf\<close>: \<open>opkg_conf.c\<close>, \<open>pkg_dest.c\<close> and \<open>pkg_src.c\<close>: options, configuration files, destinations,
    the lock and the temporary directory of a run, with the labels of \<open>opkg_conf_load\<close> as functions.
  \<^item> \<open>Opkg_Api\<close>: \<open>opkg.c\<close>, the interface for other programs, over the theories before it.
  \<^item> \<open>Padjffs2\<close>, \<open>Hexof\<close>: the two small programs, whole.

  \<^bold>\<open>Not modelled.\<close>
  \<^item> \<open>src/squashfs-tools\<close> is the squashfs 4.2 distribution of another project, kept here with patches
    to its build; it is third-party code.
  \<^item> \<open>opkg-cl.c\<close>: the command line is parsed with \<open>getopt_long\<close>; what it sets is a parameter.
  \<^item> Archives and compression (\<open>unarchive.c\<close>, \<open>unzip.c\<close>, \<open>gz_open.c\<close> of \<open>libbb\<close>): extraction is a
    function of the environment.
  \<^item> Messages (\<open>opkg_message.c\<close>), the handler of \<open>SIGINT\<close>, signatures, and the scripts under
    \<open>src/opkg/utils\<close> and the tests, which hold no logic of the package manager.
\<close>

end
